(* ===== verification/Prelude.thy ===== *)
theory Prelude
  imports Main "HOL-Library.Word"
begin

text \<open>
  Shared vocabulary of the RMDB development: the constants of \<^verbatim>\<open>common/config.h\<close>, the
  exceptions of \<^verbatim>\<open>errors.h\<close> as values, byte-addressed memory with the copying
  primitives of the C library (\<open>memcpy\<close>, \<open>memset\<close>), the little-endian layout of
  the machine integers that are stored in pages and log records, and the state-and-exception
  type in which every operation of the program is written.

  An operation that the C++ code runs on some object is a function
  \<open>'s \<Rightarrow> (db_error + 'a) \<times> 's\<close>: it returns a value or throws, and in both cases the state
  reached so far is kept, since a C++ exception does not undo the assignments made before it.
\<close>

named_theorems rmdb_consts "numeric values of the configuration constants"
named_theorems preserving "operations and combinators that leave a part of the state alone"

section \<open>Configuration constants\<close>

definition INVALID_PAGE_ID :: int where "INVALID_PAGE_ID = - 1"
definition INVALID_TXN_ID :: int where "INVALID_TXN_ID = - 1"
definition INVALID_LSN :: int where "INVALID_LSN = - 1"
definition INVALID_TS :: int where "INVALID_TS = - 1"
definition PAGE_SIZE :: nat where "PAGE_SIZE = 4096"
definition LOG_BUFFER_SIZE :: nat where "LOG_BUFFER_SIZE = 1024 * PAGE_SIZE"
definition LOG_FILE_NAME :: string where "LOG_FILE_NAME = ''db.log''"

lemmas [rmdb_consts] = INVALID_PAGE_ID_def INVALID_TXN_ID_def INVALID_LSN_def INVALID_TS_def
  PAGE_SIZE_def LOG_BUFFER_SIZE_def

section \<open>Exceptions\<close>

text \<open>
  The exception classes of \<^verbatim>\<open>errors.h\<close> that the modelled code throws, \<open>BadArrayLength\<close> for an array
  allocation of negative length, and outcomes that are not C++ exceptions but end a call: an access
  out of range, a failed \<open>assert\<close>, a null pointer that is dereferenced, a pointer to a deleted object
  that is followed, a thread that waits for a mutex it already holds, and a loop that does not end.
\<close>

datatype abort_reason = LOCK_ON_SHIRINKING | UPGRADE_CONFLICT | DEADLOCK_PREVENTION

datatype db_error =
    InternalError string
  | UnixError
  | FileNotOpenError int
  | FileExistsError string
  | FileNotFoundError string
  | InvalidRecordSizeError int
  | IndexEntryNotFoundError
  | InvalidColLengthError int
  | StringOverflowError
  | InvalidValueCountError
  | IncompatibleTypeError string string
  | DatabaseNotFoundError string
  | DatabaseExistsError string
  | IndexNotFoundError string "string list"
  | IndexExistsError string "string list"
  | UniqueIndexViolationError string "string list"
  | TableNotFoundError string
  | TableExistsError string
  | ColumnNotFoundError string
  | AmbiguousColumnError string
  | TransactionAbortException int abort_reason
  | RuntimeError string
  | OutOfRange string
  | AssertionFailed
  | NullDereference
  | BadArrayLength
  | SelfDeadlock
  | DanglingPointer
  | Diverges

section \<open>State and exceptions\<close>

type_synonym ('s, 'a) op = "'s \<Rightarrow> (db_error + 'a) \<times> 's"

definition ret :: "'a \<Rightarrow> ('s, 'a) op" where
  "ret x = (\<lambda>s. (Inr x, s))"

definition raise :: "db_error \<Rightarrow> ('s, 'a) op" where
  "raise e = (\<lambda>s. (Inl e, s))"

definition bindE :: "('s, 'a) op \<Rightarrow> ('a \<Rightarrow> ('s, 'b) op) \<Rightarrow> ('s, 'b) op" where
  "bindE m k = (\<lambda>s. case m s of (Inl e, t) \<Rightarrow> (Inl e, t) | (Inr x, t) \<Rightarrow> k x t)"

definition getS :: "('s, 's) op" where
  "getS = (\<lambda>s. (Inr s, s))"

definition updS :: "('s \<Rightarrow> 's) \<Rightarrow> ('s, unit) op" where
  "updS f = (\<lambda>s. (Inr (), f s))"

definition assertE :: "bool \<Rightarrow> ('s, unit) op" where
  "assertE b = (if b then ret () else raise AssertionFailed)"

lemma ret_apply [simp]: "ret x s = (Inr x, s)"
  by (simp add: ret_def)

lemma raise_apply [simp]: "raise e s = (Inl e, s)"
  by (simp add: raise_def)

lemma getS_apply [simp]: "getS s = (Inr s, s)"
  by (simp add: getS_def)

lemma updS_apply [simp]: "updS f s = (Inr (), f s)"
  by (simp add: updS_def)

lemma assertE_apply [simp]: "assertE b s = (if b then (Inr (), s) else (Inl AssertionFailed, s))"
  by (simp add: assertE_def)

lemma bindE_apply: "bindE m k s = (case m s of (Inl e, t) \<Rightarrow> (Inl e, t) | (Inr x, t) \<Rightarrow> k x t)"
  by (simp add: bindE_def)

lemma bindE_Inr: "m s = (Inr x, t) \<Longrightarrow> bindE m k s = k x t"
  by (simp add: bindE_def)

lemma bindE_Inl: "m s = (Inl e, t) \<Longrightarrow> bindE m k s = (Inl e, t)"
  by (simp add: bindE_def)

lemma bindE_ret [simp]: "bindE (ret x) k = k x"
  by (simp add: bindE_def fun_eq_iff)

lemma bindE_raise [simp]: "bindE (raise e) k = raise e"
  by (simp add: bindE_def fun_eq_iff)

lemma bindE_getS [simp]: "bindE getS k s = k s s"
  by (simp add: bindE_def)

lemma bindE_updS [simp]: "bindE (updS f) k s = k () (f s)"
  by (simp add: bindE_def)

lemma bindE_assoc: "bindE (bindE m k) h = bindE m (\<lambda>x. bindE (k x) h)"
  by (auto simp: bindE_def fun_eq_iff split: prod.splits sum.splits)

lemma bindE_eq_Inr:
  "bindE m k s = (Inr y, u) \<longleftrightarrow> (\<exists>x t. m s = (Inr x, t) \<and> k x t = (Inr y, u))"
  by (auto simp: bindE_def split: prod.splits sum.splits)

lemma bindE_InrE:
  assumes "bindE m k s = (Inr y, u)"
  obtains x t where "m s = (Inr x, t)" and "k x t = (Inr y, u)"
  using assms by (auto simp: bindE_eq_Inr)

text \<open>
  What a \<open>catch\<close> of \<open>std::exception\<close> catches: the thrown errors, not undefined behaviour, a failed
  assertion, a deadlock or a loop that does not end.
\<close>

definition cxx_exception :: "db_error \<Rightarrow> bool" where
  "cxx_exception e \<longleftrightarrow> (case e of OutOfRange _ \<Rightarrow> False | AssertionFailed \<Rightarrow> False | NullDereference \<Rightarrow> False
     | SelfDeadlock \<Rightarrow> False | DanglingPointer \<Rightarrow> False | Diverges \<Rightarrow> False | _ \<Rightarrow> True)"

definition tryE :: "('s, 'a) op \<Rightarrow> ('s, 'a) op \<Rightarrow> ('s, 'a) op" where
  "tryE m h = (\<lambda>s. case m s of (Inl e, t) \<Rightarrow> if cxx_exception e then h t else (Inl e, t) | (Inr x, t) \<Rightarrow> (Inr x, t))"

lemma tryE_Inr: "m s = (Inr x, t) \<Longrightarrow> tryE m h s = (Inr x, t)"
  by (simp add: tryE_def)

text \<open>A \<open>for\<close> loop over a list of values, left to right, that an exception leaves.\<close>

primrec forE :: "'x list \<Rightarrow> ('x \<Rightarrow> ('s, unit) op) \<Rightarrow> ('s, unit) op" where
  "forE [] body = ret ()"
| "forE (x # xs) body = bindE (body x) (\<lambda>_. forE xs body)"

text \<open>The end of an unbounded walk: not returning is an error of its own.\<close>

definition returned :: "((db_error + 'b) \<times> 's) option \<Rightarrow> 's \<Rightarrow> (db_error + 'b) \<times> 's" where
  "returned r s = (case r of None \<Rightarrow> (Inl Diverges, s) | Some x \<Rightarrow> x)"

lemma returned_Some [simp]: "returned (Some x) s = x"
  by (simp add: returned_def)

text \<open>An operation on a component of the state, lifted to pairs \<open>(handle, state)\<close>.\<close>

definition on_snd :: "('s, 'a) op \<Rightarrow> ('h \<times> 's, 'a) op" where
  "on_snd m = (\<lambda>(h, s). case m s of (r, t) \<Rightarrow> (r, (h, t)))"

lemma on_snd_apply: "on_snd m (h, s) = (fst (m s), (h, snd (m s)))"
  by (simp add: on_snd_def split: prod.splits)

text \<open>\<open>preserves p m\<close>: whatever \<open>m\<close> does, and however it ends, the part \<open>p\<close> of the state stays the same.\<close>

definition preserves :: "('s \<Rightarrow> 'v) \<Rightarrow> ('s, 'a) op \<Rightarrow> bool" where
  "preserves p m \<longleftrightarrow> (\<forall>s. p (snd (m s)) = p s)"

lemma preservesD: "preserves p m \<Longrightarrow> m s = (r, t) \<Longrightarrow> p t = p s"
  unfolding preserves_def by (metis snd_conv)

lemma preservesI: "(\<And>s. p (snd (m s)) = p s) \<Longrightarrow> preserves p m"
  by (simp add: preserves_def)

lemma preserves_basic [preserving]:
  "preserves p (ret x)" "preserves p (raise e)" "preserves p getS" "preserves p (assertE b)"
  by (simp_all add: preserves_def)

lemma preserves_updS [preserving]: "(\<And>s. p (f s) = p s) \<Longrightarrow> preserves p (updS f)"
  by (simp add: preserves_def)

lemma preserves_bindE [preserving]:
  assumes m: "preserves p m" and k: "\<And>x. preserves p (k x)"
  shows "preserves p (bindE m k)"
proof (rule preservesI)
  fix s
  obtain r t where r: "m s = (r, t)" by fastforce
  then have t: "p t = p s" by (rule preservesD [OF m])
  show "p (snd (bindE m k s)) = p s"
    using k t by (cases r) (simp_all add: bindE_def r preserves_def)
qed

lemma preserves_if [preserving]:
  "(b \<Longrightarrow> preserves p m) \<Longrightarrow> (\<not> b \<Longrightarrow> preserves p n) \<Longrightarrow> preserves p (if b then m else n)"
  by simp

lemma preserves_option [preserving]:
  "(x = None \<Longrightarrow> preserves p m) \<Longrightarrow> (\<And>y. preserves p (k y)) \<Longrightarrow> preserves p (case x of None \<Rightarrow> m | Some y \<Rightarrow> k y)"
  by (simp split: option.split)

lemma preserves_prod [preserving]:
  "(\<And>a b. preserves p (k a b)) \<Longrightarrow> preserves p (case z of (a, b) \<Rightarrow> k a b)"
  by (simp add: case_prod_unfold)

lemma preserves_Let [preserving]: "(\<And>x. preserves p (k x)) \<Longrightarrow> preserves p (Let v k)"
  by (simp add: Let_def)

lemma preserves_forE [preserving]: "(\<And>x. preserves p (body x)) \<Longrightarrow> preserves p (forE xs body)"
proof (induction xs)
  case Nil
  show ?case unfolding forE.simps by (rule preserves_basic)
next
  case (Cons x xs)
  show ?case unfolding forE.simps by (rule preserves_bindE [OF Cons(2) Cons(1) [OF Cons(2)]])
qed

lemma preserves_comp: "preserves p m \<Longrightarrow> (\<And>s t. p s = p t \<Longrightarrow> q s = q t) \<Longrightarrow> preserves q m"
  unfolding preserves_def by blast

section \<open>Memory\<close>

type_synonym byte = "8 word"
type_synonym mem = "nat \<Rightarrow> byte"

definition zero_mem :: mem where
  "zero_mem = (\<lambda>_. 0)"

definition mem_copy :: "mem \<Rightarrow> nat \<Rightarrow> mem \<Rightarrow> nat \<Rightarrow> nat \<Rightarrow> mem" where
  "mem_copy dst d src s n = (\<lambda>i. if d \<le> i \<and> i < d + n then src (s + (i - d)) else dst i)"

definition mem_fill :: "mem \<Rightarrow> nat \<Rightarrow> nat \<Rightarrow> byte \<Rightarrow> mem" where
  "mem_fill m off n b = (\<lambda>i. if off \<le> i \<and> i < off + n then b else m i)"

definition mem_put :: "mem \<Rightarrow> nat \<Rightarrow> byte list \<Rightarrow> mem" where
  "mem_put m off bs = (\<lambda>i. if off \<le> i \<and> i < off + length bs then bs ! (i - off) else m i)"

definition mem_read :: "mem \<Rightarrow> nat \<Rightarrow> nat \<Rightarrow> byte list" where
  "mem_read m off n = map m [off..<off + n]"

definition mem_agree :: "nat \<Rightarrow> nat \<Rightarrow> mem \<Rightarrow> mem \<Rightarrow> bool" where
  "mem_agree off n m m' \<longleftrightarrow> (\<forall>i. off \<le> i \<and> i < off + n \<longrightarrow> m i = m' i)"

lemma length_mem_read [simp]: "length (mem_read m off n) = n"
  by (simp add: mem_read_def)

lemma nth_mem_read [simp]: "i < n \<Longrightarrow> mem_read m off n ! i = m (off + i)"
  by (simp add: mem_read_def)

lemma mem_read_eqI: "(\<And>i. i < n \<Longrightarrow> m (off + i) = m' (off' + i)) \<Longrightarrow> mem_read m off n = mem_read m' off' n"
  by (rule nth_equalityI) auto

lemma mem_read_put_same [simp]: "n = length bs \<Longrightarrow> mem_read (mem_put m off bs) off n = bs"
  by (rule nth_equalityI) (auto simp: mem_put_def)

lemma mem_put_other:
  "i < off \<or> off + length bs \<le> i \<Longrightarrow> mem_put m off bs i = m i"
  by (auto simp: mem_put_def)

lemma mem_read_put_disjoint:
  "off' + n \<le> off \<or> off + length bs \<le> off' \<Longrightarrow> mem_read (mem_put m off bs) off' n = mem_read m off' n"
  by (rule mem_read_eqI) (auto simp: mem_put_def)

lemma mem_read_copy_same [simp]:
  "mem_read (mem_copy dst d src s n) d n = mem_read src s n"
  by (rule mem_read_eqI) (auto simp: mem_copy_def)

lemma mem_read_copy_disjoint:
  "off' + k \<le> d \<or> d + n \<le> off' \<Longrightarrow> mem_read (mem_copy dst d src s n) off' k = mem_read dst off' k"
  by (rule mem_read_eqI) (auto simp: mem_copy_def)

lemma mem_read_append: "mem_read m off (n + k) = mem_read m off n @ mem_read m (off + n) k"
proof -
  have "[off..<off + (n + k)] = [off..<off + n] @ [off + n..<off + n + k]"
    using upt_add_eq_append [of off "off + n" k] by (simp add: add.assoc)
  then show ?thesis by (simp add: mem_read_def add.assoc)
qed

lemma mem_agree_refl [simp]: "mem_agree off n m m"
  by (simp add: mem_agree_def)

lemma mem_agree_sym: "mem_agree off n m m' \<Longrightarrow> mem_agree off n m' m"
  by (simp add: mem_agree_def)

lemma mem_agree_trans: "mem_agree off n a b \<Longrightarrow> mem_agree off n b c \<Longrightarrow> mem_agree off n a c"
  by (simp add: mem_agree_def)

section \<open>Machine integers in memory\<close>

text \<open>
  \<open>c_int\<close> reduces a mathematical integer to the range of a 32-bit \<open>int\<close> (what the
  two's-complement hardware computes where the C++ expression overflows). Integers are stored
  least significant byte first.
\<close>

definition c_int :: "int \<Rightarrow> int" where
  "c_int x = (x + 2 ^ 31) mod 2 ^ 32 - 2 ^ 31"

definition int32_range :: "int \<Rightarrow> bool" where
  "int32_range x \<longleftrightarrow> - (2 ^ 31) \<le> x \<and> x < 2 ^ 31"

lemma c_int_id [simp]: "int32_range x \<Longrightarrow> c_int x = x"
  by (simp add: c_int_def int32_range_def)

lemma c_int_range: "int32_range (c_int x)"
proof -
  have "0 \<le> (x + 2 ^ 31) mod (2 ^ 32 :: int)" and "(x + 2 ^ 31) mod (2 ^ 32 :: int) < 2 ^ 32"
    by simp_all
  then show ?thesis by (simp add: c_int_def int32_range_def)
qed

primrec enc_le :: "nat \<Rightarrow> int \<Rightarrow> byte list" where
  "enc_le 0 x = []"
| "enc_le (Suc n) x = word_of_int (x mod 256) # enc_le n (x div 256)"

primrec dec_le :: "byte list \<Rightarrow> int" where
  "dec_le [] = 0"
| "dec_le (b # bs) = uint b + 256 * dec_le bs"

definition to_signed :: "nat \<Rightarrow> int \<Rightarrow> int" where
  "to_signed n x = (if x < 2 ^ (8 * n - 1) then x else x - 2 ^ (8 * n))"

lemma length_enc_le [simp]: "length (enc_le n x) = n"
  by (induction n arbitrary: x) auto

lemma uint_byte_mod: "uint (word_of_int (x mod 256) :: byte) = x mod 256"
  by (simp add: uint_word_of_int)

lemma dec_enc_le: "dec_le (enc_le n x) = x mod 256 ^ n"
proof (induction n arbitrary: x)
  case 0
  show ?case by simp
next
  case (Suc n)
  have "dec_le (enc_le (Suc n) x) = x mod 256 + 256 * ((x div 256) mod 256 ^ n)"
    by (simp add: uint_byte_mod Suc.IH)
  also have "\<dots> = x mod (256 * 256 ^ n)"
    by (simp add: zmod_zmult2_eq)
  finally show ?case by simp
qed

lemma pow256: "(256 :: int) ^ n = 2 ^ (8 * n)"
  by (simp add: power_mult)

lemma to_signed_mod:
  assumes "0 < n" and "- (2 ^ (8 * n - 1)) \<le> x" and "x < 2 ^ (8 * n - 1)"
  shows "to_signed n (x mod 256 ^ n) = x"
proof -
  have two: "(2 :: int) ^ (8 * n) = 2 * 2 ^ (8 * n - 1)"
    using assms(1) by (cases "8 * n") auto
  show ?thesis
  proof (cases "0 \<le> x")
    case True
    then have "x mod 2 ^ (8 * n) = x" using assms(3) two by simp
    with assms(3) show ?thesis by (simp add: to_signed_def pow256)
  next
    case False
    have "x mod 2 ^ (8 * n) = (x + 2 ^ (8 * n)) mod 2 ^ (8 * n)" by simp
    also have "\<dots> = x + 2 ^ (8 * n)"
      using False assms(2) two by (intro mod_pos_pos_trivial) auto
    finally show ?thesis
      using assms(2) two by (simp add: to_signed_def pow256)
  qed
qed

definition load_i32 :: "mem \<Rightarrow> nat \<Rightarrow> int" where
  "load_i32 m off = to_signed 4 (dec_le (mem_read m off 4))"

definition load_u32 :: "mem \<Rightarrow> nat \<Rightarrow> int" where
  "load_u32 m off = dec_le (mem_read m off 4)"

definition load_i64 :: "mem \<Rightarrow> nat \<Rightarrow> int" where
  "load_i64 m off = to_signed 8 (dec_le (mem_read m off 8))"

definition load_u64 :: "mem \<Rightarrow> nat \<Rightarrow> int" where
  "load_u64 m off = dec_le (mem_read m off 8)"

definition store_i32 :: "mem \<Rightarrow> nat \<Rightarrow> int \<Rightarrow> mem" where
  "store_i32 m off v = mem_put m off (enc_le 4 v)"

definition store_i64 :: "mem \<Rightarrow> nat \<Rightarrow> int \<Rightarrow> mem" where
  "store_i64 m off v = mem_put m off (enc_le 8 v)"

lemma signed32_enc: "int32_range v \<Longrightarrow> to_signed 4 (dec_le (enc_le 4 v)) = v"
  by (subst dec_enc_le, rule to_signed_mod) (simp_all add: int32_range_def)

lemma signed64_enc: "- (2 ^ 63) \<le> v \<Longrightarrow> v < 2 ^ 63 \<Longrightarrow> to_signed 8 (dec_le (enc_le 8 v)) = v"
  by (subst dec_enc_le, rule to_signed_mod) simp_all

lemma load_store_i32 [simp]: "int32_range v \<Longrightarrow> load_i32 (store_i32 m off v) off = v"
  by (simp add: load_i32_def store_i32_def signed32_enc)

lemma load_store_i32_other:
  "off' + 4 \<le> off \<or> off + 4 \<le> off' \<Longrightarrow> load_i32 (store_i32 m off v) off' = load_i32 m off'"
  by (simp add: load_i32_def store_i32_def mem_read_put_disjoint)

lemma load_store_i64 [simp]: "- (2 ^ 63) \<le> v \<Longrightarrow> v < 2 ^ 63 \<Longrightarrow> load_i64 (store_i64 m off v) off = v"
  by (simp add: load_i64_def store_i64_def signed64_enc)

lemma store_i32_other: "i < off \<or> off + 4 \<le> i \<Longrightarrow> store_i32 m off v i = m i"
  by (simp add: store_i32_def mem_put_other)

lemma store_i64_other: "i < off \<or> off + 8 \<le> i \<Longrightarrow> store_i64 m off v i = m i"
  by (simp add: store_i64_def mem_put_other)

text \<open>\<open>mem_at m off bs\<close>: the bytes \<open>bs\<close> stand in memory at \<open>off\<close>.\<close>

definition mem_at :: "mem \<Rightarrow> nat \<Rightarrow> byte list \<Rightarrow> bool" where
  "mem_at m off bs \<longleftrightarrow> mem_read m off (length bs) = bs"

lemma mem_at_Nil [simp]: "mem_at m off []"
  by (simp add: mem_at_def mem_read_def)

lemma mem_at_append [simp]: "mem_at m off (xs @ ys) \<longleftrightarrow> mem_at m off xs \<and> mem_at m (off + length xs) ys"
  by (simp add: mem_at_def mem_read_append append_eq_append_conv)

lemma mem_at_put [simp]: "mem_at (mem_put m off bs) off bs"
  by (simp add: mem_at_def)

lemma mem_put_append: "mem_put (mem_put m off xs) (off + length xs) ys = mem_put m off (xs @ ys)"
  by (auto simp: mem_put_def fun_eq_iff nth_append)

lemma mem_at_cong: "mem_at m off bs \<Longrightarrow> (\<And>i. off \<le> i \<Longrightarrow> i < off + length bs \<Longrightarrow> m' i = m i) \<Longrightarrow> mem_at m' off bs"
  unfolding mem_at_def by (metis mem_read_eqI nat_add_left_cancel_less le_add1)

lemma load_i32_at: "mem_at m off (enc_le 4 v) \<Longrightarrow> int32_range v \<Longrightarrow> load_i32 m off = v"
  unfolding load_i32_def mem_at_def length_enc_le by (simp only: signed32_enc)

lemma load_u32_at: "mem_at m off (enc_le 4 v) \<Longrightarrow> 0 \<le> v \<Longrightarrow> v < 2 ^ 32 \<Longrightarrow> load_u32 m off = v"
  unfolding load_u32_def mem_at_def length_enc_le by (simp only: dec_enc_le) simp

lemma load_i64_at: "mem_at m off (enc_le 8 v) \<Longrightarrow> - (2 ^ 63) \<le> v \<Longrightarrow> v < 2 ^ 63 \<Longrightarrow> load_i64 m off = v"
  unfolding load_i64_def mem_at_def length_enc_le by (simp only: signed64_enc)

lemma load_u64_at: "mem_at m off (enc_le 8 v) \<Longrightarrow> 0 \<le> v \<Longrightarrow> v < 2 ^ 64 \<Longrightarrow> load_u64 m off = v"
  unfolding load_u64_def mem_at_def length_enc_le by (simp only: dec_enc_le) simp

text \<open>The bytes of a C string and back.\<close>

definition bytes_of_string :: "string \<Rightarrow> byte list" where
  "bytes_of_string s = map (\<lambda>c. word_of_nat (of_char c)) s"

definition string_of_bytes :: "byte list \<Rightarrow> string" where
  "string_of_bytes bs = map (\<lambda>b. char_of (unat b)) bs"

lemma length_bytes_of_string [simp]: "length (bytes_of_string s) = length s"
  by (simp add: bytes_of_string_def)

lemma string_of_bytes_of_string [simp]: "string_of_bytes (bytes_of_string s) = s"
  by (induction s) (simp_all add: string_of_bytes_def bytes_of_string_def unat_of_nat take_bit_eq_mod)

section \<open>Record identifiers\<close>

record rid =
  rid_page_no :: int
  rid_slot_no :: int

definition invalid_rid :: rid where
  "invalid_rid = \<lparr>rid_page_no = - 1, rid_slot_no = - 1\<rparr>"

text \<open>Row identifiers are ordered by page and slot, as a scan meets them.\<close>

instantiation rid_ext :: (linorder) linorder
begin

definition less_rid_ext :: "'a rid_scheme \<Rightarrow> 'a rid_scheme \<Rightarrow> bool" where
  "less_rid_ext r x \<longleftrightarrow> rid_page_no r < rid_page_no x \<or> rid_page_no r = rid_page_no x \<and>
     (rid_slot_no r < rid_slot_no x \<or> rid_slot_no r = rid_slot_no x \<and> rid.more r < rid.more x)"

definition less_eq_rid_ext :: "'a rid_scheme \<Rightarrow> 'a rid_scheme \<Rightarrow> bool" where
  "less_eq_rid_ext r x \<longleftrightarrow> r = x \<or> r < x"

instance
proof
  fix x y z :: "'a rid_scheme"
  show "x < y \<longleftrightarrow> x \<le> y \<and> \<not> y \<le> x" by (auto simp: less_eq_rid_ext_def less_rid_ext_def)
  show "x \<le> x" by (simp add: less_eq_rid_ext_def)
  show "x \<le> y \<Longrightarrow> y \<le> z \<Longrightarrow> x \<le> z" by (auto simp: less_eq_rid_ext_def less_rid_ext_def)
  show "x \<le> y \<Longrightarrow> y \<le> x \<Longrightarrow> x = y" by (auto simp: less_eq_rid_ext_def less_rid_ext_def)
  show "x \<le> y \<or> y \<le> x"
    by (cases x, cases y) (auto simp: less_eq_rid_ext_def less_rid_ext_def)
qed

end

lemma rid_less: "(r :: rid) < x \<longleftrightarrow> rid_page_no r < rid_page_no x \<or> rid_page_no r = rid_page_no x \<and> rid_slot_no r < rid_slot_no x"
  by (simp add: less_rid_ext_def)

end
