(* ===== verification/Disk.thy ===== *)
theory Disk
  imports Prelude
begin

text \<open>
  The disk manager, \<^verbatim>\<open>storage/disk_manager.{h,cpp}\<close>.

  The operating system is part of the state: the regular files by path, the open descriptors
  with their file and position, and \<open>os_pick\<close>, the kernel's choice of the descriptor that a
  successful \<open>open\<close> returns (a negative number when the call fails) as a function of the
  descriptors in use. \<open>os_lseek\<close>, \<open>os_read\<close>, \<open>os_write\<close>, \<open>os_open\<close>,
  \<open>os_close\<close> and \<open>os_unlink\<close> are the documented effects of the system calls on that
  state. A file is its size and its bytes; the bytes past the size are zero, which is what a read
  of a hole returns.

  The state record is extensible: the buffer pool, the log manager, the table files and the
  transaction manager of the other theories add their fields to it, because the C++ objects all
  share one \<open>DiskManager\<close>.
\<close>

section \<open>The operating system's files\<close>

record os_file =
  fsize :: nat
  fbytes :: mem

definition empty_file :: os_file where
  "empty_file = \<lparr>fsize = 0, fbytes = zero_mem\<rparr>"

record disk =
  os_files :: "string \<rightharpoonup> os_file"
  os_fds :: "int \<rightharpoonup> string \<times> nat"
  os_pick :: "int set \<Rightarrow> int"
  path2fd :: "string \<rightharpoonup> int"
  fd2path :: "int \<rightharpoonup> string"
  log_fd :: int
  fd2pageno :: "int \<Rightarrow> int"

definition os_open :: "string \<Rightarrow> 'a disk_scheme \<Rightarrow> int \<times> 'a disk_scheme" where
  "os_open path d =
     (if path \<notin> dom (os_files d) then (- 1, d)
      else let fd = os_pick d (dom (os_fds d))
           in if fd < 0 then (- 1, d) else (fd, d\<lparr>os_fds := (os_fds d)(fd \<mapsto> (path, 0))\<rparr>))"

definition os_creat :: "string \<Rightarrow> 'a disk_scheme \<Rightarrow> int \<times> 'a disk_scheme" where
  "os_creat path d =
     os_open path (if path \<in> dom (os_files d) then d
                   else d\<lparr>os_files := (os_files d)(path \<mapsto> empty_file)\<rparr>)"

definition os_close :: "int \<Rightarrow> 'a disk_scheme \<Rightarrow> 'a disk_scheme" where
  "os_close fd d = d\<lparr>os_fds := (os_fds d)(fd := None)\<rparr>"

definition os_unlink :: "string \<Rightarrow> 'a disk_scheme \<Rightarrow> 'a disk_scheme" where
  "os_unlink path d = d\<lparr>os_files := (os_files d)(path := None)\<rparr>"

text \<open>\<open>lseek(fd, off, SEEK_SET)\<close>: a bad descriptor or a negative offset leaves the position alone.\<close>

definition os_lseek :: "int \<Rightarrow> int \<Rightarrow> 'a disk_scheme \<Rightarrow> 'a disk_scheme" where
  "os_lseek fd off d =
     (case os_fds d fd of
        None \<Rightarrow> d
      | Some (path, pos) \<Rightarrow>
          if off < 0 then d else d\<lparr>os_fds := (os_fds d)(fd \<mapsto> (path, nat off))\<rparr>)"

definition os_lseek_end :: "int \<Rightarrow> 'a disk_scheme \<Rightarrow> 'a disk_scheme" where
  "os_lseek_end fd d =
     (case os_fds d fd of
        None \<Rightarrow> d
      | Some (path, pos) \<Rightarrow>
          (case os_files d path of
             None \<Rightarrow> d
           | Some f \<Rightarrow> d\<lparr>os_fds := (os_fds d)(fd \<mapsto> (path, fsize f))\<rparr>))"

definition file_write :: "os_file \<Rightarrow> nat \<Rightarrow> mem \<Rightarrow> nat \<Rightarrow> os_file" where
  "file_write f pos buf n =
     (if n = 0 then f
      else \<lparr>fsize = max (fsize f) (pos + n), fbytes = mem_copy (fbytes f) pos buf 0 n\<rparr>)"

text \<open>\<open>write\<close> returns the number of bytes written, and \<open>-1\<close> for a bad descriptor.\<close>

definition os_write :: "int \<Rightarrow> mem \<Rightarrow> nat \<Rightarrow> 'a disk_scheme \<Rightarrow> int \<times> 'a disk_scheme" where
  "os_write fd buf n d =
     (case os_fds d fd of
        None \<Rightarrow> (- 1, d)
      | Some (path, pos) \<Rightarrow>
          (case os_files d path of
             None \<Rightarrow> (- 1, d)
           | Some f \<Rightarrow>
               (int n, d\<lparr>os_files := (os_files d)(path \<mapsto> file_write f pos buf n),
                         os_fds := (os_fds d)(fd \<mapsto> (path, pos + n))\<rparr>)))"

text \<open>\<open>read\<close> fills the start of the buffer with the bytes before the end of the file.\<close>

definition os_read :: "int \<Rightarrow> mem \<Rightarrow> nat \<Rightarrow> 'a disk_scheme \<Rightarrow> int \<times> mem \<times> 'a disk_scheme" where
  "os_read fd buf n d =
     (case os_fds d fd of
        None \<Rightarrow> (- 1, buf, d)
      | Some (path, pos) \<Rightarrow>
          (case os_files d path of
             None \<Rightarrow> (- 1, buf, d)
           | Some f \<Rightarrow>
               let k = min n (fsize f - pos)
               in (int k, mem_copy buf 0 (fbytes f) pos k,
                   d\<lparr>os_fds := (os_fds d)(fd \<mapsto> (path, pos + k))\<rparr>)))"

section \<open>DiskManager\<close>

text \<open>
  The file offset \<open>page_no * PAGE_SIZE\<close> is computed in 32-bit \<open>int\<close> arithmetic.
\<close>

definition page_offset :: "int \<Rightarrow> int" where
  "page_offset page_no = c_int (page_no * int PAGE_SIZE)"

definition write_page :: "int \<Rightarrow> int \<Rightarrow> mem \<Rightarrow> nat \<Rightarrow> ('a disk_scheme, unit) op" where
  "write_page fd page_no buf num_bytes = (\<lambda>d.
     let d1 = os_lseek fd (page_offset page_no) d;
         (n, d2) = os_write fd buf num_bytes d1
     in if n < 0 then (Inl (InternalError ''DiskManager::write_page Error''), d2)
        else (Inr (), d2))"

definition read_page :: "int \<Rightarrow> int \<Rightarrow> mem \<Rightarrow> nat \<Rightarrow> ('a disk_scheme, mem) op" where
  "read_page fd page_no buf num_bytes = (\<lambda>d.
     let d1 = os_lseek fd (page_offset page_no) d;
         (n, buf', d2) = os_read fd buf num_bytes d1
     in if n < 0 then (Inl (InternalError ''DiskManager::read_page Error''), d2)
        else (Inr buf', d2))"

definition MAX_FD :: int where "MAX_FD = 8192"

definition allocate_page :: "int \<Rightarrow> ('a disk_scheme, int) op" where
  "allocate_page fd = (\<lambda>d.
     if \<not> (fd \<ge> 0 \<and> fd < MAX_FD) then (Inl AssertionFailed, d)
     else (Inr (fd2pageno d fd), d\<lparr>fd2pageno := (fd2pageno d)(fd := c_int (fd2pageno d fd + 1))\<rparr>))"

definition deallocate_page :: "int \<Rightarrow> ('a disk_scheme, unit) op" where
  "deallocate_page page_id = ret ()"

definition set_fd2pageno :: "int \<Rightarrow> int \<Rightarrow> 'a disk_scheme \<Rightarrow> 'a disk_scheme" where
  "set_fd2pageno fd start_page_no d = d\<lparr>fd2pageno := (fd2pageno d)(fd := start_page_no)\<rparr>"

definition get_fd2pageno :: "int \<Rightarrow> 'a disk_scheme \<Rightarrow> int" where
  "get_fd2pageno fd d = fd2pageno d fd"

definition is_file :: "string \<Rightarrow> 'a disk_scheme \<Rightarrow> bool" where
  "is_file path d \<longleftrightarrow> os_files d path \<noteq> None"

definition create_file :: "string \<Rightarrow> ('a disk_scheme, unit) op" where
  "create_file path = (\<lambda>d.
     if is_file path d then (Inl (FileExistsError path), d)
     else let (fd, d1) = os_creat path d
          in if fd < 0 then (Inl UnixError, d1) else (Inr (), os_close fd d1))"

definition destroy_file :: "string \<Rightarrow> ('a disk_scheme, unit) op" where
  "destroy_file path = (\<lambda>d.
     if \<not> is_file path d then (Inl (FileNotFoundError path), d)
     else if path2fd d path = None then (Inr (), os_unlink path d)
     else (Inl UnixError, d))"

definition open_file :: "string \<Rightarrow> ('a disk_scheme, int) op" where
  "open_file path = (\<lambda>d.
     if \<not> is_file path d then (Inl (FileNotFoundError path), d)
     else if path2fd d path = None
     then let (fd, d1) = os_open path d
          in (Inr fd, d1\<lparr>path2fd := (path2fd d1)(path \<mapsto> fd), fd2path := (fd2path d1)(fd \<mapsto> path)\<rparr>)
     else (Inr (- 1), d))"

definition close_file :: "int \<Rightarrow> ('a disk_scheme, unit) op" where
  "close_file fd = (\<lambda>d.
     case fd2path d fd of
       Some path \<Rightarrow>
         (Inr (), os_close fd (d\<lparr>path2fd := (path2fd d)(path := None), fd2path := (fd2path d)(fd := None)\<rparr>))
     | None \<Rightarrow> (Inl (FileNotOpenError fd), d))"

definition get_file_size :: "string \<Rightarrow> 'a disk_scheme \<Rightarrow> int" where
  "get_file_size file_name d = (case os_files d file_name of Some f \<Rightarrow> c_int (int (fsize f)) | None \<Rightarrow> - 1)"

definition get_file_name :: "int \<Rightarrow> ('a disk_scheme, string) op" where
  "get_file_name fd = (\<lambda>d.
     case fd2path d fd of None \<Rightarrow> (Inl (FileNotOpenError fd), d) | Some path \<Rightarrow> (Inr path, d))"

definition get_file_fd :: "string \<Rightarrow> ('a disk_scheme, int) op" where
  "get_file_fd file_name = (\<lambda>d.
     case path2fd d file_name of None \<Rightarrow> open_file file_name d | Some fd \<Rightarrow> (Inr fd, d))"

text \<open>\<open>read_log\<close> and \<open>write_log\<close> open the log file on first use.\<close>

definition ensure_log_fd :: "('a disk_scheme, unit) op" where
  "ensure_log_fd = (\<lambda>d.
     if log_fd d = - 1 then bindE (open_file LOG_FILE_NAME) (\<lambda>fd. updS (log_fd_update (\<lambda>_. fd))) d
     else (Inr (), d))"

definition read_log :: "mem \<Rightarrow> int \<Rightarrow> int \<Rightarrow> ('a disk_scheme, int \<times> mem) op" where
  "read_log log_data sz offset = bindE ensure_log_fd (\<lambda>_ d.
     let file_size = get_file_size LOG_FILE_NAME d
     in if offset > file_size then (Inr (- 1, log_data), d)
        else let sz' = min sz (file_size - offset)
             in if sz' = 0 then (Inr (0, log_data), d)
                else let d1 = os_lseek (log_fd d) offset d;
                         (n, buf, d2) = os_read (log_fd d) log_data (nat sz') d1
                     in if n \<noteq> sz' then (Inl AssertionFailed, d2) else (Inr (n, buf), d2))"

definition write_log :: "mem \<Rightarrow> nat \<Rightarrow> ('a disk_scheme, unit) op" where
  "write_log log_data sz = bindE ensure_log_fd (\<lambda>_ d.
     let d1 = os_lseek_end (log_fd d) d;
         (n, d2) = os_write (log_fd d) log_data sz d1
     in if n \<noteq> int sz then (Inl UnixError, d2) else (Inr (), d2))"


section \<open>Well-formed disks and the page view\<close>

text \<open>
  \<open>disk_wf\<close>: the open descriptors are exactly accounted for by the program's two tables, so
  no file is open twice; bytes past the end of a file are zero; the kernel never hands out a
  descriptor that is in use. The program's own entry points keep it.
\<close>

definition file_wf :: "os_file \<Rightarrow> bool" where
  "file_wf f \<longleftrightarrow> (\<forall>i \<ge> fsize f. fbytes f i = 0)"

definition fds_wf :: "(int \<rightharpoonup> string \<times> nat) \<Rightarrow> (int set \<Rightarrow> int) \<Rightarrow> bool" where
  "fds_wf fds pick \<longleftrightarrow> finite (dom fds) \<and> (\<forall>S. finite S \<longrightarrow> pick S \<notin> S)"

definition disk_wf :: "'a disk_scheme \<Rightarrow> bool" where
  "disk_wf d \<longleftrightarrow>
     (\<forall>path f. os_files d path = Some f \<longrightarrow> file_wf f) \<and>
     (\<forall>fd path pos. os_fds d fd = Some (path, pos) \<longrightarrow>
        0 \<le> fd \<and> path2fd d path = Some fd \<and> fd2path d fd = Some path \<and> os_files d path \<noteq> None) \<and>
     (\<forall>fd path. fd2path d fd = Some path \<longrightarrow> path2fd d path = Some fd) \<and>
     fds_wf (os_fds d) (os_pick d)"

definition fd_open :: "int \<Rightarrow> 'a disk_scheme \<Rightarrow> bool" where
  "fd_open fd d \<longleftrightarrow> os_fds d fd \<noteq> None"

definition page_in_range :: "int \<Rightarrow> bool" where
  "page_in_range p \<longleftrightarrow> 0 \<le> p \<and> p < 2 ^ 19"

definition page_pos :: "int \<Rightarrow> nat" where
  "page_pos p = nat p * PAGE_SIZE"

definition page_trunc :: "mem \<Rightarrow> mem" where
  "page_trunc m = (\<lambda>i. if i < PAGE_SIZE then m i else 0)"

definition disk_page :: "int \<Rightarrow> int \<Rightarrow> 'a disk_scheme \<Rightarrow> mem" where
  "disk_page fd p d =
     (case os_fds d fd of
        None \<Rightarrow> zero_mem
      | Some (path, pos) \<Rightarrow>
          (case os_files d path of
             None \<Rightarrow> zero_mem
           | Some f \<Rightarrow> page_trunc (\<lambda>i. fbytes f (page_pos p + i))))"

definition io_ok :: "int \<Rightarrow> int \<Rightarrow> 'a disk_scheme \<Rightarrow> bool" where
  "io_ok fd p d \<longleftrightarrow> disk_wf d \<and> fd_open fd d \<and> page_in_range p"

lemma page_trunc_idem [simp]: "page_trunc (page_trunc m) = page_trunc m"
  by (simp add: page_trunc_def fun_eq_iff)

lemma page_trunc_zero [simp]: "page_trunc zero_mem = zero_mem"
  by (simp add: page_trunc_def zero_mem_def fun_eq_iff)

lemma page_trunc_disk_page [simp]: "page_trunc (disk_page fd p d) = disk_page fd p d"
  by (simp add: disk_page_def split: option.splits)

lemma page_offset_in_range: "page_in_range p \<Longrightarrow> page_offset p = int (page_pos p)"
  unfolding page_offset_def
  by (subst c_int_id) (auto simp: page_in_range_def int32_range_def page_pos_def PAGE_SIZE_def)

lemma file_wf_write: "file_wf f \<Longrightarrow> file_wf (file_write f pos buf n)"
  by (auto simp: file_wf_def file_write_def mem_copy_def)

lemma disk_wf_fdD:
  "disk_wf d \<Longrightarrow> os_fds d fd = Some (path, pos) \<Longrightarrow> \<exists>f. os_files d path = Some f \<and> file_wf f"
  unfolding disk_wf_def by blast

lemma disk_wf_inj:
  "disk_wf d \<Longrightarrow> os_fds d fd = Some (path, pos) \<Longrightarrow> os_fds d fd' = Some (path, pos') \<Longrightarrow> fd = fd'"
  unfolding disk_wf_def by (metis option.inject)

lemma io_okE:
  assumes "io_ok fd p d"
  obtains path pos f where "os_fds d fd = Some (path, pos)" and "os_files d path = Some f"
    and "file_wf f" and "page_in_range p" and "disk_wf d"
  using assms disk_wf_fdD unfolding io_ok_def fd_open_def by (metis not_None_eq surj_pair)

text \<open>The effect of a page write and of a page read, in closed form.\<close>

lemma write_page_eq:
  assumes "os_fds d fd = Some (path, pos)" and "os_files d path = Some f" and "page_in_range p"
  shows "write_page fd p buf n d =
    (Inr (), d\<lparr>os_files := (os_files d)(path \<mapsto> file_write f (page_pos p) buf n),
               os_fds := (os_fds d)(fd \<mapsto> (path, page_pos p + n))\<rparr>)"
  using assms by (simp add: write_page_def os_lseek_def os_write_def page_offset_in_range Let_def)

lemma read_page_eq:
  assumes "os_fds d fd = Some (path, pos)" and "os_files d path = Some f" and "page_in_range p"
  shows "read_page fd p buf n d =
    (let k = min n (fsize f - page_pos p)
     in (Inr (mem_copy buf 0 (fbytes f) (page_pos p) k),
         d\<lparr>os_fds := (os_fds d)(fd \<mapsto> (path, page_pos p + k))\<rparr>))"
  using assms by (simp add: read_page_def os_lseek_def os_read_def page_offset_in_range Let_def)

lemma disk_wfI:
  assumes "\<And>path f. os_files d path = Some f \<Longrightarrow> file_wf f"
    and "\<And>fd path pos. os_fds d fd = Some (path, pos) \<Longrightarrow>
      0 \<le> fd \<and> path2fd d path = Some fd \<and> fd2path d fd = Some path \<and> os_files d path \<noteq> None"
    and "\<And>fd path. fd2path d fd = Some path \<Longrightarrow> path2fd d path = Some fd"
    and "fds_wf (os_fds d) (os_pick d)"
  shows "disk_wf d"
  using assms unfolding disk_wf_def by blast

lemma disk_wf_files: "disk_wf d \<Longrightarrow> os_files d path = Some f \<Longrightarrow> file_wf f"
  unfolding disk_wf_def by blast

lemma disk_wf_fds:
  "disk_wf d \<Longrightarrow> os_fds d fd = Some (path, pos) \<Longrightarrow>
    0 \<le> fd \<and> path2fd d path = Some fd \<and> fd2path d fd = Some path \<and> os_files d path \<noteq> None"
  unfolding disk_wf_def by blast

lemma disk_wf_tables: "disk_wf d \<Longrightarrow> fd2path d fd = Some path \<Longrightarrow> path2fd d path = Some fd"
  unfolding disk_wf_def by blast

lemma disk_wf_fdtab: "disk_wf d \<Longrightarrow> fds_wf (os_fds d) (os_pick d)"
  unfolding disk_wf_def by blast

lemma fds_wf_upd [simp]: "fds_wf fds pick \<Longrightarrow> fds_wf (fds(fd \<mapsto> v)) pick"
  by (simp add: fds_wf_def)

lemma fds_wf_del [simp]: "fds_wf fds pick \<Longrightarrow> fds_wf (fds(fd := None)) pick"
  by (simp add: fds_wf_def)

lemma disk_wf_new_fd: "disk_wf d \<Longrightarrow> os_fds d (os_pick d (dom (os_fds d))) = None"
  using disk_wf_fdtab by (auto simp: fds_wf_def)

lemma disk_wf_seek:
  assumes "disk_wf d" and "os_fds d fd = Some (path, pos)"
  shows "disk_wf (d\<lparr>os_fds := (os_fds d)(fd \<mapsto> (path, pos'))\<rparr>)"
proof (rule disk_wfI)
  fix fd' path' pos''
  assume "os_fds (d\<lparr>os_fds := (os_fds d)(fd \<mapsto> (path, pos'))\<rparr>) fd' = Some (path', pos'')"
  then have "\<exists>q. os_fds d fd' = Some (path', q)"
    using assms(2) by (simp split: if_splits)
  then show "0 \<le> fd' \<and> path2fd (d\<lparr>os_fds := (os_fds d)(fd \<mapsto> (path, pos'))\<rparr>) path' = Some fd' \<and>
      fd2path (d\<lparr>os_fds := (os_fds d)(fd \<mapsto> (path, pos'))\<rparr>) fd' = Some path' \<and>
      os_files (d\<lparr>os_fds := (os_fds d)(fd \<mapsto> (path, pos'))\<rparr>) path' \<noteq> None"
    using disk_wf_fds [OF assms(1)] by auto
qed (use assms(1) in \<open>simp_all add: disk_wf_files disk_wf_tables disk_wf_fdtab\<close>)

lemma disk_wf_put_file:
  assumes "disk_wf d" and "file_wf f'"
  shows "disk_wf (d\<lparr>os_files := (os_files d)(path \<mapsto> f')\<rparr>)"
proof (rule disk_wfI)
  fix path' f
  assume "os_files (d\<lparr>os_files := (os_files d)(path \<mapsto> f')\<rparr>) path' = Some f"
  then show "file_wf f"
    using assms disk_wf_files by (fastforce split: if_splits)
next
  fix fd' path' pos''
  assume "os_fds (d\<lparr>os_files := (os_files d)(path \<mapsto> f')\<rparr>) fd' = Some (path', pos'')"
  then show "0 \<le> fd' \<and> path2fd (d\<lparr>os_files := (os_files d)(path \<mapsto> f')\<rparr>) path' = Some fd' \<and>
      fd2path (d\<lparr>os_files := (os_files d)(path \<mapsto> f')\<rparr>) fd' = Some path' \<and>
      os_files (d\<lparr>os_files := (os_files d)(path \<mapsto> f')\<rparr>) path' \<noteq> None"
    using disk_wf_fds [OF assms(1)] by auto
qed (use assms(1) in \<open>simp_all add: disk_wf_tables disk_wf_fdtab\<close>)

lemma disk_wf_write:
  assumes "disk_wf d" and "os_fds d fd = Some (path, pos)" and "file_wf f'"
  shows "disk_wf (d\<lparr>os_files := (os_files d)(path \<mapsto> f'), os_fds := (os_fds d)(fd \<mapsto> (path, pos'))\<rparr>)"
  using disk_wf_seek [OF disk_wf_put_file [OF assms(1,3)], where fd = fd and path = path and pos' = pos'] assms(2) by simp

lemma file_write_page:
  assumes "i < PAGE_SIZE" and "page_in_range p" and "page_in_range q"
  shows "fbytes (file_write f (page_pos p) buf PAGE_SIZE) (page_pos q + i) =
    (if q = p then buf i else fbytes f (page_pos q + i))"
proof -
  obtain a b where p: "p = int a" and q: "q = int b"
    using assms(2,3) by (metis page_in_range_def nonneg_int_cases)
  consider "b < a" | "b = a" | "a < b" by linarith
  then show ?thesis
  proof cases
    case 1
    then have "Suc b * 4096 \<le> a * 4096" by (intro mult_le_mono1) simp
    with 1 assms(1) show ?thesis
      by (simp add: p q file_write_def mem_copy_def page_pos_def PAGE_SIZE_def)
  next
    case 2
    with assms(1) show ?thesis
      by (simp add: p q file_write_def mem_copy_def page_pos_def PAGE_SIZE_def)
  next
    case 3
    then have "Suc a * 4096 \<le> b * 4096" by (intro mult_le_mono1) simp
    with 3 assms(1) show ?thesis
      by (simp add: p q file_write_def mem_copy_def page_pos_def PAGE_SIZE_def)
  qed
qed


section \<open>The page store interface\<close>

text \<open>
  What the buffer pool relies on: \<open>view d (fd, p)\<close> is the content of a page on disk. A page
  write replaces one page and leaves every other page alone; a page read into zeroed memory
  returns the page; neither fails on a page whose descriptor is open and whose offset fits in
  an \<open>int\<close>.
\<close>

locale page_store =
  fixes ok :: "int \<Rightarrow> int \<Rightarrow> 's \<Rightarrow> bool"
    and view :: "int \<Rightarrow> int \<Rightarrow> 's \<Rightarrow> mem"
    and wr :: "int \<Rightarrow> int \<Rightarrow> mem \<Rightarrow> nat \<Rightarrow> ('s, unit) op"
    and rd :: "int \<Rightarrow> int \<Rightarrow> mem \<Rightarrow> nat \<Rightarrow> ('s, mem) op"
  assumes wr_total: "ok fd p d \<Longrightarrow> \<exists>d'. wr fd p buf PAGE_SIZE d = (Inr (), d')"
    and wr_view: "ok fd p d \<Longrightarrow> wr fd p buf PAGE_SIZE d = (Inr (), d') \<Longrightarrow> ok fd' p' d \<Longrightarrow>
      view fd' p' d' = (if fd' = fd \<and> p' = p then page_trunc buf else view fd' p' d)"
    and wr_ok: "ok fd p d \<Longrightarrow> wr fd p buf PAGE_SIZE d = (Inr (), d') \<Longrightarrow> ok fd' p' d' = ok fd' p' d"
    and rd_total: "ok fd p d \<Longrightarrow> page_trunc buf = zero_mem \<Longrightarrow>
      \<exists>buf' d'. rd fd p buf PAGE_SIZE d = (Inr buf', d') \<and> page_trunc buf' = view fd p d"
    and rd_view: "ok fd p d \<Longrightarrow> rd fd p buf PAGE_SIZE d = (Inr buf', d') \<Longrightarrow> view fd' p' d' = view fd' p' d"
    and rd_ok: "ok fd p d \<Longrightarrow> rd fd p buf PAGE_SIZE d = (Inr buf', d') \<Longrightarrow> ok fd' p' d' = ok fd' p' d"
begin

lemma read_after_write:
  assumes "ok fd p d" and "wr fd p buf PAGE_SIZE d = (Inr (), d1)"
    and "rd fd p zero_mem PAGE_SIZE d1 = (Inr buf', d2)"
  shows "page_trunc buf' = page_trunc buf"
proof -
  have ok1: "ok fd p d1" using wr_ok [OF assms(1,2)] assms(1) by simp
  have "page_trunc buf' = view fd p d1"
    using rd_total [OF ok1 page_trunc_zero] assms(3) by auto
  also have "\<dots> = page_trunc buf"
    using wr_view [OF assms(1,2,1)] by simp
  finally show ?thesis .
qed

lemma writes_commute:
  assumes "ok fd p d" and "ok fd' p' d" and "(fd, p) \<noteq> (fd', p')" and "ok fd'' p'' d"
    and "wr fd p b PAGE_SIZE d = (Inr (), d1)" and "wr fd' p' b' PAGE_SIZE d1 = (Inr (), d2)"
    and "wr fd' p' b' PAGE_SIZE d = (Inr (), e1)" and "wr fd p b PAGE_SIZE e1 = (Inr (), e2)"
  shows "view fd'' p'' d2 = view fd'' p'' e2"
proof -
  have "ok fd' p' d1" "ok fd'' p'' d1"
    using wr_ok [OF assms(1,5)] assms(2,4) by simp_all
  then have "view fd'' p'' d2 = (if fd'' = fd' \<and> p'' = p' then page_trunc b' else view fd'' p'' d1)"
    by (rule wr_view [OF _ assms(6)])
  moreover have "ok fd p e1" "ok fd'' p'' e1"
    using wr_ok [OF assms(2,7)] assms(1,4) by simp_all
  then have "view fd'' p'' e2 = (if fd'' = fd \<and> p'' = p then page_trunc b else view fd'' p'' e1)"
    by (rule wr_view [OF _ assms(8)])
  ultimately show ?thesis
    using wr_view [OF assms(1,5,4)] wr_view [OF assms(2,7,4)] assms(3) by auto
qed

end

lemma disk_page_same_fds:
  assumes "os_files d' = os_files d"
    and "\<And>fd. map_option fst (os_fds d' fd) = map_option fst (os_fds d fd)"
  shows "disk_page fd p d' = disk_page fd p d"
  using assms(2) [of fd] assms(1)
  by (auto simp: disk_page_def split: option.splits)

lemma write_page_disk_page:
  assumes "io_ok fd p d" and "write_page fd p buf PAGE_SIZE d = (Inr (), d')" and "io_ok fd' p' d"
  shows "disk_page fd' p' d' = (if fd' = fd \<and> p' = p then page_trunc buf else disk_page fd' p' d)"
proof -
  obtain path pos f where fd: "os_fds d fd = Some (path, pos)" "os_files d path = Some f"
    "page_in_range p" "disk_wf d"
    using assms(1) by (elim io_okE)
  obtain path' pos' f' where fd': "os_fds d fd' = Some (path', pos')" "os_files d path' = Some f'"
    "page_in_range p'"
    using assms(3) by (elim io_okE)
  have d': "d' = d\<lparr>os_files := (os_files d)(path \<mapsto> file_write f (page_pos p) buf PAGE_SIZE),
               os_fds := (os_fds d)(fd \<mapsto> (path, page_pos p + PAGE_SIZE))\<rparr>"
    using assms(2) write_page_eq [OF fd(1,2,3)] by simp
  show ?thesis
  proof (cases "fd' = fd")
    case True
    with fd fd' show ?thesis
      by (auto simp: d' disk_page_def page_trunc_def fun_eq_iff file_write_page)
  next
    case False
    then have "path' \<noteq> path"
      using disk_wf_inj [OF fd(4,1)] fd'(1) by blast
    with False fd' show ?thesis
      by (simp add: d' disk_page_def)
  qed
qed

lemma write_page_io_ok:
  assumes "io_ok fd p d" and "write_page fd p buf PAGE_SIZE d = (Inr (), d')"
  shows "io_ok fd' p' d' = io_ok fd' p' d"
proof -
  obtain path pos f where fd: "os_fds d fd = Some (path, pos)" "os_files d path = Some f"
    "page_in_range p" "disk_wf d" "file_wf f"
    using assms(1) by (elim io_okE)
  have d': "d' = d\<lparr>os_files := (os_files d)(path \<mapsto> file_write f (page_pos p) buf PAGE_SIZE),
               os_fds := (os_fds d)(fd \<mapsto> (path, page_pos p + PAGE_SIZE))\<rparr>"
    using assms(2) write_page_eq [OF fd(1,2,3)] by simp
  have "disk_wf d'"
    unfolding d' by (rule disk_wf_write [OF fd(4,1) file_wf_write [OF fd(5)]])
  then show ?thesis
    using fd(1,4) by (simp add: io_ok_def fd_open_def d')
qed

lemma read_page_disk_page:
  assumes "io_ok fd p d" and "page_trunc buf = zero_mem"
  shows "\<exists>buf' d'. read_page fd p buf PAGE_SIZE d = (Inr buf', d') \<and> page_trunc buf' = disk_page fd p d"
proof -
  obtain path pos f where fd: "os_fds d fd = Some (path, pos)" "os_files d path = Some f"
    "page_in_range p" "file_wf f"
    using assms(1) by (elim io_okE)
  have zero: "buf i = 0" if "i < PAGE_SIZE" for i
    using assms(2) that by (auto simp: page_trunc_def zero_mem_def fun_eq_iff split: if_splits)
  have "page_trunc (mem_copy buf 0 (fbytes f) (page_pos p) (min PAGE_SIZE (fsize f - page_pos p))) =
        disk_page fd p d"
    using fd zero by (auto simp: disk_page_def page_trunc_def mem_copy_def file_wf_def fun_eq_iff)
  then show ?thesis
    using read_page_eq [OF fd(1,2,3)] by (simp add: Let_def)
qed

lemma read_page_frame:
  assumes "io_ok fd p d" and "read_page fd p buf n d = (Inr buf', d')"
  shows "disk_page fd' p' d' = disk_page fd' p' d" and "io_ok fd' p' d' = io_ok fd' p' d"
proof -
  obtain path pos f where fd: "os_fds d fd = Some (path, pos)" "os_files d path = Some f"
    "page_in_range p" "disk_wf d"
    using assms(1) by (elim io_okE)
  obtain k where d': "d' = d\<lparr>os_fds := (os_fds d)(fd \<mapsto> (path, k))\<rparr>"
    using assms(2) read_page_eq [OF fd(1,2,3)] by (auto simp: Let_def)
  show "disk_page fd' p' d' = disk_page fd' p' d"
    by (rule disk_page_same_fds) (use fd(1) in \<open>auto simp: d'\<close>)
  show "io_ok fd' p' d' = io_ok fd' p' d"
    using disk_wf_seek [OF fd(4,1)] fd(1,4) by (simp add: io_ok_def fd_open_def d')
qed

lemma write_page_shape:
  assumes "io_ok fd p d"
  shows "\<exists>fs fds. write_page fd p buf n d = (Inr (), d\<lparr>os_files := fs, os_fds := fds\<rparr>)"
  using assms by (elim io_okE) (auto simp: write_page_eq)

lemma read_page_shape:
  assumes "io_ok fd p d"
  shows "\<exists>b fds. read_page fd p buf n d = (Inr b, d\<lparr>os_fds := fds\<rparr>)"
  using assms by (elim io_okE) (auto simp: read_page_eq Let_def)

interpretation dm: page_store io_ok disk_page write_page read_page
proof
  fix fd p and d :: "'a disk_scheme" and buf
  assume "io_ok fd p d"
  then show "\<exists>d'. write_page fd p buf PAGE_SIZE d = (Inr (), d')"
    by (elim io_okE) (simp add: write_page_eq)
qed (fact write_page_disk_page write_page_io_ok read_page_disk_page read_page_frame)+


section \<open>The entry points keep the disk well-formed\<close>

lemma file_wf_empty [simp]: "file_wf empty_file"
  by (simp add: file_wf_def empty_file_def zero_mem_def)

lemma disk_wf_create: "disk_wf d \<Longrightarrow> disk_wf (snd (create_file path d))"
proof -
  assume wf: "disk_wf d"
  show ?thesis
  proof (cases "is_file path d")
    case True
    with wf show ?thesis by (simp add: create_file_def)
  next
    case False
    let ?d = "d\<lparr>os_files := (os_files d)(path \<mapsto> empty_file)\<rparr>"
    let ?fd = "os_pick d (dom (os_fds d))"
    have none: "os_fds d ?fd = None"
      by (rule disk_wf_new_fd [OF wf])
    have wf1: "disk_wf ?d" by (rule disk_wf_put_file [OF wf file_wf_empty])
    show ?thesis
    proof (cases "?fd < 0")
      case True
      with False wf1 show ?thesis
        by (auto simp: create_file_def os_creat_def os_open_def is_file_def Let_def)
    next
      case neg: False
      have "(os_fds d)(?fd := None) = os_fds d" using none by auto
      with neg False wf1 show ?thesis
        by (auto simp: create_file_def os_creat_def os_open_def os_close_def is_file_def Let_def)
    qed
  qed
qed

lemma disk_wf_destroy: "disk_wf d \<Longrightarrow> disk_wf (snd (destroy_file path d))"
proof -
  assume wf: "disk_wf d"
  show ?thesis
  proof (cases "is_file path d \<and> path2fd d path = None")
    case True
    have "disk_wf (os_unlink path d)"
    proof (rule disk_wfI)
      fix fd' path' pos
      assume "os_fds (os_unlink path d) fd' = Some (path', pos)"
      then have "os_fds d fd' = Some (path', pos)" by (simp add: os_unlink_def)
      from disk_wf_fds [OF wf this] show "0 \<le> fd' \<and> path2fd (os_unlink path d) path' = Some fd' \<and>
          fd2path (os_unlink path d) fd' = Some path' \<and> os_files (os_unlink path d) path' \<noteq> None"
        using True by (auto simp: os_unlink_def)
    qed (use wf in \<open>auto simp: os_unlink_def disk_wf_fdtab intro: disk_wf_files dest: disk_wf_tables [OF wf] split: if_splits\<close>)
    with True show ?thesis by (simp add: destroy_file_def)
  next
    case False
    with wf show ?thesis by (auto simp: destroy_file_def)
  qed
qed

lemma disk_wf_open: "disk_wf d \<Longrightarrow> disk_wf (snd (open_file path d))"
proof -
  assume wf: "disk_wf d"
  let ?fd = "os_pick d (dom (os_fds d))"
  have none: "os_fds d ?fd = None"
    by (rule disk_wf_new_fd [OF wf])
  show ?thesis
  proof (cases "is_file path d \<and> path2fd d path = None")
    case True
    let ?tables = "\<lambda>fd. d\<lparr>path2fd := (path2fd d)(path \<mapsto> fd), fd2path := (fd2path d)(fd \<mapsto> path)\<rparr>"
    have other: "path' \<noteq> path \<and> fd' \<noteq> ?fd \<and> 0 \<le> fd'" if "os_fds d fd' = Some (path', pos)" for fd' path' pos
      using disk_wf_fds [OF wf that] True that none by auto
    show ?thesis
    proof (cases "?fd < 0")
      case neg: True
      have "disk_wf (?tables (- 1))"
      proof (rule disk_wfI)
        fix fd' path' pos
        assume "os_fds (?tables (- 1)) fd' = Some (path', pos)"
        then have "os_fds d fd' = Some (path', pos)" by simp
        with disk_wf_fds [OF wf this] other [OF this]
        show "0 \<le> fd' \<and> path2fd (?tables (- 1)) path' = Some fd' \<and>
          fd2path (?tables (- 1)) fd' = Some path' \<and> os_files (?tables (- 1)) path' \<noteq> None"
          by auto
      qed (use wf True in \<open>auto simp: disk_wf_fdtab intro: disk_wf_files dest: disk_wf_tables [OF wf] split: if_splits\<close>)
      with True neg show ?thesis by (auto simp: open_file_def os_open_def is_file_def Let_def)
    next
      case pos: False
      let ?d = "d\<lparr>os_fds := (os_fds d)(?fd \<mapsto> (path, 0)), path2fd := (path2fd d)(path \<mapsto> ?fd),
        fd2path := (fd2path d)(?fd \<mapsto> path)\<rparr>"
      have "disk_wf ?d"
      proof (rule disk_wfI)
        fix fd' path' pos'
        assume a: "os_fds ?d fd' = Some (path', pos')"
        show "0 \<le> fd' \<and> path2fd ?d path' = Some fd' \<and> fd2path ?d fd' = Some path' \<and> os_files ?d path' \<noteq> None"
        proof (cases "fd' = ?fd")
          case True
          with a pos \<open>is_file path d \<and> path2fd d path = None\<close> show ?thesis
            by (auto simp: is_file_def)
        next
          case False
          with a have "os_fds d fd' = Some (path', pos')" by simp
          with disk_wf_fds [OF wf this] other [OF this] show ?thesis by auto
        qed
      qed (use wf True in \<open>auto simp: disk_wf_fdtab intro: disk_wf_files dest: disk_wf_tables [OF wf] split: if_splits\<close>)
      with True pos show ?thesis by (auto simp: open_file_def os_open_def is_file_def Let_def)
    qed
  next
    case False
    with wf show ?thesis by (auto simp: open_file_def)
  qed
qed

lemma disk_wf_close: "disk_wf d \<Longrightarrow> disk_wf (snd (close_file fd d))"
proof -
  assume wf: "disk_wf d"
  show ?thesis
  proof (cases "fd2path d fd")
    case None
    with wf show ?thesis by (simp add: close_file_def)
  next
    case (Some path)
    have uniq: "fda = fd" if "fd2path d fda = Some path" for fda
      using disk_wf_tables [OF wf that] disk_wf_tables [OF wf Some] by simp
    let ?d = "os_close fd (d\<lparr>path2fd := (path2fd d)(path := None), fd2path := (fd2path d)(fd := None)\<rparr>)"
    have "disk_wf ?d"
    proof (rule disk_wfI)
      fix fd' path' pos
      assume "os_fds ?d fd' = Some (path', pos)"
      then have fd': "os_fds d fd' = Some (path', pos)" "fd' \<noteq> fd"
        by (auto simp: os_close_def split: if_splits)
      note t = disk_wf_fds [OF wf fd'(1)]
      have "path' \<noteq> path"
        using t fd'(2) disk_wf_tables [OF wf Some] by auto
      with t fd'(2) show "0 \<le> fd' \<and> path2fd ?d path' = Some fd' \<and> fd2path ?d fd' = Some path' \<and> os_files ?d path' \<noteq> None"
        by (auto simp: os_close_def)
    qed (use wf in \<open>auto simp: os_close_def disk_wf_fdtab intro: disk_wf_files dest: disk_wf_tables [OF wf] uniq split: if_splits\<close>)
    with Some show ?thesis by (simp add: close_file_def)
  qed
qed

section \<open>A concrete disk\<close>

text \<open>One open file, empty, on descriptor 3, used where a statement is instantiated.\<close>

definition one_file_disk :: disk where
  "one_file_disk = \<lparr>os_files = [''t'' \<mapsto> empty_file], os_fds = [3 \<mapsto> (''t'', 0)],
     os_pick = (\<lambda>S. Max (insert 2 S) + 1), path2fd = [''t'' \<mapsto> 3], fd2path = [3 \<mapsto> ''t''],
     log_fd = - 1, fd2pageno = (\<lambda>_. 0)\<rparr>"

text \<open>A disk with an empty log file that is not open yet.\<close>

definition empty_log_disk :: disk where
  "empty_log_disk = \<lparr>os_files = [LOG_FILE_NAME \<mapsto> empty_file], os_fds = Map.empty,
     os_pick = (\<lambda>S. Max (insert 2 S) + 1), path2fd = Map.empty, fd2path = Map.empty,
     log_fd = - 1, fd2pageno = (\<lambda>_. 0)\<rparr>"

lemma Max_insert_fresh: "finite S \<Longrightarrow> Max (insert 2 S) + 1 \<notin> (S :: int set)"
proof
  assume "finite S" "Max (insert 2 S) + 1 \<in> S"
  then have "Max (insert 2 S) + 1 \<le> Max (insert 2 S)" by (intro Max_ge) auto
  then show False by simp
qed

lemma one_file_disk_wf: "disk_wf one_file_disk"
  by (rule disk_wfI) (auto simp: one_file_disk_def fds_wf_def Max_insert_fresh split: if_splits)

lemma one_file_disk_io: "io_ok 3 p one_file_disk = page_in_range p"
  using one_file_disk_wf by (simp add: io_ok_def fd_open_def one_file_disk_def)

lemma empty_log_disk_wf: "disk_wf empty_log_disk"
  by (rule disk_wfI) (auto simp: empty_log_disk_def fds_wf_def Max_insert_fresh split: if_splits)

end
