(* ===== verification/Lru.thy ===== *)
theory Lru
  imports Prelude
begin

text \<open>
  The page replacement policy: the abstract class of \<^verbatim>\<open>replacer/replacer.h\<close> as a locale, and
  its implementation \<^verbatim>\<open>replacer/lru_replacer.{h,cpp}\<close>.

  \<open>LRUlist\<close> keeps the evictable frames, the most recently unpinned one first. \<open>LRUhash\<close> maps
  a frame to a list iterator; an iterator is represented by the value stored in the node it
  denotes, which identifies the node as long as the list has no duplicates (part of \<open>lru_inv\<close>).
\<close>

record lru =
  LRUlist :: "nat list"
  LRUhash :: "nat \<rightharpoonup> nat"
  max_size :: nat

definition lru_init :: "nat \<Rightarrow> lru" where
  "lru_init num_pages = \<lparr>LRUlist = [], LRUhash = Map.empty, max_size = num_pages\<rparr>"

definition lru_victim :: "lru \<Rightarrow> nat option \<times> lru" where
  "lru_victim r =
     (if LRUlist r = [] then (None, r)
      else let frame_id = last (LRUlist r)
           in (Some frame_id,
               r\<lparr>LRUlist := butlast (LRUlist r), LRUhash := (LRUhash r)(frame_id := None)\<rparr>))"

definition lru_pin :: "nat \<Rightarrow> lru \<Rightarrow> lru" where
  "lru_pin frame_id r =
     (case LRUhash r frame_id of
        Some iter \<Rightarrow>
          r\<lparr>LRUlist := remove1 iter (LRUlist r), LRUhash := (LRUhash r)(frame_id := None)\<rparr>
      | None \<Rightarrow> r)"

definition lru_unpin :: "nat \<Rightarrow> lru \<Rightarrow> lru" where
  "lru_unpin frame_id r =
     (if LRUhash r frame_id \<noteq> None then r
      else r\<lparr>LRUlist := frame_id # LRUlist r, LRUhash := (LRUhash r)(frame_id \<mapsto> frame_id)\<rparr>)"

definition lru_Size :: "lru \<Rightarrow> nat" where
  "lru_Size r = length (LRUlist r)"

definition lru_inv :: "lru \<Rightarrow> bool" where
  "lru_inv r \<longleftrightarrow>
     distinct (LRUlist r) \<and> LRUhash r = (\<lambda>f. if f \<in> set (LRUlist r) then Some f else None)"

section \<open>The replacer interface\<close>

text \<open>Successive victims, until the replacer has none left or \<open>n\<close> were taken.\<close>

primrec run_victims :: "('r \<Rightarrow> nat option \<times> 'r) \<Rightarrow> nat \<Rightarrow> 'r \<Rightarrow> nat list" where
  "run_victims victim 0 r = []"
| "run_victims victim (Suc n) r =
     (case victim r of (None, r') \<Rightarrow> [] | (Some f, r') \<Rightarrow> f # run_victims victim n r')"

locale replacer =
  fixes victim :: "'r \<Rightarrow> nat option \<times> 'r"
    and pin :: "nat \<Rightarrow> 'r \<Rightarrow> 'r"
    and unpin :: "nat \<Rightarrow> 'r \<Rightarrow> 'r"
    and Size :: "'r \<Rightarrow> nat"
    and order :: "'r \<Rightarrow> nat list"
    and inv :: "'r \<Rightarrow> bool"
  assumes distinct_order: "inv r \<Longrightarrow> distinct (order r)"
    and size_order: "inv r \<Longrightarrow> Size r = length (order r)"
    and victim_none: "inv r \<Longrightarrow> order r = [] \<Longrightarrow> victim r = (None, r)"
    and victim_some: "inv r \<Longrightarrow> order r \<noteq> [] \<Longrightarrow>
      \<exists>r'. victim r = (Some (last (order r)), r') \<and> order r' = butlast (order r) \<and> inv r'"
    and pin_order: "inv r \<Longrightarrow> order (pin f r) = removeAll f (order r)"
    and pin_inv: "inv r \<Longrightarrow> inv (pin f r)"
    and unpin_order: "inv r \<Longrightarrow> order (unpin f r) = (if f \<in> set (order r) then order r else f # order r)"
    and unpin_inv: "inv r \<Longrightarrow> inv (unpin f r)"
begin

lemma victim_cases:
  assumes "inv r"
  obtains "order r = []" and "victim r = (None, r)"
  | f r' where "order r = order r' @ [f]" and "victim r = (Some f, r')" and "inv r'"
    and "f \<notin> set (order r')"
proof (cases "order r = []")
  case True
  with victim_none assms that(1) show ?thesis by blast
next
  case False
  then obtain r' where r': "victim r = (Some (last (order r)), r')" "order r' = butlast (order r)" "inv r'"
    using victim_some assms by blast
  have app: "order r = order r' @ [last (order r)]"
    using False r'(2) by simp
  moreover have "last (order r) \<notin> set (order r')"
    using distinct_order [OF assms] app by (metis distinct_append not_distinct_conv_prefix distinct1_rotate rotate1.simps(2) distinct.simps(2))
  ultimately show ?thesis
    using that(2) r' by blast
qed

lemma pinned_not_evicted: "inv r \<Longrightarrow> victim (pin f r) = (Some g, r') \<Longrightarrow> g \<noteq> f"
proof (rule victim_cases [OF pin_inv [of r f]])
  fix h r''
  assume "inv r" "victim (pin f r) = (Some g, r')"
    "order (pin f r) = order r'' @ [h]" "victim (pin f r) = (Some h, r'')"
  then have "g \<in> set (removeAll f (order r))" by (simp add: pin_order)
  then show "g \<noteq> f" by auto
qed auto

lemma fold_unpin_order:
  "inv r \<Longrightarrow> distinct fs \<Longrightarrow> set fs \<inter> set (order r) = {} \<Longrightarrow>
    inv (fold unpin fs r) \<and> order (fold unpin fs r) = rev fs @ order r"
proof (induction fs arbitrary: r)
  case Nil
  then show ?case by simp
next
  case (Cons f fs)
  then have "f \<notin> set (order r)" by simp
  then have "order (unpin f r) = f # order r"
    using Cons.prems(1) by (simp add: unpin_order)
  moreover from this have "set fs \<inter> set (order (unpin f r)) = {}"
    using Cons.prems by auto
  ultimately show ?case
    using Cons.IH [OF unpin_inv [OF Cons.prems(1), of f]] Cons.prems(2) by simp
qed

lemma run_victims_order:
  "inv r \<Longrightarrow> run_victims victim n r = take n (rev (order r))"
proof (induction n arbitrary: r)
  case 0
  then show ?case by simp
next
  case (Suc n)
  from Suc.prems show ?case
    by (rule victim_cases) (auto simp: Suc.IH)
qed

lemma evicts_in_unpin_order:
  assumes "inv r" and "order r = []" and "distinct fs"
  shows "run_victims victim (length fs) (fold unpin fs r) = fs"
  using fold_unpin_order [OF assms(1,3)] assms(2) by (simp add: run_victims_order)

end

lemma remove1_distinct: "distinct xs \<Longrightarrow> remove1 x xs = removeAll x xs"
  by (rule distinct_remove1_removeAll)

lemma lru_inv_init [simp]: "lru_inv (lru_init n)"
  by (simp add: lru_inv_def lru_init_def fun_eq_iff)

lemma lru_inv_last:
  assumes "lru_inv r" and "LRUlist r \<noteq> []"
  shows "lru_inv (r\<lparr>LRUlist := butlast (LRUlist r), LRUhash := (LRUhash r)(last (LRUlist r) := None)\<rparr>)"
proof -
  obtain xs x where xs: "LRUlist r = xs @ [x]"
    using assms(2) by (metis append_butlast_last_id)
  with assms(1) show ?thesis
    by (auto simp: lru_inv_def fun_eq_iff)
qed

interpretation rp: replacer lru_victim lru_pin lru_unpin lru_Size LRUlist lru_inv
proof
  fix r :: lru and f
  assume inv: "lru_inv r"
  show "distinct (LRUlist r)" using inv by (simp add: lru_inv_def)
  show "lru_Size r = length (LRUlist r)" by (simp add: lru_Size_def)
  show "LRUlist r = [] \<Longrightarrow> lru_victim r = (None, r)" by (simp add: lru_victim_def)
  show "LRUlist r \<noteq> [] \<Longrightarrow> \<exists>r'. lru_victim r = (Some (last (LRUlist r)), r') \<and>
      LRUlist r' = butlast (LRUlist r) \<and> lru_inv r'"
    using lru_inv_last [OF inv] by (simp add: lru_victim_def Let_def)
  show "LRUlist (lru_pin f r) = removeAll f (LRUlist r)"
    using inv by (auto simp: lru_pin_def lru_inv_def remove1_distinct split: option.splits if_splits)
  show "lru_inv (lru_pin f r)"
    using inv by (auto simp: lru_pin_def lru_inv_def fun_eq_iff split: option.splits if_splits)
  show "LRUlist (lru_unpin f r) = (if f \<in> set (LRUlist r) then LRUlist r else f # LRUlist r)"
    using inv by (auto simp: lru_unpin_def lru_inv_def)
  show "lru_inv (lru_unpin f r)"
    using inv by (auto simp: lru_unpin_def lru_inv_def fun_eq_iff)
qed

text \<open>
  Frames that are unpinned one after the other (each once) are chosen as victims in exactly
  that order, so the least recently used frame goes first.
\<close>

theorem lru_evicts_in_unpin_order:
  assumes "distinct fs"
  shows "run_victims lru_victim (length fs) (fold lru_unpin fs (lru_init n)) = fs"
  by (rule rp.evicts_in_unpin_order) (simp_all add: assms, simp add: lru_init_def)

theorem lru_evicts_in_unpin_order_witness:
  "distinct [4, 7, 2 :: nat] \<and>
   run_victims lru_victim 3 (fold lru_unpin [4, 7, 2] (lru_init 8)) = [4, 7, 2]"
  using lru_evicts_in_unpin_order [of "[4, 7, 2]" 8] by (simp add: numeral_3_eq_3 del: run_victims.simps)

end
