(* ===== verification/BufferPool.thy ===== *)
theory BufferPool
  imports Disk Lru
begin

text \<open>
  Pages and the buffer pool manager, \<^verbatim>\<open>storage/page.h\<close> and
  \<^verbatim>\<open>storage/buffer_pool_manager.{h,cpp}\<close>.

  A \<open>Page*\<close> is the number of its frame in \<open>pages\<close>, and \<open>nullptr\<close> is \<open>None\<close>. The
  mutex \<^verbatim>\<open>latch_\<close> serialises the operations, so each one is a single step of the state.
  The state extends the disk manager's. A page in a fresh pool has an indeterminate \<open>fd\<close>
  (\<open>PageId\<close> does not initialise it), which is the parameter \<open>junk\<close> of \<open>bpm_init\<close>.
\<close>

section \<open>State\<close>

record page_id =
  pid_fd :: int
  pid_no :: int

record page =
  pg_id :: page_id
  pg_data :: mem
  pg_dirty :: bool
  pg_pin :: int

record bpm = disk +
  pool_size :: nat
  pages :: "nat \<Rightarrow> page"
  page_table :: "page_id \<rightharpoonup> nat"
  free_list :: "nat list"
  frame_replacer :: lru

definition get_page_lsn :: "page \<Rightarrow> int" where
  "get_page_lsn pg = load_i32 (pg_data pg) 0"

definition set_page_lsn :: "int \<Rightarrow> page \<Rightarrow> page" where
  "set_page_lsn page_lsn pg = pg\<lparr>pg_data := store_i32 (pg_data pg) 0 page_lsn\<rparr>"

definition reset_memory :: "page \<Rightarrow> page" where
  "reset_memory pg = pg\<lparr>pg_data := mem_fill (pg_data pg) 0 PAGE_SIZE 0\<rparr>"

definition fresh_page :: "int \<Rightarrow> page" where
  "fresh_page fd = \<lparr>pg_id = \<lparr>pid_fd = fd, pid_no = INVALID_PAGE_ID\<rparr>, pg_data = zero_mem,
                    pg_dirty = False, pg_pin = 0\<rparr>"

definition bpm_init :: "nat \<Rightarrow> (nat \<Rightarrow> int) \<Rightarrow> disk \<Rightarrow> bpm" where
  "bpm_init n junk d = disk.extend d
     (bpm.fields n (\<lambda>i. fresh_page (junk i)) Map.empty [0..<n] (lru_init n))"

definition set_page :: "nat \<Rightarrow> (page \<Rightarrow> page) \<Rightarrow> 'a bpm_scheme \<Rightarrow> 'a bpm_scheme" where
  "set_page f g s = s\<lparr>pages := (pages s)(f := g (pages s f))\<rparr>"

section \<open>Operations\<close>

definition mark_dirty :: "nat \<Rightarrow> 'a bpm_scheme \<Rightarrow> 'a bpm_scheme" where
  "mark_dirty f s = set_page f (pg_dirty_update (\<lambda>_. True)) s"

definition find_victim_page :: "('a bpm_scheme, nat option) op" where
  "find_victim_page = (\<lambda>s.
     case free_list s of
       f # fs \<Rightarrow> (Inr (Some f), s\<lparr>free_list := fs\<rparr>)
     | [] \<Rightarrow> let (v, r) = lru_victim (frame_replacer s) in (Inr v, s\<lparr>frame_replacer := r\<rparr>))"

definition update_page :: "nat \<Rightarrow> page_id \<Rightarrow> nat \<Rightarrow> ('a bpm_scheme, unit) op" where
  "update_page page new_page_id new_frame_id = bindE getS (\<lambda>s.
     let pg = pages s page; pid = pg_id pg
     in bindE
          (if pid_no pid \<noteq> INVALID_PAGE_ID \<and> pg_dirty pg
           then bindE (write_page (pid_fd pid) (pid_no pid) (pg_data pg) PAGE_SIZE)
                  (\<lambda>_. updS (set_page page (pg_dirty_update (\<lambda>_. False))))
           else ret ())
          (\<lambda>_. updS (\<lambda>s.
             set_page page (\<lambda>p. (reset_memory p)\<lparr>pg_id := new_page_id\<rparr>)
               (s\<lparr>page_table := (page_table s)(pid := None, new_page_id \<mapsto> new_frame_id)\<rparr>))))"

definition fetch_page :: "page_id \<Rightarrow> ('a bpm_scheme, nat option) op" where
  "fetch_page page_id = bindE getS (\<lambda>s.
     case page_table s page_id of
       Some frame_id \<Rightarrow>
         bindE (updS (\<lambda>s. set_page frame_id (\<lambda>p. p\<lparr>pg_pin := pg_pin p + 1\<rparr>)
                  (s\<lparr>frame_replacer := lru_pin frame_id (frame_replacer s)\<rparr>)))
           (\<lambda>_. ret (Some frame_id))
     | None \<Rightarrow>
         bindE find_victim_page (\<lambda>v.
           case v of
             None \<Rightarrow> ret None
           | Some frame_id \<Rightarrow>
               bindE (update_page frame_id page_id frame_id) (\<lambda>_.
               bindE getS (\<lambda>s.
               bindE (read_page (pid_fd page_id) (pid_no page_id) (pg_data (pages s frame_id)) PAGE_SIZE) (\<lambda>buf.
               bindE (updS (\<lambda>s. set_page frame_id (\<lambda>p. p\<lparr>pg_data := buf, pg_pin := 1\<rparr>)
                        (s\<lparr>frame_replacer := lru_pin frame_id (frame_replacer s)\<rparr>)))
                 (\<lambda>_. ret (Some frame_id)))))))"

definition unpin_page :: "page_id \<Rightarrow> bool \<Rightarrow> ('a bpm_scheme, bool) op" where
  "unpin_page page_id is_dirty = (\<lambda>s.
     case page_table s page_id of
       None \<Rightarrow> (Inr False, s)
     | Some f \<Rightarrow>
         if pg_pin (pages s f) = 0 then (Inr False, s)
         else let s1 = set_page f (\<lambda>p. p\<lparr>pg_pin := pg_pin p - 1\<rparr>) s;
                  s2 = (if pg_pin (pages s1 f) = 0
                        then s1\<lparr>frame_replacer := lru_unpin f (frame_replacer s1)\<rparr> else s1);
                  s3 = (if is_dirty then set_page f (pg_dirty_update (\<lambda>_. True)) s2 else s2)
              in (Inr True, s3))"

definition flush_page :: "page_id \<Rightarrow> ('a bpm_scheme, bool) op" where
  "flush_page page_id = bindE getS (\<lambda>s.
     case page_table s page_id of
       None \<Rightarrow> ret False
     | Some f \<Rightarrow>
         if pid_no page_id = INVALID_PAGE_ID then ret False
         else bindE (write_page (pid_fd page_id) (pid_no page_id) (pg_data (pages s f)) PAGE_SIZE) (\<lambda>_.
              bindE (updS (set_page f (pg_dirty_update (\<lambda>_. False)))) (\<lambda>_. ret True)))"

text \<open>\<open>new_page\<close> returns the frame and the page id it filled in.\<close>

definition new_page :: "page_id \<Rightarrow> ('a bpm_scheme, nat option \<times> page_id) op" where
  "new_page page_id =
     bindE find_victim_page (\<lambda>v.
       case v of
         None \<Rightarrow> ret (None, page_id)
       | Some victim_fid \<Rightarrow>
           if pid_fd page_id < 0 then ret (None, page_id)
           else bindE (allocate_page (pid_fd page_id)) (\<lambda>no.
                let pid = page_id\<lparr>pid_no := no\<rparr>
                in bindE (update_page victim_fid pid victim_fid) (\<lambda>_.
                   bindE (updS (\<lambda>s. set_page victim_fid (\<lambda>p. p\<lparr>pg_pin := 1\<rparr>)
                            (s\<lparr>frame_replacer := lru_pin victim_fid (frame_replacer s)\<rparr>)))
                     (\<lambda>_. ret (Some victim_fid, pid)))))"

definition delete_page :: "page_id \<Rightarrow> ('a bpm_scheme, bool) op" where
  "delete_page page_id = bindE getS (\<lambda>s.
     case page_table s page_id of
       None \<Rightarrow> ret True
     | Some frame_id \<Rightarrow>
         if pg_pin (pages s frame_id) \<noteq> 0 then ret False
         else bindE (deallocate_page (pid_no page_id)) (\<lambda>_.
              bindE (update_page frame_id page_id frame_id) (\<lambda>_.
              bindE (updS (\<lambda>s. s\<lparr>free_list := free_list s @ [frame_id]\<rparr>)) (\<lambda>_. ret True))))"

definition flush_frame :: "int \<Rightarrow> nat \<Rightarrow> ('a bpm_scheme, unit) op" where
  "flush_frame fd i = bindE getS (\<lambda>s.
     let pid = pg_id (pages s i)
     in if pid_fd pid = fd \<and> pid_no pid \<noteq> INVALID_PAGE_ID
        then bindE (write_page (pid_fd pid) (pid_no pid) (pg_data (pages s i)) PAGE_SIZE)
               (\<lambda>_. updS (set_page i (pg_dirty_update (\<lambda>_. False))))
        else ret ())"

definition flush_all_pages :: "int \<Rightarrow> ('a bpm_scheme, unit) op" where
  "flush_all_pages fd = bindE getS (\<lambda>s. forE [0..<pool_size s] (flush_frame fd))"

section \<open>Invariant\<close>

definition bpm_inv :: "'a bpm_scheme \<Rightarrow> bool" where
  "bpm_inv s \<longleftrightarrow>
     lru_inv (frame_replacer s) \<and> distinct (free_list s) \<and>
     set (free_list s) \<subseteq> {..<pool_size s} \<and> set (LRUlist (frame_replacer s)) \<subseteq> {..<pool_size s} \<and>
     (\<forall>pid f. page_table s pid = Some f \<longrightarrow>
        f < pool_size s \<and> f \<notin> set (free_list s) \<and> pg_id (pages s f) = pid \<and> pid_no pid \<noteq> INVALID_PAGE_ID) \<and>
     (\<forall>f < pool_size s. f \<notin> set (free_list s) \<longrightarrow> page_table s (pg_id (pages s f)) = Some f) \<and>
     (\<forall>f < pool_size s. f \<in> set (LRUlist (frame_replacer s)) \<longleftrightarrow> f \<notin> set (free_list s) \<and> pg_pin (pages s f) = 0) \<and>
     (\<forall>f \<in> set (free_list s). pid_no (pg_id (pages s f)) = INVALID_PAGE_ID) \<and>
     (\<forall>f < pool_size s. 0 \<le> pg_pin (pages s f))"

text \<open>
  Coherence: an unpinned clean page agrees with its disk page. A pinned page may be ahead of the
  disk, because its user writes through the \<open>Page*\<close> and reports it only at \<open>unpin_page\<close>.
\<close>

definition bpm_coherent :: "'a bpm_scheme \<Rightarrow> bool" where
  "bpm_coherent s \<longleftrightarrow>
     (\<forall>pid f. page_table s pid = Some f \<and> pg_pin (pages s f) = 0 \<and> \<not> pg_dirty (pages s f) \<longrightarrow>
        page_trunc (pg_data (pages s f)) = disk_page (pid_fd pid) (pid_no pid) s)"

definition bpm_io :: "'a bpm_scheme \<Rightarrow> bool" where
  "bpm_io s \<longleftrightarrow> disk_wf s \<and> (\<forall>pid \<in> dom (page_table s). io_ok (pid_fd pid) (pid_no pid) s)"

text \<open>What a reader of page \<open>pid\<close> gets: the cached copy if there is one, else the disk page.\<close>

definition page_view :: "page_id \<Rightarrow> 'a bpm_scheme \<Rightarrow> mem" where
  "page_view pid s =
     (case page_table s pid of
        Some f \<Rightarrow> page_trunc (pg_data (pages s f))
      | None \<Rightarrow> disk_page (pid_fd pid) (pid_no pid) s)"

definition bpm_ok :: "'a bpm_scheme \<Rightarrow> bool" where
  "bpm_ok s \<longleftrightarrow> bpm_inv s \<and> bpm_coherent s \<and> bpm_io s"


section \<open>Frame rules\<close>

lemma disk_page_bpm [simp]:
  "disk_page fd p (s\<lparr>pool_size := a1\<rparr>) = disk_page fd p s"
  "disk_page fd p (s\<lparr>pages := a2\<rparr>) = disk_page fd p s"
  "disk_page fd p (s\<lparr>page_table := a3\<rparr>) = disk_page fd p s"
  "disk_page fd p (s\<lparr>free_list := a4\<rparr>) = disk_page fd p s"
  "disk_page fd p (s\<lparr>frame_replacer := a5\<rparr>) = disk_page fd p s"
  "disk_page fd p (s\<lparr>fd2pageno := a6\<rparr>) = disk_page fd p s"
  by (simp_all add: disk_page_def split: option.splits)

lemma disk_wf_bpm [simp]:
  "disk_wf (s\<lparr>pool_size := a1\<rparr>) = disk_wf s"
  "disk_wf (s\<lparr>pages := a2\<rparr>) = disk_wf s"
  "disk_wf (s\<lparr>page_table := a3\<rparr>) = disk_wf s"
  "disk_wf (s\<lparr>free_list := a4\<rparr>) = disk_wf s"
  "disk_wf (s\<lparr>frame_replacer := a5\<rparr>) = disk_wf s"
  "disk_wf (s\<lparr>fd2pageno := a6\<rparr>) = disk_wf s"
  by (simp_all add: disk_wf_def)

lemma io_ok_bpm [simp]:
  "io_ok fd p (s\<lparr>pool_size := a1\<rparr>) = io_ok fd p s"
  "io_ok fd p (s\<lparr>pages := a2\<rparr>) = io_ok fd p s"
  "io_ok fd p (s\<lparr>page_table := a3\<rparr>) = io_ok fd p s"
  "io_ok fd p (s\<lparr>free_list := a4\<rparr>) = io_ok fd p s"
  "io_ok fd p (s\<lparr>frame_replacer := a5\<rparr>) = io_ok fd p s"
  "io_ok fd p (s\<lparr>fd2pageno := a6\<rparr>) = io_ok fd p s"
  by (simp_all add: io_ok_def fd_open_def)

lemma page_trunc_reset [simp]: "page_trunc (pg_data (reset_memory p)) = zero_mem"
  by (simp add: page_trunc_def reset_memory_def mem_fill_def zero_mem_def fun_eq_iff)

lemma reset_memory_sel [simp]:
  "pg_id (reset_memory p) = pg_id p" "pg_dirty (reset_memory p) = pg_dirty p" "pg_pin (reset_memory p) = pg_pin p"
  by (simp_all add: reset_memory_def)

lemma lru_pin_absent: "lru_inv r \<Longrightarrow> f \<notin> set (LRUlist r) \<Longrightarrow> lru_pin f r = r"
  by (simp add: lru_pin_def lru_inv_def)

section \<open>Choosing a victim\<close>

definition evictable :: "nat \<Rightarrow> 'a bpm_scheme \<Rightarrow> bool" where
  "evictable f s \<longleftrightarrow> f \<in> set (free_list s) \<or> f \<in> set (LRUlist (frame_replacer s))"

definition victim_taken :: "nat \<Rightarrow> nat list \<Rightarrow> lru \<Rightarrow> 'a bpm_scheme \<Rightarrow> bool" where
  "victim_taken f fs r s \<longleftrightarrow>
     f < pool_size s \<and> evictable f s \<and> lru_inv r \<and> distinct fs \<and>
     set fs = set (free_list s) - {f} \<and> set (LRUlist r) = set (LRUlist (frame_replacer s)) - {f}"

lemma bpm_invD:
  assumes "bpm_inv s"
  shows "lru_inv (frame_replacer s)" and "distinct (free_list s)"
    and "f \<in> set (free_list s) \<Longrightarrow> f < pool_size s"
    and "f \<in> set (LRUlist (frame_replacer s)) \<Longrightarrow> f < pool_size s"
    and "page_table s pid = Some f \<Longrightarrow>
        f < pool_size s \<and> f \<notin> set (free_list s) \<and> pg_id (pages s f) = pid \<and> pid_no pid \<noteq> INVALID_PAGE_ID"
    and "f < pool_size s \<Longrightarrow> f \<notin> set (free_list s) \<Longrightarrow> page_table s (pg_id (pages s f)) = Some f"
    and "f < pool_size s \<Longrightarrow>
        f \<in> set (LRUlist (frame_replacer s)) \<longleftrightarrow> f \<notin> set (free_list s) \<and> pg_pin (pages s f) = 0"
    and "f \<in> set (free_list s) \<Longrightarrow> pid_no (pg_id (pages s f)) = INVALID_PAGE_ID"
    and "f < pool_size s \<Longrightarrow> 0 \<le> pg_pin (pages s f)"
  using assms unfolding bpm_inv_def by (blast | force)+

lemma bpm_invI:
  assumes "lru_inv (frame_replacer s)" and "distinct (free_list s)"
    and "\<And>f. f \<in> set (free_list s) \<Longrightarrow> f < pool_size s \<and> pid_no (pg_id (pages s f)) = INVALID_PAGE_ID"
    and "\<And>f. f \<in> set (LRUlist (frame_replacer s)) \<Longrightarrow> f < pool_size s"
    and "\<And>pid f. page_table s pid = Some f \<Longrightarrow>
        f < pool_size s \<and> f \<notin> set (free_list s) \<and> pg_id (pages s f) = pid \<and> pid_no pid \<noteq> INVALID_PAGE_ID"
    and "\<And>f. f < pool_size s \<Longrightarrow> f \<notin> set (free_list s) \<Longrightarrow> page_table s (pg_id (pages s f)) = Some f"
    and "\<And>f. f < pool_size s \<Longrightarrow>
        f \<in> set (LRUlist (frame_replacer s)) \<longleftrightarrow> f \<notin> set (free_list s) \<and> pg_pin (pages s f) = 0"
    and "\<And>f. f < pool_size s \<Longrightarrow> 0 \<le> pg_pin (pages s f)"
  shows "bpm_inv s"
  using assms unfolding bpm_inv_def by blast

lemma find_victim_cases:
  assumes "bpm_inv s"
  obtains "find_victim_page s = (Inr None, s)" and "free_list s = []" and "LRUlist (frame_replacer s) = []"
  | f fs r where "find_victim_page s = (Inr (Some f), s\<lparr>free_list := fs, frame_replacer := r\<rparr>)"
      and "victim_taken f fs r s"
proof (cases "free_list s")
  case (Cons f fs)
  have "f \<notin> set (LRUlist (frame_replacer s))"
    using bpm_invD(3,7) [OF assms, of f] Cons by auto
  then have "victim_taken f fs (frame_replacer s) s"
    using bpm_invD(1,2,3) [OF assms] Cons by (auto simp: victim_taken_def evictable_def)
  moreover have "find_victim_page s = (Inr (Some f), s\<lparr>free_list := fs, frame_replacer := frame_replacer s\<rparr>)"
    using Cons by (simp add: find_victim_page_def)
  ultimately show ?thesis using that(2) by blast
next
  case Nil
  note inv = bpm_invD(1) [OF assms]
  from inv show ?thesis
  proof (rule rp.victim_cases)
    assume "LRUlist (frame_replacer s) = []" "lru_victim (frame_replacer s) = (None, frame_replacer s)"
    with Nil that(1) show ?thesis by (simp add: find_victim_page_def)
  next
    fix f r
    assume r: "LRUlist (frame_replacer s) = LRUlist r @ [f]" "lru_victim (frame_replacer s) = (Some f, r)"
      "lru_inv r" "f \<notin> set (LRUlist r)"
    have "find_victim_page s = (Inr (Some f), s\<lparr>free_list := [], frame_replacer := r\<rparr>)"
      using Nil r(2) by (simp add: find_victim_page_def)
    moreover have "victim_taken f [] r s"
      using r Nil bpm_invD(4) [OF assms, of f] by (auto simp: victim_taken_def evictable_def)
    ultimately show ?thesis using that(2) by blast
  qed
qed

section \<open>Installing a page in the victim's frame\<close>

text \<open>
  \<open>installed\<close> describes the state after the victim frame \<open>f\<close> was rewritten to hold page \<open>pid\<close>:
  the old occupant is out of the table and its content is on disk.
\<close>

definition installed :: "nat \<Rightarrow> page_id \<Rightarrow> page \<Rightarrow> nat list \<Rightarrow> lru \<Rightarrow> 'a bpm_scheme \<Rightarrow> 'a bpm_scheme \<Rightarrow> bool" where
  "installed f pid pg fs r s s' \<longleftrightarrow>
     pool_size s' = pool_size s \<and> free_list s' = fs \<and> frame_replacer s' = r \<and>
     pages s' = (pages s)(f := pg) \<and> pg_id pg = pid \<and>
     page_table s' = (page_table s)(pg_id (pages s f) := None, pid \<mapsto> f) \<and>
     disk_wf s' \<and> (\<forall>fd p. io_ok fd p s' = io_ok fd p s) \<and>
     (\<forall>q. io_ok (pid_fd q) (pid_no q) s \<longrightarrow>
        disk_page (pid_fd q) (pid_no q) s' =
          (if q = pg_id (pages s f) \<and> f \<notin> set (free_list s) then page_view q s
           else disk_page (pid_fd q) (pid_no q) s))"

lemma bpm_coherentD:
  "bpm_coherent s \<Longrightarrow> page_table s pid = Some f \<Longrightarrow> pg_pin (pages s f) = 0 \<Longrightarrow> \<not> pg_dirty (pages s f) \<Longrightarrow>
    page_trunc (pg_data (pages s f)) = disk_page (pid_fd pid) (pid_no pid) s"
  unfolding bpm_coherent_def by blast

lemma installed_disk:
  assumes "installed f pid pg fs r s s'" and "io_ok (pid_fd q) (pid_no q) s"
  shows "disk_page (pid_fd q) (pid_no q) s' =
    (if q = pg_id (pages s f) \<and> f \<notin> set (free_list s) then page_view q s
     else disk_page (pid_fd q) (pid_no q) s)"
  using assms by (simp add: installed_def)

lemma installed_fields:
  assumes "installed f pid pg fs r s s'"
  shows "pages s' = (pages s)(f := pg)" and "pool_size s' = pool_size s" and "free_list s' = fs"
    and "frame_replacer s' = r" and "pg_id pg = pid"
    and "page_table s' = (page_table s)(pg_id (pages s f) := None, pid \<mapsto> f)"
    and "io_ok fd p s' = io_ok fd p s"
  using assms by (simp_all add: installed_def)

lemma installed_table:
  assumes "bpm_inv s" and "victim_taken f fs r s" and "page_table s pid = None"
    and "installed f pid pg fs r s s'" and "page_table s' q = Some g"
  shows "q = pid \<and> g = f \<or> q \<noteq> pid \<and> g \<noteq> f \<and> page_table s q = Some g \<and> pg_id (pages s g) = q"
proof (cases "q = pid")
  case True
  with assms(4,5) show ?thesis by (simp add: installed_def)
next
  case False
  with assms(4,5) have q: "page_table s q = Some g" "q \<noteq> pg_id (pages s f)"
    by (auto simp: installed_def split: if_splits)
  with bpm_invD(5) [OF assms(1) q(1)] False show ?thesis by auto
qed

lemma installed_inv:
  assumes inv: "bpm_inv s" and v: "victim_taken f fs r s" and no: "page_table s pid = None"
    and ins: "installed f pid pg fs r s s'" and pin: "pg_pin pg = 1" and valid: "pid_no pid \<noteq> INVALID_PAGE_ID"
  shows "bpm_inv s'"
proof -
  note tab = installed_table [OF inv v no ins]
  have fs: "f \<notin> set fs" "f \<notin> set (LRUlist r)" "f < pool_size s"
    using v by (auto simp: victim_taken_def)
  have set_fs: "g \<in> set fs \<longleftrightarrow> g \<in> set (free_list s)" if "g \<noteq> f" for g
    using v that by (auto simp: victim_taken_def)
  have set_r: "g \<in> set (LRUlist r) \<longleftrightarrow> g \<in> set (LRUlist (frame_replacer s))" if "g \<noteq> f" for g
    using v that by (auto simp: victim_taken_def)
  note fields = installed_fields(2,3,4,1,5,6) [OF ins]
  show ?thesis
  proof (rule bpm_invI, unfold fields(1-3))
    show "lru_inv r" "distinct fs" using v by (simp_all add: victim_taken_def)
    show "g < pool_size s \<and> pid_no (pg_id (pages s' g)) = INVALID_PAGE_ID" if "g \<in> set fs" for g
      using that fs set_fs [of g] bpm_invD(3,8) [OF inv, of g] by (auto simp: fields)
    show "g < pool_size s" if "g \<in> set (LRUlist r)" for g
      using that fs set_r [of g] bpm_invD(4) [OF inv, of g] by auto
    show "g < pool_size s \<and> g \<notin> set fs \<and> pg_id (pages s' g) = q \<and> pid_no q \<noteq> INVALID_PAGE_ID"
      if "page_table s' q = Some g" for q g
      using tab [OF that] bpm_invD(5) [OF inv, of q g] set_fs [of g] fs valid by (auto simp: fields)
    show "page_table s' (pg_id (pages s' g)) = Some g" if g: "g < pool_size s" "g \<notin> set fs" for g
    proof (cases "g = f")
      case True
      then show ?thesis by (simp add: fields)
    next
      case False
      with g set_fs have t: "page_table s (pg_id (pages s g)) = Some g"
        using bpm_invD(6) [OF inv] by blast
      have "pg_id (pages s g) \<noteq> pg_id (pages s f)"
      proof
        assume eq: "pg_id (pages s g) = pg_id (pages s f)"
        then have "f \<in> set (free_list s)"
          using t bpm_invD(6) [OF inv fs(3)] False by auto
        then show False
          using bpm_invD(8) [OF inv, of f] bpm_invD(5) [OF inv t] eq by simp
      qed
      moreover have "pg_id (pages s g) \<noteq> pid" using t no by auto
      ultimately show ?thesis using False t by (simp add: fields)
    qed
    show "g \<in> set (LRUlist r) \<longleftrightarrow> g \<notin> set fs \<and> pg_pin (pages s' g) = 0" if "g < pool_size s" for g
      using that fs set_r [of g] set_fs [of g] bpm_invD(7) [OF inv, of g] pin by (auto simp: fields)
    show "0 \<le> pg_pin (pages s' g)" if "g < pool_size s" for g
      using that bpm_invD(9) [OF inv, of g] pin by (auto simp: fields)
  qed
qed

lemma installed_view:
  assumes inv: "bpm_inv s" and v: "victim_taken f fs r s" and no: "page_table s pid = None"
    and ins: "installed f pid pg fs r s s'" and io: "io_ok (pid_fd q) (pid_no q) s"
  shows "page_view q s' = (if q = pid then page_trunc (pg_data pg) else page_view q s)"
proof -
  note tab = installed_fields(6) [OF ins] and pg = installed_fields(1) [OF ins]
    and dp = installed_disk [OF ins io]
  consider "q = pid" | "q \<noteq> pid" "q = pg_id (pages s f)" | "q \<noteq> pid" "q \<noteq> pg_id (pages s f)" by blast
  then show ?thesis
  proof cases
    case 1
    then show ?thesis by (simp add: page_view_def tab pg)
  next
    case 2
    then have "page_view q s' = disk_page (pid_fd q) (pid_no q) s'"
      by (simp add: page_view_def tab)
    also have "\<dots> = page_view q s"
    proof (cases "f \<in> set (free_list s)")
      case False
      with dp 2 show ?thesis by simp
    next
      case True
      then have "page_table s q = None"
        using bpm_invD(8) [OF inv True] bpm_invD(5) [OF inv, of q] 2(2) by fastforce
      with dp True show ?thesis by (simp add: page_view_def)
    qed
    finally show ?thesis using 2 by simp
  next
    case 3
    then have "page_table s' q = page_table s q" by (simp add: tab)
    moreover have "pages s' g = pages s g" if "page_table s q = Some g" for g
      using bpm_invD(5) [OF inv that] 3 by (auto simp: pg)
    moreover have "disk_page (pid_fd q) (pid_no q) s' = disk_page (pid_fd q) (pid_no q) s"
      using dp 3 by simp
    ultimately show ?thesis using 3 by (cases "page_table s q") (simp_all add: page_view_def)
  qed
qed

lemma installed_coherent:
  assumes inv: "bpm_inv s" and v: "victim_taken f fs r s" and no: "page_table s pid = None"
    and ins: "installed f pid pg fs r s s'" and pin: "pg_pin pg = 1"
    and co: "bpm_coherent s" and bio: "bpm_io s" and io: "io_ok (pid_fd pid) (pid_no pid) s"
  shows "bpm_coherent s'" and "bpm_io s'"
proof -
  note tab = installed_table [OF inv v no ins]
  have "disk_wf s'" using ins by (simp add: installed_def)
  then show "bpm_io s'"
    unfolding bpm_io_def installed_fields(7) [OF ins]
    using bio io tab by (fastforce simp: bpm_io_def)
  show "bpm_coherent s'"
    unfolding bpm_coherent_def
  proof (intro allI impI, elim conjE)
    fix q g
    assume g: "page_table s' q = Some g" "pg_pin (pages s' g) = 0" "\<not> pg_dirty (pages s' g)"
    have "g \<noteq> f" using g(2) installed_fields(1) [OF ins] pin by auto
    then have t: "page_table s q = Some g" "pg_id (pages s g) = q" and same: "pages s' g = pages s g"
      using tab [OF g(1)] installed_fields(1) [OF ins] by auto
    have "io_ok (pid_fd q) (pid_no q) s"
      using bio t(1) by (auto simp: bpm_io_def)
    moreover have "q \<noteq> pg_id (pages s f) \<or> f \<in> set (free_list s)"
    proof (rule disjCI)
      assume "f \<notin> set (free_list s)"
      then have "page_table s (pg_id (pages s f)) = Some f"
        using bpm_invD(6) [OF inv, of f] v unfolding victim_taken_def by blast
      with t(1) \<open>g \<noteq> f\<close> show "q \<noteq> pg_id (pages s f)" by (metis option.inject)
    qed
    ultimately have "disk_page (pid_fd q) (pid_no q) s' = disk_page (pid_fd q) (pid_no q) s"
      using installed_disk [OF ins, of q] by auto
    moreover have "page_trunc (pg_data (pages s g)) = disk_page (pid_fd q) (pid_no q) s"
      by (rule bpm_coherentD [OF co t(1)]) (use g(2,3) same in simp_all)
    ultimately show "page_trunc (pg_data (pages s' g)) = disk_page (pid_fd q) (pid_no q) s'"
      by (simp only: same)
  qed
qed


section \<open>update\_page, fetch\_page, new\_page\<close>

lemma io_ok_same_os:
  "os_files t = os_files s \<Longrightarrow> os_fds t = os_fds s \<Longrightarrow> disk_wf t = disk_wf s \<Longrightarrow> io_ok fd p t = io_ok fd p s"
  by (simp add: io_ok_def fd_open_def)

lemma disk_page_same_os:
  "os_files t = os_files s \<Longrightarrow> os_fds t = os_fds s \<Longrightarrow> disk_page fd p t = disk_page fd p s"
  by (simp add: disk_page_def split: option.splits)

lemma bpm_ioD: "bpm_io s \<Longrightarrow> page_table s pid = Some f \<Longrightarrow> io_ok (pid_fd pid) (pid_no pid) s"
  by (auto simp: bpm_io_def)

lemma update_page_clean:
  assumes "\<not> (pid_no (pg_id (pages s f)) \<noteq> INVALID_PAGE_ID \<and> pg_dirty (pages s f))"
  shows "update_page f pid f s =
    (Inr (), set_page f (\<lambda>p. (reset_memory p)\<lparr>pg_id := pid\<rparr>)
               (s\<lparr>page_table := (page_table s)(pg_id (pages s f) := None, pid \<mapsto> f)\<rparr>))"
  using assms by (auto simp: update_page_def Let_def)

lemma update_page_dirty:
  assumes "pid_no (pg_id (pages s f)) \<noteq> INVALID_PAGE_ID" and "pg_dirty (pages s f)"
    and "write_page (pid_fd (pg_id (pages s f))) (pid_no (pg_id (pages s f))) (pg_data (pages s f)) PAGE_SIZE s =
      (Inr (), s\<lparr>os_files := fls, os_fds := fds\<rparr>)"
  shows "update_page f pid f s =
    (Inr (), set_page f (\<lambda>p. (reset_memory p)\<lparr>pg_id := pid\<rparr>)
               ((set_page f (pg_dirty_update (\<lambda>_. False)) (s\<lparr>os_files := fls, os_fds := fds\<rparr>))
                \<lparr>page_table := (page_table s)(pg_id (pages s f) := None, pid \<mapsto> f)\<rparr>))"
  using assms by (simp add: update_page_def Let_def bindE_def set_page_def)

text \<open>The state on which \<open>update_page\<close> runs: the victim has left its list, nothing else moved.\<close>

definition victim_state :: "nat list \<Rightarrow> lru \<Rightarrow> 'a bpm_scheme \<Rightarrow> 'a bpm_scheme \<Rightarrow> bool" where
  "victim_state fs r s t \<longleftrightarrow>
     pages t = pages s \<and> page_table t = page_table s \<and> pool_size t = pool_size s \<and>
     free_list t = fs \<and> frame_replacer t = r \<and> os_files t = os_files s \<and> os_fds t = os_fds s \<and>
     (disk_wf t \<longleftrightarrow> disk_wf s)"

lemma victim_occupied:
  assumes "bpm_inv s" and "victim_taken f fs r s" and "f \<notin> set (free_list s)"
  shows "page_table s (pg_id (pages s f)) = Some f" and "pg_pin (pages s f) = 0"
    and "page_view (pg_id (pages s f)) s = page_trunc (pg_data (pages s f))"
proof -
  have f: "f < pool_size s" "f \<in> set (LRUlist (frame_replacer s))"
    using assms(2,3) by (simp_all add: victim_taken_def evictable_def)
  show t: "page_table s (pg_id (pages s f)) = Some f"
    using bpm_invD(6) [OF assms(1) f(1) assms(3)] .
  show "pg_pin (pages s f) = 0"
    using bpm_invD(7) [OF assms(1) f(1)] f(2) by simp
  show "page_view (pg_id (pages s f)) s = page_trunc (pg_data (pages s f))"
    unfolding page_view_def t by simp
qed

lemma page_id_eq_iff: "pid_fd q = pid_fd r \<and> pid_no q = pid_no r \<longleftrightarrow> q = (r :: page_id)"
  by auto

lemma update_page_installs:
  assumes ok: "bpm_ok s" and v: "victim_taken f fs r s" and t: "victim_state fs r s t"
  shows "\<exists>u pg. update_page f pid f t = (Inr (), u) \<and> installed f pid pg fs r s u \<and>
    page_trunc (pg_data pg) = zero_mem \<and> fd2pageno u = fd2pageno t"
proof -
  have inv: "bpm_inv s" and co: "bpm_coherent s" and bio: "bpm_io s"
    using ok by (simp_all add: bpm_ok_def)
  let ?old = "pg_id (pages s f)"
  have eqs: "pages t = pages s" "page_table t = page_table s" "pool_size t = pool_size s"
    "free_list t = fs" "frame_replacer t = r"
    using t by (simp_all add: victim_state_def)
  have iot: "io_ok fd p t = io_ok fd p s" and dpt: "disk_page fd p t = disk_page fd p s" for fd p
    using t unfolding victim_state_def
    by - (rule io_ok_same_os disk_page_same_os; blast)+
  have wft: "disk_wf t" using t bio by (simp add: victim_state_def bpm_io_def)
  note occ = victim_occupied [OF inv v]
  show ?thesis
  proof (cases "pid_no ?old \<noteq> INVALID_PAGE_ID \<and> pg_dirty (pages s f)")
    case True
    then have nf: "f \<notin> set (free_list s)" using bpm_invD(8) [OF inv, of f] by blast
    have io_old: "io_ok (pid_fd ?old) (pid_no ?old) t"
      unfolding iot by (rule bpm_ioD [OF bio occ(1) [OF nf]])
    obtain fls fds where w: "write_page (pid_fd ?old) (pid_no ?old) (pg_data (pages s f)) PAGE_SIZE t =
        (Inr (), t\<lparr>os_files := fls, os_fds := fds\<rparr>)"
      using write_page_shape [OF io_old] by blast
    let ?w = "t\<lparr>os_files := fls, os_fds := fds\<rparr>"
    have okw: "io_ok fd p ?w = io_ok fd p s" for fd p
      using dm.wr_ok [OF io_old w] iot by simp
    have wfw: "disk_wf ?w" using okw [of "pid_fd ?old" "pid_no ?old"] io_old iot unfolding io_ok_def by blast
    have vieww: "disk_page (pid_fd q) (pid_no q) ?w =
        (if q = ?old then page_view q s else disk_page (pid_fd q) (pid_no q) s)"
      if "io_ok (pid_fd q) (pid_no q) s" for q
    proof -
      have "io_ok (pid_fd q) (pid_no q) t" using that iot by simp
      from dm.wr_view [OF io_old w this] show ?thesis
        unfolding page_id_eq_iff dpt using occ(3) [OF nf] by (cases "q = ?old") simp_all
    qed
    have up: "update_page f pid f t = (Inr (), set_page f (\<lambda>p. (reset_memory p)\<lparr>pg_id := pid\<rparr>)
               ((set_page f (pg_dirty_update (\<lambda>_. False)) ?w)\<lparr>page_table := (page_table s)(?old := None, pid \<mapsto> f)\<rparr>))"
      (is "_ = (_, ?u)")
      using update_page_dirty [where s = t and f = f and pid = pid and fls = fls and fds = fds, unfolded eqs, OF _ _ w] True by blast
    have os: "os_files ?u = fls" "os_fds ?u = fds" "disk_wf ?u = disk_wf ?w" "fd2pageno ?u = fd2pageno t"
      by (simp_all add: set_page_def)
    have "io_ok fd p ?u = io_ok fd p ?w" "disk_page fd p ?u = disk_page fd p ?w" for fd p
      using io_ok_same_os [of ?u ?w] disk_page_same_os [of ?u ?w] os by simp_all
    then have "installed f pid ((reset_memory ((pages s f)\<lparr>pg_dirty := False\<rparr>))\<lparr>pg_id := pid\<rparr>) fs r s ?u"
      using okw vieww nf wfw os by (simp add: installed_def set_page_def eqs)
    with up os show ?thesis
      by (intro exI conjI) (assumption | simp)+
  next
    case False
    have dp: "disk_page (pid_fd ?old) (pid_no ?old) s = page_view ?old s" if nf: "f \<notin> set (free_list s)"
    proof -
      have "\<not> pg_dirty (pages s f)" using False bpm_invD(5) [OF inv occ(1) [OF nf]] by blast
      then show ?thesis using bpm_coherentD [OF co occ(1) [OF nf] occ(2) [OF nf]] occ(3) [OF nf] by simp
    qed
    have up: "update_page f pid f t = (Inr (), set_page f (\<lambda>p. (reset_memory p)\<lparr>pg_id := pid\<rparr>)
               (t\<lparr>page_table := (page_table s)(?old := None, pid \<mapsto> f)\<rparr>))"
      (is "_ = (_, ?u)")
      using update_page_clean [of t f pid, unfolded eqs] False by blast
    have os: "disk_wf ?u = disk_wf t" "fd2pageno ?u = fd2pageno t"
      by (simp_all add: set_page_def)
    have "io_ok fd p ?u = io_ok fd p t" "disk_page fd p ?u = disk_page fd p t" for fd p
      by (simp_all add: set_page_def)
    then have "installed f pid ((reset_memory (pages s f))\<lparr>pg_id := pid\<rparr>) fs r s ?u"
      using iot dpt wft dp os by (auto simp: installed_def set_page_def eqs)
    with up os show ?thesis
      by (intro exI conjI) (assumption | simp)+
  qed
qed

lemma installed_refill:
  assumes "installed f pid pg fs r s u" and "pages v = (pages u)(f := pg')" and "pg_id pg' = pid"
    and "pool_size v = pool_size u" and "free_list v = free_list u" and "frame_replacer v = frame_replacer u"
    and "page_table v = page_table u" and "disk_wf v"
    and "\<And>fd p. io_ok fd p v = io_ok fd p u" and "\<And>fd p. disk_page fd p v = disk_page fd p u"
  shows "installed f pid pg' fs r s v"
  using assms unfolding installed_def by simp

lemma victim_state_find:
  "victim_state fs r s (s\<lparr>free_list := fs, frame_replacer := r\<rparr>)"
  "victim_state fs r s (s\<lparr>free_list := fs, frame_replacer := r, fd2pageno := a\<rparr>)"
  by (simp_all add: victim_state_def)

lemma victim_taken_pin: "victim_taken f fs r s \<Longrightarrow> lru_pin f r = r"
  by (rule lru_pin_absent) (simp_all add: victim_taken_def)

lemma fetch_page_resident:
  assumes "page_table s pid = Some f"
  shows "fetch_page pid s =
    (Inr (Some f), set_page f (\<lambda>p. p\<lparr>pg_pin := pg_pin p + 1\<rparr>) (s\<lparr>frame_replacer := lru_pin f (frame_replacer s)\<rparr>))"
  using assms by (simp add: fetch_page_def)

lemma fetch_page_miss:
  assumes ok: "bpm_ok s" and io: "io_ok (pid_fd pid) (pid_no pid) s" and no: "page_table s pid = None"
    and find: "find_victim_page s = (Inr (Some f), s\<lparr>free_list := fs, frame_replacer := r\<rparr>)"
    and v: "victim_taken f fs r s"
  shows "\<exists>pg s'. fetch_page pid s = (Inr (Some f), s') \<and> installed f pid pg fs r s s' \<and>
    pg_pin pg = 1 \<and> page_trunc (pg_data pg) = disk_page (pid_fd pid) (pid_no pid) s \<and> fd2pageno s' = fd2pageno s"
proof -
  let ?t = "s\<lparr>free_list := fs, frame_replacer := r\<rparr>"
  have inv: "bpm_inv s" using ok by (simp add: bpm_ok_def)
  from update_page_installs [OF ok v victim_state_find(1)]
  obtain u pg where up: "update_page f pid f ?t = (Inr (), u)" and ins: "installed f pid pg fs r s u"
    and z: "page_trunc (pg_data pg) = zero_mem" and fu: "fd2pageno u = fd2pageno ?t"
    by blast
  have pu: "pages u f = pg" and ru: "frame_replacer u = r" using ins by (simp_all add: installed_def)
  have iou: "io_ok (pid_fd pid) (pid_no pid) u" using io installed_fields(7) [OF ins] by simp
  obtain b fds where rd: "read_page (pid_fd pid) (pid_no pid) (pg_data pg) PAGE_SIZE u = (Inr b, u\<lparr>os_fds := fds\<rparr>)"
    using read_page_shape [OF iou] by blast
  let ?u = "u\<lparr>os_fds := fds\<rparr>"
  have b: "page_trunc b = disk_page (pid_fd pid) (pid_no pid) u"
    using dm.rd_total [OF iou z] rd by auto
  have old: "pid = pg_id (pages s f) \<longrightarrow> f \<in> set (free_list s)"
    using victim_occupied(1) [OF inv v] no by (cases "f \<in> set (free_list s)") auto
  have du: "disk_page (pid_fd pid) (pid_no pid) u = disk_page (pid_fd pid) (pid_no pid) s"
    using installed_disk [OF ins io] old by auto
  have rdf: "io_ok fd p ?u = io_ok fd p u" "disk_page fd p ?u = disk_page fd p u" for fd p
    using dm.rd_ok [OF iou rd] dm.rd_view [OF iou rd] by simp_all
  have wf: "disk_wf ?u" using rdf(1) iou unfolding io_ok_def by blast
  let ?v = "set_page f (\<lambda>p. p\<lparr>pg_data := b, pg_pin := 1\<rparr>) (?u\<lparr>frame_replacer := lru_pin f r\<rparr>)"
  have "fetch_page pid s = (Inr (Some f), ?v)"
    by (simp add: fetch_page_def no find up rd pu ru bindE_def)
  moreover have "installed f pid (pg\<lparr>pg_data := b, pg_pin := 1\<rparr>) fs r s ?v"
    by (rule installed_refill [OF ins])
       (use rdf wf installed_fields(5) [OF ins] in \<open>simp_all add: set_page_def pu ru victim_taken_pin [OF v]\<close>)
  ultimately show ?thesis
    using b du fu by (intro exI conjI) (assumption | simp add: set_page_def)+
qed

lemma new_page_installs:
  fixes s :: "'a bpm_scheme"
  assumes ok: "bpm_ok s" and fd: "0 \<le> pid_fd pid" "pid_fd pid < MAX_FD"
    and find: "find_victim_page s = (Inr (Some f), s\<lparr>free_list := fs, frame_replacer := r\<rparr>)"
    and v: "victim_taken f fs r s"
  defines "new \<equiv> pid\<lparr>pid_no := fd2pageno s (pid_fd pid)\<rparr>"
  shows "\<exists>pg s'. new_page pid s = (Inr (Some f, new), s') \<and> installed f new pg fs r s s' \<and>
    pg_pin pg = 1 \<and> page_trunc (pg_data pg) = zero_mem \<and>
    fd2pageno s' = (fd2pageno s)(pid_fd pid := c_int (fd2pageno s (pid_fd pid) + 1))"
proof -
  let ?t = "s\<lparr>free_list := fs, frame_replacer := r, fd2pageno := (fd2pageno s)(pid_fd pid := c_int (fd2pageno s (pid_fd pid) + 1))\<rparr>"
  from update_page_installs [OF ok v victim_state_find(2)]
  obtain u pg where up: "update_page f new f ?t = (Inr (), u)" and ins: "installed f new pg fs r s u"
    and z: "page_trunc (pg_data pg) = zero_mem" and fu: "fd2pageno u = fd2pageno ?t"
    by blast
  have pu: "pages u f = pg" and ru: "frame_replacer u = r" and wf: "disk_wf u"
    using ins by (simp_all add: installed_def)
  let ?v = "set_page f (\<lambda>p. p\<lparr>pg_pin := 1\<rparr>) (u\<lparr>frame_replacer := lru_pin f r\<rparr>)"
  have comm: "s\<lparr>fd2pageno := x, free_list := fs, frame_replacer := r\<rparr> =
      s\<lparr>free_list := fs, frame_replacer := r, fd2pageno := x\<rparr>" for x
    by simp
  have "new_page pid s = (Inr (Some f, new), ?v)"
    using fd up by (simp add: new_page_def find allocate_page_def ru bindE_def Let_def new_def [symmetric])
  moreover have "installed f new (pg\<lparr>pg_pin := 1\<rparr>) fs r s ?v"
    by (rule installed_refill [OF ins])
       (use wf installed_fields(5) [OF ins] in \<open>simp_all add: set_page_def pu ru victim_taken_pin [OF v]\<close>)
  ultimately show ?thesis
    using z fu by (intro exI conjI) (assumption | simp add: set_page_def)+
qed

end
