(* ===== verification/PageCache.thy ===== *)
theory PageCache
  imports BufferPool
begin

text \<open>
  The contract of the buffer pool (\<^verbatim>\<open>storage/buffer_pool_manager.cpp\<close>): what each operation
  does to the page contents and pin counts that its callers see, and the refinement of the pool
  to an abstract page store without frames, eviction or write-back.

  The theorems below are about a pool whose pages all belong to open files
  (\<open>pool_ok\<close>, an invariant of every run of \<open>page_step\<close>).
\<close>

section \<open>What the callers see\<close>

definition pin_count :: "page_id \<Rightarrow> 'a bpm_scheme \<Rightarrow> int" where
  "pin_count pid s = (case page_table s pid of None \<Rightarrow> 0 | Some f \<Rightarrow> pg_pin (pages s f))"

definition page_io :: "page_id \<Rightarrow> 'a bpm_scheme \<Rightarrow> bool" where
  "page_io pid s \<longleftrightarrow> io_ok (pid_fd pid) (pid_no pid) s"

definition pool_ok :: "'a bpm_scheme \<Rightarrow> bool" where
  "pool_ok s \<longleftrightarrow> bpm_ok s \<and> (\<forall>pid \<in> dom (page_table s). pid_no pid < fd2pageno s (pid_fd pid))"

text \<open>A caller that holds a \<open>Page*\<close> writes through it; the pool is not told before \<open>unpin_page\<close>.\<close>

definition write_frame :: "nat \<Rightarrow> mem \<Rightarrow> 'a bpm_scheme \<Rightarrow> 'a bpm_scheme" where
  "write_frame f m s = set_page f (pg_data_update (\<lambda>_. m)) s"

text \<open>A page is settled when its cached copy is on disk or marked dirty, so eviction cannot lose it.\<close>

definition synced :: "page_id \<Rightarrow> 'a bpm_scheme \<Rightarrow> bool" where
  "synced pid s \<longleftrightarrow> disk_page (pid_fd pid) (pid_no pid) s = page_view pid s"

definition settled :: "page_id \<Rightarrow> 'a bpm_scheme \<Rightarrow> bool" where
  "settled pid s \<longleftrightarrow> synced pid s \<or> (\<forall>f. page_table s pid = Some f \<longrightarrow> pg_dirty (pages s f))"

text \<open>
  The frame conditions shared by the operations: the open files, the contents of all pages but
  \<open>pid\<close>, the pin counts of all pages but \<open>pid\<close>, and the frames of the pinned pages.
\<close>

definition keeps_but :: "page_id \<Rightarrow> 'a bpm_scheme \<Rightarrow> 'a bpm_scheme \<Rightarrow> bool" where
  "keeps_but pid s s' \<longleftrightarrow>
     (\<forall>q. page_io q s' = page_io q s) \<and>
     (\<forall>q. q \<noteq> pid \<longrightarrow> page_io q s \<longrightarrow> page_view q s' = page_view q s) \<and>
     (\<forall>q. q \<noteq> pid \<longrightarrow> pin_count q s' = pin_count q s) \<and>
     (\<forall>q f. 0 < pin_count q s \<longrightarrow> page_table s q = Some f \<longrightarrow> page_table s' q = Some f) \<and>
     (\<forall>q. q \<noteq> pid \<longrightarrow> page_io q s \<longrightarrow> 0 < pin_count q s \<longrightarrow> settled q s \<longrightarrow> settled q s') \<and>
     (\<forall>q. q \<noteq> pid \<longrightarrow> page_table s q = None \<longrightarrow> page_table s' q = None)"

lemma bpm_okD: "bpm_ok s \<Longrightarrow> bpm_inv s" "bpm_ok s \<Longrightarrow> bpm_coherent s" "bpm_ok s \<Longrightarrow> bpm_io s"
  by (simp_all add: bpm_ok_def)

lemma page_io_valid: "page_io q s \<Longrightarrow> pid_no q \<noteq> INVALID_PAGE_ID"
  by (auto simp: page_io_def io_ok_def page_in_range_def INVALID_PAGE_ID_def)

lemma pinned_not_victim:
  assumes "bpm_inv s" and "victim_taken f fs r s" and "0 < pin_count q s" and "page_table s q = Some g"
  shows "g \<noteq> f"
proof
  assume "g = f"
  with assms(4) bpm_invD(5) [OF assms(1) assms(4)]
  have "f \<notin> set (free_list s)" "pg_id (pages s f) = q" by simp_all
  with victim_occupied(2) [OF assms(1,2)] assms(3,4) \<open>g = f\<close> show False
    by (simp add: pin_count_def)
qed

lemma installed_ok:
  assumes ok: "bpm_ok s" and v: "victim_taken f fs r s" and no: "page_table s pid = None"
    and ins: "installed f pid pg fs r s s'" and pin: "pg_pin pg = 1" and io: "page_io pid s"
  shows "bpm_ok s'" and "keeps_but pid s s'" and "page_table s' pid = Some f" and "pin_count pid s' = 1"
    and "page_view pid s' = page_trunc (pg_data pg)"
proof -
  note inv = bpm_okD(1) [OF ok]
  have io': "io_ok (pid_fd pid) (pid_no pid) s" using io by (simp add: page_io_def)
  show "bpm_ok s'"
    unfolding bpm_ok_def
    using installed_inv [OF inv v no ins pin page_io_valid [OF io]]
      installed_coherent [OF inv v no ins pin bpm_okD(2,3) [OF ok] io'] by blast
  show tab: "page_table s' pid = Some f"
    using installed_fields(6) [OF ins] by simp
  show "pin_count pid s' = 1"
    using tab installed_fields(1) [OF ins] pin by (simp add: pin_count_def)
  show "page_view pid s' = page_trunc (pg_data pg)"
    using installed_view [OF inv v no ins io'] by simp
  show "keeps_but pid s s'"
    unfolding keeps_but_def
  proof (intro conjI allI impI)
    show "page_io q s' = page_io q s" for q
      using installed_fields(7) [OF ins] by (simp add: page_io_def)
    show "page_view q s' = page_view q s" if "q \<noteq> pid" "page_io q s" for q
      using installed_view [OF inv v no ins, of q] that by (simp add: page_io_def)
    have keep: "page_table s' q = Some g \<and> g \<noteq> f \<and> q \<noteq> pg_id (pages s f)"
      if "0 < pin_count q s" "page_table s q = Some g" for q g
    proof -
      have "g \<noteq> f" by (rule pinned_not_victim [OF inv v that])
      moreover have "pg_id (pages s g) = q" using bpm_invD(5) [OF inv that(2)] by simp
      moreover have "q \<noteq> pg_id (pages s f)"
      proof
        assume q: "q = pg_id (pages s f)"
        show False
        proof (cases "f \<in> set (free_list s)")
          case True
          then show False using bpm_invD(8) [OF inv True] bpm_invD(5) [OF inv that(2)] q by simp
        next
          case False
          then show False using victim_occupied(1) [OF inv v False] that(2) q \<open>g \<noteq> f\<close> by simp
        qed
      qed
      moreover have "q \<noteq> pid" using that no by auto
      ultimately show ?thesis using installed_fields(6) [OF ins] that(2) by simp
    qed
    then show "page_table s' q = Some g" if "0 < pin_count q s" "page_table s q = Some g" for q g
      using that by blast
    show "page_table s' q = None" if "q \<noteq> pid" "page_table s q = None" for q
      using installed_table [OF inv v no ins, of q] that by (cases "page_table s' q") auto
    show "settled q s'" if q: "q \<noteq> pid" "page_io q s" "0 < pin_count q s" "settled q s" for q
    proof -
      obtain g where g: "page_table s q = Some g"
        using q(3) by (auto simp: pin_count_def split: option.splits)
      note k = keep [OF q(3) g]
      have "page_view q s' = page_view q s" "disk_page (pid_fd q) (pid_no q) s' = disk_page (pid_fd q) (pid_no q) s"
        using installed_view [OF inv v no ins, of q] installed_disk [OF ins, of q] q k by (simp_all add: page_io_def)
      moreover have "pages s' g = pages s g" using k installed_fields(1) [OF ins] by simp
      ultimately show ?thesis using q(4) k g by (simp add: settled_def synced_def)
    qed
    show "pin_count q s' = pin_count q s" if "q \<noteq> pid" for q
    proof (cases "page_table s' q")
      case None
      then have "page_table s q = None \<or> q = pg_id (pages s f)"
        using installed_fields(6) [OF ins] that by (auto split: if_splits)
      moreover have "pin_count (pg_id (pages s f)) s = 0"
      proof (cases "f \<in> set (free_list s)")
        case True
        then have "page_table s (pg_id (pages s f)) = None"
          using bpm_invD(8) [OF inv True] bpm_invD(5) [OF inv] by (metis not_None_eq)
        then show ?thesis by (simp add: pin_count_def)
      next
        case False
        from victim_occupied(1,2) [OF inv v False] show ?thesis by (simp add: pin_count_def)
      qed
      ultimately show ?thesis using None by (auto simp: pin_count_def)
    next
      case (Some g)
      from installed_table [OF inv v no ins Some] that
      have "page_table s q = Some g" "g \<noteq> f" by auto
      then show ?thesis using Some installed_fields(1) [OF ins] by (simp add: pin_count_def)
    qed
  qed
qed

section \<open>fetch\_page\<close>

lemma lru_pin_inv: "lru_inv r \<Longrightarrow> lru_inv (lru_pin f r)"
  by (rule rp.pin_inv)

lemma lru_unpin_inv: "lru_inv r \<Longrightarrow> lru_inv (lru_unpin f r)"
  by (rule rp.unpin_inv)

lemma set_lru_pin: "lru_inv r \<Longrightarrow> set (LRUlist (lru_pin f r)) = set (LRUlist r) - {f}"
  by (simp add: rp.pin_order)

lemma set_lru_unpin: "lru_inv r \<Longrightarrow> set (LRUlist (lru_unpin f r)) = insert f (set (LRUlist r))"
  by (auto simp: rp.unpin_order)

text \<open>
  Every change that keeps the page id of frame \<open>f\<close>, and moves it in or out of the replacer as
  its pin count says, keeps the invariant.
\<close>

lemma repin_ok:
  fixes s :: "'a bpm_scheme" and r p
  assumes ok: "bpm_ok s" and t: "page_table s pid = Some f" and id: "pg_id p = pid" and pos: "0 \<le> pg_pin p"
    and r: "lru_inv r" "set (LRUlist r) = (if pg_pin p = 0 then insert f else (\<lambda>A. A - {f})) (set (LRUlist (frame_replacer s)))"
    and co: "pg_pin p = 0 \<Longrightarrow> \<not> pg_dirty p \<Longrightarrow> page_trunc (pg_data p) = disk_page (pid_fd pid) (pid_no pid) s"
  shows "bpm_ok (set_page f (\<lambda>_. p) (s\<lparr>frame_replacer := r\<rparr>))" (is "bpm_ok ?s")
proof -
  note inv = bpm_okD(1) [OF ok]
  note f = bpm_invD(5) [OF inv t]
  have fields: "pool_size ?s = pool_size s" "free_list ?s = free_list s" "frame_replacer ?s = r"
    "page_table ?s = page_table s" "pages ?s = (pages s)(f := p)"
    by (simp_all add: set_page_def)
  have "bpm_inv ?s"
  proof (rule bpm_invI, unfold fields(1-4))
    show "lru_inv r" "distinct (free_list s)" using r bpm_invD(2) [OF inv] by simp_all
    show "g < pool_size s \<and> pid_no (pg_id (pages ?s g)) = INVALID_PAGE_ID" if "g \<in> set (free_list s)" for g
      using bpm_invD(3,8) [OF inv that] f that by (auto simp: fields)
    show "g < pool_size s" if "g \<in> set (LRUlist r)" for g
      using that r(2) f bpm_invD(4) [OF inv, of g] by (auto split: if_splits)
    show "g < pool_size s \<and> g \<notin> set (free_list s) \<and> pg_id (pages ?s g) = q \<and> pid_no q \<noteq> INVALID_PAGE_ID"
      if "page_table s q = Some g" for q g
      using bpm_invD(5) [OF inv that] f id t that by (auto simp: fields)
    show "page_table s (pg_id (pages ?s g)) = Some g" if "g < pool_size s" "g \<notin> set (free_list s)" for g
      using bpm_invD(6) [OF inv that] t id by (auto simp: fields)
    show "g \<in> set (LRUlist r) \<longleftrightarrow> g \<notin> set (free_list s) \<and> pg_pin (pages ?s g) = 0" if "g < pool_size s" for g
      using bpm_invD(7) [OF inv that] f r(2) by (auto simp: fields split: if_splits)
    show "0 \<le> pg_pin (pages ?s g)" if "g < pool_size s" for g
      using bpm_invD(9) [OF inv that] pos by (simp add: fields)
  qed
  moreover have "bpm_coherent ?s"
    unfolding bpm_coherent_def
  proof (intro allI impI, elim conjE)
    fix q g
    assume g: "page_table ?s q = Some g" "pg_pin (pages ?s g) = 0" "\<not> pg_dirty (pages ?s g)"
    have dp: "disk_page (pid_fd q) (pid_no q) ?s = disk_page (pid_fd q) (pid_no q) s"
      by (simp add: set_page_def)
    show "page_trunc (pg_data (pages ?s g)) = disk_page (pid_fd q) (pid_no q) ?s"
    proof (cases "g = f")
      case True
      then have "q = pid" using g(1) bpm_invD(5) [OF inv] f by (simp add: fields)
      then show ?thesis unfolding dp using True co g by (simp add: fields)
    next
      case False
      then show ?thesis unfolding dp using g bpm_coherentD [OF bpm_okD(2) [OF ok], of q g] by (simp add: fields)
    qed
  qed
  moreover have "bpm_io ?s"
    using bpm_okD(3) [OF ok] by (simp add: bpm_io_def set_page_def)
  ultimately show ?thesis by (simp add: bpm_ok_def)
qed

lemma repin_keeps:
  fixes s :: "'a bpm_scheme" and r p
  assumes ok: "bpm_ok s" and t: "page_table s pid = Some f"
  defines "s' \<equiv> set_page f (\<lambda>_. p) (s\<lparr>frame_replacer := r\<rparr>)"
  shows "keeps_but pid s s'" and "page_table s' = page_table s" and "pin_count pid s' = pg_pin p"
    and "page_view pid s' = page_trunc (pg_data p)" and "fd2pageno s' = fd2pageno s"
proof -
  have other: "g \<noteq> f" if "page_table s q = Some g" "q \<noteq> pid" for q g
    using bpm_invD(5) [OF bpm_okD(1) [OF ok] that(1)] bpm_invD(5) [OF bpm_okD(1) [OF ok] t] that(2) by auto
  show "keeps_but pid s s'"
    using other by (auto simp: keeps_but_def s'_def set_page_def page_io_def page_view_def pin_count_def
        settled_def synced_def split: option.splits)
qed (use t in \<open>simp_all add: s'_def set_page_def pin_count_def page_view_def\<close>)

lemma fetch_page_full:
  assumes ok: "bpm_ok s" and no: "page_table s pid = None" and free: "free_list s = []" "LRUlist (frame_replacer s) = []"
  shows "fetch_page pid s = (Inr None, s)"
    and "f < pool_size s \<Longrightarrow> 0 < pin_count (pg_id (pages s f)) s"
proof -
  note inv = bpm_okD(1) [OF ok]
  have "find_victim_page s = (Inr None, s)"
    by (rule find_victim_cases [OF inv]) (use free in \<open>auto simp: victim_taken_def evictable_def\<close>)
  then show "fetch_page pid s = (Inr None, s)"
    using no by (simp add: fetch_page_def bindE_def)
  show "0 < pin_count (pg_id (pages s f)) s" if "f < pool_size s"
    using bpm_invD(6,7,9) [OF inv that] free by (simp add: pin_count_def)
qed

lemma fetch_page_spec:
  assumes ok: "bpm_ok s" and io: "page_io pid s"
  obtains (fetched) f s' where "fetch_page pid s = (Inr (Some f), s')" and "bpm_ok s'" and "keeps_but pid s s'"
      and "page_table s' pid = Some f" and "pin_count pid s' = pin_count pid s + 1"
      and "page_view pid s' = page_view pid s" and "fd2pageno s' = fd2pageno s"
      and "settled pid s' \<or> 1 < pin_count pid s'"
  | (full) "fetch_page pid s = (Inr None, s)" and "page_table s pid = None"
      and "\<And>f. f < pool_size s \<Longrightarrow> 0 < pin_count (pg_id (pages s f)) s"
proof (cases "page_table s pid")
  case (Some f)
  note inv = bpm_okD(1) [OF ok]
  let ?p = "(pages s f)\<lparr>pg_pin := pg_pin (pages s f) + 1\<rparr>" and ?r = "lru_pin f (frame_replacer s)"
  let ?s = "set_page f (\<lambda>_. ?p) (s\<lparr>frame_replacer := ?r\<rparr>)"
  have f: "pg_id (pages s f) = pid" "0 \<le> pg_pin (pages s f)"
    using bpm_invD(5) [OF inv Some] bpm_invD(9) [OF inv, of f] by simp_all
  have eq: "fetch_page pid s = (Inr (Some f), ?s)"
    using fetch_page_resident [OF Some] by (simp add: set_page_def)
  have "bpm_ok ?s"
    by (rule repin_ok [OF ok Some])
       (use f bpm_invD(1) [OF inv] in \<open>simp_all add: lru_pin_inv set_lru_pin\<close>)
  moreover have "settled pid ?s \<or> 1 < pin_count pid ?s"
  proof (cases "pg_pin (pages s f) = 0")
    case True
    then have "settled pid s"
      using bpm_coherentD [OF bpm_okD(2) [OF ok] Some True] Some by (auto simp: settled_def synced_def page_view_def)
    then show ?thesis using Some by (simp add: settled_def synced_def page_view_def set_page_def)
  next
    case False
    then show ?thesis using f Some by (simp add: pin_count_def set_page_def)
  qed
  ultimately show ?thesis
    using repin_keeps [OF ok Some, of ?p ?r] eq Some
    by (intro fetched [of f ?s]) (simp_all add: pin_count_def page_view_def)
next
  case None
  note inv = bpm_okD(1) [OF ok]
  from inv show ?thesis
  proof (rule find_victim_cases)
    assume "free_list s = []" "LRUlist (frame_replacer s) = []"
    note e = fetch_page_full [OF ok None this]
    show ?thesis by (rule full [OF e(1) None e(2)])
  next
    fix f fs r
    assume v: "find_victim_page s = (Inr (Some f), s\<lparr>free_list := fs, frame_replacer := r\<rparr>)"
      "victim_taken f fs r s"
    from fetch_page_miss [OF ok io [unfolded page_io_def] None v]
    obtain pg s' where s': "fetch_page pid s = (Inr (Some f), s')" "installed f pid pg fs r s s'" "pg_pin pg = 1"
      "page_trunc (pg_data pg) = disk_page (pid_fd pid) (pid_no pid) s" "fd2pageno s' = fd2pageno s"
      by blast
    have "pin_count pid s = 0" and pv: "page_view pid s = page_trunc (pg_data pg)"
      using None s'(4) by (simp_all add: pin_count_def page_view_def)
    moreover have "settled pid s'"
    proof -
      have "disk_page (pid_fd pid) (pid_no pid) s' = disk_page (pid_fd pid) (pid_no pid) s"
        using installed_disk [OF s'(2) io [unfolded page_io_def]] None by (auto simp: page_view_def)
      then show ?thesis
        using installed_ok(5) [OF ok v(2) None s'(2,3) io] s'(4) by (simp add: settled_def synced_def)
    qed
    ultimately show ?thesis using installed_ok [OF ok v(2) None s'(2,3) io] s'
      by (intro fetched [of f s']) simp_all
  qed
qed

section \<open>new\_page\<close>

lemma new_page_spec:
  assumes ok: "bpm_ok s" and new: "new = pid\<lparr>pid_no := fd2pageno s (pid_fd pid)\<rparr>"
    and fd: "pid_fd pid < MAX_FD" and io: "page_io new s" and fresh: "page_table s new = None"
  obtains (created) f s' where "new_page pid s = (Inr (Some f, new), s')" and "bpm_ok s'" and "keeps_but new s s'"
      and "page_table s' new = Some f" and "pin_count new s' = 1" and "page_view new s' = zero_mem"
      and "fd2pageno s' = (fd2pageno s)(pid_fd pid := fd2pageno s (pid_fd pid) + 1)"
  | (full) "new_page pid s = (Inr (None, pid), s)"
      and "\<And>f. f < pool_size s \<Longrightarrow> 0 < pin_count (pg_id (pages s f)) s"
proof -
  note inv = bpm_okD(1) [OF ok]
  have rng: "page_in_range (fd2pageno s (pid_fd pid))" and dwf: "disk_wf s" and fdo: "fd_open (pid_fd pid) s"
    using io by (simp_all add: page_io_def io_ok_def new)
  obtain path pos where "os_fds s (pid_fd pid) = Some (path, pos)"
    using fdo by (auto simp: fd_open_def)
  then have fd0: "0 \<le> pid_fd pid" using disk_wf_fds [OF dwf] by blast
  have inc: "c_int (fd2pageno s (pid_fd pid) + 1) = fd2pageno s (pid_fd pid) + 1"
    using rng by (intro c_int_id) (auto simp: page_in_range_def int32_range_def)
  from inv show ?thesis
  proof (rule find_victim_cases)
    assume v: "find_victim_page s = (Inr None, s)" and free: "free_list s = []" "LRUlist (frame_replacer s) = []"
    have "new_page pid s = (Inr (None, pid), s)"
      using v by (simp add: new_page_def bindE_def)
    then show ?thesis by (rule full) (rule fetch_page_full(2) [OF ok fresh free])
  next
    fix f fs r
    assume v: "find_victim_page s = (Inr (Some f), s\<lparr>free_list := fs, frame_replacer := r\<rparr>)"
      "victim_taken f fs r s"
    from new_page_installs [OF ok fd0 fd v] obtain pg s' where s':
      "new_page pid s = (Inr (Some f, new), s')" "installed f new pg fs r s s'" "pg_pin pg = 1"
      "page_trunc (pg_data pg) = zero_mem"
      "fd2pageno s' = (fd2pageno s)(pid_fd pid := c_int (fd2pageno s (pid_fd pid) + 1))"
      unfolding new by blast
    from installed_ok [OF ok v(2) fresh s'(2,3) io] s' inc show ?thesis
      by (intro created [of f s']) simp_all
  qed
qed

section \<open>unpin\_page, flush\_page, writes through the page pointer\<close>

lemma unpin_page_refused:
  "pin_count pid s = 0 \<Longrightarrow> unpin_page pid d s = (Inr False, s)"
  by (simp add: unpin_page_def pin_count_def split: option.splits)

lemma unpin_page_spec:
  assumes ok: "bpm_ok s" and pinned: "0 < pin_count pid s"
    and honest: "d \<or> 1 < pin_count pid s \<or> settled pid s"
  obtains s' where "unpin_page pid d s = (Inr True, s')" and "bpm_ok s'" and "keeps_but pid s s'"
    and "page_table s' = page_table s" and "pin_count pid s' = pin_count pid s - 1"
    and "page_view pid s' = page_view pid s" and "fd2pageno s' = fd2pageno s"
proof -
  note inv = bpm_okD(1) [OF ok]
  obtain f where t: "page_table s pid = Some f" using pinned by (auto simp: pin_count_def split: option.splits)
  have f: "pg_id (pages s f) = pid" "0 < pg_pin (pages s f)" "f < pool_size s"
    using bpm_invD(5) [OF inv t] pinned t by (simp_all add: pin_count_def)
  let ?c = "pg_pin (pages s f) - 1"
  let ?r = "if ?c = 0 then lru_unpin f (frame_replacer s) else frame_replacer s"
  let ?p = "(pages s f)\<lparr>pg_pin := ?c, pg_dirty := d \<or> pg_dirty (pages s f)\<rparr>"
  let ?s = "set_page f (\<lambda>_. ?p) (s\<lparr>frame_replacer := ?r\<rparr>)"
  have eq: "unpin_page pid d s = (Inr True, ?s)"
    using t f by (auto simp: unpin_page_def set_page_def Let_def)
  have out: "f \<notin> set (LRUlist (frame_replacer s))"
    using bpm_invD(7) [OF inv f(3)] f(2) by simp
  have "bpm_ok ?s"
  proof (rule repin_ok [OF ok t])
    show "set (LRUlist ?r) = (if pg_pin ?p = 0 then insert f else (\<lambda>A. A - {f})) (set (LRUlist (frame_replacer s)))"
      using out bpm_invD(1) [OF inv] by (simp add: set_lru_unpin)
    show "page_trunc (pg_data ?p) = disk_page (pid_fd pid) (pid_no pid) s" if "pg_pin ?p = 0" "\<not> pg_dirty ?p"
      using that honest t by (auto simp: pin_count_def page_view_def settled_def synced_def)
  qed (use f bpm_invD(1) [OF inv] in \<open>simp_all add: lru_unpin_inv\<close>)
  with repin_keeps [OF ok t, of ?p ?r] eq t show ?thesis
    by (intro that [of ?s]) (simp_all add: pin_count_def page_view_def)
qed

lemma write_frame_spec:
  assumes ok: "bpm_ok s" and t: "page_table s pid = Some f" and pinned: "0 < pin_count pid s"
  shows "bpm_ok (write_frame f m s)" and "keeps_but pid s (write_frame f m s)"
    and "page_table (write_frame f m s) = page_table s" and "pin_count pid (write_frame f m s) = pin_count pid s"
    and "page_view pid (write_frame f m s) = page_trunc m" and "fd2pageno (write_frame f m s) = fd2pageno s"
proof -
  note inv = bpm_okD(1) [OF ok]
  have f: "pg_id (pages s f) = pid" "0 < pg_pin (pages s f)" "f < pool_size s"
    using bpm_invD(5) [OF inv t] pinned t by (simp_all add: pin_count_def)
  let ?p = "(pages s f)\<lparr>pg_data := m\<rparr>"
  have eq: "write_frame f m s = set_page f (\<lambda>_. ?p) (s\<lparr>frame_replacer := frame_replacer s\<rparr>)"
    by (simp add: write_frame_def set_page_def)
  have out: "f \<notin> set (LRUlist (frame_replacer s))"
    using bpm_invD(7) [OF inv f(3)] f(2) by simp
  show "bpm_ok (write_frame f m s)"
    unfolding eq by (rule repin_ok [OF ok t]) (use f out bpm_invD(1) [OF inv] in simp_all)
  from repin_keeps [OF ok t, of ?p "frame_replacer s"] t f
  show "keeps_but pid s (write_frame f m s)"
    and "page_table (write_frame f m s) = page_table s" and "pin_count pid (write_frame f m s) = pin_count pid s"
    and "page_view pid (write_frame f m s) = page_trunc m" and "fd2pageno (write_frame f m s) = fd2pageno s"
    unfolding eq by (simp_all add: pin_count_def)
qed

text \<open>
  Writing a cached page back leaves the cache as it was and brings the disk page up to date.
\<close>

definition same_cache :: "'a bpm_scheme \<Rightarrow> 'a bpm_scheme \<Rightarrow> bool" where
  "same_cache s s' \<longleftrightarrow>
     pool_size s' = pool_size s \<and> page_table s' = page_table s \<and> fd2pageno s' = fd2pageno s \<and>
     (\<forall>f. pg_id (pages s' f) = pg_id (pages s f)) \<and>
     (\<forall>q. page_io q s' = page_io q s) \<and> (\<forall>q. pin_count q s' = pin_count q s) \<and>
     (\<forall>q. page_io q s \<longrightarrow> page_view q s' = page_view q s) \<and>
     (\<forall>q. page_io q s \<longrightarrow> synced q s \<longrightarrow> synced q s') \<and>
     (\<forall>q. page_io q s \<longrightarrow> settled q s \<longrightarrow> settled q s')"

lemma same_cache_refl [simp]: "same_cache s s"
  by (simp add: same_cache_def)

lemma same_cache_trans: "same_cache s t \<Longrightarrow> same_cache t u \<Longrightarrow> same_cache s u"
  by (simp add: same_cache_def)

lemma same_cacheD:
  assumes "same_cache s s'"
  shows "pool_size s' = pool_size s" and "page_table s' = page_table s" and "fd2pageno s' = fd2pageno s"
    and "pg_id (pages s' f) = pg_id (pages s f)" and "page_io q s' = page_io q s"
    and "pin_count q s' = pin_count q s" and "page_io q s \<Longrightarrow> page_view q s' = page_view q s"
    and "page_io q s \<Longrightarrow> synced q s \<Longrightarrow> synced q s'" and "page_io q s \<Longrightarrow> settled q s \<Longrightarrow> settled q s'"
  using assms by (simp_all add: same_cache_def)

lemma bpm_inv_cong:
  assumes "pool_size s' = pool_size s" and "page_table s' = page_table s" and "free_list s' = free_list s"
    and "frame_replacer s' = frame_replacer s" and "\<And>f. pg_id (pages s' f) = pg_id (pages s f)"
    and "\<And>f. pg_pin (pages s' f) = pg_pin (pages s f)"
  shows "bpm_inv s' = bpm_inv s"
  using assms by (simp add: bpm_inv_def)

lemma resident_io: "bpm_ok s \<Longrightarrow> page_table s pid = Some f \<Longrightarrow> page_io pid s"
  using bpm_ioD [OF bpm_okD(3)] by (simp add: page_io_def)

lemma write_back:
  fixes s :: "'a bpm_scheme"
  assumes ok: "bpm_ok s" and t: "page_table s pid = Some f"
  obtains s' where "bindE (write_page (pid_fd pid) (pid_no pid) (pg_data (pages s f)) PAGE_SIZE)
      (\<lambda>_. updS (set_page f (pg_dirty_update (\<lambda>_. False)))) s = (Inr (), s')"
    and "bpm_ok s'" and "same_cache s s'" and "synced pid s'"
proof -
  note inv = bpm_okD(1) [OF ok] and io = resident_io [OF ok t, unfolded page_io_def]
  obtain fls fds where w: "write_page (pid_fd pid) (pid_no pid) (pg_data (pages s f)) PAGE_SIZE s =
      (Inr (), s\<lparr>os_files := fls, os_fds := fds\<rparr>)"
    using write_page_shape [OF io] by blast
  let ?w = "s\<lparr>os_files := fls, os_fds := fds\<rparr>"
  let ?s = "set_page f (pg_dirty_update (\<lambda>_. False)) ?w"
  have eq: "bindE (write_page (pid_fd pid) (pid_no pid) (pg_data (pages s f)) PAGE_SIZE)
      (\<lambda>_. updS (set_page f (pg_dirty_update (\<lambda>_. False)))) s = (Inr (), ?s)"
    using w by (simp add: bindE_def)
  have sel: "pool_size ?s = pool_size s" "page_table ?s = page_table s" "free_list ?s = free_list s"
    "frame_replacer ?s = frame_replacer s" "fd2pageno ?s = fd2pageno s"
    "pg_id (pages ?s g) = pg_id (pages s g)" "pg_pin (pages ?s g) = pg_pin (pages s g)"
    "pg_data (pages ?s g) = pg_data (pages s g)"
    "pg_dirty (pages ?s g) \<longleftrightarrow> g \<noteq> f \<and> pg_dirty (pages s g)" for g
    by (simp_all add: set_page_def)
  have ios: "io_ok fd p ?s = io_ok fd p s" for fd p
    using dm.wr_ok [OF io w, of fd p] by (simp add: set_page_def)
  have dps: "disk_page (pid_fd q) (pid_no q) ?s =
      (if q = pid then page_view pid s else disk_page (pid_fd q) (pid_no q) s)"
    if "page_io q s" for q
  proof -
    have "disk_page (pid_fd q) (pid_no q) ?s = disk_page (pid_fd q) (pid_no q) ?w"
      by (simp add: set_page_def)
    also have "\<dots> = (if q = pid then page_trunc (pg_data (pages s f)) else disk_page (pid_fd q) (pid_no q) s)"
      using dm.wr_view [OF io w that [unfolded page_io_def]] unfolding page_id_eq_iff by simp
    finally show ?thesis by (simp add: page_view_def t)
  qed
  have view: "page_view q ?s = page_view q s" if "page_io q s" for q
    using dps [OF that] t by (auto simp: page_view_def sel split: option.splits)
  have wf: "disk_wf ?s" using ios io unfolding io_ok_def by blast
  have "bpm_inv ?s" using bpm_inv_cong [of ?s s] sel inv by simp
  moreover have "bpm_io ?s"
    using bpm_okD(3) [OF ok] wf ios by (simp add: bpm_io_def sel)
  moreover have "bpm_coherent ?s"
    unfolding bpm_coherent_def sel
  proof (intro allI impI, elim conjE)
    fix q g
    assume g: "page_table s q = Some g" "pg_pin (pages s g) = 0" "\<not> (g \<noteq> f \<and> pg_dirty (pages s g))"
    note dq = dps [OF resident_io [OF ok g(1)]]
    show "page_trunc (pg_data (pages s g)) = disk_page (pid_fd q) (pid_no q) ?s"
    proof (cases "q = pid")
      case True
      then show ?thesis using dq g(1) by (simp add: page_view_def)
    next
      case False
      then have "g \<noteq> f" using bpm_invD(5) [OF inv g(1)] bpm_invD(5) [OF inv t] by auto
      then show ?thesis using dq False bpm_coherentD [OF bpm_okD(2) [OF ok] g(1,2)] g(3) by simp
    qed
  qed
  ultimately have okS: "bpm_ok ?s" by (simp add: bpm_ok_def)
  have "pin_count q ?s = pin_count q s" for q
    by (simp add: pin_count_def sel(2,7) split: option.splits)
  moreover have sync: "synced q ?s" if "page_io q s" "synced q s" for q
    using view [OF that(1)] dps [OF that(1)] that(2) by (simp add: synced_def)
  moreover have syncp: "synced pid ?s"
    using dps [OF resident_io [OF ok t]] view [OF resident_io [OF ok t]] by (simp add: synced_def)
  moreover have "settled q ?s" if q: "page_io q s" "settled q s" for q
  proof (cases "q = pid \<or> synced q s")
    case True
    then show ?thesis using sync [OF q(1)] syncp by (auto simp: settled_def)
  next
    case False
    have "g \<noteq> f" if "page_table s q = Some g" for g
      using bpm_invD(5) [OF inv that] bpm_invD(5) [OF inv t] False by auto
    then show ?thesis using q(2) False by (simp add: settled_def sel)
  qed
  ultimately have "same_cache s ?s"
    unfolding same_cache_def
    using view ios by (simp add: sel page_io_def)
  then show ?thesis using eq that syncp okS by blast
qed

lemma flush_page_spec:
  fixes s :: "'a bpm_scheme"
  assumes ok: "bpm_ok s" and t: "page_table s pid = Some f"
  obtains s' where "flush_page pid s = (Inr True, s')" and "bpm_ok s'" and "same_cache s s'" and "synced pid s'"
proof -
  define w :: "('a bpm_scheme, unit) op" where "w = bindE (write_page (pid_fd pid) (pid_no pid) (pg_data (pages s f)) PAGE_SIZE)
      (\<lambda>_. updS (set_page f (pg_dirty_update (\<lambda>_. False))))"
  have "pid_no pid \<noteq> INVALID_PAGE_ID" using page_io_valid [OF resident_io [OF ok t]] .
  then have eq: "flush_page pid s = bindE w (\<lambda>_. ret True) s"
    using t by (simp add: flush_page_def bindE_assoc w_def)
  obtain s' where s': "w s = (Inr (), s')" "bpm_ok s'" "same_cache s s'" "synced pid s'"
    using write_back [OF ok t] unfolding w_def by blast
  have "flush_page pid s = (Inr True, s')"
    unfolding eq by (simp add: bindE_def s'(1))
  from that [OF this s'(2-4)] show ?thesis .
qed

lemma flush_frame_spec:
  assumes ok: "bpm_ok s" and i: "i < pool_size s"
  obtains s' where "flush_frame fd i s = (Inr (), s')" and "bpm_ok s'" and "same_cache s s'"
    and "\<And>pid. page_table s pid = Some i \<Longrightarrow> pid_fd pid = fd \<Longrightarrow> synced pid s'"
proof (cases "pid_fd (pg_id (pages s i)) = fd \<and> pid_no (pg_id (pages s i)) \<noteq> INVALID_PAGE_ID")
  case True
  note inv = bpm_okD(1) [OF ok]
  from True have "i \<notin> set (free_list s)" using bpm_invD(8) [OF inv] by blast
  then have t: "page_table s (pg_id (pages s i)) = Some i" using bpm_invD(6) [OF inv i] by blast
  have eq: "flush_frame fd i s = bindE (write_page (pid_fd (pg_id (pages s i))) (pid_no (pg_id (pages s i)))
      (pg_data (pages s i)) PAGE_SIZE) (\<lambda>_. updS (set_page i (pg_dirty_update (\<lambda>_. False)))) s"
    using True by (simp add: flush_frame_def Let_def)
  obtain s' where s': "flush_frame fd i s = (Inr (), s')" "bpm_ok s'" "same_cache s s'" "synced (pg_id (pages s i)) s'"
    using write_back [OF ok t] unfolding eq [symmetric] by metis
  from s' show ?thesis using bpm_invD(5) [OF inv] by (intro that [of s']) auto
next
  case False
  have eq: "flush_frame fd i s = (Inr (), s)"
    unfolding flush_frame_def Let_def bindE_getS using False by (simp only: if_False ret_apply)
  show ?thesis
    by (rule that [OF eq ok same_cache_refl]) (use False bpm_invD(5) [OF bpm_okD(1) [OF ok]] in auto)
qed

lemma flush_frames:
  assumes "bpm_ok s" and "set is \<subseteq> {..<pool_size s}"
  shows "\<exists>s'. forE is (flush_frame fd) s = (Inr (), s') \<and> bpm_ok s' \<and> same_cache s s' \<and>
    (\<forall>pid i. page_table s pid = Some i \<and> i \<in> set is \<and> pid_fd pid = fd \<longrightarrow> synced pid s')"
  using assms
proof (induction "is" arbitrary: s)
  case Nil
  then show ?case by simp
next
  case (Cons i "is")
  from Cons.prems have i: "i < pool_size s" by simp
  obtain t where t: "flush_frame fd i s = (Inr (), t)" "bpm_ok t" "same_cache s t"
    "\<And>pid. page_table s pid = Some i \<Longrightarrow> pid_fd pid = fd \<Longrightarrow> synced pid t"
    by (rule flush_frame_spec [OF Cons.prems(1) i, of fd]) (rule that)
  note sc = same_cacheD [OF t(3)]
  obtain u where u: "forE is (flush_frame fd) t = (Inr (), u)" "bpm_ok u" "same_cache t u"
    "\<forall>pid i. page_table t pid = Some i \<and> i \<in> set is \<and> pid_fd pid = fd \<longrightarrow> synced pid u"
    using Cons.IH [OF t(2)] Cons.prems(2) sc(1) by auto
  have "synced pid u" if "page_table s pid = Some j" "j \<in> set (i # is)" "pid_fd pid = fd" for pid j
  proof (cases "j \<in> set is")
    case True
    with u(4) sc(2) that show ?thesis by simp
  next
    case False
    with that have "synced pid t" using t(4) by simp
    moreover have "page_io pid t"
      using resident_io [OF Cons.prems(1) that(1)] sc(5) by simp
    ultimately show ?thesis using same_cacheD(8) [OF u(3)] by blast
  qed
  then show ?case
    using t(1) u(1,2) same_cache_trans [OF t(3) u(3)] by (auto simp: bindE_def)
qed

lemma flush_all_pages_spec:
  assumes ok: "bpm_ok s"
  obtains s' where "flush_all_pages fd s = (Inr (), s')" and "bpm_ok s'" and "same_cache s s'"
    and "\<And>pid. pid_fd pid = fd \<Longrightarrow> pid \<in> dom (page_table s) \<Longrightarrow> synced pid s'"
proof -
  obtain s' where "forE [0..<pool_size s] (flush_frame fd) s = (Inr (), s')" "bpm_ok s'" "same_cache s s'"
    "\<forall>pid i. page_table s pid = Some i \<and> i \<in> set [0..<pool_size s] \<and> pid_fd pid = fd \<longrightarrow> synced pid s'"
    using flush_frames [OF ok, of "[0..<pool_size s]" fd] by (metis atLeastLessThan_upt lessThan_atLeast0 order_refl)
  then show ?thesis
    using bpm_invD(5) [OF bpm_okD(1) [OF ok]] by (intro that [of s']) (auto simp: flush_all_pages_def)
qed

section \<open>The page cache interface\<close>

text \<open>
  The contract that the record and index layers rely on. \<open>keeps pid s s'\<close> says that an operation
  on page \<open>pid\<close> disturbs nothing that the holders of other pages can see.
\<close>

locale page_cache =
  fixes ok :: "'s \<Rightarrow> bool" and io :: "page_id \<Rightarrow> 's \<Rightarrow> bool" and view :: "page_id \<Rightarrow> 's \<Rightarrow> mem"
    and pins :: "page_id \<Rightarrow> 's \<Rightarrow> int" and frame :: "'s \<Rightarrow> page_id \<Rightarrow> nat option"
    and safe :: "page_id \<Rightarrow> 's \<Rightarrow> bool" and keeps :: "page_id \<Rightarrow> 's \<Rightarrow> 's \<Rightarrow> bool"
    and fetch :: "page_id \<Rightarrow> ('s, nat option) op" and unpin :: "page_id \<Rightarrow> bool \<Rightarrow> ('s, bool) op"
    and poke :: "nat \<Rightarrow> mem \<Rightarrow> 's \<Rightarrow> 's"
  assumes fetch_law: "ok s \<Longrightarrow> io pid s \<Longrightarrow>
      fetch pid s = (Inr None, s) \<or>
      (\<exists>f s'. fetch pid s = (Inr (Some f), s') \<and> ok s' \<and> keeps pid s s' \<and> frame s' pid = Some f \<and>
        pins pid s' = pins pid s + 1 \<and> view pid s' = view pid s \<and> (safe pid s' \<or> 1 < pins pid s'))"
    and poke_law: "ok s \<Longrightarrow> frame s pid = Some f \<Longrightarrow> 0 < pins pid s \<Longrightarrow>
      ok (poke f m s) \<and> keeps pid s (poke f m s) \<and> frame (poke f m s) pid = Some f \<and>
      pins pid (poke f m s) = pins pid s \<and> view pid (poke f m s) = page_trunc m"
    and unpin_law: "ok s \<Longrightarrow> 0 < pins pid s \<Longrightarrow> d \<or> 1 < pins pid s \<or> safe pid s \<Longrightarrow>
      \<exists>s'. unpin pid d s = (Inr True, s') \<and> ok s' \<and> keeps pid s s' \<and>
        pins pid s' = pins pid s - 1 \<and> view pid s' = view pid s"
    and pins_nonneg: "ok s \<Longrightarrow> 0 \<le> pins pid s"
    and keeps_io: "keeps pid s s' \<Longrightarrow> io q s' = io q s"
    and keeps_view: "keeps pid s s' \<Longrightarrow> q \<noteq> pid \<Longrightarrow> io q s \<Longrightarrow> view q s' = view q s"
    and keeps_pins: "keeps pid s s' \<Longrightarrow> q \<noteq> pid \<Longrightarrow> pins q s' = pins q s"
    and keeps_frame: "keeps pid s s' \<Longrightarrow> 0 < pins q s \<Longrightarrow> frame s q = Some f \<Longrightarrow> frame s' q = Some f"
    and keeps_safe: "keeps pid s s' \<Longrightarrow> q \<noteq> pid \<Longrightarrow> io q s \<Longrightarrow> 0 < pins q s \<Longrightarrow> safe q s \<Longrightarrow> safe q s'"
begin

lemma fetched:
  assumes "ok s" and "io pid s" and "fetch pid s = (Inr (Some f), s')"
  shows "ok s'" and "keeps pid s s'" and "frame s' pid = Some f" and "pins pid s' = pins pid s + 1"
    and "view pid s' = view pid s" and "safe pid s' \<or> 1 < pins pid s'" and "0 < pins pid s'"
  using fetch_law [OF assms(1,2)] assms(3) pins_nonneg [OF assms(1), of pid] by auto

lemma keeps_visit:
  assumes "keeps pid s t" and "keeps pid t u" and "pins pid u = pins pid s"
  shows "io q u = io q s" and "q \<noteq> pid \<Longrightarrow> io q s \<Longrightarrow> view q u = view q s" and "pins q u = pins q s"
  using keeps_io [OF assms(1)] keeps_io [OF assms(2)] keeps_view [OF assms(1)] keeps_view [OF assms(2)]
    keeps_pins [OF assms(1)] keeps_pins [OF assms(2)] assms(3)
  by (simp_all, cases "q = pid", simp_all)

text \<open>Reading a page: fetch it, look at it, unpin it clean.\<close>

lemma visit:
  assumes s: "ok s" "io pid s" and f: "fetch pid s = (Inr (Some f), t)"
  obtains u where "unpin pid False t = (Inr True, u)" and "ok u"
    and "\<And>q. io q s \<Longrightarrow> view q u = view q s" and "\<And>q. pins q u = pins q s" and "\<And>q. io q u = io q s"
proof -
  note t = fetched [OF s f]
  from unpin_law [OF t(1,7), of False] t(6) obtain u where
    u: "unpin pid False t = (Inr True, u)" "ok u" "keeps pid t u" "pins pid u = pins pid t - 1" "view pid u = view pid t"
    by blast
  note k = keeps_visit [OF t(2) u(3)]
  have pu: "pins pid u = pins pid s" using u(4) t(4) by simp
  show ?thesis
  proof (rule that [OF u(1,2)])
    show "view q u = view q s" if "io q s" for q
      using k(2) [OF pu _ that] u(5) t(5) by (cases "q = pid") auto
  qed (simp_all add: k(1,3) [OF pu])
qed

text \<open>Updating a page: fetch it, write it, unpin it dirty.\<close>

lemma modify:
  assumes s: "ok s" "io pid s" and f: "fetch pid s = (Inr (Some f), t)"
  obtains u where "unpin pid True (poke f m t) = (Inr True, u)" and "ok u"
    and "\<And>q. io q s \<Longrightarrow> view q u = (if q = pid then page_trunc m else view q s)"
    and "\<And>q. pins q u = pins q s" and "\<And>q. io q u = io q s"
proof -
  note t = fetched [OF s f]
  note p = poke_law [OF t(1,3,7), of m]
  have pos: "0 < pins pid (poke f m t)" using p t(7) by simp
  obtain u where u: "unpin pid True (poke f m t) = (Inr True, u)" "ok u" "keeps pid (poke f m t) u"
    "pins pid u = pins pid t - 1" "view pid u = page_trunc m"
    using unpin_law [OF _ pos, of True] p by auto
  note kp = conjunct1 [OF conjunct2 [OF p]]
  have pu: "pins pid u = pins pid s" using u(4) t(4) by simp
  show ?thesis
  proof (rule that [OF u(1,2)])
    show io: "io q u = io q s" for q
      using keeps_io [OF t(2)] keeps_io [OF kp] keeps_io [OF u(3)] by simp
    show "pins q u = pins q s" for q
      using keeps_pins [OF t(2)] keeps_pins [OF kp] keeps_pins [OF u(3)] pu by (cases "q = pid") auto
    show "view q u = (if q = pid then page_trunc m else view q s)" if "io q s" for q
      using keeps_view [OF t(2)] keeps_view [OF kp] keeps_view [OF u(3)] keeps_io [OF t(2)] keeps_io [OF kp] that u(5)
      by (cases "q = pid") auto
  qed
qed

text \<open>Two pages held at once, as a page and its sibling or child: the first survives the second.\<close>

lemma held_while_fetching:
  assumes s: "ok s" "io p s" "io q s" and "p \<noteq> q"
    and f: "fetch p s = (Inr (Some f), t)" and g: "fetch q t = (Inr (Some g), u)"
  shows "ok u" and "frame u p = Some f" and "frame u q = Some g" and "view p u = view p s" and "view q u = view q s"
proof -
  note t = fetched [OF s(1,2) f]
  have "io q t" using s(3) keeps_io [OF t(2)] by simp
  note u = fetched [OF t(1) this g]
  show "ok u" "frame u q = Some g" by (rule u)+
  show "frame u p = Some f" by (rule keeps_frame [OF u(2) t(7,3)])
  show "view p u = view p s"
    using keeps_view [OF u(2) assms(4)] keeps_io [OF t(2)] s(2) t(5) by simp
  show "view q u = view q s"
    using u(5) keeps_view [OF t(2) assms(4) [symmetric] s(3)] by simp
qed

end

lemma keeps_butD:
  assumes "keeps_but pid s s'"
  shows "page_io q s' = page_io q s" and "q \<noteq> pid \<Longrightarrow> page_io q s \<Longrightarrow> page_view q s' = page_view q s"
    and "q \<noteq> pid \<Longrightarrow> pin_count q s' = pin_count q s"
    and "0 < pin_count q s \<Longrightarrow> page_table s q = Some f \<Longrightarrow> page_table s' q = Some f"
    and "q \<noteq> pid \<Longrightarrow> page_io q s \<Longrightarrow> 0 < pin_count q s \<Longrightarrow> settled q s \<Longrightarrow> settled q s'"
    and "q \<noteq> pid \<Longrightarrow> page_table s q = None \<Longrightarrow> page_table s' q = None"
  using assms unfolding keeps_but_def by blast+

lemma pin_count_nonneg: "bpm_ok s \<Longrightarrow> 0 \<le> pin_count q s"
  using bpm_invD(5,9) [OF bpm_okD(1)] by (fastforce simp: pin_count_def split: option.splits)

interpretation pc: page_cache bpm_ok page_io page_view pin_count page_table settled keeps_but
  fetch_page unpin_page write_frame
proof
  fix s :: "'a bpm_scheme" and pid
  assume s: "bpm_ok s" "page_io pid s"
  show "fetch_page pid s = (Inr None, s) \<or>
      (\<exists>f s'. fetch_page pid s = (Inr (Some f), s') \<and> bpm_ok s' \<and> keeps_but pid s s' \<and> page_table s' pid = Some f \<and>
        pin_count pid s' = pin_count pid s + 1 \<and> page_view pid s' = page_view pid s \<and>
        (settled pid s' \<or> 1 < pin_count pid s'))"
    by (rule fetch_page_spec [OF s]) blast+
next
  fix s :: "'a bpm_scheme" and pid d
  assume s: "bpm_ok s" "0 < pin_count pid s" "d \<or> 1 < pin_count pid s \<or> settled pid s"
  show "\<exists>s'. unpin_page pid d s = (Inr True, s') \<and> bpm_ok s' \<and> keeps_but pid s s' \<and>
      pin_count pid s' = pin_count pid s - 1 \<and> page_view pid s' = page_view pid s"
    by (rule unpin_page_spec [OF s]) blast
qed (simp_all add: write_frame_spec pin_count_nonneg keeps_butD)

section \<open>Runs of the pool and the abstract page store\<close>

text \<open>
  The calls that a client may make, as a step relation on the concrete pool. A client fetches pages
  that were allocated in an open file, writes only to pages it has pinned, and reports its writes
  when it unpins (\<open>settled\<close> covers the page nobody changed).
\<close>

datatype page_op =
    Fetch page_id
  | New int
  | Unpin page_id bool
  | Write page_id mem
  | Flush page_id
  | FlushAll int

inductive page_step :: "'a bpm_scheme \<Rightarrow> page_op \<Rightarrow> 'a bpm_scheme \<Rightarrow> bool" where
  step_fetch: "page_io pid s \<Longrightarrow> pid_no pid < fd2pageno s (pid_fd pid) \<Longrightarrow> fetch_page pid s = (Inr r, s') \<Longrightarrow>
    page_step s (Fetch pid) s'"
| step_new: "page_io \<lparr>pid_fd = fd, pid_no = fd2pageno s fd\<rparr> s \<Longrightarrow> fd < MAX_FD \<Longrightarrow>
    new_page \<lparr>pid_fd = fd, pid_no = INVALID_PAGE_ID\<rparr> s = (Inr r, s') \<Longrightarrow> page_step s (New fd) s'"
| step_unpin: "d \<or> 1 < pin_count pid s \<or> settled pid s \<Longrightarrow> unpin_page pid d s = (Inr b, s') \<Longrightarrow>
    page_step s (Unpin pid d) s'"
| step_write: "page_table s pid = Some f \<Longrightarrow> 0 < pin_count pid s \<Longrightarrow> page_step s (Write pid m) (write_frame f m s)"
| step_flush: "page_table s pid \<noteq> None \<Longrightarrow> flush_page pid s = (Inr b, s') \<Longrightarrow> page_step s (Flush pid) s'"
| step_flush_all: "flush_all_pages fd s = (Inr (), s') \<Longrightarrow> page_step s (FlushAll fd) s'"

inductive_cases page_stepE: "page_step s op s'"

inductive page_run :: "'a bpm_scheme \<Rightarrow> page_op list \<Rightarrow> 'a bpm_scheme \<Rightarrow> bool" where
  run_nil: "page_run s [] s"
| run_cons: "page_step s op t \<Longrightarrow> page_run t ops u \<Longrightarrow> page_run s (op # ops) u"

text \<open>
  The specification: page contents, pin counts and the next page number of each file, with no
  frames and no disk. A fetch or an allocation may be refused, when every frame is pinned.
\<close>

record abs_store =
  ps_content :: "page_id \<Rightarrow> mem"
  ps_pins :: "page_id \<Rightarrow> int"
  ps_next :: "int \<Rightarrow> int"

fun store_step :: "abs_store \<Rightarrow> page_op \<Rightarrow> abs_store set" where
  "store_step a (Fetch pid) = {a, a\<lparr>ps_pins := (ps_pins a)(pid := ps_pins a pid + 1)\<rparr>}"
| "store_step a (New fd) =
     (let new = \<lparr>pid_fd = fd, pid_no = ps_next a fd\<rparr>
      in {a, \<lparr>ps_content = (ps_content a)(new := zero_mem), ps_pins = (ps_pins a)(new := 1),
              ps_next = (ps_next a)(fd := ps_next a fd + 1)\<rparr>})"
| "store_step a (Unpin pid d) =
     (if ps_pins a pid = 0 then {a} else {a\<lparr>ps_pins := (ps_pins a)(pid := ps_pins a pid - 1)\<rparr>})"
| "store_step a (Write pid m) = {a\<lparr>ps_content := (ps_content a)(pid := page_trunc m)\<rparr>}"
| "store_step a (Flush pid) = {a}"
| "store_step a (FlushAll fd) = {a}"

fun store_run :: "abs_store \<Rightarrow> page_op list \<Rightarrow> abs_store set" where
  "store_run a [] = {a}"
| "store_run a (op # ops) = (\<Union>b \<in> store_step a op. store_run b ops)"

definition store_of :: "'a bpm_scheme \<Rightarrow> abs_store" where
  "store_of s = \<lparr>ps_content = (\<lambda>q. if page_io q s then page_view q s else zero_mem),
                 ps_pins = (\<lambda>q. pin_count q s), ps_next = fd2pageno s\<rparr>"

lemma pool_okD: "pool_ok s \<Longrightarrow> bpm_ok s" "pool_ok s \<Longrightarrow> page_table s pid = Some f \<Longrightarrow> pid_no pid < fd2pageno s (pid_fd pid)"
  by (auto simp: pool_ok_def)

text \<open>The pages in the table after an operation on \<open>pid\<close> were there before, or are \<open>pid\<close> itself.\<close>

lemma store_of_keeps:
  assumes "keeps_but pid s s'" and "page_io pid s"
  shows "store_of s' = \<lparr>ps_content = (ps_content (store_of s))(pid := page_view pid s'),
    ps_pins = (ps_pins (store_of s))(pid := pin_count pid s'), ps_next = fd2pageno s'\<rparr>"
  using keeps_butD(1-3) [OF assms(1)] assms(2) by (auto simp: store_of_def fun_eq_iff)

lemma store_of_same: "same_cache s s' \<Longrightarrow> store_of s' = store_of s"
proof -
  assume "same_cache s s'"
  note sc = same_cacheD [OF this]
  show ?thesis unfolding store_of_def sc(3,5,6) using sc(7) by (simp add: fun_eq_iff)
qed

lemma pool_ok_keeps:
  assumes "pool_ok s" and "bpm_ok s'" and k: "keeps_but pid s s'"
    and "\<And>fd. fd2pageno s fd \<le> fd2pageno s' fd" and "page_table s' pid \<noteq> None \<Longrightarrow> pid_no pid < fd2pageno s' (pid_fd pid)"
  shows "pool_ok s'"
  unfolding pool_ok_def
proof (intro conjI ballI)
  fix q assume q: "q \<in> dom (page_table s')"
  show "pid_no q < fd2pageno s' (pid_fd q)"
  proof (cases "q = pid")
    case True
    with q assms(5) show ?thesis by auto
  next
    case False
    then have "page_table s q \<noteq> None" using q keeps_butD(6) [OF k False] by (cases "page_table s q") auto
    then have "pid_no q < fd2pageno s (pid_fd q)" using pool_okD(2) [OF assms(1)] by auto
    then show ?thesis using assms(4) [of "pid_fd q"] by simp
  qed
qed (rule assms(2))

lemma pool_ok_same: "pool_ok s \<Longrightarrow> bpm_ok s' \<Longrightarrow> same_cache s s' \<Longrightarrow> pool_ok s'"
  unfolding pool_ok_def by (simp add: same_cacheD(2,3))

lemma store_content: "page_io pid s \<Longrightarrow> (ps_content (store_of s))(pid := page_view pid s) = ps_content (store_of s)"
  by (auto simp: store_of_def)

lemma store_of_sel [simp]:
  "ps_pins (store_of s) = (\<lambda>q. pin_count q s)" "ps_next (store_of s) = fd2pageno s"
  by (simp_all add: store_of_def)

lemma step_fetch_sim:
  assumes ok: "pool_ok s" and io: "page_io pid s" "pid_no pid < fd2pageno s (pid_fd pid)"
    and f: "fetch_page pid s = (Inr r, s')"
  shows "pool_ok s' \<and> store_of s' \<in> store_step (store_of s) (Fetch pid)"
  using pool_okD(1) [OF ok] io(1)
proof (rule fetch_page_spec)
  fix g t
  assume t: "fetch_page pid s = (Inr (Some g), t)" "bpm_ok t" "keeps_but pid s t"
    "pin_count pid t = pin_count pid s + 1" "page_view pid t = page_view pid s" "fd2pageno t = fd2pageno s"
  then have "pool_ok t" using pool_ok_keeps [OF ok t(2,3)] io(2) by simp
  moreover have "store_of t = (store_of s)\<lparr>ps_pins := (ps_pins (store_of s))(pid := ps_pins (store_of s) pid + 1)\<rparr>"
    using store_of_keeps [OF t(3) io(1)] store_content [OF io(1)] t(4-6) by (simp add: store_of_def)
  ultimately show ?thesis using t(1) f by simp
next
  assume "fetch_page pid s = (Inr None, s)"
  with f ok show ?thesis by simp
qed

lemma step_new_sim:
  assumes ok: "pool_ok s" and io: "page_io \<lparr>pid_fd = fd, pid_no = fd2pageno s fd\<rparr> s" and fd: "fd < MAX_FD"
    and n: "new_page \<lparr>pid_fd = fd, pid_no = INVALID_PAGE_ID\<rparr> s = (Inr r, s')"
  shows "pool_ok s' \<and> store_of s' \<in> store_step (store_of s) (New fd)"
proof -
  let ?new = "\<lparr>pid_fd = fd, pid_no = fd2pageno s fd\<rparr>"
  have no: "page_table s ?new = None"
    using pool_okD(2) [OF ok, of ?new] by (cases "page_table s ?new") auto
  show ?thesis
  proof (rule new_page_spec [OF pool_okD(1) [OF ok], of ?new "\<lparr>pid_fd = fd, pid_no = INVALID_PAGE_ID\<rparr>"])
    fix g t
    assume t: "new_page \<lparr>pid_fd = fd, pid_no = INVALID_PAGE_ID\<rparr> s = (Inr (Some g, ?new), t)" "bpm_ok t"
      "keeps_but ?new s t" "pin_count ?new t = 1" "page_view ?new t = zero_mem"
      "fd2pageno t = (fd2pageno s)(pid_fd \<lparr>pid_fd = fd, pid_no = INVALID_PAGE_ID\<rparr> :=
        fd2pageno s (pid_fd \<lparr>pid_fd = fd, pid_no = INVALID_PAGE_ID\<rparr>) + 1)"
    have "pool_ok t" by (rule pool_ok_keeps [OF ok t(2,3)]) (simp_all add: t(6))
    moreover have "store_of t \<in> store_step (store_of s) (New fd)"
      using store_of_keeps [OF t(3) io] t(4-6) by (simp add: Let_def)
    ultimately show ?thesis using t(1) n by simp
  next
    assume "new_page \<lparr>pid_fd = fd, pid_no = INVALID_PAGE_ID\<rparr> s = (Inr (None, \<lparr>pid_fd = fd, pid_no = INVALID_PAGE_ID\<rparr>), s)"
    with n ok show ?thesis by (simp add: Let_def)
  qed (use fd io no in simp_all)
qed

lemma step_unpin_sim:
  assumes ok: "pool_ok s" and h: "d \<or> 1 < pin_count pid s \<or> settled pid s" and u: "unpin_page pid d s = (Inr b, s')"
  shows "pool_ok s' \<and> store_of s' \<in> store_step (store_of s) (Unpin pid d)"
proof (cases "pin_count pid s = 0")
  case True
  with unpin_page_refused [OF True] u ok show ?thesis by simp
next
  case False
  then have pos: "0 < pin_count pid s" using pin_count_nonneg [OF pool_okD(1) [OF ok], of pid] by simp
  then obtain f where f: "page_table s pid = Some f" by (auto simp: pin_count_def split: option.splits)
  note io = resident_io [OF pool_okD(1) [OF ok] f]
  from pool_okD(1) [OF ok] pos h show ?thesis
  proof (rule unpin_page_spec)
    fix t
    assume t: "unpin_page pid d s = (Inr True, t)" "bpm_ok t" "keeps_but pid s t"
      "pin_count pid t = pin_count pid s - 1" "page_view pid t = page_view pid s" "fd2pageno t = fd2pageno s"
    have "pool_ok t" using pool_ok_keeps [OF ok t(2,3)] pool_okD(2) [OF ok f] t(6) by simp
    moreover have "store_of t = (store_of s)\<lparr>ps_pins := (ps_pins (store_of s))(pid := ps_pins (store_of s) pid - 1)\<rparr>"
      using store_of_keeps [OF t(3) io] store_content [OF io] t(4-6) by (simp add: store_of_def)
    ultimately show ?thesis using t(1) u False by simp
  qed
qed

lemma step_write_sim:
  assumes ok: "pool_ok s" and f: "page_table s pid = Some f" and pos: "0 < pin_count pid s"
  shows "pool_ok (write_frame f m s) \<and> store_of (write_frame f m s) \<in> store_step (store_of s) (Write pid m)"
proof -
  note w = write_frame_spec [OF pool_okD(1) [OF ok] f pos, of m]
  note io = resident_io [OF pool_okD(1) [OF ok] f]
  have "pool_ok (write_frame f m s)"
    using pool_ok_keeps [OF ok w(1,2)] pool_okD(2) [OF ok f] w(6) by simp
  moreover have "(\<lambda>q. pin_count q s)(pid := pin_count pid s) = (\<lambda>q. pin_count q s)" by auto
  ultimately show ?thesis
    using store_of_keeps [OF w(2) io] w(4-6) by (simp add: store_of_def)
qed

lemma page_step_sim:
  assumes "page_step s op s'" and ok: "pool_ok s"
  shows "pool_ok s' \<and> store_of s' \<in> store_step (store_of s) op"
  using assms(1)
proof cases
  case (step_flush pid b)
  then obtain f where "page_table s pid = Some f" by auto
  from pool_okD(1) [OF ok] this obtain t where
    t: "flush_page pid s = (Inr True, t)" "bpm_ok t" "same_cache s t" by (rule flush_page_spec)
  with step_flush pool_ok_same [OF ok t(2,3)] store_of_same [OF t(3)] show ?thesis by simp
next
  case (step_flush_all fd)
  from pool_okD(1) [OF ok] obtain t where
    t: "flush_all_pages fd s = (Inr (), t)" "bpm_ok t" "same_cache s t" by (rule flush_all_pages_spec)
  with step_flush_all pool_ok_same [OF ok t(2,3)] store_of_same [OF t(3)] show ?thesis by simp
next
  case (step_fetch pid r)
  from step_fetch_sim [OF ok step_fetch(2-4)] show ?thesis unfolding step_fetch(1) .
next
  case (step_new fd r)
  from step_new_sim [OF ok step_new(2-4)] show ?thesis unfolding step_new(1) .
next
  case (step_unpin d pid b)
  from step_unpin_sim [OF ok step_unpin(2,3)] show ?thesis unfolding step_unpin(1) .
next
  case (step_write pid f m)
  from step_write_sim [OF ok step_write(3,4)] show ?thesis unfolding step_write(1,2) .
qed

lemma page_run_sim: "page_run s ops s' \<Longrightarrow> pool_ok s \<Longrightarrow> pool_ok s' \<and> store_of s' \<in> store_run (store_of s) ops"
proof (induction rule: page_run.induct)
  case (run_cons s op t ops u)
  from page_step_sim [OF run_cons.hyps(1) run_cons.prems] run_cons.IH show ?case by auto
qed simp

text \<open>The pool as the constructor leaves it.\<close>

lemma bpm_init_sel [simp]:
  "page_table (bpm_init n junk d) = Map.empty" "free_list (bpm_init n junk d) = [0..<n]"
  "pool_size (bpm_init n junk d) = n" "frame_replacer (bpm_init n junk d) = lru_init n"
  "pages (bpm_init n junk d) f = fresh_page (junk f)" "fd2pageno (bpm_init n junk d) = fd2pageno d"
  "os_fds (bpm_init n junk d) = os_fds d" "os_files (bpm_init n junk d) = os_files d"
  by (simp_all add: bpm_init_def bpm.fields_def disk.extend_def)

lemma bpm_init_wf [simp]: "disk_wf (bpm_init n junk d) = disk_wf d"
  by (simp add: disk_wf_def bpm_init_def bpm.fields_def disk.extend_def)

lemma bpm_init_io [simp]: "page_io pid (bpm_init n junk d) = io_ok (pid_fd pid) (pid_no pid) d"
  by (simp add: page_io_def io_ok_def fd_open_def)

lemma bpm_init_view [simp]: "page_view pid (bpm_init n junk d) = disk_page (pid_fd pid) (pid_no pid) d"
  by (simp add: page_view_def disk_page_def split: option.splits)

lemma bpm_init_pins [simp]: "pin_count pid (bpm_init n junk d) = 0"
  by (simp add: pin_count_def)

lemma bpm_init_ok:
  assumes "disk_wf d"
  shows "pool_ok (bpm_init n junk d)"
proof -
  have "bpm_inv (bpm_init n junk d)"
    by (rule bpm_invI) (auto simp: fresh_page_def lru_init_def lru_inv_def fun_eq_iff)
  then show ?thesis
    using assms by (simp add: pool_ok_def bpm_ok_def bpm_coherent_def bpm_io_def)
qed

definition disk_store :: "disk \<Rightarrow> abs_store" where
  "disk_store d = \<lparr>ps_content = (\<lambda>q. if io_ok (pid_fd q) (pid_no q) d then disk_page (pid_fd q) (pid_no q) d else zero_mem),
                   ps_pins = (\<lambda>_. 0), ps_next = fd2pageno d\<rparr>"

lemma store_of_init: "store_of (bpm_init n junk d) = disk_store d"
  by (simp add: store_of_def disk_store_def cong: if_cong)

lemma page_step_keeps:
  assumes "page_step s op s'" and ok: "pool_ok s"
  shows "same_cache s s' \<or> (\<exists>pid. keeps_but pid s s')"
  using assms(1)
proof cases
  case (step_fetch pid r)
  with fetch_page_spec [OF pool_okD(1) [OF ok] step_fetch(2)] show ?thesis
    by (metis Pair_inject same_cache_refl)
next
  case (step_new fd r)
  let ?new = "\<lparr>pid_fd = fd, pid_no = fd2pageno s fd\<rparr>"
  have no: "page_table s ?new = None"
    using pool_okD(2) [OF ok, of ?new] by (cases "page_table s ?new") auto
  have new: "?new = \<lparr>pid_fd = fd, pid_no = INVALID_PAGE_ID\<rparr>\<lparr>pid_no := fd2pageno s (pid_fd \<lparr>pid_fd = fd, pid_no = INVALID_PAGE_ID\<rparr>)\<rparr>"
    by simp
  have "pid_fd \<lparr>pid_fd = fd, pid_no = INVALID_PAGE_ID\<rparr> < MAX_FD" using step_new(3) by simp
  from new_page_spec [OF pool_okD(1) [OF ok] new this step_new(2) no] step_new(4) show ?thesis
    by (metis Pair_inject same_cache_refl)
next
  case (step_unpin d pid b)
  show ?thesis
  proof (cases "pin_count pid s = 0")
    case True
    with unpin_page_refused [OF True] step_unpin(3) show ?thesis by simp
  next
    case False
    then have "0 < pin_count pid s" using pin_count_nonneg [OF pool_okD(1) [OF ok], of pid] by simp
    from unpin_page_spec [OF pool_okD(1) [OF ok] this step_unpin(2)] step_unpin(3) show ?thesis
      by (metis Pair_inject)
  qed
next
  case (step_write pid f m)
  with write_frame_spec(2) [OF pool_okD(1) [OF ok] step_write(3,4)] show ?thesis by blast
next
  case (step_flush pid b)
  then obtain f where "page_table s pid = Some f" by auto
  from flush_page_spec [OF pool_okD(1) [OF ok] this] step_flush(3) show ?thesis by (metis Pair_inject)
next
  case (step_flush_all fd)
  from flush_all_pages_spec [OF pool_okD(1) [OF ok]] step_flush_all(2) show ?thesis by (metis Pair_inject)
qed

lemma page_step_pinned:
  assumes "page_step s op s'" and "pool_ok s" and "0 < pin_count q s" and "page_table s q = Some f"
  shows "page_table s' q = Some f"
  using page_step_keeps [OF assms(1,2)] keeps_butD(4) [OF _ assms(3,4)] same_cacheD(2) assms(4) by metis

lemma store_step_pins:
  "b \<in> store_step a op \<Longrightarrow> 0 < ps_pins a q \<Longrightarrow> op \<notin> range (Unpin q) \<Longrightarrow> 0 < ps_pins b q"
  by (cases op) (auto simp: Let_def split: if_splits)

lemma page_step_pins:
  assumes "page_step s op s'" and "pool_ok s" and "0 < pin_count q s" and "op \<notin> range (Unpin q)"
  shows "0 < pin_count q s'"
  using store_step_pins [OF conjunct2 [OF page_step_sim [OF assms(1,2)]]] assms(3,4) by simp

lemma page_run_pinned:
  "page_run s ops s' \<Longrightarrow> pool_ok s \<Longrightarrow> 0 < pin_count q s \<Longrightarrow> page_table s q = Some f \<Longrightarrow>
    set ops \<inter> range (Unpin q) = {} \<Longrightarrow> page_table s' q = Some f \<and> 0 < pin_count q s'"
proof (induction rule: page_run.induct)
  case (run_cons s op t ops u)
  then have "op \<notin> range (Unpin q)" "set ops \<inter> range (Unpin q) = {}" by auto
  with run_cons page_step_sim [OF run_cons.hyps(1)] page_step_pinned [OF run_cons.hyps(1)]
    page_step_pins [OF run_cons.hyps(1)] show ?case by blast
qed simp

text \<open>What a client must respect when it calls an operation; none of the calls then throws.\<close>

fun legal :: "page_op \<Rightarrow> 'a bpm_scheme \<Rightarrow> bool" where
  "legal (Fetch pid) s \<longleftrightarrow> page_io pid s \<and> pid_no pid < fd2pageno s (pid_fd pid)"
| "legal (New fd) s \<longleftrightarrow> page_io \<lparr>pid_fd = fd, pid_no = fd2pageno s fd\<rparr> s \<and> fd < MAX_FD"
| "legal (Unpin pid d) s \<longleftrightarrow> d \<or> 1 < pin_count pid s \<or> settled pid s"
| "legal (Write pid m) s \<longleftrightarrow> 0 < pin_count pid s"
| "legal (Flush pid) s \<longleftrightarrow> page_table s pid \<noteq> None"
| "legal (FlushAll fd) s \<longleftrightarrow> True"

lemma new_page_total:
  assumes ok: "pool_ok s" and io: "page_io \<lparr>pid_fd = fd, pid_no = fd2pageno s fd\<rparr> s" and fd: "fd < MAX_FD"
  obtains r s' where "new_page \<lparr>pid_fd = fd, pid_no = INVALID_PAGE_ID\<rparr> s = (Inr r, s')"
proof -
  let ?pid = "\<lparr>pid_fd = fd, pid_no = INVALID_PAGE_ID\<rparr>" and ?new = "\<lparr>pid_fd = fd, pid_no = fd2pageno s fd\<rparr>"
  have no: "page_table s ?new = None"
    using pool_okD(2) [OF ok, of ?new] by (cases "page_table s ?new") auto
  from pool_okD(1) [OF ok] show ?thesis
    by (rule new_page_spec [where pid = ?pid and new = ?new]) (use fd io no that in simp_all)
qed

lemma legal_total:
  assumes ok: "pool_ok s" and "legal op s"
  shows "\<exists>s'. page_step s op s'"
proof (cases op)
  case (Fetch pid)
  with assms(2) have io: "page_io pid s" "pid_no pid < fd2pageno s (pid_fd pid)" by simp_all
  from pool_okD(1) [OF ok] io(1) have "\<exists>r s'. fetch_page pid s = (Inr r, s')"
    by (rule fetch_page_spec) blast+
  then show ?thesis unfolding Fetch using step_fetch [OF io] by blast
next
  case (New fd)
  with assms(2) have io: "page_io \<lparr>pid_fd = fd, pid_no = fd2pageno s fd\<rparr> s" "fd < MAX_FD" by simp_all
  obtain r s' where "new_page \<lparr>pid_fd = fd, pid_no = INVALID_PAGE_ID\<rparr> s = (Inr r, s')"
    using new_page_total [OF ok io] by blast
  then show ?thesis unfolding New using step_new [OF io] by blast
next
  case (Unpin pid d)
  with assms(2) have h: "d \<or> 1 < pin_count pid s \<or> settled pid s" by simp
  have "\<exists>b s'. unpin_page pid d s = (Inr b, s')"
  proof (cases "pin_count pid s = 0")
    case False
    then have "0 < pin_count pid s" using pin_count_nonneg [OF pool_okD(1) [OF ok], of pid] by simp
    from pool_okD(1) [OF ok] this h show ?thesis by (rule unpin_page_spec) blast
  qed (auto simp: unpin_page_refused)
  then show ?thesis unfolding Unpin using step_unpin [OF h] by blast
next
  case (Write pid m)
  with assms(2) have pos: "0 < pin_count pid s" by simp
  then obtain f where "page_table s pid = Some f" by (auto simp: pin_count_def split: option.splits)
  then show ?thesis unfolding Write using step_write [OF _ pos] by blast
next
  case (Flush pid)
  with assms(2) obtain f where f: "page_table s pid = Some f" by auto
  from pool_okD(1) [OF ok] f have "\<exists>s'. flush_page pid s = (Inr True, s')"
    by (rule flush_page_spec) blast
  then show ?thesis unfolding Flush using step_flush [of s pid] f by auto
next
  case (FlushAll fd)
  from pool_okD(1) [OF ok] have "\<exists>s'. flush_all_pages fd s = (Inr (), s')"
    by (rule flush_all_pages_spec) blast
  then show ?thesis unfolding FlushAll using step_flush_all by blast
qed

lemma store_step_next:
  "b \<in> store_step a (New fd) \<Longrightarrow> ps_next b fd = ps_next a fd \<or> ps_next b fd = ps_next a fd + 1"
  "b \<in> store_step a (Unpin pid d) \<Longrightarrow> ps_next b = ps_next a"
  by (auto simp: Let_def split: if_splits)

lemma legal_run_cons:
  assumes "pool_ok s" and "legal op s"
    and "\<And>t. page_step s op t \<Longrightarrow> pool_ok t \<Longrightarrow> store_of t \<in> store_step (store_of s) op \<Longrightarrow> \<exists>u. page_run t ops u"
  shows "\<exists>u. page_run s (op # ops) u"
  using legal_total [OF assms(1,2)] page_step_sim [OF _ assms(1)] assms(3) run_cons by metis

section \<open>Properties\<close>

text \<open>
  C1: the buffer pool is transparent. Whatever sequence of fetches, allocations, unpins, writes
  and flushes its clients make, with frames being evicted, written back and reloaded underneath,
  the page contents, pin counts and page numbers they see are those of a plain page store
  started from the files on disk; and the pool's own invariant holds at every moment.
\<close>

theorem pool_refines_store:
  assumes "disk_wf d" and "page_run (bpm_init n junk d) ops s'"
  shows "bpm_inv s' \<and> store_of s' \<in> store_run (disk_store d) ops"
  using page_run_sim [OF assms(2) bpm_init_ok [OF assms(1)]]
  by (simp add: store_of_init pool_ok_def bpm_ok_def)

lemma one_frame_run:
  "\<exists>s'. page_run (bpm_init 1 junk one_file_disk) [New 3, Unpin \<lparr>pid_fd = 3, pid_no = 0\<rparr> True, New 3] s'"
proof (rule legal_run_cons)
  show ok: "pool_ok (bpm_init 1 junk one_file_disk)" by (rule bpm_init_ok [OF one_file_disk_wf])
  let ?d = "one_file_disk"
  have nx: "fd2pageno ?d = (\<lambda>_. 0)" by (simp add: one_file_disk_def)
  show "legal (New 3) (bpm_init 1 junk ?d)"
    by (simp add: nx one_file_disk_io page_in_range_def MAX_FD_def)
  fix t
  assume "page_step (bpm_init 1 junk ?d) (New 3) t" and t: "pool_ok t"
    and st: "store_of t \<in> store_step (store_of (bpm_init 1 junk ?d)) (New 3)"
  then have same: "page_io q t = page_io q (bpm_init 1 junk ?d)" for q
    using page_step_keeps [OF _ ok] keeps_butD(1) same_cacheD(5) by metis
  have nt: "fd2pageno t 3 \<in> {0, 1}"
    using store_step_next(1) [OF st] by (simp add: nx)
  show "\<exists>u. page_run t [Unpin \<lparr>pid_fd = 3, pid_no = 0\<rparr> True, New 3] u"
  proof (rule legal_run_cons [OF t])
    fix u
    assume "page_step t (Unpin \<lparr>pid_fd = 3, pid_no = 0\<rparr> True) u" and u: "pool_ok u"
      and su: "store_of u \<in> store_step (store_of t) (Unpin \<lparr>pid_fd = 3, pid_no = 0\<rparr> True)"
    then have same: "page_io q u = page_io q (bpm_init 1 junk ?d)" for q
      using page_step_keeps [OF _ t] keeps_butD(1) same_cacheD(5) same by metis
    have "fd2pageno u 3 = fd2pageno t 3"
      using store_step_next(2) [OF su] by simp
    with nt have "page_in_range (fd2pageno u 3)" by (auto simp: page_in_range_def)
    then have "legal (New 3) u"
      by (simp add: same one_file_disk_io MAX_FD_def)
    then show "\<exists>v. page_run u [New 3] v"
      by (rule legal_run_cons [OF u]) (use run_nil in blast)
  qed simp
qed

theorem pool_refines_store_witness:
  "\<exists>s'. page_run (bpm_init 1 (\<lambda>_. 0) one_file_disk) [New 3, Unpin \<lparr>pid_fd = 3, pid_no = 0\<rparr> True, New 3] s' \<and>
    store_of s' \<in> store_run (disk_store one_file_disk) [New 3, Unpin \<lparr>pid_fd = 3, pid_no = 0\<rparr> True, New 3]"
  using one_frame_run [of "\<lambda>_. 0"] pool_refines_store [OF one_file_disk_wf, of 1 "\<lambda>_. 0"] by blast

text \<open>
  C2: \<open>fetch_page\<close> on a page of an open file never throws. It returns a frame that holds the
  current content of the page (the cached copy, or the disk page), pinned once more than before,
  with the contents and pin counts of all other pages unchanged; or it returns \<open>nullptr\<close>, only
  when the page is not cached and every frame of the pool is pinned, and then changes nothing.
\<close>

theorem fetch_page_returns_page:
  assumes "pool_ok s" and "page_io pid s"
  shows "\<exists>r s'. fetch_page pid s = (Inr r, s') \<and>
    (case r of
       Some f \<Rightarrow> bpm_inv s' \<and> page_table s' pid = Some f \<and> page_trunc (pg_data (pages s' f)) = page_view pid s \<and>
         pin_count pid s' = pin_count pid s + 1 \<and>
         (\<forall>q. q \<noteq> pid \<longrightarrow> page_io q s \<longrightarrow> page_view q s' = page_view q s \<and> pin_count q s' = pin_count q s)
     | None \<Rightarrow> s' = s \<and> page_table s pid = None \<and> (\<forall>f < pool_size s. 0 < pin_count (pg_id (pages s f)) s))"
  using pool_okD(1) [OF assms(1)] assms(2)
proof (rule fetch_page_spec)
  fix f s'
  assume f: "fetch_page pid s = (Inr (Some f), s')" "bpm_ok s'" "keeps_but pid s s'" "page_table s' pid = Some f"
    "pin_count pid s' = pin_count pid s + 1" "page_view pid s' = page_view pid s"
  then have "page_trunc (pg_data (pages s' f)) = page_view pid s" by (simp add: page_view_def)
  with f keeps_butD(2,3) [OF f(3)] show ?thesis by (simp add: bpm_ok_def)
qed simp

theorem fetch_page_returns_page_witness:
  "\<exists>r s'. fetch_page \<lparr>pid_fd = 3, pid_no = 7\<rparr> (bpm_init 1 (\<lambda>_. 0) one_file_disk) = (Inr r, s')"
  using fetch_page_returns_page [OF bpm_init_ok [OF one_file_disk_wf], of "\<lparr>pid_fd = 3, pid_no = 7\<rparr>" 1 "\<lambda>_. 0"]
  by (auto simp: one_file_disk_io page_in_range_def)


lemma one_pinned_page:
  obtains t :: bpm and f where "pool_ok t" and "page_table t \<lparr>pid_fd = 3, pid_no = 0\<rparr> = Some f"
    and "pin_count \<lparr>pid_fd = 3, pid_no = 0\<rparr> t = 1" and "page_io \<lparr>pid_fd = 3, pid_no = 1\<rparr> t" and "fd2pageno t 3 = 1"
proof -
  let ?s = "bpm_init 2 (\<lambda>_. 0) one_file_disk" and ?new = "\<lparr>pid_fd = 3, pid_no = 0\<rparr>"
  let ?pid = "\<lparr>pid_fd = 3, pid_no = INVALID_PAGE_ID\<rparr>"
  have ok: "pool_ok ?s" by (rule bpm_init_ok [OF one_file_disk_wf])
  have nx: "fd2pageno one_file_disk = (\<lambda>_. 0)" by (simp add: one_file_disk_def)
  have io: "page_io ?new ?s" "page_io \<lparr>pid_fd = 3, pid_no = 1\<rparr> ?s"
    by (simp_all add: one_file_disk_io page_in_range_def)
  from pool_okD(1) [OF ok] show ?thesis
  proof (rule new_page_spec [where pid = ?pid and new = ?new])
    fix f t
    assume t: "new_page ?pid ?s = (Inr (Some f, ?new), t)" "bpm_ok t" "keeps_but ?new ?s t" "page_table t ?new = Some f"
      "pin_count ?new t = 1" "fd2pageno t = (fd2pageno ?s)(pid_fd ?pid := fd2pageno ?s (pid_fd ?pid) + 1)"
    have "pool_ok t" by (rule pool_ok_keeps [OF ok t(2,3)]) (simp_all add: t(6) nx)
    with t keeps_butD(1) [OF t(3)] io show ?thesis by (intro that [of t f]) (simp_all add: nx)
  next
    assume "\<And>f. f < pool_size ?s \<Longrightarrow> 0 < pin_count (pg_id (pages ?s f)) ?s"
    from this [of 0] show ?thesis by simp
  qed (use io in \<open>simp_all add: nx MAX_FD_def\<close>)
qed


text \<open>
  C4: after \<open>flush_all_pages\<close> of a file, every page of that file that is in the pool is on disk
  exactly as its readers see it, whether pinned, dirty or clean; nothing a client sees changed.
\<close>

theorem flush_all_makes_durable:
  assumes "pool_ok s"
  shows "\<exists>s'. flush_all_pages fd s = (Inr (), s') \<and> pool_ok s' \<and> store_of s' = store_of s \<and>
    (\<forall>pid \<in> dom (page_table s). pid_fd pid = fd \<longrightarrow> disk_page fd (pid_no pid) s' = page_view pid s)"
  using pool_okD(1) [OF assms]
proof (rule flush_all_pages_spec)
  fix s'
  assume f: "flush_all_pages fd s = (Inr (), s')" "bpm_ok s'" "same_cache s s'"
    "\<And>pid. pid_fd pid = fd \<Longrightarrow> pid \<in> dom (page_table s) \<Longrightarrow> synced pid s'"
  have "disk_page fd (pid_no pid) s' = page_view pid s" if "pid \<in> dom (page_table s)" "pid_fd pid = fd" for pid
    using f(4) [OF that(2,1)] same_cacheD(7) [OF f(3)] resident_io [OF pool_okD(1) [OF assms]] that
    by (auto simp: synced_def)
  with f pool_ok_same [OF assms f(2,3)] store_of_same [OF f(3)] show ?thesis by blast
qed

theorem flush_all_makes_durable_witness:
  "\<exists>s'. flush_all_pages 3 (bpm_init 1 (\<lambda>_. 0) one_file_disk) = (Inr (), s') \<and> pool_ok s'"
  using flush_all_makes_durable [OF bpm_init_ok [OF one_file_disk_wf], of 3 1 "\<lambda>_. 0"] by blast

text \<open>
  \<open>delete_page\<close> of a cached page that nobody has pinned reports success but breaks the pool.
  It empties the frame through \<open>update_page\<close>, which enters the deleted page in the page table again
  (\<open>update_page\<close> maps the id it is given), and then also puts the frame on the free list: the frame
  is mapped, free and evictable at once, and a reader of the page is served zeroes from it.
\<close>

theorem delete_page_leaves_entry:
  assumes "pool_ok s" and "page_table s pid = Some f" and "pin_count pid s = 0"
  shows "\<exists>s'. delete_page pid s = (Inr True, s') \<and> page_table s' pid = Some f \<and> f \<in> set (free_list s') \<and>
    f \<in> set (LRUlist (frame_replacer s')) \<and> page_view pid s' = zero_mem \<and> \<not> bpm_inv s'"
proof -
  note ok = pool_okD(1) [OF assms(1)]
  note inv = bpm_okD(1) [OF ok]
  have f: "pg_id (pages s f) = pid" "f < pool_size s" "pg_pin (pages s f) = 0" "f \<notin> set (free_list s)"
    using bpm_invD(5) [OF inv assms(2)] assms(2,3) by (simp_all add: pin_count_def)
  have lru: "f \<in> set (LRUlist (frame_replacer s))" using bpm_invD(7) [OF inv f(2)] f(3,4) by simp
  have "\<exists>u. update_page f pid f s = (Inr (), u) \<and> page_table u pid = Some f \<and> page_trunc (pg_data (pages u f)) = zero_mem \<and>
    frame_replacer u = frame_replacer s \<and> pg_id (pages u f) = pid"
  proof (cases "pid_no (pg_id (pages s f)) \<noteq> INVALID_PAGE_ID \<and> pg_dirty (pages s f)")
    case True
    have io: "io_ok (pid_fd (pg_id (pages s f))) (pid_no (pg_id (pages s f))) s"
      using resident_io [OF ok assms(2)] f(1) by (simp add: page_io_def)
    obtain fls fds where w: "write_page (pid_fd (pg_id (pages s f))) (pid_no (pg_id (pages s f))) (pg_data (pages s f)) PAGE_SIZE s =
        (Inr (), s\<lparr>os_files := fls, os_fds := fds\<rparr>)"
      using write_page_shape [OF io] by blast
    show ?thesis
      by (intro exI conjI, rule update_page_dirty [OF conjunct1 [OF True] conjunct2 [OF True] w])
         (simp_all add: set_page_def)
  next
    case False
    show ?thesis
      by (intro exI conjI, rule update_page_clean [OF False]) (simp_all add: set_page_def)
  qed
  then obtain u where u: "update_page f pid f s = (Inr (), u)" "page_table u pid = Some f"
    "page_trunc (pg_data (pages u f)) = zero_mem" "frame_replacer u = frame_replacer s" by blast
  let ?s = "u\<lparr>free_list := free_list u @ [f]\<rparr>"
  have "delete_page pid s = (Inr True, ?s)"
    using assms(2) f u(1) by (simp add: delete_page_def deallocate_page_def bindE_def)
  moreover have "\<not> bpm_inv ?s"
  proof
    assume "bpm_inv ?s"
    from bpm_invD(5) [OF this, of pid f] u(2) show False by simp
  qed
  ultimately show ?thesis
    using u lru by (intro exI conjI) (assumption | simp add: page_view_def)+
qed

theorem delete_page_leaves_entry_witness:
  "\<exists>(s :: bpm) f s'. pool_ok s \<and> delete_page \<lparr>pid_fd = 3, pid_no = 0\<rparr> s = (Inr True, s') \<and>
    page_table s' \<lparr>pid_fd = 3, pid_no = 0\<rparr> = Some f \<and> f \<in> set (free_list s') \<and> \<not> bpm_inv s'"
proof -
  obtain t :: bpm and f where t: "pool_ok t" "page_table t \<lparr>pid_fd = 3, pid_no = 0\<rparr> = Some f"
    "pin_count \<lparr>pid_fd = 3, pid_no = 0\<rparr> t = 1"
    by (rule one_pinned_page)
  have pos: "0 < pin_count \<lparr>pid_fd = 3, pid_no = 0\<rparr> t" using t(3) by simp
  obtain u where u: "unpin_page \<lparr>pid_fd = 3, pid_no = 0\<rparr> True t = (Inr True, u)" "bpm_ok u"
    "keeps_but \<lparr>pid_fd = 3, pid_no = 0\<rparr> t u"
    "page_table u = page_table t" "pin_count \<lparr>pid_fd = 3, pid_no = 0\<rparr> u = pin_count \<lparr>pid_fd = 3, pid_no = 0\<rparr> t - 1"
    "fd2pageno u = fd2pageno t"
    by (rule unpin_page_spec [OF pool_okD(1) [OF t(1)] pos, of True]) (rule disjI1 [OF TrueI], rule that)
  have "pool_ok u" using u(2,4,6) t(1) by (simp add: pool_ok_def)
  with delete_page_leaves_entry [of u "\<lparr>pid_fd = 3, pid_no = 0\<rparr>" f] t u show ?thesis by auto
qed

end
