(* ===== verification/Bitmap.thy ===== *)
theory Bitmap
  imports Prelude
begin

text \<open>
  The slot bitmap of a record page, \<^verbatim>\<open>record/bitmap.h\<close>: \<open>m\<close> is the page's memory and \<open>off\<close> the
  address of the bitmap in it. Bits are numbered from the most significant bit of the first byte.
  The interface \<open>slot_map\<close> says what the record layer uses of it, and proves once what it means
  to walk over the set bits and to count them.
\<close>

unbundle bit_operations_syntax

definition get_bucket :: "int \<Rightarrow> nat" where
  "get_bucket pos = nat (pos div 8)"

definition get_bit :: "int \<Rightarrow> byte" where
  "get_bit pos = drop_bit (nat (pos mod 8)) 0x80"

definition bitmap_init :: "nat \<Rightarrow> mem \<Rightarrow> nat \<Rightarrow> mem" where
  "bitmap_init off m sz = mem_fill m off sz 0"

definition bitmap_set :: "nat \<Rightarrow> mem \<Rightarrow> int \<Rightarrow> mem" where
  "bitmap_set off m pos = m(off + get_bucket pos := m (off + get_bucket pos) OR get_bit pos)"

definition bitmap_reset :: "nat \<Rightarrow> mem \<Rightarrow> int \<Rightarrow> mem" where
  "bitmap_reset off m pos = m(off + get_bucket pos := m (off + get_bucket pos) AND NOT (get_bit pos))"

definition bitmap_is_set :: "nat \<Rightarrow> mem \<Rightarrow> int \<Rightarrow> bool" where
  "bitmap_is_set off m pos \<longleftrightarrow> m (off + get_bucket pos) AND get_bit pos \<noteq> 0"

function next_bit_from :: "bool \<Rightarrow> nat \<Rightarrow> mem \<Rightarrow> int \<Rightarrow> int \<Rightarrow> int" where
  "next_bit_from value off m sz i =
     (if i < sz then (if bitmap_is_set off m i = value then i else next_bit_from value off m sz (i + 1)) else sz)"
  by pat_completeness auto
termination by (relation "measure (\<lambda>(value, off, m, sz, i). nat (sz - i))") auto

declare next_bit_from.simps [simp del]

definition next_bit :: "nat \<Rightarrow> bool \<Rightarrow> mem \<Rightarrow> int \<Rightarrow> int \<Rightarrow> int" where
  "next_bit off value m sz start =
     (if start < - 1 \<or> start \<ge> sz then sz else next_bit_from value off m sz (start + 1))"

definition first_bit :: "nat \<Rightarrow> bool \<Rightarrow> mem \<Rightarrow> int \<Rightarrow> int" where
  "first_bit off v m max_n = next_bit off v m max_n (- 1)"

section \<open>The slot map interface\<close>

text \<open>Following \<open>next\<close> from \<open>s\<close> until it reports \<open>n\<close>, at most \<open>k\<close> times.\<close>

primrec walk :: "nat \<Rightarrow> (int \<Rightarrow> int) \<Rightarrow> int \<Rightarrow> int \<Rightarrow> int list" where
  "walk 0 nxt n s = []"
| "walk (Suc k) nxt n s = (let i = nxt s in if i < n then i # walk k nxt n i else [])"

locale slot_map =
  fixes is_set :: "'b \<Rightarrow> int \<Rightarrow> bool" and set_bit :: "'b \<Rightarrow> int \<Rightarrow> 'b" and reset :: "'b \<Rightarrow> int \<Rightarrow> 'b"
    and next_slot :: "bool \<Rightarrow> 'b \<Rightarrow> int \<Rightarrow> int \<Rightarrow> int"
  assumes is_set_set: "0 \<le> p \<Longrightarrow> 0 \<le> q \<Longrightarrow> is_set (set_bit b p) q \<longleftrightarrow> q = p \<or> is_set b q"
    and is_set_reset: "0 \<le> p \<Longrightarrow> 0 \<le> q \<Longrightarrow> is_set (reset b p) q \<longleftrightarrow> q \<noteq> p \<and> is_set b q"
    and next_range: "- 1 \<le> s \<Longrightarrow> s < n \<Longrightarrow> s < next_slot v b n s \<and> next_slot v b n s \<le> n"
    and next_found: "- 1 \<le> s \<Longrightarrow> s < n \<Longrightarrow> next_slot v b n s < n \<Longrightarrow> is_set b (next_slot v b n s) = v"
    and next_skips: "- 1 \<le> s \<Longrightarrow> s < n \<Longrightarrow> s < i \<Longrightarrow> i < next_slot v b n s \<Longrightarrow> is_set b i \<noteq> v"
begin

lemma set_reset_clear: "0 \<le> p \<Longrightarrow> 0 \<le> q \<Longrightarrow> \<not> is_set b p \<Longrightarrow> is_set (reset (set_bit b p) p) q = is_set b q"
  by (auto simp: is_set_reset is_set_set)

lemma next_eqI:
  assumes "- 1 \<le> s" and "s < i" and "i \<le> n" and "i < n \<Longrightarrow> is_set b i = v" and "\<And>j. s < j \<Longrightarrow> j < i \<Longrightarrow> is_set b j \<noteq> v"
  shows "next_slot v b n s = i"
proof (rule antisym)
  have sn: "s < n" using assms(2,3) by simp
  note r = next_range [OF assms(1) sn, of v b]
  show "next_slot v b n s \<le> i"
  proof (rule ccontr)
    assume a: "\<not> next_slot v b n s \<le> i"
    then have "is_set b i = v" using assms(3,4) r by simp
    then show False using next_skips [OF assms(1) sn assms(2), of v b] a by simp
  qed
  show "i \<le> next_slot v b n s"
  proof (rule ccontr)
    assume a: "\<not> i \<le> next_slot v b n s"
    then have "is_set b (next_slot v b n s) = v" using next_found [OF assms(1) sn, of v b] assms(3) by simp
    then show False using assms(5) [of "next_slot v b n s"] r a by simp
  qed
qed

text \<open>Walking from the first set bit to the last visits each set bit once, in order.\<close>

lemma walk_filter:
  "- 1 \<le> s \<Longrightarrow> s < n \<Longrightarrow> nat (n - s - 1) \<le> k \<Longrightarrow>
    walk k (next_slot True b n) n s = filter (is_set b) [s + 1..n - 1]"
proof (induction k arbitrary: s)
  case 0
  then show ?case by simp
next
  case (Suc k)
  let ?i = "next_slot True b n s"
  note r = next_range [OF Suc.prems(1,2), of True b]
  have skip: "filter (is_set b) [s + 1..?i - 1] = []"
    using next_skips [OF Suc.prems(1,2), of _ True b] by (auto simp: filter_empty_conv)
  show ?case
  proof (cases "?i < n")
    case True
    have "[s + 1..n - 1] = [s + 1..?i - 1] @ ?i # [?i + 1..n - 1]"
      using r True upto_split1 [of "s + 1" "?i" "n - 1"] upto_rec1 [of "?i" "n - 1"]
      by (metis (no_types, opaque_lifting) add_le_cancel_right diff_add_cancel le_less upto_split2 upto_split3 zle_diff1_eq zless_iff_Suc_zadd add1_zle_eq)
    moreover have "is_set b ?i" using next_found [OF Suc.prems(1,2), of True b] True by simp
    moreover have "walk k (next_slot True b n) n ?i = filter (is_set b) [?i + 1..n - 1]"
      by (rule Suc.IH) (use r True Suc.prems in auto)
    ultimately show ?thesis using skip True by (simp add: Let_def)
  next
    case False
    then have "?i = n" using r by simp
    then show ?thesis using skip by (simp add: Let_def)
  qed
qed

lemma count_set:
  assumes "0 \<le> p" and "p < n" and "\<not> is_set b p"
  shows "card {q. 0 \<le> q \<and> q < n \<and> is_set (set_bit b p) q} = Suc (card {q. 0 \<le> q \<and> q < n \<and> is_set b q})"
proof -
  have "{q. 0 \<le> q \<and> q < n \<and> is_set (set_bit b p) q} = insert p {q. 0 \<le> q \<and> q < n \<and> is_set b q}"
    using assms by (auto simp: is_set_set)
  moreover have "finite {q. 0 \<le> q \<and> q < n \<and> is_set b q}"
    by (rule finite_subset [of _ "{0..<n}"]) auto
  ultimately show ?thesis using assms(3) by simp
qed

lemma count_reset:
  assumes "0 \<le> p" and "p < n" and "is_set b p"
  shows "Suc (card {q. 0 \<le> q \<and> q < n \<and> is_set (reset b p) q}) = card {q. 0 \<le> q \<and> q < n \<and> is_set b q}"
proof -
  have "{q. 0 \<le> q \<and> q < n \<and> is_set b q} = insert p {q. 0 \<le> q \<and> q < n \<and> is_set (reset b p) q}"
    using assms by (auto simp: is_set_reset)
  moreover have "finite {q. 0 \<le> q \<and> q < n \<and> is_set (reset b p) q}"
    by (rule finite_subset [of _ "{0..<n}"]) auto
  moreover have "\<not> is_set (reset b p) p" using assms(1) by (simp add: is_set_reset)
  ultimately show ?thesis by simp
qed

text \<open>A clear bit exists below \<open>n\<close> exactly when fewer than \<open>n\<close> bits are set.\<close>

lemma first_clear:
  assumes "0 < n" and "card {q. 0 \<le> q \<and> q < n \<and> is_set b q} < nat n"
  shows "next_slot False b n (- 1) < n"
proof (rule ccontr)
  assume "\<not> next_slot False b n (- 1) < n"
  then have "next_slot False b n (- 1) = n" using next_range [of "- 1" n False b] assms(1) by simp
  then have "is_set b q" if "0 \<le> q" "q < n" for q
    using next_skips [of "- 1" n q False b] that by auto
  then have "{q. 0 \<le> q \<and> q < n \<and> is_set b q} = {0..<n}" by auto
  then show False using assms(2) by simp
qed

end

section \<open>The bitmap is a slot map\<close>

lemma bit_get_bit: "bit (get_bit p) k \<longleftrightarrow> k = 7 - nat (p mod 8)"
proof -
  have "(0x80 :: byte) = 2 ^ 7" by simp
  then have "bit (get_bit p) k \<longleftrightarrow> nat (p mod 8) + k = 7"
    by (simp only: get_bit_def bit_drop_bit_eq o_def bit_exp_iff) auto
  moreover have "nat (p mod 8) \<le> 7" by auto
  ultimately show ?thesis by auto
qed

lemma is_set_bit: "bitmap_is_set off m p \<longleftrightarrow> bit (m (off + get_bucket p)) (7 - nat (p mod 8))"
proof -
  let ?w = "m (off + get_bucket p) AND get_bit p" and ?k = "7 - nat (p mod 8)"
  have "?w = 0 \<longleftrightarrow> (\<forall>k. \<not> bit ?w k)"
    by (metis bit_0_eq bit_word_eqI bot_apply bot_bool_def)
  also have "\<dots> \<longleftrightarrow> \<not> bit (m (off + get_bucket p)) ?k"
    unfolding bit_and_iff bit_get_bit by blast
  finally show ?thesis by (simp only: bitmap_is_set_def not_not)
qed

lemma same_slot:
  assumes "0 \<le> p" and "0 \<le> q" and "get_bucket p = get_bucket q" and "7 - nat (p mod 8) = 7 - nat (q mod 8)"
  shows "p = q"
proof -
  have "p div 8 = q div 8" using assms(1-3) by (simp add: get_bucket_def eq_nat_nat_iff pos_imp_zdiv_nonneg_iff)
  moreover have "nat (p mod 8) \<le> 7" "nat (q mod 8) \<le> 7" by auto
  then have "p mod 8 = q mod 8" using assms(4) by (metis diff_diff_cancel eq_nat_nat_iff pos_mod_sign zero_less_numeral)
  ultimately show ?thesis by (metis mult_div_mod_eq)
qed

lemma bitmap_is_set_set:
  assumes "0 \<le> p" and "0 \<le> q"
  shows "bitmap_is_set off (bitmap_set off m p) q \<longleftrightarrow> q = p \<or> bitmap_is_set off m q"
proof (cases "get_bucket q = get_bucket p")
  case True
  have "7 - nat (q mod 8) = 7 - nat (p mod 8) \<longleftrightarrow> q = p"
    using same_slot [OF assms(2,1) True] by blast
  then show ?thesis
    unfolding is_set_bit bitmap_set_def True by (simp add: bit_or_iff bit_get_bit) blast
next
  case False
  then show ?thesis unfolding is_set_bit bitmap_set_def by auto
qed

lemma bitmap_is_set_reset:
  assumes "0 \<le> p" and "0 \<le> q"
  shows "bitmap_is_set off (bitmap_reset off m p) q \<longleftrightarrow> q \<noteq> p \<and> bitmap_is_set off m q"
proof (cases "get_bucket q = get_bucket p")
  case True
  have "7 - nat (q mod 8) = 7 - nat (p mod 8) \<longleftrightarrow> q = p"
    using same_slot [OF assms(2,1) True] by blast
  moreover have "7 - nat (q mod 8) < 8" by simp
  ultimately show ?thesis
    unfolding is_set_bit bitmap_reset_def True
    by (simp add: bit_and_iff bit_not_iff bit_get_bit possible_bit_word) blast
next
  case False
  then show ?thesis unfolding is_set_bit bitmap_reset_def by auto
qed

lemma next_bit_from_spec:
  "i \<le> sz \<Longrightarrow> i \<le> next_bit_from v off m sz i \<and> next_bit_from v off m sz i \<le> sz \<and>
    (next_bit_from v off m sz i < sz \<longrightarrow> bitmap_is_set off m (next_bit_from v off m sz i) = v) \<and>
    (\<forall>j. i \<le> j \<and> j < next_bit_from v off m sz i \<longrightarrow> bitmap_is_set off m j \<noteq> v)"
proof (induction v off m sz i rule: next_bit_from.induct)
  case (1 v off m sz i)
  note rec = next_bit_from.simps [of v off m sz i]
  consider "i = sz" | "i < sz" "bitmap_is_set off m i = v" | "i < sz" "bitmap_is_set off m i \<noteq> v"
    using 1(2) by linarith
  then show ?case
  proof cases
    case 1
    then have "next_bit_from v off m sz i = i" using rec by simp
    then show ?thesis using 1 by auto
  next
    case 2
    then have "next_bit_from v off m sz i = i" using rec by simp
    then show ?thesis using 2 by auto
  next
    case 3
    then have eq: "next_bit_from v off m sz i = next_bit_from v off m sz (i + 1)"
      using rec by simp
    have "\<forall>j. i \<le> j \<and> j < next_bit_from v off m sz (i + 1) \<longrightarrow> bitmap_is_set off m j \<noteq> v"
      using 1(1) [OF 3] 3 by (metis add1_zle_eq le_less)
    then show ?thesis unfolding eq using 1(1) [OF 3] 3(1) by simp
  qed
qed

interpretation bm: slot_map "bitmap_is_set off" "bitmap_set off" "bitmap_reset off" "next_bit off" for off
proof
  fix p q :: int and b
  assume "0 \<le> p" "0 \<le> q"
  then show "bitmap_is_set off (bitmap_set off b p) q \<longleftrightarrow> q = p \<or> bitmap_is_set off b q"
    and "bitmap_is_set off (bitmap_reset off b p) q \<longleftrightarrow> q \<noteq> p \<and> bitmap_is_set off b q"
    by (rule bitmap_is_set_set bitmap_is_set_reset; assumption)+
next
  fix s n :: int and v b
  assume s: "- 1 \<le> s" "s < n"
  then have eq: "next_bit off v b n s = next_bit_from v off b n (s + 1)" by (simp add: next_bit_def)
  note spec = next_bit_from_spec [of "s + 1" n v off b]
  show "s < next_bit off v b n s \<and> next_bit off v b n s \<le> n"
    and "next_bit off v b n s < n \<Longrightarrow> bitmap_is_set off b (next_bit off v b n s) = v"
    and "s < i \<Longrightarrow> i < next_bit off v b n s \<Longrightarrow> bitmap_is_set off b i \<noteq> v" for i
    unfolding eq using spec s by auto
qed

lemma bitmap_init_clear: "0 \<le> p \<Longrightarrow> p < 8 * int sz \<Longrightarrow> \<not> bitmap_is_set off (bitmap_init off m sz) p"
  by (auto simp: is_set_bit bitmap_init_def mem_fill_def get_bucket_def)

text \<open>
  C11: following \<open>next_bit\<close> over the set bits of a bitmap, from \<open>first_bit\<close> until it reports the end,
  visits exactly the set positions below \<open>n\<close>, each once and in increasing order; \<open>n\<close> steps are enough.
\<close>

theorem bitmap_walk_visits_set_slots:
  "walk (nat n) (next_bit off True m n) n (- 1) = filter (bitmap_is_set off m) [0..n - 1]"
proof (cases "0 < n")
  case True
  then show ?thesis using bm.walk_filter [of "- 1" n "nat n" off m] by simp
qed simp

end
