(* ===== verification/LogRecord.thy ===== *)
theory LogRecord
  imports Prelude
begin

text \<open>
  The log records, \<^verbatim>\<open>recovery/log_defs.h\<close> and the \<open>LogRecord\<close> classes of
  \<^verbatim>\<open>recovery/log_manager.h\<close>: their constructors, their serialization into the log buffer and
  their deserialization from a piece of the log file.

  The class hierarchy is a datatype with one constructor per subclass; the base class is the header
  record. An \<open>RmRecord\<close> is the list of its \<open>size\<close> bytes, and a table name is a string whose
  length is the field \<open>table_name_size_\<close>. The interface \<open>log_codec\<close> states what the log manager and
  recovery need: a record written somewhere is read back from there, and it occupies exactly the
  \<open>log_tot_len_\<close> bytes by which the log buffer advances.
\<close>

section \<open>Records\<close>

datatype log_type = UPDATE | INSERT | DELETE | BEGIN | COMMIT | ABORT

fun log_type_code :: "log_type \<Rightarrow> int" where
  "log_type_code UPDATE = 0"
| "log_type_code INSERT = 1"
| "log_type_code DELETE = 2"
| "log_type_code BEGIN = 3"
| "log_type_code COMMIT = 4"
| "log_type_code ABORT = 5"

definition OFFSET_LOG_TYPE :: nat where "OFFSET_LOG_TYPE = 0"
definition OFFSET_LSN :: nat where "OFFSET_LSN = 4"
definition OFFSET_LOG_TOT_LEN :: nat where "OFFSET_LOG_TOT_LEN = OFFSET_LSN + 4"
definition OFFSET_LOG_TID :: nat where "OFFSET_LOG_TID = OFFSET_LOG_TOT_LEN + 4"
definition OFFSET_PREV_LSN :: nat where "OFFSET_PREV_LSN = OFFSET_LOG_TID + 8"
definition OFFSET_LOG_DATA :: nat where "OFFSET_LOG_DATA = OFFSET_PREV_LSN + 4"
definition LOG_HEADER_SIZE :: nat where "LOG_HEADER_SIZE = OFFSET_LOG_DATA"

lemmas log_offsets = OFFSET_LOG_TYPE_def OFFSET_LSN_def OFFSET_LOG_TOT_LEN_def OFFSET_LOG_TID_def
  OFFSET_PREV_LSN_def OFFSET_LOG_DATA_def LOG_HEADER_SIZE_def

record log_header =
  log_type :: int
  lsn :: int
  log_tot_len :: int
  log_tid :: int
  prev_lsn :: int

datatype log_record =
    BeginLogRecord (hdr: log_header)
  | CommitLogRecord (hdr: log_header)
  | AbortLogRecord (hdr: log_header)
  | InsertLogRecord (hdr: log_header) (insert_value: "byte list") (log_rid: rid) (table_name: string)
  | DeleteLogRecord (hdr: log_header) (delete_value: "byte list") (log_rid: rid) (table_name: string)
  | UpdateLogRecord (hdr: log_header) (old_value: "byte list") (new_value: "byte list") (log_rid: rid) (table_name: string)

fun set_lsn :: "int \<Rightarrow> log_record \<Rightarrow> log_record" where
  "set_lsn l (BeginLogRecord h) = BeginLogRecord (h\<lparr>lsn := l\<rparr>)"
| "set_lsn l (CommitLogRecord h) = CommitLogRecord (h\<lparr>lsn := l\<rparr>)"
| "set_lsn l (AbortLogRecord h) = AbortLogRecord (h\<lparr>lsn := l\<rparr>)"
| "set_lsn l (InsertLogRecord h v r t) = InsertLogRecord (h\<lparr>lsn := l\<rparr>) v r t"
| "set_lsn l (DeleteLogRecord h v r t) = DeleteLogRecord (h\<lparr>lsn := l\<rparr>) v r t"
| "set_lsn l (UpdateLogRecord h v w r t) = UpdateLogRecord (h\<lparr>lsn := l\<rparr>) v w r t"

text \<open>\<open>log_tot_len_\<close> is a \<open>uint32_t\<close>.\<close>

definition c_uint32 :: "int \<Rightarrow> int" where "c_uint32 x = x mod 2 ^ 32"

definition new_header :: "log_type \<Rightarrow> int \<Rightarrow> nat \<Rightarrow> log_header" where
  "new_header ty txn_id data_len = \<lparr>log_type = log_type_code ty, lsn = INVALID_LSN,
     log_tot_len = c_uint32 (int (LOG_HEADER_SIZE + data_len)), log_tid = txn_id, prev_lsn = INVALID_LSN\<rparr>"

definition new_BeginLogRecord :: "int \<Rightarrow> log_record" where
  "new_BeginLogRecord txn_id = BeginLogRecord (new_header BEGIN txn_id 0)"

definition new_CommitLogRecord :: "int \<Rightarrow> log_record" where
  "new_CommitLogRecord txn_id = CommitLogRecord (new_header COMMIT txn_id 0)"

definition new_AbortLogRecord :: "int \<Rightarrow> log_record" where
  "new_AbortLogRecord txn_id = AbortLogRecord (new_header ABORT txn_id 0)"

definition new_InsertLogRecord :: "int \<Rightarrow> byte list \<Rightarrow> rid \<Rightarrow> string \<Rightarrow> log_record" where
  "new_InsertLogRecord txn_id v r t =
     InsertLogRecord (new_header INSERT txn_id (4 + length v + 8 + (8 + length t))) v r t"

definition new_DeleteLogRecord :: "int \<Rightarrow> byte list \<Rightarrow> rid \<Rightarrow> string \<Rightarrow> log_record" where
  "new_DeleteLogRecord txn_id v r t =
     DeleteLogRecord (new_header DELETE txn_id (4 + length v + 8 + (8 + length t))) v r t"

definition new_UpdateLogRecord :: "int \<Rightarrow> byte list \<Rightarrow> byte list \<Rightarrow> rid \<Rightarrow> string \<Rightarrow> log_record" where
  "new_UpdateLogRecord txn_id v w r t =
     UpdateLogRecord (new_header UPDATE txn_id (4 * 2 + (length v + length w) + 8 + (8 + length t))) v w r t"

section \<open>Serialization\<close>

definition serialize_header :: "log_header \<Rightarrow> mem \<Rightarrow> nat \<Rightarrow> mem" where
  "serialize_header h m dest =
     (let m = store_i32 m (dest + OFFSET_LOG_TYPE) (log_type h);
          m = store_i32 m (dest + OFFSET_LSN) (lsn h);
          m = store_i32 m (dest + OFFSET_LOG_TOT_LEN) (log_tot_len h);
          m = store_i64 m (dest + OFFSET_LOG_TID) (log_tid h)
      in store_i32 m (dest + OFFSET_PREV_LSN) (prev_lsn h))"

definition store_record :: "mem \<Rightarrow> nat \<Rightarrow> byte list \<Rightarrow> mem" where
  "store_record m off v = mem_put (store_i32 m off (int (length v))) (off + 4) v"

definition store_rid :: "mem \<Rightarrow> nat \<Rightarrow> rid \<Rightarrow> mem" where
  "store_rid m off r = store_i32 (store_i32 m off (rid_page_no r)) (off + 4) (rid_slot_no r)"

definition store_name :: "mem \<Rightarrow> nat \<Rightarrow> string \<Rightarrow> mem" where
  "store_name m off t = mem_put (store_i64 m off (int (length t))) (off + 8) (bytes_of_string t)"

text \<open>The bodies of \<open>InsertLogRecord::serialize\<close> and \<open>DeleteLogRecord::serialize\<close> are the same.\<close>

definition serialize_value :: "byte list \<Rightarrow> rid \<Rightarrow> string \<Rightarrow> mem \<Rightarrow> nat \<Rightarrow> mem" where
  "serialize_value v r t m dest =
     (let offset = OFFSET_LOG_DATA;
          m = store_record m (dest + offset) v;
          offset = offset + 4 + length v;
          m = store_rid m (dest + offset) r;
          offset = offset + 8
      in store_name m (dest + offset) t)"

fun serialize :: "log_record \<Rightarrow> mem \<Rightarrow> nat \<Rightarrow> mem" where
  "serialize (BeginLogRecord h) m dest = serialize_header h m dest"
| "serialize (CommitLogRecord h) m dest = serialize_header h m dest"
| "serialize (AbortLogRecord h) m dest = serialize_header h m dest"
| "serialize (InsertLogRecord h v r t) m dest = serialize_value v r t (serialize_header h m dest) dest"
| "serialize (DeleteLogRecord h v r t) m dest = serialize_value v r t (serialize_header h m dest) dest"
| "serialize (UpdateLogRecord h v w r t) m dest =
     (let m = serialize_header h m dest;
          offset = OFFSET_LOG_DATA;
          m = store_record m (dest + offset) v;
          offset = offset + 4 + length v;
          m = store_record m (dest + offset) w;
          offset = offset + 4 + length w;
          m = store_rid m (dest + offset) r;
          offset = offset + 8
      in store_name m (dest + offset) t)"

definition deserialize_header :: "mem \<Rightarrow> nat \<Rightarrow> log_header" where
  "deserialize_header m src = \<lparr>log_type = load_i32 m src, lsn = load_i32 m (src + OFFSET_LSN),
     log_tot_len = load_u32 m (src + OFFSET_LOG_TOT_LEN), log_tid = load_i64 m (src + OFFSET_LOG_TID),
     prev_lsn = load_i32 m (src + OFFSET_PREV_LSN)\<rparr>"

text \<open>\<open>RmRecord::Deserialize\<close>: \<open>new char[size]\<close> throws for a negative size.\<close>

definition load_record :: "mem \<Rightarrow> nat \<Rightarrow> db_error + byte list" where
  "load_record m src =
     (let sz = load_i32 m src
      in if sz < 0 then Inl BadArrayLength else Inr (mem_read m (src + 4) (nat sz)))"

definition load_rid :: "mem \<Rightarrow> nat \<Rightarrow> rid" where
  "load_rid m off = \<lparr>rid_page_no = load_i32 m off, rid_slot_no = load_i32 m (off + 4)\<rparr>"

definition load_name :: "mem \<Rightarrow> nat \<Rightarrow> string" where
  "load_name m off = string_of_bytes (mem_read m (off + 8) (nat (load_u64 m off)))"

definition deserialize_value ::
  "(log_header \<Rightarrow> byte list \<Rightarrow> rid \<Rightarrow> string \<Rightarrow> log_record) \<Rightarrow> mem \<Rightarrow> nat \<Rightarrow> db_error + log_record" where
  "deserialize_value C m src =
     (case load_record m (src + OFFSET_LOG_DATA) of
        Inl e \<Rightarrow> Inl e
      | Inr v \<Rightarrow>
          (let offset = OFFSET_LOG_DATA + length v + 4
           in Inr (C (deserialize_header m src) v (load_rid m (src + offset)) (load_name m (src + offset + 8)))))"

definition deserialize_update :: "mem \<Rightarrow> nat \<Rightarrow> db_error + log_record" where
  "deserialize_update m src =
     (case load_record m (src + OFFSET_LOG_DATA) of
        Inl e \<Rightarrow> Inl e
      | Inr v \<Rightarrow>
          (let offset = OFFSET_LOG_DATA + (length v + 4)
           in case load_record m (src + offset) of
                Inl e \<Rightarrow> Inl e
              | Inr w \<Rightarrow>
                  (let offset = offset + (length w + 4)
                   in Inr (UpdateLogRecord (deserialize_header m src) v w
                             (load_rid m (src + offset)) (load_name m (src + offset + 8))))))"

text \<open>
  \<open>create_log_record\<close> makes the object whose \<open>deserialize\<close> is then called; an unknown type gives
  \<open>nullptr\<close>, \<open>None\<close> here.
\<close>

definition deserialize :: "int \<Rightarrow> mem \<Rightarrow> nat \<Rightarrow> (db_error + log_record) option" where
  "deserialize ty m src =
     (if ty = log_type_code BEGIN then Some (Inr (BeginLogRecord (deserialize_header m src)))
      else if ty = log_type_code COMMIT then Some (Inr (CommitLogRecord (deserialize_header m src)))
      else if ty = log_type_code ABORT then Some (Inr (AbortLogRecord (deserialize_header m src)))
      else if ty = log_type_code INSERT then Some (deserialize_value InsertLogRecord m src)
      else if ty = log_type_code DELETE then Some (deserialize_value DeleteLogRecord m src)
      else if ty = log_type_code UPDATE then Some (deserialize_update m src)
      else None)"

section \<open>The bytes of a record\<close>

definition header_bytes :: "log_header \<Rightarrow> byte list" where
  "header_bytes h = enc_le 4 (log_type h) @ enc_le 4 (lsn h) @ enc_le 4 (log_tot_len h) @
     enc_le 8 (log_tid h) @ enc_le 4 (prev_lsn h)"

definition record_bytes :: "byte list \<Rightarrow> byte list" where
  "record_bytes v = enc_le 4 (int (length v)) @ v"

definition rid_bytes :: "rid \<Rightarrow> byte list" where
  "rid_bytes r = enc_le 4 (rid_page_no r) @ enc_le 4 (rid_slot_no r)"

definition name_bytes :: "string \<Rightarrow> byte list" where
  "name_bytes t = enc_le 8 (int (length t)) @ bytes_of_string t"

fun body_bytes :: "log_record \<Rightarrow> byte list" where
  "body_bytes (InsertLogRecord h v r t) = record_bytes v @ rid_bytes r @ name_bytes t"
| "body_bytes (DeleteLogRecord h v r t) = record_bytes v @ rid_bytes r @ name_bytes t"
| "body_bytes (UpdateLogRecord h v w r t) = record_bytes v @ record_bytes w @ rid_bytes r @ name_bytes t"
| "body_bytes r = []"

definition log_bytes :: "log_record \<Rightarrow> byte list" where
  "log_bytes r = header_bytes (hdr r) @ body_bytes r"

lemma length_bytes [simp]:
  "length (header_bytes h) = 24" "length (record_bytes v) = 4 + length v" "length (rid_bytes r) = 8"
  "length (name_bytes t) = 8 + length t"
  by (simp_all add: header_bytes_def record_bytes_def rid_bytes_def name_bytes_def)

lemma mem_put_append': "off' = off + length xs \<Longrightarrow> mem_put (mem_put m off xs) off' ys = mem_put m off (xs @ ys)"
  by (simp add: mem_put_append)

lemma serialize_header_put: "serialize_header h m d = mem_put m d (header_bytes h)"
  by (simp add: serialize_header_def header_bytes_def store_i32_def store_i64_def log_offsets mem_put_append')

lemma store_record_put: "store_record m off v = mem_put m off (record_bytes v)"
  by (simp add: store_record_def record_bytes_def store_i32_def mem_put_append')

lemma store_rid_put: "store_rid m off r = mem_put m off (rid_bytes r)"
  by (simp add: store_rid_def rid_bytes_def store_i32_def mem_put_append')

lemma store_name_put: "store_name m off t = mem_put m off (name_bytes t)"
  by (simp add: store_name_def name_bytes_def store_i64_def mem_put_append')

lemma serialize_put: "serialize r m d = mem_put m d (log_bytes r)"
  by (cases r) (simp_all add: log_bytes_def serialize_value_def Let_def serialize_header_put store_record_put
      store_rid_put store_name_put log_offsets mem_put_append')

section \<open>Reading a record back\<close>

definition int64_range :: "int \<Rightarrow> bool" where
  "int64_range x \<longleftrightarrow> - (2 ^ 63) \<le> x \<and> x < 2 ^ 63"

definition header_ok :: "log_type \<Rightarrow> log_header \<Rightarrow> bool" where
  "header_ok ty h \<longleftrightarrow> log_type h = log_type_code ty \<and> int32_range (lsn h) \<and> int64_range (log_tid h) \<and> int32_range (prev_lsn h)"

definition rid_ok :: "rid \<Rightarrow> bool" where
  "rid_ok r \<longleftrightarrow> int32_range (rid_page_no r) \<and> int32_range (rid_slot_no r)"

fun kind_of :: "log_record \<Rightarrow> log_type" where
  "kind_of (BeginLogRecord h) = BEGIN"
| "kind_of (CommitLogRecord h) = COMMIT"
| "kind_of (AbortLogRecord h) = ABORT"
| "kind_of (InsertLogRecord h v r t) = INSERT"
| "kind_of (DeleteLogRecord h v r t) = DELETE"
| "kind_of (UpdateLogRecord h v w r t) = UPDATE"

fun rids_ok :: "log_record \<Rightarrow> bool" where
  "rids_ok (InsertLogRecord h v r t) = rid_ok r"
| "rids_ok (DeleteLogRecord h v r t) = rid_ok r"
| "rids_ok (UpdateLogRecord h v w r t) = rid_ok r"
| "rids_ok r = True"

text \<open>
  A record as the program makes it: its type is that of its class, its numbers fit their fields, it
  is shorter than 2 GB and \<open>log_tot_len_\<close> is its length.
\<close>

definition log_ok :: "log_record \<Rightarrow> bool" where
  "log_ok r \<longleftrightarrow> header_ok (kind_of r) (hdr r) \<and> rids_ok r \<and>
     log_tot_len (hdr r) = int (length (log_bytes r)) \<and> length (log_bytes r) < 2 ^ 31"

lemma deserialize_header_at:
  assumes "mem_at m d (header_bytes h)" and "header_ok ty h" and "0 \<le> log_tot_len h" and "log_tot_len h < 2 ^ 31"
  shows "deserialize_header m d = h"
proof -
  have ty: "int32_range (log_type h)"
    using assms(2) by (cases ty) (simp_all add: header_ok_def int32_range_def)
  have at: "mem_at m d (enc_le 4 (log_type h))" "mem_at m (d + 4) (enc_le 4 (lsn h))"
    "mem_at m (d + 8) (enc_le 4 (log_tot_len h))" "mem_at m (d + 12) (enc_le 8 (log_tid h))"
    "mem_at m (d + 20) (enc_le 4 (prev_lsn h))"
    using assms(1) by (simp_all add: header_bytes_def ac_simps)
  have "load_i32 m d = log_type h" by (rule load_i32_at [OF at(1) ty])
  moreover have "load_i32 m (d + 4) = lsn h" using load_i32_at [OF at(2)] assms(2) by (simp add: header_ok_def)
  moreover have "load_u32 m (d + 8) = log_tot_len h" using load_u32_at [OF at(3)] assms(3,4) by simp
  moreover have "load_i64 m (d + 12) = log_tid h"
    using load_i64_at [OF at(4)] assms(2) by (simp add: header_ok_def int64_range_def)
  moreover have "load_i32 m (d + 20) = prev_lsn h" using load_i32_at [OF at(5)] assms(2) by (simp add: header_ok_def)
  ultimately show ?thesis by (simp add: deserialize_header_def log_offsets)
qed

lemma load_record_at:
  assumes "mem_at m d (record_bytes v)" and "length v < 2 ^ 31"
  shows "load_record m d = Inr v"
proof -
  have at: "mem_at m d (enc_le 4 (int (length v)))" "mem_at m (d + 4) v"
    using assms(1) by (simp_all add: record_bytes_def)
  have "load_i32 m d = int (length v)"
    by (rule load_i32_at [OF at(1)]) (use assms(2) in \<open>simp add: int32_range_def\<close>)
  then show ?thesis using at(2) by (simp add: load_record_def mem_at_def)
qed

lemma load_rid_at: "mem_at m d (rid_bytes r) \<Longrightarrow> rid_ok r \<Longrightarrow> load_rid m d = r"
  by (simp add: load_rid_def rid_bytes_def rid_ok_def load_i32_at)

lemma load_name_at:
  assumes "mem_at m d (name_bytes t)" and "length t < 2 ^ 31"
  shows "load_name m d = t"
proof -
  have at: "mem_at m d (enc_le 8 (int (length t)))" "mem_at m (d + 8) (bytes_of_string t)"
    using assms(1) by (simp_all add: name_bytes_def)
  have "load_u64 m d = int (length t)"
    by (rule load_u64_at [OF at(1)]) (use assms(2) in simp_all)
  then show ?thesis using at(2) by (simp add: load_name_def mem_at_def)
qed

lemma log_type_code_eq [simp]: "log_type_code a = log_type_code b \<longleftrightarrow> a = b"
  by (cases a; cases b) simp_all

lemma log_ok_header:
  assumes "log_ok r" and "mem_at m d (log_bytes r)"
  shows "deserialize_header m d = hdr r" and "log_type (hdr r) = log_type_code (kind_of r)"
    and "mem_at m (d + 24) (body_bytes r)"
proof -
  show "deserialize_header m d = hdr r"
    by (rule deserialize_header_at [of m d _ "kind_of r"]) (use assms in \<open>simp_all add: log_ok_def log_bytes_def\<close>)
qed (use assms in \<open>simp_all add: log_ok_def header_ok_def log_bytes_def\<close>)

lemma deserialize_at:
  assumes "log_ok r" and "mem_at m d (log_bytes r)"
  shows "deserialize (log_type (hdr r)) m d = Some (Inr r)"
proof -
  note h = log_ok_header [OF assms]
  have len: "length (body_bytes r) < 2 ^ 31" using assms(1) by (simp add: log_ok_def log_bytes_def)
  have val: "deserialize_value C m d = Inr (C (hdr r) v rd t)"
    if "body_bytes r = record_bytes v @ rid_bytes rd @ name_bytes t" "rid_ok rd" for C v rd t
  proof -
    have at: "mem_at m (d + 24) (record_bytes v)" "mem_at m (d + (28 + length v)) (rid_bytes rd)"
      "mem_at m (d + (36 + length v)) (name_bytes t)"
      using h(3) that(1) by (simp_all add: ac_simps)
    have "length v < 2 ^ 31" "length t < 2 ^ 31" using len that(1) by simp_all
    then have "load_record m (d + 24) = Inr v" "load_rid m (d + (28 + length v)) = rd"
      "load_name m (d + (36 + length v)) = t"
      using at that(2) by (simp_all only: load_record_at load_rid_at load_name_at)
    then show ?thesis by (simp add: deserialize_value_def h(1) log_offsets ac_simps)
  qed
  show ?thesis
  proof (cases r)
    case (InsertLogRecord h' v rd t)
    with val [of v rd t InsertLogRecord] h(2) assms(1) show ?thesis
      by (simp add: deserialize_def log_ok_def del: log_type_code.simps)
  next
    case (DeleteLogRecord h' v rd t)
    with val [of v rd t DeleteLogRecord] h(2) assms(1) show ?thesis
      by (simp add: deserialize_def log_ok_def del: log_type_code.simps)
  next
    case (UpdateLogRecord h' v w rd t)
    have at: "mem_at m (d + 24) (record_bytes v)" "mem_at m (d + (28 + length v)) (record_bytes w)"
      "mem_at m (d + (32 + length v + length w)) (rid_bytes rd)"
      "mem_at m (d + (40 + length v + length w)) (name_bytes t)"
      using h(3) UpdateLogRecord by (simp_all add: ac_simps)
    have "length v < 2 ^ 31" "length w < 2 ^ 31" "length t < 2 ^ 31" "rid_ok rd"
      using len UpdateLogRecord assms(1) by (simp_all add: log_ok_def)
    then have "load_record m (d + 24) = Inr v" "load_record m (d + (28 + length v)) = Inr w"
      "load_rid m (d + (32 + length v + length w)) = rd" "load_name m (d + (40 + length v + length w)) = t"
      using at by (simp_all only: load_record_at load_rid_at load_name_at)
    with h(1,2) UpdateLogRecord show ?thesis
      by (simp add: deserialize_def deserialize_update_def log_offsets Let_def ac_simps del: log_type_code.simps)
  qed (use h in \<open>simp_all add: deserialize_def del: log_type_code.simps\<close>)
qed

section \<open>The codec interface\<close>

text \<open>A sequence of records that lie one after the other, parsed with at most \<open>k\<close> steps up to address \<open>e\<close>.\<close>

primrec parse_all :: "(mem \<Rightarrow> nat \<Rightarrow> 'r option) \<Rightarrow> ('r \<Rightarrow> nat) \<Rightarrow> nat \<Rightarrow> mem \<Rightarrow> nat \<Rightarrow> nat \<Rightarrow> 'r list" where
  "parse_all dec len 0 m d e = []"
| "parse_all dec len (Suc k) m d e =
     (if d < e then (case dec m d of Some r \<Rightarrow> r # parse_all dec len k m (d + len r) e | None \<Rightarrow> []) else [])"

locale log_codec =
  fixes encode :: "'r \<Rightarrow> byte list" and dec :: "mem \<Rightarrow> nat \<Rightarrow> 'r option" and good :: "'r \<Rightarrow> bool"
  assumes encode_nonempty: "good r \<Longrightarrow> encode r \<noteq> []"
    and dec_encode: "good r \<Longrightarrow> mem_at m d (encode r) \<Longrightarrow> dec m d = Some r"
begin

lemma parse_all_encode:
  "list_all good rs \<Longrightarrow> mem_at m d (concat (map encode rs)) \<Longrightarrow> length rs \<le> k \<Longrightarrow>
    parse_all dec (\<lambda>r. length (encode r)) k m d (d + length (concat (map encode rs))) = rs"
proof (induction rs arbitrary: d k)
  case Nil
  then show ?case by (cases k) simp_all
next
  case (Cons r rs)
  then obtain k' where k: "k = Suc k'" "length rs \<le> k'" by (cases k) auto
  have "dec m d = Some r" using Cons.prems dec_encode by simp
  moreover have "encode r \<noteq> []" using Cons.prems encode_nonempty by simp
  moreover have "parse_all dec (\<lambda>r. length (encode r)) k' m (d + length (encode r))
      (d + length (encode r) + length (concat (map encode rs))) = rs"
    by (rule Cons.IH) (use Cons.prems k in simp_all)
  ultimately show ?case by (simp add: k(1) add.assoc)
qed

text \<open>The bytes of a log determine its records.\<close>

lemma encode_inj:
  assumes "list_all good rs" and "list_all good rs'" and "concat (map encode rs) = concat (map encode rs')"
  shows "rs = rs'"
proof -
  define m where "m = mem_put zero_mem 0 (concat (map encode rs))"
  let ?k = "max (length rs) (length rs')"
  have at: "mem_at m 0 (concat (map encode rs))" by (simp add: m_def)
  have "parse_all dec (\<lambda>r. length (encode r)) ?k m 0 (0 + length (concat (map encode rs))) = rs"
    by (rule parse_all_encode [OF assms(1) at]) simp
  moreover have "parse_all dec (\<lambda>r. length (encode r)) ?k m 0 (0 + length (concat (map encode rs'))) = rs'"
    by (rule parse_all_encode [OF assms(2)]) (use at assms(3) in simp_all)
  ultimately show ?thesis using assms(3) by simp
qed

end

text \<open>What recovery does at an address: look at the type, make the object, let it deserialize itself.\<close>

definition parse_log :: "mem \<Rightarrow> nat \<Rightarrow> log_record option" where
  "parse_log m d = (case deserialize (load_i32 m d) m d of Some (Inr r) \<Rightarrow> Some r | _ \<Rightarrow> None)"

lemma log_type_at:
  assumes "log_ok r" and "mem_at m d (log_bytes r)"
  shows "load_i32 m d = log_type_code (kind_of r)"
proof -
  have "load_i32 m d = log_type (deserialize_header m d)" by (simp add: deserialize_header_def)
  then show ?thesis using log_ok_header(1,2) [OF assms] by simp
qed

lemma deserialize_type_at:
  "log_ok r \<Longrightarrow> mem_at m d (log_bytes r) \<Longrightarrow> deserialize (load_i32 m d) m d = Some (Inr r)"
  using deserialize_at log_type_at log_ok_header(2) by metis

interpretation lc: log_codec log_bytes parse_log log_ok
proof
  fix r m d
  assume ok: "log_ok r"
  have "length (log_bytes r) \<noteq> 0" by (simp add: log_bytes_def)
  then show "log_bytes r \<noteq> []" by auto
  show "parse_log m d = Some r" if "mem_at m d (log_bytes r)"
    using deserialize_type_at [OF ok that] by (simp add: parse_log_def)
qed

section \<open>The records the program makes\<close>

definition txn_id_ok :: "int \<Rightarrow> bool" where
  "txn_id_ok t \<longleftrightarrow> int64_range t"

lemma new_header_ok:
  assumes "txn_id_ok t" and "LOG_HEADER_SIZE + n < 2 ^ 31"
  shows "header_ok ty (new_header ty t n)" and "log_tot_len (new_header ty t n) = int (24 + n)"
  using assms by (simp_all add: header_ok_def new_header_def txn_id_ok_def int32_range_def rmdb_consts c_uint32_def log_offsets)

lemma new_records_ok:
  assumes "txn_id_ok txn"
  shows "log_ok (new_BeginLogRecord txn)" and "log_ok (new_CommitLogRecord txn)" and "log_ok (new_AbortLogRecord txn)"
    and "rid_ok r \<Longrightarrow> length v + length t + 44 < 2 ^ 31 \<Longrightarrow> log_ok (new_InsertLogRecord txn v r t)"
    and "rid_ok r \<Longrightarrow> length v + length t + 44 < 2 ^ 31 \<Longrightarrow> log_ok (new_DeleteLogRecord txn v r t)"
    and "rid_ok r \<Longrightarrow> length v + length w + length t + 48 < 2 ^ 31 \<Longrightarrow> log_ok (new_UpdateLogRecord txn v w r t)"
  using new_header_ok [OF assms]
  by (simp_all add: log_ok_def new_BeginLogRecord_def new_CommitLogRecord_def new_AbortLogRecord_def
      new_InsertLogRecord_def new_DeleteLogRecord_def new_UpdateLogRecord_def log_bytes_def log_offsets)

lemma set_lsn_ok: "log_ok r \<Longrightarrow> int32_range l \<Longrightarrow> log_ok (set_lsn l r)"
  by (cases r) (simp_all add: log_ok_def log_bytes_def header_ok_def)

lemma length_set_lsn [simp]: "length (log_bytes (set_lsn l r)) = length (log_bytes r)"
  by (cases r) (simp_all add: log_bytes_def)

lemma hdr_set_lsn [simp]: "hdr (set_lsn l r) = (hdr r)\<lparr>lsn := l\<rparr>"
  by (cases r) simp_all

text \<open>
  C5: a log record that is serialized into memory is deserialized from there as the same record,
  through the type code found there, and \<open>serialize\<close> writes exactly the \<open>log_tot_len_\<close> bytes from
  its destination on, so that neighbouring records in the buffer are untouched.
\<close>

theorem log_record_roundtrip:
  assumes "log_ok r"
  shows "deserialize (load_i32 (serialize r m d) d) (serialize r m d) d = Some (Inr r) \<and>
    (\<forall>i. i < d \<or> d + nat (log_tot_len (hdr r)) \<le> i \<longrightarrow> serialize r m d i = m i)"
proof -
  have "mem_at (serialize r m d) d (log_bytes r)" by (simp add: serialize_put)
  then show ?thesis
    using assms deserialize_type_at [OF assms] by (auto simp: serialize_put log_ok_def mem_put_other)
qed

theorem log_record_roundtrip_witness:
  "let r = new_UpdateLogRecord 7 [1, 2] [3] \<lparr>rid_page_no = 1, rid_slot_no = 0\<rparr> ''t''; m = serialize r zero_mem 5
   in deserialize (load_i32 m 5) m 5 = Some (Inr r) \<and> m 4 = 0"
proof -
  have "log_ok (new_UpdateLogRecord 7 [1, 2] [3] \<lparr>rid_page_no = 1, rid_slot_no = 0\<rparr> ''t'')"
    by (rule new_records_ok(6)) (simp_all add: txn_id_ok_def int64_range_def rid_ok_def int32_range_def)
  from log_record_roundtrip [OF this, of zero_mem 5] show ?thesis
    by (simp add: Let_def zero_mem_def)
qed

end
