(* ===== verification/LogManager.thy ===== *)
theory LogManager
  imports LogRecord BufferPool
begin

text \<open>
  The log manager, \<^verbatim>\<open>recovery/log_manager.{h,cpp}\<close>: one buffer that collects serialized records and
  is appended to the log file. The constructor leaves \<open>persist_lsn_\<close> uninitialised, which is the
  parameter \<open>junk\<close> of \<open>logm_init\<close>. The mutex is not recursive: \<open>add_log_to_buffer\<close> holds it and calls
  \<open>flush_log_to_disk\<close>, which locks it again, when the buffer is full; the thread then waits for
  itself, the value \<open>SelfDeadlock\<close>.
\<close>

record logm = bpm +
  log_buffer :: mem
  log_offset :: int
  global_lsn :: int
  persist_lsn :: int

definition logm_init :: "int \<Rightarrow> bpm \<Rightarrow> logm" where
  "logm_init junk b = bpm.extend b (logm.fields zero_mem 0 0 junk)"

text \<open>The sum is not wrapped: \<open>offset_\<close> is at most \<open>LOG_BUFFER_SIZE\<close>, and signed overflow would be undefined.\<close>

definition is_full :: "int \<Rightarrow> 'a logm_scheme \<Rightarrow> bool" where
  "is_full append_size s \<longleftrightarrow> log_offset s + append_size > int LOG_BUFFER_SIZE"

definition write_out :: "('a logm_scheme, unit) op" where
  "write_out = bindE getS (\<lambda>s.
     if log_offset s > 0
     then bindE (write_log (log_buffer s) (nat (log_offset s))) (\<lambda>_.
          updS (\<lambda>s. s\<lparr>log_offset := 0, persist_lsn := c_int (global_lsn s - 1)\<rparr>))
     else ret ())"

definition flush_log_to_disk :: "('a logm_scheme, unit) op" where
  "flush_log_to_disk = write_out"

definition force_flush_log_to_disk :: "int \<Rightarrow> ('a logm_scheme, unit) op" where
  "force_flush_log_to_disk target = bindE getS (\<lambda>s. if persist_lsn s < target then write_out else ret ())"

text \<open>The record gets its number; the object that the caller passed is returned with it.\<close>

definition add_log_to_buffer :: "log_record \<Rightarrow> ('a logm_scheme, int \<times> log_record) op" where
  "add_log_to_buffer log_record = bindE getS (\<lambda>s.
     if is_full (c_int (log_tot_len (hdr log_record))) s then raise SelfDeadlock
     else let l = global_lsn s;
              r = set_lsn l log_record
          in bindE (updS (\<lambda>s. s\<lparr>log_buffer := serialize r (log_buffer s) (nat (log_offset s)),
                               log_offset := c_int (log_offset s + log_tot_len (hdr r)),
                               global_lsn := c_int (l + 1)\<rparr>))
               (\<lambda>_. ret (l, r)))"

definition get_persist_lsn :: "'a logm_scheme \<Rightarrow> int" where
  "get_persist_lsn s = persist_lsn s"

definition get_global_lsn :: "'a logm_scheme \<Rightarrow> int" where
  "get_global_lsn s = global_lsn s"

section \<open>The log file\<close>

definition log_ready :: "'a disk_scheme \<Rightarrow> bool" where
  "log_ready s \<longleftrightarrow> disk_wf s \<and> os_files s LOG_FILE_NAME \<noteq> None \<and>
     (if log_fd s = - 1 then path2fd s LOG_FILE_NAME = None \<and> 0 \<le> os_pick s (dom (os_fds s))
      else map_option fst (os_fds s (log_fd s)) = Some LOG_FILE_NAME)"

definition log_open :: "'a disk_scheme \<Rightarrow> bool" where
  "log_open s \<longleftrightarrow> disk_wf s \<and> log_fd s \<noteq> - 1 \<and> os_files s LOG_FILE_NAME \<noteq> None \<and>
     map_option fst (os_fds s (log_fd s)) = Some LOG_FILE_NAME"

lemma log_open_ready: "log_open s \<Longrightarrow> log_ready s"
  by (simp add: log_open_def log_ready_def)

lemma disk_wf_log: "disk_wf (s\<lparr>log_fd := fd\<rparr>) = disk_wf s"
  by (simp add: disk_wf_def)

lemma ensure_log_fd_opens:
  assumes "log_ready s"
  obtains s' fds p2f f2p fd where "ensure_log_fd s = (Inr (), s')" and "log_open s'"
    and "s' = s\<lparr>os_fds := fds, path2fd := p2f, fd2path := f2p, log_fd := fd\<rparr>"
proof (cases "log_fd s = - 1")
  case False
  then have "log_open s" using assms by (simp add: log_open_def log_ready_def)
  then show ?thesis using that [where s' = s and fds = "os_fds s" and p2f = "path2fd s" and f2p = "fd2path s" and fd = "log_fd s"] False
    by (simp add: ensure_log_fd_def)
next
  case True
  let ?fd = "os_pick s (dom (os_fds s))"
  have r: "disk_wf s" "is_file LOG_FILE_NAME s" "path2fd s LOG_FILE_NAME = None" "0 \<le> ?fd"
    using assms True by (simp_all add: log_ready_def is_file_def)
  let ?o = "s\<lparr>os_fds := (os_fds s)(?fd \<mapsto> (LOG_FILE_NAME, 0)), path2fd := (path2fd s)(LOG_FILE_NAME \<mapsto> ?fd),
      fd2path := (fd2path s)(?fd \<mapsto> LOG_FILE_NAME)\<rparr>"
  have o: "open_file LOG_FILE_NAME s = (Inr ?fd, ?o)"
    using r by (auto simp: open_file_def os_open_def is_file_def Let_def)
  have wf: "disk_wf ?o" using disk_wf_open [OF r(1), of LOG_FILE_NAME] o by simp
  moreover have "?fd \<noteq> - 1" using r(4) by linarith
  moreover have "os_files ?o LOG_FILE_NAME \<noteq> None" using r(2) by (simp add: is_file_def)
  ultimately have "log_open (?o\<lparr>log_fd := ?fd\<rparr>)"
    unfolding log_open_def disk_wf_log by simp
  moreover have "ensure_log_fd s = (Inr (), ?o\<lparr>log_fd := ?fd\<rparr>)"
    using True o by (simp add: ensure_log_fd_def bindE_def)
  ultimately show ?thesis by (intro that) (assumption | simp)+
qed

lemma write_log_appends:
  assumes "log_ready s" and f: "os_files s LOG_FILE_NAME = Some f"
  obtains s' fds p2f f2p fd where "write_log buf n s = (Inr (), s')" and "log_open s'"
    and "s' = s\<lparr>os_files := (os_files s)(LOG_FILE_NAME \<mapsto> file_write f (fsize f) buf n),
                os_fds := fds, path2fd := p2f, fd2path := f2p, log_fd := fd\<rparr>"
proof -
  obtain t fds p2f f2p fd where t: "ensure_log_fd s = (Inr (), t)" "log_open t"
    "t = s\<lparr>os_fds := fds, path2fd := p2f, fd2path := f2p, log_fd := fd\<rparr>"
    by (rule ensure_log_fd_opens [OF assms(1)])
  obtain pos where pos: "os_fds t (log_fd t) = Some (LOG_FILE_NAME, pos)"
    using t(2) by (auto simp: log_open_def)
  have ft: "os_files t LOG_FILE_NAME = Some f" and wf: "disk_wf t"
    using t(2) f by (simp_all add: t(3) log_open_def)
  let ?f = "file_write f (fsize f) buf n"
  let ?u = "t\<lparr>os_files := (os_files t)(LOG_FILE_NAME \<mapsto> ?f), os_fds := (os_fds t)(log_fd t \<mapsto> (LOG_FILE_NAME, fsize f + n))\<rparr>"
  have eq: "write_log buf n s = (Inr (), ?u)"
    using pos ft by (simp add: write_log_def bindE_def t(1) os_lseek_end_def os_write_def Let_def)
  have "disk_wf ?u"
    by (rule disk_wf_write [OF wf pos file_wf_write [OF disk_wf_files [OF wf ft]]])
  then have "log_open ?u" using t(2) by (simp add: log_open_def)
  then show ?thesis
    by (intro that [OF eq, where fds = "os_fds ?u" and p2f = "path2fd ?u" and f2p = "fd2path ?u" and fd = "log_fd ?u"])
       (assumption | rule disk.equality | simp add: t(3))+
qed

section \<open>The log as a list of records\<close>

lemma log_ready_logm [simp]:
  "log_ready (s\<lparr>log_buffer := a, log_offset := b, global_lsn := c\<rparr>) = log_ready s"
  "log_ready (s\<lparr>log_offset := b, persist_lsn := d\<rparr>) = log_ready s"
  by (simp_all add: log_ready_def disk_wf_def)

text \<open>
  \<open>log_rep base l0 on_disk in_buffer s\<close>: the log file holds the records \<open>on_disk\<close> from byte \<open>base\<close>
  on (what was in the file at start-up), the buffer holds \<open>in_buffer\<close>, and together they carry the
  consecutive sequence numbers from \<open>l0\<close> on; \<open>persist_lsn_\<close> is the last number on disk, once
  something was written.
\<close>

definition log_image :: "log_record list \<Rightarrow> byte list" where
  "log_image rs = concat (map log_bytes rs)"

definition log_rep :: "nat \<Rightarrow> int \<Rightarrow> log_record list \<Rightarrow> log_record list \<Rightarrow> 'a logm_scheme \<Rightarrow> bool" where
  "log_rep base l0 on_disk in_buffer s \<longleftrightarrow>
     log_ready s \<and>
     (\<exists>f. os_files s LOG_FILE_NAME = Some f \<and> fsize f = base + length (log_image on_disk) \<and>
        mem_at (fbytes f) base (log_image on_disk)) \<and>
     mem_at (log_buffer s) 0 (log_image in_buffer) \<and>
     log_offset s = int (length (log_image in_buffer)) \<and> log_offset s \<le> int LOG_BUFFER_SIZE \<and>
     list_all log_ok (on_disk @ in_buffer) \<and>
     map (\<lambda>r. lsn (hdr r)) (on_disk @ in_buffer) = map (\<lambda>i. l0 + int i) [0..<length (on_disk @ in_buffer)] \<and>
     0 \<le> l0 \<and> global_lsn s = l0 + int (length (on_disk @ in_buffer)) \<and> global_lsn s < 2 ^ 31 \<and>
     (on_disk \<noteq> [] \<longrightarrow> persist_lsn s = l0 + int (length on_disk) - 1)"

lemma log_image_Nil [simp]: "log_image [] = []"
  by (simp add: log_image_def)

lemma log_image_append [simp]: "log_image (xs @ ys) = log_image xs @ log_image ys"
  by (simp add: log_image_def)

lemma log_image_single [simp]: "log_image [r] = log_bytes r"
  by (simp add: log_image_def)

lemma log_image_empty: "log_image rs = [] \<Longrightarrow> rs = []"
proof (cases rs)
  case (Cons r rs')
  assume "log_image rs = []"
  then have "length (log_bytes r) = 0" using Cons by (simp add: log_image_def)
  then show ?thesis by (simp add: log_bytes_def)
qed simp

lemma write_out_rep:
  assumes rep: "log_rep base l0 ds bs s"
  obtains s' where "write_out s = (Inr (), s')" and "log_rep base l0 (ds @ bs) [] s'"
proof (cases "bs = []")
  case True
  then have "write_out s = (Inr (), s)" using rep by (simp add: write_out_def log_rep_def)
  then show ?thesis using that [of s] rep True by simp
next
  case False
  obtain f where f: "os_files s LOG_FILE_NAME = Some f" "fsize f = base + length (log_image ds)"
    "mem_at (fbytes f) base (log_image ds)"
    using rep by (auto simp: log_rep_def)
  have off: "log_offset s = int (length (log_image bs))" "mem_at (log_buffer s) 0 (log_image bs)"
    "global_lsn s = l0 + int (length (ds @ bs))" "0 \<le> l0" "global_lsn s < 2 ^ 31" "log_ready s"
    using rep by (simp_all add: log_rep_def)
  have pos: "0 < length (log_image bs)" using False log_image_empty by fastforce
  let ?n = "length (log_image bs)"
  obtain t fds p2f f2p fd where t: "write_log (log_buffer s) ?n s = (Inr (), t)" "log_open t"
    "t = s\<lparr>os_files := (os_files s)(LOG_FILE_NAME \<mapsto> file_write f (fsize f) (log_buffer s) ?n),
          os_fds := fds, path2fd := p2f, fd2path := f2p, log_fd := fd\<rparr>"
    by (rule write_log_appends [OF off(6) f(1)])
  let ?u = "t\<lparr>log_offset := 0, persist_lsn := c_int (global_lsn s - 1)\<rparr>"
  have "write_out s = (Inr (), ?u)"
    using off(1) pos t(1) by (simp add: write_out_def bindE_def) (simp add: t(3))
  moreover have "log_rep base l0 (ds @ bs) [] ?u"
  proof -
    let ?f = "file_write f (fsize f) (log_buffer s) ?n"
    have "log_ready ?u" using log_open_ready [OF t(2)] by simp
    moreover have "os_files ?u LOG_FILE_NAME = Some ?f" by (simp add: t(3))
    moreover have "fsize ?f = base + length (log_image (ds @ bs))"
      using pos by (simp add: file_write_def f(2))
    moreover have "mem_at (fbytes ?f) base (log_image (ds @ bs))"
    proof -
      have "mem_at (fbytes ?f) base (log_image ds)"
        by (rule mem_at_cong [OF f(3)]) (use pos in \<open>simp add: file_write_def mem_copy_def f(2)\<close>)
      moreover have "mem_at (fbytes ?f) (base + length (log_image ds)) (log_image bs)"
        using off(2) pos by (simp add: mem_at_def file_write_def f(2))
      ultimately show ?thesis by simp
    qed
    moreover have "c_int (global_lsn s - 1) = l0 + int (length (ds @ bs)) - 1"
      using off(3-5) False by (subst c_int_id) (auto simp: int32_range_def)
    moreover have "global_lsn ?u = global_lsn s" by (simp add: t(3))
    ultimately show ?thesis using rep unfolding log_rep_def by simp
  qed
  ultimately show ?thesis by (rule that)
qed

lemma add_log_rep:
  assumes rep: "log_rep base l0 ds bs s" and ok: "log_ok r" and lsns: "global_lsn s + 1 < 2 ^ 31"
    and room: "log_offset s + log_tot_len (hdr r) \<le> int LOG_BUFFER_SIZE"
  obtains s' where "add_log_to_buffer r s = (Inr (global_lsn s, set_lsn (global_lsn s) r), s')"
    and "log_rep base l0 ds (bs @ [set_lsn (global_lsn s) r]) s'" and "global_lsn s' = global_lsn s + 1"
    and "persist_lsn s' = persist_lsn s"
proof -
  let ?r = "set_lsn (global_lsn s) r" and ?n = "length (log_image bs)"
  have len: "log_tot_len (hdr r) = int (length (log_bytes r))" "length (log_bytes r) < 2 ^ 31"
    using ok by (simp_all add: log_ok_def)
  have off: "log_offset s = int ?n" "0 \<le> l0" "global_lsn s = l0 + int (length (ds @ bs))"
    using rep by (simp_all add: log_rep_def)
  have g: "int32_range (global_lsn s)" "int32_range (global_lsn s + 1)"
    using off lsns by (auto simp: int32_range_def)
  have "int32_range (log_tot_len (hdr r))" "int32_range (log_offset s + log_tot_len (hdr r))"
    using len off room by (auto simp: int32_range_def rmdb_consts)
  then have c: "c_int (log_tot_len (hdr r)) = log_tot_len (hdr r)"
    "c_int (log_offset s + log_tot_len (hdr r)) = log_offset s + log_tot_len (hdr r)"
    by simp_all
  let ?s = "s\<lparr>log_buffer := mem_put (log_buffer s) ?n (log_bytes ?r), log_offset := log_offset s + log_tot_len (hdr r),
      global_lsn := global_lsn s + 1\<rparr>"
  have eq: "add_log_to_buffer r s = (Inr (global_lsn s, ?r), ?s)"
    using room c g off(1) by (simp add: add_log_to_buffer_def is_full_def Let_def serialize_put)
  have "log_rep base l0 ds (bs @ [?r]) ?s"
  proof -
    have "log_ready ?s" using rep by (simp add: log_rep_def)
    moreover have "mem_at (log_buffer s) 0 (log_image bs)" using rep by (simp add: log_rep_def)
    then have "mem_at (mem_put (log_buffer s) ?n (log_bytes ?r)) 0 (log_image bs)"
      by (rule mem_at_cong) (simp add: mem_put_other)
    moreover have "log_offset s + log_tot_len (hdr r) = int (length (log_image (bs @ [?r])))"
      using off(1) len(1) by simp
    moreover have "log_ok ?r" by (rule set_lsn_ok [OF ok g(1)])
    ultimately show ?thesis
      using rep room lsns off(2,3) unfolding log_rep_def by simp
  qed
  then show ?thesis using that [OF eq] by simp
qed

text \<open>What the file holds parses back into the records that were added, in order.\<close>

lemma log_rep_file:
  assumes "log_rep base l0 ds bs s" and "length ds \<le> n"
  obtains f where "os_files s LOG_FILE_NAME = Some f" and "fsize f = base + length (log_image ds)" and
    "parse_all parse_log (\<lambda>r. length (log_bytes r)) n (fbytes f) base (fsize f) = ds"
proof -
  obtain f where f: "os_files s LOG_FILE_NAME = Some f" "fsize f = base + length (log_image ds)"
    "mem_at (fbytes f) base (log_image ds)" "list_all log_ok ds"
    using assms by (auto simp: log_rep_def)
  from lc.parse_all_encode [OF f(4) f(3) [unfolded log_image_def] assms(2)] that f show ?thesis
    by (simp add: log_image_def)
qed

section \<open>Runs of the log manager\<close>

text \<open>\<open>log_run s rs s'\<close>: calls that led from \<open>s\<close> to \<open>s'\<close> and returned; \<open>rs\<close> are the records they added.\<close>

inductive log_step :: "'a logm_scheme \<Rightarrow> log_record list \<Rightarrow> 'a logm_scheme \<Rightarrow> bool" where
  step_add: "log_ok r \<Longrightarrow> global_lsn s + 1 < 2 ^ 31 \<Longrightarrow> add_log_to_buffer r s = (Inr (l, r'), s') \<Longrightarrow> log_step s [r'] s'"
| step_flush: "flush_log_to_disk s = (Inr (), s') \<Longrightarrow> log_step s [] s'"
| step_force: "force_flush_log_to_disk l s = (Inr (), s') \<Longrightarrow> log_step s [] s'"

inductive log_run :: "'a logm_scheme \<Rightarrow> log_record list \<Rightarrow> 'a logm_scheme \<Rightarrow> bool" where
  log_run_nil: "log_run s [] s"
| log_run_step: "log_run s rs t \<Longrightarrow> log_step t rs' u \<Longrightarrow> log_run s (rs @ rs') u"

inductive_cases log_stepE: "log_step s rs s'"

lemma add_log_full:
  assumes "int LOG_BUFFER_SIZE < log_offset s + log_tot_len (hdr r)" and "log_ok r"
  shows "add_log_to_buffer r s = (Inl SelfDeadlock, s)"
proof -
  have "int32_range (log_tot_len (hdr r))" using assms(2) by (auto simp: log_ok_def int32_range_def)
  then show ?thesis using assms(1) by (simp add: add_log_to_buffer_def is_full_def)
qed

lemma log_step_rep:
  assumes "log_step s rs s'" and rep: "log_rep base l0 ds bs s"
  obtains ds' bs' where "log_rep base l0 ds' bs' s'" and "ds' @ bs' = ds @ bs @ rs" and "length ds \<le> length ds'"
  using assms(1)
proof cases
  case (step_add r l r')
  have room: "log_offset s + log_tot_len (hdr r) \<le> int LOG_BUFFER_SIZE"
  proof (rule ccontr)
    assume "\<not> log_offset s + log_tot_len (hdr r) \<le> int LOG_BUFFER_SIZE"
    then have "add_log_to_buffer r s = (Inl SelfDeadlock, s)" by (intro add_log_full step_add(2)) simp
    with step_add(4) show False by simp
  qed
  obtain t where t: "add_log_to_buffer r s = (Inr (global_lsn s, set_lsn (global_lsn s) r), t)"
    "log_rep base l0 ds (bs @ [set_lsn (global_lsn s) r]) t"
    by (rule add_log_rep [OF rep step_add(2,3) room])
  have "r' = set_lsn (global_lsn s) r" "t = s'" using t(1) step_add(4) by auto
  with t(2) step_add(1) that [of ds "bs @ rs"] show ?thesis by simp
next
  case step_flush
  obtain t where "write_out s = (Inr (), t)" "log_rep base l0 (ds @ bs) [] t" by (rule write_out_rep [OF rep])
  with step_flush that [of "ds @ bs" "[]"] show ?thesis by (simp add: flush_log_to_disk_def)
next
  case (step_force l)
  obtain t where "write_out s = (Inr (), t)" "log_rep base l0 (ds @ bs) [] t" by (rule write_out_rep [OF rep])
  with step_force that [of "ds @ bs" "[]"] that [of ds bs] rep show ?thesis
    by (auto simp: force_flush_log_to_disk_def split: if_splits)
qed

lemma log_run_rep:
  "log_run s rs s' \<Longrightarrow> log_rep base l0 [] [] s \<Longrightarrow> \<exists>ds bs. log_rep base l0 ds bs s' \<and> ds @ bs = rs"
proof (induction rule: log_run.induct)
  case (log_run_step s rs t rs' u)
  then obtain ds bs where "log_rep base l0 ds bs t" "ds @ bs = rs" by blast
  with log_step_rep [OF log_run_step.hyps(2)] show ?case by (metis append.assoc)
qed auto

text \<open>The state after the constructor, with the log file already there.\<close>

lemma logm_init_sel [simp]:
  "log_offset (logm_init junk b) = 0" "global_lsn (logm_init junk b) = 0" "persist_lsn (logm_init junk b) = junk"
  "os_files (logm_init junk b) = os_files b"
  by (simp_all add: logm_init_def logm.fields_def bpm.extend_def)

lemma logm_init_ready [simp]: "log_ready (logm_init junk b) = log_ready b"
  by (simp add: log_ready_def disk_wf_def logm_init_def logm.fields_def bpm.extend_def)

lemma logm_init_rep:
  assumes "log_ready b" and "os_files b LOG_FILE_NAME = Some f"
  shows "log_rep (fsize f) 0 [] [] (logm_init junk b)"
  using assms by (simp add: log_rep_def)

section \<open>Properties\<close>

text \<open>
  C6: at every moment of a run of the log manager the records added so far are numbered 0, 1, 2 and so on in the order
  they were added, and they are split at one point \<open>k\<close>: the first \<open>k\<close> make up exactly what the log file has behind the
  place where it ended at start-up, so that reading it record by record to its end gives back these \<open>k\<close> records and no
  byte is left over; the others are exactly what waits in the log buffer.
\<close>

theorem log_file_is_prefix:
  assumes "log_ready b" and "os_files b LOG_FILE_NAME = Some f0" and "log_run (logm_init junk b) rs s"
  shows "\<exists>k f. os_files s LOG_FILE_NAME = Some f \<and> k \<le> length rs \<and>
    fsize f = fsize f0 + length (log_image (take k rs)) \<and>
    parse_all parse_log (\<lambda>r. length (log_bytes r)) (length rs) (fbytes f) (fsize f0) (fsize f) = take k rs \<and>
    mem_at (log_buffer s) 0 (log_image (drop k rs)) \<and> log_offset s = int (length (log_image (drop k rs))) \<and>
    map (\<lambda>r. lsn (hdr r)) rs = map int [0..<length rs] \<and> global_lsn s = int (length rs)"
proof -
  obtain ds bs where rep: "log_rep (fsize f0) 0 ds bs s" and rs: "ds @ bs = rs"
    using log_run_rep [OF assms(3) logm_init_rep [OF assms(1,2)]] by blast
  have n: "length ds \<le> length rs" using rs by auto
  obtain f where f: "os_files s LOG_FILE_NAME = Some f" "fsize f = fsize f0 + length (log_image ds)"
    "parse_all parse_log (\<lambda>r. length (log_bytes r)) (length rs) (fbytes f) (fsize f0) (fsize f) = ds"
    by (rule log_rep_file [OF rep n])
  have split: "take (length ds) rs = ds" "drop (length ds) rs = bs" using rs by auto
  have "mem_at (log_buffer s) 0 (log_image bs)" "log_offset s = int (length (log_image bs))"
    "map (\<lambda>r. lsn (hdr r)) rs = map int [0..<length rs]" "global_lsn s = int (length rs)"
    using rep rs by (simp_all add: log_rep_def)
  with f n show ?thesis by (intro exI [of _ "length ds"] exI [of _ f]) (simp add: split)
qed

definition demo_log_state :: logm where
  "demo_log_state = logm_init 0 (bpm_init 1 (\<lambda>_. 0) empty_log_disk)"

lemma demo_log_ready: "log_ready (bpm_init 1 (\<lambda>_. 0) empty_log_disk)"
proof -
  have "log_ready (bpm_init 1 (\<lambda>_. 0) empty_log_disk) = log_ready empty_log_disk"
    by (simp add: log_ready_def disk_wf_def bpm_init_def bpm.fields_def disk.extend_def)
  moreover have "log_ready empty_log_disk"
    using empty_log_disk_wf by (simp add: log_ready_def empty_log_disk_def)
  ultimately show ?thesis by simp
qed

lemma demo_log_file: "os_files (bpm_init 1 (\<lambda>_. 0) empty_log_disk) LOG_FILE_NAME = Some empty_file"
  by (simp add: bpm_init_def bpm.fields_def disk.extend_def empty_log_disk_def)

lemma demo_log_rep: "log_rep 0 0 [] [] demo_log_state"
  using logm_init_rep [OF demo_log_ready demo_log_file] by (simp add: demo_log_state_def empty_file_def)

text \<open>One record added: it is numbered 0 and waits in the buffer, with \<open>persist_lsn_\<close> still 0.\<close>

lemma demo_log_add:
  obtains s :: logm where "add_log_to_buffer (new_BeginLogRecord 5) demo_log_state = (Inr (0, set_lsn 0 (new_BeginLogRecord 5)), s)"
    and "log_rep 0 0 [] [set_lsn 0 (new_BeginLogRecord 5)] s" and "persist_lsn s = 0"
proof -
  have ok: "log_ok (new_BeginLogRecord 5)" by (rule new_records_ok) (simp add: txn_id_ok_def int64_range_def)
  have sel: "global_lsn demo_log_state = 0" "log_offset demo_log_state = 0" "persist_lsn demo_log_state = 0"
    by (simp_all add: demo_log_state_def)
  have len: "log_tot_len (hdr (new_BeginLogRecord 5)) = 24"
    by (simp add: new_BeginLogRecord_def new_header_def log_offsets c_uint32_def)
  obtain s where "add_log_to_buffer (new_BeginLogRecord 5) demo_log_state =
      (Inr (global_lsn demo_log_state, set_lsn (global_lsn demo_log_state) (new_BeginLogRecord 5)), s)"
    "log_rep 0 0 [] ([] @ [set_lsn (global_lsn demo_log_state) (new_BeginLogRecord 5)]) s"
    "persist_lsn s = persist_lsn demo_log_state"
    by (rule add_log_rep [OF demo_log_rep ok]) (use sel len in \<open>simp_all add: rmdb_consts\<close>)
  then show ?thesis using sel that by simp
qed

text \<open>The run that adds one record.\<close>

theorem log_file_is_prefix_witness:
  "\<exists>(s :: logm) rs f k. log_run demo_log_state rs s \<and> length rs = 1 \<and> os_files s LOG_FILE_NAME = Some f \<and>
    fsize f = length (log_image (take k rs)) \<and>
    parse_all parse_log (\<lambda>r. length (log_bytes r)) (length rs) (fbytes f) 0 (fsize f) = take k rs"
proof -
  obtain s :: logm where s: "add_log_to_buffer (new_BeginLogRecord 5) demo_log_state = (Inr (0, set_lsn 0 (new_BeginLogRecord 5)), s)"
    by (rule demo_log_add)
  have ok: "log_ok (new_BeginLogRecord 5)" by (rule new_records_ok) (simp add: txn_id_ok_def int64_range_def)
  have "log_step demo_log_state [set_lsn 0 (new_BeginLogRecord 5)] s"
    by (rule step_add [OF ok _ s]) (simp add: demo_log_state_def)
  from log_run_step [OF log_run_nil this]
  have run: "log_run demo_log_state [set_lsn 0 (new_BeginLogRecord 5)] s" by simp
  have size: "fsize empty_file = 0" by (simp add: empty_file_def)
  let ?rs = "[set_lsn 0 (new_BeginLogRecord 5)]"
  obtain k f where "os_files s LOG_FILE_NAME = Some f" "fsize f = fsize empty_file + length (log_image (take k ?rs))"
    "parse_all parse_log (\<lambda>r. length (log_bytes r)) (length ?rs) (fbytes f) (fsize empty_file) (fsize f) = take k ?rs"
    using log_file_is_prefix [OF demo_log_ready demo_log_file run [unfolded demo_log_state_def]] by blast
  moreover have "length ?rs = 1" by simp
  ultimately show ?thesis using run size by (metis add_0)
qed

text \<open>
  C7: the write-ahead rule. Once the log manager has written to the log, or if \<open>persist_lsn_\<close> started
  below all sequence numbers, then after \<open>force_flush_log_to_disk\<close> every record with a sequence
  number up to the requested one is in the log file, and no record was lost or reordered.
\<close>

theorem force_flush_writes_ahead:
  assumes "log_rep base l0 ds bs s" and "ds \<noteq> [] \<or> persist_lsn s < l0"
  shows "\<exists>s' ds' bs'. force_flush_log_to_disk target s = (Inr (), s') \<and> log_rep base l0 ds' bs' s' \<and>
    ds' @ bs' = ds @ bs \<and> (\<forall>r \<in> set (ds @ bs). lsn (hdr r) \<le> target \<longrightarrow> r \<in> set ds')"
proof (cases "persist_lsn s < target")
  case True
  obtain t where "write_out s = (Inr (), t)" "log_rep base l0 (ds @ bs) [] t" by (rule write_out_rep [OF assms(1)])
  with True show ?thesis
    by (intro exI [of _ t] exI [of _ "ds @ bs"] exI [of _ "[]"]) (simp add: force_flush_log_to_disk_def)
next
  case False
  have lsns: "map (\<lambda>r. lsn (hdr r)) (ds @ bs) = map (\<lambda>i. l0 + int i) [0..<length (ds @ bs)]"
    and p: "ds \<noteq> [] \<longrightarrow> persist_lsn s = l0 + int (length ds) - 1"
    using assms(1) by (simp_all add: log_rep_def)
  have "target < l0 + int (length ds)" using False p assms(2) by (cases "ds = []") auto
  moreover have "l0 + int (length ds) \<le> lsn (hdr r)" if "r \<in> set bs" for r
  proof -
    obtain i where i: "i < length bs" "r = bs ! i" using \<open>r \<in> set bs\<close> by (metis in_set_conv_nth)
    have "map (\<lambda>r. lsn (hdr r)) (ds @ bs) ! (length ds + i) = l0 + int (length ds + i)"
      unfolding lsns using i by simp
    then show ?thesis using i by (simp add: nth_append)
  qed
  ultimately have "\<forall>r \<in> set (ds @ bs). lsn (hdr r) \<le> target \<longrightarrow> r \<in> set ds" by fastforce
  with False assms(1) show ?thesis
    by (intro exI [of _ s] exI [of _ ds] exI [of _ bs]) (simp add: force_flush_log_to_disk_def)
qed

theorem force_flush_writes_ahead_witness:
  "\<exists>(s :: logm) s' ds'. persist_lsn s = - 1 \<and> force_flush_log_to_disk 0 s = (Inr (), s') \<and>
    log_rep 0 0 ds' [] s' \<and> set_lsn 0 (new_BeginLogRecord 5) \<in> set ds'"
proof -
  obtain s :: logm where s: "log_rep 0 0 [] [set_lsn 0 (new_BeginLogRecord 5)] s" by (rule demo_log_add)
  let ?s = "s\<lparr>persist_lsn := - 1\<rparr>" and ?r = "set_lsn 0 (new_BeginLogRecord 5)"
  have rep: "log_rep 0 0 [] [?r] ?s"
    using s by (simp add: log_rep_def log_ready_def disk_wf_def)
  have zero: "lsn (hdr ?r) = 0" by simp
  from force_flush_writes_ahead [OF rep, of 0] obtain s' ds' bs' where
    "force_flush_log_to_disk 0 ?s = (Inr (), s')" "log_rep 0 0 ds' bs' s'" "ds' @ bs' = [?r]"
    "\<forall>r \<in> set [?r]. lsn (hdr r) \<le> 0 \<longrightarrow> r \<in> set ds'"
    by auto
  moreover from this zero have "ds' = [?r]" "bs' = []" by (auto simp: append_eq_Cons_conv)
  ultimately show ?thesis by (intro exI [of _ ?s] exI [of _ s'] exI [of _ ds']) simp
qed

text \<open>
  The write-ahead rule fails when nothing was flushed yet and the uninitialised \<open>persist_lsn_\<close>
  happens to be at least the requested number, for example 0: \<open>force_flush_log_to_disk\<close> then returns
  without writing, and the records stay in memory only.
\<close>

theorem force_flush_misses_uninitialised:
  assumes "log_rep base l0 [] bs s" and "target \<le> persist_lsn s"
  shows "force_flush_log_to_disk target s = (Inr (), s) \<and>
    (\<exists>f. os_files s LOG_FILE_NAME = Some f \<and> fsize f = base)"
  using assms by (auto simp: force_flush_log_to_disk_def log_rep_def)

theorem force_flush_misses_uninitialised_witness:
  "\<exists>(s :: logm) f. log_rep 0 0 [] [set_lsn 0 (new_BeginLogRecord 5)] s \<and>
    force_flush_log_to_disk 0 s = (Inr (), s) \<and> os_files s LOG_FILE_NAME = Some f \<and> fsize f = 0"
proof -
  obtain s :: logm where s: "log_rep 0 0 [] [set_lsn 0 (new_BeginLogRecord 5)] s" "persist_lsn s = 0"
    by (rule demo_log_add)
  with force_flush_misses_uninitialised [OF s(1), of 0] show ?thesis by auto
qed

text \<open>
  A record that does not fit into the rest of the log buffer is never added: the thread blocks
  on the mutex it holds, because \<open>add_log_to_buffer\<close> calls \<open>flush_log_to_disk\<close>, which locks it again.
  The buffer is not flushed and nothing is written.
\<close>

theorem add_log_to_full_buffer_deadlocks:
  assumes "log_ok r"
  shows "(fst (add_log_to_buffer r s) = Inl SelfDeadlock) \<longleftrightarrow> int LOG_BUFFER_SIZE < log_offset s + log_tot_len (hdr r)"
proof (cases "int LOG_BUFFER_SIZE < log_offset s + log_tot_len (hdr r)")
  case True
  then show ?thesis using add_log_full [OF True assms] by simp
next
  case False
  have "int32_range (log_tot_len (hdr r))" using assms by (auto simp: log_ok_def int32_range_def)
  then show ?thesis using False by (simp add: add_log_to_buffer_def is_full_def Let_def)
qed

theorem add_log_to_full_buffer_deadlocks_witness:
  "fst (add_log_to_buffer (new_BeginLogRecord 5) (demo_log_state\<lparr>log_offset := int LOG_BUFFER_SIZE - 23\<rparr>)) = Inl SelfDeadlock"
proof -
  have ok: "log_ok (new_BeginLogRecord 5)" by (rule new_records_ok) (simp add: txn_id_ok_def int64_range_def)
  have len: "log_tot_len (hdr (new_BeginLogRecord 5)) = 24"
    by (simp add: new_BeginLogRecord_def new_header_def log_offsets c_uint32_def)
  show ?thesis unfolding add_log_to_full_buffer_deadlocks [OF ok] len by simp
qed

end
