(* ===== verification/Recovery.thy ===== *)
theory Recovery
  imports LogManager
begin

text \<open>
  Crash recovery, \<^verbatim>\<open>recovery/log_recovery.{h,cpp}\<close>. \<open>analyze\<close> scans the log file in pieces of
  the size of the log buffer and fills the active transaction table and the dirty page table, which
  are globals in the code and a record here. \<open>redo\<close> and \<open>undo\<close> only print what they would do;
  output is not modelled, so they change nothing.

  A corrupt length field can make either scan loop for ever, so the loops are partial functions
  into \<open>option\<close>, and \<open>None\<close> is a scan that does not end. The analysis prints the name of each record's
  type, which is undefined for a type outside the enumeration; such a record is skipped here.
\<close>

section \<open>Analysis\<close>

record recovery =
  dirty_page_table :: "page_id \<rightharpoonup> int list"
  active_transaction_table :: "int \<rightharpoonup> int"

definition recovery_init :: recovery where
  "recovery_init = \<lparr>dirty_page_table = Map.empty, active_transaction_table = Map.empty\<rparr>"

definition add_redo_log :: "rid \<Rightarrow> int \<Rightarrow> recovery \<Rightarrow> recovery" where
  "add_redo_log r l st =
     (let page_id = \<lparr>pid_fd = 0, pid_no = rid_page_no r\<rparr>;
          logs = (case dirty_page_table st page_id of None \<Rightarrow> [] | Some ls \<Rightarrow> ls)
      in st\<lparr>dirty_page_table := (dirty_page_table st)(page_id \<mapsto> logs @ [l])\<rparr>)"

definition analyze_record :: "mem \<Rightarrow> int \<Rightarrow> recovery \<Rightarrow> recovery" where
  "analyze_record m current_offset st =
     (let src = nat current_offset;
          ty = load_i32 m src;
          l = load_i32 m (src + OFFSET_LSN);
          txn_id = load_i64 m (src + OFFSET_LOG_TID);
          data_offset = current_offset + int OFFSET_LOG_DATA
      in if ty = log_type_code BEGIN
         then st\<lparr>active_transaction_table := (active_transaction_table st)(txn_id \<mapsto> l)\<rparr>
         else if ty = log_type_code COMMIT \<or> ty = log_type_code ABORT
         then st\<lparr>active_transaction_table := (active_transaction_table st)(txn_id := None)\<rparr>
         else if ty = log_type_code INSERT \<or> ty = log_type_code DELETE
         then let record_size = load_i32 m (nat data_offset);
                  data_offset = c_int (data_offset + 4 + record_size)
              in add_redo_log (load_rid m (nat data_offset)) l st
         else if ty = log_type_code UPDATE
         then let old_record_size = load_i32 m (nat data_offset);
                  data_offset = c_int (data_offset + 4 + old_record_size);
                  new_record_size = load_i32 m (nat data_offset);
                  data_offset = c_int (data_offset + 4 + new_record_size)
              in add_redo_log (load_rid m (nat data_offset)) l st
         else st)"

partial_function (option) analyze_chunk :: "mem \<Rightarrow> int \<Rightarrow> int \<Rightarrow> recovery \<Rightarrow> recovery option" where
  "analyze_chunk m bytes_read current_offset st =
     (if current_offset < bytes_read
      then analyze_chunk m bytes_read
             (c_int (current_offset + load_u32 m (nat current_offset + OFFSET_LOG_TOT_LEN)))
             (analyze_record m current_offset st)
      else Some st)"

partial_function (option) analyze_from ::
  "mem \<Rightarrow> int \<Rightarrow> recovery \<Rightarrow> 'a disk_scheme \<Rightarrow> ((db_error + recovery) \<times> 'a disk_scheme) option" where
  "analyze_from lbuf offset st d =
     (case read_log lbuf (int LOG_BUFFER_SIZE) offset d of
        (Inl e, d') \<Rightarrow> Some (Inl e, d')
      | (Inr (bytes_read, buf), d') \<Rightarrow>
          if bytes_read \<le> 0 then Some (Inr st, d')
          else (case analyze_chunk buf bytes_read 0 st of
                  None \<Rightarrow> None
                | Some st' \<Rightarrow> analyze_from buf (c_int (offset + bytes_read)) st' d'))"

text \<open>\<open>junk\<close> is the initial content of the stack buffer.\<close>

definition analyze :: "mem \<Rightarrow> 'a disk_scheme \<Rightarrow> ((db_error + recovery) \<times> 'a disk_scheme) option" where
  "analyze junk d = analyze_from junk 0 recovery_init d"

definition redo :: "recovery \<Rightarrow> ('a disk_scheme, unit) op" where
  "redo st = ret ()"

definition undo :: "recovery \<Rightarrow> ('a disk_scheme, unit) op" where
  "undo st = ret ()"

definition recover :: "mem \<Rightarrow> 'a disk_scheme \<Rightarrow> ((db_error + recovery) \<times> 'a disk_scheme) option" where
  "recover junk d =
     (case analyze junk d of
        None \<Rightarrow> None
      | Some (Inl e, d') \<Rightarrow> Some (Inl e, d')
      | Some (Inr st, d') \<Rightarrow> Some (bindE (redo st) (\<lambda>_. bindE (undo st) (\<lambda>_. ret st)) d'))"

section \<open>Looking up a record by its sequence number\<close>

text \<open>
  One scan of a piece: \<open>Some (Some r)\<close> is a \<open>return\<close> from inside the loop, \<open>Some None\<close> a \<open>break\<close>.
  The comparison of the new offset is in unsigned arithmetic.
\<close>

definition found_record :: "(db_error + log_record) option \<Rightarrow> db_error + log_record option" where
  "found_record x = (case x of None \<Rightarrow> Inr None | Some (Inl e) \<Rightarrow> Inl e | Some (Inr r) \<Rightarrow> Inr (Some r))"

partial_function (option) find_in_chunk ::
  "mem \<Rightarrow> int \<Rightarrow> int \<Rightarrow> int \<Rightarrow> (db_error + log_record option) option option" where
  "find_in_chunk m bytes_read target current_offset =
     (if \<not> current_offset < bytes_read then Some None
      else if current_offset + int LOG_HEADER_SIZE > bytes_read then Some None
      else if load_i32 m (nat current_offset + OFFSET_LSN) = target
      then Some (Some (found_record (deserialize (load_i32 m (nat current_offset)) m (nat current_offset))))
      else (let len = load_u32 m (nat current_offset + OFFSET_LOG_TOT_LEN)
            in if len = 0 \<or> c_uint32 (current_offset + len) > bytes_read then Some None
               else find_in_chunk m bytes_read target (c_int (current_offset + len))))"

primrec read_log_record_loop ::
  "nat \<Rightarrow> int \<Rightarrow> mem \<Rightarrow> int \<Rightarrow> 'a disk_scheme \<Rightarrow> ((db_error + log_record option) \<times> 'a disk_scheme) option" where
  "read_log_record_loop 0 target lbuf offset d = Some (Inr None, d)"
| "read_log_record_loop (Suc k) target lbuf offset d =
     (case read_log lbuf (int LOG_BUFFER_SIZE) offset d of
        (Inl e, d') \<Rightarrow> Some (Inl e, d')
      | (Inr (bytes_read, buf), d') \<Rightarrow>
          if bytes_read \<le> 0 then Some (Inr None, d')
          else (case find_in_chunk buf bytes_read target 0 of
                  None \<Rightarrow> None
                | Some (Some r) \<Rightarrow> Some (r, d')
                | Some None \<Rightarrow> read_log_record_loop k target buf (c_int (offset + bytes_read)) d'))"

definition read_log_record :: "mem \<Rightarrow> int \<Rightarrow> 'a disk_scheme \<Rightarrow> ((db_error + log_record option) \<times> 'a disk_scheme) option" where
  "read_log_record junk target d = read_log_record_loop 1000 target junk 0 d"

section \<open>The analysis as a fold over the records\<close>

fun record_effect :: "log_record \<Rightarrow> recovery \<Rightarrow> recovery" where
  "record_effect (BeginLogRecord h) st =
     st\<lparr>active_transaction_table := (active_transaction_table st)(log_tid h \<mapsto> lsn h)\<rparr>"
| "record_effect (CommitLogRecord h) st =
     st\<lparr>active_transaction_table := (active_transaction_table st)(log_tid h := None)\<rparr>"
| "record_effect (AbortLogRecord h) st =
     st\<lparr>active_transaction_table := (active_transaction_table st)(log_tid h := None)\<rparr>"
| "record_effect (InsertLogRecord h v r t) st = add_redo_log r (lsn h) st"
| "record_effect (DeleteLogRecord h v r t) st = add_redo_log r (lsn h) st"
| "record_effect (UpdateLogRecord h v w r t) st = add_redo_log r (lsn h) st"

lemma header_loads:
  assumes "log_ok r" and "mem_at m d (log_bytes r)"
  shows "load_i32 m d = log_type_code (kind_of r)" and "load_i32 m (d + OFFSET_LSN) = lsn (hdr r)"
    and "load_i64 m (d + OFFSET_LOG_TID) = log_tid (hdr r)"
    and "load_u32 m (d + OFFSET_LOG_TOT_LEN) = int (length (log_bytes r))"
proof -
  have h: "deserialize_header m d = hdr r" by (rule log_ok_header(1) [OF assms])
  show "load_i32 m d = log_type_code (kind_of r)" by (rule log_type_at [OF assms])
  show "load_i32 m (d + OFFSET_LSN) = lsn (hdr r)" "load_i64 m (d + OFFSET_LOG_TID) = log_tid (hdr r)"
    unfolding h [symmetric] by (simp_all add: deserialize_header_def)
  have "load_u32 m (d + OFFSET_LOG_TOT_LEN) = log_tot_len (hdr r)"
    unfolding h [symmetric] by (simp add: deserialize_header_def)
  then show "load_u32 m (d + OFFSET_LOG_TOT_LEN) = int (length (log_bytes r))"
    using assms(1) by (simp add: log_ok_def)
qed

lemma record_size_at: "mem_at m d (record_bytes v) \<Longrightarrow> length v < 2 ^ 31 \<Longrightarrow> load_i32 m d = int (length v)"
  by (rule load_i32_at) (simp_all add: record_bytes_def int32_range_def)

lemma analyze_value_at:
  assumes "mem_at m (d + 24) (record_bytes v @ rid_bytes rd @ name_bytes t)" and "rid_ok rd"
    and "d + 44 + length v + length t < 2 ^ 31"
  shows "load_rid m (nat (c_int (int d + int OFFSET_LOG_DATA + 4 + load_i32 m (nat (int d + int OFFSET_LOG_DATA))))) = rd"
proof -
  have "load_i32 m (d + 24) = int (length v)" by (rule record_size_at) (use assms in simp_all)
  moreover have "load_rid m (d + 28 + length v) = rd" by (rule load_rid_at) (use assms in \<open>simp_all add: ac_simps\<close>)
  moreover have "c_int (int d + 24 + 4 + int (length v)) = int (d + 28 + length v)"
    using assms(3) by (subst c_int_id) (simp_all add: int32_range_def)
  moreover have "nat (int d + int OFFSET_LOG_DATA) = d + 24" by (simp add: log_offsets nat_add_distrib)
  moreover have "nat (int d + 28 + int (length v)) = d + 28 + length v" by (simp add: nat_add_distrib)
  ultimately show ?thesis by (simp add: log_offsets)
qed

lemma analyze_update_at:
  assumes "mem_at m (d + 24) (record_bytes v @ record_bytes w @ rid_bytes rd @ name_bytes t)" and "rid_ok rd"
    and "d + 48 + length v + length w + length t < 2 ^ 31"
  shows "(let data_offset = int d + int OFFSET_LOG_DATA;
              old_record_size = load_i32 m (nat data_offset);
              data_offset = c_int (data_offset + 4 + old_record_size);
              new_record_size = load_i32 m (nat data_offset);
              data_offset = c_int (data_offset + 4 + new_record_size)
          in load_rid m (nat data_offset)) = rd"
proof -
  have at: "mem_at m (d + 24) (record_bytes v)" "mem_at m (d + 28 + length v) (record_bytes w)"
    "mem_at m (d + 32 + length v + length w) (rid_bytes rd)"
    using assms(1) by (simp_all add: ac_simps)
  have "load_i32 m (d + 24) = int (length v)" by (rule record_size_at [OF at(1)]) (use assms in simp)
  moreover have "load_i32 m (d + 28 + length v) = int (length w)" by (rule record_size_at [OF at(2)]) (use assms in simp)
  moreover have "load_rid m (d + 32 + length v + length w) = rd" by (rule load_rid_at [OF at(3) assms(2)])
  moreover have "c_int (int d + 24 + 4 + int (length v)) = int (d + 28 + length v)"
    using assms(3) by (subst c_int_id) (simp_all add: int32_range_def)
  moreover have "c_int (int (d + 28 + length v) + 4 + int (length w)) = int (d + 32 + length v + length w)"
    using assms(3) by (subst c_int_id) (simp_all add: int32_range_def)
  moreover have "nat (int d + int OFFSET_LOG_DATA) = d + 24" by (simp add: log_offsets nat_add_distrib)
  moreover have "nat (int d + 28 + int (length v)) = d + 28 + length v"
    "nat (int d + 32 + int (length v) + int (length w)) = d + 32 + length v + length w"
    by (simp_all add: nat_add_distrib)
  ultimately show ?thesis unfolding Let_def by (simp add: log_offsets)
qed

lemma analyze_record_at:
  assumes ok: "log_ok r" and at: "mem_at m d (log_bytes r)" and small: "d + length (log_bytes r) < 2 ^ 31"
  shows "analyze_record m (int d) st = record_effect r st"
proof -
  note ld = header_loads [OF ok at] and body = log_ok_header(3) [OF ok at]
  show ?thesis
  proof (cases r)
    case (InsertLogRecord h v rd t)
    have "load_rid m (nat (c_int (int d + int OFFSET_LOG_DATA + 4 + load_i32 m (nat (int d + int OFFSET_LOG_DATA))))) = rd"
      by (rule analyze_value_at) (use body ok small InsertLogRecord in \<open>simp_all add: log_ok_def log_bytes_def\<close>)
    then show ?thesis using ld InsertLogRecord
      by (simp add: analyze_record_def Let_def del: log_type_code.simps)
  next
    case (DeleteLogRecord h v rd t)
    have "load_rid m (nat (c_int (int d + int OFFSET_LOG_DATA + 4 + load_i32 m (nat (int d + int OFFSET_LOG_DATA))))) = rd"
      by (rule analyze_value_at) (use body ok small DeleteLogRecord in \<open>simp_all add: log_ok_def log_bytes_def\<close>)
    then show ?thesis using ld DeleteLogRecord
      by (simp add: analyze_record_def Let_def del: log_type_code.simps)
  next
    case (UpdateLogRecord h v w rd t)
    note up = analyze_update_at [of m d v w rd t, unfolded Let_def]
    have "load_rid m (nat (c_int (c_int (int d + int OFFSET_LOG_DATA + 4 + load_i32 m (nat (int d + int OFFSET_LOG_DATA))) + 4 +
        load_i32 m (nat (c_int (int d + int OFFSET_LOG_DATA + 4 + load_i32 m (nat (int d + int OFFSET_LOG_DATA)))))))) = rd"
      by (rule up) (use body ok small UpdateLogRecord in \<open>simp_all add: log_ok_def log_bytes_def\<close>)
    then show ?thesis using ld UpdateLogRecord
      by (simp add: analyze_record_def Let_def del: log_type_code.simps)
  qed (use ld in \<open>simp_all add: analyze_record_def Let_def del: log_type_code.simps\<close>)
qed

lemma analyze_chunk_image:
  "list_all log_ok rs \<Longrightarrow> mem_at m d (log_image rs) \<Longrightarrow> d + length (log_image rs) < 2 ^ 31 \<Longrightarrow>
    analyze_chunk m (int (d + length (log_image rs))) (int d) st = Some (fold record_effect rs st)"
proof (induction rs arbitrary: d st)
  case Nil
  show ?case by (subst analyze_chunk.simps) simp
next
  case (Cons r rs)
  have split: "log_image (r # rs) = log_bytes r @ log_image rs" by (simp add: log_image_def)
  have r: "log_ok r" "mem_at m d (log_bytes r)" "d + length (log_bytes r) < 2 ^ 31"
    using Cons.prems unfolding split by simp_all
  have pos: "0 < length (log_bytes r)" by (simp add: log_bytes_def)
  have next_off: "c_int (int d + int (length (log_bytes r))) = int (d + length (log_bytes r))"
    using r(3) by (subst c_int_id) (simp_all add: int32_range_def)
  have "int d < int (d + length (log_image (r # rs)))" using pos by (simp only: split length_append)
  then have "analyze_chunk m (int (d + length (log_image (r # rs)))) (int d) st =
      analyze_chunk m (int (d + length (log_bytes r) + length (log_image rs))) (int (d + length (log_bytes r))) (record_effect r st)"
    using next_off header_loads(4) [OF r(1,2)] analyze_record_at [OF r]
    by (subst analyze_chunk.simps) (simp add: split add.assoc)
  also have "\<dots> = Some (fold record_effect rs (record_effect r st))"
    by (rule Cons.IH) (use Cons.prems in \<open>simp_all add: split add.assoc\<close>)
  finally show ?case by simp
qed

section \<open>Reading the log file\<close>

lemma read_log_spec:
  assumes ready: "log_ready d" and f: "os_files d LOG_FILE_NAME = Some f"
    and small: "fsize f < 2 ^ 31" and off: "off \<le> fsize f"
  obtains d' where "read_log buf (int sz) (int off) d =
      (Inr (int (min sz (fsize f - off)), mem_copy buf 0 (fbytes f) off (min sz (fsize f - off))), d')"
    and "log_ready d'" and "os_files d' = os_files d"
proof -
  obtain t fds p2f f2p fd where t: "ensure_log_fd d = (Inr (), t)" "log_open t"
    "t = d\<lparr>os_fds := fds, path2fd := p2f, fd2path := f2p, log_fd := fd\<rparr>"
    by (rule ensure_log_fd_opens [OF ready])
  obtain pos where pos: "os_fds t (log_fd t) = Some (LOG_FILE_NAME, pos)"
    using t(2) by (auto simp: log_open_def)
  have ft: "os_files t = os_files d" by (simp add: t(3))
  have wf: "disk_wf t" using t(2) by (simp add: log_open_def)
  have size: "get_file_size LOG_FILE_NAME t = int (fsize f)"
    using f small by (simp add: get_file_size_def ft int32_range_def)
  define k where "k = min sz (fsize f - off)"
  have k: "min (int sz) (int (fsize f) - int off) = int k"
    using off unfolding k_def by linarith
  show ?thesis
  proof (cases "k = 0")
    case True
    then have "read_log buf (int sz) (int off) d = (Inr (0, buf), t)"
      using off by (simp add: read_log_def bindE_def t(1) size k Let_def)
    moreover have "mem_copy buf 0 (fbytes f) off 0 = buf" by (simp add: mem_copy_def fun_eq_iff)
    ultimately show ?thesis
      using that [of t, folded k_def] True log_open_ready [OF t(2)] ft by simp
  next
    case False
    let ?u = "t\<lparr>os_fds := (os_fds t)(log_fd t \<mapsto> (LOG_FILE_NAME, off + k))\<rparr>"
    have kk: "min k (fsize f - off) = k" by (simp add: k_def)
    have "read_log buf (int sz) (int off) d = (Inr (int k, mem_copy buf 0 (fbytes f) off k), ?u)"
      using off False pos f
      by (simp add: read_log_def bindE_def t(1) size k Let_def os_lseek_def os_read_def ft kk)
    moreover have "log_open ?u"
      using disk_wf_seek [OF wf pos] t(2) by (simp add: log_open_def)
    then have "log_ready ?u" by (rule log_open_ready)
    ultimately show ?thesis using that [of ?u, folded k_def] ft by simp
  qed
qed

text \<open>
  The two scans see the whole log in one piece, because it fits into the buffer; \<open>buf\<close> is what the
  first \<open>read_log\<close> fills in, and the second one finds the end of the file.
\<close>

lemma read_whole_log:
  assumes ready: "log_ready d" and f: "os_files d LOG_FILE_NAME = Some f"
    and size: "fsize f = length (log_image rs)" and at: "mem_at (fbytes f) 0 (log_image rs)"
    and fits: "length (log_image rs) \<le> LOG_BUFFER_SIZE"
  obtains buf d1 d2 where "read_log junk (int LOG_BUFFER_SIZE) 0 d = (Inr (int (length (log_image rs)), buf), d1)"
    and "mem_at buf 0 (log_image rs)"
    and "read_log buf (int LOG_BUFFER_SIZE) (int (length (log_image rs))) d1 = (Inr (0, buf), d2)"
    and "os_files d1 = os_files d" and "os_files d2 = os_files d"
proof -
  let ?n = "length (log_image rs)"
  have small: "fsize f < 2 ^ 31" using size fits by (simp add: rmdb_consts)
  obtain d1 where d1: "read_log junk (int LOG_BUFFER_SIZE) (int 0) d =
      (Inr (int (min LOG_BUFFER_SIZE (fsize f - 0)), mem_copy junk 0 (fbytes f) 0 (min LOG_BUFFER_SIZE (fsize f - 0))), d1)"
    "log_ready d1" "os_files d1 = os_files d"
    by (rule read_log_spec [OF ready f small]) auto
  have m: "min LOG_BUFFER_SIZE (fsize f - 0) = ?n" using size fits by simp
  let ?buf = "mem_copy junk 0 (fbytes f) 0 ?n"
  have f1: "os_files d1 LOG_FILE_NAME = Some f" using f d1(3) by simp
  obtain d2 where d2: "read_log ?buf (int LOG_BUFFER_SIZE) (int ?n) d1 =
      (Inr (int (min LOG_BUFFER_SIZE (fsize f - ?n)), mem_copy ?buf 0 (fbytes f) ?n (min LOG_BUFFER_SIZE (fsize f - ?n))), d2)"
    "os_files d2 = os_files d1"
    by (rule read_log_spec [OF d1(2) f1 small, of ?n]) (use size in auto)
  have z: "mem_copy ?buf 0 (fbytes f) ?n 0 = ?buf" by (simp add: mem_copy_def fun_eq_iff)
  have "mem_at ?buf 0 (log_image rs)" using at by (simp add: mem_at_def)
  then show ?thesis
    using that [of ?buf d1 d2] d1 d2 size m z by simp
qed

lemma analyze_log:
  assumes ready: "log_ready d" and f: "os_files d LOG_FILE_NAME = Some f"
    and size: "fsize f = length (log_image rs)" and at: "mem_at (fbytes f) 0 (log_image rs)"
    and fits: "length (log_image rs) \<le> LOG_BUFFER_SIZE" and ok: "list_all log_ok rs"
  obtains d' where "analyze junk d = Some (Inr (fold record_effect rs recovery_init), d')" and "os_files d' = os_files d"
proof -
  obtain buf d1 d2 where r: "read_log junk (int LOG_BUFFER_SIZE) 0 d = (Inr (int (length (log_image rs)), buf), d1)"
    "mem_at buf 0 (log_image rs)"
    "read_log buf (int LOG_BUFFER_SIZE) (int (length (log_image rs))) d1 = (Inr (0, buf), d2)"
    "os_files d1 = os_files d" "os_files d2 = os_files d"
    by (rule read_whole_log [OF ready f size at fits])
  let ?n = "length (log_image rs)"
  show ?thesis
  proof (cases "rs = []")
    case True
    then have "analyze junk d = Some (Inr recovery_init, d1)"
      unfolding analyze_def using r(1) by (subst analyze_from.simps) simp
    then show ?thesis using that [of d1] r(4) True by simp
  next
    case False
    then have pos: "0 < ?n" using log_image_empty [of rs] by auto
    have "analyze_chunk buf (int (0 + ?n)) (int 0) recovery_init = Some (fold record_effect rs recovery_init)"
      by (rule analyze_chunk_image [OF ok r(2)]) (use fits in \<open>simp add: rmdb_consts\<close>)
    moreover have "c_int (int ?n) = int ?n"
      using fits by (intro c_int_id) (simp add: int32_range_def rmdb_consts)
    ultimately have "analyze junk d = analyze_from buf (int ?n) (fold record_effect rs recovery_init) d1"
      unfolding analyze_def using r(1) pos by (subst analyze_from.simps) simp
    also have "\<dots> = Some (Inr (fold record_effect rs recovery_init), d2)"
      using r(3) by (subst analyze_from.simps) simp
    finally show ?thesis using that r(5) by blast
  qed
qed

section \<open>What the tables mean\<close>

text \<open>A transaction is unfinished when its begin record is not followed by its commit or abort record.\<close>

definition unfinished :: "log_record list \<Rightarrow> int \<Rightarrow> bool" where
  "unfinished rs t \<longleftrightarrow> (\<exists>xs r ys. rs = xs @ r # ys \<and> kind_of r = BEGIN \<and> log_tid (hdr r) = t \<and>
     (\<forall>q \<in> set ys. log_tid (hdr q) = t \<longrightarrow> kind_of q \<noteq> COMMIT \<and> kind_of q \<noteq> ABORT))"

fun changes_page :: "int \<Rightarrow> log_record \<Rightarrow> bool" where
  "changes_page p (InsertLogRecord h v r t) \<longleftrightarrow> rid_page_no r = p"
| "changes_page p (DeleteLogRecord h v r t) \<longleftrightarrow> rid_page_no r = p"
| "changes_page p (UpdateLogRecord h v w r t) \<longleftrightarrow> rid_page_no r = p"
| "changes_page p r \<longleftrightarrow> False"

lemma unfinished_snoc:
  "unfinished (rs @ [r]) t \<longleftrightarrow>
    (if log_tid (hdr r) = t \<and> kind_of r = BEGIN then True
     else if log_tid (hdr r) = t \<and> (kind_of r = COMMIT \<or> kind_of r = ABORT) then False
     else unfinished rs t)" (is "_ \<longleftrightarrow> ?rhs")
proof
  assume "unfinished (rs @ [r]) t"
  then obtain xs q ys where q: "rs @ [r] = xs @ q # ys" "kind_of q = BEGIN" "log_tid (hdr q) = t"
    "\<forall>q \<in> set ys. log_tid (hdr q) = t \<longrightarrow> kind_of q \<noteq> COMMIT \<and> kind_of q \<noteq> ABORT"
    unfolding unfinished_def by blast
  show ?rhs
  proof (cases ys rule: rev_cases)
    case Nil
    with q show ?thesis by simp
  next
    case (snoc zs y)
    with q have "rs = xs @ q # zs" "y = r" by simp_all
    with q snoc have "unfinished rs t" unfolding unfinished_def by auto
    with q snoc \<open>y = r\<close> show ?thesis by auto
  qed
next
  assume rhs: ?rhs
  show "unfinished (rs @ [r]) t"
  proof (cases "log_tid (hdr r) = t \<and> kind_of r = BEGIN")
    case True
    then show ?thesis unfolding unfinished_def by fastforce
  next
    case False
    with rhs have r: "log_tid (hdr r) = t \<longrightarrow> kind_of r \<noteq> COMMIT \<and> kind_of r \<noteq> ABORT" and "unfinished rs t"
      by (auto split: if_splits)
    then obtain xs q ys where "rs = xs @ q # ys" "kind_of q = BEGIN" "log_tid (hdr q) = t"
      "\<forall>q \<in> set ys. log_tid (hdr q) = t \<longrightarrow> kind_of q \<noteq> COMMIT \<and> kind_of q \<noteq> ABORT"
      unfolding unfinished_def by blast
    with r show ?thesis unfolding unfinished_def
      by (intro exI [of _ xs] exI [of _ q] exI [of _ "ys @ [r]"]) auto
  qed
qed

lemma att_record_effect:
  "active_transaction_table (record_effect r st) =
    (if kind_of r = BEGIN then (active_transaction_table st)(log_tid (hdr r) \<mapsto> lsn (hdr r))
     else if kind_of r = COMMIT \<or> kind_of r = ABORT then (active_transaction_table st)(log_tid (hdr r) := None)
     else active_transaction_table st)"
  by (cases r) (simp_all add: add_redo_log_def Let_def)

lemma dpt_record_effect:
  "dirty_page_table (record_effect r st) \<lparr>pid_fd = 0, pid_no = p\<rparr> =
    (if changes_page p r
     then Some ((case dirty_page_table st \<lparr>pid_fd = 0, pid_no = p\<rparr> of None \<Rightarrow> [] | Some ls \<Rightarrow> ls) @ [lsn (hdr r)])
     else dirty_page_table st \<lparr>pid_fd = 0, pid_no = p\<rparr>)"
  by (cases r) (auto simp: add_redo_log_def Let_def split: option.splits)

lemma att_fold: "active_transaction_table (fold record_effect rs recovery_init) t \<noteq> None \<longleftrightarrow> unfinished rs t"
proof (induction rs rule: rev_induct)
  case Nil
  show ?case by (simp add: recovery_init_def unfinished_def)
next
  case (snoc r rs)
  then show ?case
    unfolding unfinished_snoc by (auto simp: att_record_effect)
qed

lemma dpt_fold:
  "dirty_page_table (fold record_effect rs recovery_init) \<lparr>pid_fd = 0, pid_no = p\<rparr> =
    (if filter (changes_page p) rs = [] then None else Some (map (\<lambda>r. lsn (hdr r)) (filter (changes_page p) rs)))"
proof (induction rs rule: rev_induct)
  case Nil
  show ?case by (simp add: recovery_init_def)
next
  case (snoc r rs)
  then show ?case by (auto simp: dpt_record_effect)
qed

text \<open>
  C8: the analysis phase. On a log file that holds whole records and fits into the log buffer,
  \<open>analyze\<close> ends without an error; the active transaction table then contains exactly the transactions
  whose begin record has no later commit or abort record, and the dirty page table lists for each
  page exactly the sequence numbers of the inserts, deletes and updates on it, in log order.
\<close>

theorem analyze_builds_tables:
  assumes "log_ready d" and "os_files d LOG_FILE_NAME = Some f" and "fsize f = length (log_image rs)"
    and "mem_at (fbytes f) 0 (log_image rs)" and "length (log_image rs) \<le> LOG_BUFFER_SIZE" and "list_all log_ok rs"
  shows "\<exists>st d'. analyze junk d = Some (Inr st, d') \<and>
    (\<forall>t. t \<in> dom (active_transaction_table st) \<longleftrightarrow> unfinished rs t) \<and>
    (\<forall>p. dirty_page_table st \<lparr>pid_fd = 0, pid_no = p\<rparr> =
      (if filter (changes_page p) rs = [] then None else Some (map (\<lambda>r. lsn (hdr r)) (filter (changes_page p) rs))))"
proof -
  obtain d' where "analyze junk d = Some (Inr (fold record_effect rs recovery_init), d')"
    by (rule analyze_log [OF assms])
  then show ?thesis using att_fold dpt_fold by (auto simp: domIff)
qed

definition one_record_log_disk :: "log_record list \<Rightarrow> disk" where
  "one_record_log_disk rs = empty_log_disk\<lparr>os_files := [LOG_FILE_NAME \<mapsto>
     \<lparr>fsize = length (log_image rs), fbytes = mem_put zero_mem 0 (log_image rs)\<rparr>]\<rparr>"

lemma one_record_log_disk_ready:
  "log_ready (one_record_log_disk rs)"
  "os_files (one_record_log_disk rs) LOG_FILE_NAME =
     Some \<lparr>fsize = length (log_image rs), fbytes = mem_put zero_mem 0 (log_image rs)\<rparr>"
proof -
  have "file_wf \<lparr>fsize = length (log_image rs), fbytes = mem_put zero_mem 0 (log_image rs)\<rparr>"
    by (simp add: file_wf_def mem_put_def zero_mem_def)
  then have "disk_wf (one_record_log_disk rs)"
    using disk_wf_put_file [OF empty_log_disk_wf, of _ LOG_FILE_NAME] by (simp add: one_record_log_disk_def empty_log_disk_def)
  then show "log_ready (one_record_log_disk rs)"
    by (simp add: log_ready_def one_record_log_disk_def empty_log_disk_def)
qed (simp add: one_record_log_disk_def)

theorem analyze_builds_tables_witness:
  "\<exists>st d'. analyze zero_mem (one_record_log_disk [new_BeginLogRecord 5]) = Some (Inr st, d') \<and>
    5 \<in> dom (active_transaction_table st)"
proof -
  let ?rs = "[new_BeginLogRecord 5]"
  have ok: "list_all log_ok ?rs" by (simp add: new_records_ok txn_id_ok_def int64_range_def)
  have len: "length (log_image ?rs) \<le> LOG_BUFFER_SIZE"
    by (simp add: log_bytes_def new_BeginLogRecord_def rmdb_consts)
  have "unfinished ?rs 5"
    using unfinished_snoc [of "[]" "new_BeginLogRecord 5" 5] by (simp add: new_BeginLogRecord_def new_header_def)
  with analyze_builds_tables [OF one_record_log_disk_ready [of ?rs] _ _ len ok, of zero_mem] show ?thesis
    by (auto simp del: log_image_single)
qed

section \<open>Finding a record\<close>

lemma find_in_chunk_image:
  "list_all log_ok rs \<Longrightarrow> mem_at m d (log_image rs) \<Longrightarrow> d + length (log_image rs) < 2 ^ 31 \<Longrightarrow>
    find_in_chunk m (int (d + length (log_image rs))) target (int d) =
      Some (map_option (\<lambda>r. Inr (Some r)) (find (\<lambda>r. lsn (hdr r) = target) rs))"
proof (induction rs arbitrary: d)
  case Nil
  show ?case by (subst find_in_chunk.simps) simp
next
  case (Cons r rs)
  have split: "log_image (r # rs) = log_bytes r @ log_image rs" by (simp add: log_image_def)
  let ?k = "length (log_bytes r)" and ?e = "d + length (log_image (r # rs))"
  have r: "log_ok r" "mem_at m d (log_bytes r)" "d + ?k < 2 ^ 31"
    using Cons.prems unfolding split by simp_all
  note ld = header_loads [OF r(1,2)]
  have k: "24 \<le> ?k" by (simp add: log_bytes_def)
  have e: "?e = d + ?k + length (log_image rs)" by (simp add: split)
  have guard: "int d < int ?e" "\<not> int d + int LOG_HEADER_SIZE > int ?e"
    using k unfolding e by (simp_all add: log_offsets)
  have off: "c_uint32 (int d + int ?k) = int (d + ?k)" "c_int (int d + int ?k) = int (d + ?k)"
    using r(3) by (simp_all add: c_uint32_def, subst c_int_id, simp_all add: int32_range_def)
  have des: "found_record (deserialize (load_i32 m d) m d) = Inr (Some r)"
    using deserialize_type_at [OF r(1,2)] by (simp add: found_record_def)
  show ?case
  proof (cases "lsn (hdr r) = target")
    case True
    then show ?thesis using guard ld(2) des by (subst find_in_chunk.simps) simp
  next
    case False
    have "int ?k \<noteq> 0" using k by linarith
    moreover have "\<not> c_uint32 (int d + int ?k) > int ?e" unfolding off e by simp
    ultimately have "\<not> (int ?k = 0 \<or> c_uint32 (int d + int ?k) > int ?e)" by blast
    then have "find_in_chunk m (int ?e) target (int d) = find_in_chunk m (int ?e) target (int (d + ?k))"
      using False guard ld(2,4) off by (subst find_in_chunk.simps) (simp add: Let_def)
    also have "\<dots> = Some (map_option (\<lambda>r. Inr (Some r)) (find (\<lambda>r. lsn (hdr r) = target) rs))"
      unfolding e by (rule Cons.IH) (use Cons.prems in \<open>simp_all add: split add.assoc\<close>)
    finally show ?thesis using False by simp
  qed
qed

text \<open>
  \<open>read_log_record\<close> on a log file that holds whole records and fits into the log buffer returns
  the first record with the requested sequence number, deserialized as it was written, and
  \<open>nullptr\<close> when there is none; 1000 iterations are more than enough, and the scan ends.
\<close>

theorem read_log_record_finds:
  assumes "log_ready d" and "os_files d LOG_FILE_NAME = Some f" and "fsize f = length (log_image rs)"
    and "mem_at (fbytes f) 0 (log_image rs)" and "length (log_image rs) \<le> LOG_BUFFER_SIZE" and "list_all log_ok rs"
  shows "\<exists>d'. read_log_record junk target d = Some (Inr (find (\<lambda>r. lsn (hdr r) = target) rs), d')"
proof -
  let ?n = "length (log_image rs)"
  obtain buf d1 d2 where r: "read_log junk (int LOG_BUFFER_SIZE) 0 d = (Inr (int ?n, buf), d1)"
    "mem_at buf 0 (log_image rs)" "read_log buf (int LOG_BUFFER_SIZE) (int ?n) d1 = (Inr (0, buf), d2)"
    by (rule read_whole_log [OF assms(1-5)])
  have thousand: "(1000 :: nat) = Suc (Suc 998)" by simp
  show ?thesis
  proof (cases "rs = []")
    case True
    then show ?thesis unfolding read_log_record_def thousand read_log_record_loop.simps using r(1) by simp
  next
    case False
    then have pos: "\<not> int ?n \<le> 0" using log_image_empty [of rs] by auto
    have "find_in_chunk buf (int (0 + ?n)) target (int 0) =
        Some (map_option (\<lambda>r. Inr (Some r)) (find (\<lambda>r. lsn (hdr r) = target) rs))"
      by (rule find_in_chunk_image [OF assms(6) r(2)]) (use assms(5) in \<open>simp add: rmdb_consts\<close>)
    moreover have "c_int (int ?n) = int ?n"
      using assms(5) by (intro c_int_id) (simp add: int32_range_def rmdb_consts)
    ultimately show ?thesis
      unfolding read_log_record_def thousand read_log_record_loop.simps
      using r pos by (simp split: option.split del: of_nat_le_0_iff)
  qed
qed

theorem read_log_record_finds_witness:
  "\<exists>d'. read_log_record zero_mem (- 1) (one_record_log_disk [new_CommitLogRecord 5]) = Some (Inr (Some (new_CommitLogRecord 5)), d')"
proof -
  let ?rs = "[new_CommitLogRecord 5]"
  have ok: "list_all log_ok ?rs" by (simp add: new_records_ok txn_id_ok_def int64_range_def)
  have len: "length (log_image ?rs) \<le> LOG_BUFFER_SIZE"
    by (simp add: log_bytes_def new_CommitLogRecord_def rmdb_consts)
  have "lsn (hdr (new_CommitLogRecord 5)) = - 1"
    by (simp add: new_CommitLogRecord_def new_header_def rmdb_consts)
  then have "find (\<lambda>r. lsn (hdr r) = - 1) ?rs = Some (new_CommitLogRecord 5)" by simp
  with read_log_record_finds [OF one_record_log_disk_ready [of ?rs] _ _ len ok, of zero_mem "- 1"] show ?thesis
    by (simp del: log_image_single)
qed

text \<open>Reading the log changes no file, whatever is in it.\<close>

lemma ensure_log_fd_files: "ensure_log_fd d = (r, d') \<Longrightarrow> os_files d' = os_files d"
  by (auto simp: ensure_log_fd_def open_file_def os_open_def bindE_def Let_def split: if_splits prod.splits sum.splits)

lemma read_log_files: "read_log buf n off d = (r, d') \<Longrightarrow> os_files d' = os_files d"
proof -
  assume r: "read_log buf n off d = (r, d')"
  obtain x t where t: "ensure_log_fd d = (x, t)" by fastforce
  note f = ensure_log_fd_files [OF t]
  show ?thesis
    using r f by (cases x) (auto simp: read_log_def bindE_def t Let_def os_lseek_def os_read_def split: if_splits prod.splits option.splits)
qed

lemma analyze_from_files:
  assumes "analyze_from buf off st d = Some y"
  shows "os_files (snd y) = os_files d"
proof (rule analyze_from.raw_induct [of "\<lambda>buf off st d y. os_files (snd y) = os_files d", OF _ assms], goal_cases)
  case (1 f buf off st d y)
  obtain x t where t: "read_log buf (int LOG_BUFFER_SIZE) off d = (x, t)" by fastforce
  note ft = read_log_files [OF t]
  show ?case
  proof (cases "\<exists>n b. x = Inr (n, b) \<and> \<not> n \<le> 0")
    case True
    then obtain n b st' where "f b (c_int (off + n)) st' t = Some y"
      using 1(2) by (auto simp: t split: option.splits)
    then show ?thesis using 1(1) ft by simp
  next
    case False
    then have "\<exists>z. y = (z, t)" using 1(2) by (auto simp: t split: sum.splits prod.splits if_splits)
    then show ?thesis using ft by auto
  qed
qed

text \<open>
  C9: recovery repairs nothing. On any log file, however long or damaged, \<open>recover\<close> leaves every file of the database as
  it was whenever it comes to an end, because the redo and undo phases skip their work. On a log that holds well-formed
  records of at most \<open>LOG_BUFFER_SIZE\<close> bytes together, so that \<open>analyze\<close> reads it in one piece, it does come to an end
  and throws nothing.
\<close>

theorem recover_changes_no_file:
  "(\<forall>r d'. recover junk d = Some (r, d') \<longrightarrow> os_files d' = os_files d) \<and>
   (log_ready d \<and> os_files d LOG_FILE_NAME = Some f \<and> fsize f = length (log_image rs) \<and> mem_at (fbytes f) 0 (log_image rs) \<and>
      length (log_image rs) \<le> LOG_BUFFER_SIZE \<and> list_all log_ok rs \<longrightarrow> (\<exists>st d'. recover junk d = Some (Inr st, d')))"
proof (intro conjI allI impI)
  fix r d' assume "recover junk d = Some (r, d')"
  then show "os_files d' = os_files d"
    by (auto simp: recover_def analyze_def redo_def undo_def dest!: analyze_from_files split: option.splits prod.splits sum.splits)
next
  assume "log_ready d \<and> os_files d LOG_FILE_NAME = Some f \<and> fsize f = length (log_image rs) \<and> mem_at (fbytes f) 0 (log_image rs) \<and>
      length (log_image rs) \<le> LOG_BUFFER_SIZE \<and> list_all log_ok rs"
  then obtain d' where "analyze junk d = Some (Inr (fold record_effect rs recovery_init), d')"
    using analyze_log by blast
  then show "\<exists>st d'. recover junk d = Some (Inr st, d')" by (simp add: recover_def redo_def undo_def)
qed

theorem recover_changes_no_file_witness:
  "\<exists>st d'. recover zero_mem (one_record_log_disk [new_BeginLogRecord 5]) = Some (Inr st, d') \<and>
    os_files d' = os_files (one_record_log_disk [new_BeginLogRecord 5])"
proof -
  let ?rs = "[new_BeginLogRecord 5]"
  have ok: "list_all log_ok ?rs" by (simp add: new_records_ok txn_id_ok_def int64_range_def)
  have len: "length (log_image ?rs) \<le> LOG_BUFFER_SIZE"
    by (simp add: log_bytes_def new_BeginLogRecord_def rmdb_consts)
  have "\<exists>st d'. recover zero_mem (one_record_log_disk ?rs) = Some (Inr st, d')"
    by (rule recover_changes_no_file [THEN conjunct2, rule_format, of _ "\<lparr>fsize = length (log_image ?rs), fbytes = mem_put zero_mem 0 (log_image ?rs)\<rparr>" ?rs])
      (use one_record_log_disk_ready [of ?rs] len ok in \<open>simp del: log_image_single\<close>)
  then show ?thesis using recover_changes_no_file [THEN conjunct1] by blast
qed

end
