(* ===== verification/Watermark.thy ===== *)
theory Watermark
  imports Prelude "HOL-Library.Multiset"
begin

text \<open>
  The watermark of the running transactions' read timestamps, \<^verbatim>\<open>transaction/watermark.{h,cpp}\<close>.
  \<open>current_reads\<close>, a \<open>std::map\<close> from read timestamp to the number of transactions that read at it,
  is the list of its entries in key order. The interface \<open>read_tracker\<close> is what the transaction
  manager relies on: the tracker counts the running readers, and its bound is below all of them.
\<close>

record watermark =
  wm_commit_ts :: int
  wm_watermark :: int
  current_reads :: "(int \<times> int) list"

definition watermark_init :: "int \<Rightarrow> watermark" where
  "watermark_init commit_ts = \<lparr>wm_commit_ts = commit_ts, wm_watermark = commit_ts, current_reads = []\<rparr>"

text \<open>\<open>current_reads_[ts]++\<close>.\<close>

fun incr_read :: "int \<Rightarrow> (int \<times> int) list \<Rightarrow> (int \<times> int) list" where
  "incr_read ts [] = [(ts, 1)]"
| "incr_read ts ((k, n) # xs) =
     (if ts < k then (ts, 1) # (k, n) # xs else if ts = k then (k, n + 1) # xs else (k, n) # incr_read ts xs)"

text \<open>\<open>it->second--\<close>, and \<open>erase(it)\<close> when that makes it zero.\<close>

fun decr_read :: "int \<Rightarrow> (int \<times> int) list \<Rightarrow> (int \<times> int) list" where
  "decr_read ts [] = []"
| "decr_read ts ((k, n) # xs) =
     (if ts = k then (if n - 1 = 0 then xs else (k, n - 1) # xs) else (k, n) # decr_read ts xs)"

definition AddTxn :: "int \<Rightarrow> watermark \<Rightarrow> watermark" where
  "AddTxn read_ts w =
     w\<lparr>current_reads := incr_read read_ts (current_reads w),
       wm_watermark := if read_ts < wm_watermark w then read_ts else wm_watermark w\<rparr>"

definition RemoveTxn :: "int \<Rightarrow> watermark \<Rightarrow> watermark" where
  "RemoveTxn read_ts w =
     (case map_of (current_reads w) read_ts of
        None \<Rightarrow> w
      | Some n \<Rightarrow>
          let w' = w\<lparr>current_reads := decr_read read_ts (current_reads w)\<rparr>
          in if n - 1 = 0 \<and> read_ts = wm_watermark w
             then w'\<lparr>wm_watermark := (case current_reads w' of [] \<Rightarrow> wm_commit_ts w | (k, _) # _ \<Rightarrow> k)\<rparr>
             else w')"

definition UpdateCommitTs :: "int \<Rightarrow> watermark \<Rightarrow> watermark" where
  "UpdateCommitTs commit_ts w =
     w\<lparr>wm_commit_ts := commit_ts, wm_watermark := if current_reads w = [] then commit_ts else wm_watermark w\<rparr>"

definition GetWatermark :: "watermark \<Rightarrow> int" where
  "GetWatermark w = wm_watermark w"

section \<open>The interface\<close>

datatype read_event = Start int | Finish int | Committed int

fun readers :: "read_event list \<Rightarrow> int multiset" where
  "readers [] = {#}"
| "readers (Start t # es) = add_mset t (readers es)"
| "readers (Finish t # es) = readers es - {#t#}"
| "readers (Committed t # es) = readers es"

text \<open>The tracker after a history of events, the latest event first.\<close>

fun replay :: "(int \<Rightarrow> 'w \<Rightarrow> 'w) \<Rightarrow> (int \<Rightarrow> 'w \<Rightarrow> 'w) \<Rightarrow> (int \<Rightarrow> 'w \<Rightarrow> 'w) \<Rightarrow> read_event list \<Rightarrow> 'w \<Rightarrow> 'w" where
  "replay add remove note [] w = w"
| "replay add remove note (Start t # es) w = add t (replay add remove note es w)"
| "replay add remove note (Finish t # es) w = remove t (replay add remove note es w)"
| "replay add remove note (Committed t # es) w = note t (replay add remove note es w)"

locale read_tracker =
  fixes add :: "int \<Rightarrow> 'w \<Rightarrow> 'w" and remove :: "int \<Rightarrow> 'w \<Rightarrow> 'w" and mark :: "int \<Rightarrow> 'w \<Rightarrow> 'w"
    and bound :: "'w \<Rightarrow> int" and reads :: "'w \<Rightarrow> int multiset" and inv :: "'w \<Rightarrow> bool"
  assumes add_inv: "inv w \<Longrightarrow> inv (add t w)"
    and remove_inv: "inv w \<Longrightarrow> inv (remove t w)"
    and mark_inv: "inv w \<Longrightarrow> inv (mark t w)"
    and add_reads: "inv w \<Longrightarrow> reads (add t w) = add_mset t (reads w)"
    and remove_reads: "inv w \<Longrightarrow> reads (remove t w) = reads w - {#t#}"
    and mark_reads: "inv w \<Longrightarrow> reads (mark t w) = reads w"
    and bound_le: "inv w \<Longrightarrow> t \<in># reads w \<Longrightarrow> bound w \<le> t"
begin

lemma replay_reads:
  "inv w \<Longrightarrow> reads w = {#} \<Longrightarrow> inv (replay add remove mark es w) \<and> reads (replay add remove mark es w) = readers es"
proof (induction es)
  case (Cons e es)
  then show ?case
    by (cases e) (simp_all add: add_inv remove_inv mark_inv add_reads remove_reads mark_reads)
qed simp

lemma replay_bound:
  assumes "inv w" and "reads w = {#}" and "t \<in># readers es"
  shows "bound (replay add remove mark es w) \<le> t"
  using replay_reads [OF assms(1,2), of es] bound_le assms(3) by metis

end

section \<open>The watermark is a read tracker\<close>

definition read_keys :: "(int \<times> int) list \<Rightarrow> int set" where
  "read_keys xs = fst ` set xs"

lemma read_keys_simps [simp]:
  "read_keys [] = {}" "read_keys ((k, n) # xs) = insert k (read_keys xs)"
  by (simp_all add: read_keys_def)

definition reads_ok :: "(int \<times> int) list \<Rightarrow> bool" where
  "reads_ok xs \<longleftrightarrow> sorted_wrt (<) (map fst xs) \<and> (\<forall>(k, n) \<in> set xs. 0 < n)"

definition reads_of :: "(int \<times> int) list \<Rightarrow> int multiset" where
  "reads_of xs = sum_list (map (\<lambda>(k, n). replicate_mset (nat n) k) xs)"

definition wm_inv :: "watermark \<Rightarrow> bool" where
  "wm_inv w \<longleftrightarrow> reads_ok (current_reads w) \<and> (\<forall>k \<in> read_keys (current_reads w). wm_watermark w \<le> k)"

lemma reads_ok_Cons:
  "reads_ok ((k, n) # xs) \<longleftrightarrow> 0 < n \<and> (\<forall>k' \<in> read_keys xs. k < k') \<and> reads_ok xs"
  by (auto simp: reads_ok_def read_keys_def)

lemma reads_of_simps [simp]:
  "reads_of [] = {#}" "reads_of ((k, n) # xs) = replicate_mset (nat n) k + reads_of xs"
  by (simp_all add: reads_of_def)

lemma keys_incr: "read_keys (incr_read t xs) = insert t (read_keys xs)"
  by (induction t xs rule: incr_read.induct) auto

lemma incr_ok: "reads_ok xs \<Longrightarrow> reads_ok (incr_read t xs)"
proof (induction t xs rule: incr_read.induct)
  case (2 ts k n xs)
  then show ?case using keys_incr [of ts xs] by (auto simp: reads_ok_Cons)
qed (simp add: reads_ok_def)

lemma reads_incr: "reads_ok xs \<Longrightarrow> reads_of (incr_read t xs) = add_mset t (reads_of xs)"
proof (induction t xs rule: incr_read.induct)
  case (2 ts k n xs)
  then have "0 < n" by (simp add: reads_ok_Cons)
  then have "nat (n + 1) = Suc (nat n)" by linarith
  with 2 show ?case by (auto simp: reads_ok_Cons)
qed simp

lemma keys_decr: "read_keys (decr_read t xs) \<subseteq> read_keys xs"
  by (induction t xs rule: decr_read.induct) auto

lemma decr_ok: "reads_ok xs \<Longrightarrow> reads_ok (decr_read t xs)"
proof (induction t xs rule: decr_read.induct)
  case (2 ts k n xs)
  then show ?case using keys_decr [of ts xs] by (auto simp: reads_ok_Cons)
qed simp

lemma count_reads: "reads_ok xs \<Longrightarrow> t \<in># reads_of xs \<longleftrightarrow> t \<in> read_keys xs"
proof (induction xs)
  case (Cons x xs)
  then show ?case by (cases x) (auto simp: reads_ok_Cons)
qed simp

lemma reads_decr: "reads_ok xs \<Longrightarrow> reads_of (decr_read t xs) = reads_of xs - {#t#}"
proof (induction t xs rule: decr_read.induct)
  case (2 ts k n xs)
  show ?case
  proof (cases "ts = k")
    case True
    have "0 < n" using 2 by (simp add: reads_ok_Cons)
    then have "nat n = Suc (nat (n - 1))" by linarith
    then show ?thesis using True by simp
  next
    case False
    with 2 have IH: "reads_of (decr_read ts xs) = reads_of xs - {#ts#}" by (simp add: reads_ok_Cons)
    have "replicate_mset (nat n) k + reads_of xs - {#ts#} = replicate_mset (nat n) k + (reads_of xs - {#ts#})"
      using False by (simp add: multiset_eq_iff)
    with IH False show ?thesis by simp
  qed
qed simp

lemma decr_absent: "t \<notin> read_keys xs \<Longrightarrow> decr_read t xs = xs"
  by (induction t xs rule: decr_read.induct) auto

lemma AddTxn_inv: "wm_inv w \<Longrightarrow> wm_inv (AddTxn t w)"
  by (fastforce simp: wm_inv_def AddTxn_def incr_ok keys_incr)

lemma RemoveTxn_reads: "current_reads (RemoveTxn t w) = decr_read t (current_reads w)"
  by (auto simp: RemoveTxn_def Let_def decr_absent map_of_eq_None_iff read_keys_def split: option.splits)

lemma RemoveTxn_inv:
  assumes "wm_inv w"
  shows "wm_inv (RemoveTxn t w)"
proof -
  have ok: "reads_ok (decr_read t (current_reads w))" using assms by (simp add: wm_inv_def decr_ok)
  have old: "\<forall>k \<in> read_keys (decr_read t (current_reads w)). wm_watermark w \<le> k"
    using assms keys_decr [of t "current_reads w"] by (auto simp: wm_inv_def)
  have new: "\<forall>k' \<in> read_keys ((k, n) # xs). k \<le> k'" if "decr_read t (current_reads w) = (k, n) # xs" for k n xs
    using ok that by (auto simp: reads_ok_Cons)
  have "\<forall>k \<in> read_keys (decr_read t (current_reads w)). wm_watermark (RemoveTxn t w) \<le> k"
    using old new by (auto simp: RemoveTxn_def Let_def split: option.splits list.splits)
  with ok show ?thesis by (simp add: wm_inv_def RemoveTxn_reads)
qed

lemma UpdateCommitTs_inv: "wm_inv w \<Longrightarrow> wm_inv (UpdateCommitTs t w)"
  by (auto simp: wm_inv_def UpdateCommitTs_def)

interpretation wm: read_tracker AddTxn RemoveTxn UpdateCommitTs GetWatermark "\<lambda>w. reads_of (current_reads w)" wm_inv
proof
  fix w t
  assume inv: "wm_inv w"
  then have ok: "reads_ok (current_reads w)" by (simp add: wm_inv_def)
  show "reads_of (current_reads (AddTxn t w)) = add_mset t (reads_of (current_reads w))"
    using reads_incr [OF ok] by (simp add: AddTxn_def)
  show "reads_of (current_reads (RemoveTxn t w)) = reads_of (current_reads w) - {#t#}"
    using reads_decr [OF ok] by (simp add: RemoveTxn_reads)
  show "reads_of (current_reads (UpdateCommitTs t w)) = reads_of (current_reads w)"
    by (simp add: UpdateCommitTs_def)
  show "GetWatermark w \<le> t" if "t \<in># reads_of (current_reads w)"
    using that inv count_reads [OF ok, of t] by (auto simp: wm_inv_def GetWatermark_def)
qed (fact AddTxn_inv RemoveTxn_inv UpdateCommitTs_inv)+

lemma watermark_init_inv [simp]: "wm_inv (watermark_init t)" "current_reads (watermark_init t) = []"
  by (simp_all add: wm_inv_def watermark_init_def reads_ok_def)

text \<open>
  While some transaction is running and no read timestamp equals the watermark, neither a commit nor
  the end of a transaction moves it.
\<close>

lemma UpdateCommitTs_running: "current_reads w \<noteq> [] \<Longrightarrow> GetWatermark (UpdateCommitTs c w) = GetWatermark w"
  by (simp add: UpdateCommitTs_def GetWatermark_def)

lemma RemoveTxn_other: "t \<noteq> GetWatermark w \<Longrightarrow> GetWatermark (RemoveTxn t w) = GetWatermark w"
  by (auto simp: RemoveTxn_def GetWatermark_def Let_def split: option.splits)

lemma AddTxn_above: "GetWatermark w \<le> t \<Longrightarrow> GetWatermark (AddTxn t w) = GetWatermark w"
  by (simp add: AddTxn_def GetWatermark_def)

text \<open>
  C10: whatever transactions started, finished and committed before, the watermark never exceeds
  the read timestamp of a transaction that is still running, and the tracker's multiset of read
  timestamps is exactly that of the running transactions.
\<close>

theorem watermark_below_running_reads:
  "let w = replay AddTxn RemoveTxn UpdateCommitTs es (watermark_init t0)
   in reads_of (current_reads w) = readers es \<and> (\<forall>t. t \<in># readers es \<longrightarrow> GetWatermark w \<le> t)"
  using wm.replay_reads [of "watermark_init t0" es] wm.replay_bound [of "watermark_init t0" _ es]
  by (simp add: Let_def)

theorem watermark_below_running_reads_witness:
  "5 \<in># readers [Start 9, Start 5] \<and>
   GetWatermark (replay AddTxn RemoveTxn UpdateCommitTs [Start 9, Start 5] (watermark_init 0)) \<le> 5"
  using watermark_below_running_reads [of "[Start 9, Start 5]" 0] by (simp add: Let_def)

end
