(* ===== verification/PoolClient.thy ===== *)
theory PoolClient
  imports PageCache LogManager
begin

text \<open>
  What the record and index layers rely on when they use the buffer pool and the log together, one
  page at a time: which parts of the state each operation leaves alone, and how fetching, writing
  through and unpinning a page move between \<open>quiet\<close> states, in which no page is pinned, and \<open>held\<close>
  states, in which exactly one is. \<open>views\<close> relates the page contents before and after.
\<close>

section \<open>What the layers below leave alone\<close>

lemma bpm_more_cong: "disk.more s = disk.more t \<Longrightarrow> bpm.more s = bpm.more t"
  by (cases s, cases t) simp

lemma os_more [simp]:
  "disk.more (os_lseek fd off d) = disk.more d"
  "disk.more (os_lseek_end fd d) = disk.more d"
  "disk.more (snd (os_write fd buf n d)) = disk.more d"
  "disk.more (snd (snd (os_read fd buf n d))) = disk.more d"
  by (auto simp: os_lseek_def os_lseek_end_def os_write_def os_read_def Let_def split: option.splits prod.splits)

lemma write_page_more [preserving]: "preserves disk.more (write_page fd p buf n)"
  by (rule preservesI) (simp add: write_page_def Let_def case_prod_unfold)

lemma read_page_more [preserving]: "preserves disk.more (read_page fd p buf n)"
  by (rule preservesI) (simp add: read_page_def Let_def case_prod_unfold)

lemma allocate_page_more [preserving]: "preserves disk.more (allocate_page fd)"
  by (rule preservesI) (simp add: allocate_page_def)

lemmas disk_to_bpm = preserves_comp [OF _ bpm_more_cong]

lemma set_page_more [simp]: "bpm.more (set_page f g s) = bpm.more s"
  by (simp add: set_page_def)

lemma find_victim_more [preserving]: "preserves bpm.more find_victim_page"
  by (rule preservesI) (simp add: find_victim_page_def case_prod_unfold Let_def split: list.splits)

lemma write_page_bpm [preserving]: "preserves bpm.more (write_page fd p buf n)"
  by (rule disk_to_bpm [OF write_page_more])

lemma read_page_bpm [preserving]: "preserves bpm.more (read_page fd p buf n)"
  by (rule disk_to_bpm [OF read_page_more])

lemma allocate_page_bpm [preserving]: "preserves bpm.more (allocate_page fd)"
  by (rule disk_to_bpm [OF allocate_page_more])

lemma update_page_more [preserving]: "preserves bpm.more (update_page f pid g)"
  unfolding update_page_def by (intro preserving) simp_all

lemma fetch_page_more [preserving]: "preserves bpm.more (fetch_page pid)"
  unfolding fetch_page_def by (intro preserving) simp_all

lemma unpin_page_more [preserving]: "preserves bpm.more (unpin_page pid d)"
  by (rule preservesI) (simp add: unpin_page_def Let_def split: option.splits)

lemma new_page_more [preserving]: "preserves bpm.more (new_page pid)"
  unfolding new_page_def by (intro preserving) simp_all

lemma flush_all_pages_more [preserving]: "preserves bpm.more (flush_all_pages fd)"
  unfolding flush_all_pages_def flush_frame_def by (intro preserving) simp_all

section \<open>Descriptors and file names\<close>

definition fd_paths :: "'a disk_scheme \<Rightarrow> int \<Rightarrow> string option" where
  "fd_paths d = (\<lambda>fd. map_option fst (os_fds d fd))"

definition disk_tables ::
  "'a disk_scheme \<Rightarrow> (int \<Rightarrow> string option) \<times> (string \<rightharpoonup> int) \<times> (int \<rightharpoonup> string) \<times> int \<times> (int set \<Rightarrow> int) \<times> string set" where
  "disk_tables d = (fd_paths d, path2fd d, fd2path d, log_fd d, os_pick d, dom (os_files d))"

lemma fd_paths_upd [simp]:
  "fd_paths (d\<lparr>os_files := a\<rparr>) = fd_paths d" "fd_paths (d\<lparr>fd2pageno := b\<rparr>) = fd_paths d"
  by (simp_all add: fd_paths_def)

lemma os_tables [simp]:
  "disk_tables (os_lseek fd off d) = disk_tables d"
  "disk_tables (snd (os_write fd buf n d)) = disk_tables d"
  "disk_tables (snd (snd (os_read fd buf n d))) = disk_tables d"
  by (auto simp: disk_tables_def fd_paths_def fun_eq_iff os_lseek_def os_write_def os_read_def Let_def
      split: option.splits prod.splits)

lemma write_page_tables [preserving]: "preserves disk_tables (write_page fd p buf n)"
  by (rule preservesI) (simp add: write_page_def Let_def case_prod_unfold)

lemma read_page_tables [preserving]: "preserves disk_tables (read_page fd p buf n)"
  by (rule preservesI) (simp add: read_page_def Let_def case_prod_unfold)

lemma allocate_page_tables [preserving]: "preserves disk_tables (allocate_page fd)"
  by (rule preservesI) (simp add: allocate_page_def disk_tables_def)

lemma set_page_tables [simp]: "disk_tables (set_page f g s) = disk_tables s"
  by (simp add: set_page_def disk_tables_def fd_paths_def)

lemma bpm_upd_tables [simp]:
  "disk_tables (s\<lparr>page_table := a\<rparr>) = disk_tables s" "disk_tables (s\<lparr>free_list := b\<rparr>) = disk_tables s"
  "disk_tables (s\<lparr>frame_replacer := c\<rparr>) = disk_tables s"
  by (simp_all add: disk_tables_def fd_paths_def)

lemma find_victim_tables [preserving]: "preserves disk_tables find_victim_page"
  by (rule preservesI) (simp add: find_victim_page_def case_prod_unfold Let_def split: list.splits)

lemma update_page_tables [preserving]: "preserves disk_tables (update_page f pid g)"
  unfolding update_page_def by (intro preserving) simp_all

lemma fetch_page_tables [preserving]: "preserves disk_tables (fetch_page pid)"
  unfolding fetch_page_def by (intro preserving) simp_all

lemma unpin_page_tables [preserving]: "preserves disk_tables (unpin_page pid d)"
  by (rule preservesI) (simp add: unpin_page_def Let_def split: option.splits)

lemma new_page_tables [preserving]: "preserves disk_tables (new_page pid)"
  unfolding new_page_def by (intro preserving) simp_all

lemma flush_all_pages_tables [preserving]: "preserves disk_tables (flush_all_pages fd)"
  unfolding flush_all_pages_def flush_frame_def by (intro preserving) simp_all

lemma disk_tablesD:
  assumes "disk_tables t = disk_tables s"
  shows "fd_paths t = fd_paths s" and "path2fd t = path2fd s" and "fd2path t = fd2path s" and "log_fd t = log_fd s"
    and "os_pick t = os_pick s" and "dom (os_files t) = dom (os_files s)"
  using assms by (simp_all add: disk_tables_def)

lemma fd_paths_dom: "fd_paths t = fd_paths s \<Longrightarrow> dom (os_fds t) = dom (os_fds s)"
  unfolding fd_paths_def fun_eq_iff dom_def by (metis (mono_tags, lifting) option.map_disc_iff)

lemma log_ready_tables:
  assumes "disk_tables t = disk_tables s" and "disk_wf t" and "log_ready s"
  shows "log_ready t"
proof -
  note d = disk_tablesD [OF assms(1)]
  have "os_files t LOG_FILE_NAME \<noteq> None" using assms(3) d(6) by (auto simp: log_ready_def)
  moreover have "map_option fst (os_fds t fd) = map_option fst (os_fds s fd)" for fd
    using d(1) by (simp add: fd_paths_def fun_eq_iff)
  ultimately show ?thesis using assms(2,3) d(2,4,5) fd_paths_dom [OF d(1)] by (simp add: log_ready_def)
qed

section \<open>The log file\<close>

text \<open>No page of the log file is in the pool.\<close>

definition log_safe :: "'a bpm_scheme \<Rightarrow> bool" where
  "log_safe s \<longleftrightarrow> (\<forall>q \<in> dom (page_table s). fd_paths s (pid_fd q) \<noteq> Some LOG_FILE_NAME)"

definition log_content :: "'a disk_scheme \<Rightarrow> os_file option" where
  "log_content d = os_files d LOG_FILE_NAME"

lemma bindE_then: "(\<And>x. preserves p (k x)) \<Longrightarrow> p (snd (bindE m k s)) = p (snd (m s))"
  by (cases "m s", cases "fst (m s)") (auto simp: bindE_def preserves_def split: sum.splits)

lemma os_read_files [simp]: "os_files (snd (snd (os_read fd buf n d))) = os_files d"
  by (auto simp: os_read_def Let_def split: option.splits prod.splits)

lemma os_lseek_files [simp]: "os_files (os_lseek fd off d) = os_files d"
  by (auto simp: os_lseek_def split: option.splits)

lemma read_page_files: "preserves os_files (read_page fd p buf n)"
  by (rule preservesI) (simp add: read_page_def Let_def case_prod_unfold)

lemma os_lseek_paths [simp]: "fd_paths (os_lseek fd off d) = fd_paths d"
  using os_tables(1) [of fd off d] by (simp add: disk_tables_def)

lemma write_page_log:
  fixes d :: "'a disk_scheme"
  assumes "fd_paths d fd \<noteq> Some LOG_FILE_NAME"
  shows "log_content (snd (write_page fd p buf n d)) = log_content d"
proof -
  have "log_content (snd (os_write fd buf n d')) = log_content d'" if "fd_paths d' fd \<noteq> Some LOG_FILE_NAME" for d' :: "'a disk_scheme"
    using that by (auto simp: os_write_def log_content_def fd_paths_def Let_def split: option.splits prod.splits)
  then show ?thesis using assms by (simp add: write_page_def Let_def case_prod_unfold log_content_def)
qed

lemma set_page_files [simp]: "os_files (set_page f g s) = os_files s"
  by (simp add: set_page_def)

lemma update_page_log:
  assumes "pid_no (pg_id (pages s f)) \<noteq> INVALID_PAGE_ID \<longrightarrow> fd_paths s (pid_fd (pg_id (pages s f))) \<noteq> Some LOG_FILE_NAME"
  shows "log_content (snd (update_page f pid g s)) = log_content s"
proof -
  let ?q = "pg_id (pages s f)"
  let ?w = "if pid_no ?q \<noteq> INVALID_PAGE_ID \<and> pg_dirty (pages s f)
      then bindE (write_page (pid_fd ?q) (pid_no ?q) (pg_data (pages s f)) PAGE_SIZE)
             (\<lambda>_. updS (set_page f (pg_dirty_update (\<lambda>_. False))))
      else ret ()"
  have "log_content (snd (update_page f pid g s)) = log_content (snd (?w s))"
    unfolding update_page_def bindE_getS Let_def
    by (rule bindE_then) (rule preserves_updS, simp add: log_content_def)
  also have "\<dots> = log_content s"
  proof (cases "pid_no ?q \<noteq> INVALID_PAGE_ID \<and> pg_dirty (pages s f)")
    case True
    have "log_content (snd (?w s)) = log_content (snd (write_page (pid_fd ?q) (pid_no ?q) (pg_data (pages s f)) PAGE_SIZE s))"
      unfolding if_P [OF True] by (rule bindE_then) (rule preserves_updS, simp add: log_content_def)
    then show ?thesis using write_page_log assms True by simp
  next
    case False
    show ?thesis unfolding if_not_P [OF False] by simp
  qed
  finally show ?thesis .
qed

lemma victim_log:
  assumes inv: "bpm_inv s" and safe: "log_safe s" and v: "victim_taken f fs r s"
  shows "pid_no (pg_id (pages s f)) \<noteq> INVALID_PAGE_ID \<longrightarrow> fd_paths s (pid_fd (pg_id (pages s f))) \<noteq> Some LOG_FILE_NAME"
proof (cases "f \<in> set (free_list s)")
  case True
  then show ?thesis using bpm_invD(8) [OF inv] by simp
next
  case False
  then have "page_table s (pg_id (pages s f)) = Some f"
    using bpm_invD(6) [OF inv, of f] v unfolding victim_taken_def by blast
  then show ?thesis using safe by (auto simp: log_safe_def)
qed

lemma preserves_self: "(\<And>s. preserves p (k s)) \<Longrightarrow> preserves p (\<lambda>s. k s s)"
  by (simp add: preserves_def)

lemma fetch_page_log:
  fixes s :: "'a bpm_scheme"
  assumes inv: "bpm_inv s" and safe: "log_safe s"
  shows "log_content (snd (fetch_page pid s)) = log_content s"
proof (cases "page_table s pid")
  case (Some f)
  then show ?thesis by (simp add: fetch_page_def log_content_def)
next
  case None
  show ?thesis
  proof (rule find_victim_cases [OF inv])
    assume "find_victim_page s = (Inr None, s)"
    then show ?thesis by (simp add: fetch_page_def None bindE_def)
  next
    fix f fs r
    assume v: "find_victim_page s = (Inr (Some f), s\<lparr>free_list := fs, frame_replacer := r\<rparr>)" "victim_taken f fs r s"
    let ?s = "s\<lparr>free_list := fs, frame_replacer := r\<rparr>"
    have "log_content (snd (fetch_page pid s)) = log_content (snd (update_page f pid f ?s))"
      unfolding fetch_page_def bindE_getS None option.case bindE_Inr [where m = find_victim_page and s = s, OF v(1)]
      by (rule bindE_then)
        (rule preserves_self, intro preserving preserves_comp [OF read_page_files]; simp add: log_content_def)
    also have "\<dots> = log_content s"
      using update_page_log [of ?s f pid f] victim_log [OF inv safe v(2)]
      by (simp add: log_content_def fd_paths_def)
    finally show ?thesis .
  qed
qed

lemma new_page_log:
  fixes s :: "'a bpm_scheme"
  assumes inv: "bpm_inv s" and safe: "log_safe s"
  shows "log_content (snd (new_page pid s)) = log_content s"
proof (rule find_victim_cases [OF inv])
  assume "find_victim_page s = (Inr None, s)"
  then show ?thesis by (simp add: new_page_def bindE_def)
next
  fix f fs r
  assume v: "find_victim_page s = (Inr (Some f), s\<lparr>free_list := fs, frame_replacer := r\<rparr>)" "victim_taken f fs r s"
  let ?s = "s\<lparr>free_list := fs, frame_replacer := r\<rparr>"
  show ?thesis
  proof (cases "0 \<le> pid_fd pid \<and> pid_fd pid < MAX_FD")
    case True
    let ?a = "?s\<lparr>fd2pageno := (fd2pageno ?s)(pid_fd pid := c_int (fd2pageno ?s (pid_fd pid) + 1))\<rparr>"
    have a: "allocate_page (pid_fd pid) ?s = (Inr (fd2pageno ?s (pid_fd pid)), ?a)"
      using True by (simp add: allocate_page_def)
    have nn: "\<not> pid_fd pid < 0" using True by simp
    have "log_content (snd (new_page pid s)) = log_content (snd (update_page f (pid\<lparr>pid_no := fd2pageno ?s (pid_fd pid)\<rparr>) f ?a))"
      unfolding new_page_def bindE_Inr [where m = find_victim_page and s = s, OF v(1)] option.case if_not_P [OF nn] bindE_Inr [where m = "allocate_page (pid_fd pid)" and s = ?s, OF a] Let_def
      by (rule bindE_then) (intro preserving; simp add: log_content_def)
    also have "\<dots> = log_content s"
      using update_page_log [of ?a f _ f] victim_log [OF inv safe v(2)]
      by (simp add: log_content_def fd_paths_def)
    finally show ?thesis .
  next
    case False
    have "log_content (snd (bindE (allocate_page (pid_fd pid)) k ?s)) = log_content s"
      for k :: "int \<Rightarrow> ('a bpm_scheme, nat option \<times> page_id) op"
      using False by (simp add: bindE_def allocate_page_def log_content_def)
    then show ?thesis
      unfolding new_page_def bindE_Inr [where m = find_victim_page and s = s, OF v(1)] option.case
      by (simp add: log_content_def)
  qed
qed

lemma unpin_page_log: "log_content (snd (unpin_page pid d s)) = log_content s"
  by (simp add: unpin_page_def log_content_def Let_def split: option.splits)

section \<open>Quiet and held states\<close>

definition quiet :: "'a bpm_scheme \<Rightarrow> bool" where
  "quiet s \<longleftrightarrow> pool_ok s \<and> 0 < pool_size s \<and> log_safe s \<and> (\<forall>q. pin_count q s = 0)"

definition held :: "page_id \<Rightarrow> nat \<Rightarrow> 'a bpm_scheme \<Rightarrow> bool" where
  "held pid f s \<longleftrightarrow> pool_ok s \<and> 0 < pool_size s \<and> log_safe s \<and> page_table s pid = Some f \<and>
     (\<forall>q. pin_count q s = (if q = pid then 1 else 0))"

text \<open>A page of a table or index file.\<close>

definition tpage :: "page_id \<Rightarrow> 'a bpm_scheme \<Rightarrow> bool" where
  "tpage q s \<longleftrightarrow> page_io q s \<and> fd_paths s (pid_fd q) \<noteq> Some LOG_FILE_NAME"

definition views :: "(page_id \<rightharpoonup> mem) \<Rightarrow> 'a bpm_scheme \<Rightarrow> 'a bpm_scheme \<Rightarrow> bool" where
  "views ovr s t \<longleftrightarrow>
     (\<forall>q. tpage q s \<longrightarrow> tpage q t \<and> page_view q t = (case ovr q of None \<Rightarrow> page_view q s | Some m \<Rightarrow> m)) \<and>
     (\<forall>q. pid_no q = 0 \<longrightarrow> page_table s q = None \<longrightarrow> page_table t q = None)"

definition same_env :: "'a bpm_scheme \<Rightarrow> 'a bpm_scheme \<Rightarrow> bool" where
  "same_env s t \<longleftrightarrow> log_content t = log_content s \<and> disk_tables t = disk_tables s \<and> bpm.more t = bpm.more s"

lemma views_refl [simp]: "views Map.empty s s"
  by (simp add: views_def)

lemma views_trans: "views a s t \<Longrightarrow> views b t u \<Longrightarrow> views (a ++ b) s u"
  unfolding views_def by (fastforce simp: map_add_def split: option.splits)

lemma viewsD:
  assumes "views ovr s t" and "tpage q s"
  shows "tpage q t" and "page_view q t = (case ovr q of None \<Rightarrow> page_view q s | Some m \<Rightarrow> m)"
  using assms by (simp_all add: views_def)

lemma views_header: "views ovr s t \<Longrightarrow> pid_no q = 0 \<Longrightarrow> page_table s q = None \<Longrightarrow> page_table t q = None"
  by (simp add: views_def)

lemma same_env_refl [simp]: "same_env s s"
  by (simp add: same_env_def)

lemma same_env_trans: "same_env s t \<Longrightarrow> same_env t u \<Longrightarrow> same_env s u"
  by (simp add: same_env_def)

lemma quietD: "quiet s \<Longrightarrow> pool_ok s" "quiet s \<Longrightarrow> bpm_ok s" "quiet s \<Longrightarrow> bpm_inv s" "quiet s \<Longrightarrow> log_safe s"
    "quiet s \<Longrightarrow> pin_count q s = 0" "quiet s \<Longrightarrow> disk_wf s"
  by (simp_all add: quiet_def pool_okD bpm_okD) (simp add: pool_ok_def bpm_ok_def bpm_io_def)

lemma heldD:
  assumes "held pid f s"
  shows "pool_ok s" and "bpm_ok s" and "bpm_inv s" and "log_safe s" and "page_table s pid = Some f" and "disk_wf s"
    and "pg_id (pages s f) = pid" and "page_view pid s = page_trunc (pg_data (pages s f))"
    and "pin_count pid s = 1" and "tpage pid s"
proof -
  show s: "pool_ok s" "log_safe s" "page_table s pid = Some f" "pin_count pid s = 1"
    using assms by (simp_all add: held_def)
  show ok: "bpm_ok s" by (rule pool_okD [OF s(1)])
  show inv: "bpm_inv s" by (rule bpm_okD [OF ok])
  show "disk_wf s" using ok by (simp add: bpm_ok_def bpm_io_def)
  show "pg_id (pages s f) = pid" using bpm_invD(5) [OF inv s(3)] by simp
  show "page_view pid s = page_trunc (pg_data (pages s f))" by (simp add: page_view_def s(3))
  show "tpage pid s" using resident_io [OF ok s(3)] s(2,3) by (auto simp: tpage_def log_safe_def)
qed

lemma keeps_views:
  assumes k: "keeps_but pid s t" and "fd_paths t = fd_paths s" and v: "tpage pid s \<Longrightarrow> page_view pid t = m"
    and "pid_no pid \<noteq> 0 \<or> page_table s pid \<noteq> None \<or> page_table t pid = None"
  shows "views [pid \<mapsto> m] s t"
proof -
  note d = keeps_butD [OF k]
  show ?thesis
    unfolding views_def
  proof (intro conjI allI impI)
    fix q assume q: "tpage q s"
    then show "tpage q t" using d(1) assms(2) by (simp add: tpage_def)
    show "page_view q t = (case [pid \<mapsto> m] q of None \<Rightarrow> page_view q s | Some m \<Rightarrow> m)"
      using d(2) [of q] q v by (auto simp: tpage_def)
  next
    fix q assume "pid_no q = 0" "page_table s q = None"
    then show "page_table t q = None" using d(6) [of q] assms(4) by (cases "q = pid") auto
  qed
qed

lemma views_same: "views [pid \<mapsto> page_view pid s] s t \<Longrightarrow> views Map.empty s t"
  unfolding views_def by (auto split: if_splits)

lemma log_safe_keeps:
  assumes "log_safe s" and k: "keeps_but pid s t" and "fd_paths t = fd_paths s" and "fd_paths s (pid_fd pid) \<noteq> Some LOG_FILE_NAME"
  shows "log_safe t"
  unfolding log_safe_def
proof
  fix q assume q: "q \<in> dom (page_table t)"
  show "fd_paths t (pid_fd q) \<noteq> Some LOG_FILE_NAME"
  proof (cases "q = pid")
    case False
    then have "q \<in> dom (page_table s)" using keeps_butD(6) [OF k, of q] q by (metis domIff)
    with assms(1,3) show ?thesis by (auto simp: log_safe_def)
  qed (use assms(3,4) in simp)
qed

lemma fetch_quiet:
  assumes q: "quiet s" and tp: "tpage pid s" and no: "pid_no pid \<noteq> 0" "pid_no pid < fd2pageno s (pid_fd pid)"
  obtains f t where "fetch_page pid s = (Inr (Some f), t)" and "held pid f t" and "views Map.empty s t"
    and "same_env s t" and "fd2pageno t = fd2pageno s" and "settled pid t"
proof -
  note ok = quietD(2) [OF q]
  have io: "page_io pid s" and path: "fd_paths s (pid_fd pid) \<noteq> Some LOG_FILE_NAME" using tp by (simp_all add: tpage_def)
  show ?thesis
  proof (rule fetch_page_spec [OF ok io])
    fix f t
    assume t: "fetch_page pid s = (Inr (Some f), t)" "bpm_ok t" "keeps_but pid s t" "page_table t pid = Some f"
      "pin_count pid t = pin_count pid s + 1" "page_view pid t = page_view pid s" "fd2pageno t = fd2pageno s"
      "settled pid t \<or> 1 < pin_count pid t"
    have tab: "disk_tables t = disk_tables s" by (rule preservesD [OF fetch_page_tables t(1)])
    have more: "bpm.more t = bpm.more s" by (rule preservesD [OF fetch_page_more t(1)])
    have log: "log_content t = log_content s" using fetch_page_log [OF quietD(3) [OF q] quietD(4) [OF q], of pid] t(1) by simp
    note paths = disk_tablesD(1) [OF tab]
    have "pool_ok t" by (rule pool_ok_keeps [OF quietD(1) [OF q] t(2,3)]) (simp_all add: t(7) no)
    moreover have "0 < pool_size t"
      using bpm_invD(5) [OF bpm_okD(1) [OF t(2)] t(4)] by simp
    moreover have "pin_count r t = (if r = pid then 1 else 0)" for r
      using keeps_butD(3) [OF t(3), of r] t(5) quietD(5) [OF q] by simp
    ultimately have "held pid f t"
      using log_safe_keeps [OF quietD(4) [OF q] t(3) paths path] t(4) by (simp add: held_def)
    moreover have "views [pid \<mapsto> page_view pid s] s t" by (rule keeps_views [OF t(3) paths t(6)]) (use no in auto)
    then have "views Map.empty s t" by (rule views_same)
    moreover have "settled pid t" using t(5,8) quietD(5) [OF q, of pid] by auto
    ultimately show ?thesis using that t(1,7) tab more log by (simp add: same_env_def)
  next
    assume full: "\<And>f. f < pool_size s \<Longrightarrow> 0 < pin_count (pg_id (pages s f)) s"
    have "0 < pool_size s" using q by (simp add: quiet_def)
    then show ?thesis using full [of 0] quietD(5) [OF q] by simp
  qed
qed

lemma unpin_held:
  assumes h: "held pid f s" and d: "d \<or> settled pid s"
  obtains t where "unpin_page pid d s = (Inr True, t)" and "quiet t" and "views Map.empty s t"
    and "same_env s t" and "fd2pageno t = fd2pageno s"
proof -
  note s = heldD [OF h]
  have pos: "0 < pin_count pid s" by (simp add: s(9))
  have honest: "d \<or> 1 < pin_count pid s \<or> settled pid s" using d by blast
  obtain t where t: "unpin_page pid d s = (Inr True, t)" "bpm_ok t" "keeps_but pid s t"
    "page_table t = page_table s" "pin_count pid t = pin_count pid s - 1"
    "page_view pid t = page_view pid s" "fd2pageno t = fd2pageno s"
    by (rule unpin_page_spec [OF s(2) pos honest])
  have tab: "disk_tables t = disk_tables s" by (rule preservesD [OF unpin_page_tables t(1)])
  have more: "bpm.more t = bpm.more s" by (rule preservesD [OF unpin_page_more t(1)])
  have log: "log_content t = log_content s" using unpin_page_log [of pid d s] t(1) by simp
  note paths = disk_tablesD(1) [OF tab]
  have "pool_ok t"
    by (rule pool_ok_keeps [OF s(1) t(2,3)]) (use pool_okD(2) [OF s(1,5)] in \<open>simp_all add: t(7)\<close>)
  moreover have "0 < pool_size t" using bpm_invD(5) [OF bpm_okD(1) [OF t(2)], of pid f] t(4) s(5) by simp
  moreover have "log_safe t" using s(4) t(4) paths by (simp add: log_safe_def)
  moreover have "pin_count r t = 0" for r
    using keeps_butD(3) [OF t(3), of r] t(5) h by (auto simp: held_def)
  ultimately have "quiet t" by (simp add: quiet_def)
  moreover have "views [pid \<mapsto> page_view pid s] s t" by (rule keeps_views [OF t(3) paths t(6)]) (simp add: t(4) s(5))
  then have "views Map.empty s t" by (rule views_same)
  ultimately show ?thesis using that t(1,7) tab more log by (simp add: same_env_def)
qed

lemma write_held:
  assumes h: "held pid f s"
  shows "held pid f (write_frame f m s)" and "views [pid \<mapsto> page_trunc m] s (write_frame f m s)"
    and "same_env s (write_frame f m s)" and "fd2pageno (write_frame f m s) = fd2pageno s"
    and "pg_data (pages (write_frame f m s) f) = m"
proof -
  note s = heldD [OF h]
  have pos: "0 < pin_count pid s" by (simp add: s(9))
  note w = write_frame_spec [OF s(2,5) pos, of m]
  have tab: "disk_tables (write_frame f m s) = disk_tables s" by (simp add: write_frame_def)
  note paths = disk_tablesD(1) [OF tab]
  have "pool_ok (write_frame f m s)"
    by (rule pool_ok_keeps [OF s(1) w(1,2)]) (use pool_okD(2) [OF s(1,5)] in \<open>simp_all add: w(6)\<close>)
  moreover have "log_safe (write_frame f m s)" using s(4) w(3) paths by (simp add: log_safe_def)
  moreover have "pin_count r (write_frame f m s) = (if r = pid then 1 else 0)" for r
    using keeps_butD(3) [OF w(2), of r] w(4) h by (simp add: held_def)
  ultimately show "held pid f (write_frame f m s)"
    using h w(3) by (simp add: held_def write_frame_def set_page_def)
  show "views [pid \<mapsto> page_trunc m] s (write_frame f m s)"
    by (rule keeps_views [OF w(2) paths w(5)]) (simp add: s(5))
  show "same_env s (write_frame f m s)"
    by (simp add: same_env_def tab write_frame_def log_content_def)
  show "fd2pageno (write_frame f m s) = fd2pageno s" by (rule w(6))
  show "pg_data (pages (write_frame f m s) f) = m" by (simp add: write_frame_def set_page_def)
qed

lemma new_quiet:
  assumes q: "quiet s" and new: "new = \<lparr>pid_fd = fd, pid_no = fd2pageno s fd\<rparr>" and tp: "tpage new s"
    and fd: "fd < MAX_FD" and no: "fd2pageno s fd \<noteq> 0"
  obtains f t where "new_page \<lparr>pid_fd = fd, pid_no = n0\<rparr> s = (Inr (Some f, new), t)" and "held new f t"
    and "views [new \<mapsto> zero_mem] s t" and "same_env s t" and "fd2pageno t = (fd2pageno s)(fd := fd2pageno s fd + 1)"
proof -
  note ok = quietD(2) [OF q]
  let ?pid = "\<lparr>pid_fd = fd, pid_no = n0\<rparr>"
  have io: "page_io new s" and path: "fd_paths s (pid_fd new) \<noteq> Some LOG_FILE_NAME" using tp by (simp_all add: tpage_def)
  have fresh: "page_table s new = None"
  proof (rule ccontr)
    assume "page_table s new \<noteq> None"
    then obtain f where "page_table s new = Some f" by blast
    from pool_okD(2) [OF quietD(1) [OF q] this] show False by (simp add: new)
  qed
  have eq: "new = ?pid\<lparr>pid_no := fd2pageno s (pid_fd ?pid)\<rparr>" by (simp add: new)
  have fd': "pid_fd ?pid < MAX_FD" using fd by simp
  show ?thesis
  proof (rule new_page_spec [OF ok eq fd' io fresh])
    fix f t
    assume t: "new_page ?pid s = (Inr (Some f, new), t)" "bpm_ok t" "keeps_but new s t" "page_table t new = Some f"
      "pin_count new t = 1" "page_view new t = zero_mem"
      "fd2pageno t = (fd2pageno s)(pid_fd ?pid := fd2pageno s (pid_fd ?pid) + 1)"
    have tab: "disk_tables t = disk_tables s" by (rule preservesD [OF new_page_tables t(1)])
    have more: "bpm.more t = bpm.more s" by (rule preservesD [OF new_page_more t(1)])
    have log: "log_content t = log_content s" using new_page_log [OF quietD(3) [OF q] quietD(4) [OF q], of ?pid] t(1) by simp
    note paths = disk_tablesD(1) [OF tab]
    have "pool_ok t" by (rule pool_ok_keeps [OF quietD(1) [OF q] t(2,3)]) (simp_all add: t(7) new)
    moreover have "0 < pool_size t"
      using bpm_invD(5) [OF bpm_okD(1) [OF t(2)] t(4)] by simp
    moreover have "pin_count r t = (if r = new then 1 else 0)" for r
      using keeps_butD(3) [OF t(3), of r] t(5) quietD(5) [OF q] by simp
    ultimately have "held new f t"
      using log_safe_keeps [OF quietD(4) [OF q] t(3) paths path] t(4) by (simp add: held_def)
    moreover have "views [new \<mapsto> zero_mem] s t" by (rule keeps_views [OF t(3) paths t(6)]) (use no in \<open>simp add: new\<close>)
    ultimately show ?thesis using that t(1,7) tab more log by (simp add: same_env_def)
  next
    assume full: "\<And>f. f < pool_size s \<Longrightarrow> 0 < pin_count (pg_id (pages s f)) s"
    have "0 < pool_size s" using q by (simp add: quiet_def)
    then show ?thesis using full [of 0] quietD(5) [OF q] by simp
  qed
qed

section \<open>Writes that bypass the pool\<close>

text \<open>
  A change of the disk behind the pool's back is harmless for the pages \<open>Q\<close> whose disk content it
  leaves alone, when all pages in the pool are among them.
\<close>

definition same_pool :: "'a bpm_scheme \<Rightarrow> 'a bpm_scheme \<Rightarrow> bool" where
  "same_pool s t \<longleftrightarrow> pool_size t = pool_size s \<and> pages t = pages s \<and> page_table t = page_table s \<and>
     free_list t = free_list s \<and> frame_replacer t = frame_replacer s \<and> fd2pageno t = fd2pageno s"

lemma disk_change:
  assumes ok: "pool_ok s" and pool: "same_pool s t" and wf: "disk_wf t"
    and Q: "\<And>q. tpage q s \<Longrightarrow> q \<noteq> hole \<Longrightarrow> tpage q t \<and> disk_page (pid_fd q) (pid_no q) t = disk_page (pid_fd q) (pid_no q) s"
    and hole: "tpage hole s \<Longrightarrow> tpage hole t" "page_table s hole = None" and safe: "log_safe s"
  shows "pool_ok t" and "log_safe t" and "pin_count q t = pin_count q s"
    and "tpage q s \<Longrightarrow> q \<noteq> hole \<Longrightarrow> page_view q t = page_view q s"
    and "tpage q s \<Longrightarrow> settled q s \<Longrightarrow> q \<noteq> hole \<Longrightarrow> settled q t"
proof -
  have p: "pool_size t = pool_size s" "pages t = pages s" "page_table t = page_table s"
     "free_list t = free_list s" "frame_replacer t = frame_replacer s" "fd2pageno t = fd2pageno s"
    using pool by (simp_all add: same_pool_def)
  note bok = pool_okD(1) [OF ok]
  have tp: "tpage q s" "q \<noteq> hole" if "page_table s q = Some f" for q f
    using resident_io [OF bok that] safe that hole(2) by (auto simp: tpage_def log_safe_def)
  have "bpm_inv t" using bpm_inv_cong [of t s] bpm_okD(1) [OF bok] p by simp
  moreover have "bpm_coherent t"
    unfolding bpm_coherent_def p
    using bpm_coherentD [OF bpm_okD(2) [OF bok]] Q [OF tp] by simp
  moreover have "bpm_io t"
    unfolding bpm_io_def p using wf Q [OF tp] by (auto simp: tpage_def page_io_def)
  ultimately have "bpm_ok t" by (simp add: bpm_ok_def)
  then show "pool_ok t" using ok by (simp add: pool_ok_def p)
  show "log_safe t" unfolding log_safe_def p using Q [OF tp] by (auto simp: tpage_def)
  show "pin_count q t = pin_count q s" by (simp add: pin_count_def p split: option.splits)
  show v: "page_view q t = page_view q s" if "tpage q s" "q \<noteq> hole" for q
    using Q [OF that] by (simp add: page_view_def p split: option.splits)
  show "settled q t" if "tpage q s" "settled q s" "q \<noteq> hole"
    using v [OF that(1,3)] Q [OF that(1,3)] that(2) by (simp add: settled_def synced_def p)
qed

lemma disk_change_held:
  assumes h: "held pid f s" and pool: "same_pool s t" and wf: "disk_wf t"
    and Q: "\<And>q. tpage q s \<Longrightarrow> q \<noteq> hole \<Longrightarrow> tpage q t \<and> disk_page (pid_fd q) (pid_no q) t = disk_page (pid_fd q) (pid_no q) s"
    and hole: "tpage hole s \<Longrightarrow> tpage hole t" "page_table s hole = None"
  shows "held pid f t" and "tpage hole s \<Longrightarrow> views [hole \<mapsto> page_view hole t] s t" and "\<not> tpage hole s \<Longrightarrow> views Map.empty s t"
proof -
  note s = heldD [OF h]
  note c = disk_change [OF s(1) pool wf Q hole s(4)]
  have p: "pool_size t = pool_size s" "page_table t = page_table s"
    using pool by (simp_all add: same_pool_def)
  show "held pid f t"
    using h c(1-3) by (simp add: held_def p)
  show "tpage hole s \<Longrightarrow> views [hole \<mapsto> page_view hole t] s t" and "\<not> tpage hole s \<Longrightarrow> views Map.empty s t"
    using c(4) Q hole by (auto simp: views_def p)
qed

lemma write_part:
  assumes io: "io_ok fd p d" and n: "n \<le> PAGE_SIZE"
  obtains fs fds where "write_page fd p buf n d = (Inr (), d\<lparr>os_files := fs, os_fds := fds\<rparr>)"
    and "\<And>fd' p'. io_ok fd' p' (d\<lparr>os_files := fs, os_fds := fds\<rparr>) = io_ok fd' p' d"
    and "\<And>fd' p'. io_ok fd' p' d \<Longrightarrow> (fd', p') \<noteq> (fd, p) \<Longrightarrow>
      disk_page fd' p' (d\<lparr>os_files := fs, os_fds := fds\<rparr>) = disk_page fd' p' d"
proof -
  obtain path pos f where fd: "os_fds d fd = Some (path, pos)" "os_files d path = Some f" "page_in_range p" "disk_wf d" "file_wf f"
    using io by (elim io_okE)
  let ?f = "file_write f (page_pos p) buf n"
  let ?fs = "(os_files d)(path \<mapsto> ?f)" and ?fds = "(os_fds d)(fd \<mapsto> (path, page_pos p + n))"
  let ?d = "d\<lparr>os_files := ?fs, os_fds := ?fds\<rparr>"
  have eq: "write_page fd p buf n d = (Inr (), ?d)" by (rule write_page_eq [OF fd(1-3)])
  have wf: "disk_wf ?d" by (rule disk_wf_write [OF fd(4,1) file_wf_write [OF fd(5)]])
  have io': "io_ok fd' p' ?d = io_ok fd' p' d" for fd' p'
    using wf fd(1,4) by (auto simp: io_ok_def fd_open_def)
  have "disk_page fd' p' ?d = disk_page fd' p' d" if q: "io_ok fd' p' d" "(fd', p') \<noteq> (fd, p)" for fd' p'
  proof -
    obtain path' pos' f' where fd': "os_fds d fd' = Some (path', pos')" "os_files d path' = Some f'" "page_in_range p'"
      using q(1) by (elim io_okE)
    show ?thesis
    proof (cases "fd' = fd")
      case False
      then have "path' \<noteq> path" using disk_wf_inj [OF fd(4,1)] fd'(1) by blast
      then show ?thesis using False fd' by (simp add: disk_page_def)
    next
      case True
      with q(2) have ne: "p' \<noteq> p" by simp
      have "fbytes ?f (page_pos p' + i) = fbytes f (page_pos p' + i)" if "i < PAGE_SIZE" for i
      proof -
        have "nat p' * 4096 + i < nat p * 4096 \<or> nat p * 4096 + 4096 \<le> nat p' * 4096 + i"
        proof (cases "nat p' < nat p")
          case True
          then have "Suc (nat p') * 4096 \<le> nat p * 4096" by (intro mult_le_mono1 Suc_leI)
          then show ?thesis using that by (simp add: PAGE_SIZE_def)
        next
          case False
          then have "nat p < nat p'" using ne fd(3) fd'(3) by (auto simp: page_in_range_def)
          then have "Suc (nat p) * 4096 \<le> nat p' * 4096" by (intro mult_le_mono1 Suc_leI)
          then show ?thesis by simp
        qed
        then show ?thesis using n by (auto simp: file_write_def mem_copy_def page_pos_def PAGE_SIZE_def)
      qed
      moreover have "path' = path" "f' = f" using True fd fd' by auto
      ultimately show ?thesis
        using True fd fd' by (simp add: disk_page_def page_trunc_def fun_eq_iff)
    qed
  qed
  then show ?thesis using that [OF eq io'] by blast
qed

text \<open>Part of a header page written straight to disk while page \<open>pid\<close> is held.\<close>

lemma write_header:
  fixes s :: "'a bpm_scheme"
  assumes h: "held pid f s" and hdr: "hp = \<lparr>pid_fd = fd, pid_no = p\<rparr>" and tp: "tpage hp s"
    and no: "page_table s hp = None" and n: "n \<le> PAGE_SIZE"
  obtains t where "write_page fd p buf n s = (Inr (), t)" and "held pid f t" and "views [hp \<mapsto> page_view hp t] s t"
    and "same_env s t" and "fd2pageno t = fd2pageno s" and "pages t = pages s"
proof -
  note s = heldD [OF h]
  have io: "io_ok fd p s" and path: "fd_paths s fd \<noteq> Some LOG_FILE_NAME" using tp by (simp_all add: tpage_def page_io_def hdr)
  obtain fs fds where w: "write_page fd p buf n s = (Inr (), s\<lparr>os_files := fs, os_fds := fds\<rparr>)"
    "\<And>fd' p'. io_ok fd' p' (s\<lparr>os_files := fs, os_fds := fds\<rparr>) = io_ok fd' p' s"
    "\<And>fd' p'. io_ok fd' p' s \<Longrightarrow> (fd', p') \<noteq> (fd, p) \<Longrightarrow>
      disk_page fd' p' (s\<lparr>os_files := fs, os_fds := fds\<rparr>) = disk_page fd' p' s"
    by (rule write_part [OF io n, where buf = buf]) (rule that)
  let ?t = "s\<lparr>os_files := fs, os_fds := fds\<rparr>"
  have tab: "disk_tables ?t = disk_tables s" by (rule preservesD [OF write_page_tables w(1)])
  have more: "bpm.more ?t = bpm.more s" by simp
  have log: "log_content ?t = log_content s" using write_page_log [OF path, of p buf n] w(1) by simp
  have pool: "same_pool s ?t" by (simp add: same_pool_def)
  have wf: "disk_wf ?t" using w(2) [of fd p] io by (simp add: io_ok_def)
  have tps: "tpage q ?t = tpage q s" for q
    using disk_tablesD(1) [OF tab] w(2) by (simp add: tpage_def page_io_def)
  have Q: "tpage q ?t \<and> disk_page (pid_fd q) (pid_no q) ?t = disk_page (pid_fd q) (pid_no q) s" if "tpage q s" "q \<noteq> hp" for q
  proof -
    have "(pid_fd q, pid_no q) \<noteq> (fd, p)" using that(2) by (cases q) (auto simp: hdr)
    moreover have "io_ok (pid_fd q) (pid_no q) s" using that(1) by (simp add: tpage_def page_io_def)
    ultimately show ?thesis using w(3) that(1) tps by blast
  qed
  note c = disk_change_held [OF h pool wf Q _ no]
  show ?thesis
  proof (rule that [OF w(1)])
    show "held pid f ?t" "views [hp \<mapsto> page_view hp ?t] s ?t" using c(1,2) tps tp by blast+
    show "same_env s ?t" using tab more log by (simp add: same_env_def)
  qed simp_all
qed

text \<open>A record is logged and forced to disk while a page is held.\<close>

definition log_idle :: "nat \<Rightarrow> int \<Rightarrow> log_record list \<Rightarrow> 'a logm_scheme \<Rightarrow> bool" where
  "log_idle base l0 ds s \<longleftrightarrow> log_rep base l0 ds [] s \<and> persist_lsn s < global_lsn s"

text \<open>\<open>log_ahead\<close>: the record gets a number and goes to the buffer, and the buffer to the file.\<close>

definition log_ahead :: "log_record \<Rightarrow> ('a logm_scheme, unit) op" where
  "log_ahead r = bindE (add_log_to_buffer r) (\<lambda>(l, _). force_flush_log_to_disk l)"

lemma ensure_log_fd_paths:
  assumes "disk_wf d" and "fd_paths d fd = Some path"
  shows "fd_paths (snd (ensure_log_fd d)) fd = Some path"
proof -
  have "fd \<noteq> os_pick d (dom (os_fds d))"
    using disk_wf_new_fd [OF assms(1)] assms(2) by (auto simp: fd_paths_def)
  then show ?thesis
    using assms(2) by (auto simp: ensure_log_fd_def open_file_def os_open_def fd_paths_def bindE_def Let_def)
qed

lemma write_log_paths:
  assumes "disk_wf d" and "fd_paths d fd = Some path"
  shows "fd_paths (snd (write_log buf n d)) fd = Some path"
proof -
  obtain r e where e: "ensure_log_fd d = (r, e)" by fastforce
  then have p: "fd_paths e fd = Some path" using ensure_log_fd_paths [OF assms] by simp
  have "fd_paths (snd (os_write g buf n d')) fd = Some path" if "fd_paths d' fd = Some path" for g and d' :: "'a disk_scheme"
    using that by (auto simp: os_write_def fd_paths_def split: option.splits)
  moreover have "fd_paths (os_lseek_end g d') fd = Some path" if "fd_paths d' fd = Some path" for g and d' :: "'a disk_scheme"
    using that by (auto simp: os_lseek_end_def fd_paths_def split: option.splits)
  ultimately show ?thesis
    using p by (cases r) (simp_all add: write_log_def bindE_def e Let_def case_prod_unfold)
qed

lemma log_ready_dwf: "log_ready s \<Longrightarrow> disk_wf s"
  by (simp add: log_ready_def)

lemma write_out_shape:
  fixes s :: "'a logm_scheme"
  assumes rep: "log_rep base l0 ds bs s" and some: "bs \<noteq> []"
  obtains f fds p2f f2p fd where "write_out s = (Inr (), s\<lparr>os_files := (os_files s)(LOG_FILE_NAME \<mapsto> f), os_fds := fds,
      path2fd := p2f, fd2path := f2p, log_fd := fd, log_offset := 0, persist_lsn := c_int (global_lsn s - 1)\<rparr>)"
    and "\<And>fd path. fd_paths s fd = Some path \<Longrightarrow> map_option fst (fds fd) = Some path"
proof -
  have r: "log_ready s" "log_offset s = int (length (log_image bs))" using rep by (simp_all add: log_rep_def)
  obtain f0 where f0: "os_files s LOG_FILE_NAME = Some f0" using r(1) by (auto simp: log_ready_def)
  have pos: "0 < length (log_image bs)" using some log_image_empty by fastforce
  obtain t fds p2f f2p fd where t: "write_log (log_buffer s) (length (log_image bs)) s = (Inr (), t)"
    "t = s\<lparr>os_files := (os_files s)(LOG_FILE_NAME \<mapsto> file_write f0 (fsize f0) (log_buffer s) (length (log_image bs))),
          os_fds := fds, path2fd := p2f, fd2path := f2p, log_fd := fd\<rparr>"
    by (rule write_log_appends [OF r(1) f0])
  have "write_out s = (Inr (), t\<lparr>log_offset := 0, persist_lsn := c_int (global_lsn t - 1)\<rparr>)"
    using pos t(1) by (simp add: write_out_def bindE_def r(2))
  moreover have "map_option fst (fds fd) = Some path" if "fd_paths s fd = Some path" for fd path
    using write_log_paths [OF log_ready_dwf [OF r(1)] that, of "log_buffer s" "length (log_image bs)"] t by (simp add: fd_paths_def)
  ultimately show ?thesis using that by (simp add: t(2))
qed

lemma disk_page_path:
  assumes "os_fds d fd = Some (path, pos)" and "os_fds d' fd = Some (path, pos')" and "os_files d' path = os_files d path"
  shows "disk_page fd p d' = disk_page fd p d"
  using assms by (simp add: disk_page_def)

lemma log_ahead_spec:
  fixes s :: "'a logm_scheme"
  assumes ok: "pool_ok s" "log_safe s" and idle: "log_idle base l0 ds s" and r: "log_ok r"
    and num: "global_lsn s + 1 < 2 ^ 31" and len: "log_tot_len (hdr r) \<le> int LOG_BUFFER_SIZE"
  obtains t where "log_ahead r s = (Inr (), t)" and "pool_ok t" and "log_safe t" and "same_pool s t" and "views Map.empty s t"
    and "log_idle base l0 (ds @ [set_lsn (global_lsn s) r]) t" and "global_lsn t = global_lsn s + 1" and "logm.more t = logm.more s"
    and "\<And>q. pin_count q t = pin_count q s"
proof -
  have rep: "log_rep base l0 ds [] s" and low: "persist_lsn s < global_lsn s" using idle by (simp_all add: log_idle_def)
  have off: "log_offset s + log_tot_len (hdr r) \<le> int LOG_BUFFER_SIZE" using rep len by (simp add: log_rep_def)
  let ?r = "set_lsn (global_lsn s) r"
  obtain u where u: "add_log_to_buffer r s = (Inr (global_lsn s, ?r), u)" "log_rep base l0 ds ([] @ [?r]) u"
    "global_lsn u = global_lsn s + 1" "persist_lsn u = persist_lsn s"
    by (rule add_log_rep [OF rep r num off])
  obtain b n where ub: "u = s\<lparr>log_buffer := b, log_offset := n, global_lsn := global_lsn s + 1\<rparr>"
  proof -
    have "\<not> is_full (c_int (log_tot_len (hdr r))) s" using u(1) by (auto simp: add_log_to_buffer_def)
    then have "u = s\<lparr>log_buffer := serialize ?r (log_buffer s) (nat (log_offset s)),
        log_offset := c_int (log_offset s + log_tot_len (hdr ?r)), global_lsn := c_int (global_lsn s + 1)\<rparr>"
      using u(1) by (simp add: add_log_to_buffer_def Let_def)
    then show ?thesis using that u(3) by simp
  qed
  from u(2) have rep1: "log_rep base l0 ds [?r] u" by simp
  obtain f fds p2f f2p fd where w: "write_out u = (Inr (), u\<lparr>os_files := (os_files u)(LOG_FILE_NAME \<mapsto> f), os_fds := fds,
      path2fd := p2f, fd2path := f2p, log_fd := fd, log_offset := 0, persist_lsn := c_int (global_lsn u - 1)\<rparr>)"
    and paths: "\<And>fd path. fd_paths u fd = Some path \<Longrightarrow> map_option fst (fds fd) = Some path"
    by (rule write_out_shape [OF rep1], simp, rule that)
  let ?t = "u\<lparr>os_files := (os_files u)(LOG_FILE_NAME \<mapsto> f), os_fds := fds,
      path2fd := p2f, fd2path := f2p, log_fd := fd, log_offset := 0, persist_lsn := c_int (global_lsn u - 1)\<rparr>"
  obtain t' where "write_out u = (Inr (), t')" "log_rep base l0 (ds @ [?r]) [] t'" by (rule write_out_rep [OF rep1])
  then have rep2: "log_rep base l0 (ds @ [?r]) [] ?t" using w by simp
  have "log_ahead r s = force_flush_log_to_disk (global_lsn s) u"
    by (simp add: log_ahead_def bindE_def u(1))
  also have "\<dots> = (Inr (), ?t)" using w low u(4) by (simp add: force_flush_log_to_disk_def)
  finally have eq: "log_ahead r s = (Inr (), ?t)" .
  have pool: "same_pool s ?t" by (simp add: same_pool_def ub)
  have wf: "disk_wf ?t" using rep2 by (simp add: log_rep_def log_ready_dwf)
  have up: "map_option fst (fds fd) = Some path" if "fd_paths s fd = Some path" for fd path
    using paths [of fd path] that by (simp add: ub fd_paths_def)
  have Q: "tpage q ?t \<and> disk_page (pid_fd q) (pid_no q) ?t = disk_page (pid_fd q) (pid_no q) s" if q: "tpage q s" for q
  proof -
    have io: "io_ok (pid_fd q) (pid_no q) s" and ne: "fd_paths s (pid_fd q) \<noteq> Some LOG_FILE_NAME"
      using q by (simp_all add: tpage_def page_io_def)
    obtain path pos where p: "os_fds s (pid_fd q) = Some (path, pos)" using io by (elim io_okE)
    then have "fd_paths s (pid_fd q) = Some path" by (simp add: fd_paths_def)
    with up ne obtain pos' where p': "fds (pid_fd q) = Some (path, pos')" "path \<noteq> LOG_FILE_NAME" by fastforce
    have "disk_page (pid_fd q) (pid_no q) ?t = disk_page (pid_fd q) (pid_no q) s"
      by (rule disk_page_path [OF p]) (use p' in \<open>simp_all add: ub\<close>)
    moreover have "tpage q ?t"
      using wf io p' by (simp add: tpage_def page_io_def io_ok_def fd_open_def fd_paths_def)
    ultimately show ?thesis by blast
  qed
  let ?hole = "\<lparr>pid_fd = - 1, pid_no = 0\<rparr>"
  have none: "\<not> page_io ?hole s" using disk_wf_fds [of s "- 1"] by (auto simp: page_io_def io_ok_def fd_open_def)
  then have ht: "\<not> tpage ?hole s" by (simp add: tpage_def)
  have hn: "page_table s ?hole = None"
  proof (rule ccontr)
    assume "page_table s ?hole \<noteq> None"
    then obtain g where "page_table s ?hole = Some g" by blast
    from resident_io [OF pool_okD(1) [OF ok(1)] this] none show False by simp
  qed
  note c = disk_change [OF ok(1) pool wf _ _ hn ok(2)]
  show ?thesis
  proof (rule that [OF eq])
    show "pool_ok ?t" "log_safe ?t" "pin_count q ?t = pin_count q s" for q
      using c(1-3) Q ht by blast+
    show "same_pool s ?t" by (rule pool)
    have "page_view q ?t = page_view q s" if "tpage q s" for q
      by (rule c(4)) (use Q ht that in blast)+
    then show "views Map.empty s ?t" using Q by (simp add: views_def ub)
    have "c_int (global_lsn u - 1) = global_lsn s"
      using rep num u(3) by (simp add: log_rep_def int32_range_def)
    then show "log_idle base l0 (ds @ [?r]) ?t" using rep2 u(3) by (simp add: log_idle_def)
    show "global_lsn ?t = global_lsn s + 1" using u(3) by simp
    show "logm.more ?t = logm.more s" by (simp add: ub)
  qed
qed

lemma log_ahead_held:
  fixes s :: "'a logm_scheme"
  assumes h: "held pid f s" and idle: "log_idle base l0 ds s" and r: "log_ok r"
    and num: "global_lsn s + 1 < 2 ^ 31" and len: "log_tot_len (hdr r) \<le> int LOG_BUFFER_SIZE"
  obtains t where "log_ahead r s = (Inr (), t)" and "held pid f t" and "pages t = pages s" and "views Map.empty s t"
    and "log_idle base l0 (ds @ [set_lsn (global_lsn s) r]) t" and "global_lsn t = global_lsn s + 1" and "logm.more t = logm.more s"
    and "fd2pageno t = fd2pageno s"
proof -
  note s = heldD [OF h]
  obtain t where t: "log_ahead r s = (Inr (), t)" "pool_ok t" "log_safe t" "same_pool s t" "views Map.empty s t"
    "log_idle base l0 (ds @ [set_lsn (global_lsn s) r]) t" "global_lsn t = global_lsn s + 1" "logm.more t = logm.more s"
    "\<And>q. pin_count q t = pin_count q s"
    by (rule log_ahead_spec [OF s(1,4) idle r num len]) (rule that)
  have "held pid f t" using h t(2,3,4,9) by (simp add: held_def same_pool_def)
  with t show ?thesis using that by (simp add: same_pool_def)
qed

lemma log_ahead_quiet:
  fixes s :: "'a logm_scheme"
  assumes q: "quiet s" and idle: "log_idle base l0 ds s" and r: "log_ok r"
    and num: "global_lsn s + 1 < 2 ^ 31" and len: "log_tot_len (hdr r) \<le> int LOG_BUFFER_SIZE"
  obtains t where "log_ahead r s = (Inr (), t)" and "quiet t" and "views Map.empty s t"
    and "log_idle base l0 (ds @ [set_lsn (global_lsn s) r]) t" and "global_lsn t = global_lsn s + 1" and "logm.more t = logm.more s"
    and "fd2pageno t = fd2pageno s"
proof -
  obtain t where t: "log_ahead r s = (Inr (), t)" "pool_ok t" "log_safe t" "same_pool s t" "views Map.empty s t"
    "log_idle base l0 (ds @ [set_lsn (global_lsn s) r]) t" "global_lsn t = global_lsn s + 1" "logm.more t = logm.more s"
    "\<And>q. pin_count q t = pin_count q s"
    by (rule log_ahead_spec [OF quietD(1) [OF q] quietD(4) [OF q] idle r num len]) (rule that)
  have "quiet t" using q t(2,3,4,9) by (simp add: quiet_def same_pool_def)
  with t show ?thesis using that by (simp add: same_pool_def)
qed

text \<open>The log stays idle while the pool works.\<close>

lemma bpm_more_fields:
  fixes s t :: "'a logm_scheme"
  assumes "bpm.more t = bpm.more s"
  shows "log_buffer t = log_buffer s" and "log_offset t = log_offset s" and "global_lsn t = global_lsn s"
    and "persist_lsn t = persist_lsn s" and "logm.more t = logm.more s"
  using assms by (cases s, cases t, simp)+

lemma log_idle_env:
  assumes idle: "log_idle base l0 ds s" and env: "same_env s t" and wf: "disk_wf t"
  shows "log_idle base l0 ds t"
proof -
  note m = bpm_more_fields [of t s] and e = env [unfolded same_env_def]
  have "log_ready t" using log_ready_tables [of t s] e wf idle by (simp add: log_idle_def log_rep_def)
  then show ?thesis
    using idle e m unfolding log_idle_def log_rep_def by (simp add: log_content_def)
qed

end
