(* ===== verification/RmFile.thy ===== *)
theory RmFile
  imports PoolClient Bitmap
begin

text \<open>
  The record files, \<^verbatim>\<open>record/rm_defs.h\<close>, \<^verbatim>\<open>record/rm_file_handle.{h,cpp}\<close> (without the MVCC half,
  which is in the theory VersionRead), \<^verbatim>\<open>record/rm_manager.h\<close> and \<^verbatim>\<open>record/rm_scan.cpp\<close>.

  An \<open>RmFileHandle\<close> is the descriptor of its file, and its \<open>file_hdr_\<close> is the entry of \<open>file_hdrs\<close> for
  it. A page handle is the frame of its page, \<open>None\<close> when its pointers are null; \<open>page_hdr\<close>, \<open>bitmap\<close>
  and \<open>slots\<close> are addresses in the frame. A \<open>char*\<close> argument is the list of the bytes that may be read
  through it, and reading beyond them is the error \<open>OutOfRange\<close>. \<open>RmRecord\<close> is the list of its bytes.
\<close>

section \<open>Data\<close>

datatype ConcurrencyMode = TWO_PHASE_LOCKING | BASIC_TO | MVCC

definition RM_NO_PAGE :: int where "RM_NO_PAGE = - 2"
definition RM_FILE_HDR_PAGE :: int where "RM_FILE_HDR_PAGE = 0"
definition RM_FIRST_RECORD_PAGE :: int where "RM_FIRST_RECORD_PAGE = 1"
definition RM_MAX_RECORD_SIZE :: int where "RM_MAX_RECORD_SIZE = 512"
definition OFFSET_PAGE_HDR :: nat where "OFFSET_PAGE_HDR = 4"

lemmas [rmdb_consts] = RM_NO_PAGE_def RM_FILE_HDR_PAGE_def RM_FIRST_RECORD_PAGE_def RM_MAX_RECORD_SIZE_def
  OFFSET_PAGE_HDR_def

record TupleMeta =
  meta_ts :: int
  meta_deleted :: bool

definition sizeof_TupleMeta :: int where "sizeof_TupleMeta = 16"

record rm_file_hdr =
  record_size :: int
  num_pages :: int
  num_records_per_page :: int
  first_free_page_no :: int
  bitmap_size :: int

definition sizeof_RmFileHdr :: nat where "sizeof_RmFileHdr = 20"

definition hdr_bytes :: "rm_file_hdr \<Rightarrow> byte list" where
  "hdr_bytes h = enc_le 4 (record_size h) @ enc_le 4 (num_pages h) @ enc_le 4 (num_records_per_page h) @
     enc_le 4 (first_free_page_no h) @ enc_le 4 (bitmap_size h)"

definition hdr_of_mem :: "mem \<Rightarrow> rm_file_hdr" where
  "hdr_of_mem m = \<lparr>record_size = load_i32 m 0, num_pages = load_i32 m 4, num_records_per_page = load_i32 m 8,
     first_free_page_no = load_i32 m 12, bitmap_size = load_i32 m 16\<rparr>"

text \<open>The members of a \<open>Context\<close> that the record layer looks at; \<open>ctx_txn\<close> is the transaction.\<close>

record Context =
  ctx_log :: bool
  ctx_txn :: "int option"
  ctx_txn_mgr :: bool
  ctx_tab :: string

record dbs = logm +
  concurrency_mode :: ConcurrencyMode
  file_hdrs :: "int \<rightharpoonup> rm_file_hdr"
  fhs :: "string \<rightharpoonup> int"

definition fh_hdr :: "int \<Rightarrow> ('a dbs_scheme, rm_file_hdr) op" where
  "fh_hdr fd = bindE getS (\<lambda>s. case file_hdrs s fd of None \<Rightarrow> raise NullDereference | Some h \<Rightarrow> ret h)"

definition set_hdr :: "int \<Rightarrow> rm_file_hdr \<Rightarrow> ('a dbs_scheme, unit) op" where
  "set_hdr fd h = updS (\<lambda>s. s\<lparr>file_hdrs := (file_hdrs s)(fd \<mapsto> h)\<rparr>)"

definition write_hdr :: "int \<Rightarrow> ('a dbs_scheme, unit) op" where
  "write_hdr fd = bindE (fh_hdr fd) (\<lambda>h.
     write_page fd RM_FILE_HDR_PAGE (mem_put zero_mem 0 (hdr_bytes h)) sizeof_RmFileHdr)"

section \<open>Page handles\<close>

definition addr_next_free :: nat where "addr_next_free = OFFSET_PAGE_HDR"
definition addr_num_records :: nat where "addr_num_records = OFFSET_PAGE_HDR + 4"
definition addr_bitmap :: nat where "addr_bitmap = OFFSET_PAGE_HDR + 8"

lemmas [rmdb_consts] = addr_next_free_def addr_num_records_def addr_bitmap_def sizeof_RmFileHdr_def
  sizeof_TupleMeta_def

definition get_slot :: "rm_file_hdr \<Rightarrow> int \<Rightarrow> nat" where
  "get_slot h slot_no = nat (int addr_bitmap + bitmap_size h + slot_no * record_size h)"

definition num_records :: "mem \<Rightarrow> int" where
  "num_records m = load_i32 m addr_num_records"

definition next_free_page_no :: "mem \<Rightarrow> int" where
  "next_free_page_no m = load_i32 m addr_next_free"

definition page_mem :: "nat \<Rightarrow> 'a bpm_scheme \<Rightarrow> mem" where
  "page_mem f s = pg_data (pages s f)"

definition poke_page :: "nat \<Rightarrow> (mem \<Rightarrow> mem) \<Rightarrow> ('a bpm_scheme, unit) op" where
  "poke_page f g = updS (\<lambda>s. write_frame f (g (page_mem f s)) s)"

text \<open>\<open>unpin_page(page_handle.page->get_page_id(), is_dirty)\<close>.\<close>

definition unpin_frame :: "nat \<Rightarrow> bool \<Rightarrow> ('a bpm_scheme, unit) op" where
  "unpin_frame f is_dirty = bindE getS (\<lambda>s. bindE (unpin_page (pg_id (pages s f)) is_dirty) (\<lambda>_. ret ()))"

text \<open>\<open>new char[n]\<close> of an \<open>RmRecord\<close>, and \<open>memcpy\<close> from a buffer.\<close>

definition new_record :: "int \<Rightarrow> ('s, unit) op" where
  "new_record n = (if n < 0 then raise BadArrayLength else ret ())"

definition memcpy_from :: "byte list \<Rightarrow> int \<Rightarrow> ('s, byte list) op" where
  "memcpy_from buf n = (if n \<le> int (length buf) then ret (take (nat n) buf) else raise (OutOfRange ''memcpy''))"

definition fetch_page_handle :: "int \<Rightarrow> int \<Rightarrow> ('a dbs_scheme, nat option) op" where
  "fetch_page_handle fd page_no = bindE (fh_hdr fd) (\<lambda>h.
     if page_no < RM_FIRST_RECORD_PAGE \<or> page_no \<ge> num_pages h then ret None
     else fetch_page \<lparr>pid_fd = fd, pid_no = page_no\<rparr>)"

definition create_new_page_handle :: "int \<Rightarrow> ('a dbs_scheme, nat option) op" where
  "create_new_page_handle fd = bindE (new_page \<lparr>pid_fd = fd, pid_no = INVALID_PAGE_ID\<rparr>) (\<lambda>(page, pid).
     case page of
       None \<Rightarrow> ret None
     | Some f \<Rightarrow>
         bindE (fh_hdr fd) (\<lambda>h.
         let h1 = h\<lparr>num_pages := c_int (num_pages h + 1)\<rparr>
         in bindE (poke_page f (\<lambda>m. store_i32 (store_i32 m addr_num_records 0) addr_next_free (first_free_page_no h1))) (\<lambda>_.
            bindE getS (\<lambda>s.
            let h2 = h1\<lparr>first_free_page_no := pid_no (pg_id (pages s f))\<rparr>
            in bindE (set_hdr fd h2) (\<lambda>_.
               bindE (poke_page f (\<lambda>m. bitmap_init addr_bitmap m (nat (bitmap_size h2)))) (\<lambda>_.
               bindE (write_hdr fd) (\<lambda>_. ret (Some f))))))))"

definition create_page_handle :: "int \<Rightarrow> ('a dbs_scheme, nat option) op" where
  "create_page_handle fd = bindE (fh_hdr fd) (\<lambda>h.
     if first_free_page_no h = - 1 then create_new_page_handle fd
     else if first_free_page_no h \<ge> 0 \<and> first_free_page_no h < num_pages h
     then bindE (fetch_page_handle fd (first_free_page_no h)) (\<lambda>p.
            case p of Some f \<Rightarrow> ret (Some f) | None \<Rightarrow> create_new_page_handle fd)
     else create_new_page_handle fd)"

definition release_page_handle :: "int \<Rightarrow> nat \<Rightarrow> ('a dbs_scheme, unit) op" where
  "release_page_handle fd f = bindE (fh_hdr fd) (\<lambda>h. bindE getS (\<lambda>s.
     let current_page_no = pid_no (pg_id (pages s f))
     in if current_page_no \<ge> 0 \<and> current_page_no < num_pages h
        then bindE (poke_page f (\<lambda>m. store_i32 m addr_next_free (first_free_page_no h))) (\<lambda>_.
             bindE (set_hdr fd (h\<lparr>first_free_page_no := current_page_no\<rparr>)) (\<lambda>_.
             write_hdr fd))
        else ret ()))"

primrec sum_records :: "int \<Rightarrow> int list \<Rightarrow> int \<Rightarrow> ('a dbs_scheme, int) op" where
  "sum_records fd [] acc = ret acc"
| "sum_records fd (p # ps) acc = bindE (fetch_page_handle fd p) (\<lambda>ph.
     case ph of
       None \<Rightarrow> sum_records fd ps acc
     | Some f \<Rightarrow> bindE getS (\<lambda>s.
         let acc' = c_int (acc + num_records (page_mem f s))
         in bindE (unpin_frame f False) (\<lambda>_. sum_records fd ps acc')))"

definition get_records_num :: "int \<Rightarrow> ('a dbs_scheme, int) op" where
  "get_records_num fd = bindE (fh_hdr fd) (\<lambda>h. sum_records fd [RM_FIRST_RECORD_PAGE..num_pages h - 1] 0)"

section \<open>Records\<close>

text \<open>\<open>is_record\<close> does not unpin the page, and reads through a null bitmap for a page that is not there.\<close>

definition is_record :: "int \<Rightarrow> rid \<Rightarrow> ('a dbs_scheme, bool) op" where
  "is_record fd r = bindE (fetch_page_handle fd (rid_page_no r)) (\<lambda>ph.
     case ph of
       None \<Rightarrow> raise NullDereference
     | Some f \<Rightarrow> bindE getS (\<lambda>s. ret (bitmap_is_set addr_bitmap (page_mem f s) (rid_slot_no r))))"

definition ctx_mvcc :: "Context option \<Rightarrow> 'a dbs_scheme \<Rightarrow> bool" where
  "ctx_mvcc ctx s \<longleftrightarrow> (case ctx of None \<Rightarrow> False | Some c \<Rightarrow> ctx_txn_mgr c \<and> concurrency_mode s = MVCC)"

text \<open>
  Outside MVCC mode the first eight bytes decide: a positive number is taken for a timestamp, and the
  first sixteen bytes are cut off. The comparison with \<open>UINT64_MAX\<close> is unsigned and always true.
\<close>

definition get_record :: "int \<Rightarrow> rid \<Rightarrow> Context option \<Rightarrow> ('a dbs_scheme, byte list option) op" where
  "get_record fd r ctx = bindE (fetch_page_handle fd (rid_page_no r)) (\<lambda>ph.
     case ph of
       None \<Rightarrow> ret None
     | Some f \<Rightarrow>
         bindE (fh_hdr fd) (\<lambda>h. bindE getS (\<lambda>s.
         let slot = get_slot h (rid_slot_no r); m = page_mem f s
         in if ctx_mvcc ctx s
            then bindE (new_record (record_size h)) (\<lambda>_. bindE (unpin_frame f False) (\<lambda>_.
                 ret (Some (mem_read m slot (nat (record_size h))))))
            else if load_i64 m slot > 0
            then let data_size = record_size h - sizeof_TupleMeta
                 in bindE (new_record data_size) (\<lambda>_. bindE (unpin_frame f False) (\<lambda>_.
                    ret (Some (mem_read m (slot + nat sizeof_TupleMeta) (nat data_size)))))
            else bindE (new_record (record_size h)) (\<lambda>_. bindE (unpin_frame f False) (\<lambda>_.
                 ret (Some (mem_read m slot (nat (record_size h)))))))))"

text \<open>The log record that an operation writes and forces to disk before it changes the page.\<close>

definition log_txn_id :: "Context \<Rightarrow> int" where
  "log_txn_id c = (case ctx_txn c of None \<Rightarrow> INVALID_TXN_ID | Some t \<Rightarrow> t)"

text \<open>The slot is filled, and \<open>num_records\<close>, the bitmap and the header follow; \<open>next\<close> is the new first free page.\<close>

definition fill_slot :: "rm_file_hdr \<Rightarrow> int \<Rightarrow> byte list \<Rightarrow> mem \<Rightarrow> mem" where
  "fill_slot h slot_no data m =
     (let m1 = mem_put m (get_slot h slot_no) data;
          m2 = store_i32 m1 addr_num_records (c_int (num_records m1 + 1))
      in bitmap_set addr_bitmap m2 slot_no)"

definition put_record :: "int \<Rightarrow> nat \<Rightarrow> int \<Rightarrow> byte list \<Rightarrow> ('a dbs_scheme, rid) op" where
  "put_record fd f slot_no buf = bindE (fh_hdr fd) (\<lambda>h.
     bindE (memcpy_from buf (record_size h)) (\<lambda>data.
     bindE (poke_page f (fill_slot h slot_no data)) (\<lambda>_.
     bindE getS (\<lambda>s.
     bindE (if num_records (page_mem f s) = num_records_per_page h
            then set_hdr fd (h\<lparr>first_free_page_no := RM_NO_PAGE\<rparr>) else ret ()) (\<lambda>_.
     bindE (unpin_frame f True) (\<lambda>_.
     ret \<lparr>rid_page_no = pid_no (pg_id (pages s f)), rid_slot_no = slot_no\<rparr>))))))"

definition insert_unlogged :: "int \<Rightarrow> byte list \<Rightarrow> ('a dbs_scheme, rid) op" where
  "insert_unlogged fd buf = bindE (create_page_handle fd) (\<lambda>ph.
     case ph of
       None \<Rightarrow> raise NullDereference
     | Some f \<Rightarrow>
         bindE (fh_hdr fd) (\<lambda>h. bindE getS (\<lambda>s.
         let slot_no = first_bit addr_bitmap False (page_mem f s) (num_records_per_page h)
         in if slot_no < num_records_per_page h then put_record fd f slot_no buf
            else bindE (unpin_frame f False) (\<lambda>_. ret invalid_rid))))"

definition insert_record :: "int \<Rightarrow> byte list \<Rightarrow> Context option \<Rightarrow> ('a dbs_scheme, rid) op" where
  "insert_record fd buf ctx = bindE (fh_hdr fd) (\<lambda>h0.
     case ctx of
       Some c \<Rightarrow>
         if ctx_log c
         then bindE (memcpy_from buf (record_size h0)) (\<lambda>data.
              bindE (create_page_handle fd) (\<lambda>ph.
              case ph of
                None \<Rightarrow> raise NullDereference
              | Some f \<Rightarrow>
                  bindE (fh_hdr fd) (\<lambda>h. bindE getS (\<lambda>s.
                  let slot_no = first_bit addr_bitmap False (page_mem f s) (num_records_per_page h)
                  in if slot_no < num_records_per_page h
                     then let r = \<lparr>rid_page_no = pid_no (pg_id (pages s f)), rid_slot_no = slot_no\<rparr>
                          in bindE (log_ahead (new_InsertLogRecord (log_txn_id c) data r (ctx_tab c))) (\<lambda>_.
                             put_record fd f slot_no buf)
                     else bindE (unpin_frame f False) (\<lambda>_. ret invalid_rid)))))
         else insert_unlogged fd buf
     | None \<Rightarrow> insert_unlogged fd buf)"

definition insert_record_at :: "int \<Rightarrow> rid \<Rightarrow> byte list \<Rightarrow> ('a dbs_scheme, unit) op" where
  "insert_record_at fd r buf = bindE (create_new_page_handle fd) (\<lambda>_.
     bindE (fetch_page_handle fd (rid_page_no r)) (\<lambda>ph.
     case ph of
       None \<Rightarrow> ret ()
     | Some f \<Rightarrow>
         bindE (fh_hdr fd) (\<lambda>h.
         bindE (memcpy_from buf (record_size h)) (\<lambda>data.
         bindE (poke_page f (fill_slot h (rid_slot_no r) data)) (\<lambda>_.
         bindE getS (\<lambda>s.
         bindE (if num_records (page_mem f s) = num_records_per_page h
                then set_hdr fd (h\<lparr>first_free_page_no := next_free_page_no (page_mem f s)\<rparr>) else ret ()) (\<lambda>_.
         unpin_frame f True)))))))"

text \<open>The log half of \<open>delete_record\<close> and \<open>update_record\<close>: the old value is read and logged, if it is there.\<close>

definition log_old :: "int \<Rightarrow> rid \<Rightarrow> Context option \<Rightarrow> (byte list \<Rightarrow> ('a dbs_scheme, log_record) op) \<Rightarrow> ('a dbs_scheme, unit) op" where
  "log_old fd r ctx mk =
     (case ctx of
        None \<Rightarrow> ret ()
      | Some c \<Rightarrow>
          if ctx_log c
          then bindE (get_record fd r ctx) (\<lambda>old.
               case old of None \<Rightarrow> ret () | Some v \<Rightarrow> bindE (mk v) log_ahead)
          else ret ())"

definition clear_slot :: "rm_file_hdr \<Rightarrow> int \<Rightarrow> mem \<Rightarrow> mem" where
  "clear_slot h slot_no m =
     (let m1 = mem_fill m (get_slot h slot_no) (nat (record_size h)) 0;
          m2 = bitmap_reset addr_bitmap m1 slot_no
      in store_i32 m2 addr_num_records (c_int (num_records m2 - 1)))"

definition delete_record :: "int \<Rightarrow> rid \<Rightarrow> Context option \<Rightarrow> ('a dbs_scheme, unit) op" where
  "delete_record fd r ctx = bindE (log_old fd r ctx (\<lambda>v.
       ret (case ctx of Some c \<Rightarrow> new_DeleteLogRecord (log_txn_id c) v r (ctx_tab c)
            | None \<Rightarrow> new_DeleteLogRecord INVALID_TXN_ID v r []))) (\<lambda>_.
     bindE (fetch_page_handle fd (rid_page_no r)) (\<lambda>ph.
     case ph of
       None \<Rightarrow> ret ()
     | Some f \<Rightarrow>
         bindE (fh_hdr fd) (\<lambda>h. bindE getS (\<lambda>s.
         if bitmap_is_set addr_bitmap (page_mem f s) (rid_slot_no r)
         then bindE (poke_page f (clear_slot h (rid_slot_no r))) (\<lambda>_.
              bindE getS (\<lambda>s.
              bindE (if num_records (page_mem f s) < num_records_per_page h then release_page_handle fd f else ret ()) (\<lambda>_.
              unpin_frame f True)))
         else ret ()))))"

definition update_record :: "int \<Rightarrow> rid \<Rightarrow> byte list \<Rightarrow> Context option \<Rightarrow> ('a dbs_scheme, unit) op" where
  "update_record fd r buf ctx = bindE (log_old fd r ctx (\<lambda>v.
       bindE (fh_hdr fd) (\<lambda>h. bindE (memcpy_from buf (record_size h)) (\<lambda>data.
       ret (case ctx of Some c \<Rightarrow> new_UpdateLogRecord (log_txn_id c) v data r (ctx_tab c)
            | None \<Rightarrow> new_UpdateLogRecord INVALID_TXN_ID v data r []))))) (\<lambda>_.
     bindE (fetch_page_handle fd (rid_page_no r)) (\<lambda>ph.
     case ph of
       None \<Rightarrow> ret ()
     | Some f \<Rightarrow>
         bindE (fh_hdr fd) (\<lambda>h.
         bindE (memcpy_from buf (record_size h)) (\<lambda>data.
         bindE (poke_page f (\<lambda>m. mem_put m (get_slot h (rid_slot_no r)) data)) (\<lambda>_.
         unpin_frame f True)))))"

section \<open>RmManager\<close>

definition BITMAP_WIDTH :: int where "BITMAP_WIDTH = 8"

lemmas [rmdb_consts] = BITMAP_WIDTH_def

definition new_file_hdr :: "int \<Rightarrow> rm_file_hdr" where
  "new_file_hdr rs =
     (let n = (BITMAP_WIDTH * (int PAGE_SIZE - 1 - int sizeof_RmFileHdr) + 1) div (1 + rs * BITMAP_WIDTH)
      in \<lparr>record_size = rs, num_pages = 1, num_records_per_page = n, first_free_page_no = RM_NO_PAGE,
          bitmap_size = (n + BITMAP_WIDTH - 1) div BITMAP_WIDTH\<rparr>)"

definition rm_create_file :: "string \<Rightarrow> int \<Rightarrow> ('a disk_scheme, unit) op" where
  "rm_create_file filename rs = bindE getS (\<lambda>s.
     if rs < 1 \<or> rs > RM_MAX_RECORD_SIZE then raise (InvalidRecordSizeError rs)
     else if is_file filename s then raise (FileExistsError filename)
     else bindE (create_file filename) (\<lambda>_.
          bindE (open_file filename) (\<lambda>fd.
          if fd < 0 then raise (FileNotFoundError filename)
          else bindE (write_page fd RM_FILE_HDR_PAGE (mem_put zero_mem 0 (hdr_bytes (new_file_hdr rs))) sizeof_RmFileHdr) (\<lambda>_.
               close_file fd))))"

definition rm_destroy_file :: "string \<Rightarrow> ('a disk_scheme, unit) op" where
  "rm_destroy_file filename = destroy_file filename"

text \<open>\<open>junk\<close> is the content of the new handle's memory before \<open>file_hdr_\<close> is read into it.\<close>

definition rm_open_file :: "mem \<Rightarrow> string \<Rightarrow> ('a dbs_scheme, int) op" where
  "rm_open_file junk filename = bindE (open_file filename) (\<lambda>fd.
     bindE (read_page fd RM_FILE_HDR_PAGE junk sizeof_RmFileHdr) (\<lambda>m.
     bindE (set_hdr fd (hdr_of_mem m)) (\<lambda>_.
     bindE (updS (set_fd2pageno fd (num_pages (hdr_of_mem m)))) (\<lambda>_. ret fd))))"

definition rm_close_file :: "int \<Rightarrow> ('a dbs_scheme, unit) op" where
  "rm_close_file fd = bindE (write_hdr fd) (\<lambda>_. bindE (flush_all_pages fd) (\<lambda>_. close_file fd))"

section \<open>RmScan\<close>

text \<open>
  The loop of \<open>next\<close>. Each round moves to a later page, so it ends; \<open>num_pages\<close> does not change in it.
\<close>

function scan_next :: "int \<Rightarrow> rm_file_hdr \<Rightarrow> rid \<Rightarrow> ('a dbs_scheme, rid) op" where
  "scan_next fd h r =
     (if rid_page_no r = RM_NO_PAGE then ret r
      else if rid_page_no r \<ge> num_pages h then ret \<lparr>rid_page_no = RM_NO_PAGE, rid_slot_no = - 1\<rparr>
      else bindE (fetch_page_handle fd (rid_page_no r)) (\<lambda>ph.
        case ph of
          None \<Rightarrow> scan_next fd h \<lparr>rid_page_no = rid_page_no r + 1, rid_slot_no = - 1\<rparr>
        | Some f \<Rightarrow> bindE getS (\<lambda>s.
            let next_slot = next_bit addr_bitmap True (page_mem f s) (num_records_per_page h) (rid_slot_no r)
            in bindE (unpin_frame f False) (\<lambda>_.
               if next_slot < num_records_per_page h then ret (r\<lparr>rid_slot_no := next_slot\<rparr>)
               else if rid_page_no r + 1 \<ge> num_pages h then ret \<lparr>rid_page_no = RM_NO_PAGE, rid_slot_no = - 1\<rparr>
               else scan_next fd h \<lparr>rid_page_no = rid_page_no r + 1, rid_slot_no = - 1\<rparr>))))"
  by pat_completeness auto

termination
  by (relation "measure (\<lambda>(fd, h, r). nat (num_pages h - rid_page_no r))") auto

declare scan_next.simps [simp del]

definition rm_scan_next :: "int \<Rightarrow> rid \<Rightarrow> ('a dbs_scheme, rid) op" where
  "rm_scan_next fd r = bindE (fh_hdr fd) (\<lambda>h. scan_next fd h r)"

definition rm_scan_begin :: "int \<Rightarrow> ('a dbs_scheme, rid) op" where
  "rm_scan_begin fd = rm_scan_next fd \<lparr>rid_page_no = RM_FIRST_RECORD_PAGE, rid_slot_no = - 1\<rparr>"

definition rm_scan_is_end :: "int \<Rightarrow> rid \<Rightarrow> ('a dbs_scheme, bool) op" where
  "rm_scan_is_end fd r = bindE (fh_hdr fd) (\<lambda>h.
     ret (rid_page_no r = RM_NO_PAGE \<or> rid_page_no r \<ge> num_pages h \<or> rid_slot_no r < 0))"

end
