(* ===== verification/RecordPage.thy ===== *)
theory RecordPage
  imports RmFile
begin

text \<open>
  The layout of a record page: where \<open>RmManager::create_file\<close> places the bitmap and the slots, that
  they fit the page and do not overlap, and what filling and clearing a slot does to the records of
  the page. The content of a page is the partial map \<open>page_records\<close> from slot numbers to bytes.
\<close>

section \<open>The header\<close>

definition hdr_ok :: "rm_file_hdr \<Rightarrow> bool" where
  "hdr_ok h \<longleftrightarrow> 1 \<le> record_size h \<and> record_size h \<le> RM_MAX_RECORD_SIZE \<and>
     num_records_per_page h = num_records_per_page (new_file_hdr (record_size h)) \<and>
     bitmap_size h = bitmap_size (new_file_hdr (record_size h)) \<and>
     1 \<le> num_pages h \<and> num_pages h < 2 ^ 19 \<and> - 2 \<le> first_free_page_no h \<and> first_free_page_no h < num_pages h"

lemma hdr_ok_new: "1 \<le> rs \<Longrightarrow> rs \<le> RM_MAX_RECORD_SIZE \<Longrightarrow> hdr_ok (new_file_hdr rs)"
  by (simp add: hdr_ok_def new_file_hdr_def Let_def RM_NO_PAGE_def)

lemma layout_bounds:
  assumes rs: "1 \<le> rs" "rs \<le> 512" and n: "n = (8 * 4075 + 1) div (1 + rs * 8)" and b: "b = (n + 7) div (8 :: int)"
  shows "7 \<le> n" and "n \<le> 3622" and "n \<le> 8 * b" and "12 + b + n * rs \<le> 4089"
proof -
  have pos: "0 < 1 + rs * 8" using rs by simp
  have "(8 * 4075 + 1) div 4097 \<le> (8 * 4075 + 1) div (1 + rs * 8)"
    by (rule zdiv_mono2) (use rs in auto)
  then show "7 \<le> n" unfolding n by simp
  have "(8 * 4075 + 1) div (1 + rs * 8) \<le> (8 * 4075 + 1) div (9 :: int)"
    by (rule zdiv_mono2) (use rs in auto)
  then show "n \<le> 3622" unfolding n by simp
  have "n * (1 + rs * 8) \<le> 8 * 4075 + 1" 
    unfolding n using div_mult_mod_eq [of "8 * 4075 + 1" "1 + rs * 8"] pos_mod_sign [OF pos, of "8 * 4075 + 1"] by linarith
  then have "n + 8 * (n * rs) \<le> 32601" by (simp add: algebra_simps)
  moreover have "8 * b \<le> n + 7" unfolding b by simp
  ultimately show "12 + b + n * rs \<le> 4089" by linarith
  show "n \<le> 8 * b" unfolding b by presburger
qed

lemma hdr_okD:
  assumes "hdr_ok h"
  shows "1 \<le> record_size h" and "record_size h \<le> 512" and "7 \<le> num_records_per_page h"
    and "num_records_per_page h \<le> 3622" and "num_records_per_page h \<le> 8 * bitmap_size h"
    and "12 + bitmap_size h + num_records_per_page h * record_size h \<le> 4089"
    and "1 \<le> num_pages h" and "num_pages h < 2 ^ 19" and "0 \<le> bitmap_size h"
proof -
  have rs: "1 \<le> record_size h" "record_size h \<le> 512" and n: "num_records_per_page h = (8 * 4075 + 1) div (1 + record_size h * 8)"
    and b: "bitmap_size h = (num_records_per_page h + 7) div 8"
    using assms by (simp_all add: hdr_ok_def new_file_hdr_def Let_def rmdb_consts)
  note l = layout_bounds [OF rs n b]
  show "1 \<le> record_size h" "record_size h \<le> 512" "7 \<le> num_records_per_page h"
    "num_records_per_page h \<le> 3622" "num_records_per_page h \<le> 8 * bitmap_size h"
    "12 + bitmap_size h + num_records_per_page h * record_size h \<le> 4089"
    by (fact rs l)+
  show "1 \<le> num_pages h" "num_pages h < 2 ^ 19" using assms by (simp_all add: hdr_ok_def)
  show "0 \<le> bitmap_size h" using l(1,3) by linarith
qed

section \<open>Addresses\<close>

definition slot_ok :: "rm_file_hdr \<Rightarrow> int \<Rightarrow> bool" where
  "slot_ok h i \<longleftrightarrow> 0 \<le> i \<and> i < num_records_per_page h"

definition slots_start :: "rm_file_hdr \<Rightarrow> nat" where
  "slots_start h = 12 + nat (bitmap_size h)"

lemma get_slot_eq:
  "hdr_ok h \<Longrightarrow> slot_ok h i \<Longrightarrow> get_slot h i = slots_start h + nat i * nat (record_size h)"
  using hdr_okD(1,9) [of h]
  by (simp add: get_slot_def slots_start_def slot_ok_def rmdb_consts nat_add_distrib nat_mult_distrib)

lemma slot_in_page:
  assumes "hdr_ok h" and "slot_ok h i"
  shows "get_slot h i + nat (record_size h) \<le> PAGE_SIZE"
proof -
  note h = hdr_okD [OF assms(1)]
  have "(i + 1) * record_size h \<le> num_records_per_page h * record_size h"
    by (rule mult_right_mono) (use assms(2) h(1) in \<open>auto simp: slot_ok_def\<close>)
  then have "12 + bitmap_size h + i * record_size h + record_size h \<le> 4096"
    using h(6) by (simp add: distrib_right)
  moreover have "0 \<le> i * record_size h" using assms(2) h(1) by (simp add: slot_ok_def)
  ultimately show ?thesis using h(1,9) by (simp add: get_slot_def rmdb_consts)
qed

lemma slots_apart:
  assumes "hdr_ok h" and "slot_ok h i" and "slot_ok h j" and "i \<noteq> j"
  shows "get_slot h j + nat (record_size h) \<le> get_slot h i \<or> get_slot h i + nat (record_size h) \<le> get_slot h j"
proof -
  have step: "x * r + r \<le> y * r" if "x < y" for x y r :: nat
    using mult_le_mono1 [of "Suc x" y r] that by simp
  have "nat i < nat j \<or> nat j < nat i" using assms(2-4) by (auto simp: slot_ok_def)
  then show ?thesis
    using step [of "nat i" "nat j" "nat (record_size h)"] step [of "nat j" "nat i" "nat (record_size h)"]
    by (auto simp: get_slot_eq [OF assms(1,2)] get_slot_eq [OF assms(1,3)])
qed

lemma slot_after_bitmap: "hdr_ok h \<Longrightarrow> slot_ok h i \<Longrightarrow> slots_start h \<le> get_slot h i"
  by (simp add: get_slot_eq)

lemma bucket_in_bitmap:
  assumes "hdr_ok h" and "slot_ok h i"
  shows "addr_bitmap + get_bucket i < slots_start h"
proof -
  have "i div 8 < bitmap_size h" using assms(2) hdr_okD(5) [OF assms(1)] by (simp add: slot_ok_def) linarith
  moreover have "0 \<le> i div 8" using assms(2) by (simp add: slot_ok_def pos_imp_zdiv_nonneg_iff)
  ultimately show ?thesis by (simp add: get_bucket_def slots_start_def rmdb_consts)
qed

section \<open>The records of a page\<close>

definition slot_bytes :: "rm_file_hdr \<Rightarrow> mem \<Rightarrow> int \<Rightarrow> byte list" where
  "slot_bytes h m i = mem_read m (get_slot h i) (nat (record_size h))"

definition page_records :: "rm_file_hdr \<Rightarrow> mem \<Rightarrow> int \<rightharpoonup> byte list" where
  "page_records h m = (\<lambda>i. if slot_ok h i \<and> bitmap_is_set addr_bitmap m i then Some (slot_bytes h m i) else None)"

definition used_slots :: "rm_file_hdr \<Rightarrow> mem \<Rightarrow> nat" where
  "used_slots h m = card {i. 0 \<le> i \<and> i < num_records_per_page h \<and> bitmap_is_set addr_bitmap m i}"

definition page_ok :: "rm_file_hdr \<Rightarrow> mem \<Rightarrow> bool" where
  "page_ok h m \<longleftrightarrow> num_records m = int (used_slots h m)"

lemma used_slots_le: "used_slots h m \<le> nat (num_records_per_page h)"
proof -
  have "used_slots h m \<le> card {0..<num_records_per_page h}"
    unfolding used_slots_def by (rule card_mono) auto
  then show ?thesis by simp
qed

lemma page_trunc_eq: "i < PAGE_SIZE \<Longrightarrow> page_trunc m i = m i"
  by (simp add: page_trunc_def)

lemma num_records_trunc [simp]: "num_records (page_trunc m) = num_records m"
  by (simp add: num_records_def load_i32_def rmdb_consts page_trunc_def mem_read_def)

lemma next_free_trunc [simp]: "next_free_page_no (page_trunc m) = next_free_page_no m"
  by (simp add: next_free_page_no_def load_i32_def rmdb_consts page_trunc_def mem_read_def)

lemma bucket_in_page:
  assumes "hdr_ok h" and "slot_ok h i"
  shows "addr_bitmap + get_bucket i < PAGE_SIZE"
  using bucket_in_bitmap [OF assms] slot_after_bitmap [OF assms] slot_in_page [OF assms] by linarith

lemma is_set_trunc [simp]:
  "hdr_ok h \<Longrightarrow> slot_ok h i \<Longrightarrow> bitmap_is_set addr_bitmap (page_trunc m) i = bitmap_is_set addr_bitmap m i"
  by (simp add: bitmap_is_set_def page_trunc_eq bucket_in_page)

lemma slot_bytes_trunc [simp]: "hdr_ok h \<Longrightarrow> slot_ok h i \<Longrightarrow> slot_bytes h (page_trunc m) i = slot_bytes h m i"
  unfolding slot_bytes_def by (rule mem_read_eqI) (use slot_in_page [of h i] in \<open>auto simp: page_trunc_eq\<close>)

lemma page_records_trunc [simp]: "hdr_ok h \<Longrightarrow> page_records h (page_trunc m) = page_records h m"
  by (auto simp: page_records_def fun_eq_iff)

lemma used_slots_trunc [simp]: "hdr_ok h \<Longrightarrow> used_slots h (page_trunc m) = used_slots h m"
  unfolding used_slots_def by (rule arg_cong [of _ _ card]) (auto simp: slot_ok_def)

lemma page_ok_trunc [simp]: "hdr_ok h \<Longrightarrow> page_ok h (page_trunc m) = page_ok h m"
  by (simp add: page_ok_def)

lemma page_records_dom: "page_records h m i \<noteq> None \<longleftrightarrow> slot_ok h i \<and> bitmap_is_set addr_bitmap m i"
  by (simp add: page_records_def)

text \<open>The operations on parts of the page, seen through the parts they leave alone.\<close>

lemma load_i32_cong: "(\<And>i. i < 4 \<Longrightarrow> m (off + i) = m' (off + i)) \<Longrightarrow> load_i32 m off = load_i32 m' off"
  unfolding load_i32_def by (rule arg_cong [of _ _ "\<lambda>x. to_signed 4 (dec_le x)"]) (rule mem_read_eqI, simp)

lemma slot_bytes_cong:
  "(\<And>a. slots_start h \<le> a \<Longrightarrow> m a = m' a) \<Longrightarrow> hdr_ok h \<Longrightarrow> slot_ok h i \<Longrightarrow> slot_bytes h m i = slot_bytes h m' i"
  unfolding slot_bytes_def by (rule mem_read_eqI) (use slot_after_bitmap [of h i] in auto)

lemma is_set_cong:
  "(\<And>a. addr_bitmap \<le> a \<Longrightarrow> a < slots_start h \<Longrightarrow> m a = m' a) \<Longrightarrow> hdr_ok h \<Longrightarrow> slot_ok h i \<Longrightarrow>
    bitmap_is_set addr_bitmap m i = bitmap_is_set addr_bitmap m' i"
  unfolding bitmap_is_set_def using bucket_in_bitmap [of h i] by simp

section \<open>Filling, clearing and initialising\<close>

lemma store_i32_below: "off + 4 \<le> a \<Longrightarrow> store_i32 m off v a = m a"
  by (simp add: store_i32_other)

lemma count_above_header: "addr_num_records + 4 = addr_bitmap" "addr_next_free + 4 = addr_num_records"
  by (simp_all add: rmdb_consts)

lemma bitmap_set_at: "a \<noteq> off + get_bucket i \<Longrightarrow> bitmap_set off m i a = m a"
  by (simp add: bitmap_set_def)

lemma bitmap_reset_at: "a \<noteq> off + get_bucket i \<Longrightarrow> bitmap_reset off m i a = m a"
  by (simp add: bitmap_reset_def)

lemma slot_above_bitmap:
  "hdr_ok h \<Longrightarrow> slot_ok h i \<Longrightarrow> addr_bitmap \<le> get_slot h i"
  using slot_after_bitmap [of h i] by (simp add: slots_start_def rmdb_consts)

lemma fill_slot_set:
  assumes h: "hdr_ok h" and i: "slot_ok h i" and j: "slot_ok h j" and d: "length data = nat (record_size h)"
  shows "bitmap_is_set addr_bitmap (fill_slot h i data m) j \<longleftrightarrow> j = i \<or> bitmap_is_set addr_bitmap m j"
proof -
  have "bitmap_is_set addr_bitmap (store_i32 (mem_put m (get_slot h i) data) addr_num_records v) j =
      bitmap_is_set addr_bitmap m j" for v
    by (rule is_set_cong [OF _ h j])
      (use slot_after_bitmap [OF h i] in \<open>simp add: store_i32_below count_above_header mem_put_other\<close>)
  then show ?thesis
    using i j by (simp add: fill_slot_def Let_def bm.is_set_set slot_ok_def)
qed

lemma fill_slot_bytes:
  assumes h: "hdr_ok h" and i: "slot_ok h i" and j: "slot_ok h j" and d: "length data = nat (record_size h)"
  shows "slot_bytes h (fill_slot h i data m) j = (if j = i then data else slot_bytes h m j)"
proof -
  have "slot_bytes h (fill_slot h i data m) j = slot_bytes h (mem_put m (get_slot h i) data) j"
    by (rule slot_bytes_cong [OF _ h j])
      (use bucket_in_bitmap [OF h i] in \<open>simp add: fill_slot_def Let_def bitmap_set_at store_i32_below slots_start_def rmdb_consts\<close>)
  also have "\<dots> = (if j = i then data else slot_bytes h m j)"
    using slots_apart [OF h i j] d by (auto simp: slot_bytes_def intro!: mem_read_put_disjoint)
  finally show ?thesis .
qed

lemma fill_slot_num:
  assumes "hdr_ok h" and "slot_ok h i"
  shows "num_records (fill_slot h i data m) = c_int (num_records m + 1)"
    and "next_free_page_no (fill_slot h i data m) = next_free_page_no m"
proof -
  have put: "load_i32 (mem_put m (get_slot h i) data) off = load_i32 m off" if "off + 4 \<le> addr_bitmap" for off
    by (rule load_i32_cong) (use slot_above_bitmap [OF assms] that in \<open>simp add: mem_put_other\<close>)
  have set: "load_i32 (bitmap_set addr_bitmap m' i) off = load_i32 m' off" if "off + 4 \<le> addr_bitmap" for off m'
    by (rule load_i32_cong) (use that in \<open>simp add: bitmap_set_at\<close>)
  show "num_records (fill_slot h i data m) = c_int (num_records m + 1)"
    using put [of addr_num_records] set [of addr_num_records]
    by (simp add: fill_slot_def Let_def num_records_def count_above_header c_int_range)
  show "next_free_page_no (fill_slot h i data m) = next_free_page_no m"
    using put [of addr_next_free] set [of addr_next_free]
    by (simp add: fill_slot_def Let_def next_free_page_no_def load_store_i32_other rmdb_consts)
qed

lemma clear_slot_set:
  assumes h: "hdr_ok h" and i: "slot_ok h i" and j: "slot_ok h j"
  shows "bitmap_is_set addr_bitmap (clear_slot h i m) j \<longleftrightarrow> j \<noteq> i \<and> bitmap_is_set addr_bitmap m j"
proof -
  have "bitmap_is_set addr_bitmap (store_i32 m' addr_num_records v) j = bitmap_is_set addr_bitmap m' j" for v m'
    by (rule is_set_cong [OF _ h j]) (simp add: store_i32_below count_above_header)
  moreover have "bitmap_is_set addr_bitmap (mem_fill m (get_slot h i) k 0) j = bitmap_is_set addr_bitmap m j" for k
    by (rule is_set_cong [OF _ h j]) (use slot_after_bitmap [OF h i] in \<open>simp add: mem_fill_def\<close>)
  ultimately show ?thesis
    using i j by (simp add: clear_slot_def Let_def bm.is_set_reset slot_ok_def)
qed

lemma clear_slot_bytes:
  assumes h: "hdr_ok h" and i: "slot_ok h i" and j: "slot_ok h j" and ne: "j \<noteq> i"
  shows "slot_bytes h (clear_slot h i m) j = slot_bytes h m j"
proof -
  have "slot_bytes h (clear_slot h i m) j = slot_bytes h (mem_fill m (get_slot h i) (nat (record_size h)) 0) j"
    by (rule slot_bytes_cong [OF _ h j])
      (use bucket_in_bitmap [OF h i] in \<open>simp add: clear_slot_def Let_def bitmap_reset_at store_i32_below slots_start_def rmdb_consts\<close>)
  also have "\<dots> = slot_bytes h m j"
    unfolding slot_bytes_def by (rule mem_read_eqI) (use slots_apart [OF h i j] ne in \<open>auto simp: mem_fill_def\<close>)
  finally show ?thesis .
qed

lemma clear_slot_num:
  assumes "hdr_ok h" and "slot_ok h i"
  shows "num_records (clear_slot h i m) = c_int (num_records m - 1)"
proof -
  have "load_i32 (bitmap_reset addr_bitmap (mem_fill m (get_slot h i) k 0) i) addr_num_records = load_i32 m addr_num_records" for k
    by (rule load_i32_cong)
      (use slot_above_bitmap [OF assms] in \<open>simp add: bitmap_reset_at mem_fill_def rmdb_consts\<close>)
  then show ?thesis by (simp add: clear_slot_def Let_def num_records_def c_int_range)
qed

section \<open>The same, on the records of the page\<close>

lemma fill_slot_records:
  assumes "hdr_ok h" and "slot_ok h i" and "length data = nat (record_size h)"
  shows "page_records h (fill_slot h i data m) = (page_records h m)(i \<mapsto> data)"
  using assms by (auto simp: page_records_def fun_eq_iff fill_slot_set fill_slot_bytes)

lemma clear_slot_records:
  assumes "hdr_ok h" and "slot_ok h i"
  shows "page_records h (clear_slot h i m) = (page_records h m)(i := None)"
  using assms by (auto simp: page_records_def fun_eq_iff clear_slot_set clear_slot_bytes)

lemma used_slots_range: "hdr_ok h \<Longrightarrow> int (used_slots h m) \<le> 3622"
  using used_slots_le [of h m] hdr_okD(3,4) [of h] by linarith

lemma fill_slot_ok:
  assumes h: "hdr_ok h" and i: "slot_ok h i" and d: "length data = nat (record_size h)" and ok: "page_ok h m"
    and free: "\<not> bitmap_is_set addr_bitmap m i"
  shows "page_ok h (fill_slot h i data m)" and "used_slots h (fill_slot h i data m) = Suc (used_slots h m)"
proof -
  have "used_slots h (fill_slot h i data m) = used_slots h (bitmap_set addr_bitmap m i)"
    unfolding used_slots_def using fill_slot_set [OF h i _ d] i
    by (intro arg_cong [of _ _ card]) (auto simp: slot_ok_def bm.is_set_set)
  also have "\<dots> = Suc (used_slots h m)"
    unfolding used_slots_def by (rule bm.count_set) (use i free in \<open>auto simp: slot_ok_def\<close>)
  finally show u: "used_slots h (fill_slot h i data m) = Suc (used_slots h m)" .
  show "page_ok h (fill_slot h i data m)"
    using ok used_slots_range [OF h, of m] by (simp add: page_ok_def fill_slot_num [OF h i] u int32_range_def)
qed

lemma clear_slot_ok:
  assumes h: "hdr_ok h" and i: "slot_ok h i" and ok: "page_ok h m" and set: "bitmap_is_set addr_bitmap m i"
  shows "page_ok h (clear_slot h i m)" and "Suc (used_slots h (clear_slot h i m)) = used_slots h m"
proof -
  have "used_slots h (clear_slot h i m) = used_slots h (bitmap_reset addr_bitmap m i)"
    unfolding used_slots_def using clear_slot_set [OF h i] i
    by (intro arg_cong [of _ _ card]) (auto simp: slot_ok_def bm.is_set_reset)
  moreover have "Suc (used_slots h (bitmap_reset addr_bitmap m i)) = used_slots h m"
    unfolding used_slots_def by (rule bm.count_reset) (use i set in \<open>auto simp: slot_ok_def\<close>)
  ultimately show u: "Suc (used_slots h (clear_slot h i m)) = used_slots h m" by simp
  show "page_ok h (clear_slot h i m)"
    using ok u used_slots_range [OF h, of m] by (simp add: page_ok_def clear_slot_num [OF h i] int32_range_def)
qed

text \<open>Overwriting a slot, as \<open>update_record\<close> does.\<close>

lemma write_slot:
  fixes m :: mem
  assumes h: "hdr_ok h" and i: "slot_ok h i" and d: "length data = nat (record_size h)"
  defines "m' \<equiv> mem_put m (get_slot h i) data"
  shows "page_records h m' = (if page_records h m i = None then page_records h m else (page_records h m)(i \<mapsto> data))"
    and "num_records m' = num_records m" and "used_slots h m' = used_slots h m"
proof -
  have set: "bitmap_is_set addr_bitmap m' j = bitmap_is_set addr_bitmap m j" if "slot_ok h j" for j
    by (rule is_set_cong [OF _ h that]) (use slot_after_bitmap [OF h i] in \<open>simp add: m'_def mem_put_other\<close>)
  have "slot_bytes h m' j = (if j = i then data else slot_bytes h m j)" if "slot_ok h j" for j
    using slots_apart [OF h i that] d by (auto simp: m'_def slot_bytes_def intro!: mem_read_put_disjoint)
  with set show "page_records h m' = (if page_records h m i = None then page_records h m else (page_records h m)(i \<mapsto> data))"
    using i by (auto simp: page_records_def fun_eq_iff)
  show "num_records m' = num_records m"
    unfolding num_records_def
    by (rule load_i32_cong) (use slot_above_bitmap [OF h i] in \<open>simp add: m'_def mem_put_other rmdb_consts\<close>)
  show "used_slots h m' = used_slots h m"
    unfolding used_slots_def by (rule arg_cong [of _ _ card]) (auto simp: set slot_ok_def)
qed

lemma store_next_free:
  fixes m :: mem and v :: int
  assumes h: "hdr_ok h"
  defines "m' \<equiv> store_i32 m addr_next_free v"
  shows "page_records h m' = page_records h m" and "num_records m' = num_records m" and "used_slots h m' = used_slots h m"
proof -
  have set: "bitmap_is_set addr_bitmap m' j = bitmap_is_set addr_bitmap m j" if "slot_ok h j" for j
    by (rule is_set_cong [OF _ h that]) (simp add: m'_def store_i32_other rmdb_consts)
  have "slot_bytes h m' j = slot_bytes h m j" if "slot_ok h j" for j
    by (rule slot_bytes_cong [OF _ h that]) (simp add: m'_def store_i32_other slots_start_def rmdb_consts)
  with set show "page_records h m' = page_records h m" by (auto simp: page_records_def fun_eq_iff)
  show "num_records m' = num_records m"
    by (simp add: num_records_def m'_def load_store_i32_other rmdb_consts)
  show "used_slots h m' = used_slots h m"
    unfolding used_slots_def by (rule arg_cong [of _ _ card]) (auto simp: set slot_ok_def)
qed

lemma init_page:
  fixes m :: mem and v :: int
  assumes h: "hdr_ok h"
  defines "m' \<equiv> bitmap_init addr_bitmap (store_i32 (store_i32 m addr_num_records 0) addr_next_free v) (nat (bitmap_size h))"
  shows "page_records h m' = Map.empty" and "page_ok h m'" and "used_slots h m' = 0"
proof -
  have clear: "\<not> bitmap_is_set addr_bitmap m' j" if "slot_ok h j" for j
    unfolding m'_def by (rule bitmap_init_clear) (use that hdr_okD(5,9) [OF h] in \<open>auto simp: slot_ok_def\<close>)
  then show "page_records h m' = Map.empty" by (auto simp: page_records_def fun_eq_iff)
  have "{i. 0 \<le> i \<and> i < num_records_per_page h \<and> bitmap_is_set addr_bitmap m' i} = {}"
    using clear by (auto simp: slot_ok_def)
  then show u: "used_slots h m' = 0" by (simp only: used_slots_def card.empty)
  have "num_records m' = load_i32 (store_i32 (store_i32 m addr_num_records 0) addr_next_free v) addr_num_records"
    unfolding num_records_def m'_def by (rule load_i32_cong) (simp add: bitmap_init_def mem_fill_def rmdb_consts)
  also have "\<dots> = 0" by (simp add: load_store_i32_other rmdb_consts int32_range_def)
  finally show "page_ok h m'" by (simp add: page_ok_def u)
qed

text \<open>A page with room has a free slot, which \<open>first_bit\<close> finds.\<close>

lemma first_free_slot:
  fixes m :: mem
  assumes h: "hdr_ok h" and room: "int (used_slots h m) < num_records_per_page h"
  defines "i \<equiv> first_bit addr_bitmap False m (num_records_per_page h)"
  shows "slot_ok h i" and "\<not> bitmap_is_set addr_bitmap m i"
proof -
  have n: "0 < num_records_per_page h" using hdr_okD(3) [OF h] by simp
  have lt: "i < num_records_per_page h"
    unfolding i_def first_bit_def by (rule bm.first_clear [OF n]) (use room in \<open>simp add: used_slots_def\<close>)
  moreover have "0 \<le> i"
    using bm.next_range [of "- 1" "num_records_per_page h" addr_bitmap False m] n by (simp add: i_def first_bit_def)
  ultimately show "slot_ok h i" by (simp add: slot_ok_def)
  show "\<not> bitmap_is_set addr_bitmap m i"
    using bm.next_found [of "- 1" "num_records_per_page h" addr_bitmap False m] n lt by (simp add: i_def first_bit_def)
qed

lemma page_full:
  assumes h: "hdr_ok h" and full: "num_records_per_page h \<le> int (used_slots h m)"
  shows "slot_ok h i \<Longrightarrow> bitmap_is_set addr_bitmap m i"
proof (rule ccontr)
  assume i: "slot_ok h i" and "\<not> bitmap_is_set addr_bitmap m i"
  then have "{j. 0 \<le> j \<and> j < num_records_per_page h \<and> bitmap_is_set addr_bitmap m j} \<subseteq> {0..<num_records_per_page h} - {i}"
    by auto
  then have "used_slots h m \<le> card ({0..<num_records_per_page h} - {i})"
    unfolding used_slots_def by (intro card_mono) auto
  also have "\<dots> < nat (num_records_per_page h)" using i by (simp add: slot_ok_def)
  finally show False using full by linarith
qed

text \<open>
  The file header that \<open>create_file\<close> computes makes room for at least seven records on a page; the
  bitmap has a bit for each of them and ends before the first slot, and the slots lie inside the page and
  do not overlap.
\<close>

theorem create_file_layout_fits:
  assumes "1 \<le> rs" and "rs \<le> RM_MAX_RECORD_SIZE"
  shows "let h = new_file_hdr rs; n = num_records_per_page h in
    7 \<le> n \<and> n \<le> 8 * bitmap_size h \<and>
    (\<forall>i \<in> {0..<n}. addr_bitmap + get_bucket i < get_slot h 0 \<and> get_slot h i + nat rs \<le> PAGE_SIZE \<and>
       (\<forall>j \<in> {0..<i}. get_slot h j + nat rs \<le> get_slot h i))"
proof -
  let ?h = "new_file_hdr rs"
  note h = hdr_ok_new [OF assms]
  have rs: "record_size ?h = rs" by (simp add: new_file_hdr_def Let_def)
  have "get_slot ?h j + nat rs \<le> get_slot ?h i" if "slot_ok ?h i" "slot_ok ?h j" "j < i" for i j
  proof -
    have "nat j * nat rs + nat rs \<le> nat i * nat rs"
      using mult_le_mono1 [of "Suc (nat j)" "nat i" "nat rs"] that by (simp add: slot_ok_def add.commute)
    then show ?thesis by (simp add: get_slot_eq [OF h] that rs)
  qed
  moreover have "addr_bitmap + get_bucket i < get_slot ?h 0" if "slot_ok ?h i" for i
    using bucket_in_bitmap [OF h that] get_slot_eq [OF h, of 0] that by (simp add: slot_ok_def)
  ultimately show ?thesis
    using hdr_okD(3,5) [OF h] slot_in_page [OF h] by (auto simp: Let_def slot_ok_def rs)
qed

theorem create_file_layout_fits_witness:
  "let h = new_file_hdr 100; n = num_records_per_page h in
    (1 :: int) \<le> 100 \<and> (100 :: int) \<le> RM_MAX_RECORD_SIZE \<and> 7 \<le> n \<and> n \<le> 8 * bitmap_size h"
  using create_file_layout_fits [of 100] by (simp add: Let_def RM_MAX_RECORD_SIZE_def)

end
