(* ===== verification/RmStore.thy ===== *)
theory RmStore
  imports RecordPage
begin

text \<open>
  The record files as tables. \<open>table fd s\<close> is the partial map from record identifiers to the bytes
  stored for them, which is what a reader of the pages through the buffer pool finds. Each operation of
  \<open>RmFileHandle\<close> is shown to act on it as its contract says, from a state in which no page is pinned
  to a state in which no page is pinned.
\<close>

section \<open>The state of a record file\<close>

definition rm_page :: "int \<Rightarrow> int \<Rightarrow> 'a bpm_scheme \<Rightarrow> mem" where
  "rm_page fd p s = page_view \<lparr>pid_fd = fd, pid_no = p\<rparr> s"

definition data_page :: "rm_file_hdr \<Rightarrow> int \<Rightarrow> bool" where
  "data_page h p \<longleftrightarrow> 1 \<le> p \<and> p < num_pages h"

definition rm_file_ok :: "int \<Rightarrow> rm_file_hdr \<Rightarrow> 'a bpm_scheme \<Rightarrow> bool" where
  "rm_file_ok fd h s \<longleftrightarrow> hdr_ok h \<and> fd < MAX_FD \<and> fd2pageno s fd = num_pages h \<and>
     (\<forall>p. page_in_range p \<longrightarrow> tpage \<lparr>pid_fd = fd, pid_no = p\<rparr> s) \<and>
     page_table s \<lparr>pid_fd = fd, pid_no = 0\<rparr> = None \<and>
     (\<forall>p. data_page h p \<longrightarrow> page_ok h (rm_page fd p s)) \<and>
     first_free_page_no h \<noteq> 0 \<and>
     (data_page h (first_free_page_no h) \<longrightarrow>
        int (used_slots h (rm_page fd (first_free_page_no h) s)) < num_records_per_page h)"

definition rm_ok :: "int \<Rightarrow> 'a dbs_scheme \<Rightarrow> bool" where
  "rm_ok fd s \<longleftrightarrow> quiet s \<and> (\<exists>h. file_hdrs s fd = Some h \<and> rm_file_ok fd h s)"

definition table :: "int \<Rightarrow> 'a dbs_scheme \<Rightarrow> rid \<rightharpoonup> byte list" where
  "table fd s = (\<lambda>r. case file_hdrs s fd of
       None \<Rightarrow> None
     | Some h \<Rightarrow> if data_page h (rid_page_no r) then page_records h (rm_page fd (rid_page_no r) s) (rid_slot_no r) else None)"

lemma hdr_upd [simp]:
  "slot_ok (h\<lparr>num_pages := a\<rparr>) = slot_ok h" "slot_ok (h\<lparr>first_free_page_no := b\<rparr>) = slot_ok h"
  "get_slot (h\<lparr>num_pages := a\<rparr>) = get_slot h" "get_slot (h\<lparr>first_free_page_no := b\<rparr>) = get_slot h"
  "page_records (h\<lparr>num_pages := a\<rparr>) = page_records h" "page_records (h\<lparr>first_free_page_no := b\<rparr>) = page_records h"
  "page_ok (h\<lparr>num_pages := a\<rparr>) = page_ok h" "page_ok (h\<lparr>first_free_page_no := b\<rparr>) = page_ok h"
  "used_slots (h\<lparr>num_pages := a\<rparr>) = used_slots h" "used_slots (h\<lparr>first_free_page_no := b\<rparr>) = used_slots h"
  by (simp_all add: fun_eq_iff slot_ok_def get_slot_def page_records_def slot_bytes_def page_ok_def used_slots_def)

lemma data_page_range: "hdr_ok h \<Longrightarrow> data_page h p \<Longrightarrow> page_in_range p"
  by (auto simp: data_page_def page_in_range_def dest: hdr_okD(8))

lemma rm_file_okD:
  assumes "rm_file_ok fd h s"
  shows "hdr_ok h" and "fd < MAX_FD" and "fd2pageno s fd = num_pages h"
    and "page_in_range p \<Longrightarrow> tpage \<lparr>pid_fd = fd, pid_no = p\<rparr> s" and "page_table s \<lparr>pid_fd = fd, pid_no = 0\<rparr> = None"
    and "data_page h p \<Longrightarrow> page_ok h (rm_page fd p s)" and "first_free_page_no h \<noteq> 0"
    and "data_page h (first_free_page_no h) \<Longrightarrow>
        int (used_slots h (rm_page fd (first_free_page_no h) s)) < num_records_per_page h"
    and "data_page h p \<Longrightarrow> tpage \<lparr>pid_fd = fd, pid_no = p\<rparr> s"
  using assms data_page_range [of h p] by (simp_all add: rm_file_ok_def)

section \<open>What changes and what does not\<close>

lemma bpm_more_dbs:
  fixes s t :: "'a dbs_scheme"
  assumes "bpm.more t = bpm.more s"
  shows "file_hdrs t = file_hdrs s" and "concurrency_mode t = concurrency_mode s" and "fhs t = fhs s" and "dbs.more t = dbs.more s"
  using assms by (cases s, cases t, simp)+

lemma logm_more_dbs:
  fixes s t :: "'a dbs_scheme"
  assumes "logm.more t = logm.more s"
  shows "file_hdrs t = file_hdrs s" and "concurrency_mode t = concurrency_mode s" and "fhs t = fhs s" and "dbs.more t = dbs.more s"
  using assms by (cases s, cases t, simp)+

text \<open>\<open>only_file fd s t\<close>: nothing outside the file \<open>fd\<close> changed, as far as the tables show.\<close>

definition only_file :: "int \<Rightarrow> 'a dbs_scheme \<Rightarrow> 'a dbs_scheme \<Rightarrow> bool" where
  "only_file fd s t \<longleftrightarrow>
     (\<exists>ovr. views ovr s t \<and> (\<forall>q \<in> dom ovr. pid_fd q = fd)) \<and>
     (\<forall>fd'. fd' \<noteq> fd \<longrightarrow> fd2pageno t fd' = fd2pageno s fd' \<and> file_hdrs t fd' = file_hdrs s fd') \<and>
     concurrency_mode t = concurrency_mode s \<and> fhs t = fhs s \<and> dbs.more t = dbs.more s"

text \<open>\<open>no_log s t\<close>: the log was not written.\<close>

definition no_log :: "'a dbs_scheme \<Rightarrow> 'a dbs_scheme \<Rightarrow> bool" where
  "no_log s t \<longleftrightarrow> log_content t = log_content s \<and> disk_tables t = disk_tables s \<and> log_buffer t = log_buffer s \<and>
     log_offset t = log_offset s \<and> global_lsn t = global_lsn s \<and> persist_lsn t = persist_lsn s"

lemma only_file_refl [simp]: "only_file fd s s"
  unfolding only_file_def by (auto intro: exI [of _ Map.empty])

lemma only_file_trans:
  assumes "only_file fd s t" and "only_file fd t u"
  shows "only_file fd s u"
proof -
  obtain a b where "views a s t" "\<forall>q \<in> dom a. pid_fd q = fd" "views b t u" "\<forall>q \<in> dom b. pid_fd q = fd"
    using assms by (auto simp: only_file_def)
  then have "views (a ++ b) s u" "\<forall>q \<in> dom (a ++ b). pid_fd q = fd" by (blast intro: views_trans, auto)
  with assms show ?thesis unfolding only_file_def by metis
qed

lemma no_log_refl [simp]: "no_log s s"
  by (simp add: no_log_def)

lemma no_log_trans: "no_log s t \<Longrightarrow> no_log t u \<Longrightarrow> no_log s u"
  by (simp add: no_log_def)

lemma no_log_idle:
  assumes "no_log s t" and "disk_wf t" and "log_idle base l0 ds s"
  shows "log_idle base l0 ds t"
proof -
  note n = assms(1) [unfolded no_log_def]
  have "log_ready t" using log_ready_tables [of t s] n assms(2,3) by (simp add: log_idle_def log_rep_def)
  then show ?thesis using assms(3) n unfolding log_idle_def log_rep_def by (simp add: log_content_def)
qed

lemma env_no_log: "same_env s t \<Longrightarrow> no_log s t"
  using bpm_more_fields(1-4) [of t s] by (simp add: same_env_def no_log_def)

lemma env_only_file:
  assumes "same_env s t" and "views ovr s t" and "\<forall>q \<in> dom ovr. pid_fd q = fd"
    and "\<And>fd'. fd' \<noteq> fd \<Longrightarrow> fd2pageno t fd' = fd2pageno s fd'"
  shows "only_file fd s t"
  using assms bpm_more_dbs [of t s] unfolding only_file_def same_env_def by metis

text \<open>Other files keep their state and their table.\<close>

lemma views_rm_page:
  assumes "views ovr s t" and "\<forall>q \<in> dom ovr. pid_fd q = fd" and "fd' \<noteq> fd" and "tpage \<lparr>pid_fd = fd', pid_no = p\<rparr> s"
  shows "rm_page fd' p t = rm_page fd' p s"
proof -
  have "ovr \<lparr>pid_fd = fd', pid_no = p\<rparr> = None"
  proof (rule ccontr)
    assume "ovr \<lparr>pid_fd = fd', pid_no = p\<rparr> \<noteq> None"
    then have "\<lparr>pid_fd = fd', pid_no = p\<rparr> \<in> dom ovr" by (simp add: domIff)
    from bspec [OF assms(2) this] assms(3) show False by simp
  qed
  then show ?thesis using viewsD(2) [OF assms(1,4)] by (simp add: rm_page_def)
qed

lemma only_file_other:
  assumes o: "only_file fd s t" and ne: "fd' \<noteq> fd" and ok: "rm_file_ok fd' h s"
  shows "rm_file_ok fd' h t" and "data_page h p \<Longrightarrow> rm_page fd' p t = rm_page fd' p s"
proof -
  obtain ovr where v: "views ovr s t" "\<forall>q \<in> dom ovr. pid_fd q = fd" using o by (auto simp: only_file_def)
  note d = rm_file_okD [OF ok]
  show page: "rm_page fd' p t = rm_page fd' p s" if "data_page h p" for p
    by (rule views_rm_page [OF v ne d(9) [OF that]])
  have tp: "tpage \<lparr>pid_fd = fd', pid_no = p\<rparr> t" if "page_in_range p" for p by (rule viewsD(1) [OF v(1) d(4) [OF that]])
  have "page_table t \<lparr>pid_fd = fd', pid_no = 0\<rparr> = None" by (rule views_header [OF v(1) _ d(5)]) simp
  moreover have "fd2pageno t fd' = num_pages h" using o ne d(3) by (simp add: only_file_def)
  ultimately show "rm_file_ok fd' h t" unfolding rm_file_ok_def using d(1,2,6,7,8) page tp by simp
qed

lemma only_file_table:
  assumes o: "only_file fd s t" and ne: "fd' \<noteq> fd" and ok: "rm_ok fd' s" and q: "quiet t"
  shows "rm_ok fd' t" and "table fd' t = table fd' s"
proof -
  obtain h where h: "file_hdrs s fd' = Some h" "rm_file_ok fd' h s" using ok by (auto simp: rm_ok_def)
  have "file_hdrs t fd' = Some h" using o ne h(1) by (simp add: only_file_def)
  with only_file_other [OF o ne h(2)] q h(1) show "rm_ok fd' t"
    by (auto simp: rm_ok_def)
  show "table fd' t = table fd' s"
    by (rule ext) (auto simp: table_def h \<open>file_hdrs t fd' = Some h\<close> only_file_other(2) [OF o ne h(2)])
qed

section \<open>Moves on a page handle\<close>

lemma poke_page_eq: "poke_page f g s = (Inr (), write_frame f (g (page_mem f s)) s)"
  by (simp add: poke_page_def)

lemma held_upd_hdrs:
  fixes s :: "'a dbs_scheme" and x
  assumes h: "held pid f s"
  defines "t \<equiv> s\<lparr>file_hdrs := x\<rparr>"
  shows "held pid f t" and "views Map.empty s t" and "no_log s t"
proof -
  note s = heldD [OF h]
  have pool: "same_pool s t" by (simp add: same_pool_def t_def)
  have wf: "disk_wf t" using s(6) by (simp add: t_def disk_wf_def)
  have Q: "tpage q t \<and> disk_page (pid_fd q) (pid_no q) t = disk_page (pid_fd q) (pid_no q) s" if "tpage q s" for q
    using that wf by (simp add: t_def tpage_def page_io_def io_ok_def fd_open_def fd_paths_def disk_page_def split: option.splits)
  have none: "\<not> page_io \<lparr>pid_fd = - 1, pid_no = 0\<rparr> s"
    using disk_wf_fds [of s "- 1"] by (auto simp: page_io_def io_ok_def fd_open_def)
  then have ht: "\<not> tpage \<lparr>pid_fd = - 1, pid_no = 0\<rparr> s" by (simp add: tpage_def)
  have hn: "page_table s \<lparr>pid_fd = - 1, pid_no = 0\<rparr> = None"
    using resident_io [OF s(2)] none by (metis option.exhaust)
  note c = disk_change_held [OF h pool wf _ _ hn]
  show "held pid f t" "views Map.empty s t" using c(1,3) Q ht by blast+
  show "no_log s t"
    by (simp add: no_log_def t_def log_content_def disk_tables_def fd_paths_def)
qed

lemma unpin_frame_eq:
  assumes "held pid f s" and "unpin_page pid d s = (Inr b, t)"
  shows "unpin_frame f d s = (Inr (), t)"
  using assms(2) heldD(7) [OF assms(1)] by (simp add: unpin_frame_def bindE_def)

lemma rm_file_ok_views:
  assumes v: "views ovr s t" and ok: "rm_file_ok fd h s" and "hdr_ok h'" and "fd2pageno t fd = num_pages h'"
    and "\<And>p. data_page h' p \<Longrightarrow> page_ok h' (rm_page fd p t)" and "first_free_page_no h' \<noteq> 0"
    and "data_page h' (first_free_page_no h') \<Longrightarrow>
      int (used_slots h' (rm_page fd (first_free_page_no h') t)) < num_records_per_page h'"
  shows "rm_file_ok fd h' t"
proof -
  note d = rm_file_okD [OF ok]
  have "tpage \<lparr>pid_fd = fd, pid_no = p\<rparr> t" if "page_in_range p" for p by (rule viewsD(1) [OF v d(4) [OF that]])
  moreover have "page_table t \<lparr>pid_fd = fd, pid_no = 0\<rparr> = None" by (rule views_header [OF v _ d(5)]) simp
  ultimately show ?thesis unfolding rm_file_ok_def using assms(3-) d(2) by simp
qed

lemma views_page:
  assumes "views ovr s t" and "rm_file_ok fd h s" and "page_in_range p"
  shows "rm_page fd p t = (case ovr \<lparr>pid_fd = fd, pid_no = p\<rparr> of None \<Rightarrow> rm_page fd p s | Some m \<Rightarrow> m)"
  unfolding rm_page_def by (rule viewsD(2) [OF assms(1) rm_file_okD(4) [OF assms(2,3)]])

lemma rm_file_ok_same:
  assumes v: "views Map.empty s t" and ok: "rm_file_ok fd h s" and "fd2pageno t fd = fd2pageno s fd"
  shows "rm_file_ok fd h t" and "data_page h p \<Longrightarrow> rm_page fd p t = rm_page fd p s"
proof -
  note d = rm_file_okD [OF ok]
  show page: "rm_page fd p t = rm_page fd p s" if "data_page h p" for p
    using views_page [OF v ok data_page_range [OF d(1) that]] by simp
  show "rm_file_ok fd h t"
    by (rule rm_file_ok_views [OF v ok d(1)]) (use d(3,6,7,8) page assms(3) in auto)
qed

section \<open>Fetching a page of the file\<close>

lemma fh_hdr_eq: "file_hdrs s fd = Some h \<Longrightarrow> fh_hdr fd s = (Inr h, s)"
  by (simp add: fh_hdr_def)

lemma fetch_page_handle_out:
  "file_hdrs s fd = Some h \<Longrightarrow> \<not> data_page h p \<Longrightarrow> fetch_page_handle fd p s = (Inr None, s)"
  by (auto simp: fetch_page_handle_def bindE_def fh_hdr_def data_page_def RM_FIRST_RECORD_PAGE_def)

lemma fetch_page_handle_spec:
  assumes q: "quiet s" and h: "file_hdrs s fd = Some h" "rm_file_ok fd h s" and p: "data_page h p"
  obtains f t where "fetch_page_handle fd p s = (Inr (Some f), t)" and "held \<lparr>pid_fd = fd, pid_no = p\<rparr> f t"
    and "views Map.empty s t" and "same_env s t" and "fd2pageno t = fd2pageno s" and "file_hdrs t fd = Some h"
    and "rm_file_ok fd h t" and "settled \<lparr>pid_fd = fd, pid_no = p\<rparr> t" and "page_trunc (page_mem f t) = rm_page fd p s"
proof -
  let ?pid = "\<lparr>pid_fd = fd, pid_no = p\<rparr>"
  note d = rm_file_okD [OF h(2)]
  have no: "pid_no ?pid \<noteq> 0" "pid_no ?pid < fd2pageno s (pid_fd ?pid)" using p d(3) by (simp_all add: data_page_def)
  obtain f t where t: "fetch_page ?pid s = (Inr (Some f), t)" "held ?pid f t" "views Map.empty s t"
    "same_env s t" "fd2pageno t = fd2pageno s" "settled ?pid t"
    by (rule fetch_quiet [OF q d(9) [OF p] no])
  have eq: "fetch_page_handle fd p s = (Inr (Some f), t)"
    using p t(1) by (auto simp: fetch_page_handle_def bindE_def fh_hdr_eq [OF h(1)] data_page_def RM_FIRST_RECORD_PAGE_def)
  have hdr: "file_hdrs t fd = Some h" using t(4) h(1) bpm_more_dbs(1) [of t s] by (simp add: same_env_def)
  have fd: "fd2pageno t fd = fd2pageno s fd" by (simp add: t(5))
  note r = rm_file_ok_same [OF t(3) h(2) fd]
  have "page_trunc (page_mem f t) = rm_page fd p s"
    using heldD(8) [OF t(2)] r(2) [OF p] by (simp add: page_mem_def rm_page_def)
  then show ?thesis using that [OF eq t(2-5) hdr r(1) t(6)] by simp
qed

text \<open>The end of an operation: the page is unpinned.\<close>

lemma finish:
  assumes h: "held pid f t" and d: "d \<or> settled pid t" and o: "only_file fd s t" and n: "no_log s t"
    and hdr: "file_hdrs t fd = Some h" "rm_file_ok fd h t"
  obtains u where "unpin_frame f d t = (Inr (), u)" and "rm_ok fd u" and "only_file fd s u" and "no_log s u"
    and "file_hdrs u fd = Some h" and "\<And>p. data_page h p \<Longrightarrow> rm_page fd p u = rm_page fd p t"
proof -
  obtain u where u: "unpin_page pid d t = (Inr True, u)" "quiet u" "views Map.empty t u"
    "same_env t u" "fd2pageno u = fd2pageno t"
    by (rule unpin_held [OF h d])
  have fd: "fd2pageno u fd = fd2pageno t fd" by (simp add: u(5))
  note r = rm_file_ok_same [OF u(3) hdr(2) fd]
  have hu: "file_hdrs u fd = Some h" using u(4) hdr(1) bpm_more_dbs(1) [of u t] by (simp add: same_env_def)
  have "only_file fd t u" by (rule env_only_file [OF u(4,3)]) (simp_all add: u(5))
  then have "only_file fd s u" by (rule only_file_trans [OF o])
  moreover have "no_log s u" by (rule no_log_trans [OF n env_no_log [OF u(4)]])
  moreover have "rm_ok fd u" using u(2) hu r(1) by (auto simp: rm_ok_def)
  ultimately show ?thesis using that [OF unpin_frame_eq [OF h u(1)]] hu r(2) by blast
qed

lemma table_eqI:
  assumes "file_hdrs s fd = Some h" and "file_hdrs t fd = Some h" and "\<And>p. data_page h p \<Longrightarrow> rm_page fd p t = rm_page fd p s"
  shows "table fd t = table fd s"
  by (rule ext) (auto simp: table_def assms)

section \<open>Reading\<close>

definition raw_slot :: "int \<Rightarrow> rid \<Rightarrow> 'a dbs_scheme \<Rightarrow> byte list" where
  "raw_slot fd r s = (case file_hdrs s fd of None \<Rightarrow> [] | Some h \<Rightarrow> slot_bytes h (rm_page fd (rid_page_no r) s) (rid_slot_no r))"

definition rid_in_file :: "int \<Rightarrow> rid \<Rightarrow> 'a dbs_scheme \<Rightarrow> bool" where
  "rid_in_file fd r s \<longleftrightarrow> (case file_hdrs s fd of None \<Rightarrow> False
     | Some h \<Rightarrow> data_page h (rid_page_no r) \<and> slot_ok h (rid_slot_no r))"

lemma table_raw: "table fd s r = Some v \<Longrightarrow> raw_slot fd r s = v \<and> rid_in_file fd r s"
  by (auto simp: table_def raw_slot_def rid_in_file_def page_records_def split: option.splits if_splits)

lemma rm_okE:
  assumes "rm_ok fd s"
  obtains h where "quiet s" and "file_hdrs s fd = Some h" and "rm_file_ok fd h s"
  using assms by (auto simp: rm_ok_def)

lemma slot_bytes_view:
  "hdr_ok h \<Longrightarrow> slot_ok h i \<Longrightarrow> page_trunc m = v \<Longrightarrow> mem_read m (get_slot h i) (nat (record_size h)) = slot_bytes h v i"
  using slot_bytes_trunc [of h i m] by (simp add: slot_bytes_def)

lemma take_mem_read: "k \<le> n \<Longrightarrow> take k (mem_read m off n) = mem_read m off k"
  by (simp add: mem_read_def take_map)

lemma drop_mem_read: "drop k (mem_read m off n) = mem_read m (off + k) (n - k)"
  by (cases "k \<le> n") (simp_all add: mem_read_def drop_map)

lemma rid_eta [simp]: "\<lparr>rid_page_no = rid_page_no r, rid_slot_no = rid_slot_no r\<rparr> = r"
  by (cases r) simp

text \<open>What \<open>get_record\<close> makes of the bytes of a slot; in MVCC mode it returns them all.\<close>

definition looks_stamped :: "byte list \<Rightarrow> bool" where
  "looks_stamped v \<longleftrightarrow> 0 < to_signed 8 (dec_le (take 8 v))"

definition shown :: "bool \<Rightarrow> byte list \<Rightarrow> byte list" where
  "shown mvcc v = (if \<not> mvcc \<and> looks_stamped v then drop 16 v else v)"

text \<open>\<open>unchanged fd s u\<close>: a reader may have moved pages in and out of the pool, no more.\<close>

definition unchanged :: "int \<Rightarrow> 'a dbs_scheme \<Rightarrow> 'a dbs_scheme \<Rightarrow> bool" where
  "unchanged fd s u \<longleftrightarrow> rm_ok fd u \<and> only_file fd s u \<and> no_log s u \<and> file_hdrs u fd = file_hdrs s fd \<and>
     (\<forall>h p. file_hdrs s fd = Some h \<longrightarrow> data_page h p \<longrightarrow> rm_page fd p u = rm_page fd p s)"

lemma unchangedD:
  assumes "unchanged fd s u"
  shows "rm_ok fd u" and "only_file fd s u" and "no_log s u" and "file_hdrs u fd = file_hdrs s fd" and "table fd u = table fd s"
    and "file_hdrs s fd = Some h \<Longrightarrow> data_page h p \<Longrightarrow> rm_page fd p u = rm_page fd p s"
proof -
  show u: "rm_ok fd u" "only_file fd s u" "no_log s u" "file_hdrs u fd = file_hdrs s fd"
    "file_hdrs s fd = Some h \<Longrightarrow> data_page h p \<Longrightarrow> rm_page fd p u = rm_page fd p s"
    using assms by (simp_all add: unchanged_def)
  show "table fd u = table fd s"
    using assms by (intro ext) (auto simp: unchanged_def table_def split: option.splits)
qed

lemma unchanged_refl: "rm_ok fd s \<Longrightarrow> unchanged fd s s"
  by (simp add: unchanged_def)

lemma unchanged_trans: "unchanged fd s t \<Longrightarrow> unchanged fd t u \<Longrightarrow> unchanged fd s u"
  unfolding unchanged_def using only_file_trans no_log_trans by metis

lemma peek_spec:
  assumes ok: "rm_ok fd s" and h: "file_hdrs s fd = Some h" and p: "data_page h p"
  obtains f t u where "fetch_page_handle fd p s = (Inr (Some f), t)" and "file_hdrs t fd = Some h"
    and "page_trunc (page_mem f t) = rm_page fd p s" and "only_file fd s t"
    and "unpin_frame f False t = (Inr (), u)" and "unchanged fd s u"
proof -
  have q: "quiet s" and hok: "rm_file_ok fd h s" using ok h by (auto simp: rm_ok_def)
  obtain f t where t: "fetch_page_handle fd p s = (Inr (Some f), t)" "held \<lparr>pid_fd = fd, pid_no = p\<rparr> f t"
    "views Map.empty s t" "same_env s t" "fd2pageno t = fd2pageno s" "file_hdrs t fd = Some h" "rm_file_ok fd h t"
    "settled \<lparr>pid_fd = fd, pid_no = p\<rparr> t" "page_trunc (page_mem f t) = rm_page fd p s"
    by (rule fetch_page_handle_spec [OF q h hok p])
  have ot: "only_file fd s t" by (rule env_only_file [OF t(4,3)]) (simp_all add: t(5))
  obtain u where u: "unpin_frame f False t = (Inr (), u)" "rm_ok fd u" "only_file fd s u" "no_log s u"
    "file_hdrs u fd = Some h" "\<And>p. data_page h p \<Longrightarrow> rm_page fd p u = rm_page fd p t"
    by (rule finish [OF t(2) _ ot env_no_log [OF t(4)] t(6,7)]) (use t(8) in auto)
  have fd: "fd2pageno t fd = fd2pageno s fd" by (simp add: t(5))
  have "unchanged fd s u"
    using u h rm_file_ok_same(2) [OF t(3) hok fd] by (simp add: unchanged_def)
  then show ?thesis using that t(1,6,9) ot u(1) by simp
qed

lemma get_record_spec:
  assumes ok: "rm_ok fd s" and h: "file_hdrs s fd = Some h" and r: "rid_in_file fd r s" and m: "ctx_mvcc ctx s \<or> 16 \<le> record_size h"
  obtains u where "get_record fd r ctx s = (Inr (Some (shown (ctx_mvcc ctx s) (raw_slot fd r s))), u)" and "unchanged fd s u"
    and "raw_slot fd r u = raw_slot fd r s"
proof -
  have p: "data_page h (rid_page_no r)" and i: "slot_ok h (rid_slot_no r)" using r h by (simp_all add: rid_in_file_def)
  obtain f t u where t: "fetch_page_handle fd (rid_page_no r) s = (Inr (Some f), t)" "file_hdrs t fd = Some h"
    "page_trunc (page_mem f t) = rm_page fd (rid_page_no r) s" "only_file fd s t"
    and u: "unpin_frame f False t = (Inr (), u)" "unchanged fd s u"
    by (rule peek_spec [OF ok h p])
  have hd: "hdr_ok h" using ok h rm_file_okD(1) by (auto simp: rm_ok_def)
  have mt: "ctx_mvcc ctx t = ctx_mvcc ctx s" using t(4) by (auto simp: ctx_mvcc_def only_file_def split: option.splits)
  have nn: "\<not> record_size h < 0" using hdr_okD(1) [OF hd] by simp
  have v: "mem_read (page_mem f t) (get_slot h (rid_slot_no r)) (nat (record_size h)) = raw_slot fd r s"
    using slot_bytes_view [OF hd i t(3)] by (simp add: raw_slot_def h)
  have stamp: "(0 < load_i64 (page_mem f t) (get_slot h (rid_slot_no r))) = looks_stamped (raw_slot fd r s)" if "16 \<le> record_size h"
    using that by (simp add: looks_stamped_def v [symmetric] take_mem_read load_i64_def)
  have cut: "mem_read (page_mem f t) (get_slot h (rid_slot_no r) + 16) (nat (record_size h - 16)) = drop 16 (raw_slot fd r s)"
    using hdr_okD(1) [OF hd] by (simp add: v [symmetric] drop_mem_read nat_diff_distrib')
  have "get_record fd r ctx s = (Inr (Some (shown (ctx_mvcc ctx s) (raw_slot fd r s))), u)"
  proof (cases "ctx_mvcc ctx s")
    case True
    then show ?thesis using mt nn u(1) v by (simp add: get_record_def bindE_def t(1) fh_hdr_eq [OF t(2)] new_record_def Let_def shown_def)
  next
    case False
    then have "16 \<le> record_size h" using m by blast
    then show ?thesis using False mt nn u(1) v cut stamp
      by (simp add: get_record_def bindE_def t(1) fh_hdr_eq [OF t(2)] new_record_def Let_def shown_def sizeof_TupleMeta_def)
  qed
  moreover have "raw_slot fd r u = raw_slot fd r s" using unchangedD(4,6) [OF u(2)] h p by (simp add: raw_slot_def)
  ultimately show ?thesis using that u(2) by simp
qed

lemma get_record_outside:
  assumes "rm_ok fd s" and "file_hdrs s fd = Some h" and "\<not> data_page h (rid_page_no r)"
  shows "get_record fd r ctx s = (Inr None, s)"
  using fetch_page_handle_out [OF assms(2,3)] by (simp add: get_record_def bindE_def)

section \<open>A page with room\<close>

lemma create_new_page_handle_spec:
  assumes q: "quiet s" and h: "file_hdrs s fd = Some h" "rm_file_ok fd h s" and room: "num_pages h + 1 < 2 ^ 19"
  defines "h' \<equiv> h\<lparr>num_pages := num_pages h + 1, first_free_page_no := num_pages h\<rparr>"
  obtains f t where "create_new_page_handle fd s = (Inr (Some f), t)" and "held \<lparr>pid_fd = fd, pid_no = num_pages h\<rparr> f t"
    and "only_file fd s t" and "no_log s t" and "file_hdrs t fd = Some h'" and "rm_file_ok fd h' t"
    and "used_slots h (rm_page fd (num_pages h) t) = 0" and "page_records h (rm_page fd (num_pages h) t) = Map.empty"
    and "\<And>p. data_page h p \<Longrightarrow> rm_page fd p t = rm_page fd p s"
proof -
  note d = rm_file_okD [OF h(2)] and hd = hdr_okD [OF rm_file_okD(1) [OF h(2)]]
  let ?new = "\<lparr>pid_fd = fd, pid_no = num_pages h\<rparr>" and ?hp = "\<lparr>pid_fd = fd, pid_no = 0\<rparr>"
  have rng: "page_in_range (num_pages h)" using hd(7) room by (simp add: page_in_range_def)
  have new: "?new = \<lparr>pid_fd = fd, pid_no = fd2pageno s fd\<rparr>" by (simp add: d(3))
  have nz: "fd2pageno s fd \<noteq> 0" using d(3) hd(7) by simp
  obtain f t1 where t1: "new_page \<lparr>pid_fd = fd, pid_no = INVALID_PAGE_ID\<rparr> s = (Inr (Some f, ?new), t1)" "held ?new f t1"
    "views [?new \<mapsto> zero_mem] s t1" "same_env s t1" "fd2pageno t1 = (fd2pageno s)(fd := fd2pageno s fd + 1)"
    by (rule new_quiet [OF q new d(4) [OF rng] d(2) nz])
  have hd1: "file_hdrs t1 fd = Some h" using t1(4) h(1) bpm_more_dbs(1) [of t1 s] by (simp add: same_env_def)
  have inc: "c_int (num_pages h + 1) = num_pages h + 1" using hd(7) room by (simp add: int32_range_def)
  define m1 where "m1 = store_i32 (store_i32 (page_mem f t1) addr_num_records 0) addr_next_free (first_free_page_no h)"
  define t2 where "t2 = write_frame f m1 t1"
  note w2 = write_held [OF t1(2), of m1, folded t2_def]
  have hd2: "file_hdrs t2 fd = Some h" using w2(3) hd1 bpm_more_dbs(1) [of t2 t1] by (simp add: same_env_def)
  have pno: "pid_no (pg_id (pages t2 f)) = num_pages h" using heldD(7) [OF w2(1)] by simp
  define t3 where "t3 = t2\<lparr>file_hdrs := (file_hdrs t2)(fd \<mapsto> h')\<rparr>"
  note w3 = held_upd_hdrs [OF w2(1), of "(file_hdrs t2)(fd \<mapsto> h')", folded t3_def]
  define m2 where "m2 = bitmap_init addr_bitmap (page_mem f t3) (nat (bitmap_size h))"
  define t4 where "t4 = write_frame f m2 t3"
  note w4 = write_held [OF w3(1), of m2, folded t4_def]
  have hd4: "file_hdrs t4 fd = Some h'" using w4(3) bpm_more_dbs(1) [of t4 t3] by (simp add: same_env_def t3_def)
  note v4 = views_trans [OF views_trans [OF views_trans [OF t1(3) w2(2)] w3(2)] w4(2)]
  have tp: "tpage ?hp t4" by (rule viewsD(1) [OF v4 d(4)]) (simp add: page_in_range_def)
  have none: "page_table t4 ?hp = None" by (rule views_header [OF v4 _ d(5)]) simp
  obtain t5 where t5: "write_page fd 0 (mem_put zero_mem 0 (hdr_bytes h')) sizeof_RmFileHdr t4 = (Inr (), t5)"
    "held ?new f t5" "views [?hp \<mapsto> page_view ?hp t5] t4 t5" "same_env t4 t5" "fd2pageno t5 = fd2pageno t4" "pages t5 = pages t4"
    by (rule write_header [OF w4(1) refl tp none, of sizeof_RmFileHdr "mem_put zero_mem 0 (hdr_bytes h')"])
      (simp_all add: rmdb_consts)
  have hd5: "file_hdrs t5 fd = Some h'" using t5(4) hd4 bpm_more_dbs(1) [of t5 t4] by (simp add: same_env_def)
  note v5 = views_trans [OF v4 t5(3)]
  have eq: "create_new_page_handle fd s = (Inr (Some f), t5)"
    unfolding create_new_page_handle_def
    by (simp add: bindE_apply t1(1) fh_hdr_eq [OF hd1] poke_page_eq inc Let_def set_hdr_def write_hdr_def RM_FILE_HDR_PAGE_def
         m1_def [symmetric] t2_def [symmetric])
       (simp add: pno h'_def [symmetric] t3_def [symmetric] m2_def [symmetric] t4_def [symmetric] fh_hdr_eq [OF hd4] t5(1) bindE_apply)
  have m3: "page_mem f t3 = m1" using w2(5) by (simp add: page_mem_def t3_def)
  have view_new: "rm_page fd (num_pages h) t5 = page_trunc m2"
    using heldD(8) [OF t5(2)] w4(5) t5(6) by (simp add: rm_page_def)
  note init = init_page [OF d(1), of "page_mem f t1" "first_free_page_no h", folded m1_def, folded m3, folded m2_def]
  have other: "rm_page fd p t5 = rm_page fd p s" if "data_page h p" for p
    using views_page [OF v5 h(2) data_page_range [OF d(1) that]] that by (simp add: data_page_def map_add_def)
  have hok: "hdr_ok h'" using d(1) room by (auto simp: h'_def hdr_ok_def)
  have ok: "rm_file_ok fd h' t5"
  proof (rule rm_file_ok_views [OF v5 h(2) hok])
    show "fd2pageno t5 fd = num_pages h'" using t5(5) w4(4) w2(4) t1(5) d(3) by (simp add: t3_def h'_def)
    show "page_ok h' (rm_page fd p t5)" if "data_page h' p" for p
    proof (cases "p = num_pages h")
      case True
      then show ?thesis using init(2) d(1) by (simp add: h'_def view_new)
    next
      case False
      then have "data_page h p" using that by (simp add: data_page_def h'_def)
      then show ?thesis using d(6) other by (simp add: h'_def)
    qed
    show "first_free_page_no h' \<noteq> 0" using hd(7) by (simp add: h'_def)
    show "int (used_slots h' (rm_page fd (first_free_page_no h') t5)) < num_records_per_page h'"
      using init(3) d(1) hd(3) by (simp add: h'_def view_new)
  qed
  have only: "only_file fd s t5"
    unfolding only_file_def
  proof (intro conjI exI)
    show "views ((([?new \<mapsto> zero_mem] ++ [?new \<mapsto> page_trunc m1]) ++ Map.empty) ++ [?new \<mapsto> page_trunc m2] ++ [?hp \<mapsto> page_view ?hp t5]) s t5"
      using v5 by simp
    show "\<forall>fd'. fd' \<noteq> fd \<longrightarrow> fd2pageno t5 fd' = fd2pageno s fd' \<and> file_hdrs t5 fd' = file_hdrs s fd'"
      using t5(4,5) w4(3,4) w2(3,4) t1(4,5) bpm_more_dbs(1) [of t5 t4] bpm_more_dbs(1) [of t4 t3] bpm_more_dbs(1) [of t2 t1] bpm_more_dbs(1) [of t1 s]
      by (simp add: same_env_def t3_def)
    show "concurrency_mode t5 = concurrency_mode s" "fhs t5 = fhs s" "dbs.more t5 = dbs.more s"
      using t5(4) w4(3) w2(3) t1(4) bpm_more_dbs(2-4) [of t5 t4] bpm_more_dbs(2-4) [of t4 t3] bpm_more_dbs(2-4) [of t2 t1] bpm_more_dbs(2-4) [of t1 s]
      by (simp_all add: same_env_def t3_def)
  qed (auto simp: map_add_def split: if_splits)
  have nolog: "no_log s t5"
    by (rule no_log_trans [OF no_log_trans [OF no_log_trans [OF env_no_log [OF t1(4)] env_no_log [OF w2(3)]] w3(3)]
          no_log_trans [OF env_no_log [OF w4(3)] env_no_log [OF t5(4)]]])
  show ?thesis
    by (rule that [OF eq t5(2) only nolog hd5 ok]) (use init(1,3) other d(1) in \<open>simp_all add: view_new\<close>)
qed

text \<open>
  \<open>ready fd f p h s t\<close>: from \<open>s\<close> the page \<open>p\<close> of the file was pinned in frame \<open>f\<close> of \<open>t\<close>; the records of
  the file are the same, and \<open>h\<close> is the header now.
\<close>

definition ready :: "int \<Rightarrow> nat \<Rightarrow> int \<Rightarrow> rm_file_hdr \<Rightarrow> 'a dbs_scheme \<Rightarrow> 'a dbs_scheme \<Rightarrow> bool" where
  "ready fd f p h s t \<longleftrightarrow> held \<lparr>pid_fd = fd, pid_no = p\<rparr> f t \<and> only_file fd s t \<and>
     file_hdrs t fd = Some h \<and> rm_file_ok fd h t \<and> data_page h p \<and> table fd t = table fd s"

lemma create_page_handle_spec:
  assumes q: "quiet s" and h: "file_hdrs s fd = Some h" "rm_file_ok fd h s" and room: "num_pages h + 1 < 2 ^ 19"
  obtains f p t h' where "create_page_handle fd s = (Inr (Some f), t)" and "ready fd f p h' s t" and "no_log s t"
    and "int (used_slots h' (rm_page fd p t)) < num_records_per_page h'" and "record_size h' = record_size h"
    and "settled \<lparr>pid_fd = fd, pid_no = p\<rparr> t \<or> p = num_pages h"
proof (cases "data_page h (first_free_page_no h)")
  case True
  let ?p = "first_free_page_no h"
  obtain f t where t: "fetch_page_handle fd ?p s = (Inr (Some f), t)" "held \<lparr>pid_fd = fd, pid_no = ?p\<rparr> f t"
    "views Map.empty s t" "same_env s t" "fd2pageno t = fd2pageno s" "file_hdrs t fd = Some h" "rm_file_ok fd h t"
    "settled \<lparr>pid_fd = fd, pid_no = ?p\<rparr> t" "page_trunc (page_mem f t) = rm_page fd ?p s"
    by (rule fetch_page_handle_spec [OF q h True])
  have "create_page_handle fd s = (Inr (Some f), t)"
    using True t(1) by (auto simp: create_page_handle_def bindE_apply fh_hdr_eq [OF h(1)] data_page_def)
  moreover have o: "only_file fd s t" by (rule env_only_file [OF t(4,3)]) (simp_all add: t(5))
  have fd: "fd2pageno t fd = fd2pageno s fd" by (simp add: t(5))
  note pg = rm_file_ok_same(2) [OF t(3) h(2) fd]
  have "table fd t = table fd s" by (rule table_eqI [OF h(1) t(6) pg])
  then have "ready fd f ?p h s t" using t(2,6,7) o True by (simp add: ready_def)
  ultimately show ?thesis
    using that env_no_log [OF t(4)] rm_file_okD(8) [OF h(2) True] pg [OF True] t(8) by simp
next
  case False
  note d = rm_file_okD [OF h(2)]
  obtain f t where t: "create_new_page_handle fd s = (Inr (Some f), t)" "held \<lparr>pid_fd = fd, pid_no = num_pages h\<rparr> f t"
    "only_file fd s t" "no_log s t" "file_hdrs t fd = Some (h\<lparr>num_pages := num_pages h + 1, first_free_page_no := num_pages h\<rparr>)"
    "rm_file_ok fd (h\<lparr>num_pages := num_pages h + 1, first_free_page_no := num_pages h\<rparr>) t"
    "used_slots h (rm_page fd (num_pages h) t) = 0" "page_records h (rm_page fd (num_pages h) t) = Map.empty"
    "\<And>p. data_page h p \<Longrightarrow> rm_page fd p t = rm_page fd p s"
    by (rule create_new_page_handle_spec [OF q h room]) (rule that)
  have "first_free_page_no h \<noteq> 0" by (rule d(7))
  then have "create_page_handle fd s = (Inr (Some f), t)"
    using False t(1) by (auto simp: create_page_handle_def bindE_apply fh_hdr_eq [OF h(1)] data_page_def)
  moreover have "table fd t r = table fd s r" for r
  proof (cases "rid_page_no r = num_pages h")
    case True
    then show ?thesis using t(8) by (simp add: table_def h(1) t(5) data_page_def)
  next
    case False
    then have "data_page (h\<lparr>num_pages := num_pages h + 1, first_free_page_no := num_pages h\<rparr>) (rid_page_no r) = data_page h (rid_page_no r)"
      by (auto simp: data_page_def)
    then show ?thesis using t(9) by (simp add: table_def h(1) t(5))
  qed
  then have "ready fd f (num_pages h) (h\<lparr>num_pages := num_pages h + 1, first_free_page_no := num_pages h\<rparr>) s t"
    using t(2,3,5,6) hdr_okD(7) [OF d(1)] by (auto simp: ready_def data_page_def)
  ultimately show ?thesis
    using that t(4,7) hdr_okD(3) [OF d(1)] by simp
qed

section \<open>Inserting\<close>

lemma readyD:
  assumes "ready fd f p h s t"
  shows "held \<lparr>pid_fd = fd, pid_no = p\<rparr> f t" and "only_file fd s t" and "file_hdrs t fd = Some h" and "rm_file_ok fd h t"
    and "data_page h p" and "table fd t = table fd s" and "hdr_ok h" and "rm_page fd p t = page_trunc (page_mem f t)"
  using assms rm_file_okD(1) [of fd h t] heldD(8) [of "\<lparr>pid_fd = fd, pid_no = p\<rparr>" f t]
  by (auto simp: ready_def rm_page_def page_mem_def)

text \<open>Changing the held page: the table is that of the old pages with the records of the new content.\<close>

lemma change_page:
  assumes r: "ready fd f p h s t" and hd': "h' = h\<lparr>first_free_page_no := ff\<rparr>"
    and rec: "page_records h m = (page_records h (rm_page fd p t))(i := v)" and ok: "page_ok h m"
    and ff: "- 2 \<le> ff" "ff \<noteq> 0" "ff < num_pages h"
    and room: "data_page h ff \<Longrightarrow> int (used_slots h (if ff = p then m else rm_page fd ff t)) < num_records_per_page h"
    and w: "views ovr t u"
    and ovr: "\<And>q. data_page h q \<Longrightarrow> ovr \<lparr>pid_fd = fd, pid_no = q\<rparr> = (if q = p then Some (page_trunc m) else None)"
    and hu: "file_hdrs u fd = Some h'" and fd: "fd2pageno u fd = fd2pageno t fd"
  shows "rm_file_ok fd h' u" and "table fd u = (table fd s)(\<lparr>rid_page_no = p, rid_slot_no = i\<rparr> := v)"
proof -
  note t = readyD [OF r]
  note d = rm_file_okD [OF t(4)]
  have pages: "rm_page fd q u = (if q = p then page_trunc m else rm_page fd q t)" if "data_page h q" for q
    using views_page [OF w t(4) data_page_range [OF t(7) that]] ovr [OF that] by simp
  have dp: "data_page h' q = data_page h q" for q by (simp add: hd' data_page_def)
  have hok: "hdr_ok h'" using t(7) ff by (simp add: hd' hdr_ok_def)
  show "rm_file_ok fd h' u"
  proof (rule rm_file_ok_views [OF w t(4) hok])
    show "fd2pageno u fd = num_pages h'" using d(3) fd by (simp add: hd')
    show "page_ok h' (rm_page fd q u)" if "data_page h' q" for q
      using that pages [of q] d(6) [of q] ok t(7) by (simp add: dp) (simp add: hd')
    show "first_free_page_no h' \<noteq> 0" using ff by (simp add: hd')
    show "int (used_slots h' (rm_page fd (first_free_page_no h') u)) < num_records_per_page h'"
      if "data_page h' (first_free_page_no h')"
    proof -
      have "data_page h ff" using that by (simp add: dp) (simp add: hd')
      then show ?thesis using room pages [of ff] t(7) by (auto simp: hd' split: if_splits)
    qed
  qed
  have "table fd u x = ((table fd t)(\<lparr>rid_page_no = p, rid_slot_no = i\<rparr> := v)) x" for x :: rid
  proof (cases "rid_page_no x = p")
    case True
    have "page_records h (rm_page fd p u) = (page_records h (rm_page fd p t))(i := v)"
      using pages [OF t(5)] rec t(7) by simp
    then show ?thesis using True t(5) by (cases x) (auto simp: table_def hu t(3) dp, simp_all add: hd')
  next
    case False
    then show ?thesis using pages [of "rid_page_no x"] by (auto simp: table_def hu t(3) dp) (simp_all add: hd')
  qed
  then show "table fd u = (table fd s)(\<lparr>rid_page_no = p, rid_slot_no = i\<rparr> := v)" using t(6) by (simp add: fun_eq_iff)
qed

end
