(* ===== verification/RmTable.thy ===== *)
theory RmTable
  imports RmStore
begin

text \<open>
  The contracts of the operations of \<open>RmFileHandle\<close> and \<open>RmScan\<close> on the table of a file: inserting adds
  a record under a new identifier, deleting removes it, updating replaces it, counting counts, and the
  scan visits every record once.
\<close>

section \<open>The end of a change\<close>

lemma upd_hdrs_only:
  fixes t :: "'a dbs_scheme"
  assumes "held pid f t"
  shows "only_file fd t (t\<lparr>file_hdrs := (file_hdrs t)(fd := x)\<rparr>)"
  unfolding only_file_def using held_upd_hdrs(2) [OF assms, of "(file_hdrs t)(fd := x)"] by (auto intro: exI [of _ Map.empty])

lemma write_held_only:
  assumes "held \<lparr>pid_fd = fd, pid_no = p\<rparr> f t"
  shows "only_file fd t (write_frame f m t)"
  by (rule env_only_file [OF write_held(3,2) [OF assms]]) (simp_all add: write_held(4) [OF assms])

text \<open>A held page of the file is written and its header entry replaced.\<close>

lemma store_page:
  assumes r: "ready fd f p h s t" and hd': "h' = h\<lparr>first_free_page_no := ff\<rparr>"
    and rec: "page_records h m = (page_records h (rm_page fd p t))(i := v)" and ok: "page_ok h m"
    and ff: "- 2 \<le> ff" "ff \<noteq> 0" "ff < num_pages h"
    and room: "data_page h ff \<Longrightarrow> int (used_slots h (if ff = p then m else rm_page fd ff t)) < num_records_per_page h"
  defines "t1 \<equiv> write_frame f m t"
  defines "t2 \<equiv> t1\<lparr>file_hdrs := (file_hdrs t1)(fd \<mapsto> h')\<rparr>"
  obtains u where "unpin_frame f True t2 = (Inr (), u)" and "rm_ok fd u" and "only_file fd s u" and "no_log t u"
    and "file_hdrs u fd = Some h'" and "table fd u = (table fd s)(\<lparr>rid_page_no = p, rid_slot_no = i\<rparr> := v)"
proof -
  note t = readyD [OF r]
  note w = write_held [OF t(1), of m, folded t1_def]
  note x = held_upd_hdrs [OF w(1), of "(file_hdrs t1)(fd \<mapsto> h')", folded t2_def]
  have h2: "file_hdrs t2 fd = Some h'" by (simp add: t2_def)
  have v: "views [\<lparr>pid_fd = fd, pid_no = p\<rparr> \<mapsto> page_trunc m] t t2" using views_trans [OF w(2) x(2)] by simp
  have o: "only_file fd s t2"
    using only_file_trans [OF only_file_trans [OF t(2) write_held_only [OF t(1), of m, folded t1_def]] upd_hdrs_only [OF w(1), of fd "Some h'", folded t2_def]] .
  have fd: "fd2pageno t2 fd = fd2pageno t fd" using w(4) by (simp add: t2_def)
  have ovr: "[\<lparr>pid_fd = fd, pid_no = p\<rparr> \<mapsto> page_trunc m] \<lparr>pid_fd = fd, pid_no = q\<rparr> = (if q = p then Some (page_trunc m) else None)" for q
    by simp
  note c = change_page [OF r hd' rec ok ff room v ovr h2 fd, simplified]
  have n: "no_log t t2" by (rule no_log_trans [OF env_no_log [OF w(3)] x(3)])
  obtain u where u: "unpin_frame f True t2 = (Inr (), u)" "rm_ok fd u" "only_file fd s u" "no_log t2 u"
    "file_hdrs u fd = Some h'" "\<And>q. data_page h' q \<Longrightarrow> rm_page fd q u = rm_page fd q t2"
    using finish [OF x(1) disjI1 [OF TrueI] only_file_refl no_log_refl h2 c(1)] only_file_trans [OF o] by metis
  have "table fd u = table fd t2" by (rule table_eqI [OF h2 u(5,6)])
  then show ?thesis using that u(1-3,5) no_log_trans [OF n u(4)] c(2) by simp
qed

section \<open>Inserting\<close>

lemma page_mem_write [simp]: "page_mem f (write_frame f m s) = m"
  by (simp add: page_mem_def write_frame_def set_page_def)

lemma page_mem_hdrs [simp]: "page_mem f (s\<lparr>file_hdrs := x\<rparr>) = page_mem f s"
  by (simp add: page_mem_def)

lemma put_record_spec:
  assumes r: "ready fd f p h s t" and room: "int (used_slots h (rm_page fd p t)) < num_records_per_page h"
    and buf: "record_size h \<le> int (length buf)"
  defines "i \<equiv> first_bit addr_bitmap False (page_mem f t) (num_records_per_page h)"
  obtains u h' where "put_record fd f i buf t = (Inr \<lparr>rid_page_no = p, rid_slot_no = i\<rparr>, u)" and "rm_ok fd u"
    and "only_file fd s u" and "no_log t u" and "file_hdrs u fd = Some h'" and "record_size h' = record_size h"
    and "table fd s \<lparr>rid_page_no = p, rid_slot_no = i\<rparr> = None"
    and "table fd u = (table fd s)(\<lparr>rid_page_no = p, rid_slot_no = i\<rparr> \<mapsto> take (nat (record_size h)) buf)"
    and "slot_ok h i"
proof -
  note t = readyD [OF r]
  note hd = t(7) and pg = t(8)
  have room': "int (used_slots h (page_mem f t)) < num_records_per_page h" using room pg hd by simp
  note i = first_free_slot [OF hd room', folded i_def]
  let ?data = "take (nat (record_size h)) buf" and ?r = "\<lparr>rid_page_no = p, rid_slot_no = i\<rparr>"
  have data: "length ?data = nat (record_size h)" using buf by simp
  define m where "m = fill_slot h i ?data (page_mem f t)"
  have pok: "page_ok h (page_mem f t)" using rm_file_okD(6) [OF t(4,5)] pg hd by simp
  note ok = fill_slot_ok [OF hd i(1) data pok i(2), folded m_def]
  have rec: "page_records h m = (page_records h (rm_page fd p t))(i := Some ?data)"
    using fill_slot_records [OF hd i(1) data, of "page_mem f t"] pg hd by (simp add: m_def)
  define ff where "ff = (if num_records m = num_records_per_page h then RM_NO_PAGE else first_free_page_no h)"
  have nff: "\<not> data_page h RM_NO_PAGE" by (simp add: data_page_def RM_NO_PAGE_def)
  have ff: "- 2 \<le> ff" "ff \<noteq> 0" "ff < num_pages h"
    using rm_file_okD(1,7) [OF t(4)] hdr_okD(7) [OF hd] by (auto simp: ff_def RM_NO_PAGE_def hdr_ok_def)
  have ff_room: "int (used_slots h (if ff = p then m else rm_page fd ff t)) < num_records_per_page h" if d: "data_page h ff"
  proof -
    have ff': "ff = first_free_page_no h" and nf: "num_records m \<noteq> num_records_per_page h" using d nff by (auto simp: ff_def split: if_splits)
    show ?thesis
    proof (cases "ff = p")
      case True
      then show ?thesis using ok room' nf by (simp add: page_ok_def)
    next
      case False
      then show ?thesis using rm_file_okD(8) [OF t(4)] d by (simp add: ff')
    qed
  qed
  let ?h = "h\<lparr>first_free_page_no := ff\<rparr>" and ?t1 = "write_frame f m t"
  have h1: "file_hdrs ?t1 fd = Some h"
    using write_held(3) [OF t(1), of m] t(3) bpm_more_dbs(1) [of ?t1 t] by (simp add: same_env_def)
  obtain u where u: "unpin_frame f True (?t1\<lparr>file_hdrs := (file_hdrs ?t1)(fd \<mapsto> ?h)\<rparr>) = (Inr (), u)" "rm_ok fd u"
    "only_file fd s u" "no_log t u" "file_hdrs u fd = Some ?h" "table fd u = (table fd s)(?r := Some ?data)"
    by (rule store_page [OF r refl rec ok(1) ff ff_room]) (auto intro: that)
  have pno: "pid_no (pg_id (pages ?t1 f)) = p" using heldD(7) [OF write_held(1) [OF t(1)], of m] by simp
  have set: "(if num_records m = num_records_per_page h then set_hdr fd (h\<lparr>first_free_page_no := RM_NO_PAGE\<rparr>) else ret ()) ?t1
     = (Inr (), ?t1\<lparr>file_hdrs := (file_hdrs ?t1)(fd \<mapsto> ?h)\<rparr>)"
    using h1 by (simp add: set_hdr_def ff_def fun_upd_idem)
  have "put_record fd f i buf t = (Inr ?r, u)"
    using buf pno set u(1)
    by (simp add: put_record_def bindE_apply fh_hdr_eq [OF t(3)] memcpy_from_def poke_page_eq m_def [symmetric])
  moreover have "table fd s ?r = None"
    using i(2) t(3,5,6) pg hd i(1) by (simp add: table_def [of fd t] page_records_def flip: t(6))
  ultimately show ?thesis using that u(2-6) i(1) by simp
qed

lemma insert_unlogged_spec:
  assumes ok: "rm_ok fd s" and h: "file_hdrs s fd = Some h" and room: "num_pages h + 1 < 2 ^ 19"
    and buf: "record_size h \<le> int (length buf)"
  obtains r u h' where "insert_unlogged fd buf s = (Inr r, u)" and "rm_ok fd u" and "only_file fd s u" and "no_log s u"
    and "file_hdrs u fd = Some h'" and "record_size h' = record_size h"
    and "table fd s r = None" and "table fd u = (table fd s)(r \<mapsto> take (nat (record_size h)) buf)"
proof -
  have q: "quiet s" and hok: "rm_file_ok fd h s" using ok h by (auto simp: rm_ok_def)
  obtain f p t h1 where t: "create_page_handle fd s = (Inr (Some f), t)" "ready fd f p h1 s t" "no_log s t"
    "int (used_slots h1 (rm_page fd p t)) < num_records_per_page h1" "record_size h1 = record_size h"
    by (rule create_page_handle_spec [OF q h hok room])
  note d = readyD [OF t(2)]
  have buf1: "record_size h1 \<le> int (length buf)" using buf t(5) by simp
  obtain u h' where u: "put_record fd f (first_bit addr_bitmap False (page_mem f t) (num_records_per_page h1)) buf t
      = (Inr \<lparr>rid_page_no = p, rid_slot_no = first_bit addr_bitmap False (page_mem f t) (num_records_per_page h1)\<rparr>, u)"
    "rm_ok fd u" "only_file fd s u" "no_log t u" "file_hdrs u fd = Some h'" "record_size h' = record_size h1"
    "table fd s \<lparr>rid_page_no = p, rid_slot_no = first_bit addr_bitmap False (page_mem f t) (num_records_per_page h1)\<rparr> = None"
    "table fd u = (table fd s)(\<lparr>rid_page_no = p, rid_slot_no = first_bit addr_bitmap False (page_mem f t) (num_records_per_page h1)\<rparr>
       \<mapsto> take (nat (record_size h1)) buf)" "slot_ok h1 (first_bit addr_bitmap False (page_mem f t) (num_records_per_page h1))"
    by (rule put_record_spec [OF t(2,4) buf1])
  have "insert_unlogged fd buf s = (Inr \<lparr>rid_page_no = p, rid_slot_no = first_bit addr_bitmap False (page_mem f t) (num_records_per_page h1)\<rparr>, u)"
    using u(1,9) by (simp add: insert_unlogged_def bindE_apply t(1) fh_hdr_eq [OF d(3)] Let_def slot_ok_def)
  then show ?thesis using that u(2,3,5-8) no_log_trans [OF t(3) u(4)] t(5) by simp
qed

text \<open>Logging while the page is held keeps it ready.\<close>

lemma ready_log:
  fixes s t :: "'a dbs_scheme"
  assumes r: "ready fd f p h s t" and idle: "log_idle base l0 ds t" and ok: "log_ok rec"
    and num: "global_lsn t + 1 < 2 ^ 31" and len: "log_tot_len (hdr rec) \<le> int LOG_BUFFER_SIZE"
  obtains t2 where "log_ahead rec t = (Inr (), t2)" and "ready fd f p h s t2"
    and "log_idle base l0 (ds @ [set_lsn (global_lsn t) rec]) t2" and "global_lsn t2 = global_lsn t + 1"
    and "page_mem f t2 = page_mem f t" and "rm_page fd p t2 = rm_page fd p t"
proof -
  note t = readyD [OF r]
  obtain t2 where t2: "log_ahead rec t = (Inr (), t2)" "held \<lparr>pid_fd = fd, pid_no = p\<rparr> f t2" "pages t2 = pages t"
    "views Map.empty t t2" "log_idle base l0 (ds @ [set_lsn (global_lsn t) rec]) t2" "global_lsn t2 = global_lsn t + 1"
    "logm.more t2 = logm.more t" "fd2pageno t2 = fd2pageno t"
    by (rule log_ahead_held [OF t(1) idle ok num len])
  note m = logm_more_dbs [OF t2(7)]
  have fd: "fd2pageno t2 fd = fd2pageno t fd" by (simp add: t2(8))
  note same = rm_file_ok_same [OF t2(4) t(4) fd]
  have "only_file fd t t2" unfolding only_file_def using t2(4,8) m by (auto intro: exI [of _ Map.empty])
  then have o: "only_file fd s t2" by (rule only_file_trans [OF t(2)])
  have h2: "file_hdrs t2 fd = Some h" using m(1) t(3) by simp
  have "table fd t2 = table fd t" by (rule table_eqI [OF t(3) h2 same(2)])
  then have "ready fd f p h s t2" using t2(2) o h2 same(1) t(5,6) by (simp add: ready_def)
  then show ?thesis using that t2(1,3,5,6) same(2) [OF t(5)] by (simp add: page_mem_def)
qed

text \<open>A context whose records can be logged.\<close>

definition log_context :: "Context \<Rightarrow> bool" where
  "log_context c \<longleftrightarrow> ctx_log c \<and> txn_id_ok (log_txn_id c) \<and> length (ctx_tab c) + 2000 \<le> LOG_BUFFER_SIZE"

lemma data_page_int32: "hdr_ok h \<Longrightarrow> data_page h p \<Longrightarrow> int32_range p"
  using hdr_okD(8) [of h] by (simp add: data_page_def int32_range_def)

lemma slot_int32: "hdr_ok h \<Longrightarrow> slot_ok h i \<Longrightarrow> int32_range i"
  using hdr_okD(4) [of h] by (simp add: slot_ok_def int32_range_def)

lemma log_value_ok:
  assumes "log_context c" and "hdr_ok h" and "data_page h p" and "slot_ok h i" and "length v \<le> 512" and "length w \<le> 512"
  defines "r \<equiv> \<lparr>rid_page_no = p, rid_slot_no = i\<rparr>"
  shows "log_ok (new_InsertLogRecord (log_txn_id c) v r (ctx_tab c))"
    and "log_tot_len (hdr (new_InsertLogRecord (log_txn_id c) v r (ctx_tab c))) \<le> int LOG_BUFFER_SIZE"
    and "log_ok (new_DeleteLogRecord (log_txn_id c) v r (ctx_tab c))"
    and "log_tot_len (hdr (new_DeleteLogRecord (log_txn_id c) v r (ctx_tab c))) \<le> int LOG_BUFFER_SIZE"
    and "log_ok (new_UpdateLogRecord (log_txn_id c) v w r (ctx_tab c))"
    and "log_tot_len (hdr (new_UpdateLogRecord (log_txn_id c) v w r (ctx_tab c))) \<le> int LOG_BUFFER_SIZE"
proof -
  have ok: "txn_id_ok (log_txn_id c)" "length (ctx_tab c) \<le> 4192304" using assms(1) by (simp_all add: log_context_def rmdb_consts)
  have rid: "rid_ok r" using data_page_int32 [OF assms(2,3)] slot_int32 [OF assms(2,4)] by (simp add: rid_ok_def r_def)
  show "log_ok (new_InsertLogRecord (log_txn_id c) v r (ctx_tab c))" "log_ok (new_DeleteLogRecord (log_txn_id c) v r (ctx_tab c))"
    "log_ok (new_UpdateLogRecord (log_txn_id c) v w r (ctx_tab c))"
    by (rule new_records_ok(4-6) [OF ok(1) rid], use assms(5,6) ok(2) in simp)+
  show "log_tot_len (hdr (new_InsertLogRecord (log_txn_id c) v r (ctx_tab c))) \<le> int LOG_BUFFER_SIZE"
    "log_tot_len (hdr (new_DeleteLogRecord (log_txn_id c) v r (ctx_tab c))) \<le> int LOG_BUFFER_SIZE"
    "log_tot_len (hdr (new_UpdateLogRecord (log_txn_id c) v w r (ctx_tab c))) \<le> int LOG_BUFFER_SIZE"
    using assms(5,6) ok(2) new_header_ok(2) [OF ok(1)]
    by (simp_all add: new_InsertLogRecord_def new_DeleteLogRecord_def new_UpdateLogRecord_def log_offsets rmdb_consts)
qed

lemma insert_logged_spec:
  assumes ok: "rm_ok fd s" and h: "file_hdrs s fd = Some h" and room: "num_pages h + 1 < 2 ^ 19"
    and buf: "record_size h \<le> int (length buf)" and c: "log_context c"
    and idle: "log_idle base l0 ds s" and num: "global_lsn s + 1 < 2 ^ 31"
  obtains r u h' where "insert_record fd buf (Some c) s = (Inr r, u)" and "rm_ok fd u" and "only_file fd s u"
    and "file_hdrs u fd = Some h'" and "record_size h' = record_size h"
    and "table fd s r = None" and "table fd u = (table fd s)(r \<mapsto> take (nat (record_size h)) buf)"
    and "log_idle base l0 (ds @ [set_lsn (global_lsn s)
           (new_InsertLogRecord (log_txn_id c) (take (nat (record_size h)) buf) r (ctx_tab c))]) u"
proof -
  have q: "quiet s" and hok: "rm_file_ok fd h s" using ok h by (auto simp: rm_ok_def)
  obtain f p t h1 where t: "create_page_handle fd s = (Inr (Some f), t)" "ready fd f p h1 s t" "no_log s t"
    "int (used_slots h1 (rm_page fd p t)) < num_records_per_page h1" "record_size h1 = record_size h"
    by (rule create_page_handle_spec [OF q h hok room])
  note d = readyD [OF t(2)]
  let ?i = "first_bit addr_bitmap False (page_mem f t) (num_records_per_page h1)" and ?v = "take (nat (record_size h)) buf"
  let ?r = "\<lparr>rid_page_no = p, rid_slot_no = ?i\<rparr>"
  let ?rec = "new_InsertLogRecord (log_txn_id c) ?v ?r (ctx_tab c)"
  have i: "slot_ok h1 ?i" by (rule first_free_slot(1) [OF d(7)]) (use t(4) d(7,8) in simp)
  have v: "length ?v \<le> 512" using hdr_okD(2) [OF d(7)] t(5) by simp
  note rec = log_value_ok [OF c d(7,5) i v v]
  have idle': "log_idle base l0 ds t" by (rule no_log_idle [OF t(3) heldD(6) [OF d(1)] idle])
  have g: "global_lsn t = global_lsn s" using t(3) by (simp add: no_log_def)
  obtain t2 where t2: "log_ahead ?rec t = (Inr (), t2)" "ready fd f p h1 s t2"
    "log_idle base l0 (ds @ [set_lsn (global_lsn t) ?rec]) t2" "page_mem f t2 = page_mem f t" "rm_page fd p t2 = rm_page fd p t"
    by (rule ready_log [OF t(2) idle' rec(1) _ rec(2)]) (use num g in auto)
  have buf1: "record_size h1 \<le> int (length buf)" using buf t(5) by simp
  have room2: "int (used_slots h1 (rm_page fd p t2)) < num_records_per_page h1" using t(4) t2(5) by simp
  obtain u h' where u: "put_record fd f ?i buf t2 = (Inr ?r, u)" "rm_ok fd u" "only_file fd s u" "no_log t2 u"
    "file_hdrs u fd = Some h'" "record_size h' = record_size h1" "table fd s ?r = None"
    "table fd u = (table fd s)(?r \<mapsto> take (nat (record_size h1)) buf)"
    by (rule put_record_spec [OF t2(2) room2 buf1, unfolded t2(4)])
  have pno: "pid_no (pg_id (pages t f)) = p" using heldD(7) [OF d(1)] by simp
  have "insert_record fd buf (Some c) s = (Inr ?r, u)"
    using i c buf u(1) t2(1) pno
    by (simp add: insert_record_def bindE_apply fh_hdr_eq [OF h] memcpy_from_def t(1) fh_hdr_eq [OF d(3)] Let_def slot_ok_def log_context_def)
  moreover have "quiet u" using u(2) by (simp add: rm_ok_def)
  then have "log_idle base l0 (ds @ [set_lsn (global_lsn s) ?rec]) u"
    using no_log_idle [OF u(4) quietD(6) t2(3)] g by simp
  ultimately show ?thesis using that u(2,3,5-8) t(5) by simp
qed

section \<open>Deleting and updating\<close>

text \<open>A page of the file is fetched to be changed.\<close>

lemma fetch_ready:
  assumes ok: "rm_ok fd s" and h: "file_hdrs s fd = Some h" and p: "data_page h p"
  obtains f t where "fetch_page_handle fd p s = (Inr (Some f), t)" and "ready fd f p h s t" and "no_log s t"
    and "settled \<lparr>pid_fd = fd, pid_no = p\<rparr> t" and "page_trunc (page_mem f t) = rm_page fd p s"
proof -
  have q: "quiet s" and hok: "rm_file_ok fd h s" using ok h by (auto simp: rm_ok_def)
  obtain f t where t: "fetch_page_handle fd p s = (Inr (Some f), t)" "held \<lparr>pid_fd = fd, pid_no = p\<rparr> f t"
    "views Map.empty s t" "same_env s t" "fd2pageno t = fd2pageno s" "file_hdrs t fd = Some h" "rm_file_ok fd h t"
    "settled \<lparr>pid_fd = fd, pid_no = p\<rparr> t" "page_trunc (page_mem f t) = rm_page fd p s"
    by (rule fetch_page_handle_spec [OF q h hok p])
  have o: "only_file fd s t" by (rule env_only_file [OF t(4,3)]) (simp_all add: t(5))
  have fd: "fd2pageno t fd = fd2pageno s fd" by (simp add: t(5))
  have "table fd t = table fd s" by (rule table_eqI [OF h t(6) rm_file_ok_same(2) [OF t(3) hok fd]])
  then have "ready fd f p h s t" using t(2,6,7) o p by (simp add: ready_def)
  then show ?thesis using that t(1,8,9) env_no_log [OF t(4)] by simp
qed

text \<open>The part of \<open>update_record\<close> behind the log.\<close>

lemma update_body_spec:
  assumes ok: "rm_ok fd s" and h: "file_hdrs s fd = Some h" and r: "table fd s r \<noteq> None"
    and buf: "record_size h \<le> int (length buf)"
  obtains u where "update_record fd r buf None s = (Inr (), u)" and "rm_ok fd u" and "only_file fd s u" and "no_log s u"
    and "file_hdrs u fd = Some h" and "table fd u = (table fd s)(r \<mapsto> take (nat (record_size h)) buf)"
proof -
  have p: "data_page h (rid_page_no r)" using r by (auto simp: table_def h split: if_splits)
  have i: "slot_ok h (rid_slot_no r)" using r p by (auto simp: table_def h page_records_def split: if_splits)
  obtain f t where t: "fetch_page_handle fd (rid_page_no r) s = (Inr (Some f), t)" "ready fd f (rid_page_no r) h s t" "no_log s t"
    by (rule fetch_ready [OF ok h p])
  note d = readyD [OF t(2)]
  let ?data = "take (nat (record_size h)) buf"
  define m where "m = mem_put (page_mem f t) (get_slot h (rid_slot_no r)) ?data"
  have data: "length ?data = nat (record_size h)" using buf by simp
  note w = write_slot [OF d(7) i data, of "page_mem f t", folded m_def]
  have there: "page_records h (page_mem f t) (rid_slot_no r) \<noteq> None"
    using r p d(3,5,7,8) by (simp add: table_def [of fd t] flip: d(6))
  have rec: "page_records h m = (page_records h (rm_page fd (rid_page_no r) t))(rid_slot_no r := Some ?data)"
    using w(1) there d(7,8) by simp
  have pok: "page_ok h m" using w(2,3) rm_file_okD(6) [OF d(4,5)] d(7,8) by (simp add: page_ok_def)
  let ?ff = "first_free_page_no h"
  have ff: "- 2 \<le> ?ff" "?ff \<noteq> 0" "?ff < num_pages h" using rm_file_okD(7) [OF d(4)] d(7) by (auto simp: hdr_ok_def)
  have room: "int (used_slots h (if ?ff = rid_page_no r then m else rm_page fd ?ff t)) < num_records_per_page h" if "data_page h ?ff"
    using rm_file_okD(8) [OF d(4) that] w(3) d(7,8) by auto
  let ?t1 = "write_frame f m t"
  have h1: "file_hdrs ?t1 fd = Some h"
    using write_held(3) [OF d(1), of m] d(3) bpm_more_dbs(1) [of ?t1 t] by (simp add: same_env_def)
  obtain u where u: "unpin_frame f True (?t1\<lparr>file_hdrs := (file_hdrs ?t1)(fd \<mapsto> h)\<rparr>) = (Inr (), u)" "rm_ok fd u"
    "only_file fd s u" "no_log t u" "file_hdrs u fd = Some h"
    "table fd u = (table fd s)(\<lparr>rid_page_no = rid_page_no r, rid_slot_no = rid_slot_no r\<rparr> := Some ?data)"
    by (rule store_page [OF t(2) _ rec pok ff room]) (auto intro: that)
  have "update_record fd r buf None s = (Inr (), u)"
    using buf u(1) h1
    by (simp add: update_record_def log_old_def bindE_apply t(1) fh_hdr_eq [OF d(3)] memcpy_from_def poke_page_eq m_def [symmetric] fun_upd_idem)
  then show ?thesis using that u(2,3,5,6) no_log_trans [OF t(3) u(4)] by simp
qed

lemma write_frame_twice [simp]: "write_frame f m' (write_frame f m s) = write_frame f m' s"
  by (simp add: write_frame_def set_page_def)

text \<open>Like \<open>store_page\<close>, with the header page written to disk as well.\<close>

lemma store_page_hdr:
  assumes r: "ready fd f p h s t" and hd': "h' = h\<lparr>first_free_page_no := ff\<rparr>"
    and rec: "page_records h m = (page_records h (rm_page fd p t))(i := v)" and ok: "page_ok h m"
    and ff: "- 2 \<le> ff" "ff \<noteq> 0" "ff < num_pages h"
    and room: "data_page h ff \<Longrightarrow> int (used_slots h (if ff = p then m else rm_page fd ff t)) < num_records_per_page h"
  defines "t1 \<equiv> write_frame f m t"
  defines "t2 \<equiv> t1\<lparr>file_hdrs := (file_hdrs t1)(fd \<mapsto> h')\<rparr>"
  obtains t3 u where "write_hdr fd t2 = (Inr (), t3)" and "unpin_frame f True t3 = (Inr (), u)" and "rm_ok fd u" and "only_file fd s u"
    and "no_log t u" and "file_hdrs u fd = Some h'" and "table fd u = (table fd s)(\<lparr>rid_page_no = p, rid_slot_no = i\<rparr> := v)"
proof -
  note t = readyD [OF r]
  let ?pid = "\<lparr>pid_fd = fd, pid_no = p\<rparr>" and ?hp = "\<lparr>pid_fd = fd, pid_no = 0\<rparr>"
  note w = write_held [OF t(1), of m, folded t1_def]
  note x = held_upd_hdrs [OF w(1), of "(file_hdrs t1)(fd \<mapsto> h')", folded t2_def]
  have h2: "file_hdrs t2 fd = Some h'" by (simp add: t2_def)
  have v2: "views [?pid \<mapsto> page_trunc m] t t2" using views_trans [OF w(2) x(2)] by simp
  have tp: "tpage ?hp t2" by (rule viewsD(1) [OF v2 rm_file_okD(4) [OF t(4)]]) (simp add: page_in_range_def)
  have none: "page_table t2 ?hp = None" by (rule views_header [OF v2 _ rm_file_okD(5) [OF t(4)]]) simp
  obtain t3 where t3: "write_page fd 0 (mem_put zero_mem 0 (hdr_bytes h')) sizeof_RmFileHdr t2 = (Inr (), t3)"
    "held ?pid f t3" "views [?hp \<mapsto> page_view ?hp t3] t2 t3" "same_env t2 t3" "fd2pageno t3 = fd2pageno t2" "pages t3 = pages t2"
    by (rule write_header [OF x(1) refl tp none, of sizeof_RmFileHdr "mem_put zero_mem 0 (hdr_bytes h')"])
      (simp_all add: rmdb_consts)
  have h3: "file_hdrs t3 fd = Some h'" using t3(4) h2 bpm_more_dbs(1) [of t3 t2] by (simp add: same_env_def)
  have wh: "write_hdr fd t2 = (Inr (), t3)" using t3(1) by (simp add: write_hdr_def bindE_apply fh_hdr_eq [OF h2] RM_FILE_HDR_PAGE_def)
  note v3 = views_trans [OF v2 t3(3)]
  have ovr: "([?pid \<mapsto> page_trunc m] ++ [?hp \<mapsto> page_view ?hp t3]) \<lparr>pid_fd = fd, pid_no = q\<rparr> = (if q = p then Some (page_trunc m) else None)"
    if "data_page h q" for q
    using that t(5) by (simp add: data_page_def map_add_def)
  have o12: "only_file fd s t2"
    using only_file_trans [OF only_file_trans [OF t(2) write_held_only [OF t(1), of m, folded t1_def]] upd_hdrs_only [OF w(1), of fd "Some h'", folded t2_def]] .
  have "only_file fd t2 t3" by (rule env_only_file [OF t3(4,3)]) (simp_all add: t3(5))
  then have o: "only_file fd s t3" by (rule only_file_trans [OF o12])
  have fd: "fd2pageno t3 fd = fd2pageno t fd" using w(4) t3(5) by (simp add: t2_def)
  note c = change_page [OF r hd' rec ok ff room v3 ovr h3 fd, simplified]
  have n: "no_log t t3" by (rule no_log_trans [OF no_log_trans [OF env_no_log [OF w(3)] x(3)] env_no_log [OF t3(4)]])
  obtain u where u: "unpin_frame f True t3 = (Inr (), u)" "rm_ok fd u" "only_file fd s u" "no_log t3 u"
    "file_hdrs u fd = Some h'" "\<And>q. data_page h' q \<Longrightarrow> rm_page fd q u = rm_page fd q t3"
    using finish [OF t3(2) disjI1 [OF TrueI] only_file_refl no_log_refl h3 c(1)] only_file_trans [OF o] by metis
  have "table fd u = table fd t3" by (rule table_eqI [OF h3 u(5,6)])
  then show ?thesis using that wh u(1-3,5) no_log_trans [OF n u(4)] c(2) by simp
qed

text \<open>The part of \<open>delete_record\<close> behind the log.\<close>

lemma delete_body_spec:
  assumes ok: "rm_ok fd s" and h: "file_hdrs s fd = Some h" and r: "table fd s r \<noteq> None"
  obtains u h' where "delete_record fd r None s = (Inr (), u)" and "rm_ok fd u" and "only_file fd s u" and "no_log s u"
    and "file_hdrs u fd = Some h'" and "record_size h' = record_size h" and "table fd u = (table fd s)(r := None)"
proof -
  have p: "data_page h (rid_page_no r)" using r by (auto simp: table_def h split: if_splits)
  have i: "slot_ok h (rid_slot_no r)" using r p by (auto simp: table_def h page_records_def split: if_splits)
  obtain f t where t: "fetch_page_handle fd (rid_page_no r) s = (Inr (Some f), t)" "ready fd f (rid_page_no r) h s t" "no_log s t"
    by (rule fetch_ready [OF ok h p])
  note d = readyD [OF t(2)]
  define m1 where "m1 = clear_slot h (rid_slot_no r) (page_mem f t)"
  define m2 where "m2 = store_i32 m1 addr_next_free (first_free_page_no h)"
  have set: "bitmap_is_set addr_bitmap (page_mem f t) (rid_slot_no r)"
    using r p d(3,5,7,8) by (auto simp: table_def [of fd t] page_records_def simp flip: d(6) split: if_splits)
  have pok: "page_ok h (page_mem f t)" using rm_file_okD(6) [OF d(4,5)] d(7,8) by simp
  note ok1 = clear_slot_ok [OF d(7) i pok set, folded m1_def]
  note nf = store_next_free [OF d(7), of m1 "first_free_page_no h", folded m2_def]
  have rec: "page_records h m2 = (page_records h (rm_page fd (rid_page_no r) t))(rid_slot_no r := None)"
    using clear_slot_records [OF d(7) i, of "page_mem f t", folded m1_def] nf(1) d(7,8) by simp
  have pok2: "page_ok h m2" using ok1(1) nf by (simp add: page_ok_def)
  have "used_slots h (page_mem f t) \<le> nat (num_records_per_page h)" by (rule used_slots_le)
  then have room: "int (used_slots h m2) < num_records_per_page h" using ok1(2) nf(3) by linarith
  have less: "num_records m1 < num_records_per_page h" using ok1(1) room nf by (simp add: page_ok_def)
  have ff: "- 2 \<le> rid_page_no r" "rid_page_no r \<noteq> 0" "rid_page_no r < num_pages h" using p by (auto simp: data_page_def)
  let ?t1 = "write_frame f m1 t" and ?t2 = "write_frame f m2 t"
  let ?h = "h\<lparr>first_free_page_no := rid_page_no r\<rparr>"
  have h1: "file_hdrs ?t1 fd = Some h"
    using write_held(3) [OF d(1), of m1] d(3) bpm_more_dbs(1) [of ?t1 t] by (simp add: same_env_def)
  have pno: "pid_no (pg_id (pages ?t1 f)) = rid_page_no r" using heldD(7) [OF write_held(1) [OF d(1)], of m1] by simp
  obtain t3 u where u: "write_hdr fd (?t2\<lparr>file_hdrs := (file_hdrs ?t2)(fd \<mapsto> ?h)\<rparr>) = (Inr (), t3)" "unpin_frame f True t3 = (Inr (), u)"
    "rm_ok fd u" "only_file fd s u" "no_log t u" "file_hdrs u fd = Some ?h"
    "table fd u = (table fd s)(\<lparr>rid_page_no = rid_page_no r, rid_slot_no = rid_slot_no r\<rparr> := None)"
    by (rule store_page_hdr [OF t(2) refl rec pok2 ff]) (use room in \<open>auto intro: that\<close>)
  have "delete_record fd r None s = (Inr (), u)"
    using set less p pno u(1,2)
    by (simp add: delete_record_def log_old_def bindE_apply t(1) fh_hdr_eq [OF d(3)] poke_page_eq m1_def [symmetric])
      (simp add: release_page_handle_def bindE_apply fh_hdr_eq [OF h1] poke_page_eq m2_def [symmetric] set_hdr_def data_page_def Let_def)
  then show ?thesis using that u(3,4,6,7) no_log_trans [OF t(3) u(5)] by simp
qed

text \<open>The log half of deleting and updating.\<close>

lemma quiet_log:
  fixes s :: "'a dbs_scheme"
  assumes ok: "rm_ok fd s" and h: "file_hdrs s fd = Some h" and idle: "log_idle base l0 ds s" and rec: "log_ok rec"
    and num: "global_lsn s + 1 < 2 ^ 31" and len: "log_tot_len (hdr rec) \<le> int LOG_BUFFER_SIZE"
  obtains t where "log_ahead rec s = (Inr (), t)" and "rm_ok fd t" and "only_file fd s t" and "file_hdrs t fd = Some h"
    and "table fd t = table fd s" and "log_idle base l0 (ds @ [set_lsn (global_lsn s) rec]) t" and "global_lsn t = global_lsn s + 1"
proof -
  have q: "quiet s" and hok: "rm_file_ok fd h s" using ok h by (auto simp: rm_ok_def)
  obtain t where t: "log_ahead rec s = (Inr (), t)" "quiet t" "views Map.empty s t"
    "log_idle base l0 (ds @ [set_lsn (global_lsn s) rec]) t" "global_lsn t = global_lsn s + 1"
    "logm.more t = logm.more s" "fd2pageno t = fd2pageno s"
    by (rule log_ahead_quiet [OF q idle rec num len])
  note m = logm_more_dbs [OF t(6)]
  have fd: "fd2pageno t fd = fd2pageno s fd" by (simp add: t(7))
  note same = rm_file_ok_same [OF t(3) hok fd]
  have o: "only_file fd s t" unfolding only_file_def using t(3,7) m by (auto intro: exI [of _ Map.empty])
  have h2: "file_hdrs t fd = Some h" using m(1) h by simp
  have "table fd t = table fd s" by (rule table_eqI [OF h h2 same(2)])
  moreover have "rm_ok fd t" using t(2) h2 same(1) by (auto simp: rm_ok_def)
  ultimately show ?thesis using that t(1,4,5) o h2 by blast
qed

lemma log_old_spec:
  fixes s :: "'a dbs_scheme"
  assumes ok: "rm_ok fd s" and h: "file_hdrs s fd = Some h" and r: "table fd s r = Some v" and c: "ctx_log c"
    and m: "ctx_mvcc (Some c) s \<or> 16 \<le> record_size h" and idle: "log_idle base l0 ds s" and num: "global_lsn s + 1 < 2 ^ 31"
    and mk: "\<And>u. file_hdrs u fd = Some h \<Longrightarrow> mk (shown (ctx_mvcc (Some c) s) v) u = (Inr rec, u)"
    and rec: "log_ok rec" "log_tot_len (hdr rec) \<le> int LOG_BUFFER_SIZE"
  obtains t where "log_old fd r (Some c) mk s = (Inr (), t)" and "rm_ok fd t" and "only_file fd s t"
    and "file_hdrs t fd = Some h" and "table fd t = table fd s"
    and "log_idle base l0 (ds @ [set_lsn (global_lsn s) rec]) t" and "global_lsn t = global_lsn s + 1"
proof -
  note raw = table_raw [OF r]
  obtain u where u: "get_record fd r (Some c) s = (Inr (Some (shown (ctx_mvcc (Some c) s) (raw_slot fd r s))), u)"
    "unchanged fd s u"
    by (rule get_record_spec [OF ok h _ m]) (use raw in auto)
  note x = unchangedD [OF u(2)]
  have q: "quiet u" using x(1) by (simp add: rm_ok_def)
  have idle_u: "log_idle base l0 ds u" by (rule no_log_idle [OF x(3) quietD(6) [OF q] idle])
  have g: "global_lsn u = global_lsn s" using x(3) by (simp add: no_log_def)
  have hu: "file_hdrs u fd = Some h" using x(4) h by simp
  obtain t where t: "log_ahead rec u = (Inr (), t)" "rm_ok fd t" "only_file fd u t" "file_hdrs t fd = Some h"
    "table fd t = table fd u" "log_idle base l0 (ds @ [set_lsn (global_lsn u) rec]) t" "global_lsn t = global_lsn u + 1"
    by (rule quiet_log [OF x(1) hu idle_u rec(1) _ rec(2)]) (use num g in auto)
  have "log_old fd r (Some c) mk s = (Inr (), t)"
    using c raw t(1) u(1) mk [OF hu] by (simp add: log_old_def bindE_apply)
  then show ?thesis using that t(2,4-7) x(5) g only_file_trans [OF x(2) t(3)] by simp
qed

lemma shown_length: "length v \<le> n \<Longrightarrow> length (shown b v) \<le> n"
  by (auto simp: shown_def)

lemma table_length:
  assumes "rm_ok fd s" and "file_hdrs s fd = Some h" and "table fd s r = Some v"
  shows "length v = nat (record_size h)" and "data_page h (rid_page_no r)" and "slot_ok h (rid_slot_no r)" and "hdr_ok h" and "length v \<le> 512"
proof -
  show hd: "hdr_ok h" using assms(1,2) rm_file_okD(1) by (auto simp: rm_ok_def)
  show "length v = nat (record_size h)" "data_page h (rid_page_no r)" "slot_ok h (rid_slot_no r)"
    using assms(2,3) by (auto simp: table_def page_records_def slot_bytes_def split: if_splits)
  then show "length v \<le> 512" using hdr_okD(2) [OF hd] by simp
qed

lemma delete_logged_spec:
  fixes s :: "'a dbs_scheme"
  assumes ok: "rm_ok fd s" and h: "file_hdrs s fd = Some h" and r: "table fd s r = Some v" and c: "log_context c"
    and m: "ctx_mvcc (Some c) s \<or> 16 \<le> record_size h" and idle: "log_idle base l0 ds s" and num: "global_lsn s + 1 < 2 ^ 31"
  defines "rec \<equiv> new_DeleteLogRecord (log_txn_id c) (shown (ctx_mvcc (Some c) s) v) r (ctx_tab c)"
  obtains u h' where "delete_record fd r (Some c) s = (Inr (), u)" and "rm_ok fd u" and "only_file fd s u"
    and "file_hdrs u fd = Some h'" and "record_size h' = record_size h" and "table fd u = (table fd s)(r := None)"
    and "log_idle base l0 (ds @ [set_lsn (global_lsn s) rec]) u"
proof -
  note l = table_length [OF ok h r]
  note rec = log_value_ok(3,4) [OF c l(4,2,3) shown_length [OF l(5)] shown_length [OF l(5)], unfolded rid_eta,
      of "ctx_mvcc (Some c) s", folded rec_def]
  have cl: "ctx_log c" using c by (simp add: log_context_def)
  obtain t where t: "log_old fd r (Some c) (\<lambda>v. ret (new_DeleteLogRecord (log_txn_id c) v r (ctx_tab c))) s = (Inr (), t)"
    "rm_ok fd t" "only_file fd s t" "file_hdrs t fd = Some h" "table fd t = table fd s"
    "log_idle base l0 (ds @ [set_lsn (global_lsn s) rec]) t"
    by (rule log_old_spec [OF ok h r cl m idle num, where mk = "\<lambda>v. ret (new_DeleteLogRecord (log_txn_id c) v r (ctx_tab c))" and rec = rec])
      (use rec in \<open>auto simp: rec_def\<close>)
  have rt: "table fd t r \<noteq> None" using r t(5) by simp
  obtain u h' where u: "delete_record fd r None t = (Inr (), u)" "rm_ok fd u" "only_file fd t u" "no_log t u"
    "file_hdrs u fd = Some h'" "record_size h' = record_size h" "table fd u = (table fd t)(r := None)"
    by (rule delete_body_spec [OF t(2,4) rt])
  have "delete_record fd r (Some c) s = delete_record fd r None t"
    using t(1) by (simp add: delete_record_def log_old_def bindE_apply)
  moreover have "quiet u" using u(2) by (simp add: rm_ok_def)
  then have "log_idle base l0 (ds @ [set_lsn (global_lsn s) rec]) u" by (rule no_log_idle [OF u(4) quietD(6) t(6)])
  ultimately show ?thesis using that u(1,2,5,6,7) t(5) only_file_trans [OF t(3) u(3)] by simp
qed

lemma update_logged_spec:
  fixes s :: "'a dbs_scheme"
  assumes ok: "rm_ok fd s" and h: "file_hdrs s fd = Some h" and r: "table fd s r = Some v" and c: "log_context c"
    and m: "ctx_mvcc (Some c) s \<or> 16 \<le> record_size h" and idle: "log_idle base l0 ds s" and num: "global_lsn s + 1 < 2 ^ 31"
    and buf: "record_size h \<le> int (length buf)"
  defines "rec \<equiv> new_UpdateLogRecord (log_txn_id c) (shown (ctx_mvcc (Some c) s) v) (take (nat (record_size h)) buf) r (ctx_tab c)"
  obtains u where "update_record fd r buf (Some c) s = (Inr (), u)" and "rm_ok fd u" and "only_file fd s u"
    and "file_hdrs u fd = Some h" and "table fd u = (table fd s)(r \<mapsto> take (nat (record_size h)) buf)"
    and "log_idle base l0 (ds @ [set_lsn (global_lsn s) rec]) u"
proof -
  note l = table_length [OF ok h r]
  have w: "length (take (nat (record_size h)) buf) \<le> 512" using hdr_okD(2) [OF l(4)] by simp
  note rec = log_value_ok(5,6) [OF c l(4,2,3) shown_length [OF l(5)] w, unfolded rid_eta,
      of "ctx_mvcc (Some c) s", folded rec_def]
  have cl: "ctx_log c" using c by (simp add: log_context_def)
  let ?mk = "\<lambda>v. bindE (fh_hdr fd) (\<lambda>h. bindE (memcpy_from buf (record_size h)) (\<lambda>data.
      ret (new_UpdateLogRecord (log_txn_id c) v data r (ctx_tab c)))) :: ('a dbs_scheme, log_record) op"
  have mk: "?mk (shown (ctx_mvcc (Some c) s) v) u = (Inr rec, u)" if "file_hdrs u fd = Some h" for u
    using buf by (simp add: bindE_apply fh_hdr_eq [OF that] memcpy_from_def rec_def)
  obtain t where t: "log_old fd r (Some c) ?mk s = (Inr (), t)"
    "rm_ok fd t" "only_file fd s t" "file_hdrs t fd = Some h" "table fd t = table fd s"
    "log_idle base l0 (ds @ [set_lsn (global_lsn s) rec]) t"
    by (rule log_old_spec [where mk = ?mk and rec = rec, OF ok h r cl m idle num mk rec])
  have rt: "table fd t r \<noteq> None" using r t(5) by simp
  obtain u where u: "update_record fd r buf None t = (Inr (), u)" "rm_ok fd u" "only_file fd t u" "no_log t u"
    "file_hdrs u fd = Some h" "table fd u = (table fd t)(r \<mapsto> take (nat (record_size h)) buf)"
    by (rule update_body_spec [OF t(2,4) rt buf])
  have "update_record fd r buf (Some c) s = update_record fd r buf None t"
    using t(1) by (simp add: update_record_def [of fd r buf] log_old_def [of fd r None] bindE_apply)
  moreover have "quiet u" using u(2) by (simp add: rm_ok_def)
  then have "log_idle base l0 (ds @ [set_lsn (global_lsn s) rec]) u" by (rule no_log_idle [OF u(4) quietD(6) t(6)])
  ultimately show ?thesis using that u(1,2,5,6) t(5) only_file_trans [OF t(3) u(3)] by simp
qed

section \<open>A small database\<close>

text \<open>One open record file with 32-byte records and no page yet, an empty log, a pool of one frame.\<close>

definition demo_disk :: disk where
  "demo_disk = \<lparr>os_files = [''t'' \<mapsto> empty_file, LOG_FILE_NAME \<mapsto> empty_file], os_fds = [3 \<mapsto> (''t'', 0)],
     os_pick = (\<lambda>S. Max (insert 2 S) + 1), path2fd = [''t'' \<mapsto> 3], fd2path = [3 \<mapsto> ''t''],
     log_fd = - 1, fd2pageno = (\<lambda>_. 1)\<rparr>"

definition demo_db :: dbs where
  "demo_db = logm.extend (logm_init (- 1) (bpm_init 1 (\<lambda>_. 0) demo_disk)) (dbs.fields MVCC [3 \<mapsto> new_file_hdr 32] [''t'' \<mapsto> 3])"

lemma demo_db_sel [simp]:
  "os_files demo_db = os_files demo_disk" "os_fds demo_db = os_fds demo_disk" "os_pick demo_db = os_pick demo_disk"
  "path2fd demo_db = path2fd demo_disk" "fd2path demo_db = fd2path demo_disk" "log_fd demo_db = - 1"
  "fd2pageno demo_db = (\<lambda>_. 1)" "pool_size demo_db = 1" "pages demo_db = (\<lambda>_. fresh_page 0)" "page_table demo_db = Map.empty"
  "free_list demo_db = [0]" "frame_replacer demo_db = lru_init 1" "global_lsn demo_db = 0" "persist_lsn demo_db = - 1"
  "log_offset demo_db = 0" "concurrency_mode demo_db = MVCC" "file_hdrs demo_db = [3 \<mapsto> new_file_hdr 32]"
  by (simp_all add: demo_db_def demo_disk_def logm_init_def bpm_init_def logm.defs bpm.defs disk.defs dbs.defs)

text \<open>States whose files, pool and log are those of \<open>demo_db\<close>, whatever they hold besides.\<close>

definition demo_like :: "'a dbs_scheme \<Rightarrow> bool" where
  "demo_like s \<longleftrightarrow> os_files s = os_files demo_disk \<and> os_fds s = os_fds demo_disk \<and> os_pick s = os_pick demo_disk \<and>
     path2fd s = path2fd demo_disk \<and> fd2path s = fd2path demo_disk \<and> log_fd s = - 1 \<and> fd2pageno s = (\<lambda>_. 1) \<and>
     pool_size s = 1 \<and> pages s = (\<lambda>_. fresh_page 0) \<and> page_table s = Map.empty \<and> free_list s = [0] \<and>
     frame_replacer s = lru_init 1 \<and> global_lsn s = 0 \<and> persist_lsn s = - 1 \<and> log_offset s = 0 \<and>
     file_hdrs s = [3 \<mapsto> new_file_hdr 32]"

lemma demo_db_like: "demo_like demo_db"
  by (simp add: demo_like_def)

lemma demo_disk_wf: "disk_wf demo_disk"
  by (rule disk_wfI) (auto simp: demo_disk_def fds_wf_def Max_insert_fresh LOG_FILE_NAME_def split: if_splits)

lemma demo_like_wf: "demo_like s \<Longrightarrow> disk_wf s"
  using demo_disk_wf by (simp add: disk_wf_def demo_like_def)

lemma demo_like_quiet: "demo_like s \<Longrightarrow> quiet s"
proof -
  assume d: "demo_like s"
  note e = d [unfolded demo_like_def]
  have "bpm_inv s"
    by (rule bpm_invI) (use e in \<open>auto simp: fresh_page_def lru_init_def lru_inv_def fun_eq_iff\<close>)
  then have "pool_ok s"
    using demo_like_wf [OF d] e by (simp add: pool_ok_def bpm_ok_def bpm_coherent_def bpm_io_def)
  then show ?thesis using e by (simp add: quiet_def log_safe_def pin_count_def fresh_page_def)
qed

lemma demo_like_rm_ok: "demo_like s \<Longrightarrow> rm_ok 3 s"
proof -
  assume d: "demo_like s"
  note e = d [unfolded demo_like_def]
  have hd: "hdr_ok (new_file_hdr 32)" by (rule hdr_ok_new) (simp_all add: RM_MAX_RECORD_SIZE_def)
  have np: "num_pages (new_file_hdr 32) = 1" "first_free_page_no (new_file_hdr 32) = RM_NO_PAGE"
    by (simp_all add: new_file_hdr_def Let_def)
  have nd: "\<not> data_page (new_file_hdr 32) p" for p by (simp add: data_page_def np)
  have "tpage \<lparr>pid_fd = 3, pid_no = p\<rparr> s" if "page_in_range p" for p
    using that demo_like_wf [OF d] e
    by (simp add: tpage_def page_io_def io_ok_def fd_open_def fd_paths_def demo_disk_def LOG_FILE_NAME_def)
  then have "rm_file_ok 3 (new_file_hdr 32) s"
    using hd nd np e by (simp add: rm_file_ok_def MAX_FD_def RM_NO_PAGE_def)
  then show ?thesis using demo_like_quiet [OF d] e by (simp add: rm_ok_def)
qed

lemma demo_like_table: "demo_like s \<Longrightarrow> table 3 s = Map.empty"
  by (rule ext) (auto simp: demo_like_def table_def data_page_def new_file_hdr_def Let_def)

lemma demo_like_log_idle: "demo_like s \<Longrightarrow> log_idle 0 0 [] s"
proof -
  assume d: "demo_like s"
  note e = d [unfolded demo_like_def]
  have "log_ready s" using demo_like_wf [OF d] e by (simp add: log_ready_def demo_disk_def LOG_FILE_NAME_def)
  then show ?thesis
    using e by (simp add: log_idle_def log_rep_def demo_disk_def empty_file_def mem_at_def mem_read_def)
qed

lemmas demo_rm_ok = demo_like_rm_ok [OF demo_db_like]
  and demo_table = demo_like_table [OF demo_db_like]
  and demo_log_idle = demo_like_log_idle [OF demo_db_like]

lemma demo_like_stored:
  assumes d: "demo_like s" and v: "length v = 32"
  obtains r t where "rm_ok 3 t" and "table 3 t = [r \<mapsto> v]" and "insert_unlogged 3 v s = (Inr r, t)" and "only_file 3 s t"
    and "\<exists>h. file_hdrs t 3 = Some h \<and> record_size h = 32"
proof -
  have h: "file_hdrs s 3 = Some (new_file_hdr 32)" using d by (simp add: demo_like_def)
  have np: "num_pages (new_file_hdr 32) + 1 < 2 ^ 19" "record_size (new_file_hdr 32) = 32" by (simp_all add: new_file_hdr_def Let_def)
  show ?thesis
    by (rule insert_unlogged_spec [OF demo_like_rm_ok [OF d] h np(1), of v])
      (use v np(2) that in \<open>auto simp: demo_like_table [OF d]\<close>)
qed

lemma demo_stored:
  assumes "length v = 32"
  obtains r t where "rm_ok 3 t" and "table 3 t = [r \<mapsto> v]" and "insert_unlogged 3 v demo_db = (Inr r, t)"
  by (rule demo_like_stored [OF demo_db_like assms]) (rule that)

end
