(* ===== verification/RecordScan.thy ===== *)
theory RecordScan
  imports RmTable
begin

text \<open>
  Counting the records of a file and walking over them with \<open>RmScan\<close>: the scan visits the identifiers
  of the table in the order of page and slot, each once, and \<open>get_records_num\<close> is their number.
\<close>

section \<open>The order of identifiers\<close>

definition after :: "rid \<Rightarrow> rid \<Rightarrow> bool" where
  "after r x \<longleftrightarrow> rid_page_no r < rid_page_no x \<or> rid_page_no r = rid_page_no x \<and> rid_slot_no r < rid_slot_no x"

lemma after_trans: "after r x \<Longrightarrow> after x y \<Longrightarrow> after r y"
  by (auto simp: after_def)

lemma after_irrefl [simp]: "\<not> after r r"
  by (simp add: after_def)

lemma table_Some:
  "file_hdrs s fd = Some h \<Longrightarrow> table fd s x \<noteq> None \<longleftrightarrow>
    data_page h (rid_page_no x) \<and> slot_ok h (rid_slot_no x) \<and> bitmap_is_set addr_bitmap (rm_page fd (rid_page_no x) s) (rid_slot_no x)"
  using page_records_dom [of h "rm_page fd (rid_page_no x) s" "rid_slot_no x"] by (simp add: table_def)

lemma table_finite: "finite (dom (table fd s))"
proof (cases "file_hdrs s fd")
  case (Some h)
  have "dom (table fd s) \<subseteq> (\<lambda>(p, i). \<lparr>rid_page_no = p, rid_slot_no = i\<rparr>) ` ({1..<num_pages h} \<times> {0..<num_records_per_page h})"
  proof
    fix x assume "x \<in> dom (table fd s)"
    then have "(rid_page_no x, rid_slot_no x) \<in> {1..<num_pages h} \<times> {0..<num_records_per_page h}"
      using table_Some [OF Some, of x] by (auto simp: data_page_def slot_ok_def)
    then show "x \<in> (\<lambda>(p, i). \<lparr>rid_page_no = p, rid_slot_no = i\<rparr>) ` ({1..<num_pages h} \<times> {0..<num_records_per_page h})"
      by (rule rev_image_eqI) simp
  qed
  then show ?thesis by (rule finite_subset) simp
next
  case None
  then have "table fd s = Map.empty" by (intro ext) (simp add: table_def)
  then show ?thesis by simp
qed

section \<open>One step\<close>

definition end_rid :: rid where
  "end_rid = \<lparr>rid_page_no = RM_NO_PAGE, rid_slot_no = - 1\<rparr>"

definition scan_result :: "(rid \<rightharpoonup> byte list) \<Rightarrow> rid \<Rightarrow> rid \<Rightarrow> bool" where
  "scan_result m r r' \<longleftrightarrow>
     (if r' = end_rid then \<forall>x \<in> dom m. \<not> after r x
      else r' \<in> dom m \<and> after r r' \<and> (\<forall>x \<in> dom m. after r x \<longrightarrow> x = r' \<or> after r' x))"

text \<open>A position of the scan: in front of a page, or on a slot of a page.\<close>

definition scan_pos :: "rm_file_hdr \<Rightarrow> rid \<Rightarrow> bool" where
  "scan_pos h r \<longleftrightarrow> 1 \<le> rid_page_no r \<and> - 1 \<le> rid_slot_no r \<and> rid_slot_no r < num_records_per_page h"

lemma scan_next_spec:
  assumes "rm_ok fd s" and "file_hdrs s fd = Some h" and "scan_pos h r"
  shows "\<exists>r' u. scan_next fd h r s = (Inr r', u) \<and> unchanged fd s u \<and> scan_result (table fd s) r r'"
  using assms
proof (induction "nat (num_pages h - rid_page_no r)" arbitrary: r s rule: less_induct)
  case less
  note ok = less.prems(1) and h = less.prems(2) and r = less.prems(3)
  have np: "rid_page_no r \<noteq> RM_NO_PAGE" using r by (simp add: scan_pos_def RM_NO_PAGE_def)
  show ?case
  proof (cases "num_pages h \<le> rid_page_no r")
    case True
    have "\<not> after r x" if "x \<in> dom (table fd s)" for x
      using that table_Some [OF h, of x] True by (auto simp: after_def data_page_def)
    then have "scan_result (table fd s) r end_rid" by (simp add: scan_result_def)
    moreover have "scan_next fd h r s = (Inr end_rid, s)"
      using np True by (subst scan_next.simps) (simp add: end_rid_def)
    ultimately show ?thesis using unchanged_refl [OF ok] by blast
  next
    case False
    then have p: "data_page h (rid_page_no r)" using r by (simp add: data_page_def scan_pos_def)
    have hd: "hdr_ok h" using ok h rm_file_okD(1) by (auto simp: rm_ok_def)
    obtain f t u where t: "fetch_page_handle fd (rid_page_no r) s = (Inr (Some f), t)"
      "page_trunc (page_mem f t) = rm_page fd (rid_page_no r) s" and u: "unpin_frame f False t = (Inr (), u)" "unchanged fd s u"
      by (rule peek_spec [OF ok h p])
    note x = unchangedD [OF u(2)]
    let ?n = "num_records_per_page h" and ?b = "page_mem f t"
    let ?i = "next_bit addr_bitmap True ?b ?n (rid_slot_no r)"
    have s: "- 1 \<le> rid_slot_no r" "rid_slot_no r < ?n" using r by (simp_all add: scan_pos_def)
    note nr = bm.next_range [OF s, of addr_bitmap True ?b]
    have set: "bitmap_is_set addr_bitmap (rm_page fd (rid_page_no r) s) i = bitmap_is_set addr_bitmap ?b i" if "slot_ok h i" for i
      using that hd by (simp flip: t(2))
    show ?thesis
    proof (cases "?i < ?n")
      case True
      let ?r = "r\<lparr>rid_slot_no := ?i\<rparr>"
      have i: "slot_ok h ?i" using True nr s by (simp add: slot_ok_def)
      have "bitmap_is_set addr_bitmap ?b ?i" using bm.next_found [OF s, of addr_bitmap True ?b] True by simp
      then have "?r \<in> dom (table fd s)" using table_Some [OF h, of ?r] p i set [OF i] by (simp add: domIff)
      moreover have "after r ?r" using nr by (simp add: after_def)
      moreover have "y = ?r \<or> after ?r y" if y: "y \<in> dom (table fd s)" "after r y" for y
      proof (cases "rid_page_no y = rid_page_no r")
        case same: True
        have yi: "slot_ok h (rid_slot_no y)" "bitmap_is_set addr_bitmap ?b (rid_slot_no y)"
          using table_Some [OF h, of y] y(1) set same by (auto simp: domIff)
        have "?i \<le> rid_slot_no y"
          using bm.next_skips [OF s, of "rid_slot_no y" addr_bitmap True ?b] yi(2) y(2) same by (fastforce simp: after_def)
        then show ?thesis using same by (cases y) (auto simp: after_def)
      next
        case False
        then show ?thesis using y(2) by (auto simp: after_def)
      qed
      moreover have "?r \<noteq> end_rid" using i by (auto simp: end_rid_def slot_ok_def rid.ext_inject dest!: arg_cong [where f = rid_slot_no])
      ultimately have "scan_result (table fd s) r ?r" by (simp add: scan_result_def)
      moreover have "scan_next fd h r s = (Inr ?r, u)"
        using np False True by (subst scan_next.simps) (simp add: bindE_apply t(1) u(1))
      ultimately show ?thesis using u(2) by blast
    next
      case full: False
      let ?r = "\<lparr>rid_page_no = rid_page_no r + 1, rid_slot_no = - 1\<rparr>"
      have skip: "after r y \<longleftrightarrow> after ?r y" if y: "y \<in> dom (table fd s)" for y
      proof -
        have yi: "slot_ok h (rid_slot_no y)" "bitmap_is_set addr_bitmap (rm_page fd (rid_page_no y) s) (rid_slot_no y)"
          using table_Some [OF h, of y] y by (auto simp: domIff)
        have "\<not> rid_slot_no r < rid_slot_no y" if "rid_page_no y = rid_page_no r"
          using bm.next_skips [OF s, of "rid_slot_no y" addr_bitmap True ?b] yi set [OF yi(1)] full nr that by (auto simp: slot_ok_def)
        then show ?thesis using yi(1) by (auto simp: after_def slot_ok_def)
      qed
      show ?thesis
      proof (cases "num_pages h \<le> rid_page_no r + 1")
        case True
        have "\<not> after r y" if "y \<in> dom (table fd s)" for y
          using skip [OF that] table_Some [OF h, of y] that True by (auto simp: after_def data_page_def)
        then have "scan_result (table fd s) r end_rid" by (simp add: scan_result_def)
        moreover have "scan_next fd h r s = (Inr end_rid, u)"
          using np False full True by (subst scan_next.simps) (simp add: bindE_apply t(1) u(1) end_rid_def)
        ultimately show ?thesis using u(2) by blast
      next
        case more: False
        have pos: "scan_pos h ?r" using r hdr_okD(3) [OF hd] by (simp add: scan_pos_def)
        have hu: "file_hdrs u fd = Some h" using x(4) h by simp
        obtain r' v where v: "scan_next fd h ?r u = (Inr r', v)" "unchanged fd u v" "scan_result (table fd u) ?r r'"
          using less.hyps [OF _ x(1) hu pos] False by (auto simp: scan_pos_def)
        have "scan_result (table fd s) r r'"
          using v(3) skip x(5) after_trans [of r ?r] by (auto simp: scan_result_def split: if_splits)
        moreover have "scan_next fd h r s = (Inr r', v)"
          using np False full more v(1) by (subst scan_next.simps) (simp add: bindE_apply t(1) u(1))
        ultimately show ?thesis using unchanged_trans [OF u(2) v(2)] by blast
      qed
    qed
  qed
qed

section \<open>The whole walk\<close>

text \<open>
  \<open>for (RmScan scan(fh); !scan.is_end(); scan.next())\<close>, as in \<open>SmManager::create_index\<close>: the
  identifiers met, within the given number of rounds.
\<close>

primrec scan_rids :: "nat \<Rightarrow> int \<Rightarrow> rid \<Rightarrow> ('a dbs_scheme, rid list option) op" where
  "scan_rids 0 fd r = ret None"
| "scan_rids (Suc n) fd r = bindE (rm_scan_is_end fd r) (\<lambda>e.
     if e then ret (Some [])
     else bindE (rm_scan_next fd r) (\<lambda>r'. bindE (scan_rids n fd r') (\<lambda>rs. ret (map_option ((#) r) rs))))"

definition scan_file :: "nat \<Rightarrow> int \<Rightarrow> ('a dbs_scheme, rid list option) op" where
  "scan_file n fd = bindE (rm_scan_begin fd) (scan_rids n fd)"

lemma scan_result_end:
  "finite (dom m) \<Longrightarrow> scan_result m r r' \<Longrightarrow> r' \<noteq> end_rid \<Longrightarrow>
    {x \<in> dom m. after r x} = insert r' {x \<in> dom m. after r' x} \<and>
    card {x \<in> dom m. after r x} = Suc (card {x \<in> dom m. after r' x})"
proof -
  assume fin: "finite (dom m)" and r: "scan_result m r r'" "r' \<noteq> end_rid"
  have eq: "{x \<in> dom m. after r x} = insert r' {x \<in> dom m. after r' x}"
    using r after_trans by (auto simp: scan_result_def)
  have "finite {x \<in> dom m. after r' x}" by (rule finite_subset [OF _ fin]) auto
  then have "card (insert r' {x \<in> dom m. after r' x}) = Suc (card {x \<in> dom m. after r' x})" by simp
  then show "{x \<in> dom m. after r x} = insert r' {x \<in> dom m. after r' x} \<and>
    card {x \<in> dom m. after r x} = Suc (card {x \<in> dom m. after r' x})"
    using eq by simp
qed

lemma scan_is_end_eq:
  assumes "file_hdrs s fd = Some h"
  shows "rm_scan_is_end fd end_rid s = (Inr True, s)"
    and "r \<in> dom (table fd s) \<Longrightarrow> rm_scan_is_end fd r s = (Inr False, s)"
  using table_Some [OF assms, of r]
  by (auto simp: rm_scan_is_end_def bindE_apply fh_hdr_eq [OF assms] end_rid_def RM_NO_PAGE_def data_page_def slot_ok_def)

lemma dom_scan_pos: "file_hdrs s fd = Some h \<Longrightarrow> r \<in> dom (table fd s) \<Longrightarrow> scan_pos h r"
  using table_Some [of s fd h r] by (auto simp: scan_pos_def data_page_def slot_ok_def)

lemma scan_rids_spec:
  assumes "rm_ok fd s" and "file_hdrs s fd = Some h" and "scan_result (table fd s) r0 r" and "card {x \<in> dom (table fd s). after r0 x} < n"
  shows "\<exists>rs u. scan_rids n fd r s = (Inr (Some rs), u) \<and> unchanged fd s u \<and>
    set rs = {x \<in> dom (table fd s). after r0 x} \<and> sorted_wrt after rs"
  using assms
proof (induction n arbitrary: r0 r s)
  case 0
  then show ?case by simp
next
  case (Suc n)
  note ok = Suc.prems(1) and h = Suc.prems(2) and r = Suc.prems(3)
  show ?case
  proof (cases "r = end_rid")
    case True
    then have "{x \<in> dom (table fd s). after r0 x} = {}" using r by (auto simp: scan_result_def)
    then show ?thesis using True unchanged_refl [OF ok] by (simp add: bindE_apply scan_is_end_eq(1) [OF h])
  next
    case False
    note e = scan_result_end [OF table_finite r False]
    have dom: "r \<in> dom (table fd s)" using r False by (simp add: scan_result_def)
    obtain r' u where u: "scan_next fd h r s = (Inr r', u)" "unchanged fd s u" "scan_result (table fd s) r r'"
      using scan_next_spec [OF ok h dom_scan_pos [OF h dom]] by blast
    note x = unchangedD [OF u(2)]
    have hu: "file_hdrs u fd = Some h" using x(4) h by simp
    obtain rs v where v: "scan_rids n fd r' u = (Inr (Some rs), v)" "unchanged fd u v"
      "set rs = {y \<in> dom (table fd u). after r y}" "sorted_wrt after rs"
      using Suc.IH [OF x(1) hu, of r r'] u(3) Suc.prems(4) e x(5) by auto
    have "scan_rids (Suc n) fd r s = (Inr (Some (r # rs)), v)"
      using u(1) v(1) by (simp add: bindE_apply scan_is_end_eq(2) [OF h dom] rm_scan_next_def fh_hdr_eq [OF h])
    moreover have "set (r # rs) = {y \<in> dom (table fd s). after r0 y}" using v(3) e x(5) by simp
    moreover have "sorted_wrt after (r # rs)" using v(3,4) by simp
    ultimately show ?thesis using unchanged_trans [OF u(2) v(2)] by blast
  qed
qed

text \<open>
  C15: a full scan of a record file, from the constructor of \<open>RmScan\<close> over \<open>next\<close> until \<open>is_end\<close>, ends
  after as many rounds as there are records, and has visited exactly the identifiers of the stored
  records, each once, in the order of pages and slots; it leaves every table and the log as they were.
\<close>

theorem scan_visits_all_records:
  assumes "rm_ok fd s" and "card (dom (table fd s)) < n"
  shows "\<exists>rs u. scan_file n fd s = (Inr (Some rs), u) \<and> set rs = dom (table fd s) \<and> sorted_wrt after rs \<and> distinct rs \<and>
    rm_ok fd u \<and> table fd u = table fd s \<and> only_file fd s u \<and> no_log s u"
proof -
  obtain h where h: "file_hdrs s fd = Some h" using assms(1) by (auto simp: rm_ok_def)
  have hd: "hdr_ok h" using assms(1) h rm_file_okD(1) by (auto simp: rm_ok_def)
  let ?r = "\<lparr>rid_page_no = RM_FIRST_RECORD_PAGE, rid_slot_no = - 1\<rparr>"
  have pos: "scan_pos h ?r" using hdr_okD(3) [OF hd] by (simp add: scan_pos_def RM_FIRST_RECORD_PAGE_def)
  have "after ?r x" if "x \<in> dom (table fd s)" for x
    using that table_Some [OF h, of x] by (simp add: domIff after_def data_page_def slot_ok_def RM_FIRST_RECORD_PAGE_def) linarith
  then have all: "{x \<in> dom (table fd s). after ?r x} = dom (table fd s)" by blast
  obtain r u where u: "scan_next fd h ?r s = (Inr r, u)" "unchanged fd s u" "scan_result (table fd s) ?r r"
    using scan_next_spec [OF assms(1) h pos] by blast
  note x = unchangedD [OF u(2)]
  have hu: "file_hdrs u fd = Some h" using x(4) h by simp
  obtain rs v where v: "scan_rids n fd r u = (Inr (Some rs), v)" "unchanged fd u v"
    "set rs = dom (table fd s)" "sorted_wrt after rs"
    using scan_rids_spec [OF x(1) hu, of ?r r n] u(3) assms(2) all x(5) by auto
  have "scan_file n fd s = (Inr (Some rs), v)"
    using u(1) v(1) by (simp add: scan_file_def rm_scan_begin_def rm_scan_next_def bindE_apply fh_hdr_eq [OF h])
  moreover have "distinct rs" using v(4) by (induction rs) auto
  ultimately show ?thesis using v(3,4) unchangedD(1,2,3,5) [OF unchanged_trans [OF u(2) v(2)]] by blast
qed

theorem scan_visits_all_records_witness:
  "\<exists>r (s :: dbs) u. table 3 s = [r \<mapsto> replicate 32 7] \<and> scan_file 2 3 s = (Inr (Some [r]), u)"
proof -
  obtain r and s :: dbs where s: "rm_ok 3 s" "table 3 s = [r \<mapsto> replicate 32 7]"
    using demo_stored [of "replicate 32 7"] by (metis length_replicate)
  have card: "card (dom (table 3 s)) < 2" by (simp add: s(2))
  obtain rs u where u: "scan_file 2 3 s = (Inr (Some rs), u)" "set rs = {r}" "distinct rs"
    using scan_visits_all_records [OF s(1) card] s(2) by auto
  have "length rs = 1" using distinct_card [OF u(3)] u(2) by simp
  then have "rs = [r]" using u(2) by (cases rs) auto
  then show ?thesis using u(1) s(2) by blast
qed

section \<open>Counting\<close>

lemma sum_records_spec:
  assumes "rm_ok fd s" and "file_hdrs s fd = Some h" and "\<forall>p \<in> set ps. data_page h p" and "0 \<le> acc"
    and "acc + 3622 * int (length ps) < 2 ^ 31"
  shows "\<exists>u. sum_records fd ps acc s = (Inr (acc + (\<Sum>p\<leftarrow>ps. int (used_slots h (rm_page fd p s)))), u) \<and> unchanged fd s u"
  using assms
proof (induction ps arbitrary: acc s)
  case Nil
  then show ?case using unchanged_refl by auto
next
  case (Cons p ps)
  note ok = Cons.prems(1) and h = Cons.prems(2)
  have p: "data_page h p" using Cons.prems(3) by simp
  have hok: "rm_file_ok fd h s" using ok h by (auto simp: rm_ok_def)
  note hd = rm_file_okD(1) [OF hok]
  obtain f t u where t: "fetch_page_handle fd p s = (Inr (Some f), t)"
    "page_trunc (page_mem f t) = rm_page fd p s" and u: "unpin_frame f False t = (Inr (), u)" "unchanged fd s u"
    by (rule peek_spec [OF ok h p])
  note x = unchangedD [OF u(2)]
  have num: "num_records (page_mem f t) = int (used_slots h (rm_page fd p s))"
    using rm_file_okD(6) [OF hok p] num_records_trunc [of "page_mem f t"] by (simp add: page_ok_def t(2))
  have le: "int (used_slots h (rm_page fd p s)) \<le> 3622" by (rule used_slots_range [OF hd])
  let ?acc = "acc + int (used_slots h (rm_page fd p s))"
  have acc: "c_int ?acc = ?acc" using Cons.prems(4,5) le by (simp add: int32_range_def)
  have hu: "file_hdrs u fd = Some h" using x(4) h by simp
  have bound: "?acc + 3622 * int (length ps) < 2 ^ 31" using Cons.prems(5) le by simp
  obtain v where v: "sum_records fd ps ?acc u = (Inr (?acc + (\<Sum>p\<leftarrow>ps. int (used_slots h (rm_page fd p u)))), v)" "unchanged fd u v"
    using Cons.IH [OF x(1) hu _ _ bound] Cons.prems(3,4) by auto
  have same: "map (\<lambda>p. int (used_slots h (rm_page fd p u))) ps = map (\<lambda>p. int (used_slots h (rm_page fd p s))) ps"
    using x(6) [OF h] Cons.prems(3) by simp
  have "sum_records fd (p # ps) acc s = (Inr (acc + (\<Sum>p\<leftarrow>p # ps. int (used_slots h (rm_page fd p s)))), v)"
    using v(1) by (simp add: bindE_apply t(1) u(1) num acc Let_def same add.assoc)
  then show ?case using unchanged_trans [OF u(2) v(2)] by blast
qed

lemma card_table:
  assumes h: "file_hdrs s fd = Some h"
  shows "int (card (dom (table fd s))) = (\<Sum>p\<leftarrow>[1..num_pages h - 1]. int (used_slots h (rm_page fd p s)))"
proof -
  let ?S = "\<lambda>p. {i. 0 \<le> i \<and> i < num_records_per_page h \<and> bitmap_is_set addr_bitmap (rm_page fd p s) i}"
  let ?f = "\<lambda>(p, i). \<lparr>rid_page_no = p, rid_slot_no = i\<rparr>"
  have "dom (table fd s) = ?f ` (SIGMA p : {1..num_pages h - 1}. ?S p)"
  proof (intro equalityI subsetI)
    fix x assume "x \<in> dom (table fd s)"
    then have "(rid_page_no x, rid_slot_no x) \<in> (SIGMA p : {1..num_pages h - 1}. ?S p)"
      using table_Some [OF h, of x] by (auto simp: data_page_def slot_ok_def)
    then show "x \<in> ?f ` (SIGMA p : {1..num_pages h - 1}. ?S p)" by (rule rev_image_eqI) simp
  next
    fix x assume "x \<in> ?f ` (SIGMA p : {1..num_pages h - 1}. ?S p)"
    then show "x \<in> dom (table fd s)"
      using table_Some [OF h, of x] by (auto simp: domIff data_page_def slot_ok_def)
  qed
  moreover have "inj_on ?f (SIGMA p : {1..num_pages h - 1}. ?S p)" by (auto simp: inj_on_def)
  ultimately have "card (dom (table fd s)) = card (SIGMA p : {1..num_pages h - 1}. ?S p)" by (simp add: card_image)
  also have "\<dots> = (\<Sum>p = 1..num_pages h - 1. card (?S p))"
    by (rule card_SigmaI) (auto intro: finite_subset [of _ "{0..<num_records_per_page h}"])
  finally have "int (card (dom (table fd s))) = (\<Sum>p = 1..num_pages h - 1. int (used_slots h (rm_page fd p s)))"
    by (simp add: used_slots_def)
  then show ?thesis by (subst interv_sum_list_conv_sum_set_int) simp
qed

text \<open>
  \<open>get_records_num\<close> returns the number of records in the table of the file, without 32-bit overflow
  for any number of pages the file can have, and leaves the table, the other files and the log alone.
\<close>

theorem get_records_num_counts:
  assumes "rm_ok fd s"
  shows "\<exists>u. get_records_num fd s = (Inr (int (card (dom (table fd s)))), u) \<and>
    rm_ok fd u \<and> table fd u = table fd s \<and> only_file fd s u \<and> no_log s u"
proof -
  obtain h where h: "file_hdrs s fd = Some h" using assms by (auto simp: rm_ok_def)
  have hd: "hdr_ok h" using assms h rm_file_okD(1) by (auto simp: rm_ok_def)
  have pages: "\<forall>p \<in> set [1..num_pages h - 1]. data_page h p" by (simp add: data_page_def)
  have len: "0 + 3622 * int (length [1..num_pages h - 1]) < 2 ^ 31" using hdr_okD(7,8) [OF hd] by simp
  obtain u where u: "sum_records fd [1..num_pages h - 1] 0 s = (Inr (0 + (\<Sum>p\<leftarrow>[1..num_pages h - 1]. int (used_slots h (rm_page fd p s)))), u)"
    "unchanged fd s u"
    using sum_records_spec [OF assms h pages order_refl len] by blast
  have "get_records_num fd s = (Inr (int (card (dom (table fd s)))), u)"
    using u(1) by (simp add: get_records_num_def bindE_apply fh_hdr_eq [OF h] RM_FIRST_RECORD_PAGE_def card_table [OF h])
  then show ?thesis using unchangedD(1,2,3,5) [OF u(2)] by blast
qed

theorem get_records_num_counts_witness:
  "\<exists>r (s :: dbs). table 3 s = [r \<mapsto> replicate 32 7] \<and> fst (get_records_num 3 s) = Inr 1"
proof -
  obtain r and s :: dbs where s: "rm_ok 3 s" "table 3 s = [r \<mapsto> replicate 32 7]"
    using demo_stored [of "replicate 32 7"] by (metis length_replicate)
  have "fst (get_records_num 3 s) = Inr 1" using get_records_num_counts [OF s(1)] s(2) by auto
  with s(2) show ?thesis by blast
qed

end
