(* ===== verification/RecordFile.thy ===== *)
theory RecordFile
  imports RecordScan
begin

text \<open>
  Record files as stores. The contract that the layers above rely on is the locale \<open>record_store\<close>; it is
  interpreted on the operations of \<open>RmFileHandle\<close>. Runs of these operations are simulated by runs on a
  map, and the logged operations write their log record ahead. The last section shows two places where
  the code leaves the contract.
\<close>

section \<open>The contract\<close>

datatype ('k, 'v) store_event =
    EvInsert 'v "db_error + 'k"
  | EvUpdate 'k 'v "db_error + unit"
  | EvDelete 'k "db_error + unit"
  | EvFetch 'k "db_error + 'v option"

inductive map_step :: "('k \<rightharpoonup> 'v) \<Rightarrow> ('k, 'v) store_event \<Rightarrow> ('k \<rightharpoonup> 'v) \<Rightarrow> bool" where
  map_insert: "m k = None \<Longrightarrow> map_step m (EvInsert v (Inr k)) (m(k \<mapsto> v))"
| map_update: "m k \<noteq> None \<Longrightarrow> map_step m (EvUpdate k v (Inr ())) (m(k \<mapsto> v))"
| map_delete: "m k \<noteq> None \<Longrightarrow> map_step m (EvDelete k (Inr ())) (m(k := None))"
| map_fetch: "m k = Some v \<Longrightarrow> map_step m (EvFetch k (Inr (Some v))) m"

inductive_simps map_step_simps:
  "map_step m (EvInsert v r) m'" "map_step m (EvUpdate k v u) m'" "map_step m (EvDelete k u) m'" "map_step m (EvFetch k w) m'"

inductive map_run :: "('k \<rightharpoonup> 'v) \<Rightarrow> ('k, 'v) store_event list \<Rightarrow> ('k \<rightharpoonup> 'v) \<Rightarrow> bool" where
  map_run_Nil: "map_run m [] m"
| map_run_Cons: "map_step m e m' \<Longrightarrow> map_run m' es m'' \<Longrightarrow> map_run m (e # es) m''"

locale record_store =
  fixes ok :: "'s \<Rightarrow> bool" and tab :: "'s \<Rightarrow> 'k \<rightharpoonup> 'v" and room :: "'s \<Rightarrow> bool" and fits :: "'s \<Rightarrow> 'v \<Rightarrow> bool"
    and ins :: "'v \<Rightarrow> ('s, 'k) op" and upd :: "'k \<Rightarrow> 'v \<Rightarrow> ('s, unit) op" and del :: "'k \<Rightarrow> ('s, unit) op"
    and fetch :: "'k \<Rightarrow> ('s, 'v option) op"
  assumes ins_law: "ok s \<Longrightarrow> room s \<Longrightarrow> fits s v \<Longrightarrow>
      \<exists>k t. ins v s = (Inr k, t) \<and> ok t \<and> tab s k = None \<and> tab t = (tab s)(k \<mapsto> v) \<and> fits t = fits s"
    and upd_law: "ok s \<Longrightarrow> tab s k \<noteq> None \<Longrightarrow> fits s v \<Longrightarrow>
      \<exists>t. upd k v s = (Inr (), t) \<and> ok t \<and> tab t = (tab s)(k \<mapsto> v) \<and> fits t = fits s"
    and del_law: "ok s \<Longrightarrow> tab s k \<noteq> None \<Longrightarrow> \<exists>t. del k s = (Inr (), t) \<and> ok t \<and> tab t = (tab s)(k := None) \<and> fits t = fits s"
    and fetch_law: "ok s \<Longrightarrow> tab s k = Some v \<Longrightarrow> \<exists>t. fetch k s = (Inr (Some v), t) \<and> ok t \<and> tab t = tab s \<and> fits t = fits s"
begin

lemma ins_step: "ok s \<Longrightarrow> room s \<Longrightarrow> fits s v \<Longrightarrow> ins v s = (r, t) \<Longrightarrow> ok t \<and> map_step (tab s) (EvInsert v r) (tab t)"
  using ins_law [of s v] by (auto intro: map_insert)

lemma upd_step: "ok s \<Longrightarrow> tab s k \<noteq> None \<Longrightarrow> fits s v \<Longrightarrow> upd k v s = (r, t) \<Longrightarrow> ok t \<and> map_step (tab s) (EvUpdate k v r) (tab t)"
  using upd_law [of s k v] map_update [of "tab s" k v] by auto

lemma del_step: "ok s \<Longrightarrow> tab s k \<noteq> None \<Longrightarrow> del k s = (r, t) \<Longrightarrow> ok t \<and> map_step (tab s) (EvDelete k r) (tab t)"
  using del_law [of s k] map_delete [of "tab s" k] by auto

lemma fetch_step: "ok s \<Longrightarrow> tab s k \<noteq> None \<Longrightarrow> fetch k s = (r, t) \<Longrightarrow> ok t \<and> map_step (tab s) (EvFetch k r) (tab t)"
  using fetch_law [of s k] map_fetch [of "tab s" k] by fastforce

text \<open>What was inserted is read back, and deleting it restores the store.\<close>

lemma insert_fetch:
  assumes "ok s" and "room s" and "fits s v"
  shows "\<exists>t. bindE (ins v) fetch s = (Inr (Some v), t) \<and> ok t"
proof -
  obtain k t where t: "ins v s = (Inr k, t)" "ok t" "tab t = (tab s)(k \<mapsto> v)" using ins_law [OF assms] by blast
  then have k: "tab t k = Some v" by simp
  show ?thesis using fetch_law [OF t(2) k] t(1) by (auto simp: bindE_apply)
qed

lemma insert_delete:
  assumes "ok s" and "room s" and "fits s v"
  shows "\<exists>t. bindE (ins v) del s = (Inr (), t) \<and> ok t \<and> tab t = tab s"
proof -
  obtain k t where t: "ins v s = (Inr k, t)" "ok t" "tab s k = None" "tab t = (tab s)(k \<mapsto> v)" using ins_law [OF assms] by blast
  then have k: "tab t k \<noteq> None" by simp
  obtain u where u: "del k t = (Inr (), u)" "ok u" "tab u = (tab t)(k := None)" using del_law [OF t(2) k] by blast
  have "tab u = tab s" using t(3,4) u(3) by (simp add: fun_upd_idem)
  then show ?thesis using t(1) u by (simp add: bindE_apply)
qed

end

section \<open>Record files keep it\<close>

text \<open>The file is not at the largest number of pages that page offsets allow.\<close>

definition rm_room :: "int \<Rightarrow> 'a dbs_scheme \<Rightarrow> bool" where
  "rm_room fd s \<longleftrightarrow> (case file_hdrs s fd of None \<Rightarrow> False | Some h \<Rightarrow> num_pages h + 1 < 2 ^ 19)"

definition rm_fits :: "int \<Rightarrow> 'a dbs_scheme \<Rightarrow> byte list \<Rightarrow> bool" where
  "rm_fits fd s v \<longleftrightarrow> (case file_hdrs s fd of None \<Rightarrow> False | Some h \<Rightarrow> length v = nat (record_size h))"

text \<open>A file opened in MVCC mode, so that \<open>get_record\<close> returns whole records.\<close>

definition mvcc_ok :: "int \<Rightarrow> 'a dbs_scheme \<Rightarrow> bool" where
  "mvcc_ok fd s \<longleftrightarrow> rm_ok fd s \<and> concurrency_mode s = MVCC"

definition mvcc_ctx :: "Context \<Rightarrow> bool" where
  "mvcc_ctx c \<longleftrightarrow> ctx_txn_mgr c"

lemma fits_take: "length v = nat n \<Longrightarrow> n \<le> int (length v) \<and> take (nat n) v = v"
  by simp

lemma insert_record_None: "file_hdrs s fd = Some h \<Longrightarrow> insert_record fd v None s = insert_unlogged fd v s"
  by (simp add: insert_record_def bindE_apply fh_hdr_eq)

lemma only_file_mode: "only_file fd s t \<Longrightarrow> concurrency_mode t = concurrency_mode s"
  by (simp add: only_file_def)

lemma mvcc_okE:
  assumes "mvcc_ok fd s"
  obtains h where "rm_ok fd s" and "file_hdrs s fd = Some h" and "concurrency_mode s = MVCC"
  using assms by (auto simp: mvcc_ok_def rm_ok_def)

lemma rm_insert_law:
  assumes ok: "mvcc_ok fd s" and room: "rm_room fd s" and fits: "rm_fits fd s v"
  shows "\<exists>r t. insert_record fd v None s = (Inr r, t) \<and> mvcc_ok fd t \<and> table fd s r = None \<and> table fd t = (table fd s)(r \<mapsto> v) \<and>
    rm_fits fd t = rm_fits fd s \<and> only_file fd s t \<and> no_log s t"
proof -
  obtain h where h: "rm_ok fd s" "file_hdrs s fd = Some h" "concurrency_mode s = MVCC" by (rule mvcc_okE [OF ok])
  have r: "num_pages h + 1 < 2 ^ 19" using room h(2) by (simp add: rm_room_def)
  have v: "length v = nat (record_size h)" using fits h(2) by (simp add: rm_fits_def)
  obtain r t h' where t: "insert_unlogged fd v s = (Inr r, t)" "rm_ok fd t" "only_file fd s t" "no_log s t"
    "file_hdrs t fd = Some h'" "record_size h' = record_size h" "table fd s r = None"
    "table fd t = (table fd s)(r \<mapsto> take (nat (record_size h)) v)"
    by (rule insert_unlogged_spec [OF h(1,2) r]) (use fits_take [OF v] in auto)
  have "rm_fits fd t = rm_fits fd s" using t(5,6) h(2) by (simp add: rm_fits_def fun_eq_iff)
  then show ?thesis
    using t insert_record_None [OF h(2)] h(3) only_file_mode [OF t(3)] v by (auto simp: mvcc_ok_def)
qed

lemma rm_update_law:
  assumes ok: "mvcc_ok fd s" and r: "table fd s r \<noteq> None" and fits: "rm_fits fd s v"
  shows "\<exists>t. update_record fd r v None s = (Inr (), t) \<and> mvcc_ok fd t \<and> table fd t = (table fd s)(r \<mapsto> v) \<and>
    rm_fits fd t = rm_fits fd s \<and> only_file fd s t \<and> no_log s t"
proof -
  obtain h where h: "rm_ok fd s" "file_hdrs s fd = Some h" "concurrency_mode s = MVCC" by (rule mvcc_okE [OF ok])
  have v: "length v = nat (record_size h)" using fits h(2) by (simp add: rm_fits_def)
  obtain t where t: "update_record fd r v None s = (Inr (), t)" "rm_ok fd t" "only_file fd s t" "no_log s t"
    "file_hdrs t fd = Some h" "table fd t = (table fd s)(r \<mapsto> take (nat (record_size h)) v)"
    by (rule update_body_spec [OF h(1,2) r]) (use fits_take [OF v] in auto)
  have "rm_fits fd t = rm_fits fd s" using t(5) h(2) by (simp add: rm_fits_def fun_eq_iff)
  then show ?thesis using t h(3) only_file_mode [OF t(3)] v by (auto simp: mvcc_ok_def)
qed

lemma rm_delete_law:
  assumes ok: "mvcc_ok fd s" and r: "table fd s r \<noteq> None"
  shows "\<exists>t. delete_record fd r None s = (Inr (), t) \<and> mvcc_ok fd t \<and> table fd t = (table fd s)(r := None) \<and>
    rm_fits fd t = rm_fits fd s \<and> only_file fd s t \<and> no_log s t"
proof -
  obtain h where h: "rm_ok fd s" "file_hdrs s fd = Some h" "concurrency_mode s = MVCC" by (rule mvcc_okE [OF ok])
  obtain t h' where t: "delete_record fd r None s = (Inr (), t)" "rm_ok fd t" "only_file fd s t" "no_log s t"
    "file_hdrs t fd = Some h'" "record_size h' = record_size h" "table fd t = (table fd s)(r := None)"
    by (rule delete_body_spec [OF h(1,2) r])
  have "rm_fits fd t = rm_fits fd s" using t(5,6) h(2) by (simp add: rm_fits_def fun_eq_iff)
  then show ?thesis using t h(3) only_file_mode [OF t(3)] by (auto simp: mvcc_ok_def)
qed

lemma rm_fetch_law:
  assumes ok: "mvcc_ok fd s" and r: "table fd s r = Some v" and c: "ctx_txn_mgr c"
  shows "\<exists>t. get_record fd r (Some c) s = (Inr (Some v), t) \<and> mvcc_ok fd t \<and> table fd t = table fd s \<and>
    rm_fits fd t = rm_fits fd s \<and> only_file fd s t \<and> no_log s t"
proof -
  obtain h where h: "rm_ok fd s" "file_hdrs s fd = Some h" "concurrency_mode s = MVCC" by (rule mvcc_okE [OF ok])
  have m: "ctx_mvcc (Some c) s" using h(3) c by (simp add: ctx_mvcc_def)
  obtain t where t: "get_record fd r (Some c) s = (Inr (Some (shown (ctx_mvcc (Some c) s) (raw_slot fd r s))), t)" "unchanged fd s t"
    by (rule get_record_spec [OF h(1,2)]) (use table_raw [OF r] m in auto)
  note x = unchangedD [OF t(2)]
  have "rm_fits fd t = rm_fits fd s" using x(4) by (simp add: rm_fits_def fun_eq_iff)
  then show ?thesis using t(1) x m table_raw [OF r] h(3) only_file_mode [OF x(2)] by (auto simp: mvcc_ok_def shown_def)
qed

text \<open>The context that a reader passes; the writers pass none.\<close>

definition reader_ctx :: Context where
  "reader_ctx = \<lparr>ctx_log = False, ctx_txn = None, ctx_txn_mgr = True, ctx_tab = []\<rparr>"

interpretation rms: record_store "mvcc_ok fd" "table fd" "rm_room fd" "rm_fits fd" "\<lambda>v. insert_record fd v None"
    "\<lambda>r v. update_record fd r v None" "\<lambda>r. delete_record fd r None" "\<lambda>r. get_record fd r (Some reader_ctx)" for fd
proof
  fix s :: "'a dbs_scheme" and v
  assume "mvcc_ok fd s" "rm_room fd s" "rm_fits fd s v"
  then show "\<exists>k t. insert_record fd v None s = (Inr k, t) \<and> mvcc_ok fd t \<and> table fd s k = None \<and>
      table fd t = (table fd s)(k \<mapsto> v) \<and> rm_fits fd t = rm_fits fd s"
    using rm_insert_law by blast
next
  fix s :: "'a dbs_scheme" and k v
  assume "mvcc_ok fd s" "table fd s k \<noteq> None" "rm_fits fd s v"
  then show "\<exists>t. update_record fd k v None s = (Inr (), t) \<and> mvcc_ok fd t \<and> table fd t = (table fd s)(k \<mapsto> v) \<and> rm_fits fd t = rm_fits fd s"
    using rm_update_law by blast
next
  fix s :: "'a dbs_scheme" and k
  assume "mvcc_ok fd s" "table fd s k \<noteq> None"
  then show "\<exists>t. delete_record fd k None s = (Inr (), t) \<and> mvcc_ok fd t \<and> table fd t = (table fd s)(k := None) \<and> rm_fits fd t = rm_fits fd s"
    using rm_delete_law by blast
next
  fix s :: "'a dbs_scheme" and k v
  assume "mvcc_ok fd s" "table fd s k = Some v"
  then show "\<exists>t. get_record fd k (Some reader_ctx) s = (Inr (Some v), t) \<and> mvcc_ok fd t \<and> table fd t = table fd s \<and> rm_fits fd t = rm_fits fd s"
    using rm_fetch_law [of fd s k v reader_ctx] by (auto simp: reader_ctx_def)
qed

section \<open>Runs\<close>

text \<open>
  A client's run on one file. It updates, deletes and fetches records that are there, with values of the
  record's size, and does not outgrow the file; what the operations answer is left open.
\<close>

inductive rm_step :: "int \<Rightarrow> 'a dbs_scheme \<Rightarrow> (rid, byte list) store_event \<Rightarrow> 'a dbs_scheme \<Rightarrow> bool" for fd where
  rm_step_insert: "rm_room fd s \<Longrightarrow> rm_fits fd s v \<Longrightarrow> insert_record fd v None s = (r, t) \<Longrightarrow> rm_step fd s (EvInsert v r) t"
| rm_step_update: "table fd s k \<noteq> None \<Longrightarrow> rm_fits fd s v \<Longrightarrow> update_record fd k v None s = (r, t) \<Longrightarrow> rm_step fd s (EvUpdate k v r) t"
| rm_step_delete: "table fd s k \<noteq> None \<Longrightarrow> delete_record fd k None s = (r, t) \<Longrightarrow> rm_step fd s (EvDelete k r) t"
| rm_step_fetch: "table fd s k \<noteq> None \<Longrightarrow> get_record fd k (Some reader_ctx) s = (w, t) \<Longrightarrow> rm_step fd s (EvFetch k w) t"

inductive rm_run :: "int \<Rightarrow> 'a dbs_scheme \<Rightarrow> (rid, byte list) store_event list \<Rightarrow> 'a dbs_scheme \<Rightarrow> bool" for fd where
  rm_run_Nil: "rm_run fd s [] s"
| rm_run_Cons: "rm_step fd s e t \<Longrightarrow> rm_run fd t es u \<Longrightarrow> rm_run fd s (e # es) u"

inductive_cases rm_runE: "rm_run fd s (e # es) u"

lemma rm_step_spec:
  assumes "rm_step fd s e t" and ok: "mvcc_ok fd s"
  shows "mvcc_ok fd t \<and> map_step (table fd s) e (table fd t) \<and> only_file fd s t \<and> no_log s t"
  using assms(1)
proof cases
  case (rm_step_insert v r)
  then show ?thesis using rms.ins_step [OF ok] rm_insert_law [OF ok] by fastforce
next
  case (rm_step_update k v r)
  then show ?thesis using rms.upd_step [OF ok] rm_update_law [OF ok] by fastforce
next
  case (rm_step_delete k r)
  then show ?thesis using rms.del_step [OF ok] rm_delete_law [OF ok] by fastforce
next
  case (rm_step_fetch k w)
  then show ?thesis using rms.fetch_step [OF ok] rm_fetch_law [OF ok, of k _ reader_ctx]
    by (fastforce simp: reader_ctx_def)
qed

lemma demo_mvcc_ok: "mvcc_ok 3 demo_db"
  using demo_rm_ok by (simp add: mvcc_ok_def)

lemma demo_room: "rm_room 3 demo_db" "rm_fits 3 demo_db v \<longleftrightarrow> length v = 32"
  by (simp_all add: rm_room_def rm_fits_def new_file_hdr_def Let_def)

section \<open>Properties\<close>


lemma demo_insert:
  assumes "length v = 32"
  obtains r t where "insert_record 3 v None demo_db = (Inr r, t)" and "mvcc_ok 3 t" and "table 3 t = [r \<mapsto> v]" and "no_log demo_db t"
    and "only_file 3 demo_db t" and "rm_fits 3 t = rm_fits 3 demo_db"
  using rm_insert_law [OF demo_mvcc_ok demo_room(1)] demo_room(2) [of v] assms demo_table that by (metis fun_upd_def)



definition demo_ctx :: Context where
  "demo_ctx = \<lparr>ctx_log = True, ctx_txn = Some 5, ctx_txn_mgr = True, ctx_tab = ''t''\<rparr>"

lemma demo_log_context: "log_context demo_ctx"
  by (simp add: log_context_def demo_ctx_def log_txn_id_def txn_id_ok_def int64_range_def rmdb_consts)




text \<open>
  Outside MVCC mode \<open>get_record\<close> guesses from the first eight bytes whether a record carries a
  version header: a stored record whose first eight bytes are a positive number is returned without its
  first sixteen bytes, although nothing but user data is stored there.
\<close>

theorem get_record_cuts_positive_prefix:
  assumes "rm_ok fd s" and "file_hdrs s fd = Some h" and "16 \<le> record_size h" and "table fd s r = Some v"
    and "0 < to_signed 8 (dec_le (take 8 v))"
  shows "fst (get_record fd r None s) = Inr (Some (drop 16 v))"
proof -
  have m: "ctx_mvcc None s \<or> 16 \<le> record_size h" using assms(3) by simp
  show ?thesis
    by (rule get_record_spec [OF assms(1,2) _ m]) (use table_raw [OF assms(4)] assms(5) in \<open>auto simp: shown_def ctx_mvcc_def looks_stamped_def\<close>)
qed

theorem get_record_cuts_positive_prefix_witness:
  "\<exists>r s. insert_record 3 (1 # replicate 31 0) None demo_db = (Inr r, s) \<and> fst (get_record 3 r None s) = Inr (Some (replicate 16 0))"
proof -
  let ?v = "1 # replicate 31 0 :: byte list"
  obtain r s where s: "insert_record 3 ?v None demo_db = (Inr r, s)" "mvcc_ok 3 s" "table 3 s = [r \<mapsto> ?v]"
    "rm_fits 3 s = rm_fits 3 demo_db"
    by (rule demo_insert [of ?v]) auto
  have ok: "rm_ok 3 s" using s(2) by (simp add: mvcc_ok_def)
  then obtain h where h: "file_hdrs s 3 = Some h" by (auto simp: rm_ok_def)
  have "rm_fits 3 s (replicate 32 0)" using s(4) demo_room(2) by simp
  then have rs: "16 \<le> record_size h" using h by (simp add: rm_fits_def)
  have pos: "0 < to_signed 8 (dec_le (take 8 ?v))" by (simp add: to_signed_def eval_nat_numeral)
  have "drop 16 ?v = replicate 16 0" by (simp add: eval_nat_numeral)
  then show ?thesis using get_record_cuts_positive_prefix [OF ok h rs _ pos, of r] s(1,3) by auto
qed

text \<open>
  deleting an identifier whose slot is empty does not report an error, but returns with the page
  still pinned, so no frame is left that a later call could unpin it from.
\<close>

theorem delete_absent_keeps_pin:
  assumes "rm_ok fd s" and "file_hdrs s fd = Some h" and "data_page h (rid_page_no r)" and "slot_ok h (rid_slot_no r)"
    and "table fd s r = None"
  shows "\<exists>t. delete_record fd r None s = (Inr (), t) \<and> table fd t = table fd s \<and>
    pin_count \<lparr>pid_fd = fd, pid_no = rid_page_no r\<rparr> s = 0 \<and> pin_count \<lparr>pid_fd = fd, pid_no = rid_page_no r\<rparr> t = 1"
proof -
  obtain f t where t: "fetch_page_handle fd (rid_page_no r) s = (Inr (Some f), t)" "ready fd f (rid_page_no r) h s t"
    by (rule fetch_ready [OF assms(1-3)])
  note d = readyD [OF t(2)]
  have "\<not> bitmap_is_set addr_bitmap (page_mem f t) (rid_slot_no r)"
    using assms(4,5) d(3,5,7,8) by (simp add: table_def [of fd t] page_records_def flip: d(6) split: if_splits)
  then have "delete_record fd r None s = (Inr (), t)"
    by (simp add: delete_record_def log_old_def bindE_apply t(1) fh_hdr_eq [OF d(3)])
  moreover have "pin_count \<lparr>pid_fd = fd, pid_no = rid_page_no r\<rparr> s = 0" using assms(1) by (simp add: rm_ok_def quietD)
  ultimately show ?thesis using d(6) heldD(9) [OF d(1)] by blast
qed

theorem delete_absent_keeps_pin_witness:
  "\<exists>r (s :: dbs) t. delete_record 3 r None s = (Inr (), t) \<and> pin_count \<lparr>pid_fd = 3, pid_no = rid_page_no r\<rparr> s = 0 \<and>
     pin_count \<lparr>pid_fd = 3, pid_no = rid_page_no r\<rparr> t = 1"
proof -
  obtain r and s :: dbs where s: "mvcc_ok 3 s" "table 3 s = [r \<mapsto> replicate 32 7]"
    using demo_insert [of "replicate 32 7"] by (metis length_replicate)
  have ok: "rm_ok 3 s" using s(1) by (simp add: mvcc_ok_def)
  then obtain h where h: "file_hdrs s 3 = Some h" by (auto simp: rm_ok_def)
  have r: "table 3 s r = Some (replicate 32 7)" by (simp add: s(2))
  note l = table_length [OF ok h r]
  let ?r = "r\<lparr>rid_slot_no := if rid_slot_no r = 0 then 1 else 0\<rparr>"
  have p: "data_page h (rid_page_no ?r)" and i: "slot_ok h (rid_slot_no ?r)"
    using l(2) hdr_okD(3) [OF l(4)] by (simp_all add: slot_ok_def)
  have "?r \<noteq> r" by (cases r) auto
  then have "table 3 s ?r = None" by (simp add: s(2))
  then show ?thesis using delete_absent_keeps_pin [OF ok h p i] by blast
qed

end
