(* ===== verification/TxnState.thy ===== *)
theory TxnState
  imports RmFile Watermark
begin

text \<open>
  The state of the transactions and of the transaction manager, \<^verbatim>\<open>transaction/txn_defs.h\<close>,
  \<^verbatim>\<open>transaction/transaction.h\<close> and the lookup half of \<^verbatim>\<open>transaction/transaction_manager.{h,cpp}\<close>:
  version chains, the tests whether a timestamp belongs to committed data, and garbage collection;
  the lock manager's requests, which all succeed, and the conflict test of
  \<^verbatim>\<open>execution/execution_common.cpp\<close>.

  A \<open>Transaction*\<close> is the transaction's number: every object is made with a fresh one. \<open>txn_heap\<close>
  holds the objects that exist, \<open>txn_map\<close> the keys of the global table; following a pointer in the
  table to an object that was deleted is the error \<open>DanglingPointer\<close>. The order in which an
  \<open>unordered_map\<close> or \<open>unordered_set\<close> with given keys is iterated belongs to the C++ library: it is the
  parameter \<open>iter_order\<close> of the state. Timestamps and transaction numbers are 64-bit counters that
  are only incremented, so they are plain integers here.
\<close>

section \<open>Data\<close>

datatype TransactionState = DEFAULT | GROWING | SHRINKING | COMMITTED | ABORTED

datatype IsolationLevel = READ_UNCOMMITTED | REPEATABLE_READ | READ_COMMITTED | SERIALIZABLE

datatype WType = INSERT_TUPLE | DELETE_TUPLE | UPDATE_TUPLE

datatype DdlType = CREATE_INDEX | DROP_INDEX

text \<open>A value of a column: \<open>struct Value\<close> of \<^verbatim>\<open>common/common.h\<close>, a float by its 32 bits.\<close>

datatype db_value = TYPE_INT int | TYPE_FLOAT "32 word" | TYPE_STRING string

record undo_link =
  prev_txn :: int
  prev_log_idx :: int

definition no_undo_link :: undo_link where
  "no_undo_link = \<lparr>prev_txn = INVALID_TXN_ID, prev_log_idx = 0\<rparr>"

definition undo_link_valid :: "undo_link \<Rightarrow> bool" where
  "undo_link_valid l \<longleftrightarrow> prev_txn l \<noteq> INVALID_TXN_ID"

record undo_log =
  undo_deleted :: bool
  modified_fields :: "bool list"
  undo_tuple :: "db_value list"
  undo_ts :: int
  prev_version :: undo_link

record version_undo_link =
  first_undo :: undo_link
  in_progress :: bool

record write_record =
  write_type :: WType
  write_table :: string
  write_rid :: rid
  write_value :: "byte list"

record ddl_record =
  ddl_type :: DdlType
  ddl_table :: string
  ddl_cols :: "string list"
  ddl_unique :: bool

datatype LockDataType = TABLE | RECORD

record lock_data_id =
  lock_fd :: int
  lock_rid :: rid
  lock_type :: LockDataType

record transaction =
  txn_mode :: bool
  txn_state :: TransactionState
  isolation_level :: IsolationLevel
  thread_id :: int
  prev_lsn_of :: int
  txn_id :: int
  start_ts :: int
  write_set :: "write_record list"
  ddl_set :: "ddl_record list"
  lock_set :: "lock_data_id set"
  index_latch_page_set :: "nat list"
  index_deleted_page_set :: "nat list"
  mvcc_deleted_rids :: "rid list"
  read_ts :: int
  commit_ts :: int
  undo_logs :: "undo_log list"

text \<open>The constructor leaves \<open>txn_mode_\<close> and \<open>start_ts_\<close> uninitialised.\<close>

definition new_Transaction :: "bool \<Rightarrow> int \<Rightarrow> int \<Rightarrow> int \<Rightarrow> transaction" where
  "new_Transaction junk_mode junk_ts thread new_id =
     \<lparr>txn_mode = junk_mode, txn_state = DEFAULT, isolation_level = SERIALIZABLE, thread_id = thread,
      prev_lsn_of = INVALID_LSN, txn_id = new_id, start_ts = junk_ts, write_set = [], ddl_set = [],
      lock_set = {}, index_latch_page_set = [], index_deleted_page_set = [], mvcc_deleted_rids = [],
      read_ts = 0, commit_ts = INVALID_TS, undo_logs = []\<rparr>"

record txnm = dbs +
  txn_heap :: "int \<rightharpoonup> transaction"
  txn_map :: "int set"
  iter_order :: "int set \<Rightarrow> int list"
  version_info :: "int \<rightharpoonup> (int \<rightharpoonup> version_undo_link)"
  next_txn_id :: int
  next_timestamp :: int
  last_commit_ts :: int
  running_txns :: watermark
  aborted_txns :: "int set"
  committed_txns :: "int set"
  this_thread :: int

text \<open>The constructor: \<open>start_timestamp\<close> is \<open>sm_manager_->get_start_timestamp()\<close>.\<close>

definition txnm_init :: "(int set \<Rightarrow> int list) \<Rightarrow> ConcurrencyMode \<Rightarrow> int \<Rightarrow> int \<Rightarrow> dbs \<Rightarrow> txnm" where
  "txnm_init order mode start_timestamp thread d =
     dbs.extend (d\<lparr>concurrency_mode := mode\<rparr>)
       (txnm.fields Map.empty {} order Map.empty 0 start_timestamp 0 (watermark_init 0) {} {} thread)"

section \<open>Transactions\<close>

definition txn_at :: "int \<Rightarrow> ('a txnm_scheme, transaction) op" where
  "txn_at i = bindE getS (\<lambda>s. case txn_heap s i of None \<Rightarrow> raise DanglingPointer | Some t \<Rightarrow> ret t)"

definition put_txn :: "int \<Rightarrow> transaction \<Rightarrow> ('a txnm_scheme, unit) op" where
  "put_txn i t = updS (\<lambda>s. s\<lparr>txn_heap := (txn_heap s)(i \<mapsto> t)\<rparr>)"

definition upd_txn :: "int \<Rightarrow> (transaction \<Rightarrow> transaction) \<Rightarrow> ('a txnm_scheme, unit) op" where
  "upd_txn i f = bindE (txn_at i) (\<lambda>t. put_txn i (f t))"

definition append_write_record :: "int \<Rightarrow> write_record \<Rightarrow> ('a txnm_scheme, unit) op" where
  "append_write_record i w = upd_txn i (\<lambda>t. t\<lparr>write_set := write_set t @ [w]\<rparr>)"

definition add_ddl_record :: "int \<Rightarrow> ddl_record \<Rightarrow> ('a txnm_scheme, unit) op" where
  "add_ddl_record i d = upd_txn i (\<lambda>t. t\<lparr>ddl_set := ddl_set t @ [d]\<rparr>)"

definition append_mvcc_deleted_rid :: "int \<Rightarrow> rid \<Rightarrow> ('a txnm_scheme, unit) op" where
  "append_mvcc_deleted_rid i r = upd_txn i (\<lambda>t. t\<lparr>mvcc_deleted_rids := mvcc_deleted_rids t @ [r]\<rparr>)"

text \<open>An index out of range is undefined behaviour in the source, here an error.\<close>

definition ModifyUndoLog :: "int \<Rightarrow> nat \<Rightarrow> undo_log \<Rightarrow> ('a txnm_scheme, unit) op" where
  "ModifyUndoLog i log_idx l = bindE (txn_at i) (\<lambda>t.
     if log_idx < length (undo_logs t) then put_txn i (t\<lparr>undo_logs := (undo_logs t)[log_idx := l]\<rparr>)
     else raise (OutOfRange ''undo_logs_''))"

definition AppendUndoLog :: "int \<Rightarrow> undo_log \<Rightarrow> ('a txnm_scheme, undo_link) op" where
  "AppendUndoLog i l = bindE (txn_at i) (\<lambda>t.
     bindE (put_txn i (t\<lparr>undo_logs := undo_logs t @ [l]\<rparr>)) (\<lambda>_.
     ret \<lparr>prev_txn = txn_id t, prev_log_idx = int (length (undo_logs t))\<rparr>))"

definition GetUndoLogNum :: "transaction \<Rightarrow> nat" where
  "GetUndoLogNum t = length (undo_logs t)"

text \<open>\<open>Transaction::GetUndoLog\<close>.\<close>

definition txn_GetUndoLog :: "transaction \<Rightarrow> int \<Rightarrow> ('a txnm_scheme, undo_log) op" where
  "txn_GetUndoLog t log_id =
     (if 0 \<le> log_id \<and> log_id < int (length (undo_logs t)) then ret (undo_logs t ! nat log_id)
      else raise (OutOfRange ''undo_logs_''))"

section \<open>The transaction table\<close>

definition get_transaction :: "int \<Rightarrow> ('a txnm_scheme, int option) op" where
  "get_transaction i = bindE getS (\<lambda>s.
     if i = INVALID_TXN_ID then ret None
     else if i \<notin> txn_map s then ret None
     else if concurrency_mode s \<noteq> MVCC
     then bindE (txn_at i) (\<lambda>t. bindE (assertE (thread_id t = this_thread s)) (\<lambda>_. ret (Some i)))
     else ret (Some i))"

definition is_active :: "TransactionState \<Rightarrow> bool" where
  "is_active st \<longleftrightarrow> st = DEFAULT \<or> st = GROWING \<or> st = SHRINKING"

primrec collect_active :: "int list \<Rightarrow> ('a txnm_scheme, int list) op" where
  "collect_active [] = ret []"
| "collect_active (i # is) = bindE (txn_at i) (\<lambda>t. bindE (collect_active is) (\<lambda>rs.
     ret (if is_active (txn_state t) then i # rs else rs)))"

definition GetActiveTransactions :: "('a txnm_scheme, int list) op" where
  "GetActiveTransactions = bindE getS (\<lambda>s. collect_active (iter_order s (txn_map s)))"

primrec find_timestamp :: "int \<Rightarrow> int list \<Rightarrow> ('a txnm_scheme, int option) op" where
  "find_timestamp ts [] = ret None"
| "find_timestamp ts (i # is) =
     bindE (txn_at i) (\<lambda>t. if start_ts t = ts then ret (Some i) else find_timestamp ts is)"

definition get_transaction_by_timestamp :: "int \<Rightarrow> ('a txnm_scheme, int option) op" where
  "get_transaction_by_timestamp ts = bindE getS (\<lambda>s. find_timestamp ts (iter_order s (txn_map s)))"

definition is_transaction_aborted :: "int \<Rightarrow> 'a txnm_scheme \<Rightarrow> bool" where
  "is_transaction_aborted ts s \<longleftrightarrow> ts \<in> aborted_txns s"

definition txnm_GetWatermark :: "'a txnm_scheme \<Rightarrow> int" where
  "txnm_GetWatermark s = GetWatermark (running_txns s)"

definition IsCommitted :: "int \<Rightarrow> ('a txnm_scheme, bool) op" where
  "IsCommitted ts = bindE getS (\<lambda>s.
     if ts = 0 then ret True
     else if ts \<in> aborted_txns s then ret False
     else bindE (get_transaction_by_timestamp ts) (\<lambda>txn.
       case txn of
         Some i \<Rightarrow> bindE (txn_at i) (\<lambda>t. ret (txn_state t = COMMITTED))
       | None \<Rightarrow>
           if ts < txnm_GetWatermark s then ret (ts \<notin> aborted_txns s) else ret False))"

definition IsCommittedBeforeReadTs :: "int \<Rightarrow> int \<Rightarrow> ('a txnm_scheme, bool) op" where
  "IsCommittedBeforeReadTs ts reader_ts = bindE getS (\<lambda>s.
     if ts = 0 then ret True
     else if ts \<ge> reader_ts then ret False
     else if ts \<in> aborted_txns s then ret False
     else if ts \<in> committed_txns s then ret True
     else bindE (get_transaction_by_timestamp ts) (\<lambda>txn.
       case txn of
         Some i \<Rightarrow> bindE (txn_at i) (\<lambda>t. ret (txn_state t = COMMITTED))
       | None \<Rightarrow>
           if ts \<le> txnm_GetWatermark s then ret (ts \<notin> aborted_txns s) else ret False))"

section \<open>Version chains\<close>

definition put_link :: "int \<Rightarrow> (int \<rightharpoonup> version_undo_link) \<Rightarrow> ('a txnm_scheme, unit) op" where
  "put_link p vs = updS (\<lambda>s. s\<lparr>version_info := (version_info s)(p \<mapsto> vs)\<rparr>)"

definition UpdateUndoLink ::
  "rid \<Rightarrow> undo_link option \<Rightarrow> (undo_link option \<Rightarrow> bool) option \<Rightarrow> ('a txnm_scheme, bool) op" where
  "UpdateUndoLink r prev_link check = bindE getS (\<lambda>s.
     case version_info s (rid_page_no r) of
       None \<Rightarrow> ret False
     | Some vs \<Rightarrow>
         (case vs (rid_slot_no r) of
            None \<Rightarrow> ret False
          | Some vl \<Rightarrow>
              if (case check of None \<Rightarrow> False
                  | Some f \<Rightarrow> \<not> f (if undo_link_valid (first_undo vl) then Some (first_undo vl) else None))
              then ret False
              else bindE (case prev_link of
                            Some l \<Rightarrow> put_link (rid_page_no r) (vs(rid_slot_no r \<mapsto> vl\<lparr>first_undo := l\<rparr>))
                          | None \<Rightarrow> put_link (rid_page_no r) (vs(rid_slot_no r := None)))
                     (\<lambda>_. ret True)))"

definition UpdateVersionLink ::
  "rid \<Rightarrow> version_undo_link option \<Rightarrow> (version_undo_link option \<Rightarrow> bool) option \<Rightarrow> ('a txnm_scheme, bool) op" where
  "UpdateVersionLink r prev check = bindE getS (\<lambda>s.
     if version_info s (rid_page_no r) = None \<and> prev = None then ret True
     else let vs = (case version_info s (rid_page_no r) of None \<Rightarrow> Map.empty | Some vs \<Rightarrow> vs)
          in bindE (put_link (rid_page_no r) vs) (\<lambda>_.
             if vs (rid_slot_no r) = None \<and> prev = None then ret True
             else if (case check of None \<Rightarrow> False | Some f \<Rightarrow> \<not> f (vs (rid_slot_no r))) then ret False
             else bindE (put_link (rid_page_no r) (vs(rid_slot_no r := prev))) (\<lambda>_. ret True)))"

definition GetUndoLink :: "rid \<Rightarrow> 'a txnm_scheme \<Rightarrow> undo_link option" where
  "GetUndoLink r s =
     (case version_info s (rid_page_no r) of
        None \<Rightarrow> None
      | Some vs \<Rightarrow>
          (case vs (rid_slot_no r) of
             None \<Rightarrow> None
           | Some vl \<Rightarrow> if \<not> undo_link_valid (first_undo vl) then None else Some (first_undo vl)))"

definition GetVersionLink :: "rid \<Rightarrow> 'a txnm_scheme \<Rightarrow> version_undo_link option" where
  "GetVersionLink r s =
     (if rid_page_no r < 0 \<or> rid_slot_no r < 0 then None
      else case version_info s (rid_page_no r) of
             None \<Rightarrow> None
           | Some vs \<Rightarrow> vs (rid_slot_no r))"

definition GetUndoLogOptional :: "undo_link \<Rightarrow> ('a txnm_scheme, undo_log option) op" where
  "GetUndoLogOptional link = bindE (get_transaction (prev_txn link)) (\<lambda>txn.
     case txn of
       None \<Rightarrow> ret None
     | Some i \<Rightarrow> bindE (txn_at i) (\<lambda>t.
         if prev_log_idx link \<ge> int (GetUndoLogNum t) then ret None
         else bindE (txn_GetUndoLog t (prev_log_idx link)) (\<lambda>l. ret (Some l))))"

definition txnm_GetUndoLog :: "undo_link \<Rightarrow> ('a txnm_scheme, undo_log) op" where
  "txnm_GetUndoLog link = bindE (GetUndoLogOptional link) (\<lambda>l.
     case l of None \<Rightarrow> raise (RuntimeError ''Cannot find undo log'') | Some l \<Rightarrow> ret l)"

section \<open>Garbage collection\<close>

definition collect_txn :: "int \<Rightarrow> int \<Rightarrow> ('a txnm_scheme, unit) op" where
  "collect_txn wm i = bindE (txn_at i) (\<lambda>t.
     if (txn_state t = COMMITTED \<or> txn_state t = ABORTED) \<and> start_ts t \<le> wm
     then updS (\<lambda>s. s\<lparr>txn_heap := (txn_heap s)(i := None), txn_map := txn_map s - {i}\<rparr>)
     else ret ())"

definition drop_link :: "int \<Rightarrow> int \<Rightarrow> ('a txnm_scheme, unit) op" where
  "drop_link p slot = bindE getS (\<lambda>s.
     case version_info s p of None \<Rightarrow> ret () | Some vs \<Rightarrow> put_link p (vs(slot := None)))"

definition collect_slot :: "int \<Rightarrow> int \<Rightarrow> int \<Rightarrow> ('a txnm_scheme, unit) op" where
  "collect_slot wm p slot = bindE getS (\<lambda>s.
     case version_info s p of
       None \<Rightarrow> ret ()
     | Some vs \<Rightarrow>
         (case vs slot of
            None \<Rightarrow> ret ()
          | Some vl \<Rightarrow>
              if \<not> undo_link_valid (first_undo vl) then drop_link p slot
              else bindE (GetUndoLogOptional (first_undo vl)) (\<lambda>l.
                case l of
                  None \<Rightarrow> drop_link p slot
                | Some u \<Rightarrow> if undo_ts u \<le> wm then drop_link p slot else ret ())))"

definition collect_page :: "int \<Rightarrow> int \<Rightarrow> ('a txnm_scheme, unit) op" where
  "collect_page wm p = bindE getS (\<lambda>s.
     bindE (forE (iter_order s (case version_info s p of None \<Rightarrow> {} | Some vs \<Rightarrow> dom vs)) (collect_slot wm p)) (\<lambda>_.
     updS (\<lambda>s. if version_info s p = Some Map.empty
                then s\<lparr>version_info := (version_info s)(p := None)\<rparr> else s)))"

definition GarbageCollection :: "('a txnm_scheme, unit) op" where
  "GarbageCollection = bindE getS (\<lambda>s0.
     let wm = txnm_GetWatermark s0
     in bindE (forE (iter_order s0 (txn_map s0)) (collect_txn wm)) (\<lambda>_.
        bindE (updS (\<lambda>s. s\<lparr>aborted_txns := {ts \<in> aborted_txns s. \<not> ts \<le> wm}\<rparr>)) (\<lambda>_.
        bindE (updS (\<lambda>s. s\<lparr>committed_txns := {ts \<in> committed_txns s. \<not> ts \<le> wm}\<rparr>)) (\<lambda>_.
        bindE getS (\<lambda>s. forE (iter_order s (dom (version_info s))) (collect_page wm))))))"

section \<open>Beginning a transaction\<close>

text \<open>
  \<open>junk_mode\<close> and \<open>junk_ts\<close> are the initial contents of the members that the constructor of
  \<open>Transaction\<close> leaves unset.
\<close>

definition alloc_txn :: "bool \<Rightarrow> int \<Rightarrow> bool \<Rightarrow> ('a txnm_scheme, int) op" where
  "alloc_txn junk_mode junk_ts mode = bindE getS (\<lambda>s.
     let new_id = next_txn_id s
     in bindE (updS (\<lambda>s. s\<lparr>next_txn_id := new_id + 1\<rparr>)) (\<lambda>_.
        bindE (put_txn new_id ((new_Transaction junk_mode junk_ts (this_thread s) new_id)\<lparr>txn_mode := mode\<rparr>)) (\<lambda>_.
        ret new_id)))"

definition next_ts :: "('a txnm_scheme, int) op" where
  "next_ts = bindE getS (\<lambda>s. bindE (updS (\<lambda>s. s\<lparr>next_timestamp := next_timestamp s + 1\<rparr>)) (\<lambda>_. ret (next_timestamp s)))"

definition register_txn :: "int \<Rightarrow> ('a txnm_scheme, unit) op" where
  "register_txn i = bindE (txn_at i) (\<lambda>t. updS (\<lambda>s. s\<lparr>txn_map := insert (txn_id t) (txn_map s)\<rparr>))"

definition txnm_begin :: "bool \<Rightarrow> int \<Rightarrow> int option \<Rightarrow> ('a txnm_scheme, int) op" where
  "txnm_begin junk_mode junk_ts txn =
     bindE (case txn of None \<Rightarrow> alloc_txn junk_mode junk_ts True | Some i \<Rightarrow> ret i) (\<lambda>i.
     bindE (upd_txn i (\<lambda>t. if txn_state t \<noteq> DEFAULT then t\<lparr>txn_state := DEFAULT\<rparr> else t)) (\<lambda>_.
     bindE getS (\<lambda>s.
     bindE (if concurrency_mode s = MVCC
            then bindE next_ts (\<lambda>ts.
                 bindE (upd_txn i (\<lambda>t. t\<lparr>start_ts := ts\<rparr>)) (\<lambda>_.
                 updS (\<lambda>s. s\<lparr>running_txns := AddTxn ts (running_txns s)\<rparr>)))
            else ret ()) (\<lambda>_.
     bindE (register_txn i) (\<lambda>_. ret i)))))"

definition begin_read_only_snapshot :: "bool \<Rightarrow> int \<Rightarrow> ('a txnm_scheme, int) op" where
  "begin_read_only_snapshot junk_mode junk_ts =
     bindE (alloc_txn junk_mode junk_ts False) (\<lambda>i.
     bindE (upd_txn i (\<lambda>t. t\<lparr>txn_state := DEFAULT\<rparr>)) (\<lambda>_.
     bindE getS (\<lambda>s.
     bindE (if concurrency_mode s = MVCC
            then bindE (if last_commit_ts s > 0 then ret (last_commit_ts s) else next_ts) (\<lambda>ts.
                 upd_txn i (\<lambda>t. t\<lparr>start_ts := ts\<rparr>))
            else ret ()) (\<lambda>_.
     bindE (register_txn i) (\<lambda>_. ret i)))))"

section \<open>Locks\<close>

text \<open>
  The requests of \<^verbatim>\<open>transaction/concurrency/lock_manager.cpp\<close>: in either mode they grant the lock and
  record nothing. \<open>IsMVCCMode\<close> asks the transaction manager, whose constructor sets the callback.
\<close>

definition IsMVCCMode :: "'a txnm_scheme \<Rightarrow> bool" where
  "IsMVCCMode s \<longleftrightarrow> concurrency_mode s = MVCC"

definition lock_shared_on_record :: "int \<Rightarrow> rid \<Rightarrow> int \<Rightarrow> ('a txnm_scheme, bool) op" where
  "lock_shared_on_record txn r tab_fd = bindE getS (\<lambda>s. if IsMVCCMode s then ret True else ret True)"

definition lock_exclusive_on_record :: "int \<Rightarrow> rid \<Rightarrow> int \<Rightarrow> ('a txnm_scheme, bool) op" where
  "lock_exclusive_on_record txn r tab_fd = bindE getS (\<lambda>s. if IsMVCCMode s then ret True else ret True)"

definition lock_shared_on_table :: "int \<Rightarrow> int \<Rightarrow> ('a txnm_scheme, bool) op" where
  "lock_shared_on_table txn tab_fd = bindE getS (\<lambda>s. if IsMVCCMode s then ret True else ret True)"

definition lock_exclusive_on_table :: "int \<Rightarrow> int \<Rightarrow> ('a txnm_scheme, bool) op" where
  "lock_exclusive_on_table txn tab_fd = bindE getS (\<lambda>s. if IsMVCCMode s then ret True else ret True)"

definition lock_IS_on_table :: "int \<Rightarrow> int \<Rightarrow> ('a txnm_scheme, bool) op" where
  "lock_IS_on_table txn tab_fd = bindE getS (\<lambda>s. if IsMVCCMode s then ret True else ret True)"

definition lock_IX_on_table :: "int \<Rightarrow> int \<Rightarrow> ('a txnm_scheme, bool) op" where
  "lock_IX_on_table txn tab_fd = bindE getS (\<lambda>s. if IsMVCCMode s then ret True else ret True)"

definition lm_unlock :: "int \<Rightarrow> lock_data_id \<Rightarrow> ('a txnm_scheme, bool) op" where
  "lm_unlock txn d = bindE getS (\<lambda>s. if IsMVCCMode s then ret True else ret True)"

section \<open>The conflict test of the executors\<close>

primrec any_started_at :: "int \<Rightarrow> int list \<Rightarrow> ('a txnm_scheme, bool) op" where
  "any_started_at ts [] = ret False"
| "any_started_at ts (i # is) = bindE (txn_at i) (\<lambda>t. if start_ts t = ts then ret True else any_started_at ts is)"

definition IsWriteWriteConflict :: "int \<Rightarrow> int \<Rightarrow> bool \<Rightarrow> ('a txnm_scheme, bool) op" where
  "IsWriteWriteConflict tuple_ts txn has_mgr =
     (if tuple_ts = INVALID_TS \<or> tuple_ts = 0 then ret False
      else bindE (txn_at txn) (\<lambda>t.
        if tuple_ts = start_ts t then ret False
        else bindE (if has_mgr then bindE GetActiveTransactions (any_started_at tuple_ts) else ret False) (\<lambda>found.
          if found then ret True
          else if tuple_ts > start_ts t then ret True
          else ret False)))"

end
