(* ===== verification/VersionRead.thy ===== *)
theory VersionRead
  imports TxnState
begin

text \<open>
  The MVCC half of \<^verbatim>\<open>record/rm_file_handle.cpp\<close>: which version of a record a transaction reads, the
  stamp that a commit leaves on a record, and the conflict test of the writers.

  The pointer \<open>txn\<close> is a transaction number. A walk over a version chain that does not end is the
  error \<open>Diverges\<close>. The debug output is left out.
\<close>

section \<open>The version header of a record\<close>

definition meta_of_bytes :: "byte list \<Rightarrow> TupleMeta" where
  "meta_of_bytes v = \<lparr>meta_ts = to_signed 8 (dec_le (take 8 v)), meta_deleted = (v ! 8 \<noteq> 0)\<rparr>"

definition initial_meta :: TupleMeta where
  "initial_meta = \<lparr>meta_ts = 0, meta_deleted = False\<rparr>"

text \<open>\<open>memcpy(&meta, data, sizeof(TupleMeta))\<close> from a record.\<close>

definition read_meta :: "byte list \<Rightarrow> ('s, TupleMeta) op" where
  "read_meta v = bindE (memcpy_from v sizeof_TupleMeta) (\<lambda>b. ret (meta_of_bytes b))"

definition reasonable_ts :: "TupleMeta \<Rightarrow> int \<Rightarrow> bool" where
  "reasonable_ts meta next \<longleftrightarrow> meta_ts meta = 0 \<or> meta_ts meta > 0 \<and> meta_ts meta \<le> next + 1000"

definition data_part :: "bool \<Rightarrow> byte list \<Rightarrow> byte list" where
  "data_part has_tuple_meta v = (if has_tuple_meta then drop (nat sizeof_TupleMeta) v else v)"

section \<open>Rebuilding a version\<close>

definition field_bytes :: "db_value \<Rightarrow> byte list" where
  "field_bytes v = (case v of
       TYPE_INT i \<Rightarrow> enc_le 4 i
     | TYPE_FLOAT w \<Rightarrow> enc_le 4 (uint w)
     | TYPE_STRING t \<Rightarrow> take 4 (bytes_of_string t @ replicate 4 0))"

primrec put_fields :: "int \<Rightarrow> nat \<Rightarrow> db_value list \<Rightarrow> mem \<Rightarrow> mem" where
  "put_fields data_size i [] m = m"
| "put_fields data_size i (v # vs) m =
     (if i \<ge> 2 then m
      else if int (4 * i + 4) > data_size then m
      else put_fields data_size (Suc i) vs (mem_put m (4 * i) (field_bytes v)))"

definition ReconstructTupleFromUndoLog :: "rm_file_hdr \<Rightarrow> undo_log \<Rightarrow> ('s, byte list option) op" where
  "ReconstructTupleFromUndoLog h l =
     (let data_size = record_size h - sizeof_TupleMeta
      in bindE (new_record data_size) (\<lambda>_.
         if undo_tuple l = [] then ret None
         else let field_count = min (length (undo_tuple l)) (length (modified_fields l))
              in ret (Some (mem_read (put_fields data_size 0 (take field_count (undo_tuple l)) zero_mem) 0 (nat data_size)))))"

section \<open>Walking the version chain\<close>

text \<open>One version: \<open>Some r\<close> when the walk returns \<open>r\<close>, \<open>None\<close> when it goes on.\<close>

definition visit_version :: "rm_file_hdr \<Rightarrow> int \<Rightarrow> undo_log \<Rightarrow> ('a txnm_scheme, byte list option option) op" where
  "visit_version h start l =
     (let rebuild = (if undo_deleted l then ret (Some None)
                     else bindE (ReconstructTupleFromUndoLog h l) (\<lambda>r.
                          ret (case r of None \<Rightarrow> None | Some v \<Rightarrow> Some (Some v))))
      in if undo_ts l = 0 then rebuild
         else if undo_ts l = start then rebuild
         else if undo_ts l < start
         then bindE (IsCommittedBeforeReadTs (undo_ts l) start) (\<lambda>c. if c then rebuild else ret None)
         else ret None)"

text \<open>
  The loop. Looking at the chain changes nothing, so the loop runs on a fixed state; \<open>Some (Inr None)\<close>
  is leaving it at the end of the chain.
\<close>

partial_function (option) walk_chain ::
  "rm_file_hdr \<Rightarrow> int \<Rightarrow> 'a txnm_scheme \<Rightarrow> undo_link \<Rightarrow> (db_error + byte list option option) option" where
  "walk_chain h start s link =
     (case fst (GetUndoLogOptional link s) of
        Inl e \<Rightarrow> Some (Inl e)
      | Inr None \<Rightarrow> Some (Inr None)
      | Inr (Some l) \<Rightarrow>
          (case fst (visit_version h start l s) of
             Inl e \<Rightarrow> Some (Inl e)
           | Inr (Some r) \<Rightarrow> Some (Inr (Some r))
           | Inr None \<Rightarrow> walk_chain h start s (prev_version l)))"

definition chain_version :: "rm_file_hdr \<Rightarrow> int \<Rightarrow> undo_link \<Rightarrow> ('a txnm_scheme, byte list option option) op" where
  "chain_version h start link = (\<lambda>s. case walk_chain h start s link of None \<Rightarrow> (Inl Diverges, s) | Some r \<Rightarrow> (r, s))"

text \<open>The record in the file, judged by its header if it seems to have one; errors are ignored.\<close>

definition initial_version :: "int \<Rightarrow> rid \<Rightarrow> int \<Rightarrow> ('a txnm_scheme, byte list option) op" where
  "initial_version fd r start = tryE
     (bindE (get_record fd r None) (\<lambda>raw. case raw of
        None \<Rightarrow> ret None
      | Some v \<Rightarrow>
          bindE (fh_hdr fd) (\<lambda>h.
          let has_tuple_meta = (int (length v) \<noteq> record_size h - sizeof_TupleMeta)
          in bindE (if has_tuple_meta then read_meta v else ret initial_meta) (\<lambda>meta.
             bindE (if meta_ts meta = 0 then ret True
                    else if meta_ts meta \<le> start
                    then bindE (IsCommittedBeforeReadTs (meta_ts meta) start) (\<lambda>c. ret (c \<and> \<not> meta_deleted meta))
                    else ret False) (\<lambda>vis.
             ret (if vis then Some (data_part has_tuple_meta v) else None))))))
     (ret None)"

definition GetVisibleVersionFromHistory :: "int \<Rightarrow> rid \<Rightarrow> int \<Rightarrow> ('a txnm_scheme, byte list option) op" where
  "GetVisibleVersionFromHistory fd r txn = bindE (txn_at txn) (\<lambda>t. bindE getS (\<lambda>s.
     case GetVersionLink r s of
       None \<Rightarrow> initial_version fd r (start_ts t)
     | Some link \<Rightarrow>
         bindE (tryE (bindE (fh_hdr fd) (\<lambda>h. chain_version h (start_ts t) (first_undo link))) (ret None)) (\<lambda>found.
         case found of Some v \<Rightarrow> ret v | None \<Rightarrow> initial_version fd r (start_ts t))))"

section \<open>Reading\<close>

text \<open>
  What \<open>get_record_mvcc\<close> does once it has read the record: \<open>meta\<close> is the header, \<open>data\<close> the columns,
  \<open>history\<close> the call of \<open>GetVisibleVersionFromHistory\<close>.
\<close>

definition choose_version ::
  "int \<Rightarrow> TupleMeta \<Rightarrow> byte list \<Rightarrow> ('a txnm_scheme, byte list option) op \<Rightarrow> ('a txnm_scheme, byte list option) op" where
  "choose_version txn meta data history =
     (if meta_ts meta = 0 then ret (if meta_deleted meta then None else Some data)
      else bindE (txn_at txn) (\<lambda>t.
      if meta_deleted meta
      then if meta_ts meta = start_ts t then ret None
           else bindE (IsCommittedBeforeReadTs (meta_ts meta) (start_ts t)) (\<lambda>c.
             if c then ret None
             else bindE getS (\<lambda>s. if is_transaction_aborted (meta_ts meta) s then history
             else bindE (get_transaction_by_timestamp (meta_ts meta)) (\<lambda>deleting_txn.
               case deleting_txn of
                 None \<Rightarrow> history
               | Some d \<Rightarrow> bindE (txn_at d) (\<lambda>dt.
                   if is_active (txn_state dt) then raise (TransactionAbortException (txn_id t) DEADLOCK_PREVENTION)
                   else history))))
      else if meta_ts meta = start_ts t then ret (Some data)
      else if meta_ts meta < start_ts t
      then bindE (IsCommittedBeforeReadTs (meta_ts meta) (start_ts t)) (\<lambda>c. if c then ret (Some data) else history)
      else bindE getS (\<lambda>s. if is_transaction_aborted (meta_ts meta) s then history
           else bindE (IsCommitted (meta_ts meta)) (\<lambda>c. if c then history else history))))"

definition get_record_mvcc :: "int \<Rightarrow> rid \<Rightarrow> Context option \<Rightarrow> ('a txnm_scheme, byte list option) op" where
  "get_record_mvcc fd r ctx = bindE getS (\<lambda>s0.
     case (case ctx of None \<Rightarrow> None | Some c \<Rightarrow> if ctx_mvcc ctx s0 then ctx_txn c else None) of
       None \<Rightarrow> get_record fd r ctx
     | Some txn \<Rightarrow>
         bindE (fetch_page_handle fd (rid_page_no r)) (\<lambda>ph.
         case ph of
           None \<Rightarrow> ret None
         | Some f \<Rightarrow>
             bindE (fh_hdr fd) (\<lambda>h. bindE getS (\<lambda>s.
             bindE (new_record (record_size h)) (\<lambda>_.
             let raw = mem_read (page_mem f s) (get_slot h (rid_slot_no r)) (nat (record_size h))
             in bindE (unpin_frame f False) (\<lambda>_.
                bindE (read_meta raw) (\<lambda>potential_meta.
                let has_tuple_meta = reasonable_ts potential_meta (next_timestamp s);
                    meta = (if has_tuple_meta then potential_meta else initial_meta)
                in choose_version txn meta (data_part has_tuple_meta raw)
                     (GetVisibleVersionFromHistory fd r txn))))))))"

section \<open>Stamping at commit\<close>

definition UpdateRecordCommitTimestamp :: "int \<Rightarrow> rid \<Rightarrow> int \<Rightarrow> Context option \<Rightarrow> ('a txnm_scheme, unit) op" where
  "UpdateRecordCommitTimestamp fd r cts ctx = bindE getS (\<lambda>s0.
     if \<not> ctx_mvcc ctx s0 then ret ()
     else bindE (is_record fd r) (\<lambda>b.
       if \<not> b then ret ()
       else bindE (fetch_page_handle fd (rid_page_no r)) (\<lambda>ph.
         case ph of
           None \<Rightarrow> ret ()
         | Some f \<Rightarrow>
             bindE (fh_hdr fd) (\<lambda>h. bindE getS (\<lambda>s.
             let slot = get_slot h (rid_slot_no r)
             in case (case ctx of None \<Rightarrow> None | Some c \<Rightarrow> ctx_txn c) of
                  None \<Rightarrow> unpin_frame f False
                | Some txn \<Rightarrow> bindE (txn_at txn) (\<lambda>t.
                    if load_i64 (page_mem f s) slot = start_ts t
                    then if cts > start_ts t
                         then bindE (poke_page f (\<lambda>m. store_i64 m slot cts)) (\<lambda>_. unpin_frame f True)
                         else unpin_frame f False
                    else unpin_frame f False))))))"

section \<open>The conflict test\<close>

definition conflict_with :: "int \<Rightarrow> int \<Rightarrow> ('a txnm_scheme, bool) op" where
  "conflict_with ts txn = bindE (txn_at txn) (\<lambda>t.
     if ts = start_ts t then ret False
     else if txn_state t = ABORTED then ret True
     else bindE (get_transaction_by_timestamp ts) (\<lambda>owner.
       let committed_case = bindE (IsCommitted ts) (\<lambda>c.
             if c
             then bindE (get_transaction_by_timestamp ts) (\<lambda>owner. case owner of
                    Some d \<Rightarrow> bindE (txn_at d) (\<lambda>dt. ret (commit_ts dt > start_ts t))
                  | None \<Rightarrow> ret (ts > start_ts t))
             else ret (ts > start_ts t))
       in case owner of
            None \<Rightarrow> committed_case
          | Some d \<Rightarrow>
              if d = txn then committed_case
              else bindE (txn_at d) (\<lambda>dt.
                if is_active (txn_state dt) then ret True
                else if txn_state dt = ABORTED then ret False
                else committed_case)))"

definition CheckWriteWriteConflict :: "int \<Rightarrow> rid \<Rightarrow> Context option \<Rightarrow> ('a txnm_scheme, bool) op" where
  "CheckWriteWriteConflict fd r ctx = bindE getS (\<lambda>s0.
     case (case ctx of None \<Rightarrow> None | Some c \<Rightarrow> if ctx_mvcc ctx s0 then ctx_txn c else None) of
       None \<Rightarrow> ret False
     | Some txn \<Rightarrow>
         bindE (fetch_page_handle fd (rid_page_no r)) (\<lambda>ph.
         case ph of
           None \<Rightarrow> ret False
         | Some f \<Rightarrow>
             bindE (fh_hdr fd) (\<lambda>h. bindE getS (\<lambda>s.
             let slot_meta = meta_of_bytes (mem_read (page_mem f s) (get_slot h (rid_slot_no r)) (nat sizeof_TupleMeta));
                 meta = (if reasonable_ts slot_meta (next_timestamp s) then slot_meta else initial_meta)
             in bindE (unpin_frame f False) (\<lambda>_.
                if meta_ts meta = 0 then ret False else conflict_with (meta_ts meta) txn)))))"

end
