(* ===== verification/TxnManager.thy ===== *)
theory TxnManager
  imports VersionRead
begin

text \<open>
  Commit and abort, the second half of \<^verbatim>\<open>transaction/transaction_manager.cpp\<close>, and what the manager keeps
  true of its timestamps.

  \<open>SmManager::create_index\<close> and \<open>drop_index\<close>, which an abort outside MVCC mode calls to undo DDL, are the
  parameter \<open>compensate\<close>. The loops of \<open>commit\<close> that only look at the undo logs or print are left out.
\<close>

section \<open>Commit\<close>

definition restamp_logs :: "int \<Rightarrow> int \<Rightarrow> undo_log list \<Rightarrow> undo_log list" where
  "restamp_logs old new = map (\<lambda>l. if undo_ts l = old then l\<lparr>undo_ts := new\<rparr> else l)"

definition commit_ctx :: "int \<Rightarrow> Context" where
  "commit_ctx txn = \<lparr>ctx_log = False, ctx_txn = Some txn, ctx_txn_mgr = True, ctx_tab = []\<rparr>"

definition stamp_record :: "int \<Rightarrow> int \<Rightarrow> write_record \<Rightarrow> ('a txnm_scheme, unit) op" where
  "stamp_record txn cts w = bindE getS (\<lambda>s.
     case fhs s (write_table w) of
       None \<Rightarrow> ret ()
     | Some fd \<Rightarrow> UpdateRecordCommitTimestamp fd (write_rid w) cts (Some (commit_ctx txn)))"

definition UpdateCommitTimestamp :: "int \<Rightarrow> int \<Rightarrow> ('a txnm_scheme, unit) op" where
  "UpdateCommitTimestamp txn cts =
     bindE (upd_txn txn (\<lambda>t. t\<lparr>commit_ts := cts\<rparr>)) (\<lambda>_.
     bindE (upd_txn txn (\<lambda>t. t\<lparr>undo_logs := restamp_logs (start_ts t) cts (undo_logs t)\<rparr>)) (\<lambda>_.
     bindE (txn_at txn) (\<lambda>t. forE (write_set t) (stamp_record txn cts))))"

definition clear_sets :: "int \<Rightarrow> ('a txnm_scheme, unit) op" where
  "clear_sets txn = upd_txn txn (\<lambda>t. t\<lparr>index_latch_page_set := [], lock_set := {}\<rparr>)"

definition unregister :: "int \<Rightarrow> ('a txnm_scheme, unit) op" where
  "unregister txn = bindE (txn_at txn) (\<lambda>t. updS (\<lambda>s. s\<lparr>txn_map := txn_map s - {txn_id t}\<rparr>))"

definition txnm_commit :: "int option \<Rightarrow> ('a txnm_scheme, unit) op" where
  "txnm_commit txn = (case txn of
     None \<Rightarrow> raise (RuntimeError ''Transaction does not exist.'')
   | Some i \<Rightarrow> bindE getS (\<lambda>s0.
       bindE (if concurrency_mode s0 = MVCC
              then bindE next_ts (\<lambda>cts.
                   bindE (UpdateCommitTimestamp i cts) (\<lambda>_.
                   bindE (updS (\<lambda>s. if last_commit_ts s < cts then s\<lparr>last_commit_ts := cts\<rparr> else s)) (\<lambda>_.
                   bindE (updS (\<lambda>s. s\<lparr>running_txns := UpdateCommitTs cts (running_txns s)\<rparr>)) (\<lambda>_.
                   bindE (txn_at i) (\<lambda>t.
                   bindE (updS (\<lambda>s. s\<lparr>running_txns := RemoveTxn (start_ts t) (running_txns s)\<rparr>)) (\<lambda>_.
                   updS (\<lambda>s. s\<lparr>committed_txns := insert cts (committed_txns s)\<rparr>)))))))
              else ret ()) (\<lambda>_.
       bindE (upd_txn i (\<lambda>t. t\<lparr>txn_state := COMMITTED\<rparr>)) (\<lambda>_.
       bindE flush_log_to_disk (\<lambda>_.
       bindE (clear_sets i) (\<lambda>_.
       if concurrency_mode s0 \<noteq> MVCC then unregister i else ret ()))))))"

section \<open>Abort\<close>

definition abort_ctx :: "int \<Rightarrow> Context" where
  "abort_ctx txn = \<lparr>ctx_log = True, ctx_txn = Some txn, ctx_txn_mgr = False, ctx_tab = []\<rparr>"

text \<open>The last write record is taken off the write set, then undone.\<close>

definition undo_write :: "int \<Rightarrow> write_record \<Rightarrow> ('a txnm_scheme, unit) op" where
  "undo_write txn w =
     bindE (upd_txn txn (\<lambda>t. t\<lparr>write_set := butlast (write_set t)\<rparr>)) (\<lambda>_. bindE getS (\<lambda>s.
     case fhs s (write_table w) of
       None \<Rightarrow> raise (RuntimeError ''map::at'')
     | Some fd \<Rightarrow>
         (case write_type w of
            INSERT_TUPLE \<Rightarrow> delete_record fd (write_rid w) (Some (abort_ctx txn))
          | DELETE_TUPLE \<Rightarrow> insert_record_at fd (write_rid w) (write_value w)
          | UPDATE_TUPLE \<Rightarrow> update_record fd (write_rid w) (write_value w) (Some (abort_ctx txn)))))"

definition undo_writes :: "int \<Rightarrow> ('a txnm_scheme, unit) op" where
  "undo_writes txn = bindE (txn_at txn) (\<lambda>t. forE (rev (write_set t)) (undo_write txn))"

definition undo_ddl ::
  "(ddl_record \<Rightarrow> ('a txnm_scheme, unit) op) \<Rightarrow> int \<Rightarrow> ddl_record \<Rightarrow> ('a txnm_scheme, unit) op" where
  "undo_ddl compensate txn d =
     bindE (upd_txn txn (\<lambda>t. t\<lparr>ddl_set := butlast (ddl_set t)\<rparr>)) (\<lambda>_. tryE (compensate d) (ret ()))"

definition txnm_abort :: "(ddl_record \<Rightarrow> ('a txnm_scheme, unit) op) \<Rightarrow> int \<Rightarrow> ('a txnm_scheme, unit) op" where
  "txnm_abort compensate i =
     bindE (upd_txn i (\<lambda>t. t\<lparr>txn_state := ABORTED\<rparr>)) (\<lambda>_. bindE getS (\<lambda>s0.
     bindE (if concurrency_mode s0 = MVCC
            then bindE (txn_at i) (\<lambda>t.
                 bindE (updS (\<lambda>s. s\<lparr>running_txns := RemoveTxn (start_ts t) (running_txns s)\<rparr>)) (\<lambda>_.
                 bindE (updS (\<lambda>s. s\<lparr>aborted_txns := insert (start_ts t) (aborted_txns s)\<rparr>)) (\<lambda>_.
                 undo_writes i)))
            else bindE (txn_at i) (\<lambda>t.
                 bindE (forE (rev (ddl_set t)) (undo_ddl compensate i)) (\<lambda>_.
                 bindE (undo_writes i) (\<lambda>_. unregister i)))) (\<lambda>_.
     bindE flush_log_to_disk (\<lambda>_.
     clear_sets i))))"

end
