(* ===== verification/TxnRuns.thy ===== *)
theory TxnRuns
  imports TxnManager RecordFile
begin

text \<open>
  What the transaction manager keeps true over any run of begin, commit and abort in MVCC mode, with any
  work on the data in between: unique stamps, the bookkeeping of committed and aborted stamps, and from
  them what the visibility and conflict tests answer.
\<close>

section \<open>Page work leaves the transactions alone\<close>

definition txn_part :: "'a dbs_scheme \<Rightarrow> ConcurrencyMode \<times> 'a" where
  "txn_part s = (concurrency_mode s, dbs.more s)"

lemma bpm_more_txn_part:
  fixes s t :: "'a dbs_scheme"
  shows "bpm.more s = bpm.more t \<Longrightarrow> txn_part s = txn_part t"
  using bpm_more_dbs(2,4) [of s t] by (simp add: txn_part_def)

lemma disk_more_txn_part:
  fixes s t :: "'a dbs_scheme"
  shows "disk.more s = disk.more t \<Longrightarrow> txn_part s = txn_part t"
  by (rule bpm_more_txn_part [OF bpm_more_cong])

lemma bpm_to_part: "preserves bpm.more m \<Longrightarrow> preserves txn_part (m :: ('a dbs_scheme, _) op)"
  by (erule preserves_comp) (rule bpm_more_txn_part)

lemma disk_to_part: "preserves disk.more m \<Longrightarrow> preserves txn_part (m :: ('a dbs_scheme, _) op)"
  by (erule preserves_comp) (rule disk_more_txn_part)

lemma pool_ops_part [preserving]:
  shows "preserves txn_part (fetch_page pid :: ('a dbs_scheme, _) op)" and "preserves txn_part (unpin_page pid d :: ('a dbs_scheme, _) op)"
    and "preserves txn_part (new_page pid :: ('a dbs_scheme, _) op)" and "preserves txn_part (write_page fd p buf n :: ('a dbs_scheme, _) op)"
  by (rule bpm_to_part, rule fetch_page_more unpin_page_more new_page_more write_page_bpm)+

lemma txn_part_upd [simp]:
  "txn_part (s\<lparr>log_offset := a\<rparr>) = txn_part s" "txn_part (s\<lparr>persist_lsn := b\<rparr>) = txn_part s"
  "txn_part (s\<lparr>log_buffer := c\<rparr>) = txn_part s" "txn_part (s\<lparr>global_lsn := b\<rparr>) = txn_part s"
  "txn_part (s\<lparr>file_hdrs := h\<rparr>) = txn_part s" "txn_part (s\<lparr>pages := g\<rparr>) = txn_part s"
  by (cases s; simp add: txn_part_def)+

lemma poke_page_part [preserving]: "preserves txn_part (poke_page f g :: ('a dbs_scheme, _) op)"
  by (rule preservesI) (simp add: poke_page_def write_frame_def set_page_def)

lemma unpin_frame_part [preserving]: "preserves txn_part (unpin_frame f d :: ('a dbs_scheme, _) op)"
  unfolding unpin_frame_def by (intro preserving)

lemma fh_hdr_part [preserving]: "preserves txn_part (fh_hdr fd)"
  unfolding fh_hdr_def by (intro preserving)

lemma set_hdr_part [preserving]: "preserves txn_part (set_hdr fd h)"
  unfolding set_hdr_def by (intro preserving) simp

lemma write_hdr_part [preserving]: "preserves txn_part (write_hdr fd)"
  unfolding write_hdr_def by (intro preserving)

lemma fetch_page_handle_part [preserving]: "preserves txn_part (fetch_page_handle fd p)"
  unfolding fetch_page_handle_def by (intro preserving)

lemma is_record_part [preserving]: "preserves txn_part (is_record fd r)"
  unfolding is_record_def by (intro preserving)

lemma write_log_more: "preserves disk.more (write_log buf n)"
proof -
  have e: "disk.more (snd (ensure_log_fd d)) = disk.more d" for d :: "'a disk_scheme"
    by (auto simp: ensure_log_fd_def open_file_def os_open_def bindE_def Let_def)
  show ?thesis
  proof (rule preservesI)
    fix s :: "'a disk_scheme"
    obtain r t where t: "ensure_log_fd s = (r, t)" by fastforce
    then have "disk.more t = disk.more s" using e [of s] by simp
    then show "disk.more (snd (write_log buf n s)) = disk.more s"
      by (cases r) (simp_all add: write_log_def bindE_def t Let_def case_prod_unfold)
  qed
qed

lemma write_out_part [preserving]: "preserves txn_part (write_out :: ('a dbs_scheme, _) op)"
  unfolding write_out_def by (intro preserving disk_to_part [OF write_log_more]) (simp_all add: txn_part_def)

lemma flush_log_part [preserving]: "preserves txn_part (flush_log_to_disk :: ('a dbs_scheme, _) op)"
  unfolding flush_log_to_disk_def by (rule write_out_part)

lemma txn_at_part [preserving]: "preserves p (txn_at i)"
  unfolding txn_at_def by (intro preserving)

lemma stamp_record_part [preserving]: "preserves txn_part (stamp_record i c w)"
  unfolding stamp_record_def UpdateRecordCommitTimestamp_def by (intro preserving)

lemma log_ahead_part [preserving]: "preserves txn_part (log_ahead r :: ('a dbs_scheme, _) op)"
  unfolding log_ahead_def add_log_to_buffer_def force_flush_log_to_disk_def
  by (intro preserving) simp

lemma new_record_part [preserving]: "preserves p (new_record n)" "preserves p (memcpy_from buf n)"
  unfolding new_record_def memcpy_from_def by (intro preserving)+

lemma get_record_part [preserving]: "preserves txn_part (get_record fd r ctx)"
  unfolding get_record_def by (intro preserving)

lemma log_old_part [preserving]: "(\<And>v. preserves txn_part (mk v)) \<Longrightarrow> preserves txn_part (log_old fd r ctx mk)"
  unfolding log_old_def by (intro preserving)

lemma release_page_part [preserving]: "preserves txn_part (release_page_handle fd f)"
  unfolding release_page_handle_def by (intro preserving)

lemma delete_record_part [preserving]: "preserves txn_part (delete_record fd r ctx)"
  unfolding delete_record_def by (intro preserving)

lemma update_record_part [preserving]: "preserves txn_part (update_record fd r buf ctx)"
  unfolding update_record_def by (intro preserving)

lemma create_new_page_part [preserving]: "preserves txn_part (create_new_page_handle fd)"
  unfolding create_new_page_handle_def by (intro preserving)

lemma insert_record_at_part [preserving]: "preserves txn_part (insert_record_at fd r buf)"
  unfolding insert_record_at_def by (intro preserving)

section \<open>The part of the state that matters\<close>

definition stamps :: "transaction \<Rightarrow> int \<times> TransactionState \<times> int \<times> int" where
  "stamps t = (txn_id t, txn_state t, start_ts t, commit_ts t)"

record txn_view =
  vw_txns :: "int \<rightharpoonup> int \<times> TransactionState \<times> int \<times> int"
  vw_map :: "int set"
  vw_id :: int
  vw_next :: int
  vw_committed :: "int set"
  vw_aborted :: "int set"

definition txn_view_of :: "'a txnm_scheme \<Rightarrow> txn_view" where
  "txn_view_of s = \<lparr>vw_txns = (\<lambda>i. map_option stamps (txn_heap s i)), vw_map = txn_map s, vw_id = next_txn_id s,
     vw_next = next_timestamp s, vw_committed = committed_txns s, vw_aborted = aborted_txns s\<rparr>"

lemma part_view:
  fixes s t :: "'a txnm_scheme"
  assumes "txn_part t = txn_part s"
  shows "txn_view_of t = txn_view_of s" and "txn_heap t = txn_heap s" and "concurrency_mode t = concurrency_mode s"
    and "iter_order t = iter_order s"
  using assms by (cases s, cases t, simp add: txn_part_def txn_view_of_def)+

lemma forE_part: "(\<And>x. preserves p (body x)) \<Longrightarrow> forE xs body s = (r, t) \<Longrightarrow> p t = p s"
  by (rule preservesD [OF preserves_forE])

section \<open>The effect of each operation\<close>

lemma txn_at_eq: "txn_heap s i = Some t \<Longrightarrow> txn_at i s = (Inr t, s)"
  by (simp add: txn_at_def)

lemma upd_txn_eq: "txn_heap s i = Some t \<Longrightarrow> upd_txn i f s = (Inr (), s\<lparr>txn_heap := (txn_heap s)(i \<mapsto> f t)\<rparr>)"
  by (simp add: upd_txn_def bindE_apply txn_at_eq put_txn_def)

lemma begin_effect:
  assumes m: "concurrency_mode s = MVCC"
  shows "\<exists>t. txnm_begin jm jt None s = (Inr (next_txn_id s), t) \<and> concurrency_mode t = MVCC \<and> iter_order t = iter_order s \<and>
    txn_view_of t = (txn_view_of s)\<lparr>vw_txns := (vw_txns (txn_view_of s))(next_txn_id s \<mapsto>
        (next_txn_id s, DEFAULT, next_timestamp s, INVALID_TS)),
      vw_map := insert (next_txn_id s) (txn_map s), vw_id := next_txn_id s + 1, vw_next := next_timestamp s + 1\<rparr>"
proof -
  let ?i = "next_txn_id s" and ?n = "next_timestamp s"
  define t0 where "t0 = (new_Transaction jm jt (this_thread s) ?i)\<lparr>txn_mode := True\<rparr>"
  have st: "txn_state t0 = DEFAULT" "txn_id t0 = ?i" "commit_ts t0 = INVALID_TS" by (simp_all add: t0_def new_Transaction_def)
  define s1 where "s1 = s\<lparr>next_txn_id := ?i + 1, txn_heap := (txn_heap s)(?i \<mapsto> t0)\<rparr>"
  have a: "alloc_txn jm jt True s = (Inr ?i, s1)"
    by (simp add: alloc_txn_def Let_def bindE_apply put_txn_def s1_def t0_def)
  have h1: "txn_heap s1 ?i = Some t0" "concurrency_mode s1 = MVCC" "next_timestamp s1 = ?n" using m by (simp_all add: s1_def)
  have u1: "upd_txn ?i (\<lambda>t. if txn_state t \<noteq> DEFAULT then t\<lparr>txn_state := DEFAULT\<rparr> else t) s1 = (Inr (), s1)"
    using upd_txn_eq [OF h1(1)] st(1) h1(1) by (simp add: fun_upd_idem)
  define s2 where "s2 = s1\<lparr>next_timestamp := ?n + 1\<rparr>"
  have n: "next_ts s1 = (Inr ?n, s2)" using h1(3) by (simp add: next_ts_def s2_def)
  define s3 where "s3 = s2\<lparr>txn_heap := (txn_heap s2)(?i \<mapsto> t0\<lparr>start_ts := ?n\<rparr>)\<rparr>"
  have h2: "txn_heap s2 ?i = Some t0" using h1(1) by (simp add: s2_def)
  have u2: "upd_txn ?i (\<lambda>t. t\<lparr>start_ts := ?n\<rparr>) s2 = (Inr (), s3)" using upd_txn_eq [OF h2] by (simp add: s3_def)
  define s4 where "s4 = s3\<lparr>running_txns := AddTxn ?n (running_txns s3)\<rparr>"
  define s5 where "s5 = s4\<lparr>txn_map := insert ?i (txn_map s4)\<rparr>"
  have "txn_heap s4 ?i = Some (t0\<lparr>start_ts := ?n\<rparr>)" by (simp add: s4_def s3_def)
  then have reg: "register_txn ?i s4 = (Inr (), s5)" using st(2) by (simp add: register_txn_def bindE_apply txn_at_def s5_def)
  have "txnm_begin jm jt None s = (Inr ?i, s5)"
    by (simp add: txnm_begin_def bindE_apply a u1 h1(2) n u2 s4_def [symmetric] reg)
  moreover have "txn_view_of s5 = (txn_view_of s)\<lparr>vw_txns := (vw_txns (txn_view_of s))(?i \<mapsto> (?i, DEFAULT, ?n, INVALID_TS)),
      vw_map := insert ?i (txn_map s), vw_id := ?i + 1, vw_next := ?n + 1\<rparr>"
    using st by (simp add: s5_def s4_def s3_def s2_def s1_def txn_view_of_def stamps_def fun_eq_iff)
  moreover have "concurrency_mode s5 = MVCC" "iter_order s5 = iter_order s"
    using m by (simp_all add: s5_def s4_def s3_def s2_def s1_def)
  ultimately show ?thesis by blast
qed

lemma commit_effect:
  assumes m: "concurrency_mode s = MVCC" and t0: "txn_heap s i = Some t0" and c: "txnm_commit (Some i) s = (Inr (), t)"
  shows "concurrency_mode t = MVCC" and "iter_order t = iter_order s"
    and "txn_view_of t = (txn_view_of s)\<lparr>vw_txns := (vw_txns (txn_view_of s))(i \<mapsto> (txn_id t0, COMMITTED, start_ts t0, next_timestamp s)),
      vw_next := next_timestamp s + 1, vw_committed := insert (next_timestamp s) (committed_txns s)\<rparr>"
proof -
  let ?c = "next_timestamp s"
  define s1 where "s1 = s\<lparr>next_timestamp := ?c + 1\<rparr>"
  have n: "next_ts s = (Inr ?c, s1)" by (simp add: next_ts_def s1_def)
  define t1 where "t1 = t0\<lparr>commit_ts := ?c\<rparr>"
  define t2 where "t2 = t1\<lparr>undo_logs := restamp_logs (start_ts t0) ?c (undo_logs t0)\<rparr>"
  define s2 where "s2 = s1\<lparr>txn_heap := (txn_heap s)(i \<mapsto> t2)\<rparr>"
  have f2: "start_ts t2 = start_ts t0" "write_set t2 = write_set t0" "txn_id t2 = txn_id t0" "commit_ts t2 = ?c"
    by (simp_all add: t2_def t1_def)
  have h1: "txn_heap s1 i = Some t0" by (simp add: s1_def t0)
  have u: "UpdateCommitTimestamp i ?c s1 = forE (write_set t0) (stamp_record i ?c) s2"
    by (simp add: UpdateCommitTimestamp_def bindE_apply upd_txn_def put_txn_def txn_at_def h1)
      (simp add: s2_def s1_def t2_def t1_def)
  obtain r s3 where s3: "forE (write_set t0) (stamp_record i ?c) s2 = (r, s3)" by fastforce
  have p3: "txn_part s3 = txn_part s2" by (rule forE_part [OF stamp_record_part s3])
  note v3 = part_view [OF p3]
  have m1: "concurrency_mode s1 = MVCC" by (simp add: s1_def m)
  have r: "r = Inr ()" using c by (cases r) (simp_all add: txnm_commit_def m bindE_apply n u s3)
  define s4 where "s4 = (if last_commit_ts s3 < ?c then s3\<lparr>last_commit_ts := ?c\<rparr> else s3)"
  have h4: "txn_heap s4 i = Some t2" by (simp add: s4_def v3(2)) (simp add: s2_def)
  define s5 where "s5 = s4\<lparr>running_txns := UpdateCommitTs ?c (running_txns s4)\<rparr>"
  define s6 where "s6 = s5\<lparr>running_txns := RemoveTxn (start_ts t0) (running_txns s5)\<rparr>"
  define s7 where "s7 = s6\<lparr>committed_txns := insert ?c (committed_txns s6)\<rparr>"
  define s8 where "s8 = s7\<lparr>txn_heap := (txn_heap s7)(i \<mapsto> t2\<lparr>txn_state := COMMITTED\<rparr>)\<rparr>"
  have h5: "txn_heap s5 i = Some t2" by (simp add: s5_def h4)
  have h7: "txn_heap s7 i = Some t2" by (simp add: s7_def s6_def h5)
  have eq: "txnm_commit (Some i) s = bindE flush_log_to_disk (\<lambda>_. clear_sets i) s8"
  proof -
    have f: "s6\<lparr>committed_txns := insert ?c (committed_txns s5)\<rparr> = s7" by (simp add: s7_def s6_def)
    have k: "bindE (clear_sets i) ret = clear_sets i" by (simp add: fun_eq_iff bindE_apply split: prod.splits sum.splits)
    show ?thesis
      by (simp add: txnm_commit_def bindE_apply m n u s3 r s4_def [symmetric] s5_def [symmetric] txn_at_eq [OF h5] f2(1)
        s6_def [symmetric] f upd_txn_eq [OF h7] s8_def [symmetric] k)
  qed
  obtain q s9 where s9: "flush_log_to_disk s8 = (q, s9)" by fastforce
  have p9: "txn_part s9 = txn_part s8" by (rule preservesD [OF flush_log_part s9])
  note v9 = part_view [OF p9]
  have h9: "txn_heap s9 i = Some (t2\<lparr>txn_state := COMMITTED\<rparr>)" by (simp add: v9(2)) (simp add: s8_def)
  have q: "q = Inr ()" using c eq by (cases q) (simp_all add: bindE_apply s9)
  have t: "t = s9\<lparr>txn_heap := (txn_heap s9)(i \<mapsto> t2\<lparr>txn_state := COMMITTED, index_latch_page_set := [], lock_set := {}\<rparr>)\<rparr>"
    using c eq q by (simp add: bindE_apply s9 clear_sets_def upd_txn_eq [OF h9])
  have m8: "concurrency_mode s8 = concurrency_mode s3" "iter_order s8 = iter_order s3"
    by (simp_all add: s8_def s7_def s6_def s5_def s4_def)
  have m3: "concurrency_mode s2 = MVCC" "iter_order s2 = iter_order s" by (simp_all add: s2_def s1_def m)
  show "concurrency_mode t = MVCC" by (simp add: t v9(3) m8 v3(3) m3)
  show "iter_order t = iter_order s" by (simp add: t v9(4) m8 v3(4) m3)
  have e8: "txn_view_of s8 = (txn_view_of s3)\<lparr>vw_txns := (vw_txns (txn_view_of s3))(i \<mapsto> (txn_id t0, COMMITTED, start_ts t0, ?c)),
      vw_committed := insert ?c (vw_committed (txn_view_of s3))\<rparr>"
    using f2 by (simp add: s8_def s7_def s6_def s5_def s4_def txn_view_of_def stamps_def fun_eq_iff)
  have e2: "txn_view_of s2 = (txn_view_of s)\<lparr>vw_txns := (vw_txns (txn_view_of s))(i \<mapsto> stamps t2), vw_next := ?c + 1\<rparr>"
    by (simp add: s2_def s1_def txn_view_of_def fun_eq_iff)
  have e9: "txn_view_of t = txn_view_of s9" using f2
    by (simp add: t txn_view_of_def stamps_def fun_eq_iff h9)
  show "txn_view_of t = (txn_view_of s)\<lparr>vw_txns := (vw_txns (txn_view_of s))(i \<mapsto> (txn_id t0, COMMITTED, start_ts t0, next_timestamp s)),
      vw_next := next_timestamp s + 1, vw_committed := insert (next_timestamp s) (committed_txns s)\<rparr>"
    by (simp add: e9 v9(1) e8 v3(1) e2 fun_upd_upd) (simp add: txn_view_of_def)
qed

text \<open>What an abort does besides marking the transaction leaves the view alone.\<close>

definition txn_frame :: "'a txnm_scheme \<Rightarrow> txn_view \<times> ConcurrencyMode \<times> (int set \<Rightarrow> int list)" where
  "txn_frame s = (txn_view_of s, concurrency_mode s, iter_order s)"

lemma part_frame: "txn_part t = txn_part s \<Longrightarrow> txn_frame t = txn_frame s" for s t :: "'a txnm_scheme"
  unfolding txn_frame_def using part_view [of t s] by metis

lemma part_to_frame: "preserves txn_part m \<Longrightarrow> preserves txn_frame (m :: ('a txnm_scheme, _) op)"
  by (erule preserves_comp) (rule part_frame)

lemma upd_txn_frame: "(\<And>t. stamps (f t) = stamps t) \<Longrightarrow> preserves txn_frame (upd_txn i f)"
proof (rule preservesI)
  fix s :: "'a txnm_scheme"
  assume f: "\<And>t. stamps (f t) = stamps t"
  show "txn_frame (snd (upd_txn i f s)) = txn_frame s"
  proof (cases "txn_heap s i")
    case None
    then show ?thesis by (simp add: upd_txn_def bindE_apply txn_at_def)
  next
    case (Some t)
    then show ?thesis using f by (simp add: upd_txn_eq txn_frame_def txn_view_of_def fun_eq_iff)
  qed
qed

lemma preserves_WType:
  "preserves p a \<Longrightarrow> preserves p b \<Longrightarrow> preserves p c \<Longrightarrow>
     preserves p (case w of INSERT_TUPLE \<Rightarrow> a | DELETE_TUPLE \<Rightarrow> b | UPDATE_TUPLE \<Rightarrow> c)"
  by (cases w) simp_all

lemma undo_write_frame: "preserves txn_frame (undo_write i w)"
  unfolding undo_write_def
  by (intro preserving upd_txn_frame preserves_WType part_to_frame [OF delete_record_part]
      part_to_frame [OF insert_record_at_part] part_to_frame [OF update_record_part]) (simp add: stamps_def)

lemma undo_writes_frame: "preserves txn_frame (undo_writes i)"
  unfolding undo_writes_def by (intro preserving undo_write_frame)

lemma txn_frame_eq:
  "txn_frame t = txn_frame s \<longleftrightarrow> txn_view_of t = txn_view_of s \<and> concurrency_mode t = concurrency_mode s \<and> iter_order t = iter_order s"
  by (simp add: txn_frame_def)

lemma frame_heap:
  "txn_view_of t = txn_view_of s \<Longrightarrow> map_option stamps (txn_heap t i) = map_option stamps (txn_heap s i)"
  by (simp add: txn_view_of_def fun_eq_iff)

lemma abort_effect:
  assumes m: "concurrency_mode s = MVCC" and t0: "txn_heap s i = Some t0" and a: "txnm_abort ddl i s = (Inr (), t)"
  shows "concurrency_mode t = MVCC" and "iter_order t = iter_order s"
    and "txn_view_of t = (txn_view_of s)\<lparr>vw_txns := (vw_txns (txn_view_of s))(i \<mapsto> (txn_id t0, ABORTED, start_ts t0, commit_ts t0)),
      vw_aborted := insert (start_ts t0) (aborted_txns s)\<rparr>"
proof -
  define s1 where "s1 = s\<lparr>txn_heap := (txn_heap s)(i \<mapsto> t0\<lparr>txn_state := ABORTED\<rparr>)\<rparr>"
  have h1: "txn_heap s1 i = Some (t0\<lparr>txn_state := ABORTED\<rparr>)" "concurrency_mode s1 = MVCC" by (simp_all add: s1_def m)
  define s2 where "s2 = s1\<lparr>running_txns := RemoveTxn (start_ts t0) (running_txns s1)\<rparr>"
  define s3 where "s3 = s2\<lparr>aborted_txns := insert (start_ts t0) (aborted_txns s2)\<rparr>"
  have f: "s2\<lparr>aborted_txns := insert (start_ts t0) (aborted_txns s1)\<rparr> = s3" by (simp add: s3_def s2_def)
  have eq: "txnm_abort ddl i s = bindE (undo_writes i) (\<lambda>_. bindE flush_log_to_disk (\<lambda>_. clear_sets i)) s3"
    by (simp add: txnm_abort_def bindE_apply upd_txn_eq [where i = i and s = s, OF t0] s1_def [symmetric] h1 txn_at_eq [OF h1(1)]
      s2_def [symmetric] f)
  have p: "preserves txn_frame (bindE (undo_writes i) (\<lambda>_. bindE flush_log_to_disk (\<lambda>_. clear_sets i)))"
    unfolding clear_sets_def
    by (intro preserving undo_writes_frame part_to_frame [OF flush_log_part] upd_txn_frame) (simp add: stamps_def)
  have fr: "txn_frame t = txn_frame s3" by (rule preservesD [OF p a [unfolded eq]])
  have fs: "concurrency_mode s3 = MVCC" "iter_order s3 = iter_order s" by (simp_all add: s3_def s2_def s1_def m)
  show "concurrency_mode t = MVCC" "iter_order t = iter_order s" using fr fs by (simp_all add: txn_frame_eq)
  have "txn_view_of s3 = (txn_view_of s)\<lparr>vw_txns := (vw_txns (txn_view_of s))(i \<mapsto> (txn_id t0, ABORTED, start_ts t0, commit_ts t0)),
      vw_aborted := insert (start_ts t0) (aborted_txns s)\<rparr>"
    by (simp add: s3_def s2_def s1_def txn_view_of_def stamps_def fun_eq_iff)
  then show "txn_view_of t = (txn_view_of s)\<lparr>vw_txns := (vw_txns (txn_view_of s))(i \<mapsto> (txn_id t0, ABORTED, start_ts t0, commit_ts t0)),
      vw_aborted := insert (start_ts t0) (aborted_txns s)\<rparr>"
    using fr by (simp add: txn_frame_eq)
qed

end
