(* ===== verification/Snapshots.thy ===== *)
theory Snapshots
  imports TxnRuns
begin

text \<open>
  Snapshot isolation over any run of the transaction manager in MVCC mode: what the visibility test
  \<open>IsCommittedBeforeReadTs\<close> and the conflict test of \<open>CheckWriteWriteConflict\<close> answer is read off the
  order in which transactions began and committed. The invariant is stated on \<open>txn_view\<close>, the part of the
  state that begin, commit and abort change; between them any work that keeps that part may happen.
\<close>

section \<open>Runs\<close>

datatype txn_event = EvBegin int | EvCommit int | EvAbort int

definition before :: "txn_event \<Rightarrow> txn_event \<Rightarrow> txn_event list \<Rightarrow> bool" where
  "before a b es \<longleftrightarrow> a \<in> set (takeWhile (\<lambda>e. e \<noteq> b) es)"

lemma before_snoc [simp]:
  "before a b (es @ [e]) \<longleftrightarrow> (if b \<in> set es then before a b es else a \<in> set es \<or> (a = e \<and> e \<noteq> b))"
proof (cases "b \<in> set es")
  case True
  then have "takeWhile (\<lambda>e. e \<noteq> b) (es @ [e]) = takeWhile (\<lambda>e. e \<noteq> b) es" by (intro takeWhile_append1) auto
  then show ?thesis using True by (simp add: before_def)
next
  case False
  then have "takeWhile (\<lambda>x. x \<noteq> b) es = es" by (auto simp: takeWhile_eq_all_conv)
  moreover have "takeWhile (\<lambda>x. x \<noteq> b) (es @ [e]) = es @ takeWhile (\<lambda>x. x \<noteq> b) [e]"
    using False by (intro takeWhile_append2) auto
  ultimately show ?thesis using False by (auto simp: before_def)
qed

inductive txn_run :: "'a txnm_scheme \<Rightarrow> txn_event list \<Rightarrow> 'a txnm_scheme \<Rightarrow> bool" for s0 where
  run_init: "txn_run s0 [] s0"
| run_begin: "txn_run s0 es s \<Longrightarrow> txnm_begin jm jt None s = (Inr i, t) \<Longrightarrow> txn_run s0 (es @ [EvBegin i]) t"
| run_commit: "txn_run s0 es s \<Longrightarrow> txn_heap s i = Some x \<Longrightarrow> is_active (txn_state x) \<Longrightarrow>
    txnm_commit (Some i) s = (Inr (), t) \<Longrightarrow> txn_run s0 (es @ [EvCommit i]) t"
| run_abort: "txn_run s0 es s \<Longrightarrow> txn_heap s i = Some x \<Longrightarrow> is_active (txn_state x) \<Longrightarrow>
    txnm_abort ddl i s = (Inr (), t) \<Longrightarrow> txn_run s0 (es @ [EvAbort i]) t"
| run_work: "txn_run s0 es s \<Longrightarrow> txn_frame t = txn_frame s \<Longrightarrow> txn_run s0 es t"

lemma before_mem: "before a b es \<Longrightarrow> a \<in> set es"
  by (auto simp: before_def dest: set_takeWhileD)

text \<open>The manager as its constructor leaves it. A new database begins with timestamp 0, one that was open before with a
  later one.\<close>

definition fresh_manager :: "'a txnm_scheme \<Rightarrow> bool" where
  "fresh_manager s \<longleftrightarrow> concurrency_mode s = MVCC \<and> txn_heap s = Map.empty \<and> txn_map s = {} \<and> 0 \<le> next_timestamp s \<and>
     committed_txns s = {} \<and> aborted_txns s = {} \<and> (\<forall>S. finite S \<longrightarrow> set (iter_order s S) = S)"

section \<open>The invariant\<close>

definition entry_ok :: "txn_event list \<Rightarrow> txn_view \<Rightarrow> int \<Rightarrow> int \<times> TransactionState \<times> int \<times> int \<Rightarrow> bool" where
  "entry_ok es v i e = (case e of (k, st, a, c) \<Rightarrow>
     k = i \<and> i < vw_id v \<and> i \<in> vw_map v \<and> EvBegin i \<in> set es \<and> 0 \<le> a \<and> a < vw_next v \<and> a \<notin> vw_committed v \<and>
     (a \<in> vw_aborted v \<longleftrightarrow> st = ABORTED) \<and> (EvCommit i \<in> set es \<longleftrightarrow> st = COMMITTED) \<and>
     (st = COMMITTED \<longrightarrow> a < c \<and> c < vw_next v \<and> c \<in> vw_committed v \<and> c \<notin> vw_aborted v))"

definition pair_ok ::
  "txn_event list \<Rightarrow> int \<Rightarrow> int \<Rightarrow> int \<times> TransactionState \<times> int \<times> int \<Rightarrow> int \<times> TransactionState \<times> int \<times> int \<Rightarrow> bool" where
  "pair_ok es i j e e' = (case e of (k, st, a, c) \<Rightarrow> case e' of (k', st', a', c') \<Rightarrow>
     (a = a' \<longrightarrow> i = j) \<and> (a < a' \<longleftrightarrow> before (EvBegin i) (EvBegin j) es) \<and>
     (st = COMMITTED \<longrightarrow> c \<noteq> a' \<and> (c < a' \<longleftrightarrow> before (EvCommit i) (EvBegin j) es)))"

definition view_ok :: "txn_event list \<Rightarrow> txn_view \<Rightarrow> bool" where
  "view_ok es v \<longleftrightarrow>
     (\<forall>i e. vw_txns v i = Some e \<longrightarrow> entry_ok es v i e) \<and>
     (\<forall>i j e e'. vw_txns v i = Some e \<longrightarrow> vw_txns v j = Some e' \<longrightarrow> pair_ok es i j e e') \<and>
     vw_map v = dom (vw_txns v) \<and> finite (vw_map v) \<and> 0 \<le> vw_next v \<and>
     (\<forall>i. EvBegin i \<in> set es \<or> EvCommit i \<in> set es \<longrightarrow> i \<in> vw_map v) \<and>
     (\<forall>ts. ts \<in> vw_committed v \<or> ts \<in> vw_aborted v \<longrightarrow> ts < vw_next v)"

lemma view_okD:
  assumes "view_ok es v"
  shows view_ok_entry: "vw_txns v i = Some e \<Longrightarrow> entry_ok es v i e"
    and view_ok_pair: "vw_txns v i = Some e \<Longrightarrow> vw_txns v j = Some e' \<Longrightarrow> pair_ok es i j e e'"
    and view_ok_dom: "vw_map v = dom (vw_txns v)" and view_ok_finite: "finite (vw_map v)" and view_ok_next: "0 \<le> vw_next v"
    and view_ok_event: "EvBegin i \<in> set es \<or> EvCommit i \<in> set es \<Longrightarrow> i \<in> vw_map v"
    and view_ok_limit: "ts \<in> vw_committed v \<or> ts \<in> vw_aborted v \<Longrightarrow> ts < vw_next v"
  using assms unfolding view_ok_def by blast+

lemma view_ok_init:
  "vw_txns v = Map.empty \<Longrightarrow> vw_map v = {} \<Longrightarrow> vw_committed v = {} \<Longrightarrow> vw_aborted v = {} \<Longrightarrow> 0 \<le> vw_next v \<Longrightarrow>
     view_ok [] v"
  by (simp add: view_ok_def)

lemma view_ok_begin:
  assumes v: "view_ok es v" and w: "w = v\<lparr>vw_txns := (vw_txns v)(vw_id v \<mapsto> (vw_id v, DEFAULT, vw_next v, INVALID_TS)),
     vw_map := insert (vw_id v) (vw_map v), vw_id := vw_id v + 1, vw_next := vw_next v + 1\<rparr>"
  shows "view_ok (es @ [EvBegin (vw_id v)]) w"
proof -
  let ?n = "vw_id v"
  have new: "?n \<notin> vw_map v"
    using view_ok_entry [OF v] view_ok_dom [OF v] by (fastforce simp: entry_ok_def)
  have ev: "EvBegin i \<in> set es \<or> EvCommit i \<in> set es \<Longrightarrow> i \<noteq> ?n" for i using view_ok_event [OF v] new by blast
  have lim: "ts \<in> vw_committed v \<or> ts \<in> vw_aborted v \<Longrightarrow> ts \<noteq> vw_next v" for ts using view_ok_limit [OF v] by blast
  have w': "vw_committed w = vw_committed v" "vw_aborted w = vw_aborted v" "vw_next w = vw_next v + 1" "vw_id w = ?n + 1"
    "vw_map w = insert ?n (vw_map v)" by (simp_all add: w)
  have tx: "vw_txns w i = (if i = ?n then Some (?n, DEFAULT, vw_next v, INVALID_TS) else vw_txns v i)" for i by (simp add: w)
  have one: "entry_ok (es @ [EvBegin ?n]) w i e" if i: "vw_txns w i = Some e" for i e
  proof (cases "i = ?n")
    case True
    then have "e = (?n, DEFAULT, vw_next v, INVALID_TS)" using i by (simp add: tx)
    then show ?thesis using True lim [of "vw_next v"] ev [of ?n] view_ok_next [OF v] by (auto simp: entry_ok_def w')
  next
    case False
    then have "entry_ok es v i e" using i view_ok_entry [OF v] by (simp add: tx)
    then show ?thesis using False by (auto simp: entry_ok_def w')
  qed
  have two: "pair_ok (es @ [EvBegin ?n]) i j e e'" if i: "vw_txns w i = Some e" and j: "vw_txns w j = Some e'" for i j e e'
  proof (cases "i = ?n \<or> j = ?n")
    case False
    then have "vw_txns v i = Some e" "vw_txns v j = Some e'" using i j by (simp_all add: tx)
    then have "pair_ok es i j e e'" "entry_ok es v j e'" using view_ok_pair [OF v] view_ok_entry [OF v] by blast+
    then show ?thesis by (auto simp: pair_ok_def entry_ok_def)
  next
    case True
    show ?thesis
    proof (cases "i = ?n")
      case True
      then have "e = (?n, DEFAULT, vw_next v, INVALID_TS)" using i by (simp add: tx)
      moreover have "\<not> before (EvBegin ?n) b es" for b using ev [of ?n] before_mem by blast
      ultimately show ?thesis using True j view_ok_entry [OF v, of j e'] by (auto simp: pair_ok_def entry_ok_def tx split: if_splits)
    next
      case False
      then have "entry_ok es v i e" using i view_ok_entry [OF v] by (simp add: tx)
      moreover have "j = ?n" "e' = (?n, DEFAULT, vw_next v, INVALID_TS)" using j False \<open>i = ?n \<or> j = ?n\<close> by (simp_all add: tx)
      ultimately show ?thesis using ev [of ?n] False by (auto simp: pair_ok_def entry_ok_def)
    qed
  qed
  show ?thesis
    unfolding view_ok_def
  proof (intro conjI allI impI)
    show "ts < vw_next w" if "ts \<in> vw_committed w \<or> ts \<in> vw_aborted w" for ts
      using that view_ok_limit [OF v, of ts] by (simp add: w')
    show "i \<in> vw_map w" if "EvBegin i \<in> set (es @ [EvBegin ?n]) \<or> EvCommit i \<in> set (es @ [EvBegin ?n])" for i
      using that view_ok_event [OF v, of i] by (auto simp: w')
    show "vw_map w = dom (vw_txns w)" "finite (vw_map w)" "0 \<le> vw_next w"
      using view_ok_dom [OF v] view_ok_finite [OF v] view_ok_next [OF v] by (auto simp: w)
  qed (use one two in blast)+
qed

text \<open>Committing and aborting replace one entry.\<close>

lemma view_ok_commit:
  assumes v: "view_ok es v" and i: "vw_txns v i = Some (k, st, a, c)" and act: "is_active st"
    and w: "w = v\<lparr>vw_txns := (vw_txns v)(i \<mapsto> (k, COMMITTED, a, vw_next v)), vw_next := vw_next v + 1,
       vw_committed := insert (vw_next v) (vw_committed v)\<rparr>"
  shows "view_ok (es @ [EvCommit i]) w"
proof -
  have ei: "entry_ok es v i (k, st, a, c)" by (rule view_ok_entry [OF v i])
  have ns: "st \<noteq> ABORTED" "st \<noteq> COMMITTED" using act by (auto simp: is_active_def)
  have lim: "vw_next v \<notin> vw_aborted v" using view_ok_limit [OF v, of "vw_next v"] by auto
  have w': "vw_committed w = insert (vw_next v) (vw_committed v)" "vw_aborted w = vw_aborted v" "vw_next w = vw_next v + 1"
    "vw_id w = vw_id v" "vw_map w = vw_map v" by (simp_all add: w)
  have tx: "vw_txns w j = (if j = i then Some (k, COMMITTED, a, vw_next v) else vw_txns v j)" for j by (simp add: w)
  have nc: "\<not> before (EvCommit i) b es" for b
    using ei ns by (auto simp: entry_ok_def before_def dest: set_takeWhileD)
  have one: "entry_ok (es @ [EvCommit i]) w j e" if j: "vw_txns w j = Some e" for j e
  proof (cases "j = i")
    case True
    then have "e = (k, COMMITTED, a, vw_next v)" using j by (simp add: tx)
    then show ?thesis using True ei ns lim by (auto simp: entry_ok_def w')
  next
    case False
    then have "entry_ok es v j e" using j view_ok_entry [OF v] by (simp add: tx)
    then show ?thesis using False by (auto simp: entry_ok_def w')
  qed
  have two: "pair_ok (es @ [EvCommit i]) j l e e'" if j: "vw_txns w j = Some e" and l: "vw_txns w l = Some e'" for j l e e'
  proof -
    obtain d where d: "vw_txns v j = Some d" "j \<noteq> i \<longrightarrow> d = e" "j = i \<longrightarrow> d = (k, st, a, c) \<and> e = (k, COMMITTED, a, vw_next v)"
      using j i by (cases "j = i") (auto simp: tx)
    obtain d' where d': "vw_txns v l = Some d'" "l \<noteq> i \<longrightarrow> d' = e'" "l = i \<longrightarrow> d' = (k, st, a, c) \<and> e' = (k, COMMITTED, a, vw_next v)"
      using l i by (cases "l = i") (auto simp: tx)
    have "pair_ok es j l d d'" "entry_ok es v l d'" using view_ok_pair [OF v d(1) d'(1)] view_ok_entry [OF v d'(1)] by blast+
    then show ?thesis using d(2,3) d'(2,3) ns nc
      by (cases "j = i"; cases "l = i"; cases d; cases d') (auto simp: pair_ok_def entry_ok_def)
  qed
  show ?thesis
    unfolding view_ok_def
  proof (intro conjI allI impI)
    show "ts < vw_next w" if "ts \<in> vw_committed w \<or> ts \<in> vw_aborted w" for ts
      using that view_ok_limit [OF v, of ts] by (auto simp: w')
    show "j \<in> vw_map w" if "EvBegin j \<in> set (es @ [EvCommit i]) \<or> EvCommit j \<in> set (es @ [EvCommit i])" for j
      using that view_ok_event [OF v, of j] view_ok_dom [OF v] i by (auto simp: w')
    show "vw_map w = dom (vw_txns w)" "finite (vw_map w)" "0 \<le> vw_next w"
      using view_ok_dom [OF v] view_ok_finite [OF v] view_ok_next [OF v] i by (auto simp: w)
  qed (use one two in blast)+
qed

lemma view_ok_abort:
  assumes v: "view_ok es v" and i: "vw_txns v i = Some (k, st, a, c)" and act: "is_active st"
    and w: "w = v\<lparr>vw_txns := (vw_txns v)(i \<mapsto> (k, ABORTED, a, c)), vw_aborted := insert a (vw_aborted v)\<rparr>"
  shows "view_ok (es @ [EvAbort i]) w"
proof -
  have ei: "entry_ok es v i (k, st, a, c)" by (rule view_ok_entry [OF v i])
  have ns: "st \<noteq> ABORTED" "st \<noteq> COMMITTED" using act by (auto simp: is_active_def)
  have w': "vw_committed w = vw_committed v" "vw_aborted w = insert a (vw_aborted v)" "vw_next w = vw_next v"
    "vw_id w = vw_id v" "vw_map w = vw_map v" by (simp_all add: w)
  have tx: "vw_txns w j = (if j = i then Some (k, ABORTED, a, c) else vw_txns v j)" for j by (simp add: w)
  have one: "entry_ok (es @ [EvAbort i]) w j e" if j: "vw_txns w j = Some e" for j e
  proof (cases "j = i")
    case True
    then have "e = (k, ABORTED, a, c)" using j by (simp add: tx)
    then show ?thesis using True ei ns by (auto simp: entry_ok_def w')
  next
    case False
    then have vj: "vw_txns v j = Some e" using j by (simp add: tx)
    then show ?thesis using view_ok_entry [OF v vj] view_ok_pair [OF v vj i] False by (auto simp: entry_ok_def pair_ok_def w')
  qed
  have two: "pair_ok (es @ [EvAbort i]) j l e e'" if j: "vw_txns w j = Some e" and l: "vw_txns w l = Some e'" for j l e e'
  proof -
    obtain d where d: "vw_txns v j = Some d" "j \<noteq> i \<longrightarrow> d = e" "j = i \<longrightarrow> d = (k, st, a, c) \<and> e = (k, ABORTED, a, c)"
      using j i by (cases "j = i") (auto simp: tx)
    obtain d' where d': "vw_txns v l = Some d'" "l \<noteq> i \<longrightarrow> d' = e'" "l = i \<longrightarrow> d' = (k, st, a, c) \<and> e' = (k, ABORTED, a, c)"
      using l i by (cases "l = i") (auto simp: tx)
    have "pair_ok es j l d d'" "entry_ok es v l d'" using view_ok_pair [OF v d(1) d'(1)] view_ok_entry [OF v d'(1)] by blast+
    then show ?thesis using d(2,3) d'(2,3) ns
      by (cases "j = i"; cases "l = i"; cases d; cases d') (auto simp: pair_ok_def entry_ok_def)
  qed
  show ?thesis
    unfolding view_ok_def
  proof (intro conjI allI impI)
    show "ts < vw_next w" if "ts \<in> vw_committed w \<or> ts \<in> vw_aborted w" for ts
      using that view_ok_limit [OF v, of ts] ei by (auto simp: w' entry_ok_def)
    show "j \<in> vw_map w" if "EvBegin j \<in> set (es @ [EvAbort i]) \<or> EvCommit j \<in> set (es @ [EvAbort i])" for j
      using that view_ok_event [OF v, of j] by (auto simp: w')
    show "vw_map w = dom (vw_txns w)" "finite (vw_map w)" "0 \<le> vw_next w"
      using view_ok_dom [OF v] view_ok_finite [OF v] view_ok_next [OF v] i by (auto simp: w)
  qed (use one two in blast)+
qed

text \<open>Every reachable manager satisfies the invariant.\<close>

definition manager_ok :: "txn_event list \<Rightarrow> 'a txnm_scheme \<Rightarrow> bool" where
  "manager_ok es s \<longleftrightarrow> view_ok es (txn_view_of s) \<and> concurrency_mode s = MVCC \<and> (\<forall>S. finite S \<longrightarrow> set (iter_order s S) = S)"

lemma view_of_sel [simp]:
  "vw_txns (txn_view_of s) i = map_option stamps (txn_heap s i)" "vw_map (txn_view_of s) = txn_map s"
  "vw_id (txn_view_of s) = next_txn_id s" "vw_next (txn_view_of s) = next_timestamp s"
  "vw_committed (txn_view_of s) = committed_txns s" "vw_aborted (txn_view_of s) = aborted_txns s"
  by (simp_all add: txn_view_of_def)

lemma run_manager_ok: "txn_run s0 es s \<Longrightarrow> fresh_manager s0 \<Longrightarrow> manager_ok es s"
proof (induction rule: txn_run.induct)
  case run_init
  then show ?case
    by (simp add: manager_ok_def fresh_manager_def view_ok_init fun_eq_iff)
next
  case (run_begin es s jm jt i t)
  then have m: "concurrency_mode s = MVCC" and v: "view_ok es (txn_view_of s)" by (simp_all add: manager_ok_def)
  obtain u where u: "txnm_begin jm jt None s = (Inr (next_txn_id s), u)" "concurrency_mode u = MVCC" "iter_order u = iter_order s"
    "txn_view_of u = (txn_view_of s)\<lparr>vw_txns := (vw_txns (txn_view_of s))(next_txn_id s \<mapsto>
        (next_txn_id s, DEFAULT, next_timestamp s, INVALID_TS)),
      vw_map := insert (next_txn_id s) (txn_map s), vw_id := next_txn_id s + 1, vw_next := next_timestamp s + 1\<rparr>"
    using begin_effect [OF m] by blast
  then have "t = u" "i = next_txn_id s" using run_begin.hyps by simp_all
  then show ?case using view_ok_begin [OF v, of "txn_view_of u"] u run_begin by (simp add: manager_ok_def)
next
  case (run_commit es s i x t)
  then have m: "concurrency_mode s = MVCC" and v: "view_ok es (txn_view_of s)" by (simp_all add: manager_ok_def)
  note e = commit_effect [OF m run_commit.hyps(2) run_commit.hyps(4)]
  have x: "vw_txns (txn_view_of s) i = Some (txn_id x, txn_state x, start_ts x, commit_ts x)"
    using run_commit.hyps(2) by (simp add: stamps_def)
  show ?case using view_ok_commit [OF v x run_commit.hyps(3), of "txn_view_of t"] e run_commit by (simp add: manager_ok_def)
next
  case (run_abort es s i x ddl t)
  then have m: "concurrency_mode s = MVCC" and v: "view_ok es (txn_view_of s)" by (simp_all add: manager_ok_def)
  note e = abort_effect [OF m run_abort.hyps(2) run_abort.hyps(4)]
  have x: "vw_txns (txn_view_of s) i = Some (txn_id x, txn_state x, start_ts x, commit_ts x)"
    using run_abort.hyps(2) by (simp add: stamps_def)
  show ?case using view_ok_abort [OF v x run_abort.hyps(3), of "txn_view_of t"] e run_abort by (simp add: manager_ok_def)
next
  case (run_work es s t)
  then show ?case by (simp add: manager_ok_def txn_frame_eq)
qed

section \<open>Looking transactions up by their stamp\<close>

lemma manager_okD:
  assumes "manager_ok es s"
  shows manager_entry: "txn_heap s i = Some x \<Longrightarrow> entry_ok es (txn_view_of s) i (stamps x)"
    and manager_pair: "txn_heap s i = Some x \<Longrightarrow> txn_heap s j = Some y \<Longrightarrow> pair_ok es i j (stamps x) (stamps y)"
    and manager_dom: "txn_map s = dom (txn_heap s)" and manager_order: "set (iter_order s (txn_map s)) = txn_map s"
proof -
  have v: "view_ok es (txn_view_of s)" and o: "finite S \<Longrightarrow> set (iter_order s S) = S" for S
    using assms by (simp_all add: manager_ok_def)
  show "txn_heap s i = Some x \<Longrightarrow> entry_ok es (txn_view_of s) i (stamps x)" using view_ok_entry [OF v, of i] by simp
  show "txn_heap s i = Some x \<Longrightarrow> txn_heap s j = Some y \<Longrightarrow> pair_ok es i j (stamps x) (stamps y)"
    using view_ok_pair [OF v, of i _ j] by simp
  show "txn_map s = dom (txn_heap s)" using view_ok_dom [OF v] by (simp add: dom_def)
  show "set (iter_order s (txn_map s)) = txn_map s" using view_ok_finite [OF v] by (intro o) simp
qed

lemma find_timestamp_eq:
  "set xs \<subseteq> dom (txn_heap s) \<Longrightarrow> find_timestamp ts xs s = (Inr (find (\<lambda>i. start_ts (the (txn_heap s i)) = ts) xs), s)"
  by (induction xs) (auto simp: bindE_apply txn_at_def)

lemma by_timestamp_none:
  assumes m: "manager_ok es s" and n: "\<And>i x. txn_heap s i = Some x \<Longrightarrow> start_ts x \<noteq> ts"
  shows "get_transaction_by_timestamp ts s = (Inr None, s)"
proof -
  have set: "set (iter_order s (txn_map s)) = dom (txn_heap s)" using manager_order [OF m] manager_dom [OF m] by simp
  then have "find (\<lambda>i. start_ts (the (txn_heap s i)) = ts) (iter_order s (txn_map s)) = None"
    using n by (fastforce simp: find_None_iff)
  then show ?thesis
    using set by (simp add: get_transaction_by_timestamp_def find_timestamp_eq bindE_apply)
qed

lemma by_timestamp_start:
  assumes m: "manager_ok es s" and i: "txn_heap s i = Some x"
  shows "get_transaction_by_timestamp (start_ts x) s = (Inr (Some i), s)"
proof -
  let ?P = "\<lambda>i. start_ts (the (txn_heap s i)) = start_ts x"
  have set: "set (iter_order s (txn_map s)) = dom (txn_heap s)" using manager_order [OF m] manager_dom [OF m] by simp
  then have "find ?P (iter_order s (txn_map s)) \<noteq> None" using i by (auto simp: find_None_iff)
  then obtain j where j: "find ?P (iter_order s (txn_map s)) = Some j" by auto
  then obtain y where y: "txn_heap s j = Some y" "start_ts y = start_ts x"
    using set by (auto simp: find_Some_iff) (metis domD nth_mem option.sel)
  then have "j = i" using manager_pair [OF m y(1) i] by (simp add: pair_ok_def stamps_def)
  then show ?thesis
    using j set by (simp add: get_transaction_by_timestamp_def find_timestamp_eq bindE_apply)
qed

lemma by_timestamp_commit:
  assumes m: "manager_ok es s" and i: "txn_heap s i = Some x" "txn_state x = COMMITTED"
  shows "get_transaction_by_timestamp (commit_ts x) s = (Inr None, s)"
  using manager_pair [OF m i(1)] i(2) by (intro by_timestamp_none [OF m]) (fastforce simp: pair_ok_def stamps_def)

lemmas stamp_facts = entry_ok_def pair_ok_def stamps_def

section \<open>Visibility\<close>

lemma commit_stamp_visible:
  assumes m: "manager_ok es s" and i: "txn_heap s i = Some x" and c: "txn_state x = COMMITTED" and j: "txn_heap s j = Some y"
  shows "IsCommittedBeforeReadTs (commit_ts x) (start_ts y) s = (Inr (before (EvCommit i) (EvBegin j) es), s)"
  using manager_entry [OF m i] manager_pair [OF m i j] c
  by (auto simp: IsCommittedBeforeReadTs_def bindE_apply stamp_facts)

lemma start_stamp_visible:
  assumes m: "manager_ok es s" and i: "txn_heap s i = Some x" and j: "txn_heap s j = Some y"
  shows "IsCommittedBeforeReadTs (start_ts x) (start_ts y) s =
    (Inr (start_ts x = 0 \<or> before (EvBegin i) (EvBegin j) es \<and> EvCommit i \<in> set es), s)"
  using manager_entry [OF m i] manager_pair [OF m i j]
  by (auto simp: IsCommittedBeforeReadTs_def bindE_apply stamp_facts by_timestamp_start [OF m i] txn_at_eq [OF i])

text \<open>A read of the chain never fails, whatever the stamp.\<close>

lemma by_timestamp_ok:
  assumes m: "manager_ok es s"
  obtains i x where "txn_heap s i = Some x" and "get_transaction_by_timestamp ts s = (Inr (Some i), s)"
  | "get_transaction_by_timestamp ts s = (Inr None, s)"
  using by_timestamp_start [OF m] by_timestamp_none [OF m] by metis

lemma visible_ok:
  assumes m: "manager_ok es s"
  obtains b where "IsCommittedBeforeReadTs ts a s = (Inr b, s)"
proof -
  have "\<exists>b. IsCommittedBeforeReadTs ts a s = (Inr b, s)"
    by (rule by_timestamp_ok [OF m, of ts]) (auto simp: IsCommittedBeforeReadTs_def bindE_apply txn_at_eq)
  then show ?thesis using that by blast
qed

lemma committed_ok:
  assumes m: "manager_ok es s"
  obtains b where "IsCommitted ts s = (Inr b, s)"
proof -
  have "\<exists>b. IsCommitted ts s = (Inr b, s)"
    by (rule by_timestamp_ok [OF m, of ts]) (auto simp: IsCommitted_def bindE_apply txn_at_eq)
  then show ?thesis using that by blast
qed

lemma manager_ok_frame: "manager_ok es s \<Longrightarrow> txn_frame t = txn_frame s \<Longrightarrow> manager_ok es t"
  by (simp add: manager_ok_def txn_frame_eq)

text \<open>The manager of the witnesses: 0 and 1 begin, 0 commits, 2 begins, all on an empty database.\<close>

definition demo_manager :: txnm where
  "demo_manager = txnm_init sorted_list_of_set MVCC 1 0 demo_db"

lemma demo_manager_sel [simp]:
  "txn_heap demo_manager = Map.empty" "txn_map demo_manager = {}" "iter_order demo_manager = sorted_list_of_set"
  "next_txn_id demo_manager = 0" "next_timestamp demo_manager = 1" "committed_txns demo_manager = {}" "aborted_txns demo_manager = {}"
  "concurrency_mode demo_manager = MVCC" "log_offset demo_manager = 0" "last_commit_ts demo_manager = 0" "this_thread demo_manager = 0"
  "running_txns demo_manager = watermark_init 0" "file_hdrs demo_manager = file_hdrs demo_db" "fhs demo_manager = fhs demo_db"
  by (simp_all add: demo_manager_def txnm_init_def dbs.defs txnm.defs)

lemma demo_fresh: "fresh_manager demo_manager"
  by (simp add: fresh_manager_def)

definition demo1 :: txnm where "demo1 = snd (txnm_begin False 0 None demo_manager)"
definition demo2 :: txnm where "demo2 = snd (txnm_begin False 0 None demo1)"
definition demo3 :: txnm where "demo3 = snd (txnm_commit (Some 0) demo2)"
definition demo4 :: txnm where "demo4 = snd (txnm_begin False 0 None demo3)"

lemmas begin_defs = txnm_begin_def alloc_txn_def upd_txn_def put_txn_def txn_at_def next_ts_def register_txn_def new_Transaction_def
lemmas commit_defs = txnm_commit_def UpdateCommitTimestamp_def restamp_logs_def clear_sets_def flush_log_to_disk_def write_out_def

definition demo_txn :: "int \<Rightarrow> transaction" where
  "demo_txn i = (new_Transaction True (i + 1) 0 i)"

lemma demo2_begins: "txn_run demo_manager [EvBegin 0, EvBegin 1] demo2"
proof -
  have "txnm_begin False 0 None demo_manager = (Inr 0, demo1)"
    unfolding demo1_def by (simp add: begin_defs bindE_apply Let_def)
  then have 1: "txn_run demo_manager [EvBegin 0] demo1" using run_begin [OF run_init] by fastforce
  have "txnm_begin False 0 None demo1 = (Inr 1, demo2)"
    unfolding demo2_def demo1_def by (simp add: begin_defs bindE_apply Let_def)
  then show ?thesis using run_begin [OF 1] by fastforce
qed

lemma demo2_heap: "txn_heap demo2 0 = Some (demo_txn 0)" "txn_heap demo2 1 = Some (demo_txn 1)"
  unfolding demo2_def demo1_def by (simp_all add: begin_defs bindE_apply Let_def demo_txn_def)

lemma demo4_run: "txn_run demo_manager [EvBegin 0, EvBegin 1, EvCommit 0, EvBegin 2] demo4"
proof -
  have "txnm_commit (Some 0) demo2 = (Inr (), demo3)"
    unfolding demo3_def demo2_def demo1_def by (simp add: begin_defs commit_defs bindE_apply Let_def)
  then have 3: "txn_run demo_manager [EvBegin 0, EvBegin 1, EvCommit 0] demo3"
    using run_commit [OF demo2_begins demo2_heap(1)] by (fastforce simp: demo_txn_def new_Transaction_def is_active_def)
  have "txnm_begin False 0 None demo3 = (Inr 2, demo4)"
    unfolding demo4_def demo3_def demo2_def demo1_def by (simp add: begin_defs commit_defs bindE_apply Let_def)
  then show ?thesis using run_begin [OF 3] by fastforce
qed

lemma demo4_heap:
  "txn_heap demo4 0 = Some ((demo_txn 0)\<lparr>txn_state := COMMITTED, commit_ts := 3\<rparr>)"
  "txn_heap demo4 1 = Some (demo_txn 1)" "txn_heap demo4 2 = Some ((demo_txn 2)\<lparr>start_ts := 4\<rparr>)"
  unfolding demo4_def demo3_def demo2_def demo1_def
  by (simp_all add: begin_defs commit_defs bindE_apply Let_def demo_txn_def)

text \<open>C16: In every state that begin, commit, abort and any work between them lead to, the stamp a committed
  transaction left is visible to a reader exactly if the commit happened before the reader began. What later
  transactions do does not change the answer. (\<open>begin_read_only_snapshot\<close> is not among the steps; the server does not
  reach its call, because it looks at the statement before it is parsed.)\<close>

theorem snapshot_visibility:
  assumes "txn_run s0 es s" and "fresh_manager s0" and "txn_heap s i = Some x" and "txn_state x = COMMITTED"
    and "txn_heap s j = Some y"
  shows "IsCommittedBeforeReadTs (commit_ts x) (start_ts y) s = (Inr (before (EvCommit i) (EvBegin j) es), s)"
  by (rule commit_stamp_visible [OF run_manager_ok]) fact+

theorem snapshot_visibility_witness:
  "IsCommittedBeforeReadTs 3 2 demo4 = (Inr False, demo4) \<and> IsCommittedBeforeReadTs 3 4 demo4 = (Inr True, demo4)"
  using snapshot_visibility [OF demo4_run demo_fresh demo4_heap(1) _ demo4_heap(2)]
    snapshot_visibility [OF demo4_run demo_fresh demo4_heap(1) _ demo4_heap(3)]
  by (simp add: before_def demo_txn_def new_Transaction_def)



section \<open>Conflicts\<close>

text \<open>The part of the conflict test behind its early returns, against the stamp of another transaction.\<close>

lemma conflict_with_other:
  assumes m: "manager_ok es s" and i: "txn_heap s i = Some x" and j: "txn_heap s j = Some y"
    and ij: "i \<noteq> j" and act: "is_active (txn_state y)"
    and ts: "ts = start_ts x \<or> (txn_state x = COMMITTED \<and> ts = commit_ts x)" and nz: "ts \<noteq> 0"
  shows "conflict_with ts j s =
    (Inr (is_active (txn_state x) \<or> (EvCommit i \<in> set es \<and> \<not> before (EvCommit i) (EvBegin j) es)), s)"
proof -
  note e = manager_entry [OF m i] manager_pair [OF m i j]
  have y: "txn_state y \<noteq> ABORTED" using act by (auto simp: is_active_def)
  note c = conflict_with_def bindE_apply txn_at_eq [OF j] is_active_def stamp_facts Let_def
  show ?thesis
  proof (cases "ts = start_ts x")
    case True
    then have ne: "ts \<noteq> start_ts y" using e(2) ij by (simp add: stamp_facts)
    have ic: "txn_state x = COMMITTED \<Longrightarrow> IsCommitted ts s = (Inr True, s)"
      using e(1) True by (simp add: IsCommitted_def bindE_apply stamp_facts by_timestamp_start [OF m i] txn_at_eq [OF i])
    show ?thesis
      using e ne ic y ij True
      by (cases "txn_state x") (auto simp: c by_timestamp_start [OF m i] txn_at_eq [OF i])
  next
    case False
    then have x: "txn_state x = COMMITTED" "ts = commit_ts x" using ts by simp_all
    have ne: "ts \<noteq> start_ts y" using e(2) x by (simp add: stamp_facts)
    obtain b where b: "IsCommitted ts s = (Inr b, s)" by (rule committed_ok [OF m])
    show ?thesis using e x ne y b by (auto simp: c by_timestamp_commit [OF m i])
  qed
qed

end
