(* ===== verification/VersionHistory.thy ===== *)
theory VersionHistory
  imports Snapshots
begin

text \<open>
  Reading a record in MVCC mode: the walk over a version chain stops at the first version its reader may
  see; \<open>get_record_mvcc\<close> combines the stamp in the record with that walk; and what is left when no version of
  the chain may be seen.
\<close>

section \<open>The walk\<close>

inductive version_chain :: "'a txnm_scheme \<Rightarrow> undo_link \<Rightarrow> undo_log list \<Rightarrow> bool" for s where
  chain_end: "fst (GetUndoLogOptional link s) = Inr None \<Longrightarrow> version_chain s link []"
| chain_step: "fst (GetUndoLogOptional link s) = Inr (Some l) \<Longrightarrow> version_chain s (prev_version l) ls \<Longrightarrow>
    version_chain s link (l # ls)"

text \<open>What a reader that began at \<open>start\<close> may see, and the bytes it gets.\<close>

definition version_visible :: "int \<Rightarrow> 'a txnm_scheme \<Rightarrow> undo_log \<Rightarrow> bool" where
  "version_visible start s l \<longleftrightarrow>
     (undo_ts l = 0 \<or> undo_ts l = start \<or>
      (undo_ts l < start \<and> fst (IsCommittedBeforeReadTs (undo_ts l) start s) = Inr True)) \<and>
     (undo_deleted l \<or> undo_tuple l \<noteq> [])"

definition version_bytes :: "rm_file_hdr \<Rightarrow> undo_log \<Rightarrow> byte list option" where
  "version_bytes h l =
     (if undo_deleted l then None
      else Some (mem_read (put_fields (record_size h - sizeof_TupleMeta) 0
             (take (min (length (undo_tuple l)) (length (modified_fields l))) (undo_tuple l)) zero_mem)
           0 (nat (record_size h - sizeof_TupleMeta))))"

lemma visit_version_eq:
  assumes m: "manager_ok es s" and h: "sizeof_TupleMeta \<le> record_size h"
  shows "visit_version h start l s = (Inr (if version_visible start s l then Some (version_bytes h l) else None), s)"
proof -
  obtain b where b: "IsCommittedBeforeReadTs (undo_ts l) start s = (Inr b, s)" by (rule visible_ok [OF m])
  show ?thesis
    using h by (simp add: visit_version_def version_visible_def version_bytes_def Let_def ReconstructTupleFromUndoLog_def
        bindE_apply new_record_def b)
qed

lemma walk_chain_spec:
  assumes m: "manager_ok es s" and h: "sizeof_TupleMeta \<le> record_size h" and c: "version_chain s link ls"
  shows "walk_chain h start s link = Some (Inr (map_option (version_bytes h) (find (version_visible start s) ls)))"
  using c
proof (induction rule: version_chain.induct)
  case (chain_end link)
  then show ?case by (simp add: walk_chain.simps)
next
  case (chain_step link l ls)
  then show ?case by (simp add: walk_chain.simps visit_version_eq [OF m h])
qed

section \<open>Reading does not touch the transactions\<close>

lemma only_file_part: "only_file fd s t \<Longrightarrow> txn_part t = txn_part s"
  by (simp add: only_file_def txn_part_def)

lemma part_sel:
  fixes s t :: "'a txnm_scheme"
  assumes "txn_part t = txn_part s"
  shows "txn_heap t = txn_heap s" "txn_map t = txn_map s" "iter_order t = iter_order s" "version_info t = version_info s"
    "next_timestamp t = next_timestamp s" "running_txns t = running_txns s" "aborted_txns t = aborted_txns s"
    "committed_txns t = committed_txns s" "this_thread t = this_thread s" "concurrency_mode t = concurrency_mode s"
  using assms by (cases s, cases t, simp add: txn_part_def)+

lemma undo_log_part:
  fixes s t :: "'a txnm_scheme"
  assumes "txn_part t = txn_part s"
  shows "fst (GetUndoLogOptional link t) = fst (GetUndoLogOptional link s)"
proof -
  note e = part_sel [OF assms]
  show ?thesis
    by (cases "txn_heap s (prev_txn link)")
      (simp_all add: GetUndoLogOptional_def get_transaction_def bindE_apply txn_at_def assertE_def txn_GetUndoLog_def e)
qed

lemma version_chain_part:
  assumes "txn_part t = txn_part s" and "version_chain s link ls"
  shows "version_chain t link ls"
  using assms(2) undo_log_part [OF assms(1)]
  by (induction rule: version_chain.induct) (metis chain_end, metis chain_step)

lemma find_timestamp_part:
  fixes s t :: "'a txnm_scheme"
  assumes "txn_part t = txn_part s"
  shows "find_timestamp ts xs t = (fst (find_timestamp ts xs s), t)" and "snd (find_timestamp ts xs s) = s"
proof -
  note e = part_sel [OF assms]
  show "find_timestamp ts xs t = (fst (find_timestamp ts xs s), t)"
    by (induction xs) (auto simp: bindE_apply txn_at_def e split: option.splits)
  show "snd (find_timestamp ts xs s) = s"
    by (induction xs) (auto simp: bindE_apply txn_at_def split: option.splits)
qed

lemma visible_part:
  fixes s t :: "'a txnm_scheme"
  assumes p: "txn_part t = txn_part s"
  shows "fst (IsCommittedBeforeReadTs ts a t) = fst (IsCommittedBeforeReadTs ts a s)"
proof -
  note e = part_sel [OF p]
  obtain r where r: "get_transaction_by_timestamp ts s = (r, s)" "get_transaction_by_timestamp ts t = (r, t)"
    using find_timestamp_part [OF p, of ts "iter_order s (txn_map s)"]
    by (simp add: get_transaction_by_timestamp_def bindE_apply e) (metis prod.collapse)
  show ?thesis
    by (cases r) (auto simp: IsCommittedBeforeReadTs_def bindE_apply r e txn_at_def txnm_GetWatermark_def split: option.splits)
qed

lemma version_visible_part: "txn_part t = txn_part s \<Longrightarrow> version_visible start t = version_visible start s"
  by (rule ext) (simp only: version_visible_def visible_part [of t s])

section \<open>The record in the file\<close>

text \<open>\<open>stamped raw s\<close>: the header of the record reads as a version header.\<close>

definition stamped :: "byte list \<Rightarrow> 'a txnm_scheme \<Rightarrow> bool" where
  "stamped raw s \<longleftrightarrow> 1 \<le> meta_ts (meta_of_bytes raw) \<and> meta_ts (meta_of_bytes raw) \<le> next_timestamp s + 1000"

text \<open>\<open>plausible raw s\<close>: the header is one that \<open>get_record_mvcc\<close> believes.\<close>

definition plausible :: "byte list \<Rightarrow> 'a txnm_scheme \<Rightarrow> bool" where
  "plausible raw s \<longleftrightarrow> 0 \<le> meta_ts (meta_of_bytes raw) \<and> meta_ts (meta_of_bytes raw) \<le> next_timestamp s + 1000"

lemma plausible_stamped: "plausible raw s \<Longrightarrow> meta_ts (meta_of_bytes raw) \<noteq> 0 \<Longrightarrow> stamped raw s"
  by (simp add: plausible_def stamped_def)

lemma plausible_reasonable: "plausible raw s \<Longrightarrow> reasonable_ts (meta_of_bytes raw) (next_timestamp s)"
  by (auto simp: plausible_def reasonable_ts_def)

lemma stamped_shown: "stamped raw s \<Longrightarrow> shown False raw = drop 16 raw"
  by (simp add: stamped_def shown_def looks_stamped_def meta_of_bytes_def)

lemma sizeof_meta_16 [simp]: "sizeof_TupleMeta = 16"
  by (simp add: sizeof_TupleMeta_def)

lemma meta_take: "16 \<le> length raw \<Longrightarrow> meta_of_bytes (take 16 raw) = meta_of_bytes raw"
  by (simp add: meta_of_bytes_def min_def)

lemma ctx_mvcc_Some: "ctx_txn c = Some j \<Longrightarrow> ctx_txn_mgr c \<Longrightarrow> concurrency_mode s = MVCC \<Longrightarrow> ctx_mvcc (Some c) s"
  by (simp add: ctx_mvcc_def)

lemma mvcc_read_spec:
  fixes s :: "'a txnm_scheme"
  assumes ok: "rm_ok fd s" and h: "file_hdrs s fd = Some h" and r: "table fd s r = Some raw" and w: "16 \<le> record_size h"
    and c: "ctx_txn c = Some j" "ctx_txn_mgr c" "concurrency_mode s = MVCC" and st: "plausible raw s"
  obtains u where "unchanged fd s u" and "txn_part u = txn_part s"
    and "get_record_mvcc fd r (Some c) s =
      choose_version j (meta_of_bytes raw) (drop 16 raw) (GetVisibleVersionFromHistory fd r j) u"
proof -
  note l = table_length [OF ok h r]
  obtain f t u where t: "fetch_page_handle fd (rid_page_no r) s = (Inr (Some f), t)" "file_hdrs t fd = Some h"
    "page_trunc (page_mem f t) = rm_page fd (rid_page_no r) s" "only_file fd s t"
    and u: "unpin_frame f False t = (Inr (), u)" "unchanged fd s u"
    by (rule peek_spec [OF ok h l(2)])
  have raw: "mem_read (page_mem f t) (get_slot h (rid_slot_no r)) (nat (record_size h)) = raw"
    using slot_bytes_view [OF l(4,3) t(3)] table_raw [OF r] by (simp add: raw_slot_def h)
  have nt: "next_timestamp t = next_timestamp s" using part_sel [OF only_file_part [OF t(4)]] by simp
  have len: "16 \<le> length raw" "16 \<le> nat (record_size h)" using l(1) w by simp_all
  then have meta: "meta_of_bytes (take 16 raw) = meta_of_bytes raw" using len by (simp add: meta_take)
  have rea: "reasonable_ts (meta_of_bytes raw) (next_timestamp s)" by (rule plausible_reasonable [OF st])
  have "get_record_mvcc fd r (Some c) s =
      choose_version j (meta_of_bytes raw) (drop 16 raw) (GetVisibleVersionFromHistory fd r j) u"
    using w len by (simp add: get_record_mvcc_def bindE_apply ctx_mvcc_Some [OF c] c(1) t(1) fh_hdr_eq [OF t(2)] new_record_def raw u(1)
        read_meta_def memcpy_from_def meta nt rea data_part_def Let_def)
  then show ?thesis using that u(2) only_file_part [OF unchangedD(2) [OF u(2)]] by blast
qed

text \<open>The conflict test reads the header in the same way.\<close>

lemma conflict_read_spec:
  fixes s :: "'a txnm_scheme"
  assumes ok: "rm_ok fd s" and h: "file_hdrs s fd = Some h" and r: "table fd s r = Some raw" and w: "16 \<le> record_size h"
    and c: "ctx_txn c = Some j" "ctx_txn_mgr c" "concurrency_mode s = MVCC" and st: "plausible raw s"
  obtains u where "unchanged fd s u" and "txn_part u = txn_part s"
    and "CheckWriteWriteConflict fd r (Some c) s =
      (if meta_ts (meta_of_bytes raw) = 0 then ret False else conflict_with (meta_ts (meta_of_bytes raw)) j) u"
proof -
  note l = table_length [OF ok h r]
  obtain f t u where t: "fetch_page_handle fd (rid_page_no r) s = (Inr (Some f), t)" "file_hdrs t fd = Some h"
    "page_trunc (page_mem f t) = rm_page fd (rid_page_no r) s" "only_file fd s t"
    and u: "unpin_frame f False t = (Inr (), u)" "unchanged fd s u"
    by (rule peek_spec [OF ok h l(2)])
  have raw: "mem_read (page_mem f t) (get_slot h (rid_slot_no r)) (nat (record_size h)) = raw"
    using slot_bytes_view [OF l(4,3) t(3)] table_raw [OF r] by (simp add: raw_slot_def h)
  have nt: "next_timestamp t = next_timestamp s" using part_sel [OF only_file_part [OF t(4)]] by simp
  have len: "16 \<le> length raw" "16 \<le> nat (record_size h)" using l(1) w by simp_all
  have "mem_read (page_mem f t) (get_slot h (rid_slot_no r)) 16 = take 16 raw"
    using len(2) by (simp add: raw [symmetric] take_mem_read)
  then have meta: "meta_of_bytes (mem_read (page_mem f t) (get_slot h (rid_slot_no r)) 16) = meta_of_bytes raw"
    using len by (simp add: meta_take)
  have "CheckWriteWriteConflict fd r (Some c) s =
      (if meta_ts (meta_of_bytes raw) = 0 then ret False else conflict_with (meta_ts (meta_of_bytes raw)) j) u"
    by (simp add: CheckWriteWriteConflict_def bindE_apply ctx_mvcc_Some [OF c] c(1) t(1) fh_hdr_eq [OF t(2)] u(1)
        meta nt plausible_reasonable [OF st] Let_def)
  then show ?thesis using that u(2) only_file_part [OF unchangedD(2) [OF u(2)]] by blast
qed

text \<open>What is read when the chain has nothing to show: the record in the file, whoever wrote it.\<close>

lemma initial_version_spec:
  fixes s :: "'a txnm_scheme"
  assumes ok: "rm_ok fd s" and h: "file_hdrs s fd = Some h" and r: "table fd s r = Some raw" and w: "16 \<le> record_size h"
    and st: "stamped raw s"
  obtains u where "initial_version fd r start s = (Inr (Some (drop 16 raw)), u)" and "unchanged fd s u"
proof -
  note l = table_length [OF ok h r]
  have rr: "rid_in_file fd r s" "raw_slot fd r s = raw" using table_raw [OF r] by blast+
  obtain u where u: "get_record fd r None s = (Inr (Some (shown (ctx_mvcc None s) (raw_slot fd r s))), u)" "unchanged fd s u"
    by (rule get_record_spec [OF ok h rr(1)]) (use w in auto)
  have g: "get_record fd r None s = (Inr (Some (drop 16 raw)), u)"
    using u(1) rr(2) stamped_shown [OF st] by (simp add: ctx_mvcc_def)
  have hu: "file_hdrs u fd = Some h" using unchangedD(4) [OF u(2)] h by simp
  have "int (length (drop 16 raw)) = record_size h - 16" using l(1) w by simp
  then have "initial_version fd r start s = (Inr (Some (drop 16 raw)), u)"
    by (simp add: initial_version_def tryE_def bindE_apply g fh_hdr_eq [OF hu] Let_def initial_meta_def data_part_def)
  then show ?thesis using that u(2) by blast
qed

section \<open>Which version is read\<close>

lemma choose_unstamped: "meta_ts meta = 0 \<Longrightarrow> choose_version j meta data history s = (Inr (if meta_deleted meta then None else Some data), s)"
  by (simp add: choose_version_def)

lemma choose_visible:
  assumes "txn_heap s j = Some y" and "1 \<le> meta_ts meta"
    and "meta_ts meta = start_ts y \<or> IsCommittedBeforeReadTs (meta_ts meta) (start_ts y) s = (Inr True, s)"
  shows "choose_version j meta data history s = (Inr (if meta_deleted meta then None else Some data), s)"
proof -
  have "meta_ts meta < start_ts y" if "IsCommittedBeforeReadTs (meta_ts meta) (start_ts y) s = (Inr True, s)"
    using that assms(2) by (simp add: IsCommittedBeforeReadTs_def bindE_apply split: if_splits)
  then show ?thesis using assms by (auto simp: choose_version_def bindE_apply txn_at_eq)
qed

lemma choose_history:
  assumes m: "manager_ok es s" and "txn_heap s j = Some y" and "1 \<le> meta_ts meta" and "\<not> meta_deleted meta"
    and "meta_ts meta \<noteq> start_ts y" and "IsCommittedBeforeReadTs (meta_ts meta) (start_ts y) s = (Inr False, s)"
  shows "choose_version j meta data history s = history s"
proof -
  obtain b where "IsCommitted (meta_ts meta) s = (Inr b, s)" by (rule committed_ok [OF m])
  then show ?thesis using assms by (simp add: choose_version_def bindE_apply txn_at_eq)
qed

lemma choose_deleted:
  assumes m: "manager_ok es s" and i: "txn_heap s i = Some x" and j: "txn_heap s j = Some y" and "i \<noteq> j"
    and act: "is_active (txn_state x)" and meta: "meta_deleted meta" "meta_ts meta = start_ts x" and nz: "meta_ts meta \<noteq> 0"
  shows "choose_version j meta data history s = (Inl (TransactionAbortException j DEADLOCK_PREVENTION), s)"
proof -
  note e = manager_entry [OF m i] manager_entry [OF m j] manager_pair [OF m i j]
  have st: "txn_state x \<noteq> COMMITTED" "txn_state x \<noteq> ABORTED" using act by (auto simp: is_active_def)
  have v: "IsCommittedBeforeReadTs (start_ts x) (start_ts y) s = (Inr False, s)"
    using start_stamp_visible [OF m i j] e(1) st meta(2) nz by (simp add: stamp_facts)
  show ?thesis
    using e assms(4) st act v meta nz
    by (simp add: choose_version_def bindE_apply txn_at_eq [OF i] txn_at_eq [OF j] stamp_facts is_transaction_aborted_def
        by_timestamp_start [OF m i])
qed

lemma choose_history_deleted:
  assumes m: "manager_ok es s" and i: "txn_heap s i = Some x" and j: "txn_heap s j = Some y" and "1 \<le> meta_ts meta"
    and ts: "meta_ts meta = start_ts x \<and> \<not> is_active (txn_state x) \<or> txn_state x = COMMITTED \<and> meta_ts meta = commit_ts x"
    and ne: "meta_ts meta \<noteq> start_ts y" and v: "IsCommittedBeforeReadTs (meta_ts meta) (start_ts y) s = (Inr False, s)"
    and del: "meta_deleted meta"
  shows "choose_version j meta data history s = history s"
proof -
  have nz: "meta_ts meta \<noteq> 0" using assms(4) by simp
  show ?thesis
  proof (cases "meta_ts meta = start_ts x \<and> \<not> is_active (txn_state x)")
    case True
    then show ?thesis
      using nz ne v del by (simp add: choose_version_def bindE_apply txn_at_eq [OF i] txn_at_eq [OF j] by_timestamp_start [OF m i])
  next
    case False
    then have "txn_state x = COMMITTED" "meta_ts meta = commit_ts x" using ts by blast+
    then show ?thesis
      using nz ne v del by (simp add: choose_version_def bindE_apply txn_at_eq [OF j] by_timestamp_commit [OF m i])
  qed
qed

text \<open>\<open>history_of r s ls\<close>: the versions that are linked to the record.\<close>

definition history_of :: "rid \<Rightarrow> 'a txnm_scheme \<Rightarrow> undo_log list \<Rightarrow> bool" where
  "history_of r s ls \<longleftrightarrow> (case GetVersionLink r s of None \<Rightarrow> ls = [] | Some vl \<Rightarrow> version_chain s (first_undo vl) ls)"

lemma history_spec:
  fixes s :: "'a txnm_scheme"
  assumes m: "manager_ok es s" and ok: "rm_ok fd s" and h: "file_hdrs s fd = Some h" and r: "table fd s r = Some raw"
    and w: "16 \<le> record_size h" and st: "stamped raw s" and hist: "history_of r s ls" and j: "txn_heap s j = Some y"
  obtains u where "GetVisibleVersionFromHistory fd r j s = (Inr (case find (version_visible (start_ts y) s) ls of
      Some l \<Rightarrow> version_bytes h l | None \<Rightarrow> Some (drop 16 raw)), u)" and "unchanged fd s u"
proof -
  obtain u where u: "initial_version fd r (start_ts y) s = (Inr (Some (drop 16 raw)), u)" "unchanged fd s u"
    by (rule initial_version_spec [OF ok h r w st])
  have refl: "unchanged fd s s" by (rule unchanged_refl [OF ok])
  show ?thesis
  proof (cases "GetVersionLink r s")
    case None
    then have "ls = []" using hist by (simp add: history_of_def)
    then show ?thesis using that u None by (simp add: GetVisibleVersionFromHistory_def bindE_apply txn_at_eq [OF j])
  next
    case (Some vl)
    then have "version_chain s (first_undo vl) ls" using hist by (simp add: history_of_def)
    then have wc: "walk_chain h (start_ts y) s (first_undo vl) =
        Some (Inr (map_option (version_bytes h) (find (version_visible (start_ts y) s) ls)))"
      using w by (intro walk_chain_spec [OF m]) simp_all
    show ?thesis
      using that u refl
      by (cases "find (version_visible (start_ts y) s) ls")
        (simp_all add: GetVisibleVersionFromHistory_def bindE_apply txn_at_eq [OF j] Some tryE_def fh_hdr_eq [OF h] chain_version_def wc)
  qed
qed

text \<open>A transaction in MVCC mode that reads a record of an open file.\<close>

definition mvcc_reader :: "txn_event list \<Rightarrow> int \<Rightarrow> rid \<Rightarrow> byte list \<Rightarrow> Context \<Rightarrow> int \<Rightarrow> rm_file_hdr \<Rightarrow> 'a txnm_scheme \<Rightarrow> bool" where
  "mvcc_reader es fd r raw c j h s \<longleftrightarrow> (\<exists>s0. txn_run s0 es s \<and> fresh_manager s0) \<and> rm_ok fd s \<and> file_hdrs s fd = Some h \<and>
     table fd s r = Some raw \<and> 16 \<le> record_size h \<and> ctx_txn c = Some j \<and> ctx_txn_mgr c"

lemma mvcc_reader_spec:
  fixes s :: "'a txnm_scheme"
  assumes r: "mvcc_reader es fd r raw c j h s" and st: "plausible raw s"
  obtains u where "manager_ok es s" and "manager_ok es u" and "unchanged fd s u" and "txn_part u = txn_part s"
    and "mvcc_reader es fd r raw c j h u" and "plausible raw u"
    and "get_record_mvcc fd r (Some c) s =
      choose_version j (meta_of_bytes raw) (drop 16 raw) (GetVisibleVersionFromHistory fd r j) u"
proof -
  obtain s0 where s0: "txn_run s0 es s" "fresh_manager s0" using r by (auto simp: mvcc_reader_def)
  have m: "manager_ok es s" by (rule run_manager_ok [OF s0])
  have cm: "concurrency_mode s = MVCC" using m by (simp add: manager_ok_def)
  obtain u where u: "unchanged fd s u" "txn_part u = txn_part s" "get_record_mvcc fd r (Some c) s =
      choose_version j (meta_of_bytes raw) (drop 16 raw) (GetVisibleVersionFromHistory fd r j) u"
    by (rule mvcc_read_spec [of fd s h r raw c j]) (use r st cm in \<open>simp_all add: mvcc_reader_def\<close>)
  note d = unchangedD [OF u(1)]
  have f: "txn_frame u = txn_frame s" by (rule part_frame [OF u(2)])
  have run: "txn_run s0 es u" by (rule run_work [OF s0(1) f])
  have "mvcc_reader es fd r raw c j h u" using r d(1,4,5) run s0(2) by (auto simp: mvcc_reader_def)
  moreover have "plausible raw u" using st part_sel(5) [OF u(2)] by (simp add: plausible_def)
  ultimately show ?thesis using that m manager_ok_frame [OF m f] u by blast
qed

text \<open>The stamps that transactions leave make a version header.\<close>

lemma plausible_stamps:
  assumes "manager_ok es s" and "txn_heap s i = Some x"
    and "meta_ts (meta_of_bytes raw) = start_ts x \<or> txn_state x = COMMITTED \<and> meta_ts (meta_of_bytes raw) = commit_ts x"
  shows "plausible raw s" and "0 \<le> meta_ts (meta_of_bytes raw)"
  using manager_entry [OF assms(1,2)] assms(3) by (auto simp: plausible_def stamp_facts)

lemma reader_manager: "mvcc_reader es fd r raw c j h s \<Longrightarrow> manager_ok es s"
  using run_manager_ok by (auto simp: mvcc_reader_def)

text \<open>The records of the witnesses: stamped \<open>n\<close>, and marked deleted if \<open>d\<close> is 1.\<close>

definition demo_raw :: "byte \<Rightarrow> byte \<Rightarrow> byte list" where
  "demo_raw n d = [n, 0, 0, 0, 0, 0, 0, 0, d] @ replicate 7 0 @ replicate 16 7"

lemma demo_raw_meta:
  "meta_of_bytes (demo_raw 1 0) = \<lparr>meta_ts = 1, meta_deleted = False\<rparr>"
  "meta_of_bytes (demo_raw 1 1) = \<lparr>meta_ts = 1, meta_deleted = True\<rparr>"
  "meta_of_bytes (demo_raw 3 0) = \<lparr>meta_ts = 3, meta_deleted = False\<rparr>"
  by (simp_all add: demo_raw_def meta_of_bytes_def to_signed_def)

lemma demo_raw_simps [simp]: "length (demo_raw n d) = 32" "drop 16 (demo_raw n d) = replicate 16 7"
  by (simp_all add: demo_raw_def)

definition demo_reader :: "int \<Rightarrow> Context" where
  "demo_reader j = \<lparr>ctx_log = True, ctx_txn = Some j, ctx_txn_mgr = True, ctx_tab = []\<rparr>"

lemma demo_manager_like: "demo_like demo_manager"
  using demo_db_like by (simp add: demo_like_def demo_manager_def txnm_init_def dbs.defs txnm.defs)

lemma demo_states_like: "demo_like demo2" "demo_like demo4"
  using demo_manager_like unfolding demo4_def demo3_def demo2_def demo1_def
  by (simp_all add: begin_defs commit_defs bindE_apply Let_def demo_like_def)

lemma demo_version_info: "version_info demo2 = Map.empty" "version_info demo4 = Map.empty"
  unfolding demo4_def demo3_def demo2_def demo1_def
  by (simp_all add: begin_defs commit_defs bindE_apply Let_def demo_manager_def txnm_init_def dbs.defs txnm.defs)

lemma demo_row:
  assumes s: "txn_run demo_manager es s" "demo_like s" and l: "length raw = 32"
  obtains r h u where "mvcc_reader es 3 r raw (demo_reader j) j h u" and "txn_part u = txn_part s" and "table 3 u = [r \<mapsto> raw]"
proof -
  obtain r u where u: "rm_ok 3 u" "table 3 u = [r \<mapsto> raw]" "insert_unlogged 3 raw s = (Inr r, u)" "only_file 3 s u"
    "\<exists>h. file_hdrs u 3 = Some h \<and> record_size h = 32"
    by (rule demo_like_stored [OF s(2) l])
  have p: "txn_part u = txn_part s" by (rule only_file_part [OF u(4)])
  have "txn_run demo_manager es u" by (rule run_work [OF s(1) part_frame [OF p]])
  then have "mvcc_reader es 3 r raw (demo_reader j) j h u" if "file_hdrs u 3 = Some h" "record_size h = 32" for h
    using that u(1,2) demo_fresh by (auto simp: mvcc_reader_def demo_reader_def)
  then show ?thesis using that u(2,5) p by blast
qed

text \<open>What a reader may see, it gets from the file.\<close>

lemma mvcc_read_visible:
  assumes r: "mvcc_reader es fd r raw c j h s" and i: "txn_heap s i = Some x" and j: "txn_heap s j = Some y"
    and ts: "(i = j \<and> meta_ts (meta_of_bytes raw) = start_ts x) \<or>
      (txn_state x = COMMITTED \<and> meta_ts (meta_of_bytes raw) = commit_ts x \<and> before (EvCommit i) (EvBegin j) es)"
  shows "\<exists>u. get_record_mvcc fd r (Some c) s =
      (Inr (if meta_deleted (meta_of_bytes raw) then None else Some (drop 16 raw)), u) \<and> unchanged fd s u"
proof -
  have st: "plausible raw s" and nn: "0 \<le> meta_ts (meta_of_bytes raw)"
    using ts plausible_stamps [OF reader_manager [OF r] i] by blast+
  obtain u where u: "manager_ok es u" "unchanged fd s u" "txn_part u = txn_part s" "get_record_mvcc fd r (Some c) s =
      choose_version j (meta_of_bytes raw) (drop 16 raw) (GetVisibleVersionFromHistory fd r j) u"
    by (rule mvcc_reader_spec [OF r st])
  have iu: "txn_heap u i = Some x" and ju: "txn_heap u j = Some y" using i j part_sel(1) [OF u(3)] by simp_all
  have "meta_ts (meta_of_bytes raw) = start_ts y \<or>
      IsCommittedBeforeReadTs (meta_ts (meta_of_bytes raw)) (start_ts y) u = (Inr True, u)"
    using ts commit_stamp_visible [OF u(1) iu _ ju] i j by auto
  then show ?thesis using choose_visible [OF ju] u(2,4) nn by (cases "meta_ts (meta_of_bytes raw) = 0") (auto simp: choose_unstamped)
qed

text \<open>C19: A transaction that reads a record whose stamp is its own, or that of a commit from before it began,
  gets the columns of the record in the file, or nothing when the header marks it deleted.\<close>

theorem mvcc_read_sees_snapshot:
  assumes r: "mvcc_reader es fd r raw c j h s" and i: "txn_heap s i = Some x" and j: "txn_heap s j = Some y"
    and ts: "(i = j \<and> meta_ts (meta_of_bytes raw) = start_ts x) \<or>
      (txn_state x = COMMITTED \<and> meta_ts (meta_of_bytes raw) = commit_ts x \<and> before (EvCommit i) (EvBegin j) es)"
  shows "\<exists>u. get_record_mvcc fd r (Some c) s =
      (Inr (if meta_deleted (meta_of_bytes raw) then None else Some (drop 16 raw)), u) \<and> unchanged fd s u"
  by (rule mvcc_read_visible [OF assms])

theorem mvcc_read_sees_snapshot_witness:
  "\<exists>r (s :: txnm) u. txn_heap s = txn_heap demo4 \<and> get_record_mvcc 3 r (Some (demo_reader 2)) s = (Inr (Some (replicate 16 7)), u)"
proof -
  obtain r h s where s: "mvcc_reader [EvBegin 0, EvBegin 1, EvCommit 0, EvBegin 2] 3 r (demo_raw 3 0) (demo_reader 2) 2 h s"
    "txn_part s = txn_part demo4"
    by (rule demo_row [OF demo4_run demo_states_like(2), of "demo_raw 3 0" 2]) simp
  note e = part_sel(1) [OF s(2)]
  show ?thesis
    using mvcc_read_sees_snapshot [OF s(1), of 0 _ _, unfolded e, OF demo4_heap(1,3)] e
    by (auto simp: demo_raw_meta before_def demo_txn_def new_Transaction_def)
qed

text \<open>C20: A transaction that reads a record last written by another one that it may not see, told by the start stamp or
  the commit stamp of the writer in the record. If the record is marked deleted and the writer is still active, the
  reader is aborted. Otherwise it gets the first version of the chain that it may see; and when there is none, also when
  the record has no chain, it gets the columns of the record in the file after all, marked deleted or not, even if the
  writer is still active: the fallback reads the record without its header and takes it for one that nobody stamped. A
  stamp of 0, which the first transaction of a new database leaves, is seen by everyone: the record in the file, or
  nothing when it is marked deleted.\<close>

theorem mvcc_read_walks_history:
  assumes r: "mvcc_reader es fd r raw c j h s" and i: "txn_heap s i = Some x" and j: "txn_heap s j = Some y" and ij: "i \<noteq> j"
    and ts: "(meta_ts (meta_of_bytes raw) = start_ts x \<and> \<not> (before (EvBegin i) (EvBegin j) es \<and> EvCommit i \<in> set es)) \<or>
      (txn_state x = COMMITTED \<and> meta_ts (meta_of_bytes raw) = commit_ts x \<and> \<not> before (EvCommit i) (EvBegin j) es)"
    and hist: "history_of r s ls"
  shows "\<exists>u. get_record_mvcc fd r (Some c) s =
      (if meta_ts (meta_of_bytes raw) = 0 then Inr (if meta_deleted (meta_of_bytes raw) then None else Some (drop 16 raw))
       else if meta_deleted (meta_of_bytes raw) \<and> meta_ts (meta_of_bytes raw) = start_ts x \<and> is_active (txn_state x)
       then Inl (TransactionAbortException j DEADLOCK_PREVENTION)
       else Inr (case find (version_visible (start_ts y) s) ls of Some l \<Rightarrow> version_bytes h l | None \<Rightarrow> Some (drop 16 raw)), u) \<and>
    unchanged fd s u"
proof -
  let ?meta = "meta_of_bytes raw"
  have st: "plausible raw s" and nn: "0 \<le> meta_ts ?meta" using ts plausible_stamps [OF reader_manager [OF r] i] by blast+
  obtain u where u: "manager_ok es u" "unchanged fd s u" "txn_part u = txn_part s" "mvcc_reader es fd r raw c j h u"
    "plausible raw u" "get_record_mvcc fd r (Some c) s = choose_version j ?meta (drop 16 raw) (GetVisibleVersionFromHistory fd r j) u"
    by (rule mvcc_reader_spec [OF r st])
  note e = part_sel [OF u(3)]
  have iu: "txn_heap u i = Some x" and ju: "txn_heap u j = Some y" using i j e(1) by simp_all
  consider (zero) "meta_ts ?meta = 0" | (pending) "meta_ts ?meta \<noteq> 0" "meta_deleted ?meta" "meta_ts ?meta = start_ts x" "is_active (txn_state x)"
    | (walk) "meta_ts ?meta \<noteq> 0" "\<not> (meta_deleted ?meta \<and> meta_ts ?meta = start_ts x \<and> is_active (txn_state x))" by blast
  then show ?thesis
  proof cases
    case zero
    then show ?thesis using u(2,6) by (auto simp: choose_unstamped)
  next
    case pending
    then show ?thesis using choose_deleted [OF u(1) iu ju ij pending(4,2,3,1)] u(2,6) by auto
  next
    case walk
    have inv: "IsCommittedBeforeReadTs (meta_ts ?meta) (start_ts y) u = (Inr False, u)"
      using ts walk(1) start_stamp_visible [OF u(1) iu ju] commit_stamp_visible [OF u(1) iu _ ju] by auto
    have ne: "meta_ts ?meta \<noteq> start_ts y" using manager_pair [OF u(1) iu ju] ts ij by (auto simp: stamp_facts)
    have pos: "1 \<le> meta_ts ?meta" using walk(1) nn by simp
    have c: "choose_version j ?meta (drop 16 raw) history u = history u" for history
    proof (cases "meta_deleted ?meta")
      case True
      then show ?thesis using walk(2) ts by (intro choose_history_deleted [OF u(1) iu ju pos _ ne inv]) blast+
    qed (rule choose_history [OF u(1) ju pos _ ne inv])
    have hu: "history_of r u ls"
      using hist version_chain_part [OF u(3)] e(4) by (auto simp: history_of_def GetVersionLink_def split: option.splits if_splits)
    have ro: "rm_ok fd u" "file_hdrs u fd = Some h" "table fd u r = Some raw" "16 \<le> record_size h" using u(4) by (simp_all add: mvcc_reader_def)
    obtain t where t: "GetVisibleVersionFromHistory fd r j u = (Inr (case find (version_visible (start_ts y) u) ls of
        Some l \<Rightarrow> version_bytes h l | None \<Rightarrow> Some (drop 16 raw)), t)" "unchanged fd u t"
      by (rule history_spec [OF u(1) ro plausible_stamped [OF u(5) walk(1)] hu ju])
    show ?thesis
      using t unchanged_trans [OF u(2) t(2)] u(6) c version_visible_part [OF u(3), of "start_ts y"] walk by auto
  qed
qed

text \<open>Transaction 1 reads what 0 wrote and has not committed.\<close>

theorem mvcc_read_walks_history_witness:
  "\<exists>r (s :: txnm) u. txn_heap s = txn_heap demo2 \<and> get_record_mvcc 3 r (Some (demo_reader 1)) s = (Inr (Some (replicate 16 7)), u)"
proof -
  obtain r h s where s: "mvcc_reader [EvBegin 0, EvBegin 1] 3 r (demo_raw 1 0) (demo_reader 1) 1 h s" "txn_part s = txn_part demo2"
    by (rule demo_row [OF demo2_begins demo_states_like(1), of "demo_raw 1 0" 1]) simp
  note e = part_sel(1,4) [OF s(2)]
  have "history_of r s []" by (simp add: history_of_def GetVersionLink_def e(2) demo_version_info)
  then show ?thesis
    using mvcc_read_walks_history [OF s(1), of 0 _ _, unfolded e(1), OF demo2_heap, of "[]"] e(1)
    by (auto simp: demo_raw_meta before_def demo_txn_def new_Transaction_def)
qed

text \<open>C18: The conflict test of an active transaction against a row last written by another one, whether the row carries
  the writer's start stamp or its commit stamp: it reports a conflict exactly if the writer is still active or committed
  after this transaction began. A row with stamp 0, which the first transaction of a new database leaves, is never in
  conflict, although its writer may be active.\<close>

theorem conflict_is_first_updater_wins:
  assumes r: "mvcc_reader es fd r raw c j h s" and i: "txn_heap s i = Some x" and j: "txn_heap s j = Some y"
    and ij: "i \<noteq> j" and act: "is_active (txn_state y)"
    and ts: "meta_ts (meta_of_bytes raw) = start_ts x \<or> (txn_state x = COMMITTED \<and> meta_ts (meta_of_bytes raw) = commit_ts x)"
  shows "\<exists>u. CheckWriteWriteConflict fd r (Some c) s =
      (Inr (meta_ts (meta_of_bytes raw) \<noteq> 0 \<and>
         (is_active (txn_state x) \<or> (EvCommit i \<in> set es \<and> \<not> before (EvCommit i) (EvBegin j) es))), u) \<and> unchanged fd s u"
proof -
  have m: "manager_ok es s" by (rule reader_manager [OF r])
  have st: "plausible raw s" using plausible_stamps [OF m i ts] by blast
  have cm: "concurrency_mode s = MVCC" using m by (simp add: manager_ok_def)
  obtain u where u: "unchanged fd s u" "txn_part u = txn_part s" "CheckWriteWriteConflict fd r (Some c) s =
      (if meta_ts (meta_of_bytes raw) = 0 then ret False else conflict_with (meta_ts (meta_of_bytes raw)) j) u"
    by (rule conflict_read_spec [of fd s h r raw c j]) (use r st cm in \<open>simp_all add: mvcc_reader_def\<close>)
  have mu: "manager_ok es u" by (rule manager_ok_frame [OF m part_frame [OF u(2)]])
  have iu: "txn_heap u i = Some x" and ju: "txn_heap u j = Some y" using i j part_sel(1) [OF u(2)] by simp_all
  show ?thesis using u(1,3) conflict_with_other [OF mu iu ju ij act ts] by auto
qed

text \<open>Transaction 1 meets a row of transaction 0 that is not committed.\<close>

theorem conflict_is_first_updater_wins_witness:
  "\<exists>r (s :: txnm) u. txn_heap s = txn_heap demo2 \<and> CheckWriteWriteConflict 3 r (Some (demo_reader 1)) s = (Inr True, u)"
proof -
  obtain r h s where s: "mvcc_reader [EvBegin 0, EvBegin 1] 3 r (demo_raw 1 0) (demo_reader 1) 1 h s" "txn_part s = txn_part demo2"
    by (rule demo_row [OF demo2_begins demo_states_like(1), of "demo_raw 1 0" 1]) simp
  note e = part_sel(1) [OF s(2)]
  show ?thesis
    using conflict_is_first_updater_wins [OF s(1), of 0 _ _, unfolded e, OF demo2_heap] e
    by (auto simp: demo_raw_meta demo_txn_def new_Transaction_def is_active_def)
qed

section \<open>Rebuilt versions\<close>

lemma length_field_bytes [simp]: "length (field_bytes v) = 4"
  by (cases v) (simp_all add: field_bytes_def)

lemma put_two_fields:
  "mem_read (mem_put (mem_put zero_mem 0 (field_bytes a)) 4 (field_bytes b)) 0 (8 + n) =
     field_bytes a @ field_bytes b @ replicate n 0"
proof (rule nth_equalityI)
  show "length (mem_read (mem_put (mem_put zero_mem 0 (field_bytes a)) 4 (field_bytes b)) 0 (8 + n)) =
      length (field_bytes a @ field_bytes b @ replicate n 0)" by simp
  show "mem_read (mem_put (mem_put zero_mem 0 (field_bytes a)) 4 (field_bytes b)) 0 (8 + n) ! k =
      (field_bytes a @ field_bytes b @ replicate n 0) ! k"
    if "k < length (mem_read (mem_put (mem_put zero_mem 0 (field_bytes a)) 4 (field_bytes b)) 0 (8 + n))" for k
    using that by (auto simp: mem_read_def mem_put_def zero_mem_def nth_append)
qed

text \<open>A version is rebuilt from its undo log as two columns of four bytes followed by zeroes, whatever the
  columns of the table are: two integer columns come back as they were, a third column reads as 0, and a longer string
  is cut to four characters.\<close>

theorem reconstruct_keeps_two_columns:
  assumes "record_size h = 24 + int n" and "undo_tuple l = a # b # vs" and "2 \<le> length (modified_fields l)"
  shows "ReconstructTupleFromUndoLog h l s = (Inr (Some (field_bytes a @ field_bytes b @ replicate n 0)), s)"
proof -
  have "min (length (a # b # vs)) (length (modified_fields l)) = Suc (Suc (min (length vs) (length (modified_fields l) - 2)))"
    using assms(3) by simp
  moreover have "nat (8 + int n) = 8 + n" by simp
  moreover have "put_fields (8 + int n) (Suc (Suc 0)) ws m = m" for ws m by (cases ws) simp_all
  ultimately show ?thesis
    using assms(1,2) put_two_fields [of a b n]
    by (simp add: ReconstructTupleFromUndoLog_def bindE_apply new_record_def Let_def)
qed

theorem reconstruct_keeps_two_columns_witness:
  "ReconstructTupleFromUndoLog (new_file_hdr 28) (\<lparr>undo_deleted = False, modified_fields = [True, True, True],
      undo_tuple = [TYPE_INT 1, TYPE_INT 2, TYPE_INT 3], undo_ts = 1, prev_version = no_undo_link\<rparr>) () =
    (Inr (Some [1, 0, 0, 0, 2, 0, 0, 0, 0, 0, 0, 0]), ())"
proof -
  have "record_size (new_file_hdr 28) = 24 + int 4" by (simp add: new_file_hdr_def Let_def)
  then show ?thesis
    using reconstruct_keeps_two_columns [of "new_file_hdr 28" 4 "\<lparr>undo_deleted = False, modified_fields = [True, True, True],
      undo_tuple = [TYPE_INT 1, TYPE_INT 2, TYPE_INT 3], undo_ts = 1, prev_version = no_undo_link\<rparr>"
      "TYPE_INT 1" "TYPE_INT 2" "[TYPE_INT 3]" "()"]
    by (simp add: field_bytes_def numeral_eq_Suc)
qed

end
