(* ===== verification/IxKeys.thy ===== *)
theory IxKeys
  imports Prelude "HOL-Library.List_Lexorder"
begin

text \<open>
  The keys of the B+ tree index: the comparison \<open>ix_compare\<close> of \<^verbatim>\<open>index/ix_index_handle.h\<close>, and the file
  header of \<^verbatim>\<open>index/ix_defs.h\<close> with its serialized form. A key is the bytes of its columns, one after the other;
  a column type is the number of its \<open>enum ColType\<close>, as the header page stores it.

  The contract that the searches in the nodes rely on is the locale \<open>key_order\<close>: on well-formed keys the
  comparison is the comparison of ranks in a linear order.
\<close>

section \<open>Column types\<close>

definition TYPE_INT_c :: int where "TYPE_INT_c = 0"
definition TYPE_FLOAT_c :: int where "TYPE_FLOAT_c = 1"
definition TYPE_STRING_c :: int where "TYPE_STRING_c = 2"

lemmas col_types_c = TYPE_INT_c_def TYPE_FLOAT_c_def TYPE_STRING_c_def

text \<open>A \<open>float\<close> by its 32 bits: NaN compares false, the two zeroes are equal.\<close>

definition f32_nan :: "int \<Rightarrow> bool" where
  "f32_nan b \<longleftrightarrow> (b div 2 ^ 23) mod 256 = 255 \<and> b mod 2 ^ 23 \<noteq> 0"

definition f32_rank :: "int \<Rightarrow> int" where
  "f32_rank b = (if b \<ge> 2 ^ 31 then - (b - 2 ^ 31) else b)"

definition f32_less :: "int \<Rightarrow> int \<Rightarrow> bool" where
  "f32_less a b \<longleftrightarrow> \<not> f32_nan a \<and> \<not> f32_nan b \<and> f32_rank a < f32_rank b"

text \<open>\<open>strncmp\<close>, of whose result only the sign is defined and used.\<close>

fun strncmp :: "byte list \<Rightarrow> byte list \<Rightarrow> nat \<Rightarrow> int" where
  "strncmp (x # xs) (y # ys) (Suc n) =
     (if x < y then - 1 else if y < x then 1 else if x = 0 then 0 else strncmp xs ys n)"
| "strncmp _ _ _ = 0"

section \<open>Comparing keys\<close>

definition ix_compare_col :: "byte list \<Rightarrow> byte list \<Rightarrow> int \<Rightarrow> int \<Rightarrow> db_error + int" where
  "ix_compare_col a b ty col_len =
     (if ty = TYPE_INT_c then
        let ia = to_signed 4 (dec_le (take 4 a)); ib = to_signed 4 (dec_le (take 4 b))
        in Inr (if ia < ib then - 1 else if ia > ib then 1 else 0)
      else if ty = TYPE_FLOAT_c then
        let fa = dec_le (take 4 a); fb = dec_le (take 4 b)
        in Inr (if f32_less fa fb then - 1 else if f32_less fb fa then 1 else 0)
      else if ty = TYPE_STRING_c then Inr (strncmp a b (nat col_len))
      else Inl (InternalError ''Unexpected data type''))"

fun ix_compare :: "byte list \<Rightarrow> byte list \<Rightarrow> int list \<Rightarrow> int list \<Rightarrow> db_error + int" where
  "ix_compare a b [] lens = Inr 0"
| "ix_compare a b (t # ts) [] = Inl (OutOfRange ''col_lens'')"
| "ix_compare a b (t # ts) (l # ls) =
     (case ix_compare_col a b t l of
        Inl e \<Rightarrow> Inl e
      | Inr res \<Rightarrow> if res \<noteq> 0 then Inr res else ix_compare (drop (nat l) a) (drop (nat l) b) ts ls)"

section \<open>The order of the keys\<close>

definition cmp_of :: "'r::linorder \<Rightarrow> 'r \<Rightarrow> int" where
  "cmp_of x y = (if x < y then - 1 else if y < x then 1 else 0)"

lemma cmp_of_simps [simp]: "cmp_of x y < 0 \<longleftrightarrow> x < y" "cmp_of x y \<le> 0 \<longleftrightarrow> x \<le> y" "cmp_of x y = 0 \<longleftrightarrow> x = y"
  by (auto simp: cmp_of_def)

definition col_rank :: "int \<Rightarrow> int \<Rightarrow> byte list \<Rightarrow> int list" where
  "col_rank ty col_len a =
     (if ty = TYPE_INT_c then [to_signed 4 (dec_le (take 4 a))]
      else if ty = TYPE_FLOAT_c then [f32_rank (dec_le (take 4 a))]
      else map uint (takeWhile (\<lambda>b. b \<noteq> 0) (take (nat col_len) a)))"

definition col_ok :: "int \<Rightarrow> int \<Rightarrow> byte list \<Rightarrow> bool" where
  "col_ok ty col_len a \<longleftrightarrow>
     ty = TYPE_INT_c \<or> (ty = TYPE_FLOAT_c \<and> \<not> f32_nan (dec_le (take 4 a))) \<or> (ty = TYPE_STRING_c \<and> nat col_len \<le> length a)"

fun key_rank :: "int list \<Rightarrow> int list \<Rightarrow> byte list \<Rightarrow> int list list" where
  "key_rank (t # ts) (l # ls) a = col_rank t l a # key_rank ts ls (drop (nat l) a)"
| "key_rank _ _ a = []"

fun key_ok :: "int list \<Rightarrow> int list \<Rightarrow> byte list \<Rightarrow> bool" where
  "key_ok [] lens a \<longleftrightarrow> True"
| "key_ok (t # ts) [] a \<longleftrightarrow> False"
| "key_ok (t # ts) (l # ls) a \<longleftrightarrow> col_ok t l a \<and> key_ok ts ls (drop (nat l) a)"

lemma strncmp_rank:
  "n \<le> length a \<Longrightarrow> n \<le> length b \<Longrightarrow>
     strncmp a b n = cmp_of (map uint (takeWhile (\<lambda>b. b \<noteq> 0) (take n a))) (map uint (takeWhile (\<lambda>b. b \<noteq> 0) (take n b)))"
proof (induction a b n rule: strncmp.induct)
  case (1 x xs y ys n)
  have u: "x < y \<longleftrightarrow> uint x < uint y" "x = y \<longleftrightarrow> uint x = uint y" for x y :: byte by (simp_all add: word_less_def word_uint_eq_iff)
  have p: "x \<noteq> 0 \<Longrightarrow> 0 < x" for x :: byte by (simp add: word_gt_0)
  show ?case
    using 1 p [of x] p [of y]
    by (cases "x = 0"; cases "y = 0") (auto simp: cmp_of_def u word_gt_0 dest: leD)
qed (auto simp: cmp_of_def)

lemma ix_compare_col_rank:
  "col_ok t l a \<Longrightarrow> col_ok t l b \<Longrightarrow> ix_compare_col a b t l = Inr (cmp_of (col_rank t l a) (col_rank t l b))"
  by (auto simp: col_ok_def ix_compare_col_def col_rank_def col_types_c f32_less_def strncmp_rank Let_def cmp_of_def)

lemma ix_compare_rank:
  "key_ok ts ls a \<Longrightarrow> key_ok ts ls b \<Longrightarrow> ix_compare a b ts ls = Inr (cmp_of (key_rank ts ls a) (key_rank ts ls b))"
  by (induction ts ls a arbitrary: b rule: key_ok.induct) (auto simp: ix_compare_col_rank cmp_of_def)

text \<open>
  The contract: \<open>cmp\<close> decides the linear order of the ranks of valid keys. What a search in a sorted array of keys
  finds is proved from it.
\<close>

function bsearch :: "(int \<Rightarrow> db_error + bool) \<Rightarrow> int \<Rightarrow> int \<Rightarrow> db_error + int" where
  "bsearch go_right left right =
     (if left < right
      then let mid = left + (right - left) div 2
           in case go_right mid of
                Inl e \<Rightarrow> Inl e
              | Inr b \<Rightarrow> if b then bsearch go_right (mid + 1) right else bsearch go_right left mid
      else Inr left)"
  by pat_completeness auto
termination by (relation "measure (\<lambda>(g, left, right). nat (right - left))") auto

declare bsearch.simps [simp del]

text \<open>The search finds the border between a true part and a false part.\<close>

lemma bsearch_border:
  "left \<le> b \<Longrightarrow> b \<le> right \<Longrightarrow> (\<And>i. left \<le> i \<Longrightarrow> i < right \<Longrightarrow> g i = Inr (i < b)) \<Longrightarrow> bsearch g left right = Inr b"
proof (induction g left right rule: bsearch.induct)
  case (1 g left right)
  show ?case
  proof (cases "left < right")
    case False
    then show ?thesis using 1 by (subst bsearch.simps) simp
  next
    case True
    define mid where "mid = left + (right - left) div 2"
    have m: "left \<le> mid" "mid < right" using True by (auto simp: mid_def)
    have g: "g mid = Inr (mid < b)" using 1 m by simp
    have e: "bsearch g left right = (if mid < b then bsearch g (mid + 1) right else bsearch g left mid)"
      using True by (subst bsearch.simps) (simp add: mid_def [symmetric] g Let_def)
    have i: "bsearch g (mid + 1) right = Inr b" if "mid < b"
      by (rule 1(1) [OF True mid_def g]) (use that m 1(3,4,5) in auto)
    have j: "bsearch g left mid = Inr b" if "\<not> mid < b"
      by (rule 1(2) [OF True mid_def g]) (use that m 1(3,4,5) in auto)
    show ?thesis using e i j by simp
  qed
qed

locale key_order =
  fixes rank :: "'k \<Rightarrow> 'r::linorder" and cmp :: "'k \<Rightarrow> 'k \<Rightarrow> db_error + int" and valid :: "'k \<Rightarrow> bool"
  assumes cmp_law: "valid a \<Longrightarrow> valid b \<Longrightarrow> cmp a b = Inr (cmp_of (rank a) (rank b))"
begin

definition lower :: "'k \<Rightarrow> 'k list \<Rightarrow> nat" where
  "lower x ks = length (takeWhile (\<lambda>k. rank k < rank x) ks)"

definition upper :: "'k \<Rightarrow> 'k list \<Rightarrow> nat" where
  "upper x ks = length (takeWhile (\<lambda>k. rank k \<le> rank x) ks)"

definition ordered :: "'k list \<Rightarrow> bool" where
  "ordered ks \<longleftrightarrow> sorted (map rank ks) \<and> (\<forall>k\<in>set ks. valid k)"

definition strict :: "'k list \<Rightarrow> bool" where
  "strict ks \<longleftrightarrow> sorted_wrt (<) (map rank ks) \<and> (\<forall>k\<in>set ks. valid k)"

lemma strict_ordered: "strict ks \<Longrightarrow> ordered ks"
  by (simp add: strict_def ordered_def strict_sorted_imp_sorted)

lemma takeWhile_border:
  assumes "sorted (map rank ks)" and "\<And>x y. rank x \<le> rank y \<Longrightarrow> P y \<Longrightarrow> P x" and "i < length ks"
  shows "P (ks ! i) \<longleftrightarrow> i < length (takeWhile P ks)"
proof
  assume "i < length (takeWhile P ks)"
  then show "P (ks ! i)" by (metis nth_mem set_takeWhileD takeWhile_nth)
next
  assume i: "P (ks ! i)"
  show "i < length (takeWhile P ks)"
  proof (rule ccontr)
    let ?n = "length (takeWhile P ks)"
    assume "\<not> i < ?n"
    then have n: "?n < length ks" "?n \<le> i" using assms(3) by auto
    then have "rank (ks ! ?n) \<le> rank (ks ! i)" using assms(1,3) by (simp add: sorted_iff_nth_mono)
    then show False using assms(2) i nth_length_takeWhile [OF n(1)] by blast
  qed
qed

lemma lower_search:
  assumes "ordered ks" and "valid x"
  shows "bsearch (\<lambda>i. case cmp (ks ! nat i) x of Inl e \<Rightarrow> Inl e | Inr c \<Rightarrow> Inr (c < 0)) 0 (int (length ks)) = Inr (int (lower x ks))"
proof (rule bsearch_border)
  show "(case cmp (ks ! nat i) x of Inl e \<Rightarrow> Inl e | Inr c \<Rightarrow> Inr (c < 0)) = Inr (i < int (lower x ks))"
    if "0 \<le> i" "i < int (length ks)" for i
  proof -
    have i: "nat i < length ks" using that by simp
    have "rank (ks ! nat i) < rank x \<longleftrightarrow> nat i < lower x ks"
      unfolding lower_def by (rule takeWhile_border) (use assms(1) i in \<open>auto simp: ordered_def\<close>)
    then show ?thesis using assms cmp_law [of "ks ! nat i" x] i that by (auto simp: ordered_def)
  qed
qed (simp_all add: lower_def length_takeWhile_le)

lemma upper_search:
  assumes "ordered ks" and "valid x"
  shows "bsearch (\<lambda>i. case cmp (ks ! nat i) x of Inl e \<Rightarrow> Inl e | Inr c \<Rightarrow> Inr (c \<le> 0)) 0 (int (length ks)) = Inr (int (upper x ks))"
proof (rule bsearch_border)
  show "(case cmp (ks ! nat i) x of Inl e \<Rightarrow> Inl e | Inr c \<Rightarrow> Inr (c \<le> 0)) = Inr (i < int (upper x ks))"
    if "0 \<le> i" "i < int (length ks)" for i
  proof -
    have i: "nat i < length ks" using that by simp
    have "rank (ks ! nat i) \<le> rank x \<longleftrightarrow> nat i < upper x ks"
      unfolding upper_def by (rule takeWhile_border) (use assms(1) i in \<open>auto simp: ordered_def\<close>)
    then show ?thesis using assms cmp_law [of "ks ! nat i" x] i that by (auto simp: ordered_def)
  qed
qed (simp_all add: upper_def length_takeWhile_le)

text \<open>Where a key belongs in a strictly sorted array.\<close>

lemma lower_splits:
  assumes "strict ks"
  shows "\<forall>k\<in>set (take (lower x ks) ks). rank k < rank x" and "\<forall>k\<in>set (drop (lower x ks) ks). rank x \<le> rank k"
proof -
  have t: "take (lower x ks) ks = takeWhile (\<lambda>k. rank k < rank x) ks" by (simp add: lower_def takeWhile_eq_take [symmetric])
  show "\<forall>k\<in>set (take (lower x ks) ks). rank k < rank x" by (auto simp: t dest: set_takeWhileD)
  show "\<forall>k\<in>set (drop (lower x ks) ks). rank x \<le> rank k"
  proof
    fix k assume "k \<in> set (drop (lower x ks) ks)"
    then obtain i where i: "lower x ks \<le> i" "i < length ks" "k = ks ! i" by (auto simp: in_set_conv_nth) (metis le_add1 less_diff_conv add.commute)
    have "\<not> rank (ks ! i) < rank x"
      using takeWhile_border [of ks "\<lambda>k. rank k < rank x" i] assms i(1,2)
      by (force simp: strict_def lower_def strict_sorted_imp_sorted)
    then show "rank x \<le> rank k" using i(3) by simp
  qed
qed

lemma strict_insert:
  assumes s: "strict ks" and x: "valid x" "\<forall>k\<in>set ks. rank k \<noteq> rank x"
  shows "strict (take (lower x ks) ks @ x # drop (lower x ks) ks)"
proof -
  let ?n = "lower x ks"
  have l: "\<forall>k\<in>set (take ?n ks). rank k < rank x" by (rule lower_splits(1) [OF s])
  have r: "\<forall>k\<in>set (drop ?n ks). rank x < rank k"
    using lower_splits(2) [OF s, of x] x(2) by (metis in_set_dropD order_less_le)
  have "sorted_wrt (<) (map rank (take ?n ks @ drop ?n ks))" using s by (simp add: strict_def)
  then show ?thesis using l r s x(1) unfolding strict_def map_append sorted_wrt_append
    by (auto dest: in_set_takeD in_set_dropD)
qed

lemma strict_delete: "strict (xs @ x # ys) \<Longrightarrow> strict (xs @ ys)"
  by (auto simp: strict_def sorted_wrt_append)

lemma lower_hit:
  assumes "strict ks" and "k \<in> set ks"  and "rank k = rank x"
  shows "lower x ks < length ks" and "ks ! lower x ks = k"
proof -
  obtain i where i: "i < length ks" "ks ! i = k" using assms(2) by (auto simp: in_set_conv_nth)
  have m: "rank (ks ! a) < rank (ks ! b)" if "a < b" "b < length ks" for a b
    using assms(1) that by (auto simp: strict_def sorted_wrt_iff_nth_less)
  have nl: "\<not> lower x ks > i"
    using takeWhile_border [of ks "\<lambda>k. rank k < rank x" i] i assms(1,3)
    by (force simp: strict_def lower_def strict_sorted_imp_sorted)
  then show n: "lower x ks < length ks" using i(1) by simp
  have "rank x \<le> rank (ks ! lower x ks)" using nth_length_takeWhile [of "\<lambda>k. rank k < rank x" ks] n by (simp add: lower_def)
  then have "\<not> lower x ks < i" using m [of "lower x ks" i] i assms(3) by auto
  then show "ks ! lower x ks = k" using nl i(2) by (metis linorder_neqE_nat)
qed

end

interpretation ixc: key_order "key_rank ts ls" "\<lambda>a b. ix_compare a b ts ls" "key_ok ts ls" for ts ls
  by unfold_locales (rule ix_compare_rank)

section \<open>The file header\<close>

definition IX_NO_PAGE :: int where "IX_NO_PAGE = - 1"
definition IX_FILE_HDR_PAGE :: int where "IX_FILE_HDR_PAGE = 0"
definition IX_LEAF_HEADER_PAGE :: int where "IX_LEAF_HEADER_PAGE = 1"
definition IX_INIT_ROOT_PAGE :: int where "IX_INIT_ROOT_PAGE = 2"
definition IX_INIT_NUM_PAGES :: int where "IX_INIT_NUM_PAGES = 3"
definition IX_MAX_COL_LEN :: int where "IX_MAX_COL_LEN = 512"

lemmas ix_consts = IX_NO_PAGE_def IX_FILE_HDR_PAGE_def IX_LEAF_HEADER_PAGE_def IX_INIT_ROOT_PAGE_def IX_INIT_NUM_PAGES_def
  IX_MAX_COL_LEN_def

record ix_file_hdr =
  ix_free_page :: int
  ix_num_pages :: int
  root_page :: int
  col_num :: int
  col_types :: "int list"
  col_lens :: "int list"
  col_tot_len :: int
  btree_order :: int
  keys_size :: int
  first_leaf :: int
  last_leaf :: int
  tot_len :: int

definition update_tot_len :: "ix_file_hdr \<Rightarrow> ix_file_hdr" where
  "update_tot_len h = h\<lparr>tot_len := c_int (4 * 4 + 4 * 6 + 4 * col_num h + 4 * col_num h)\<rparr>"

primrec store_ints :: "mem \<Rightarrow> nat \<Rightarrow> int list \<Rightarrow> mem" where
  "store_ints m off [] = m"
| "store_ints m off (x # xs) = store_ints (store_i32 m off x) (off + 4) xs"

primrec load_ints :: "mem \<Rightarrow> nat \<Rightarrow> nat \<Rightarrow> int list" where
  "load_ints m off 0 = []"
| "load_ints m off (Suc n) = load_i32 m off # load_ints m (off + 4) n"

definition ix_serialize :: "ix_file_hdr \<Rightarrow> mem \<Rightarrow> nat \<Rightarrow> db_error + mem" where
  "ix_serialize h m dest =
     (let n = nat (col_num h);
          m = store_i32 m dest (tot_len h);
          m = store_i32 m (dest + 4) (ix_free_page h);
          m = store_i32 m (dest + 8) (ix_num_pages h);
          m = store_i32 m (dest + 12) (root_page h);
          m = store_i32 m (dest + 16) (col_num h);
          m = store_ints m (dest + 20) (take n (col_types h));
          m = store_ints m (dest + 20 + 4 * n) (take n (col_lens h));
          offset = dest + 20 + 4 * n + 4 * n;
          m = store_i32 m offset (col_tot_len h);
          m = store_i32 m (offset + 4) (btree_order h);
          m = store_i32 m (offset + 8) (keys_size h);
          m = store_i32 m (offset + 12) (first_leaf h);
          m = store_i32 m (offset + 16) (last_leaf h)
      in if n > length (col_types h) \<or> n > length (col_lens h) then Inl (OutOfRange ''col_types_'')
         else if int (offset + 20) - int dest = tot_len h then Inr m else Inl AssertionFailed)"

definition ix_deserialize :: "mem \<Rightarrow> nat \<Rightarrow> db_error + ix_file_hdr" where
  "ix_deserialize m src =
     (let n = nat (load_i32 m (src + 16));
          offset = src + 20 + 4 * n + 4 * n;
          h = \<lparr>ix_free_page = load_i32 m (src + 4), ix_num_pages = load_i32 m (src + 8), root_page = load_i32 m (src + 12),
               col_num = load_i32 m (src + 16), col_types = load_ints m (src + 20) n, col_lens = load_ints m (src + 20 + 4 * n) n,
               col_tot_len = load_i32 m offset, btree_order = load_i32 m (offset + 4), keys_size = load_i32 m (offset + 8),
               first_leaf = load_i32 m (offset + 12), last_leaf = load_i32 m (offset + 16), tot_len = load_i32 m src\<rparr>
      in if int (offset + 20) - int src = tot_len h then Inr h else Inl AssertionFailed)"

definition enc_ints :: "int list \<Rightarrow> byte list" where
  "enc_ints xs = concat (map (enc_le 4) xs)"

lemma enc_ints_simps [simp]: "enc_ints [] = []" "enc_ints (x # xs) = enc_le 4 x @ enc_ints xs" "length (enc_ints xs) = 4 * length xs"
  by (induction xs) (simp_all add: enc_ints_def)

lemma store_ints_put: "store_ints m off xs = mem_put m off (enc_ints xs)"
proof (induction xs arbitrary: m off)
  case Nil
  have "mem_put m off [] = m" by (rule ext) (auto simp: mem_put_def)
  then show ?case by simp
next
  case (Cons x xs)
  then show ?case using mem_put_append [of m off "enc_le 4 x" "enc_ints xs"] by (simp add: store_i32_def)
qed

lemma load_ints_at: "mem_at m off (enc_ints xs) \<Longrightarrow> (\<And>x. x \<in> set xs \<Longrightarrow> int32_range x) \<Longrightarrow> load_ints m off (length xs) = xs"
  by (induction xs arbitrary: off) (simp_all add: load_i32_at)

lemma mem_put_snoc: "n = off + length xs \<Longrightarrow> mem_put (mem_put m off xs) n ys = mem_put m off (xs @ ys)"
  by (simp add: mem_put_append)

text \<open>A header that the code writes: the column vectors have \<open>col_num_\<close> entries and all fields fit an \<open>int\<close>.\<close>

definition ix_hdr_ok :: "ix_file_hdr \<Rightarrow> bool" where
  "ix_hdr_ok h \<longleftrightarrow> col_num h = int (length (col_types h)) \<and> length (col_lens h) = length (col_types h) \<and>
     tot_len h = 40 + 8 * col_num h \<and> (\<forall>x\<in>set (col_types h) \<union> set (col_lens h). int32_range x) \<and>
     int32_range (ix_free_page h) \<and> int32_range (ix_num_pages h) \<and> int32_range (root_page h) \<and> int32_range (col_num h) \<and>
     int32_range (col_tot_len h) \<and> int32_range (btree_order h) \<and> int32_range (keys_size h) \<and> int32_range (first_leaf h) \<and>
     int32_range (last_leaf h) \<and> int32_range (tot_len h)"

text \<open>C21: A header that is serialized and read back is the same header.\<close>

theorem ix_header_roundtrip:
  assumes ok: "ix_hdr_ok h"
  shows "\<exists>m'. ix_serialize h m dest = Inr m' \<and> ix_deserialize m' dest = Inr h"
proof -
  let ?n = "length (col_types h)"
  note o = ok [unfolded ix_hdr_ok_def]
  have n: "nat (col_num h) = ?n" "length (col_lens h) = ?n" using o by simp_all
  let ?xs = "[tot_len h, ix_free_page h, ix_num_pages h, root_page h, col_num h] @ col_types h @ col_lens h @
      [col_tot_len h, btree_order h, keys_size h, first_leaf h, last_leaf h]"
  define m' where "m' = mem_put m dest (enc_ints ?xs)"
  have app: "enc_ints (xs @ ys) = enc_ints xs @ enc_ints ys" for xs ys by (simp add: enc_ints_def)
  have s: "ix_serialize h m dest = Inr m'"
    using o n by (simp add: ix_serialize_def Let_def store_ints_put store_i32_def mem_put_snoc m'_def app add.assoc)
  have at: "mem_at m' dest (enc_ints ?xs)" unfolding m'_def by (rule mem_at_put)
  let ?e = "dest + 20 + 4 * ?n + 4 * ?n"
  have parts: "mem_at m' dest (enc_le 4 (tot_len h))" "mem_at m' (dest + 4) (enc_le 4 (ix_free_page h))"
    "mem_at m' (dest + 8) (enc_le 4 (ix_num_pages h))" "mem_at m' (dest + 12) (enc_le 4 (root_page h))"
    "mem_at m' (dest + 16) (enc_le 4 (col_num h))" "mem_at m' (dest + 20) (enc_ints (col_types h))"
    "mem_at m' (dest + 20 + 4 * ?n) (enc_ints (col_lens h))" "mem_at m' ?e (enc_le 4 (col_tot_len h))"
    "mem_at m' (?e + 4) (enc_le 4 (btree_order h))" "mem_at m' (?e + 8) (enc_le 4 (keys_size h))"
    "mem_at m' (?e + 12) (enc_le 4 (first_leaf h))" "mem_at m' (?e + 16) (enc_le 4 (last_leaf h))"
    using at n(2) by (simp_all add: app add.assoc)
  have l: "load_i32 m' dest = tot_len h" "load_i32 m' (dest + 4) = ix_free_page h" "load_i32 m' (dest + 8) = ix_num_pages h"
    "load_i32 m' (dest + 12) = root_page h" "load_i32 m' (dest + 16) = col_num h" "load_i32 m' ?e = col_tot_len h"
    "load_i32 m' (?e + 4) = btree_order h" "load_i32 m' (?e + 8) = keys_size h" "load_i32 m' (?e + 12) = first_leaf h"
    "load_i32 m' (?e + 16) = last_leaf h"
    using o parts load_i32_at by blast+
  have ty: "load_ints m' (dest + 20) ?n = col_types h" using parts(6) o by (intro load_ints_at) auto
  have le: "load_ints m' (dest + 20 + 4 * ?n) ?n = col_lens h"
    using load_ints_at [OF parts(7)] o n(2) by auto
  have "ix_deserialize m' dest = Inr h"
    unfolding ix_deserialize_def Let_def l n(1) ty le using o by simp
  then show ?thesis using s by blast
qed

theorem ix_header_roundtrip_witness:
  "\<exists>m'. ix_serialize (update_tot_len \<lparr>ix_free_page = - 1, ix_num_pages = 3, root_page = 2, col_num = 2, col_types = [0, 2], col_lens = [4, 8],
      col_tot_len = 12, btree_order = 202, keys_size = 2436, first_leaf = 2, last_leaf = 2, tot_len = 0\<rparr>) zero_mem 0 = Inr m' \<and>
    col_lens (projr (ix_deserialize m' 0)) = [4, 8]"
  using ix_header_roundtrip [of "update_tot_len \<lparr>ix_free_page = - 1, ix_num_pages = 3, root_page = 2, col_num = 2, col_types = [0, 2],
      col_lens = [4, 8], col_tot_len = 12, btree_order = 202, keys_size = 2436, first_leaf = 2, last_leaf = 2, tot_len = 0\<rparr>" zero_mem 0]
  by (auto simp: ix_hdr_ok_def int32_range_def update_tot_len_def)

end
