(* ===== verification/IxNode.thy ===== *)
theory IxNode
  imports IxKeys RmFile
begin

text \<open>
  A node of the B+ tree, the class \<open>IxNodeHandle\<close> of \<^verbatim>\<open>index/ix_index_handle.{h,cpp}\<close>, on the memory \<open>m\<close> of
  its page: a header of 24 bytes, the keys, the row identifiers. The methods that only look are functions
  of \<open>m\<close>, the others operations on it; a failed \<open>assert\<close> is the error \<open>AssertionFailed\<close>. A \<open>char*\<close> argument
  that points to a key is the bytes of the key.
\<close>

section \<open>The layout of a node\<close>

definition sizeof_IxPageHdr :: nat where "sizeof_IxPageHdr = 24"

definition node_parent :: "mem \<Rightarrow> int" where "node_parent m = load_i32 m 4"
definition num_key :: "mem \<Rightarrow> int" where "num_key m = load_i32 m 8"
definition is_leaf_page :: "mem \<Rightarrow> bool" where "is_leaf_page m \<longleftrightarrow> m 12 \<noteq> 0"
definition prev_leaf :: "mem \<Rightarrow> int" where "prev_leaf m = load_i32 m 16"
definition next_leaf :: "mem \<Rightarrow> int" where "next_leaf m = load_i32 m 20"

definition set_next_free :: "int \<Rightarrow> mem \<Rightarrow> mem" where "set_next_free x m = store_i32 m 0 x"
definition set_parent :: "int \<Rightarrow> mem \<Rightarrow> mem" where "set_parent x m = store_i32 m 4 x"
definition set_size :: "int \<Rightarrow> mem \<Rightarrow> mem" where "set_size x m = store_i32 m 8 x"
definition set_is_leaf :: "bool \<Rightarrow> mem \<Rightarrow> mem" where "set_is_leaf b m = mem_put m 12 [if b then 1 else 0]"
definition set_prev_leaf :: "int \<Rightarrow> mem \<Rightarrow> mem" where "set_prev_leaf x m = store_i32 m 16 x"
definition set_next_leaf :: "int \<Rightarrow> mem \<Rightarrow> mem" where "set_next_leaf x m = store_i32 m 20 x"

definition is_root_page :: "mem \<Rightarrow> bool" where
  "is_root_page m \<longleftrightarrow> node_parent m = INVALID_PAGE_ID"

definition get_max_size :: "ix_file_hdr \<Rightarrow> int" where
  "get_max_size h = c_int (btree_order h + 1)"

definition get_min_size :: "ix_file_hdr \<Rightarrow> int" where
  "get_min_size h = get_max_size h div 2"

definition key_addr :: "ix_file_hdr \<Rightarrow> nat \<Rightarrow> nat" where
  "key_addr h i = sizeof_IxPageHdr + i * nat (col_tot_len h)"

definition rid_addr :: "ix_file_hdr \<Rightarrow> nat \<Rightarrow> nat" where
  "rid_addr h i = sizeof_IxPageHdr + nat (keys_size h) + 8 * i"

definition node_key :: "ix_file_hdr \<Rightarrow> mem \<Rightarrow> nat \<Rightarrow> byte list" where
  "node_key h m i = mem_read m (key_addr h i) (nat (col_tot_len h))"

definition node_rid :: "ix_file_hdr \<Rightarrow> mem \<Rightarrow> nat \<Rightarrow> rid" where
  "node_rid h m i = load_rid m (rid_addr h i)"

definition idx_ok :: "ix_file_hdr \<Rightarrow> int \<Rightarrow> bool" where
  "idx_ok h i \<longleftrightarrow> 0 \<le> i \<and> i < get_max_size h"

definition get_key :: "ix_file_hdr \<Rightarrow> int \<Rightarrow> mem \<Rightarrow> db_error + byte list" where
  "get_key h i m = (if idx_ok h i then Inr (node_key h m (nat i)) else Inl AssertionFailed)"

definition get_rid :: "ix_file_hdr \<Rightarrow> int \<Rightarrow> mem \<Rightarrow> db_error + rid" where
  "get_rid h i m = (if idx_ok h i then Inr (node_rid h m (nat i)) else Inl AssertionFailed)"

definition value_at :: "ix_file_hdr \<Rightarrow> int \<Rightarrow> mem \<Rightarrow> db_error + int" where
  "value_at h i m = (case get_rid h i m of Inl e \<Rightarrow> Inl e | Inr r \<Rightarrow> Inr (rid_page_no r))"

text \<open>\<open>set_key\<close> has no assertion.\<close>

definition set_key :: "ix_file_hdr \<Rightarrow> int \<Rightarrow> byte list \<Rightarrow> (mem, unit) op" where
  "set_key h i k = bindE (memcpy_from k (col_tot_len h)) (\<lambda>d. updS (\<lambda>m. mem_put m (key_addr h (nat i)) d))"

section \<open>Searching\<close>

definition key_cmp :: "ix_file_hdr \<Rightarrow> byte list \<Rightarrow> byte list \<Rightarrow> db_error + int" where
  "key_cmp h a b = ix_compare a b (col_types h) (col_lens h)"

definition node_lower_bound :: "ix_file_hdr \<Rightarrow> byte list \<Rightarrow> mem \<Rightarrow> db_error + int" where
  "node_lower_bound h target m = bsearch (\<lambda>mid.
     case get_key h mid m of
       Inl e \<Rightarrow> Inl e
     | Inr k \<Rightarrow> (case key_cmp h k target of Inl e \<Rightarrow> Inl e | Inr c \<Rightarrow> Inr (c < 0))) 0 (num_key m)"

definition node_upper_bound :: "ix_file_hdr \<Rightarrow> byte list \<Rightarrow> mem \<Rightarrow> db_error + int" where
  "node_upper_bound h target m = bsearch (\<lambda>mid.
     case get_key h mid m of
       Inl e \<Rightarrow> Inl e
     | Inr k \<Rightarrow> (case key_cmp h k target of Inl e \<Rightarrow> Inl e | Inr c \<Rightarrow> Inr (c \<le> 0))) 0 (num_key m)"

text \<open>A \<open>const\<close> method in an operation.\<close>

definition lookE :: "(mem \<Rightarrow> db_error + 'a) \<Rightarrow> (mem, 'a) op" where
  "lookE f = (\<lambda>m. (f m, m))"

definition leaf_lookup :: "ix_file_hdr \<Rightarrow> byte list \<Rightarrow> (mem, rid option) op" where
  "leaf_lookup h key = bindE getS (\<lambda>m. bindE (assertE (is_leaf_page m)) (\<lambda>_.
     bindE (lookE (node_lower_bound h key)) (\<lambda>pos.
     if pos = num_key m then ret None
     else bindE (lookE (get_key h pos)) (\<lambda>k.
       bindE (lookE (\<lambda>_. key_cmp h key k)) (\<lambda>c.
       if c \<noteq> 0 then ret None
       else bindE (lookE (get_rid h pos)) (\<lambda>r. ret (Some r)))))))"

definition internal_lookup :: "ix_file_hdr \<Rightarrow> byte list \<Rightarrow> (mem, int) op" where
  "internal_lookup h key = bindE getS (\<lambda>m. bindE (assertE (\<not> is_leaf_page m)) (\<lambda>_.
     bindE (lookE (node_lower_bound h key)) (\<lambda>child_idx. lookE (value_at h child_idx))))"

primrec find_child_in :: "ix_file_hdr \<Rightarrow> int \<Rightarrow> int list \<Rightarrow> mem \<Rightarrow> db_error + int" where
  "find_child_in h child [] m = Inl (RuntimeError ''FATAL: Child page not found in parent node. Index is likely corrupt.'')"
| "find_child_in h child (i # is) m =
     (case get_rid h i m of
        Inl e \<Rightarrow> Inl e
      | Inr r \<Rightarrow> if rid_page_no r = child then Inr i else find_child_in h child is m)"

definition find_child :: "ix_file_hdr \<Rightarrow> int \<Rightarrow> mem \<Rightarrow> db_error + int" where
  "find_child h child m = find_child_in h child [0..num_key m] m"

section \<open>Changing a node\<close>

definition move_pair :: "ix_file_hdr \<Rightarrow> nat \<Rightarrow> nat \<Rightarrow> mem \<Rightarrow> mem" where
  "move_pair h i j m =
     (let m1 = mem_copy m (key_addr h j) m (key_addr h i) (nat (col_tot_len h))
      in mem_copy m1 (rid_addr h j) m1 (rid_addr h i) 8)"

definition put_pair :: "ix_file_hdr \<Rightarrow> nat \<Rightarrow> byte list \<Rightarrow> rid \<Rightarrow> mem \<Rightarrow> mem" where
  "put_pair h i k r m = store_rid (mem_put m (key_addr h i) k) (rid_addr h i) r"

definition shift_pair :: "ix_file_hdr \<Rightarrow> int \<Rightarrow> int \<Rightarrow> (mem, unit) op" where
  "shift_pair h n i = bindE (assertE (idx_ok h (i + n) \<and> idx_ok h i)) (\<lambda>_. updS (move_pair h (nat i) (nat (i + n))))"

definition store_pair :: "ix_file_hdr \<Rightarrow> int \<times> byte list \<times> rid \<Rightarrow> (mem, unit) op" where
  "store_pair h = (\<lambda>(i, k, r). bindE (assertE (idx_ok h i)) (\<lambda>_.
     bindE (memcpy_from k (col_tot_len h)) (\<lambda>d. updS (put_pair h (nat i) d r))))"

text \<open>The \<open>n\<close> pairs that \<open>key\<close> and \<open>rid\<close> point to are the list \<open>ps\<close>.\<close>

definition insert_pairs :: "ix_file_hdr \<Rightarrow> int \<Rightarrow> (byte list \<times> rid) list \<Rightarrow> (mem, unit) op" where
  "insert_pairs h pos ps = bindE getS (\<lambda>m.
     let num = num_key m; n = int (length ps)
     in bindE (assertE (0 \<le> pos \<and> pos \<le> num)) (\<lambda>_.
        bindE (if pos < num then forE (rev [pos..num - 1]) (shift_pair h n) else ret ()) (\<lambda>_.
        bindE (forE (zip [pos..pos + n - 1] ps) (store_pair h)) (\<lambda>_.
        updS (set_size (c_int (num + n)))))))"

definition node_insert :: "ix_file_hdr \<Rightarrow> byte list \<Rightarrow> rid \<Rightarrow> (mem, int) op" where
  "node_insert h key value = bindE (lookE (node_lower_bound h key)) (\<lambda>pos. bindE getS (\<lambda>m.
     bindE (if pos < num_key m
            then bindE (lookE (get_key h pos)) (\<lambda>k. bindE (lookE (\<lambda>_. key_cmp h k key)) (\<lambda>c. ret (c = 0)))
            else ret False) (\<lambda>dup.
     if dup then ret (num_key m)
     else bindE (insert_pairs h pos [(key, value)]) (\<lambda>_. bindE getS (\<lambda>m. ret (num_key m))))))"

definition move_down :: "ix_file_hdr \<Rightarrow> nat \<Rightarrow> nat \<Rightarrow> mem \<Rightarrow> mem" where
  "move_down h pos n m =
     (let m1 = mem_copy m (key_addr h pos) m (key_addr h (pos + 1)) (n * nat (col_tot_len h))
      in mem_copy m1 (rid_addr h pos) m1 (rid_addr h (pos + 1)) (n * 8))"

definition erase_pair :: "ix_file_hdr \<Rightarrow> int \<Rightarrow> (mem, unit) op" where
  "erase_pair h pos = bindE getS (\<lambda>m.
     let num = num_key m; max_size = get_max_size h
     in bindE (assertE (0 \<le> pos \<and> pos < num)) (\<lambda>_.
        bindE (if pos < num - 1
               then bindE (assertE (pos + 1 < max_size \<and> 0 \<le> num - pos - 1 \<and> num - pos - 1 \<le> max_size)) (\<lambda>_.
                    bindE (assertE (idx_ok h pos \<and> idx_ok h (pos + 1))) (\<lambda>_.
                    updS (move_down h (nat pos) (nat (num - pos - 1)))))
               else ret ()) (\<lambda>_.
        updS (set_size (c_int (num - 1))))))"

definition node_remove :: "ix_file_hdr \<Rightarrow> byte list \<Rightarrow> (mem, int) op" where
  "node_remove h key = bindE (lookE (node_lower_bound h key)) (\<lambda>pos. bindE getS (\<lambda>m.
     bindE (if pos < num_key m
            then bindE (lookE (get_key h pos)) (\<lambda>k. bindE (lookE (\<lambda>_. key_cmp h k key)) (\<lambda>c.
                 if c = 0 then erase_pair h pos else ret ()))
            else ret ()) (\<lambda>_. bindE getS (\<lambda>m. ret (num_key m)))))"

definition remove_and_return_only_child :: "ix_file_hdr \<Rightarrow> (mem, int) op" where
  "remove_and_return_only_child h = bindE getS (\<lambda>m. bindE (assertE (num_key m = 1)) (\<lambda>_.
     bindE (lookE (value_at h 0)) (\<lambda>child_page_no.
     bindE (erase_pair h 0) (\<lambda>_. bindE getS (\<lambda>m. bindE (assertE (num_key m = 0)) (\<lambda>_. ret child_page_no))))))"

text \<open>\<open>insert_pair(key_idx, key, child)\<close> of an internal node; only the page number of the new identifier is written.\<close>

definition move_up :: "ix_file_hdr \<Rightarrow> nat \<Rightarrow> nat \<Rightarrow> mem \<Rightarrow> mem" where
  "move_up h i n m =
     (let m1 = mem_copy m (key_addr h (i + 1)) m (key_addr h i) (n * nat (col_tot_len h))
      in mem_copy m1 (rid_addr h (i + 2)) m1 (rid_addr h (i + 1)) (n * 8))"

definition insert_child :: "ix_file_hdr \<Rightarrow> int \<Rightarrow> byte list \<Rightarrow> int \<Rightarrow> (mem, unit) op" where
  "insert_child h key_idx key child = bindE getS (\<lambda>m.
     let num = num_key m; max_size = get_max_size h
     in bindE (assertE (\<not> is_leaf_page m)) (\<lambda>_.
        bindE (assertE (0 \<le> key_idx \<and> key_idx \<le> num)) (\<lambda>_.
        bindE (assertE (key_idx + 1 < max_size \<and> key_idx < max_size)) (\<lambda>_.
        bindE (assertE (idx_ok h (key_idx + 2))) (\<lambda>_.
        bindE (updS (move_up h (nat key_idx) (nat (num - key_idx)))) (\<lambda>_.
        bindE (set_key h key_idx key) (\<lambda>_.
        bindE (updS (\<lambda>m. store_i32 m (rid_addr h (nat key_idx + 1)) child)) (\<lambda>_.
        updS (set_size (c_int (num + 1)))))))))))"

end
