(* ===== verification/IxEntries.thy ===== *)
theory IxEntries
  imports IxNode
begin

text \<open>
  The nodes as lists of entries: what each operation of \<open>IxNodeHandle\<close> does to the sequence of keys and row
  identifiers that a node holds, and the sorted leaf as a finite map.
\<close>

section \<open>Cells\<close>

text \<open>A header that \<open>create_index\<close> makes: the keys and the identifiers of a full node fit the page.\<close>

definition node_layout :: "ix_file_hdr \<Rightarrow> bool" where
  "node_layout h \<longleftrightarrow> 0 < col_tot_len h \<and> 0 < get_max_size h \<and> get_max_size h < 2 ^ 31 \<and> keys_size h = get_max_size h * col_tot_len h"

abbreviation max_keys :: "ix_file_hdr \<Rightarrow> nat" where
  "max_keys h \<equiv> nat (get_max_size h)"

definition cell :: "ix_file_hdr \<Rightarrow> mem \<Rightarrow> nat \<Rightarrow> byte list \<times> rid" where
  "cell h m i = (node_key h m i, node_rid h m i)"

definition entries :: "ix_file_hdr \<Rightarrow> mem \<Rightarrow> (byte list \<times> rid) list" where
  "entries h m = map (cell h m) [0..<nat (num_key m)]"

definition node_ok :: "ix_file_hdr \<Rightarrow> mem \<Rightarrow> bool" where
  "node_ok h m \<longleftrightarrow> 0 \<le> num_key m \<and> num_key m \<le> get_max_size h"

text \<open>The rest of the node header.\<close>

definition node_links :: "mem \<Rightarrow> int \<times> int \<times> bool \<times> int \<times> int" where
  "node_links m = (load_i32 m 0, node_parent m, is_leaf_page m, prev_leaf m, next_leaf m)"

definition entry_ok :: "ix_file_hdr \<Rightarrow> byte list \<times> rid \<Rightarrow> bool" where
  "entry_ok h e \<longleftrightarrow> length (fst e) = nat (col_tot_len h) \<and> rid_ok (snd e)"

lemma key_addr_bounds:
  assumes "node_layout h" and "i < max_keys h"
  shows "24 \<le> key_addr h i" and "key_addr h i + nat (col_tot_len h) \<le> rid_addr h 0"
proof -
  let ?l = "nat (col_tot_len h)"
  have k: "nat (keys_size h) = max_keys h * ?l" using assms(1) by (simp add: node_layout_def nat_mult_distrib)
  have "(i + 1) * ?l \<le> max_keys h * ?l" using assms(2) by (intro mult_le_mono1) simp
  then show "24 \<le> key_addr h i" "key_addr h i + ?l \<le> rid_addr h 0"
    using k by (simp_all add: key_addr_def rid_addr_def sizeof_IxPageHdr_def)
qed

lemma key_addr_less:
  "i < j \<Longrightarrow> key_addr h i + nat (col_tot_len h) \<le> key_addr h j"
proof -
  assume "i < j"
  then have "(i + 1) * nat (col_tot_len h) \<le> j * nat (col_tot_len h)" by (intro mult_le_mono1) simp
  then show ?thesis by (simp add: key_addr_def)
qed

lemma rid_addr_ge: "rid_addr h 0 \<le> rid_addr h i" "i < j \<Longrightarrow> rid_addr h i + 8 \<le> rid_addr h j" "24 \<le> rid_addr h i"
  by (simp_all add: rid_addr_def sizeof_IxPageHdr_def)

lemma node_rid_read: "node_rid h m i = \<lparr>rid_page_no = to_signed 4 (dec_le (take 4 (mem_read m (rid_addr h i) 8))),
    rid_slot_no = to_signed 4 (dec_le (drop 4 (mem_read m (rid_addr h i) 8)))\<rparr>"
proof -
  have "mem_read m (rid_addr h i) 8 = mem_read m (rid_addr h i) 4 @ mem_read m (rid_addr h i + 4) 4"
    using mem_read_append [of m "rid_addr h i" 4 4] by simp
  then show ?thesis by (simp add: node_rid_def load_rid_def load_i32_def)
qed

lemma cell_cong:
  assumes "\<And>a. key_addr h i \<le> a \<Longrightarrow> a < key_addr h i + nat (col_tot_len h) \<Longrightarrow> m a = m' (a - key_addr h i + key_addr h j)"
    and "\<And>a. rid_addr h i \<le> a \<Longrightarrow> a < rid_addr h i + 8 \<Longrightarrow> m a = m' (a - rid_addr h i + rid_addr h j)"
  shows "cell h m i = cell h m' j"
proof -
  have "node_key h m i = node_key h m' j" unfolding node_key_def
    by (rule mem_read_eqI) (simp add: assms(1) add.commute)
  moreover have "mem_read m (rid_addr h i) 8 = mem_read m' (rid_addr h j) 8"
    by (rule mem_read_eqI) (simp add: assms(2) add.commute)
  ultimately show ?thesis by (simp add: cell_def node_rid_read)
qed

lemma cell_move:
  assumes h: "node_layout h" and i: "i < max_keys h" and j: "j < max_keys h" and k: "k < max_keys h"
  shows "cell h (move_pair h i j m) k = (if k = j then cell h m i else cell h m k)"
proof -
  note b = key_addr_bounds [OF h] and r = rid_addr_ge [where h = h]
  define m1 where "m1 = mem_copy m (key_addr h j) m (key_addr h i) (nat (col_tot_len h))"
  have mv: "move_pair h i j m = mem_copy m1 (rid_addr h j) m1 (rid_addr h i) 8" by (simp add: move_pair_def m1_def Let_def)
  have low: "move_pair h i j m a = m1 a" if "a < rid_addr h 0" for a using that r(1) [of j] by (simp add: mv mem_copy_def)
  have high: "m1 a = m a" if "rid_addr h 0 \<le> a" for a using that b(2) [OF j] by (simp add: m1_def mem_copy_def)
  show ?thesis
  proof (cases "k = j")
    case True
    show ?thesis unfolding True if_P [OF refl]
    proof (rule cell_cong)
      fix a assume a: "key_addr h j \<le> a" "a < key_addr h j + nat (col_tot_len h)"
      then show "move_pair h i j m a = m (a - key_addr h j + key_addr h i)"
        using low [of a] b(2) [OF j] by (simp add: m1_def mem_copy_def add.commute)
    next
      fix a assume a: "rid_addr h j \<le> a" "a < rid_addr h j + 8"
      then show "move_pair h i j m a = m (a - rid_addr h j + rid_addr h i)"
        using high [of "a - rid_addr h j + rid_addr h i"] r(1) [of i] by (simp add: mv mem_copy_def add.commute)
    qed
  next
    case False
    show ?thesis unfolding if_not_P [OF False]
    proof (rule cell_cong)
      fix a assume a: "key_addr h k \<le> a" "a < key_addr h k + nat (col_tot_len h)"
      have "a < key_addr h j \<or> key_addr h j + nat (col_tot_len h) \<le> a"
        using a key_addr_less [of k j h] key_addr_less [of j k h] False by (cases "k < j") auto
      then show "move_pair h i j m a = m (a - key_addr h k + key_addr h k)"
        using a low [of a] b(2) [OF k] by (auto simp: m1_def mem_copy_def)
    next
      fix a assume a: "rid_addr h k \<le> a" "a < rid_addr h k + 8"
      have "a < rid_addr h j \<or> rid_addr h j + 8 \<le> a"
        using a r(2) [of k j] r(2) [of j k] False by (cases "k < j") auto
      then show "move_pair h i j m a = m (a - rid_addr h k + rid_addr h k)"
        using a high [of a] r(1) [of k] by (auto simp: mv mem_copy_def)
    qed
  qed
qed

lemma store_rid_load: "rid_ok r \<Longrightarrow> load_rid (store_rid m a r) a = r"
  by (simp add: load_rid_def store_rid_def rid_ok_def load_store_i32_other)

lemma store_rid_other: "a' < a \<or> a + 8 \<le> a' \<Longrightarrow> store_rid m a r a' = m a'"
  by (auto simp: store_rid_def store_i32_other)

lemma cell_put:
  assumes h: "node_layout h" and j: "j < max_keys h" and k: "k < max_keys h" and e: "entry_ok h (d, r)"
  shows "cell h (put_pair h j d r m) k = (if k = j then (d, r) else cell h m k)"
proof -
  note b = key_addr_bounds [OF h] and g = rid_addr_ge [where h = h]
  have low: "put_pair h j d r m a = mem_put m (key_addr h j) d a" if "a < rid_addr h 0" for a
    using that g(1) [of j] by (simp add: put_pair_def store_rid_other)
  have len: "length d = nat (col_tot_len h)" using e by (simp add: entry_ok_def)
  show ?thesis
  proof (cases "k = j")
    case True
    have "node_key h (put_pair h j d r m) j = mem_read (mem_put m (key_addr h j) d) (key_addr h j) (nat (col_tot_len h))"
      unfolding node_key_def by (rule mem_read_eqI, rule low) (use b(2) [OF j] in simp)
    then show ?thesis using True e len by (simp add: cell_def node_rid_def put_pair_def store_rid_load entry_ok_def)
  next
    case False
    show ?thesis unfolding if_not_P [OF False]
    proof (rule cell_cong)
      fix a assume a: "key_addr h k \<le> a" "a < key_addr h k + nat (col_tot_len h)"
      have "a < key_addr h j \<or> key_addr h j + nat (col_tot_len h) \<le> a"
        using a key_addr_less [of k j h] key_addr_less [of j k h] False by (cases "k < j") auto
      then show "put_pair h j d r m a = m (a - key_addr h k + key_addr h k)"
        using a low [of a] b(2) [OF k] len by (auto simp: mem_put_def)
    next
      fix a assume a: "rid_addr h k \<le> a" "a < rid_addr h k + 8"
      have "a < rid_addr h j \<or> rid_addr h j + 8 \<le> a"
        using a g(2) [of k j] g(2) [of j k] False by (cases "k < j") auto
      then show "put_pair h j d r m a = m (a - rid_addr h k + rid_addr h k)"
        using a b(2) [OF j] g(1) [of k] len by (auto simp: put_pair_def store_rid_other mem_put_def)
    qed
  qed
qed

text \<open>The header of the node is apart from the cells.\<close>

definition same_head :: "mem \<Rightarrow> mem \<Rightarrow> bool" where
  "same_head m m' \<longleftrightarrow> (\<forall>a < 24. m' a = m a)"

lemma same_headD: "same_head m m' \<Longrightarrow> num_key m' = num_key m \<and> node_links m' = node_links m"
proof -
  assume s: "same_head m m'"
  have l: "load_i32 m' a = load_i32 m a" if "a + 4 \<le> 24" for a
    unfolding load_i32_def using s that by (intro arg_cong [of _ _ "\<lambda>x. to_signed 4 (dec_le x)"] mem_read_eqI) (simp add: same_head_def)
  show ?thesis using l s by (simp add: num_key_def node_links_def node_parent_def is_leaf_page_def prev_leaf_def next_leaf_def same_head_def)
qed

lemma same_head_move: "node_layout h \<Longrightarrow> j < max_keys h \<Longrightarrow> same_head m (move_pair h i j m)"
  using key_addr_bounds(1) [of h j] rid_addr_ge(3) [of h j] by (auto simp: same_head_def move_pair_def Let_def mem_copy_def)

lemma same_head_put: "node_layout h \<Longrightarrow> j < max_keys h \<Longrightarrow> same_head m (put_pair h j d r m)"
  using key_addr_bounds(1) [of h j] rid_addr_ge(3) [of h j]
  by (auto simp: same_head_def put_pair_def store_rid_other mem_put_def)

lemma same_head_trans: "same_head m m' \<Longrightarrow> same_head m' m'' \<Longrightarrow> same_head m m''"
  by (simp add: same_head_def)

lemma set_size_eqs:
  assumes "node_layout h" and "int32_range n"
  shows "num_key (set_size n m) = n" and "node_links (set_size n m) = node_links m"
    and "k < max_keys h \<Longrightarrow> cell h (set_size n m) k = cell h m k"
proof -
  show "num_key (set_size n m) = n" using assms(2) by (simp add: num_key_def set_size_def)
  show "node_links (set_size n m) = node_links m"
    by (simp add: node_links_def node_parent_def is_leaf_page_def prev_leaf_def next_leaf_def set_size_def load_store_i32_other store_i32_other)
  show "cell h (set_size n m) k = cell h m k" if "k < max_keys h"
    using key_addr_bounds(1) [OF assms(1) that] rid_addr_ge(3) [of h k]
    by (intro cell_cong) (auto simp: set_size_def store_i32_other)
qed

section \<open>Inserting and erasing\<close>

lemma max_keys_int: "node_layout h \<Longrightarrow> int (max_keys h) = get_max_size h"
  by (simp add: node_layout_def)

lemma shift_loop:
  assumes h: "node_layout h"
  shows "p + d + n \<le> max_keys h \<Longrightarrow>
    \<exists>m'. forE (rev [int p..int (p + d) - 1]) (shift_pair h (int n)) m = (Inr (), m') \<and> same_head m m' \<and>
      (\<forall>k < max_keys h. cell h m' k = (if p + n \<le> k \<and> k < p + d + n then cell h m (k - n) else cell h m k))"
proof (induction d arbitrary: m)
  case 0
  then show ?case by (auto simp: same_head_def)
next
  case (Suc d)
  have r: "rev [int p..int (p + Suc d) - 1] = int (p + d) # rev [int p..int (p + d) - 1]"
    using upto_rec2 [of "int p" "int (p + Suc d) - 1"] by simp
  define m1 where "m1 = move_pair h (p + d) (p + d + n) m"
  have lt: "p + d < max_keys h" "p + d + n < max_keys h" using Suc.prems by simp_all
  have idx: "idx_ok h (int (p + d) + int n)" "idx_ok h (int (p + d))" using lt max_keys_int [OF h] by (auto simp: idx_ok_def)
  have s: "bindE (shift_pair h (int n) (int (p + d))) k m = k () m1" for k :: "unit \<Rightarrow> (mem, unit) op"
    using idx nat_int [of "p + d + n"] nat_int [of "p + d"] by (simp add: shift_pair_def bindE_apply m1_def)
  obtain m' where m': "forE (rev [int p..int (p + d) - 1]) (shift_pair h (int n)) m1 = (Inr (), m')" "same_head m1 m'"
    "\<forall>k < max_keys h. cell h m' k = (if p + n \<le> k \<and> k < p + d + n then cell h m1 (k - n) else cell h m1 k)"
    using Suc.IH [of m1] Suc.prems by auto
  have c1: "k < max_keys h \<Longrightarrow> cell h m1 k = (if k = p + d + n then cell h m (p + d) else cell h m k)" for k
    unfolding m1_def by (rule cell_move [OF h lt])
  have "cell h m' k = (if p + n \<le> k \<and> k < p + Suc d + n then cell h m (k - n) else cell h m k)" if "k < max_keys h" for k
    using m'(3) that c1 [OF that] c1 [of "k - n"] by (auto simp: less_Suc_eq)
  moreover have "same_head m m'" using same_head_trans [OF same_head_move [OF h lt(2), of m "p + d"] m'(2) [unfolded m1_def]] .
  ultimately show ?case unfolding r forE.simps s using m'(1) by blast
qed

lemma store_loop:
  assumes h: "node_layout h"
  shows "p + length ps \<le> max_keys h \<Longrightarrow> (\<And>e. e \<in> set ps \<Longrightarrow> entry_ok h e) \<Longrightarrow>
    \<exists>m'. forE (zip [int p..int p + int (length ps) - 1] ps) (store_pair h) m = (Inr (), m') \<and> same_head m m' \<and>
      (\<forall>k < max_keys h. cell h m' k = (if p \<le> k \<and> k < p + length ps then ps ! (k - p) else cell h m k))"
proof (induction ps arbitrary: p m)
  case Nil
  then show ?case by (auto simp: same_head_def)
next
  case (Cons e ps)
  obtain d r where e: "e = (d, r)" by (cases e)
  have ok: "entry_ok h (d, r)" using Cons.prems(2) e by simp
  have len: "length d = nat (col_tot_len h)" "0 < col_tot_len h" using ok h by (simp_all add: entry_ok_def node_layout_def)
  have lt: "p < max_keys h" using Cons.prems(1) by simp
  define m1 where "m1 = put_pair h p d r m"
  have u: "[int p..int p + int (length (e # ps)) - 1] = int p # [int (Suc p)..int (Suc p) + int (length ps) - 1]"
    using upto_rec1 [of "int p" "int p + int (length (e # ps)) - 1"] by (simp add: algebra_simps)
  have s: "store_pair h (int p, e) m = (Inr (), m1)"
    using lt max_keys_int [OF h] len by (simp add: store_pair_def e bindE_apply idx_ok_def memcpy_from_def m1_def)
  obtain m' where m': "forE (zip [int (Suc p)..int (Suc p) + int (length ps) - 1] ps) (store_pair h) m1 = (Inr (), m')" "same_head m1 m'"
    "\<forall>k < max_keys h. cell h m' k = (if Suc p \<le> k \<and> k < Suc p + length ps then ps ! (k - Suc p) else cell h m1 k)"
    using Cons.IH [of "Suc p" m1] Cons.prems by auto
  have c1: "k < max_keys h \<Longrightarrow> cell h m1 k = (if k = p then (d, r) else cell h m k)" for k
    unfolding m1_def by (rule cell_put [OF h lt _ ok])
  have "cell h m' k = (if p \<le> k \<and> k < p + length (e # ps) then (e # ps) ! (k - p) else cell h m k)" if "k < max_keys h" for k
    using m'(3) that c1 [OF that] e by (cases "k = p") (auto simp: nth_Cons' Suc_le_eq)
  moreover have "same_head m m'" using same_head_trans [OF same_head_put [OF h lt, of m d r] m'(2) [unfolded m1_def]] .
  ultimately show ?case unfolding u zip_Cons_Cons forE.simps using m'(1) by (simp add: bindE_apply s)
qed

lemma length_entries [simp]: "length (entries h m) = nat (num_key m)"
  by (simp add: entries_def)

lemma nth_entries: "i < nat (num_key m) \<Longrightarrow> entries h m ! i = cell h m i"
  by (simp add: entries_def)

lemma insert_pairs_spec:
  assumes h: "node_layout h" and m: "node_ok h m" and pos: "pos \<le> length (entries h m)"
    and room: "length (entries h m) + length ps \<le> max_keys h" and ps: "\<And>e. e \<in> set ps \<Longrightarrow> entry_ok h e"
  obtains m' where "insert_pairs h (int pos) ps m = (Inr (), m')"
    and "entries h m' = take pos (entries h m) @ ps @ drop pos (entries h m)" and "node_links m' = node_links m" and "node_ok h m'"
proof -
  let ?num = "nat (num_key m)" and ?n = "length ps"
  have num: "num_key m = int ?num" "?num \<le> max_keys h" using m max_keys_int [OF h] by (auto simp: node_ok_def)
  have pos': "pos \<le> ?num" using pos by simp
  have room': "?num + ?n \<le> max_keys h" using room by simp
  obtain m1 where m1: "(if int pos < num_key m then forE (rev [int pos..num_key m - 1]) (shift_pair h (int ?n)) else ret ()) m = (Inr (), m1)"
    "same_head m m1" "\<forall>k < max_keys h. cell h m1 k = (if pos + ?n \<le> k \<and> k < ?num + ?n then cell h m (k - ?n) else cell h m k)"
  proof (cases "int pos < num_key m")
    case True
    have e: "pos + (?num - pos) = ?num" using pos' by simp
    show ?thesis
      using shift_loop [OF h, of pos "?num - pos" ?n m] room' True that unfolding e num(1) [symmetric] by auto
  next
    case False
    then have "pos = ?num" using num(1) pos' by linarith
    then show ?thesis using False by (intro that [of m]) (auto simp: same_head_def)
  qed
  obtain m2 where m2: "forE (zip [int pos..int pos + int ?n - 1] ps) (store_pair h) m1 = (Inr (), m2)" "same_head m1 m2"
    "\<forall>k < max_keys h. cell h m2 k = (if pos \<le> k \<and> k < pos + ?n then ps ! (k - pos) else cell h m1 k)"
    using store_loop [OF h, of pos ps m1] room' pos' ps by auto
  have r: "int32_range (int (?num + ?n))" using room' h by (auto simp: int32_range_def node_layout_def)
  define m3 where "m3 = set_size (int (?num + ?n)) m2"
  note z = set_size_eqs [OF h r, where m = m2, folded m3_def]
  have ple: "int pos \<le> num_key m" using num(1) pos' by linarith
  have "c_int (num_key m + int ?n) = int (?num + ?n)" using r num(1) by simp
  with ple have "insert_pairs h (int pos) ps m = (Inr (), m3)"
    using m1(1) m2(1) by (simp add: insert_pairs_def bindE_apply Let_def m3_def)
  moreover have "entries h m3 = take pos (entries h m) @ ps @ drop pos (entries h m)"
  proof (rule nth_equalityI)
    show "length (entries h m3) = length (take pos (entries h m) @ ps @ drop pos (entries h m))"
      unfolding length_entries z(1) nat_int using pos' by simp
    fix k assume k: "k < length (entries h m3)"
    then have "k < ?num + ?n" "k < max_keys h" unfolding length_entries z(1) nat_int using room' by simp_all
    then show "entries h m3 ! k = (take pos (entries h m) @ ps @ drop pos (entries h m)) ! k"
      using k m1(3) m2(3) z(3) [of k] pos' by (auto simp: nth_entries nth_append not_less)
  qed
  moreover have "node_links m3 = node_links m" using z(2) same_headD [OF m1(2)] same_headD [OF m2(2)] by simp
  moreover have "node_ok h m3" unfolding node_ok_def z(1) using room' max_keys_int [OF h] by linarith
  ultimately show ?thesis by (rule that)
qed

lemma cell_move_down:
  assumes h: "node_layout h" and b: "pos + n < max_keys h" and k: "k < max_keys h"
  shows "cell h (move_down h pos n m) k = (if pos \<le> k \<and> k < pos + n then cell h m (k + 1) else cell h m k)"
proof -
  let ?l = "nat (col_tot_len h)"
  note kb = key_addr_bounds [OF h] and g = rid_addr_ge [where h = h]
  define m1 where "m1 = mem_copy m (key_addr h pos) m (key_addr h (pos + 1)) (n * ?l)"
  have mv: "move_down h pos n m = mem_copy m1 (rid_addr h pos) m1 (rid_addr h (pos + 1)) (n * 8)" by (simp add: move_down_def m1_def Let_def)
  have ke: "key_addr h pos + n * ?l = key_addr h (pos + n)" by (simp add: key_addr_def algebra_simps)
  have kn: "key_addr h (pos + n) + ?l \<le> rid_addr h 0" by (rule kb(2) [OF b])
  have low: "move_down h pos n m a = m1 a" if "a < rid_addr h 0" for a using that g(1) [of pos] by (simp add: mv mem_copy_def)
  have high: "m1 a = m a" if "rid_addr h 0 \<le> a" for a using that kn by (simp add: m1_def mem_copy_def ke)
  have re: "rid_addr h pos + n * 8 = rid_addr h (pos + n)" by (simp add: rid_addr_def)
  have step: "key_addr h (Suc i) = key_addr h i + ?l" "rid_addr h (Suc i) = rid_addr h i + 8" for i by (simp_all add: key_addr_def rid_addr_def)
  have mono: "i \<le> j \<Longrightarrow> key_addr h i \<le> key_addr h j" "i \<le> j \<Longrightarrow> rid_addr h i \<le> rid_addr h j" for i j by (simp_all add: key_addr_def rid_addr_def)
  show ?thesis
  proof (cases "pos \<le> k \<and> k < pos + n")
    case True
    have bd: "key_addr h pos \<le> key_addr h k" "key_addr h k + ?l \<le> key_addr h (pos + n)"
      "rid_addr h pos \<le> rid_addr h k" "rid_addr h k + 8 \<le> rid_addr h (pos + n)"
      using True mono [of pos k] mono [of "Suc k" "pos + n"] by (simp_all add: step)
    show ?thesis unfolding if_P [OF True]
    proof (rule cell_cong)
      fix a assume a: "key_addr h k \<le> a" "a < key_addr h k + ?l"
      then show "move_down h pos n m a = m (a - key_addr h k + key_addr h (k + 1))"
        using low [of a] kn bd by (simp add: m1_def mem_copy_def ke step add.commute)
    next
      fix a assume a: "rid_addr h k \<le> a" "a < rid_addr h k + 8"
      then show "move_down h pos n m a = m (a - rid_addr h k + rid_addr h (k + 1))"
        using bd high [of "8 + a"] g(1) [of k] by (simp add: mv mem_copy_def re step add.commute)
    qed
  next
    case False
    then have out: "k < pos \<or> pos + n \<le> k" by auto
    then have bd: "key_addr h k + ?l \<le> key_addr h pos \<or> key_addr h (pos + n) \<le> key_addr h k"
      "rid_addr h k + 8 \<le> rid_addr h pos \<or> rid_addr h (pos + n) \<le> rid_addr h k"
      using mono [of "Suc k" pos] mono [of "pos + n" k] by (auto simp: step)
    show ?thesis unfolding if_not_P [OF False]
    proof (rule cell_cong)
      fix a assume a: "key_addr h k \<le> a" "a < key_addr h k + ?l"
      then show "move_down h pos n m a = m (a - key_addr h k + key_addr h k)"
        using low [of a] kb(2) [OF k] bd(1) by (auto simp: m1_def mem_copy_def ke)
    next
      fix a assume a: "rid_addr h k \<le> a" "a < rid_addr h k + 8"
      then show "move_down h pos n m a = m (a - rid_addr h k + rid_addr h k)"
        using high [of a] g(1) [of k] bd(2) by (auto simp: mv mem_copy_def re)
    qed
  qed
qed

lemma same_head_move_down: "node_layout h \<Longrightarrow> same_head m (move_down h pos n m)"
  by (simp add: same_head_def move_down_def Let_def mem_copy_def key_addr_def rid_addr_def sizeof_IxPageHdr_def)

lemma erase_pair_spec:
  assumes h: "node_layout h" and m: "node_ok h m" and pos: "pos < length (entries h m)"
  obtains m' where "erase_pair h (int pos) m = (Inr (), m')"
    and "entries h m' = take pos (entries h m) @ drop (Suc pos) (entries h m)" and "node_links m' = node_links m" and "node_ok h m'"
proof -
  let ?num = "nat (num_key m)"
  have num: "num_key m = int ?num" "?num \<le> max_keys h" using m max_keys_int [OF h] by (auto simp: node_ok_def)
  have pos': "pos < ?num" using pos by simp
  obtain m1 where m1: "(if int pos < num_key m - 1
               then bindE (assertE (int pos + 1 < get_max_size h \<and> 0 \<le> num_key m - int pos - 1 \<and> num_key m - int pos - 1 \<le> get_max_size h)) (\<lambda>_.
                    bindE (assertE (idx_ok h (int pos) \<and> idx_ok h (int pos + 1))) (\<lambda>_.
                    updS (move_down h (nat (int pos)) (nat (num_key m - int pos - 1)))))
               else ret ()) m = (Inr (), m1)"
    "same_head m m1" "\<forall>k < max_keys h. k < ?num - 1 \<longrightarrow> cell h m1 k = (if pos \<le> k then cell h m (k + 1) else cell h m k)"
  proof (cases "int pos < num_key m - 1")
    case True
    have n: "nat (num_key m - int pos - 1) = ?num - 1 - pos" "pos + (?num - 1 - pos) < max_keys h" using True num by auto
    have c: "int pos + 1 < get_max_size h \<and> 0 \<le> num_key m - int pos - 1 \<and> num_key m - int pos - 1 \<le> get_max_size h"
      "idx_ok h (int pos) \<and> idx_ok h (int pos + 1)" using True num max_keys_int [OF h] by (auto simp: idx_ok_def)
    show ?thesis
      by (rule that [of "move_down h pos (?num - 1 - pos) m"])
        (use True c n cell_move_down [OF h n(2)] same_head_move_down [OF h] in \<open>auto simp: bindE_apply\<close>)
  next
    case False
    then have "Suc pos = ?num" using num(1) pos' by linarith
    then show ?thesis using False by (intro that [of m]) (auto simp: same_head_def)
  qed
  have r: "int32_range (int (?num - 1))" using num h by (auto simp: int32_range_def node_layout_def)
  have ci: "c_int (num_key m - 1) = int (?num - 1)" using r num(1) pos' by (simp add: of_nat_diff)
  define m2 where "m2 = set_size (int (?num - 1)) m1"
  note z = set_size_eqs [OF h r, where m = m1, folded m2_def]
  have "int pos < num_key m" using num(1) pos' by linarith
  then have "erase_pair h (int pos) m = (Inr (), m2)"
    using m1(1) by (simp add: erase_pair_def bindE_apply Let_def m2_def ci)
  moreover have "entries h m2 = take pos (entries h m) @ drop (Suc pos) (entries h m)"
  proof (rule nth_equalityI)
    show "length (entries h m2) = length (take pos (entries h m) @ drop (Suc pos) (entries h m))" unfolding length_entries z(1) nat_int using pos' by simp
    fix k assume k: "k < length (entries h m2)"
    then have "k < ?num - 1" "k < max_keys h" unfolding length_entries z(1) nat_int using num(2) by simp_all
    then show "entries h m2 ! k = (take pos (entries h m) @ drop (Suc pos) (entries h m)) ! k"
      using k m1(3) z(3) [of k] pos' by (auto simp: nth_entries nth_append not_less)
  qed
  moreover have "node_links m2 = node_links m" using z(2) same_headD [OF m1(2)] by simp
  moreover have "node_ok h m2" unfolding node_ok_def z(1) using num(2) max_keys_int [OF h] by linarith
  ultimately show ?thesis by (rule that)
qed

section \<open>Sorted nodes\<close>

lemma bsearch_cong: "(\<And>i. left \<le> i \<Longrightarrow> i < right \<Longrightarrow> g i = g' i) \<Longrightarrow> bsearch g left right = bsearch g' left right"
proof (induction g left right rule: bsearch.induct)
  case (1 g left right)
  show ?case
  proof (cases "left < right")
    case True
    define mid where "mid = left + (right - left) div 2"
    have m: "left \<le> mid" "mid < right" using True by (auto simp: mid_def)
    have e: "g mid = g' mid" by (rule 1(3)) (use m in auto)
    have u: "bsearch f left right = (case f mid of Inl e \<Rightarrow> Inl e | Inr b \<Rightarrow> if b then bsearch f (mid + 1) right else bsearch f left mid)" for f
      using True by (subst bsearch.simps) (simp add: mid_def [symmetric] Let_def)
    have a: "bsearch g (mid + 1) right = bsearch g' (mid + 1) right" if "g mid = Inr True"
      by (rule 1(1) [OF True mid_def that]) (use m 1(3) in auto)
    have b: "bsearch g left mid = bsearch g' left mid" if "g mid = Inr False"
      by (rule 1(2) [OF True mid_def that]) (use m 1(3) in auto)
    show ?thesis unfolding u e [symmetric] using a b by (auto split: sum.splits)
  qed (subst (1 2) bsearch.simps, simp)
qed

abbreviation krank :: "ix_file_hdr \<Rightarrow> byte list \<Rightarrow> int list list" where
  "krank h \<equiv> key_rank (col_types h) (col_lens h)"

abbreviation kvalid :: "ix_file_hdr \<Rightarrow> byte list \<Rightarrow> bool" where
  "kvalid h \<equiv> key_ok (col_types h) (col_lens h)"

definition node_keys :: "ix_file_hdr \<Rightarrow> mem \<Rightarrow> byte list list" where
  "node_keys h m = map fst (entries h m)"

definition sorted_node :: "ix_file_hdr \<Rightarrow> mem \<Rightarrow> bool" where
  "sorted_node h m \<longleftrightarrow> node_ok h m \<and> ixc.strict (col_types h) (col_lens h) (node_keys h m)"

definition below :: "ix_file_hdr \<Rightarrow> byte list \<Rightarrow> mem \<Rightarrow> nat" where
  "below h key m = ixc.lower (col_types h) (col_lens h) key (node_keys h m)"

lemma length_node_keys [simp]: "length (node_keys h m) = nat (num_key m)"
  by (simp add: node_keys_def)

lemma get_key_eq: "node_layout h \<Longrightarrow> node_ok h m \<Longrightarrow> 0 \<le> i \<Longrightarrow> i < num_key m \<Longrightarrow> get_key h i m = Inr (node_keys h m ! nat i)"
  by (simp add: get_key_def idx_ok_def node_ok_def node_keys_def nth_entries cell_def)

lemma get_rid_eq: "node_layout h \<Longrightarrow> node_ok h m \<Longrightarrow> 0 \<le> i \<Longrightarrow> i < num_key m \<Longrightarrow> get_rid h i m = Inr (snd (entries h m ! nat i))"
  by (simp add: get_rid_def idx_ok_def node_ok_def nth_entries cell_def)

lemma lower_bound_spec:
  assumes h: "node_layout h" and m: "node_ok h m" and s: "ixc.ordered (col_types h) (col_lens h) (node_keys h m)" and k: "kvalid h key"
  shows "node_lower_bound h key m = Inr (int (below h key m))"
proof -
  have n: "num_key m = int (length (node_keys h m))" using m by (simp add: node_ok_def)
  have "node_lower_bound h key m = bsearch (\<lambda>i. case key_cmp h (node_keys h m ! nat i) key of Inl e \<Rightarrow> Inl e | Inr c \<Rightarrow> Inr (c < 0)) 0 (num_key m)"
    unfolding node_lower_bound_def by (rule bsearch_cong) (simp add: get_key_eq [OF h m])
  then show ?thesis using ixc.lower_search [OF s k] unfolding n key_cmp_def below_def by simp
qed

lemma upper_bound_spec:
  assumes h: "node_layout h" and m: "node_ok h m" and s: "ixc.ordered (col_types h) (col_lens h) (node_keys h m)" and k: "kvalid h key"
  shows "node_upper_bound h key m = Inr (int (ixc.upper (col_types h) (col_lens h) key (node_keys h m)))"
proof -
  have n: "num_key m = int (length (node_keys h m))" using m by (simp add: node_ok_def)
  have "node_upper_bound h key m = bsearch (\<lambda>i. case key_cmp h (node_keys h m ! nat i) key of Inl e \<Rightarrow> Inl e | Inr c \<Rightarrow> Inr (c \<le> 0)) 0 (num_key m)"
    unfolding node_upper_bound_def by (rule bsearch_cong) (simp add: get_key_eq [OF h m])
  then show ?thesis using ixc.upper_search [OF s k] unfolding n key_cmp_def by simp
qed

lemma sorted_nodeD:
  assumes "sorted_node h m"
  shows "node_ok h m" and "ixc.strict (col_types h) (col_lens h) (node_keys h m)" and "ixc.ordered (col_types h) (col_lens h) (node_keys h m)"
  using assms ixc.strict_ordered by (auto simp: sorted_node_def)

lemma key_cmp_eq: "kvalid h a \<Longrightarrow> kvalid h b \<Longrightarrow> key_cmp h a b = Inr (cmp_of (krank h a) (krank h b))"
  unfolding key_cmp_def by (rule ixc.cmp_law)

text \<open>The node as a map from keys, up to equal rank, to row identifiers.\<close>

definition node_find :: "ix_file_hdr \<Rightarrow> mem \<Rightarrow> byte list \<Rightarrow> rid option" where
  "node_find h m key = map_option snd (find (\<lambda>e. krank h (fst e) = krank h key) (entries h m))"

lemma node_find_Some:
  assumes s: "ixc.strict (col_types h) (col_lens h) (node_keys h m)" and e: "e \<in> set (entries h m)" "krank h (fst e) = krank h key"
  shows "node_find h m key = Some (snd e)"
proof -
  have "sorted_wrt (<) (map (krank h) (node_keys h m))" using s by (simp add: ixc.strict_def)
  then have d: "distinct (map (krank h) (node_keys h m))" by (simp add: strict_sorted_iff)
  have "find (\<lambda>e. krank h (fst e) = krank h key) (entries h m) \<noteq> None" unfolding find_None_iff using e by blast
  then obtain e' where e': "find (\<lambda>e. krank h (fst e) = krank h key) (entries h m) = Some e'" by auto
  then have "e' \<in> set (entries h m)" "krank h (fst e') = krank h key" by (auto simp: find_Some_iff)
  moreover have "inj_on (\<lambda>x. krank h (fst x)) (set (entries h m))" using d by (simp add: node_keys_def distinct_map comp_def)
  ultimately have "e' = e" using e by (metis inj_onD)
  then show ?thesis by (simp add: node_find_def e')
qed

lemma node_find_None: "node_find h m key = None \<longleftrightarrow> (\<forall>k\<in>set (node_keys h m). krank h k \<noteq> krank h key)"
  by (auto simp: node_find_def find_None_iff node_keys_def)

text \<open>The position of a search tells whether the key is there.\<close>

lemma hit_cases:
  assumes h: "node_layout h" and s: "sorted_node h m" and k: "kvalid h key"
  obtains (hit) "below h key m < nat (num_key m)" and "kvalid h (node_keys h m ! below h key m)"
      and "krank h (node_keys h m ! below h key m) = krank h key" and "node_find h m key = Some (snd (entries h m ! below h key m))"
  | (gap) "below h key m < nat (num_key m)" and "kvalid h (node_keys h m ! below h key m)"
      and "krank h (node_keys h m ! below h key m) \<noteq> krank h key" and "node_find h m key = None"
  | (past) "below h key m = nat (num_key m)" and "node_find h m key = None"
proof -
  note s = sorted_nodeD [OF s]
  let ?b = "below h key m"
  have le: "?b \<le> nat (num_key m)" using length_takeWhile_le [of _ "node_keys h m"] by (simp add: below_def ixc.lower_def)
  show ?thesis
  proof (cases "node_find h m key")
    case None
    show ?thesis
    proof (cases "?b < nat (num_key m)")
      case True
      then have "node_keys h m ! ?b \<in> set (node_keys h m)" by simp
      then show ?thesis using gap True None s(2) by (auto simp: node_find_None ixc.strict_def)
    next
      case False
      then show ?thesis using past None le by simp
    qed
  next
    case (Some r)
    then have "\<not> (\<forall>k\<in>set (node_keys h m). krank h k \<noteq> krank h key)" using node_find_None [of h m key] by simp
    then obtain k' where k': "k' \<in> set (node_keys h m)" "krank h k' = krank h key" by blast
    note b = ixc.lower_hit [OF s(2) k', folded below_def]
    have bn: "?b < nat (num_key m)" using b(1) by simp
    have "entries h m ! ?b \<in> set (entries h m)" using bn by simp
    moreover have "fst (entries h m ! ?b) = k'" using b(2) bn by (simp add: node_keys_def)
    ultimately have "node_find h m key = Some (snd (entries h m ! ?b))" using node_find_Some [OF s(2)] k'(2) by blast
    then show ?thesis using hit bn b(2) k' s(2) by (auto simp: ixc.strict_def)
  qed
qed

section \<open>A leaf as a map\<close>

lemma node_find_split:
  assumes "entries h m = xs @ e # ys"
  shows "(\<forall>x\<in>set xs. krank h (fst x) \<noteq> krank h key) \<Longrightarrow>
    node_find h m key = (if krank h (fst e) = krank h key then Some (snd e) else map_option snd (find (\<lambda>e. krank h (fst e) = krank h key) ys))"
proof -
  assume "\<forall>x\<in>set xs. krank h (fst x) \<noteq> krank h key"
  then have "find (\<lambda>e. krank h (fst e) = krank h key) (xs @ zs) = find (\<lambda>e. krank h (fst e) = krank h key) zs" for zs
    by (induction xs) auto
  then show ?thesis by (simp add: node_find_def assms)
qed

text \<open>Two strictly sorted nodes with the same entries, in any order, are the same map.\<close>

lemma node_find_iff:
  assumes "ixc.strict (col_types h) (col_lens h) (node_keys h m)"
  shows "node_find h m key = Some r \<longleftrightarrow> (\<exists>k. (k, r) \<in> set (entries h m) \<and> krank h k = krank h key)"
proof
  assume "node_find h m key = Some r"
  then obtain e where "find (\<lambda>e. krank h (fst e) = krank h key) (entries h m) = Some e" "snd e = r" by (auto simp: node_find_def)
  then have "e \<in> set (entries h m)" "krank h (fst e) = krank h key" "e = (fst e, r)" by (auto simp: find_Some_iff)
  then show "\<exists>k. (k, r) \<in> set (entries h m) \<and> krank h k = krank h key" by metis
next
  assume "\<exists>k. (k, r) \<in> set (entries h m) \<and> krank h k = krank h key"
  then obtain k where "(k, r) \<in> set (entries h m)" "krank h k = krank h key" by blast
  then show "node_find h m key = Some r" using node_find_Some [OF assms, of "(k, r)" key] by simp
qed

section \<open>A small index\<close>

text \<open>An index on one integer column, as \<open>create_index\<close> lays it out, an empty leaf, and a leaf and an internal node with the
  key 5.\<close>

definition demo_ix :: ix_file_hdr where
  "demo_ix = \<lparr>ix_free_page = - 1, ix_num_pages = 3, root_page = 2, col_num = 1, col_types = [0], col_lens = [4], col_tot_len = 4,
     btree_order = 338, keys_size = 1356, first_leaf = 2, last_leaf = 2, tot_len = 48\<rparr>"

definition demo_leaf :: mem where
  "demo_leaf = set_is_leaf True zero_mem"

definition demo_leaf5 :: mem where
  "demo_leaf5 = set_size 1 (put_pair demo_ix 0 (enc_le 4 5) \<lparr>rid_page_no = 1, rid_slot_no = 7\<rparr> demo_leaf)"

definition demo_inner5 :: mem where
  "demo_inner5 = set_size 1 (put_pair demo_ix 0 (enc_le 4 5) \<lparr>rid_page_no = 1, rid_slot_no = 7\<rparr> zero_mem)"

lemma demo_max: "get_max_size demo_ix = 339"
  by (simp add: get_max_size_def demo_ix_def int32_range_def)

lemma demo_layout: "node_layout demo_ix"
  unfolding node_layout_def demo_max by (simp add: demo_ix_def)

lemma demo_kvalid: "kvalid demo_ix key"
  by (simp add: demo_ix_def col_ok_def col_types_c)

lemma demo_entry_ok: "entry_ok demo_ix (enc_le 4 x, \<lparr>rid_page_no = 1, rid_slot_no = 7\<rparr>)"
  by (simp add: entry_ok_def demo_ix_def rid_ok_def int32_range_def)

lemma demo_krank: "krank demo_ix (enc_le 4 x) = [[to_signed 4 (x mod 256 ^ 4)]]"
  by (simp add: demo_ix_def col_rank_def col_types_c dec_enc_le)

lemma demo_leaf_facts: "is_leaf_page demo_leaf" "num_key demo_leaf = 0" "entries demo_ix demo_leaf = []" "sorted_node demo_ix demo_leaf"
proof -
  show l: "is_leaf_page demo_leaf" by (simp add: is_leaf_page_def demo_leaf_def set_is_leaf_def mem_put_def)
  have z: "mem_read demo_leaf 8 4 = [0, 0, 0, 0]"
    by (simp add: demo_leaf_def set_is_leaf_def mem_read_def mem_put_def zero_mem_def upt_rec)
  show n: "num_key demo_leaf = 0" by (simp add: num_key_def load_i32_def z to_signed_def)
  show "entries demo_ix demo_leaf = []" by (simp add: entries_def n)
  then show "sorted_node demo_ix demo_leaf" by (simp add: sorted_node_def node_ok_def n demo_max node_keys_def ixc.strict_def)
qed

lemma demo_node5:
  assumes m': "m' = set_size 1 (put_pair demo_ix 0 (enc_le 4 5) \<lparr>rid_page_no = 1, rid_slot_no = 7\<rparr> m)"
  shows "node_links m' = node_links m" and "num_key m' = 1"
    and "entries demo_ix m' = [(enc_le 4 5, \<lparr>rid_page_no = 1, rid_slot_no = 7\<rparr>)]" and "sorted_node demo_ix m'"
proof -
  let ?m = "put_pair demo_ix 0 (enc_le 4 5) \<lparr>rid_page_no = 1, rid_slot_no = 7\<rparr> m"
  have z: "0 < max_keys demo_ix" by (simp add: demo_max)
  note s = set_size_eqs [OF demo_layout, where n = 1 and m = ?m, folded m']
  have r: "int32_range 1" by (simp add: int32_range_def)
  show "node_links m' = node_links m"
    using s(2) [OF r] same_headD [OF same_head_put [OF demo_layout z]] by simp
  show n: "num_key m' = 1" by (rule s(1) [OF r])
  show e: "entries demo_ix m' = [(enc_le 4 5, \<lparr>rid_page_no = 1, rid_slot_no = 7\<rparr>)]"
    using s(3) [OF r z] cell_put [OF demo_layout z z demo_entry_ok [of 5]] by (simp add: entries_def n)
  show "sorted_node demo_ix m'"
    unfolding sorted_node_def node_ok_def n demo_max node_keys_def e by (simp add: ixc.strict_def demo_kvalid)
qed

lemma demo_leaf5_facts:
  "is_leaf_page demo_leaf5" "entries demo_ix demo_leaf5 = [(enc_le 4 5, \<lparr>rid_page_no = 1, rid_slot_no = 7\<rparr>)]"
  "sorted_node demo_ix demo_leaf5" "num_key demo_leaf5 = 1"
  using demo_node5 [OF demo_leaf5_def] demo_leaf_facts(1) by (simp_all add: node_links_def)

lemma demo_inner5_facts:
  "\<not> is_leaf_page demo_inner5" "entries demo_ix demo_inner5 = [(enc_le 4 5, \<lparr>rid_page_no = 1, rid_slot_no = 7\<rparr>)]"
  "sorted_node demo_ix demo_inner5" "num_key demo_inner5 = 1"
  using demo_node5 [OF demo_inner5_def] by (simp_all add: node_links_def is_leaf_page_def zero_mem_def)

lemma demo_find: "node_find demo_ix demo_leaf5 (enc_le 4 5) = Some \<lparr>rid_page_no = 1, rid_slot_no = 7\<rparr>"
  "node_find demo_ix demo_leaf (enc_le 4 x) = None"
  by (simp_all add: node_find_def demo_leaf5_facts(2) demo_leaf_facts(3))

text \<open>C22: Looking a key up in a sorted leaf finds the row identifier stored under it, and nothing otherwise.\<close>

theorem leaf_lookup_finds:
  assumes h: "node_layout h" and s: "sorted_node h m" and leaf: "is_leaf_page m" and k: "kvalid h key"
  shows "leaf_lookup h key m = (Inr (node_find h m key), m)"
proof -
  note d = sorted_nodeD [OF s]
  have lb: "node_lower_bound h key m = Inr (int (below h key m))" by (rule lower_bound_spec [OF h d(1,3) k])
  have nn: "0 \<le> num_key m" using d(1) by (simp add: node_ok_def)
  note u = leaf_lookup_def bindE_apply lookE_def leaf lb
  from h s k show ?thesis
  proof (cases rule: hit_cases)
    case hit
    then have p: "int (below h key m) < num_key m" using nn by simp
    show ?thesis using hit p k by (simp add: u get_key_eq [OF h d(1)] get_rid_eq [OF h d(1)] key_cmp_eq)
  next
    case gap
    then have p: "int (below h key m) < num_key m" using nn by simp
    show ?thesis using gap p k by (simp add: u get_key_eq [OF h d(1)] key_cmp_eq)
  next
    case past
    then show ?thesis using nn by (simp add: u)
  qed
qed

theorem leaf_lookup_finds_witness:
  "leaf_lookup demo_ix (enc_le 4 5) demo_leaf5 = (Inr (Some \<lparr>rid_page_no = 1, rid_slot_no = 7\<rparr>), demo_leaf5)"
  using leaf_lookup_finds [OF demo_layout demo_leaf5_facts(3,1) demo_kvalid, of "enc_le 4 5"] by (simp only: demo_find)

text \<open>C23: Inserting into a sorted leaf that is not full keeps it sorted and adds the key to the map, unless the key is
  there already: then nothing changes. The result is the number of keys.\<close>

theorem node_insert_adds:
  assumes h: "node_layout h" and s: "sorted_node h m" and room: "num_key m < get_max_size h"
    and e: "entry_ok h (key, value)" and k: "kvalid h key"
  shows "\<exists>m'. node_insert h key value m = (Inr (num_key m'), m') \<and> sorted_node h m' \<and> node_links m' = node_links m \<and>
    num_key m' = (if node_find h m key = None then num_key m + 1 else num_key m) \<and>
    (\<forall>x. node_find h m' x =
      (if krank h x = krank h key \<and> node_find h m key = None then Some value else node_find h m x))"
proof -
  note d = sorted_nodeD [OF s]
  let ?b = "below h key m" and ?es = "entries h m"
  have lb: "node_lower_bound h key m = Inr (int ?b)" by (rule lower_bound_spec [OF h d(1,3) k])
  have nn: "0 \<le> num_key m" using d(1) by (simp add: node_ok_def)
  note u = node_insert_def bindE_apply lookE_def lb
  have new: ?thesis if none: "node_find h m key = None" and le: "?b \<le> nat (num_key m)"
    and go: "node_insert h key value m = bindE (insert_pairs h (int ?b) [(key, value)]) (\<lambda>_. bindE getS (\<lambda>m. ret (num_key m))) m"
  proof -
    obtain m' where m': "insert_pairs h (int ?b) [(key, value)] m = (Inr (), m')"
      "entries h m' = take ?b ?es @ [(key, value)] @ drop ?b ?es" "node_links m' = node_links m" "node_ok h m'"
      by (rule insert_pairs_spec [OF h d(1), of ?b "[(key, value)]"]) (use le room nn e in auto)
    have ks: "node_keys h m' = take ?b (node_keys h m) @ key # drop ?b (node_keys h m)"
      by (simp add: node_keys_def m'(2) take_map drop_map)
    have st: "ixc.strict (col_types h) (col_lens h) (node_keys h m')"
      unfolding ks below_def by (rule ixc.strict_insert [OF d(2) k]) (use none in \<open>auto simp: node_find_None\<close>)
    have "int (length (entries h m')) = int (length ?es) + 1" using le by (simp add: m'(2))
    then have num: "num_key m' = num_key m + 1" using nn m'(4) by (simp add: node_ok_def)
    have set: "set (entries h m') = insert (key, value) (set ?es)"
      using set_append [of "take ?b ?es" "drop ?b ?es"] by (auto simp: m'(2) dest: in_set_takeD in_set_dropD)
    have "node_find h m' x = (if krank h x = krank h key then Some value else node_find h m x)" for x
    proof -
      have "node_find h m' x = Some r \<longleftrightarrow> (if krank h x = krank h key then r = value else node_find h m x = Some r)" for r
      proof -
        have "\<not> (\<exists>k. (k, r) \<in> set ?es \<and> krank h k = krank h key)" using node_find_iff [OF d(2), of key r] none by simp
        then show ?thesis unfolding node_find_iff [OF st] node_find_iff [OF d(2)] set by auto
      qed
      then show ?thesis by (metis not_Some_eq)
    qed
    then show ?thesis using go m' st num none by (simp add: bindE_apply sorted_node_def)
  qed
  from h s k show ?thesis
  proof (cases rule: hit_cases)
    case hit
    then have p: "int ?b < num_key m" using nn by simp
    have "node_insert h key value m = (Inr (num_key m), m)" using hit p k by (simp add: u get_key_eq [OF h d(1)] key_cmp_eq)
    then show ?thesis using s hit by simp
  next
    case gap
    then have p: "int ?b < num_key m" using nn by simp
    show ?thesis
      by (rule new [OF gap(4)]) (use gap p k in \<open>simp_all add: u get_key_eq [OF h d(1)] key_cmp_eq\<close>)
  next
    case past
    show ?thesis by (rule new [OF past(2)]) (use past nn in \<open>simp_all add: u\<close>)
  qed
qed

theorem node_insert_adds_witness:
  "\<exists>m'. node_insert demo_ix (enc_le 4 5) \<lparr>rid_page_no = 1, rid_slot_no = 7\<rparr> demo_leaf = (Inr 1, m') \<and>
     node_find demo_ix m' (enc_le 4 5) = Some \<lparr>rid_page_no = 1, rid_slot_no = 7\<rparr>"
  using node_insert_adds [OF demo_layout demo_leaf_facts(4) _ demo_entry_ok [of 5] demo_kvalid]
  by (auto simp: demo_leaf_facts(2) demo_max demo_find(2) simp del: enc_le.simps)

text \<open>C24: Removing a key from a sorted leaf keeps it sorted and takes just that key off the map; a key that is not
  there changes nothing. The result is the number of keys.\<close>

theorem node_remove_deletes:
  assumes h: "node_layout h" and s: "sorted_node h m" and k: "kvalid h key"
  shows "\<exists>m'. node_remove h key m = (Inr (num_key m'), m') \<and> sorted_node h m' \<and> node_links m' = node_links m \<and>
    num_key m' = (if node_find h m key = None then num_key m else num_key m - 1) \<and>
    (\<forall>x. node_find h m' x = (if krank h x = krank h key then None else node_find h m x))"
proof -
  note d = sorted_nodeD [OF s]
  let ?b = "below h key m" and ?es = "entries h m"
  have lb: "node_lower_bound h key m = Inr (int ?b)" by (rule lower_bound_spec [OF h d(1,3) k])
  have nn: "0 \<le> num_key m" using d(1) by (simp add: node_ok_def)
  note u = node_remove_def bindE_apply lookE_def lb
  have absent: "krank h x = krank h key \<Longrightarrow> node_find h m x = None" if "node_find h m key = None" for x
    using that by (simp add: node_find_def)
  from h s k show ?thesis
  proof (cases rule: hit_cases)
    case hit
    have p: "int ?b < num_key m" using hit(1) nn by simp
    obtain m' where m': "erase_pair h (int ?b) m = (Inr (), m')" "entries h m' = take ?b ?es @ drop (Suc ?b) ?es"
      "node_links m' = node_links m" "node_ok h m'"
      by (rule erase_pair_spec [OF h d(1), of ?b]) (use hit(1) in auto)
    define e where "e = ?es ! ?b"
    have es: "?es = take ?b ?es @ e # drop (Suc ?b) ?es" using hit(1) by (simp add: e_def id_take_nth_drop [symmetric])
    have ke: "krank h (fst e) = krank h key" using hit(1,3) by (simp add: e_def node_keys_def)
    have "map fst ?es = map fst (take ?b ?es) @ fst e # map fst (drop (Suc ?b) ?es)" by (subst es) simp
    then have ks: "node_keys h m = map fst (take ?b ?es) @ fst e # map fst (drop (Suc ?b) ?es)" by (simp add: node_keys_def)
    have ks': "node_keys h m' = map fst (take ?b ?es) @ map fst (drop (Suc ?b) ?es)" by (simp add: node_keys_def m'(2))
    have st: "ixc.strict (col_types h) (col_lens h) (node_keys h m')"
      unfolding ks' by (rule ixc.strict_delete) (use d(2) ks in simp)
    have dist: "\<forall>x \<in> set (entries h m'). krank h (fst x) \<noteq> krank h (fst e)"
      using d(2) unfolding ks by (fastforce simp: m'(2) ixc.strict_def sorted_wrt_append)
    have set: "set ?es = insert e (set (entries h m'))" by (subst es) (auto simp: m'(2))
    have "int (length (entries h m')) = int (length ?es) - 1" using hit(1) by (simp add: m'(2))
    then have num: "num_key m' = num_key m - 1" using nn m'(4) by (simp add: node_ok_def)
    have fd: "node_find h m' x = (if krank h x = krank h key then None else node_find h m x)" for x
    proof -
      have "node_find h m' x = Some r \<longleftrightarrow> (krank h x \<noteq> krank h key \<and> node_find h m x = Some r)" for r
        unfolding node_find_iff [OF st] node_find_iff [OF d(2)] set using dist ke by (cases e) fastforce
      then show ?thesis by (metis not_Some_eq)
    qed
    have "node_remove h key m = (Inr (num_key m'), m')"
      using hit p k m'(1) by (simp add: u get_key_eq [OF h d(1)] key_cmp_eq)
    then show ?thesis using st m'(3,4) num hit(4) fd by (simp add: sorted_node_def)
  next
    case gap
    then have p: "int ?b < num_key m" using nn by simp
    have "node_remove h key m = (Inr (num_key m), m)" using gap p k by (simp add: u get_key_eq [OF h d(1)] key_cmp_eq)
    then show ?thesis using s gap(4) absent by simp
  next
    case past
    then have "node_remove h key m = (Inr (num_key m), m)" using nn by (simp add: u)
    then show ?thesis using s past(2) absent by simp
  qed
qed

theorem node_remove_deletes_witness:
  "\<exists>m'. node_remove demo_ix (enc_le 4 5) demo_leaf5 = (Inr 0, m') \<and> node_find demo_ix m' (enc_le 4 5) = None"
  using node_remove_deletes [OF demo_layout demo_leaf5_facts(3) demo_kvalid, of "enc_le 4 5"]
  by (auto simp: demo_leaf5_facts(4) demo_find(1) simp del: enc_le.simps)

section \<open>Internal nodes\<close>

text \<open>An internal node sends a key that equals one of its separators to the child left of the separator.
  The children right of it hold the keys from the separator on, so the entry is not found there.\<close>

theorem internal_lookup_left_of_separator:
  assumes h: "node_layout h" and s: "sorted_node h m" and inner: "\<not> is_leaf_page m" and room: "num_key m < get_max_size h"
    and i: "i < nat (num_key m)" and k: "kvalid h key" and sep: "krank h (node_keys h m ! i) = krank h key"
  shows "internal_lookup h key m = (Inr (rid_page_no (node_rid h m i)), m)"
proof -
  note d = sorted_nodeD [OF s]
  have mem: "node_keys h m ! i \<in> set (node_keys h m)" using i by simp
  note b = ixc.lower_hit [OF d(2) mem sep, folded below_def]
  have "distinct (map (krank h) (node_keys h m))" using d(2) by (simp add: ixc.strict_def strict_sorted_iff)
  then have "below h key m = i" using b i by (metis distinct_map length_node_keys nth_eq_iff_index_eq)
  then have lb: "node_lower_bound h key m = Inr (int i)" using lower_bound_spec [OF h d(1,3) k] by simp
  have "idx_ok h (int i)" using i room by (simp add: idx_ok_def)
  then show ?thesis using inner by (simp add: internal_lookup_def bindE_apply lookE_def lb value_at_def get_rid_def)
qed

theorem internal_lookup_left_of_separator_witness:
  "internal_lookup demo_ix (enc_le 4 5) demo_inner5 = (Inr 1, demo_inner5)"
proof -
  note e = demo_inner5_facts(2)
  have k: "node_keys demo_ix demo_inner5 ! 0 = enc_le 4 5" by (simp add: node_keys_def e del: enc_le.simps)
  have "cell demo_ix demo_inner5 0 = entries demo_ix demo_inner5 ! 0" by (simp add: entries_def demo_inner5_facts(4))
  then have r: "rid_page_no (node_rid demo_ix demo_inner5 0) = 1" by (simp add: cell_def e)
  show ?thesis
    using internal_lookup_left_of_separator [OF demo_layout demo_inner5_facts(3,1) _ _ demo_kvalid, of 0 "enc_le 4 5"]
    by (simp add: demo_inner5_facts(4) demo_max k r del: enc_le.simps)
qed

text \<open>A new separator with the number \<open>get_max_size() - 2\<close> cannot be inserted: the call asks for the address
  of a child slot behind the array, and the assertion in \<open>get_rid\<close> fails although the node is not full.\<close>

theorem insert_child_fails_before_full:
  assumes "\<not> is_leaf_page m" and "num_key m = get_max_size h - 2" and "2 \<le> get_max_size h"
  shows "insert_child h (num_key m) key child m = (Inl AssertionFailed, m)"
  using assms by (simp add: insert_child_def bindE_apply Let_def idx_ok_def)

theorem insert_child_fails_before_full_witness:
  "insert_child demo_ix 337 (enc_le 4 5) 9 (set_size 337 zero_mem) = (Inl AssertionFailed, set_size 337 zero_mem)"
proof -
  have r: "int32_range 337" by (simp add: int32_range_def)
  note s = set_size_eqs [OF demo_layout r, where m = zero_mem]
  have "\<not> is_leaf_page (set_size 337 zero_mem)" using s(2) by (simp add: node_links_def is_leaf_page_def zero_mem_def)
  then show ?thesis using insert_child_fails_before_full [of "set_size 337 zero_mem" demo_ix "enc_le 4 5" 9] s(1) by (simp add: demo_max del: enc_le.simps)
qed

end
