(* ===== verification/SmMeta.thy ===== *)
theory SmMeta
  imports IxKeys
begin

text \<open>
  The metadata of tables and indexes, \<^verbatim>\<open>system/sm_meta.h\<close>: the records and their lookups. A column type is
  the number of its \<open>enum ColType\<close>. An iterator into a vector is its position.
\<close>

section \<open>Columns and indexes\<close>

record ColMeta =
  cm_tab :: string
  cm_name :: string
  cm_type :: int
  cm_len :: int
  cm_offset :: int
  cm_index :: bool

record IndexMeta =
  im_tab :: string
  im_tot_len :: int
  im_col_num :: int
  im_cols :: "ColMeta list"
  im_unique :: bool

text \<open>A default-constructed \<open>IndexMeta\<close>; the two integers are uninitialised.\<close>

definition default_IndexMeta :: "int \<Rightarrow> int \<Rightarrow> IndexMeta" where
  "default_IndexMeta junk_len junk_num =
     \<lparr>im_tab = [], im_tot_len = junk_len, im_col_num = junk_num, im_cols = [], im_unique = True\<rparr>"

section \<open>Tables\<close>

record TabMeta =
  tm_name :: string
  tm_cols :: "ColMeta list"
  tm_indexes :: "IndexMeta list"
  tm_rows :: int

definition is_col :: "string \<Rightarrow> TabMeta \<Rightarrow> bool" where
  "is_col col_name tab \<longleftrightarrow> col_name \<in> set (map cm_name (tm_cols tab))"

text \<open>The names of the columns of an index against \<open>col_names\<close>, position by position; a column that the
  index does not have is read behind the end of the vector.\<close>

fun cols_match :: "ColMeta list \<Rightarrow> string list \<Rightarrow> db_error + bool" where
  "cols_match cols [] = Inr True"
| "cols_match [] (n # ns) = Inl (OutOfRange ''cols'')"
| "cols_match (c # cs) (n # ns) = (if cm_name c \<noteq> n then Inr False else cols_match cs ns)"

primrec find_index :: "IndexMeta list \<Rightarrow> string list \<Rightarrow> nat \<Rightarrow> db_error + nat option" where
  "find_index [] col_names i = Inr None"
| "find_index (ix # ixs) col_names i =
     (if im_col_num ix = int (length col_names)
      then case cols_match (im_cols ix) col_names of
             Inl e \<Rightarrow> Inl e
           | Inr b \<Rightarrow> if b then Inr (Some i) else find_index ixs col_names (Suc i)
      else find_index ixs col_names (Suc i))"

definition is_index :: "string list \<Rightarrow> TabMeta \<Rightarrow> db_error + bool" where
  "is_index col_names tab =
     (case find_index (tm_indexes tab) col_names 0 of Inl e \<Rightarrow> Inl e | Inr r \<Rightarrow> Inr (r \<noteq> None))"

definition get_index_meta :: "string list \<Rightarrow> TabMeta \<Rightarrow> db_error + nat" where
  "get_index_meta col_names tab =
     (case find_index (tm_indexes tab) col_names 0 of
        Inl e \<Rightarrow> Inl e
      | Inr None \<Rightarrow> Inl (IndexNotFoundError (tm_name tab) col_names)
      | Inr (Some i) \<Rightarrow> Inr i)"

primrec find_col :: "ColMeta list \<Rightarrow> string \<Rightarrow> nat \<Rightarrow> nat option" where
  "find_col [] n i = None"
| "find_col (c # cs) n i = (if cm_name c = n then Some i else find_col cs n (Suc i))"

definition get_col :: "string \<Rightarrow> TabMeta \<Rightarrow> db_error + nat" where
  "get_col col_name tab =
     (case find_col (tm_cols tab) col_name 0 of
        None \<Rightarrow> Inl (ColumnNotFoundError col_name) | Some i \<Rightarrow> Inr i)"

text \<open>The copy constructor leaves the indexes out; the copy assignment is the compiler's and keeps them.\<close>

definition copy_TabMeta :: "TabMeta \<Rightarrow> TabMeta" where
  "copy_TabMeta other = \<lparr>tm_name = tm_name other, tm_cols = tm_cols other, tm_indexes = [], tm_rows = tm_rows other\<rparr>"

section \<open>Lemmas\<close>

lemma find_col_nth:
  assumes "find_col cs n i = Some j"
  shows "i \<le> j \<and> j - i < length cs \<and> cm_name (cs ! (j - i)) = n"
  using assms
proof (induction cs arbitrary: i)
  case (Cons c cs)
  show ?case
  proof (cases "cm_name c = n")
    case False
    then have j: "Suc i \<le> j \<and> j - Suc i < length cs \<and> cm_name (cs ! (j - Suc i)) = n" using Cons by simp
    then have "j - i = Suc (j - Suc i)" by arith
    then show ?thesis using j by simp
  qed (use Cons in simp)
qed simp

lemma find_col_None: "find_col cs n i = None \<longleftrightarrow> n \<notin> set (map cm_name cs)"
  by (induction cs arbitrary: i) auto

lemma get_col_iff: "(\<exists>i. get_col n tab = Inr i) \<longleftrightarrow> is_col n tab"
  using find_col_None [of "tm_cols tab" n 0] by (auto simp: get_col_def is_col_def split: option.splits)

end
