(* ===== verification/IxTree.thy ===== *)
theory IxTree
  imports IxNode SmMeta TxnState "HOL-Library.Signed_Division"
begin

text \<open>
  The B+ tree, the class \<open>IxIndexHandle\<close> of \<^verbatim>\<open>index/ix_index_handle.{h,cpp}\<close>: the operations that span
  nodes. An \<open>IxIndexHandle\<close> is the descriptor of its file; its \<open>file_hdr_\<close> and \<open>index_meta_\<close> are the entries
  of \<open>ix_hdrs\<close> and \<open>ix_metas\<close> for it. An \<open>IxNodeHandle\<close> is the frame of its page, and its methods work on
  the memory of the frame. A key is the list of the bytes that may be read through its pointer.

  The descent to a leaf and the ways back up follow page numbers in the file, so damaged data can make
  them endless: they are \<open>partial_function (option)\<close>, and not returning is the error \<open>Diverges\<close>.
\<close>

section \<open>State\<close>

record ixs = txnm +
  ix_hdrs :: "int \<rightharpoonup> ix_file_hdr"
  ix_metas :: "int \<rightharpoonup> IndexMeta"

definition ix_hdr :: "int \<Rightarrow> ('a ixs_scheme, ix_file_hdr) op" where
  "ix_hdr fd = bindE getS (\<lambda>s. case ix_hdrs s fd of None \<Rightarrow> raise NullDereference | Some h \<Rightarrow> ret h)"

definition ix_meta :: "int \<Rightarrow> ('a ixs_scheme, IndexMeta) op" where
  "ix_meta fd = bindE getS (\<lambda>s. case ix_metas s fd of None \<Rightarrow> raise NullDereference | Some h \<Rightarrow> ret h)"

definition upd_ix_hdr :: "int \<Rightarrow> (ix_file_hdr \<Rightarrow> ix_file_hdr) \<Rightarrow> ('a ixs_scheme, unit) op" where
  "upd_ix_hdr fd g = bindE (ix_hdr fd) (\<lambda>h. updS (\<lambda>s. s\<lparr>ix_hdrs := (ix_hdrs s)(fd \<mapsto> g h)\<rparr>))"

text \<open>A method of a node, run on the memory of its frame.\<close>

definition on_page :: "nat \<Rightarrow> (mem, 'b) op \<Rightarrow> ('a bpm_scheme, 'b) op" where
  "on_page f m = (\<lambda>s. case m (page_mem f s) of (r, mm) \<Rightarrow> (r, write_frame f mm s))"

definition node_page :: "nat \<Rightarrow> 'a bpm_scheme \<Rightarrow> int" where
  "node_page f s = pid_no (pg_id (pages s f))"

section \<open>Nodes\<close>

definition fetch_node :: "int \<Rightarrow> int \<Rightarrow> ('a bpm_scheme, nat) op" where
  "fetch_node fd page_no = bindE (fetch_page \<lparr>pid_fd = fd, pid_no = page_no\<rparr>) (\<lambda>p.
     case p of None \<Rightarrow> raise NullDereference | Some f \<Rightarrow> ret f)"

definition init_node :: "mem \<Rightarrow> mem" where
  "init_node m = set_next_leaf IX_NO_PAGE (set_prev_leaf IX_NO_PAGE (set_is_leaf False (set_size 0
     (set_parent IX_NO_PAGE (set_next_free IX_NO_PAGE m)))))"

definition create_node :: "int \<Rightarrow> ('a ixs_scheme, nat) op" where
  "create_node fd = bindE (upd_ix_hdr fd (\<lambda>h. h\<lparr>ix_num_pages := c_int (ix_num_pages h + 1)\<rparr>)) (\<lambda>_.
     bindE (new_page \<lparr>pid_fd = fd, pid_no = INVALID_PAGE_ID\<rparr>) (\<lambda>(p, _).
     case p of
       None \<Rightarrow> raise NullDereference
     | Some f \<Rightarrow> bindE (poke_page f init_node) (\<lambda>_. ret f)))"

definition release_node_handle :: "int \<Rightarrow> ('a ixs_scheme, unit) op" where
  "release_node_handle fd = upd_ix_hdr fd (\<lambda>h. h\<lparr>ix_num_pages := c_int (ix_num_pages h - 1)\<rparr>)"

definition maintain_child :: "int \<Rightarrow> nat \<Rightarrow> int \<Rightarrow> ('a ixs_scheme, unit) op" where
  "maintain_child fd f child_idx = bindE (ix_hdr fd) (\<lambda>h. bindE getS (\<lambda>s.
     if is_leaf_page (page_mem f s) then ret ()
     else bindE (on_page f (lookE (value_at h child_idx))) (\<lambda>child_page_no.
          bindE (fetch_node fd child_page_no) (\<lambda>c. bindE getS (\<lambda>s.
          bindE (poke_page c (set_parent (node_page f s))) (\<lambda>_. unpin_frame c True))))))"

definition erase_leaf :: "int \<Rightarrow> nat \<Rightarrow> ('a ixs_scheme, unit) op" where
  "erase_leaf fd f = bindE getS (\<lambda>s. bindE (assertE (is_leaf_page (page_mem f s))) (\<lambda>_.
     bindE (fetch_node fd (prev_leaf (page_mem f s))) (\<lambda>prev. bindE getS (\<lambda>s.
     bindE (poke_page prev (set_next_leaf (next_leaf (page_mem f s)))) (\<lambda>_.
     bindE (unpin_frame prev True) (\<lambda>_. bindE getS (\<lambda>s.
     bindE (fetch_node fd (next_leaf (page_mem f s))) (\<lambda>next. bindE getS (\<lambda>s.
     bindE (poke_page next (set_prev_leaf (prev_leaf (page_mem f s)))) (\<lambda>_.
     unpin_frame next True))))))))))"

text \<open>\<open>maintain_parent\<close> has no caller. The comparison of the keys is \<open>memcmp\<close>.\<close>

definition parent_step :: "int \<Rightarrow> nat \<Rightarrow> ('a ixs_scheme, nat option) op" where
  "parent_step fd cur = bindE (ix_hdr fd) (\<lambda>h. bindE getS (\<lambda>s.
     if node_parent (page_mem cur s) = IX_NO_PAGE then ret None
     else bindE (fetch_node fd (node_parent (page_mem cur s))) (\<lambda>parent.
          bindE getS (\<lambda>s.
          bindE (on_page parent (lookE (find_child h (node_page cur s)))) (\<lambda>rank.
          bindE (on_page parent (lookE (get_key h rank))) (\<lambda>parent_key.
          bindE (on_page cur (lookE (get_key h 0))) (\<lambda>child_first_key.
          bindE (if parent_key = child_first_key then ret None
                 else bindE (on_page parent (set_key h rank child_first_key)) (\<lambda>_. ret (Some parent))) (\<lambda>r.
          bindE (unpin_page (pg_id (pages s parent)) True) (\<lambda>b.
          bindE (assertE b) (\<lambda>_. ret r))))))))))"

partial_function (option) parent_walk :: "int \<Rightarrow> nat \<Rightarrow> 'a ixs_scheme \<Rightarrow> ((db_error + unit) \<times> 'a ixs_scheme) option" where
  "parent_walk fd cur s =
     (case parent_step fd cur s of
        (Inl e, t) \<Rightarrow> Some (Inl e, t)
      | (Inr None, t) \<Rightarrow> Some (Inr (), t)
      | (Inr (Some p), t) \<Rightarrow> parent_walk fd p t)"

definition maintain_parent :: "int \<Rightarrow> nat \<Rightarrow> ('a ixs_scheme, unit) op" where
  "maintain_parent fd f = (\<lambda>s. returned (parent_walk fd f s) s)"

section \<open>Searching\<close>

definition child_step :: "int \<Rightarrow> byte list \<Rightarrow> nat \<Rightarrow> ('a ixs_scheme, nat) op" where
  "child_step fd key f = bindE (ix_hdr fd) (\<lambda>h.
     bindE (on_page f (internal_lookup h key)) (\<lambda>child_page_no.
     bindE (fetch_node fd child_page_no) (\<lambda>child.
     bindE (unpin_frame f False) (\<lambda>_. ret child))))"

partial_function (option) descend :: "int \<Rightarrow> byte list \<Rightarrow> nat \<Rightarrow> 'a ixs_scheme \<Rightarrow> ((db_error + nat) \<times> 'a ixs_scheme) option" where
  "descend fd key f s =
     (if is_leaf_page (page_mem f s) then Some (Inr f, s)
      else case child_step fd key f s of
             (Inl e, t) \<Rightarrow> Some (Inl e, t)
           | (Inr child, t) \<Rightarrow> descend fd key child t)"

definition find_leaf_page :: "int \<Rightarrow> byte list \<Rightarrow> ('a ixs_scheme, nat) op" where
  "find_leaf_page fd key = bindE (ix_hdr fd) (\<lambda>h.
     bindE (fetch_node fd (root_page h)) (\<lambda>f s. returned (descend fd key f s) s))"

definition get_value :: "int \<Rightarrow> byte list \<Rightarrow> ('a ixs_scheme, rid option) op" where
  "get_value fd key = bindE (find_leaf_page fd key) (\<lambda>leaf. bindE (ix_hdr fd) (\<lambda>h.
     bindE (on_page leaf (leaf_lookup h key)) (\<lambda>value.
     bindE (unpin_frame leaf False) (\<lambda>_. ret value))))"

section \<open>Inserting\<close>

definition node_pairs :: "ix_file_hdr \<Rightarrow> mem \<Rightarrow> nat \<Rightarrow> nat \<Rightarrow> (byte list \<times> rid) list" where
  "node_pairs h m i n = map (\<lambda>j. (node_key h m (i + j), node_rid h m (i + j))) [0..<n]"

definition split_leaf :: "int \<Rightarrow> nat \<Rightarrow> nat \<Rightarrow> int \<Rightarrow> ('a ixs_scheme, unit) op" where
  "split_leaf fd f g num = bindE (ix_hdr fd) (\<lambda>h.
     let split_point = (num + 1) sdiv 2
     in bindE (on_page f (lookE (get_key h split_point))) (\<lambda>_.
        bindE (on_page f (lookE (get_rid h split_point))) (\<lambda>_. bindE getS (\<lambda>s.
        bindE (on_page g (insert_pairs h 0 (node_pairs h (page_mem f s) (nat split_point) (nat (num - split_point))))) (\<lambda>_.
        bindE (poke_page f (set_size split_point)) (\<lambda>_. bindE getS (\<lambda>s.
        bindE (poke_page g (\<lambda>m. set_next_leaf (next_leaf (page_mem f s)) (set_prev_leaf (node_page f s) m))) (\<lambda>_.
        bindE (if next_leaf (page_mem f s) \<noteq> IX_NO_PAGE
               then bindE (fetch_node fd (next_leaf (page_mem f s))) (\<lambda>nl. bindE getS (\<lambda>s.
                    bindE (poke_page nl (set_prev_leaf (node_page g s))) (\<lambda>_. unpin_frame nl True)))
               else upd_ix_hdr fd (\<lambda>h. h\<lparr>last_leaf := node_page g s\<rparr>)) (\<lambda>_.
        poke_page f (set_next_leaf (node_page g s)))))))))))"

definition split_inner :: "int \<Rightarrow> nat \<Rightarrow> nat \<Rightarrow> int \<Rightarrow> ('a ixs_scheme, unit) op" where
  "split_inner fd f g num = bindE (ix_hdr fd) (\<lambda>h.
     let middle_idx = num sdiv 2; key_move_count = num - middle_idx - 1; rid_move_count = key_move_count + 1
     in bindE (assertE (idx_ok h 0 \<and> idx_ok h (middle_idx + 1))) (\<lambda>_.
        bindE (if key_move_count < 0 then raise (OutOfRange ''memcpy'') else ret ()) (\<lambda>_. bindE getS (\<lambda>s.
        bindE (poke_page g (\<lambda>m.
          let m1 = mem_copy m (key_addr h 0) (page_mem f s) (key_addr h (nat middle_idx + 1))
                     (nat key_move_count * nat (col_tot_len h))
          in mem_copy m1 (rid_addr h 0) (page_mem f s) (rid_addr h (nat middle_idx + 1)) (nat rid_move_count * 8))) (\<lambda>_.
        bindE (poke_page g (set_size key_move_count)) (\<lambda>_.
        bindE (poke_page f (set_size middle_idx)) (\<lambda>_.
        forE [0..rid_move_count - 1] (maintain_child fd g))))))))"

definition split :: "int \<Rightarrow> nat \<Rightarrow> ('a ixs_scheme, nat) op" where
  "split fd f = bindE (create_node fd) (\<lambda>g. bindE getS (\<lambda>s.
     bindE (poke_page g (\<lambda>m. set_parent (node_parent (page_mem f s)) (set_size 0 (set_is_leaf (is_leaf_page (page_mem f s)) m)))) (\<lambda>_.
     bindE getS (\<lambda>s.
     bindE (if is_leaf_page (page_mem f s) then split_leaf fd f g (num_key (page_mem f s))
            else split_inner fd f g (num_key (page_mem f s))) (\<lambda>_. ret g)))))"

text \<open>The two cases of \<open>insert_into_parent\<close>. The second returns the parent, and what its split moves up.\<close>

definition grow_root :: "int \<Rightarrow> nat \<Rightarrow> byte list \<Rightarrow> nat \<Rightarrow> ('a ixs_scheme, unit) op" where
  "grow_root fd old_node key new_node = bindE (create_node fd) (\<lambda>r. bindE (ix_hdr fd) (\<lambda>h.
     bindE (poke_page r (\<lambda>m. set_parent IX_NO_PAGE (set_is_leaf False m))) (\<lambda>_.
     bindE (assertE (idx_ok h 0)) (\<lambda>_.
     bindE (on_page r (set_key h 0 key)) (\<lambda>_.
     bindE (assertE (idx_ok h 1)) (\<lambda>_. bindE getS (\<lambda>s.
     bindE (poke_page r (\<lambda>m. set_size 1 (store_i32 (store_i32 m (rid_addr h 0) (node_page old_node s))
         (rid_addr h 1) (node_page new_node s)))) (\<lambda>_.
     bindE (poke_page old_node (set_parent (node_page r s))) (\<lambda>_.
     bindE (poke_page new_node (set_parent (node_page r s))) (\<lambda>_.
     bindE (upd_ix_hdr fd (\<lambda>h. h\<lparr>root_page := node_page r s\<rparr>)) (\<lambda>_.
     unpin_frame r True)))))))))))"

definition enter_parent :: "int \<Rightarrow> nat \<Rightarrow> byte list \<Rightarrow> nat \<Rightarrow> ('a ixs_scheme, nat \<times> (byte list \<times> nat) option) op" where
  "enter_parent fd old_node key new_node = bindE getS (\<lambda>s.
     bindE (fetch_node fd (node_parent (page_mem old_node s))) (\<lambda>p. bindE (ix_hdr fd) (\<lambda>h.
     bindE (on_page p (lookE (node_lower_bound h key))) (\<lambda>insert_pos. bindE getS (\<lambda>s.
     bindE (on_page p (insert_child h insert_pos key (node_page new_node s))) (\<lambda>_. bindE getS (\<lambda>s.
     if num_key (page_mem p s) = get_max_size h
     then bindE (on_page p (lookE (get_key h (num_key (page_mem p s) sdiv 2)))) (\<lambda>middle_key.
          bindE (split fd p) (\<lambda>np. ret (p, Some (middle_key, np))))
     else ret (p, None))))))))"

partial_function (option) climb :: "int \<Rightarrow> nat \<Rightarrow> byte list \<Rightarrow> nat \<Rightarrow> 'a ixs_scheme \<Rightarrow> ((db_error + unit) \<times> 'a ixs_scheme) option" where
  "climb fd old_node key new_node s =
     (if is_root_page (page_mem old_node s) then Some (grow_root fd old_node key new_node s)
      else case enter_parent fd old_node key new_node s of
             (Inl e, t) \<Rightarrow> Some (Inl e, t)
           | (Inr (p, None), t) \<Rightarrow> Some (unpin_frame p True t)
           | (Inr (p, Some (middle_key, np)), t) \<Rightarrow>
               Option.bind (climb fd p middle_key np t) (\<lambda>(r, u).
                 Some (bindE (\<lambda>_. (r, u)) (\<lambda>_. bindE (unpin_frame np True) (\<lambda>_. unpin_frame p True)) u)))"

definition insert_into_parent :: "int \<Rightarrow> nat \<Rightarrow> byte list \<Rightarrow> nat \<Rightarrow> ('a ixs_scheme, unit) op" where
  "insert_into_parent fd old_node key new_node = (\<lambda>s. returned (climb fd old_node key new_node s) s)"

definition unique_check :: "int \<Rightarrow> byte list \<Rightarrow> ('a ixs_scheme, unit) op" where
  "unique_check fd key = bindE (ix_meta fd) (\<lambda>im.
     if im_unique im
     then bindE (get_value fd key) (\<lambda>v.
            case v of
              None \<Rightarrow> ret ()
            | Some _ \<Rightarrow> raise (UniqueIndexViolationError
                (if im_tab im = [] then ''unknown_table'' else im_tab im)
                (if im_cols im = [] then [''unknown_column''] else map cm_name (im_cols im))))
     else ret ())"

definition insert_entry :: "int \<Rightarrow> byte list \<Rightarrow> rid \<Rightarrow> ('a ixs_scheme, int) op" where
  "insert_entry fd key value = bindE (unique_check fd key) (\<lambda>_.
     bindE (find_leaf_page fd key) (\<lambda>leaf. bindE (ix_hdr fd) (\<lambda>h. bindE getS (\<lambda>s.
     let leaf_page_no = node_page leaf s
     in bindE (on_page leaf (node_insert h key value)) (\<lambda>n.
        bindE (if n = get_max_size h
               then bindE (split fd leaf) (\<lambda>new_leaf.
                    bindE (on_page new_leaf (lookE (get_key h 0))) (\<lambda>mid_key.
                    bindE (insert_into_parent fd leaf mid_key new_leaf) (\<lambda>_. bindE (ix_hdr fd) (\<lambda>h. bindE getS (\<lambda>s.
                    bindE (if node_page leaf s = last_leaf h
                           then upd_ix_hdr fd (\<lambda>h. h\<lparr>last_leaf := node_page new_leaf s\<rparr>) else ret ()) (\<lambda>_.
                    unpin_frame new_leaf True))))))
               else ret ()) (\<lambda>_.
        bindE (unpin_frame leaf True) (\<lambda>_. ret leaf_page_no)))))))"

end
