(* ===== verification/IxDelete.thy ===== *)
theory IxDelete
  imports IxTree
begin

text \<open>
  Deleting from the B+ tree: \<open>delete_entry\<close>, \<open>coalesce_or_redistribute\<close> and what they call, of
  \<^verbatim>\<open>index/ix_index_handle.cpp\<close>.

  \<open>coalesce\<close> swaps the variables \<open>neighbor_node\<close> and \<open>node\<close> of its caller when the node is the first child;
  the caller then deletes the handle that \<open>neighbor_node\<close> holds, which is the one it was called with, and its
  own caller goes on using it. So \<open>coalesce_or_redistribute\<close> also returns whether it deleted the handle of
  its argument; using a deleted handle is the error \<open>DanglingPointer\<close>.
\<close>

definition adjust_root :: "int \<Rightarrow> nat \<Rightarrow> ('a ixs_scheme, bool) op" where
  "adjust_root fd f = bindE (ix_hdr fd) (\<lambda>h. bindE getS (\<lambda>s.
     if \<not> is_leaf_page (page_mem f s) \<and> num_key (page_mem f s) = 1
     then bindE (on_page f (lookE (value_at h 0))) (\<lambda>child_page_no.
          bindE (fetch_node fd child_page_no) (\<lambda>new_root.
          bindE (poke_page new_root (set_parent IX_NO_PAGE)) (\<lambda>_.
          bindE (upd_ix_hdr fd (\<lambda>h. h\<lparr>root_page := child_page_no\<rparr>)) (\<lambda>_.
          bindE (unpin_frame new_root True) (\<lambda>_. ret True)))))
     else if is_leaf_page (page_mem f s) \<and> num_key (page_mem f s) = 0
     then bindE (upd_ix_hdr fd (\<lambda>h. h\<lparr>root_page := IX_NO_PAGE\<rparr>)) (\<lambda>_. ret True)
     else ret False))"

definition redistribute :: "int \<Rightarrow> nat \<Rightarrow> nat \<Rightarrow> nat \<Rightarrow> int \<Rightarrow> ('a ixs_scheme, unit) op" where
  "redistribute fd neighbor f parent index = bindE (ix_hdr fd) (\<lambda>h. bindE getS (\<lambda>s.
     if index > 0
     then let last_idx = num_key (page_mem neighbor s) - 1
          in bindE (on_page neighbor (lookE (get_key h last_idx))) (\<lambda>last_key.
             bindE (on_page neighbor (lookE (get_rid h last_idx))) (\<lambda>last_rid.
             bindE (on_page f (insert_pairs h 0 [(last_key, last_rid)])) (\<lambda>_.
             bindE (on_page neighbor (erase_pair h last_idx)) (\<lambda>_.
             bindE (on_page f (lookE (get_key h 0))) (\<lambda>k.
             bindE (on_page parent (set_key h index k)) (\<lambda>_.
             if \<not> is_leaf_page (page_mem f s) then maintain_child fd f 0 else ret ()))))))
     else bindE (on_page neighbor (lookE (get_key h 0))) (\<lambda>first_key.
          bindE (on_page neighbor (lookE (get_rid h 0))) (\<lambda>first_rid.
          bindE (on_page f (insert_pairs h (num_key (page_mem f s)) [(first_key, first_rid)])) (\<lambda>_.
          bindE (on_page neighbor (erase_pair h 0)) (\<lambda>_.
          bindE (on_page neighbor (lookE (get_key h 0))) (\<lambda>k.
          bindE (on_page parent (set_key h (index + 1) k)) (\<lambda>_. bindE getS (\<lambda>s.
          if \<not> is_leaf_page (page_mem f s) then maintain_child fd f (num_key (page_mem f s) - 1) else ret ())))))))))"

text \<open>\<open>coalesce\<close> after the swap and before it looks at the parent: \<open>left\<close> takes over \<open>right\<close>.\<close>

definition append_child :: "ix_file_hdr \<Rightarrow> nat \<Rightarrow> nat \<Rightarrow> int \<Rightarrow> ('a ixs_scheme, unit) op" where
  "append_child h left right i = bindE (on_page right (lookE (get_key h i))) (\<lambda>key.
     bindE (on_page right (lookE (value_at h i))) (\<lambda>child. bindE getS (\<lambda>s.
     on_page left (insert_pairs h (num_key (page_mem left s)) [(key, \<lparr>rid_page_no = child, rid_slot_no = 0\<rparr>)]))))"

definition merge_leaf :: "int \<Rightarrow> nat \<Rightarrow> nat \<Rightarrow> ('a ixs_scheme, unit) op" where
  "merge_leaf fd left right = bindE getS (\<lambda>s.
     bindE (poke_page left (set_next_leaf (next_leaf (page_mem right s)))) (\<lambda>_. bindE (ix_hdr fd) (\<lambda>h.
     if node_page right s = last_leaf h then upd_ix_hdr fd (\<lambda>h. h\<lparr>last_leaf := node_page left s\<rparr>) else ret ())))"

definition merge_inner :: "int \<Rightarrow> nat \<Rightarrow> nat \<Rightarrow> nat \<Rightarrow> int \<Rightarrow> int \<Rightarrow> ('a ixs_scheme, unit) op" where
  "merge_inner fd left right parent parent_key_idx node_size = bindE (ix_hdr fd) (\<lambda>h.
     bindE (on_page parent (lookE (get_key h parent_key_idx))) (\<lambda>parent_key.
     bindE (on_page right (lookE (value_at h 0))) (\<lambda>child. bindE getS (\<lambda>s.
     bindE (on_page left (insert_pairs h (num_key (page_mem left s)) [(parent_key, \<lparr>rid_page_no = child, rid_slot_no = 0\<rparr>)])) (\<lambda>_.
     bindE (forE [1..node_size - 1] (append_child h left right)) (\<lambda>_. bindE getS (\<lambda>s.
     forE [num_key (page_mem left s) - node_size..num_key (page_mem left s) - 1] (maintain_child fd left))))))))"

definition coalesce :: "int \<Rightarrow> nat \<Rightarrow> nat \<Rightarrow> nat \<Rightarrow> int \<Rightarrow> ('a ixs_scheme, unit) op" where
  "coalesce fd neighbor f parent index = bindE (ix_hdr fd) (\<lambda>h. bindE getS (\<lambda>s.
     let (left, right, parent_key_idx) = (if index = 0 then (f, neighbor, 1) else (neighbor, f, index))
     in bindE (if is_leaf_page (page_mem right s) then merge_leaf fd left right
               else merge_inner fd left right parent parent_key_idx (num_key (page_mem right s))) (\<lambda>_.
        on_page parent (erase_pair h parent_key_idx))))"

text \<open>
  \<open>coalesce_or_redistribute\<close> up to the call for the parent, which \<open>coalesce\<close> makes when the parent has become
  too small. \<open>Done\<close> returns; \<open>Merged\<close> has the parent, the handle that is in \<open>neighbor_node\<close> then, and
  whether it is the handle of the argument.
\<close>

datatype fix_step = Done bool | Merged nat nat bool

definition sibling_step :: "int \<Rightarrow> nat \<Rightarrow> ('a ixs_scheme, fix_step) op" where
  "sibling_step fd f = bindE (ix_hdr fd) (\<lambda>h. bindE getS (\<lambda>s.
     if node_parent (page_mem f s) = IX_NO_PAGE then bindE (adjust_root fd f) (\<lambda>b. ret (Done b))
     else if num_key (page_mem f s) \<ge> get_min_size h then ret (Done False)
     else bindE (fetch_node fd (node_parent (page_mem f s))) (\<lambda>parent. bindE getS (\<lambda>s.
          bindE (on_page parent (lookE (find_child h (node_page f s)))) (\<lambda>node_idx.
          let neighbor_idx = (if node_idx > 0 then node_idx - 1 else node_idx + 1)
          in bindE (on_page parent (lookE (value_at h neighbor_idx))) (\<lambda>neighbor_page.
             bindE (fetch_node fd neighbor_page) (\<lambda>neighbor. bindE getS (\<lambda>s.
             if num_key (page_mem f s) + num_key (page_mem neighbor s) \<ge> 2 * get_min_size h
             then bindE (redistribute fd neighbor f parent node_idx) (\<lambda>_.
                  bindE (unpin_frame parent True) (\<lambda>_.
                  bindE (unpin_frame neighbor True) (\<lambda>_. ret (Done False))))
             else bindE (coalesce fd neighbor f parent node_idx) (\<lambda>_.
                  ret (if node_idx = 0 then Merged parent f True else Merged parent neighbor False))))))))))"

definition leave_parent :: "nat \<Rightarrow> nat \<Rightarrow> bool \<Rightarrow> bool \<times> bool \<Rightarrow> ('a ixs_scheme, bool \<times> bool) op" where
  "leave_parent parent neighbor own = (\<lambda>(parent_should_delete, parent_deleted).
     if parent_deleted then raise DanglingPointer
     else bindE (unpin_frame parent True) (\<lambda>_.
          bindE (unpin_frame neighbor True) (\<lambda>_. ret (parent_should_delete, own))))"

partial_function (option) fix_up :: "int \<Rightarrow> nat \<Rightarrow> 'a ixs_scheme \<Rightarrow> ((db_error + bool \<times> bool) \<times> 'a ixs_scheme) option" where
  "fix_up fd f s =
     (case sibling_step fd f s of
        (Inl e, t) \<Rightarrow> Some (Inl e, t)
      | (Inr (Done b), t) \<Rightarrow> Some (Inr (b, False), t)
      | (Inr (Merged parent neighbor own), t) \<Rightarrow>
          (case ix_hdr fd t of
             (Inl e, _) \<Rightarrow> Some (Inl e, t)
           | (Inr h, _) \<Rightarrow>
               if num_key (page_mem parent t) < get_min_size h
               then Option.bind (fix_up fd parent t) (\<lambda>(r, u).
                      Some (bindE (\<lambda>_. (r, u)) (leave_parent parent neighbor own) u))
               else Some (leave_parent parent neighbor own (False, False) t)))"

definition coalesce_or_redistribute :: "int \<Rightarrow> nat \<Rightarrow> ('a ixs_scheme, bool \<times> bool) op" where
  "coalesce_or_redistribute fd f = (\<lambda>s. returned (fix_up fd f s) s)"

definition delete_entry :: "int \<Rightarrow> byte list \<Rightarrow> int option \<Rightarrow> ('a ixs_scheme, bool) op" where
  "delete_entry fd key transaction = bindE (find_leaf_page fd key) (\<lambda>leaf.
     bindE (ix_hdr fd) (\<lambda>h. bindE getS (\<lambda>s.
     bindE (on_page leaf (node_remove h key)) (\<lambda>size_after_delete.
     let deleted = (size_after_delete < num_key (page_mem leaf s))
     in bindE (if deleted
               then bindE (coalesce_or_redistribute fd leaf) (\<lambda>(should_delete, handle_deleted).
                    if handle_deleted then raise DanglingPointer
                    else if should_delete
                    then case transaction of
                           Some i \<Rightarrow> upd_txn i (\<lambda>t. t\<lparr>index_deleted_page_set := index_deleted_page_set t @ [leaf]\<rparr>)
                         | None \<Rightarrow> bindE (erase_leaf fd leaf) (\<lambda>_. bindE getS (\<lambda>s.
                                   bindE (delete_page (pg_id (pages s leaf))) (\<lambda>_. release_node_handle fd)))
                    else ret ())
               else ret ()) (\<lambda>_.
        bindE (unpin_frame leaf deleted) (\<lambda>_. ret deleted))))))"

end
