(* ===== verification/IxFile.thy ===== *)
theory IxFile
  imports IxDelete
begin

text \<open>
  Positions in the index and the scan over a range, \<^verbatim>\<open>index/ix_index_handle.cpp\<close> and
  \<^verbatim>\<open>index/ix_scan.{h,cpp}\<close>, and the files, \<^verbatim>\<open>index/ix_manager.h\<close>. An \<open>IxScan\<close> is its two positions;
  \<open>print_tree\<close>, which writes a dump for debugging, is left out.
\<close>

section \<open>Positions\<close>

record iid =
  iid_page :: int
  iid_slot :: int

definition ix_get_rid :: "int \<Rightarrow> iid \<Rightarrow> ('a ixs_scheme, rid) op" where
  "ix_get_rid fd p = bindE (fetch_node fd (iid_page p)) (\<lambda>f. bindE (ix_hdr fd) (\<lambda>h. bindE getS (\<lambda>s.
     if iid_slot p \<ge> num_key (page_mem f s)
     then bindE (unpin_frame f False) (\<lambda>_. raise IndexEntryNotFoundError)
     else bindE (on_page f (lookE (get_rid h (iid_slot p)))) (\<lambda>r.
          bindE (unpin_frame f False) (\<lambda>_. ret r)))))"

definition ix_lower_bound :: "int \<Rightarrow> byte list \<Rightarrow> ('a ixs_scheme, iid) op" where
  "ix_lower_bound fd key = bindE (find_leaf_page fd key) (\<lambda>leaf. bindE (ix_hdr fd) (\<lambda>h.
     bindE (on_page leaf (lookE (node_lower_bound h key))) (\<lambda>slot_no. bindE getS (\<lambda>s.
     let m = page_mem leaf s;
         p = (if slot_no \<ge> num_key m \<and> next_leaf m \<noteq> IX_NO_PAGE then \<lparr>iid_page = next_leaf m, iid_slot = 0\<rparr>
              else \<lparr>iid_page = node_page leaf s, iid_slot = slot_no\<rparr>)
     in bindE (unpin_frame leaf False) (\<lambda>_. ret p)))))"

definition ix_upper_bound :: "int \<Rightarrow> byte list \<Rightarrow> ('a ixs_scheme, iid) op" where
  "ix_upper_bound fd key = bindE (find_leaf_page fd key) (\<lambda>leaf. bindE (ix_hdr fd) (\<lambda>h.
     bindE (on_page leaf (lookE (node_upper_bound h key))) (\<lambda>slot_no. bindE getS (\<lambda>s.
     let m = page_mem leaf s;
         p = (if slot_no \<ge> num_key m \<and> next_leaf m \<noteq> IX_NO_PAGE then \<lparr>iid_page = next_leaf m, iid_slot = 1\<rparr>
              else \<lparr>iid_page = node_page leaf s, iid_slot = slot_no\<rparr>)
     in bindE (unpin_frame leaf False) (\<lambda>_. ret p)))))"

definition leaf_end :: "int \<Rightarrow> ('a ixs_scheme, iid) op" where
  "leaf_end fd = bindE (ix_hdr fd) (\<lambda>h.
     if root_page h = IX_NO_PAGE \<or> last_leaf h = IX_NO_PAGE then ret \<lparr>iid_page = IX_NO_PAGE, iid_slot = 0\<rparr>
     else bindE (fetch_node fd (last_leaf h)) (\<lambda>f. bindE getS (\<lambda>s.
          bindE (unpin_frame f False) (\<lambda>_. ret \<lparr>iid_page = last_leaf h, iid_slot = num_key (page_mem f s)\<rparr>))))"

definition leaf_begin :: "int \<Rightarrow> ('a ixs_scheme, iid) op" where
  "leaf_begin fd = bindE (ix_hdr fd) (\<lambda>h.
     if root_page h = IX_NO_PAGE \<or> first_leaf h = IX_NO_PAGE then leaf_end fd
     else ret \<lparr>iid_page = first_leaf h, iid_slot = 0\<rparr>)"

section \<open>Scans\<close>

record ix_scan =
  scan_iid :: iid
  scan_end :: iid

definition create_scan :: "int \<Rightarrow> byte list option \<Rightarrow> byte list option \<Rightarrow> bool \<Rightarrow> bool \<Rightarrow> ('a ixs_scheme, ix_scan) op" where
  "create_scan fd lower_key upper_key lower_inclusive upper_inclusive =
     bindE (case lower_key of
              None \<Rightarrow> leaf_begin fd
            | Some k \<Rightarrow> if lower_inclusive then ix_lower_bound fd k else ix_upper_bound fd k) (\<lambda>begin_iid.
     bindE (case upper_key of
              None \<Rightarrow> leaf_end fd
            | Some k \<Rightarrow> if upper_inclusive then ix_upper_bound fd k else ix_lower_bound fd k) (\<lambda>end_iid.
     ret \<lparr>scan_iid = begin_iid, scan_end = end_iid\<rparr>))"

definition ix_is_end :: "ix_scan \<Rightarrow> bool" where
  "ix_is_end c \<longleftrightarrow> scan_iid c = scan_end c"

definition ix_next :: "int \<Rightarrow> ix_scan \<Rightarrow> ('a ixs_scheme, ix_scan) op" where
  "ix_next fd c =
     (if ix_is_end c then ret c
      else bindE (fetch_node fd (iid_page (scan_iid c))) (\<lambda>f. bindE getS (\<lambda>s.
        let m = page_mem f s; slot = c_int (iid_slot (scan_iid c) + 1);
            c1 = c\<lparr>scan_iid := (scan_iid c)\<lparr>iid_slot := slot\<rparr>\<rparr>
        in bindE (assertE (is_leaf_page m)) (\<lambda>_.
           if ix_is_end c1 then bindE (unpin_frame f False) (\<lambda>_. ret c1)
           else let c2 = (if slot = num_key m
                          then if next_leaf m \<noteq> IX_NO_PAGE \<and> next_leaf m \<noteq> IX_LEAF_HEADER_PAGE
                               then c1\<lparr>scan_iid := \<lparr>iid_page = next_leaf m, iid_slot = 0\<rparr>\<rparr>
                               else c1\<lparr>scan_iid := scan_end c1\<rparr>
                          else c1)
                in bindE (unpin_frame f False) (\<lambda>_. ret c2)))))"

definition ix_scan_rid :: "int \<Rightarrow> ix_scan \<Rightarrow> ('a ixs_scheme, rid) op" where
  "ix_scan_rid fd c = (if ix_is_end c then raise IndexEntryNotFoundError else ix_get_rid fd (scan_iid c))"

section \<open>IxManager\<close>

definition get_index_name :: "string \<Rightarrow> string list \<Rightarrow> string" where
  "get_index_name filename index_cols = filename @ concat (map (\<lambda>c. ''_'' @ c) index_cols) @ ''.idx''"

definition ix_exists :: "string \<Rightarrow> string list \<Rightarrow> 'a disk_scheme \<Rightarrow> bool" where
  "ix_exists filename index_cols s = is_file (get_index_name filename index_cols) s"

text \<open>The order is computed in \<open>size_t\<close>.\<close>

definition btree_order_of :: "int \<Rightarrow> int" where
  "btree_order_of len = c_int ((int PAGE_SIZE - int sizeof_IxPageHdr) div ((len + 8) mod 2 ^ 64) - 1)"

definition new_index_hdr :: "ColMeta list \<Rightarrow> ix_file_hdr" where
  "new_index_hdr index_cols =
     (let len = sum_list (map cm_len index_cols); ord = btree_order_of len
      in update_tot_len \<lparr>ix_free_page = IX_NO_PAGE, ix_num_pages = IX_INIT_NUM_PAGES, root_page = IX_INIT_ROOT_PAGE,
           col_num = int (length index_cols), col_types = map cm_type index_cols, col_lens = map cm_len index_cols,
           col_tot_len = len, btree_order = ord, keys_size = c_int ((ord + 1) * len),
           first_leaf = IX_INIT_ROOT_PAGE, last_leaf = IX_INIT_ROOT_PAGE, tot_len = 0\<rparr>)"

definition new_leaf_page :: "int \<Rightarrow> mem" where
  "new_leaf_page neighbor = set_next_leaf neighbor (set_prev_leaf neighbor (set_is_leaf True (set_size 0
     (set_parent IX_NO_PAGE (set_next_free IX_NO_PAGE zero_mem)))))"

definition ix_create_index :: "string \<Rightarrow> ColMeta list \<Rightarrow> ('a disk_scheme, unit) op" where
  "ix_create_index filename index_cols =
     (let ix_name = get_index_name filename (map cm_name index_cols)
      in bindE (create_file ix_name) (\<lambda>_.
         bindE (open_file ix_name) (\<lambda>fd.
         let h = new_index_hdr index_cols
         in if col_tot_len h > IX_MAX_COL_LEN then raise (InvalidColLengthError (col_tot_len h))
            else bindE (assertE (btree_order h > 2)) (\<lambda>_.
                 case ix_serialize h zero_mem 0 of
                   Inl e \<Rightarrow> raise e
                 | Inr data \<Rightarrow>
                     bindE (write_page fd IX_FILE_HDR_PAGE data PAGE_SIZE) (\<lambda>_.
                     bindE (write_page fd IX_LEAF_HEADER_PAGE (new_leaf_page IX_INIT_ROOT_PAGE) PAGE_SIZE) (\<lambda>_.
                     bindE (write_page fd IX_INIT_ROOT_PAGE (new_leaf_page IX_LEAF_HEADER_PAGE) PAGE_SIZE) (\<lambda>_.
                     bindE (updS (set_fd2pageno fd (IX_INIT_NUM_PAGES - 1))) (\<lambda>_.
                     close_file fd))))))))"

text \<open>The overload for columns looks whether the file is there, the one for names does not.\<close>

definition destroy_index :: "string \<Rightarrow> ColMeta list \<Rightarrow> ('a disk_scheme, unit) op" where
  "destroy_index filename index_cols = bindE getS (\<lambda>s.
     let ix_name = get_index_name filename (map cm_name index_cols)
     in if is_file ix_name s then destroy_file ix_name else ret ())"

definition destroy_index_names :: "string \<Rightarrow> string list \<Rightarrow> ('a disk_scheme, unit) op" where
  "destroy_index_names filename index_cols = destroy_file (get_index_name filename index_cols)"

definition load_index_hdr :: "int \<Rightarrow> ('a ixs_scheme, unit) op" where
  "load_index_hdr fd = bindE (read_page fd IX_FILE_HDR_PAGE zero_mem PAGE_SIZE) (\<lambda>buf.
     case ix_deserialize buf 0 of
       Inl e \<Rightarrow> raise e
     | Inr h \<Rightarrow> updS (\<lambda>s. s\<lparr>ix_hdrs := (ix_hdrs s)(fd \<mapsto> h)\<rparr>))"

definition open_index :: "string \<Rightarrow> string list \<Rightarrow> IndexMeta option \<Rightarrow> ('a ixs_scheme, int) op" where
  "open_index filename index_cols meta = bindE (open_file (get_index_name filename index_cols)) (\<lambda>fd.
     bindE (load_index_hdr fd) (\<lambda>_.
     bindE (case meta of
              Some im \<Rightarrow>
                bindE (updS (\<lambda>s. s\<lparr>ix_metas := (ix_metas s)(fd \<mapsto> im)\<rparr>)) (\<lambda>_. bindE getS (\<lambda>s.
                updS (set_fd2pageno fd (c_int (get_fd2pageno fd s + 1)))))
            | None \<Rightarrow> updS (\<lambda>s. s\<lparr>ix_metas := (ix_metas s)(fd \<mapsto> default_IndexMeta 0 0)\<rparr>)) (\<lambda>_.
     ret fd)))"

definition close_index :: "int \<Rightarrow> ('a ixs_scheme, unit) op" where
  "close_index fd = bindE (ix_hdr fd) (\<lambda>h.
     bindE (new_record (tot_len h)) (\<lambda>_.
     case ix_serialize h zero_mem 0 of
       Inl e \<Rightarrow> raise e
     | Inr data \<Rightarrow>
         bindE (write_page fd IX_FILE_HDR_PAGE data (nat (tot_len h))) (\<lambda>_.
         bindE (flush_all_pages fd) (\<lambda>_. close_file fd))))"

end
