(* ===== verification/SmText.thy ===== *)
theory SmText
  imports SmMeta "HOL-Library.Char_ord" "HOL-Library.List_Lexorder"
begin

text \<open>
  The text format of the catalogue, the operators \<open><<\<close> and \<open>>>\<close> of \<^verbatim>\<open>system/sm_meta.h\<close> and the ones for
  enumerations in \<^verbatim>\<open>defs.h\<close>. An input stream is the text that is left; a reader returns \<open>None\<close> when the
  stream fails. A \<open>std::map\<close> from names to tables is a partial map, walked in the order of the names.
\<close>

section \<open>Numbers and words\<close>

definition digit_char :: "nat \<Rightarrow> char" where
  "digit_char d = char_of (48 + d)"

definition is_digit_char :: "char \<Rightarrow> bool" where
  "is_digit_char c \<longleftrightarrow> 48 \<le> (of_char c :: nat) \<and> (of_char c :: nat) \<le> 57"

fun nat_str :: "nat \<Rightarrow> string" where
  "nat_str n = (if n < 10 then [digit_char n] else nat_str (n div 10) @ [digit_char (n mod 10)])"

declare nat_str.simps [simp del]

definition int_str :: "int \<Rightarrow> string" where
  "int_str i = (if i < 0 then CHR ''-'' # nat_str (nat (- i)) else nat_str (nat i))"

definition digits_val :: "string \<Rightarrow> nat" where
  "digits_val ds = foldl (\<lambda>n c. 10 * n + (of_char c - 48)) 0 ds"

definition is_space_char :: "char \<Rightarrow> bool" where
  "is_space_char c \<longleftrightarrow> (of_char c :: nat) = 32 \<or> 9 \<le> (of_char c :: nat) \<and> (of_char c :: nat) \<le> 13"

type_synonym 'a reader = "string \<Rightarrow> ('a \<times> string) option"

definition rd_ret :: "'a \<Rightarrow> 'a reader" where
  "rd_ret x = (\<lambda>s. Some (x, s))"

definition rd_bind :: "'a reader \<Rightarrow> ('a \<Rightarrow> 'b reader) \<Rightarrow> 'b reader" where
  "rd_bind m k = (\<lambda>s. case m s of None \<Rightarrow> None | Some (x, t) \<Rightarrow> k x t)"

definition skip_space :: "string \<Rightarrow> string" where
  "skip_space s = dropWhile is_space_char s"

definition rd_word :: "string reader" where
  "rd_word s = (let t = skip_space s; w = takeWhile (\<lambda>c. \<not> is_space_char c) t
     in if w = [] then None else Some (w, drop (length w) t))"

text \<open>A number: a sign and digits, the longest run of them, in the range of the type.\<close>

definition rd_number :: "int reader" where
  "rd_number s = (let t = skip_space s; (sgn, u) = (case t of [] \<Rightarrow> (1, t)
       | c # cs \<Rightarrow> if c = CHR ''-'' then (- 1, cs) else if c = CHR ''+'' then (1, cs) else (1, t));
     ds = takeWhile is_digit_char u
     in if ds = [] then None else Some (sgn * int (digits_val ds), drop (length ds) u))"

definition rd_range :: "int \<Rightarrow> int \<Rightarrow> int reader" where
  "rd_range lo hi = rd_bind rd_number (\<lambda>i. if lo \<le> i \<and> i \<le> hi then rd_ret i else (\<lambda>_. None))"

definition rd_int :: "int reader" where
  "rd_int = rd_range (- (2 ^ 31)) (2 ^ 31 - 1)"

definition rd_int64 :: "int reader" where
  "rd_int64 = rd_range (- (2 ^ 63)) (2 ^ 63 - 1)"

text \<open>A \<open>size_t\<close> with a minus sign is read and negated modulo \<open>2 ^ 64\<close>.\<close>

definition rd_size :: "int reader" where
  "rd_size = rd_bind (rd_range (- (2 ^ 64) + 1) (2 ^ 64 - 1)) (\<lambda>i. rd_ret (i mod 2 ^ 64))"

definition rd_bool :: "bool reader" where
  "rd_bool = rd_bind (rd_range 0 1) (\<lambda>i. rd_ret (i = 1))"

definition bool_str :: "bool \<Rightarrow> string" where
  "bool_str b = (if b then ''1'' else ''0'')"

definition rd_times :: "nat \<Rightarrow> 'a reader \<Rightarrow> 'a list reader" where
  "rd_times n r = ((\<lambda>k. rd_bind r (\<lambda>x. rd_bind k (\<lambda>xs. rd_ret (x # xs)))) ^^ n) (rd_ret [])"

section \<open>The format\<close>

definition newline :: string where
  "newline = [char_of (10 :: nat)]"

definition col_text :: "ColMeta \<Rightarrow> string" where
  "col_text c = cm_tab c @ '' '' @ cm_name c @ '' '' @ int_str (cm_type c) @ '' '' @ int_str (cm_len c) @ '' '' @
     int_str (cm_offset c) @ '' '' @ bool_str (cm_index c)"

definition rd_col :: "ColMeta reader" where
  "rd_col = rd_bind rd_word (\<lambda>tab. rd_bind rd_word (\<lambda>name. rd_bind rd_int (\<lambda>ty. rd_bind rd_int (\<lambda>len.
     rd_bind rd_int (\<lambda>off. rd_bind rd_bool (\<lambda>ix.
     rd_ret \<lparr>cm_tab = tab, cm_name = name, cm_type = ty, cm_len = len, cm_offset = off, cm_index = ix\<rparr>))))))"

definition index_text :: "IndexMeta \<Rightarrow> string" where
  "index_text ix = im_tab ix @ '' '' @ int_str (im_tot_len ix) @ '' '' @ int_str (im_col_num ix) @ '' '' @ bool_str (im_unique ix) @
     concat (map (\<lambda>c. newline @ col_text c) (im_cols ix))"

definition rd_index :: "IndexMeta reader" where
  "rd_index = rd_bind rd_word (\<lambda>tab. rd_bind rd_int (\<lambda>len. rd_bind rd_int (\<lambda>num. rd_bind rd_bool (\<lambda>un.
     rd_bind (rd_times (nat num) rd_col) (\<lambda>cols.
     rd_ret \<lparr>im_tab = tab, im_tot_len = len, im_col_num = num, im_cols = cols, im_unique = un\<rparr>)))))"

definition tab_text :: "TabMeta \<Rightarrow> string" where
  "tab_text t = tm_name t @ newline @ int_str (int (length (tm_cols t))) @ newline @
     concat (map (\<lambda>c. col_text c @ newline) (tm_cols t)) @
     int_str (int (length (tm_indexes t))) @ newline @
     concat (map (\<lambda>ix. index_text ix @ newline) (tm_indexes t)) @
     int_str (tm_rows t) @ newline"

definition rd_tab :: "TabMeta reader" where
  "rd_tab = rd_bind rd_word (\<lambda>name. rd_bind rd_size (\<lambda>n. rd_bind (rd_times (nat n) rd_col) (\<lambda>cols.
     rd_bind rd_size (\<lambda>m. rd_bind (rd_times (nat m) rd_index) (\<lambda>ixs. rd_bind rd_int (\<lambda>rows.
     rd_ret \<lparr>tm_name = name, tm_cols = cols, tm_indexes = ixs, tm_rows = rows\<rparr>))))))"

record DbMeta =
  dbm_name :: string
  dbm_tabs :: "string \<rightharpoonup> TabMeta"
  dbm_next_ts :: int

definition tabs_in_order :: "(string \<rightharpoonup> TabMeta) \<Rightarrow> TabMeta list" where
  "tabs_in_order m = map (\<lambda>k. the (m k)) (sorted_list_of_set (dom m))"

definition db_text :: "DbMeta \<Rightarrow> string" where
  "db_text d = dbm_name d @ '' '' @ int_str (int (card (dom (dbm_tabs d)))) @ '' '' @ int_str (dbm_next_ts d) @ newline @
     concat (map tab_text (tabs_in_order (dbm_tabs d)))"

text \<open>The tables are entered into the map that is there.\<close>

definition rd_db :: "(string \<rightharpoonup> TabMeta) \<Rightarrow> DbMeta reader" where
  "rd_db tabs = rd_bind rd_word (\<lambda>name. rd_bind rd_int (\<lambda>n. rd_bind rd_int64 (\<lambda>ts.
     rd_bind (rd_times (nat n) rd_tab) (\<lambda>ts'.
     rd_ret \<lparr>dbm_name = name, dbm_tabs = foldl (\<lambda>m t. m(tm_name t \<mapsto> t)) tabs ts', dbm_next_ts = ts\<rparr>))))"

section \<open>Reading back numbers and words\<close>

lemma of_digit_char: "d < 10 \<Longrightarrow> of_char (digit_char d) = 48 + d"
  by (simp add: digit_char_def)

lemma digit_is_digit: "d < 10 \<Longrightarrow> is_digit_char (digit_char d)"
  by (simp add: is_digit_char_def of_digit_char)

lemma digit_no_space: "is_digit_char c \<Longrightarrow> \<not> is_space_char c"
  by (auto simp: is_digit_char_def is_space_char_def)

lemma digit_no_sign: "is_digit_char c \<Longrightarrow> c \<noteq> CHR ''-'' \<and> c \<noteq> CHR ''+''"
  by (auto simp: is_digit_char_def)

lemma nat_str_digits: "c \<in> set (nat_str n) \<Longrightarrow> is_digit_char c"
proof (induction n rule: nat_str.induct)
  case (1 n)
  then show ?case by (auto simp: nat_str.simps [of n] digit_is_digit split: if_splits)
qed

lemma nat_str_nonempty [simp]: "nat_str n \<noteq> []"
  by (simp add: nat_str.simps [of n])

lemma digits_val_append: "digits_val (xs @ [c]) = 10 * digits_val xs + (of_char c - 48)"
  by (simp add: digits_val_def)

lemma digits_val_nat_str: "digits_val (nat_str n) = n"
proof (induction n rule: nat_str.induct)
  case (1 n)
  show ?case
  proof (cases "n < 10")
    case True
    then show ?thesis by (simp add: nat_str.simps [of n] digits_val_def of_digit_char)
  next
    case False
    then show ?thesis using 1 by (subst nat_str.simps) (simp add: digits_val_append of_digit_char)
  qed
qed

text \<open>
  \<open>reads r t x\<close>: the reader takes exactly the text \<open>t\<close> off a stream in which it is followed by white space
  or by the end, and finds \<open>x\<close>.
\<close>

definition cut_here :: "string \<Rightarrow> bool" where
  "cut_here s \<longleftrightarrow> s = [] \<or> is_space_char (hd s)"

definition reads :: "'a reader \<Rightarrow> string \<Rightarrow> 'a \<Rightarrow> bool" where
  "reads r t x \<longleftrightarrow> (\<forall>rest. cut_here rest \<longrightarrow> r (t @ rest) = Some (x, rest))"

definition skips :: "'a reader \<Rightarrow> bool" where
  "skips r \<longleftrightarrow> (\<forall>c s. is_space_char c \<longrightarrow> r (c # s) = r s)"

lemma reads_ret: "reads (rd_ret x) [] x"
  by (simp add: reads_def rd_ret_def)

lemma reads_bind:
  assumes "reads r s x" and "reads (k x) t y" and "cut_here t"
  shows "reads (rd_bind r k) (s @ t) y"
  unfolding reads_def
proof (intro allI impI)
  fix rest assume rest: "cut_here rest"
  then have "cut_here (t @ rest)" using assms(3) by (cases t) (auto simp: cut_here_def)
  then show "rd_bind r k ((s @ t) @ rest) = Some (y, rest)"
    using assms(1,2) rest by (simp add: reads_def rd_bind_def)
qed

lemma reads_map: "reads r s x \<Longrightarrow> reads (rd_bind r (\<lambda>x. rd_ret (f x))) s (f x)"
  using reads_bind [of r s x "\<lambda>x. rd_ret (f x)" "[]" "f x", OF _ reads_ret] by (simp add: cut_here_def)

lemma reads_skip: "skips r \<Longrightarrow> reads r t x \<Longrightarrow> is_space_char c \<Longrightarrow> reads r (c # t) x"
  by (simp add: reads_def skips_def)

lemma skips_bind: "skips r \<Longrightarrow> skips (rd_bind r k)"
  by (simp add: skips_def rd_bind_def)

lemma skips_word: "skips rd_word"
  by (simp add: skips_def rd_word_def skip_space_def)

lemma skips_number: "skips rd_number"
  by (simp add: skips_def rd_number_def skip_space_def)

lemmas skips_numbers = skips_bind [OF skips_number, folded rd_range_def]

lemma skips_typed: "skips rd_int" "skips rd_int64" "skips rd_size" "skips rd_bool"
  by (simp_all add: rd_int_def rd_int64_def rd_size_def rd_bool_def rd_range_def skips_bind skips_number)

text \<open>Words: not empty and without white space.\<close>

definition wordlike :: "string \<Rightarrow> bool" where
  "wordlike w \<longleftrightarrow> w \<noteq> [] \<and> (\<forall>c \<in> set w. \<not> is_space_char c)"

lemma takeWhile_cut: "(\<forall>c \<in> set w. Q c) \<Longrightarrow> rest = [] \<or> \<not> Q (hd rest) \<Longrightarrow> takeWhile Q (w @ rest) = w"
  by (cases rest) simp_all

lemma reads_word:
  assumes "wordlike w"
  shows "reads rd_word w w"
  unfolding reads_def
proof (intro allI impI)
  fix rest assume rest: "cut_here rest"
  obtain c w' where w: "w = c # w'" "\<not> is_space_char c" using assms by (cases w) (auto simp: wordlike_def)
  then have skip: "skip_space (w @ rest) = w @ rest" by (simp add: skip_space_def)
  have take: "takeWhile (\<lambda>c. \<not> is_space_char c) (w @ rest) = w"
    using assms rest by (intro takeWhile_cut) (auto simp: wordlike_def cut_here_def)
  show "rd_word (w @ rest) = Some (w, rest)"
    unfolding rd_word_def skip Let_def take using w(1) by simp
qed

lemma reads_digits:
  assumes "cut_here rest"
  shows "takeWhile is_digit_char (nat_str n @ rest) = nat_str n"
  using assms nat_str_digits digit_no_space by (intro takeWhile_cut) (auto simp: cut_here_def)

lemma reads_number: "reads rd_number (int_str i) i"
  unfolding reads_def
proof (intro allI impI)
  fix rest assume rest: "cut_here rest"
  obtain c ds where n: "nat_str (nat \<bar>i\<bar>) = c # ds" by (cases "nat_str (nat \<bar>i\<bar>)") simp_all
  then have c: "is_digit_char c" using nat_str_digits [of c "nat \<bar>i\<bar>"] by simp
  note cut = reads_digits [OF rest, of "nat \<bar>i\<bar>"]
  show "rd_number (int_str i @ rest) = Some (i, rest)"
  proof (cases "i < 0")
    case True
    then have "skip_space (int_str i @ rest) = CHR ''-'' # nat_str (nat \<bar>i\<bar>) @ rest"
      by (simp add: skip_space_def int_str_def is_space_char_def)
    then show ?thesis unfolding rd_number_def Let_def using cut True by (simp add: digits_val_nat_str)
  next
    case False
    then have i: "int_str i @ rest = nat_str (nat \<bar>i\<bar>) @ rest" by (simp add: int_str_def)
    have skip: "skip_space (nat_str (nat \<bar>i\<bar>) @ rest) = nat_str (nat \<bar>i\<bar>) @ rest"
      using n digit_no_space [OF c] by (simp add: skip_space_def)
    have "(case nat_str (nat \<bar>i\<bar>) @ rest of [] \<Rightarrow> (1, nat_str (nat \<bar>i\<bar>) @ rest)
        | c # cs \<Rightarrow> if c = CHR ''-'' then (- 1, cs) else if c = CHR ''+'' then (1, cs) else (1, nat_str (nat \<bar>i\<bar>) @ rest)) =
        (1 :: int, nat_str (nat \<bar>i\<bar>) @ rest)"
      using n digit_no_sign [OF c] by simp
    then show ?thesis unfolding rd_number_def Let_def i skip using cut False by (simp add: digits_val_nat_str)
  qed
qed

lemma reads_range: "lo \<le> i \<Longrightarrow> i \<le> hi \<Longrightarrow> reads (rd_range lo hi) (int_str i) i"
  using reads_number [of i] by (simp add: reads_def rd_range_def rd_bind_def rd_ret_def)

lemma reads_int: "int32_range i \<Longrightarrow> reads rd_int (int_str i) i"
  by (simp add: rd_int_def reads_range int32_range_def)

lemma reads_int64: "- (2 ^ 63) \<le> i \<Longrightarrow> i < 2 ^ 63 \<Longrightarrow> reads rd_int64 (int_str i) i"
  by (simp add: rd_int64_def reads_range)

lemma reads_size: "0 \<le> i \<Longrightarrow> i < 2 ^ 64 \<Longrightarrow> reads rd_size (int_str i) i"
  using reads_map [OF reads_range [of "- (2 ^ 64) + 1" i "2 ^ 64 - 1"], of "\<lambda>i. i mod 2 ^ 64"] by (simp add: rd_size_def)

lemma reads_bool: "reads rd_bool (bool_str b) b"
proof -
  have b: "bool_str True = int_str 1" "bool_str False = int_str 0" by code_simp+
  show ?thesis
    using reads_map [OF reads_range [of 0 1 1], of "\<lambda>i. i = 1"] reads_map [OF reads_range [of 0 0 1], of "\<lambda>i. i = 1"] b
    by (cases b) (simp_all add: rd_bool_def)
qed

section \<open>The round trip\<close>

lemma cut_space [simp]: "cut_here (CHR '' '' # s)" "cut_here (newline @ s)" "cut_here []"
  by (simp_all add: cut_here_def is_space_char_def newline_def)

lemma newline_eq: "newline = [char_of (10 :: nat)]" "is_space_char (char_of (10 :: nat))" "is_space_char (CHR '' '')"
  by (simp_all add: newline_def is_space_char_def)

lemma reads_after_space: "skips r \<Longrightarrow> reads r t x \<Longrightarrow> reads r (CHR '' '' # t) x"
  by (rule reads_skip) (simp_all add: newline_eq)

lemma reads_after_newline: "skips r \<Longrightarrow> reads r t x \<Longrightarrow> reads r (newline @ t) x"
  by (simp add: newline_eq reads_skip)

lemma rd_times_simps [simp]:
  "rd_times 0 r = rd_ret []"
  "rd_times (Suc n) r = rd_bind r (\<lambda>x. rd_bind (rd_times n r) (\<lambda>xs. rd_ret (x # xs)))"
  by (simp_all add: rd_times_def)

text \<open>A list, each element on a new line.\<close>

lemma reads_times:
  assumes "skips r" and "\<And>x. x \<in> set xs \<Longrightarrow> reads r (f x) x"
  shows "reads (rd_times (length xs) r) (concat (map (\<lambda>x. newline @ f x) xs)) xs"
  using assms(2)
proof (induction xs)
  case Nil
  then show ?case by (simp add: reads_ret)
next
  case (Cons x xs)
  have "reads (rd_bind (rd_times (length xs) r) (\<lambda>ys. rd_ret (x # ys))) (concat (map (\<lambda>x. newline @ f x) xs)) (x # xs)"
    using Cons by (intro reads_map) simp
  moreover have "cut_here (concat (map (\<lambda>x. newline @ f x) xs))" by (cases xs) simp_all
  moreover have "reads r (newline @ f x) x" using Cons.prems assms(1) by (simp add: reads_after_newline)
  ultimately show ?case using reads_bind [of r "newline @ f x" x "\<lambda>x. rd_bind (rd_times (length xs) r) (\<lambda>ys. rd_ret (x # ys))"] by simp
qed

lemma newline_shift: "newline @ concat (map (\<lambda>x. f x @ newline) xs) = concat (map (\<lambda>x. newline @ f x) xs) @ newline"
  by (induction xs) simp_all

definition col_wf :: "ColMeta \<Rightarrow> bool" where
  "col_wf c \<longleftrightarrow> wordlike (cm_tab c) \<and> wordlike (cm_name c) \<and> int32_range (cm_type c) \<and> int32_range (cm_len c) \<and> int32_range (cm_offset c)"

definition index_wf :: "IndexMeta \<Rightarrow> bool" where
  "index_wf ix \<longleftrightarrow> wordlike (im_tab ix) \<and> int32_range (im_tot_len ix) \<and> int32_range (im_col_num ix) \<and>
     im_col_num ix = int (length (im_cols ix)) \<and> (\<forall>c \<in> set (im_cols ix). col_wf c)"

definition tab_wf :: "TabMeta \<Rightarrow> bool" where
  "tab_wf t \<longleftrightarrow> wordlike (tm_name t) \<and> int (length (tm_cols t)) < 2 ^ 64 \<and> int (length (tm_indexes t)) < 2 ^ 64 \<and>
     (\<forall>c \<in> set (tm_cols t). col_wf c) \<and> (\<forall>ix \<in> set (tm_indexes t). index_wf ix) \<and> int32_range (tm_rows t)"

definition db_wf :: "DbMeta \<Rightarrow> bool" where
  "db_wf d \<longleftrightarrow> wordlike (dbm_name d) \<and> finite (dom (dbm_tabs d)) \<and> int32_range (int (card (dom (dbm_tabs d)))) \<and>
     - (2 ^ 63) \<le> dbm_next_ts d \<and> dbm_next_ts d < 2 ^ 63 \<and>
     (\<forall>k t. dbm_tabs d k = Some t \<longrightarrow> tm_name t = k \<and> tab_wf t)"

lemma skips_rd: "skips rd_col" "skips rd_index" "skips rd_tab"
  unfolding rd_col_def rd_index_def rd_tab_def by (intro skips_bind skips_word)+

text \<open>A field after a space or on a new line, and the last field.\<close>

lemma reads_field:
  "skips r \<Longrightarrow> reads r s x \<Longrightarrow> reads (k x) t y \<Longrightarrow> cut_here t \<Longrightarrow> reads (rd_bind r k) (CHR '' '' # s @ t) y"
  using reads_bind [OF reads_after_space, of r s x k t y] by simp

lemma reads_line:
  "skips r \<Longrightarrow> reads r s x \<Longrightarrow> reads (k x) t y \<Longrightarrow> cut_here t \<Longrightarrow> reads (rd_bind r k) (newline @ s @ t) y"
  using reads_bind [OF reads_after_newline, of r s x k t y] by simp

lemma reads_last: "skips r \<Longrightarrow> reads r s x \<Longrightarrow> reads (rd_bind r (\<lambda>x. rd_ret (f x))) (CHR '' '' # s) (f x)"
  by (rule reads_map) (rule reads_after_space)

lemmas reads_rules = reads_bind [OF reads_word] reads_field [OF skips_word reads_word]
  reads_field [OF skips_typed(1) reads_int] reads_field [OF skips_typed(2) reads_int64] reads_field [OF skips_typed(4) reads_bool]
  reads_line [OF skips_typed(3) reads_size] reads_last [OF skips_typed(4) reads_bool]

lemma reads_col: "col_wf c \<Longrightarrow> reads rd_col (col_text c) c"
  unfolding rd_col_def col_text_def col_wf_def by (cases c, simp, intro reads_rules) auto

lemma reads_cols:
  "\<forall>c \<in> set cs. col_wf c \<Longrightarrow> reads (rd_times (length cs) rd_col) (concat (map (\<lambda>c. newline @ col_text c) cs)) cs"
  by (rule reads_times [OF skips_rd(1) reads_col]) simp

lemma cut_lines [simp]: "cut_here (concat (map (\<lambda>x. newline @ f x) xs))" "cut_here (concat (map (\<lambda>x. newline @ f x) xs) @ newline @ s)"
  by (cases xs; simp)+

lemma reads_index: "index_wf ix \<Longrightarrow> reads rd_index (index_text ix) ix"
proof -
  assume wf: "index_wf ix"
  then have "nat (im_col_num ix) = length (im_cols ix)" by (simp add: index_wf_def)
  then have "reads (rd_bind (rd_times (nat (im_col_num ix)) rd_col) (\<lambda>cols. rd_ret (ix\<lparr>im_cols := cols\<rparr>)))
      (concat (map (\<lambda>c. newline @ col_text c) (im_cols ix))) (ix\<lparr>im_cols := im_cols ix\<rparr>)"
    using wf by (intro reads_map) (simp add: reads_cols index_wf_def)
  then show ?thesis using wf unfolding rd_index_def index_text_def index_wf_def
    by (cases ix, simp, intro reads_rules) auto
qed

text \<open>A list whose elements end with a new line, in front of something on the next line.\<close>

lemma reads_items:
  assumes "skips r" and "\<And>x. x \<in> set xs \<Longrightarrow> reads r (f x) x" and "reads (k xs) (newline @ t) y"
  shows "reads (rd_bind (rd_times (length xs) r) k) (newline @ concat (map (\<lambda>x. f x @ newline) xs) @ t) y"
proof -
  have eq: "newline @ concat (map (\<lambda>x. f x @ newline) xs) @ t = concat (map (\<lambda>x. newline @ f x) xs) @ newline @ t"
    using arg_cong [OF newline_shift [of f xs], of "\<lambda>s. s @ t"] by simp
  have "reads (rd_times (length xs) r) (concat (map (\<lambda>x. newline @ f x) xs)) xs" by (rule reads_times [OF assms(1,2)])
  from reads_bind [OF this, of k "newline @ t" y] assms(3) show ?thesis unfolding eq by simp
qed

lemma reads_line_end: "skips r \<Longrightarrow> reads r s x \<Longrightarrow> reads (rd_bind r (\<lambda>x. rd_ret (f x))) (newline @ s) (f x)"
  by (rule reads_map) (rule reads_after_newline)

lemma reads_tab: "tab_wf t \<Longrightarrow> \<exists>u. tab_text t = u @ newline \<and> reads rd_tab u t"
proof -
  assume wf: "tab_wf t"
  let ?cols = "tm_cols t" and ?ixs = "tm_indexes t"
  let ?k1 = "\<lambda>cols ixs. rd_bind rd_int (\<lambda>rows. rd_ret \<lparr>tm_name = tm_name t, tm_cols = cols, tm_indexes = ixs, tm_rows = rows\<rparr>)"
  let ?k2 = "\<lambda>cols m. rd_bind (rd_times (nat m) rd_index) (?k1 cols)"
  let ?k3 = "\<lambda>n. rd_bind (rd_times (nat n) rd_col) (\<lambda>cols. rd_bind rd_size (?k2 cols))"
  let ?ixt = "concat (map (\<lambda>ix. index_text ix @ newline) ?ixs) @ int_str (tm_rows t)"
  let ?ct = "concat (map (\<lambda>c. col_text c @ newline) ?cols) @ int_str (int (length ?ixs)) @ newline @ ?ixt"
  have "reads (?k1 ?cols ?ixs) (newline @ int_str (tm_rows t)) \<lparr>tm_name = tm_name t, tm_cols = ?cols, tm_indexes = ?ixs, tm_rows = tm_rows t\<rparr>"
    using wf by (intro reads_line_end skips_typed reads_int) (simp add: tab_wf_def)
  moreover have "\<lparr>tm_name = tm_name t, tm_cols = ?cols, tm_indexes = ?ixs, tm_rows = tm_rows t\<rparr> = t" by simp
  ultimately have "reads (?k1 ?cols ?ixs) (newline @ int_str (tm_rows t)) t" by metis
  then have "reads (?k2 ?cols (int (length ?ixs))) (newline @ ?ixt) t"
    using reads_items [OF skips_rd(2) reads_index, of ?ixs "?k1 ?cols" "int_str (tm_rows t)" t] wf by (simp add: tab_wf_def)
  then have "reads (rd_bind rd_size (?k2 ?cols)) (newline @ int_str (int (length ?ixs)) @ newline @ ?ixt) t"
    using wf by (intro reads_rules) (auto simp: tab_wf_def)
  then have "reads (?k3 (int (length ?cols))) (newline @ ?ct) t"
    using reads_items [OF skips_rd(1) reads_col, of ?cols "\<lambda>cols. rd_bind rd_size (?k2 cols)" "int_str (int (length ?ixs)) @ newline @ ?ixt" t] wf
    by (simp add: tab_wf_def)
  then have "reads (rd_bind rd_size ?k3) (newline @ int_str (int (length ?cols)) @ newline @ ?ct) t"
    using wf by (intro reads_rules) (auto simp: tab_wf_def)
  then have "reads rd_tab (tm_name t @ newline @ int_str (int (length ?cols)) @ newline @ ?ct) t"
    unfolding rd_tab_def using wf by (intro reads_bind [OF reads_word]) (simp_all add: tab_wf_def)
  then show ?thesis
    by (intro exI [of _ "tm_name t @ newline @ int_str (int (length ?cols)) @ newline @ ?ct"]) (simp add: tab_text_def)
qed

text \<open>The tables of a catalogue, read into an empty map, are its map again.\<close>

lemma foldl_map_upd:
  assumes "\<forall>t \<in> set ts. M (tm_name t) = Some t"
  shows "foldl (\<lambda>m t. m(tm_name t \<mapsto> t)) m ts k = (if k \<in> tm_name ` set ts then M k else m k)"
  using assms by (induction ts arbitrary: m) auto

lemma tabs_in_order_facts:
  assumes "finite (dom M)"
  shows "length (tabs_in_order M) = card (dom M)" and "set (tabs_in_order M) = ran M"
  using assms by (auto simp: tabs_in_order_def ran_def image_def dom_def)

text \<open>
  The catalogue survives its file: what \<open>operator<<\<close> writes for a \<open>DbMeta\<close>, \<open>operator>>\<close> reads back into an
  empty one as the same database name, timestamp, tables, columns and indexes, for any number of tables,
  columns and indexes, as long as names contain no white space and numbers fit their types.
\<close>

theorem catalogue_roundtrip:
  assumes wf: "db_wf d"
  shows "rd_db Map.empty (db_text d) = Some (d, newline)"
proof -
  let ?M = "dbm_tabs d" and ?ts = "tabs_in_order (dbm_tabs d)"
  have fin: "finite (dom ?M)" using wf by (simp add: db_wf_def)
  note ts = tabs_in_order_facts [OF fin]
  have key: "?M (tm_name t) = Some t \<and> tab_wf t" if "t \<in> set ?ts" for t
    using that wf ts(2) by (fastforce simp: db_wf_def ran_def)
  define f where "f t = (SOME u. tab_text t = u @ newline \<and> reads rd_tab u t)" for t
  have f: "tab_text t = f t @ newline \<and> reads rd_tab (f t) t" if "t \<in> set ?ts" for t
    using someI_ex [OF reads_tab] key [OF that] unfolding f_def by blast
  have lines: "concat (map tab_text ?ts) = concat (map (\<lambda>t. f t @ newline) ?ts)"
    using f by (intro arg_cong [where f = concat] map_cong) simp_all
  have M: "foldl (\<lambda>m t. m(tm_name t \<mapsto> t)) Map.empty ?ts = ?M"
  proof
    fix k show "foldl (\<lambda>m t. m(tm_name t \<mapsto> t)) Map.empty ?ts k = ?M k"
    proof (cases "k \<in> dom ?M")
      case True
      then obtain t where t: "?M k = Some t" by blast
      then have "tm_name t = k" "t \<in> set ?ts" using wf ts(2) by (auto simp: db_wf_def ran_def)
      then show ?thesis using foldl_map_upd [of ?ts ?M Map.empty k] key by auto
    next
      case False
      then have "k \<notin> tm_name ` set ?ts" using key by auto
      then show ?thesis using foldl_map_upd [of ?ts ?M Map.empty k] key False by (auto simp: domIff)
    qed
  qed
  let ?k = "\<lambda>tabs. rd_ret \<lparr>dbm_name = dbm_name d, dbm_tabs = foldl (\<lambda>m t. m(tm_name t \<mapsto> t)) Map.empty tabs, dbm_next_ts = dbm_next_ts d\<rparr>"
  have eta: "\<lparr>dbm_name = dbm_name d, dbm_tabs = ?M, dbm_next_ts = dbm_next_ts d\<rparr> = d" by simp
  have tabs: "reads (rd_bind (rd_times (length ?ts) rd_tab) ?k) (concat (map (\<lambda>t. newline @ f t) ?ts)) d"
    using reads_map [OF reads_times [OF skips_rd(3), of ?ts f], of "\<lambda>tabs. \<lparr>dbm_name = dbm_name d, dbm_tabs = foldl (\<lambda>m t. m(tm_name t \<mapsto> t)) Map.empty tabs, dbm_next_ts = dbm_next_ts d\<rparr>"]
      f unfolding M eta by simp
  let ?u = "dbm_name d @ CHR '' '' # int_str (int (card (dom ?M))) @ CHR '' '' # int_str (dbm_next_ts d) @ concat (map (\<lambda>t. newline @ f t) ?ts)"
  have "reads (rd_db Map.empty) ?u d"
    unfolding rd_db_def using wf tabs ts(1) by (intro reads_rules) (auto simp: db_wf_def)
  moreover have "cut_here newline" by (simp add: cut_here_def newline_eq)
  ultimately have "rd_db Map.empty (?u @ newline) = Some (d, newline)" by (simp only: reads_def)
  moreover have "db_text d = ?u @ newline"
    using newline_shift [of f ?ts] by (simp add: db_text_def lines)
  ultimately show ?thesis by (simp only:)
qed

definition demo_catalogue :: DbMeta where
  "demo_catalogue = (let c = \<lparr>cm_tab = ''t'', cm_name = ''x'', cm_type = 0, cm_len = 4, cm_offset = 0, cm_index = True\<rparr>
     in \<lparr>dbm_name = ''db'', dbm_tabs = [''t'' \<mapsto> \<lparr>tm_name = ''t'', tm_cols = [c],
          tm_indexes = [\<lparr>im_tab = ''t'', im_tot_len = 4, im_col_num = 1, im_cols = [c], im_unique = True\<rparr>], tm_rows = - 3\<rparr>],
        dbm_next_ts = 17\<rparr>)"

lemma demo_catalogue_wf: "db_wf demo_catalogue"
proof -
  have w: "wordlike ''t''" "wordlike ''x''" "wordlike ''db''" by (simp_all add: wordlike_def is_space_char_def)
  show ?thesis
    by (auto simp: db_wf_def demo_catalogue_def Let_def tab_wf_def index_wf_def col_wf_def w int32_range_def)
qed

end
