(* ===== verification/ExecValues.thy ===== *)
theory ExecValues
  imports SmMeta RmFile
begin

text \<open>
  What the executors compare: \<^verbatim>\<open>common/common.h\<close> and the conditions of \<^verbatim>\<open>execution/executor_seq_scan.h\<close>,
  \<^verbatim>\<open>execution/executor_filter.h\<close> and the two joins, which differ in how they compare strings. A record is the
  list of its bytes, and reading behind its end is the error \<open>OutOfRange\<close>.

  A \<open>float\<close> is its 32 bits. Its subtraction is the rounded one of IEEE 754, written out in units of the least
  positive number \<open>2 ^ - 149\<close>, in which every finite \<open>float\<close> is an integer and infinity is \<open>2 ^ 277\<close>.
\<close>

section \<open>Floats\<close>

text \<open>The value in units of \<open>2 ^ - 149\<close>, for a number that is not NaN.\<close>

definition f32_units :: "int \<Rightarrow> int" where
  "f32_units b =
     (let e = (b div 2 ^ 23) mod 256; m = b mod 2 ^ 23;
          v = (if e = 0 then m else (2 ^ 23 + m) * 2 ^ nat (e - 1))
      in if b \<ge> 2 ^ 31 then - v else v)"

fun bit_len :: "nat \<Rightarrow> nat" where
  "bit_len n = (if n = 0 then 0 else Suc (bit_len (n div 2)))"

declare bit_len.simps [simp del]

text \<open>Rounding to 24 significant bits, to nearest, ties to even.\<close>

definition f32_round_mag :: "nat \<Rightarrow> nat" where
  "f32_round_mag x =
     (if x < 2 ^ 24 then x
      else let sh = bit_len x - 24; q = x div 2 ^ sh; r = x mod 2 ^ sh; half = 2 ^ (sh - 1)
           in min (2 ^ 277) ((if r > half \<or> r = half \<and> odd q then q + 1 else q) * 2 ^ sh))"

definition f32_round :: "int \<Rightarrow> int" where
  "f32_round x = (if x < 0 then - int (f32_round_mag (nat (- x))) else int (f32_round_mag (nat x)))"

definition f32_inf :: "int \<Rightarrow> bool" where
  "f32_inf b \<longleftrightarrow> (b div 2 ^ 23) mod 256 = 255 \<and> b mod 2 ^ 23 = 0"

text \<open>\<open>None\<close> is NaN.\<close>

definition f32_sub :: "int \<Rightarrow> int \<Rightarrow> int option" where
  "f32_sub a b =
     (if f32_nan a \<or> f32_nan b then None
      else if f32_inf a then if f32_inf b \<and> f32_units a = f32_units b then None else Some (f32_units a)
      else if f32_inf b then Some (- f32_units b)
      else Some (f32_round (f32_units a - f32_units b)))"

text \<open>The tolerance, the \<open>float\<close> nearest to \<open>1e-6\<close>, in the same units.\<close>

definition EPSILON_c :: int where "EPSILON_c = (2 ^ 23 + 407485) * 2 ^ 106"

section \<open>Operators\<close>

datatype CompOp = OP_EQ | OP_NE | OP_LT | OP_GT | OP_LE | OP_GE

fun cmp_holds :: "CompOp \<Rightarrow> 'a::linorder \<Rightarrow> 'a \<Rightarrow> bool" where
  "cmp_holds OP_EQ a b = (a = b)"
| "cmp_holds OP_NE a b = (a \<noteq> b)"
| "cmp_holds OP_LT a b = (a < b)"
| "cmp_holds OP_GT a b = (a > b)"
| "cmp_holds OP_LE a b = (a \<le> b)"
| "cmp_holds OP_GE a b = (a \<ge> b)"

text \<open>With the tolerance; a comparison with NaN is false.\<close>

definition opt_holds :: "int option \<Rightarrow> (int \<Rightarrow> bool) \<Rightarrow> bool" where
  "opt_holds d p = (case d of None \<Rightarrow> False | Some x \<Rightarrow> p x)"

fun f32_cmp :: "CompOp \<Rightarrow> int \<Rightarrow> int \<Rightarrow> bool" where
  "f32_cmp OP_EQ l r = opt_holds (f32_sub l r) (\<lambda>d. \<bar>d\<bar> \<le> EPSILON_c)"
| "f32_cmp OP_NE l r = opt_holds (f32_sub l r) (\<lambda>d. \<bar>d\<bar> > EPSILON_c)"
| "f32_cmp OP_LT l r = opt_holds (f32_sub r l) (\<lambda>d. d > EPSILON_c)"
| "f32_cmp OP_GT l r = opt_holds (f32_sub l r) (\<lambda>d. d > EPSILON_c)"
| "f32_cmp OP_LE l r = opt_holds (f32_sub l r) (\<lambda>d. d \<le> EPSILON_c)"
| "f32_cmp OP_GE l r = opt_holds (f32_sub r l) (\<lambda>d. d \<le> EPSILON_c)"

text \<open>The joins write \<open>OP_LT\<close> and \<open>OP_GE\<close> with the difference the other way round.\<close>

fun f32_join_cmp :: "CompOp \<Rightarrow> int \<Rightarrow> int \<Rightarrow> bool" where
  "f32_join_cmp OP_LT l r = opt_holds (f32_sub l r) (\<lambda>d. d < - EPSILON_c)"
| "f32_join_cmp OP_GE l r = opt_holds (f32_sub l r) (\<lambda>d. d \<ge> - EPSILON_c)"
| "f32_join_cmp opr l r = f32_cmp opr l r"

text \<open>\<open>memcmp\<close>, \<open>std::string\<close> comparison and \<open>strnlen\<close> all take bytes as unsigned.\<close>

definition c_str :: "byte list \<Rightarrow> byte list" where
  "c_str v = takeWhile (\<lambda>c. c \<noteq> 0) v"

text \<open>
  \<open>FilterExecutor\<close>: the literal \<open>" \0"\<close> given to \<open>find_last_not_of\<close> ends at its null byte, so only spaces
  are cut off the end; then all null bytes are erased.
\<close>

definition trim_char :: "byte list \<Rightarrow> byte list" where
  "trim_char v = filter (\<lambda>c. c \<noteq> 0) (rev (dropWhile (\<lambda>c. c = 32) (rev v)))"

section \<open>Values and conditions\<close>

record TabCol =
  tc_tab :: string
  tc_col :: string
  tc_alias :: string
  tc_original_tab :: string

text \<open>The constructor with three arguments, and the order of \<open>std::map<TabCol, ...>\<close>.\<close>

definition new_TabCol :: "string \<Rightarrow> string \<Rightarrow> string \<Rightarrow> TabCol" where
  "new_TabCol t c a = \<lparr>tc_tab = t, tc_col = c, tc_alias = a, tc_original_tab = t\<rparr>"

definition tab_col_less :: "TabCol \<Rightarrow> TabCol \<Rightarrow> bool" where
  "tab_col_less x y \<longleftrightarrow> bytes_of_string (tc_tab x) < bytes_of_string (tc_tab y) \<or>
     tc_tab x = tc_tab y \<and> bytes_of_string (tc_col x) < bytes_of_string (tc_col y)"

text \<open>A \<open>Value\<close>: the 32 bits of the union, the string, and the raw buffer.\<close>

record Value =
  val_type :: int
  val_bits :: int
  val_str :: string
  val_raw :: "byte list option"

definition TYPE_DOUBLE_c :: int where "TYPE_DOUBLE_c = 3"

definition init_raw :: "int \<Rightarrow> Value \<Rightarrow> db_error + Value" where
  "init_raw len v =
     (if len < 0 then Inl BadArrayLength
      else if val_type v = TYPE_INT_c \<or> val_type v = TYPE_FLOAT_c
      then if len \<noteq> 4 then Inl AssertionFailed else Inr (v\<lparr>val_raw := Some (enc_le 4 (val_bits v))\<rparr>)
      else if val_type v = TYPE_STRING_c
      then if len < int (length (val_str v)) then Inl StringOverflowError
           else Inr (v\<lparr>val_raw := Some (bytes_of_string (val_str v) @ replicate (nat len - length (val_str v)) 0)\<rparr>)
      else Inr (v\<lparr>val_raw := Some (replicate (nat len) 0)\<rparr>))"

datatype AggFuncType = AGG_COUNT | AGG_MAX | AGG_MIN | AGG_SUM | AGG_AVG

record AggFunc =
  func_type :: AggFuncType
  agg_col :: TabCol
  agg_alias :: string

text \<open>The fields from \<open>is_lhs_agg\<close> on are those of a HAVING condition.\<close>

record Condition =
  lhs_col :: TabCol
  cond_op :: CompOp
  is_rhs_val :: bool
  rhs_col :: TabCol
  rhs_val :: Value
  is_lhs_agg :: bool
  is_rhs_agg :: bool
  lhs_agg :: AggFunc
  rhs_agg :: AggFunc
  lhs_value :: Value
  rhs_value :: Value

definition empty_col :: TabCol where
  "empty_col = \<lparr>tc_tab = [], tc_col = [], tc_alias = [], tc_original_tab = []\<rparr>"

definition empty_agg :: AggFunc where
  "empty_agg = \<lparr>func_type = AGG_COUNT, agg_col = empty_col, agg_alias = []\<rparr>"

definition int_value :: "int \<Rightarrow> Value" where
  "int_value n = \<lparr>val_type = TYPE_INT_c, val_bits = n mod 2 ^ 32, val_str = [], val_raw = None\<rparr>"

text \<open>A condition without aggregates.\<close>

definition plain_cond :: "TabCol \<Rightarrow> CompOp \<Rightarrow> TabCol + Value \<Rightarrow> Condition" where
  "plain_cond l opr r = \<lparr>lhs_col = l, cond_op = opr, is_rhs_val = (case r of Inl _ \<Rightarrow> False | Inr _ \<Rightarrow> True),
     rhs_col = (case r of Inl c \<Rightarrow> c | Inr _ \<Rightarrow> empty_col), rhs_val = (case r of Inl _ \<Rightarrow> int_value 0 | Inr v \<Rightarrow> v),
     is_lhs_agg = False, is_rhs_agg = False, lhs_agg = empty_agg, rhs_agg = empty_agg, lhs_value = int_value 0, rhs_value = int_value 0\<rparr>"

definition col_is :: "TabCol \<Rightarrow> ColMeta \<Rightarrow> bool" where
  "col_is target c \<longleftrightarrow> cm_tab c = tc_tab target \<and> cm_name c = tc_col target"

text \<open>\<open>AbstractExecutor::get_col\<close>.\<close>

definition exec_get_col :: "ColMeta list \<Rightarrow> TabCol \<Rightarrow> db_error + ColMeta" where
  "exec_get_col rec_cols target =
     (case List.find (col_is target) rec_cols of
        None \<Rightarrow> Inl (ColumnNotFoundError (tc_tab target @ ''.'' @ tc_col target))
      | Some c \<Rightarrow> Inr c)"

definition bytes_at :: "byte list \<Rightarrow> int \<Rightarrow> int \<Rightarrow> db_error + byte list" where
  "bytes_at v off n =
     (if 0 \<le> off \<and> 0 \<le> n \<and> off + n \<le> int (length v) then Inr (take (nat n) (drop (nat off) v))
      else Inl (OutOfRange ''record''))"

text \<open>How many bytes a comparison reads of a value: four of a number.\<close>

definition width_of :: "int \<Rightarrow> int \<Rightarrow> int" where
  "width_of ty len = (if ty = TYPE_STRING_c then len else 4)"

definition i32_of :: "byte list \<Rightarrow> int" where
  "i32_of v = to_signed 4 (dec_le (take 4 v))"

definition f32_of :: "byte list \<Rightarrow> int" where
  "f32_of v = dec_le (take 4 v)"

text \<open>\<open>compare_values\<close>; \<open>norm\<close> is what the executor does with the strings before it compares them.\<close>

definition compare_values :: "(byte list \<Rightarrow> byte list) \<Rightarrow> int \<Rightarrow> byte list \<Rightarrow> byte list \<Rightarrow> CompOp \<Rightarrow> bool" where
  "compare_values norm ty lhs rhs opr =
     (if ty = TYPE_INT_c then cmp_holds opr (i32_of lhs) (i32_of rhs)
      else if ty = TYPE_FLOAT_c then f32_cmp opr (f32_of lhs) (f32_of rhs)
      else if ty = TYPE_STRING_c then cmp_holds opr (norm lhs) (norm rhs)
      else False)"

definition bindR :: "db_error + 'a \<Rightarrow> ('a \<Rightarrow> db_error + 'b) \<Rightarrow> db_error + 'b" where
  "bindR m k = (case m of Inl e \<Rightarrow> Inl e | Inr x \<Rightarrow> k x)"

lemma bindR_simps [simp]: "bindR (Inl e) k = Inl e" "bindR (Inr x) k = k x"
  by (simp_all add: bindR_def)

lemma bindR_Inr: "bindR m k = Inr y \<longleftrightarrow> (\<exists>x. m = Inr x \<and> k x = Inr y)"
  by (cases m) auto

definition eval_cond :: "(byte list \<Rightarrow> byte list) \<Rightarrow> byte list \<Rightarrow> ColMeta list \<Rightarrow> Condition \<Rightarrow> db_error + bool" where
  "eval_cond norm rec cols cond =
     bindR (exec_get_col cols (lhs_col cond)) (\<lambda>lc.
     if is_rhs_val cond
     then if cm_type lc = TYPE_FLOAT_c
          then bindR (bytes_at rec (cm_offset lc) 4) (\<lambda>l.
               Inr (f32_cmp (cond_op cond) (f32_of l) (val_bits (rhs_val cond))))
          else case val_raw (rhs_val cond) of
                 None \<Rightarrow> Inl NullDereference
               | Some raw \<Rightarrow>
                   if cm_type lc \<noteq> TYPE_INT_c \<and> cm_type lc \<noteq> TYPE_STRING_c then Inr False
                   else bindR (bytes_at rec (cm_offset lc) (width_of (cm_type lc) (cm_len lc))) (\<lambda>l.
                        bindR (bytes_at raw 0 (width_of (cm_type lc) (cm_len lc))) (\<lambda>r.
                        Inr (compare_values norm (cm_type lc) l r (cond_op cond))))
     else bindR (exec_get_col cols (rhs_col cond)) (\<lambda>rc.
          if cm_type lc \<notin> {TYPE_INT_c, TYPE_FLOAT_c, TYPE_STRING_c} then Inr False
          else bindR (bytes_at rec (cm_offset lc) (width_of (cm_type lc) (cm_len lc))) (\<lambda>l.
               bindR (bytes_at rec (cm_offset rc) (width_of (cm_type lc) (cm_len lc))) (\<lambda>r.
               Inr (compare_values norm (cm_type lc) l r (cond_op cond))))))"

fun eval_conds :: "(byte list \<Rightarrow> byte list) \<Rightarrow> Condition list \<Rightarrow> byte list \<Rightarrow> ColMeta list \<Rightarrow> db_error + bool" where
  "eval_conds norm [] rec cols = Inr True"
| "eval_conds norm (c # cs) rec cols =
     bindR (eval_cond norm rec cols c) (\<lambda>b. if b then eval_conds norm cs rec cols else Inr False)"

section \<open>Join conditions\<close>

definition deref :: "'a option \<Rightarrow> db_error + 'a" where
  "deref p = (case p of None \<Rightarrow> Inl NullDereference | Some x \<Rightarrow> Inr x)"

text \<open>
  A column is looked up on the left side first; where it is found, the record of that side is followed at once.
  The result is the column and the bytes of the record.
\<close>

definition join_col :: "ColMeta list \<Rightarrow> byte list option \<Rightarrow> ColMeta list \<Rightarrow> byte list option \<Rightarrow> TabCol \<Rightarrow>
    db_error + (ColMeta \<times> byte list) option" where
  "join_col lcols l rcols r target =
     (case List.find (col_is target) lcols of
        Some c \<Rightarrow> bindR (deref l) (\<lambda>x. Inr (Some (c, x)))
      | None \<Rightarrow> (case List.find (col_is target) rcols of
                    Some c \<Rightarrow> bindR (deref r) (\<lambda>x. Inr (Some (c, x)))
                  | None \<Rightarrow> Inr None))"

definition join_compare :: "CompOp \<Rightarrow> ColMeta \<Rightarrow> byte list \<Rightarrow> ColMeta \<Rightarrow> byte list \<Rightarrow> db_error + bool" where
  "join_compare opr lc l rc r =
     (let ty = cm_type lc
      in if ty \<notin> {TYPE_INT_c, TYPE_FLOAT_c, TYPE_STRING_c} then Inr False
         else bindR (bytes_at l (cm_offset lc) (width_of ty (cm_len lc))) (\<lambda>x.
              bindR (bytes_at r (cm_offset rc) (width_of ty (cm_len rc))) (\<lambda>y.
              Inr (if ty = TYPE_INT_c then cmp_holds opr (i32_of x) (i32_of y)
                   else if ty = TYPE_FLOAT_c then f32_join_cmp opr (f32_of x) (f32_of y)
                   else cmp_holds opr (c_str x) (c_str y)))))"

definition join_cond :: "ColMeta list \<Rightarrow> ColMeta list \<Rightarrow> byte list option \<Rightarrow> byte list option \<Rightarrow> Condition \<Rightarrow> db_error + bool" where
  "join_cond lcols rcols l r cond =
     bindR (join_col lcols l rcols r (lhs_col cond)) (\<lambda>x.
     bindR (join_col lcols l rcols r (rhs_col cond)) (\<lambda>y.
     case (x, y) of
       (Some (lc, a), Some (rc, b)) \<Rightarrow> join_compare (cond_op cond) lc a rc b
     | _ \<Rightarrow> Inr True))"

fun join_conds :: "ColMeta list \<Rightarrow> ColMeta list \<Rightarrow> Condition list \<Rightarrow> byte list option \<Rightarrow> byte list option \<Rightarrow> db_error + bool" where
  "join_conds lcols rcols [] l r = Inr True"
| "join_conds lcols rcols (c # cs) l r =
     bindR (join_cond lcols rcols l r c) (\<lambda>b. if b then join_conds lcols rcols cs l r else Inr False)"

text \<open>The semi join also takes a literal on the right.\<close>

definition semi_literal :: "CompOp \<Rightarrow> ColMeta \<Rightarrow> byte list \<Rightarrow> Value \<Rightarrow> db_error + bool" where
  "semi_literal opr lc l v =
     (let ty = cm_type lc
      in if ty \<notin> {TYPE_INT_c, TYPE_FLOAT_c, TYPE_STRING_c} then Inr False
         else bindR (bytes_at l (cm_offset lc) (width_of ty (cm_len lc))) (\<lambda>x.
              Inr (if ty = TYPE_INT_c then cmp_holds opr (i32_of x) (to_signed 4 (val_bits v))
                   else if ty = TYPE_FLOAT_c then f32_join_cmp opr (f32_of x) (val_bits v)
                   else cmp_holds opr (c_str x) (bytes_of_string (val_str v)))))"

definition semi_cond :: "ColMeta list \<Rightarrow> ColMeta list \<Rightarrow> byte list option \<Rightarrow> byte list option \<Rightarrow> Condition \<Rightarrow> db_error + bool" where
  "semi_cond lcols rcols l r cond =
     bindR (join_col lcols l rcols r (lhs_col cond)) (\<lambda>x. case x of
       None \<Rightarrow> Inr True
     | Some (lc, a) \<Rightarrow>
         if is_rhs_val cond then semi_literal (cond_op cond) lc a (rhs_val cond)
         else bindR (join_col lcols l rcols r (rhs_col cond)) (\<lambda>y. case y of
                None \<Rightarrow> Inr True
              | Some (rc, b) \<Rightarrow> join_compare (cond_op cond) lc a rc b))"

fun semi_conds :: "ColMeta list \<Rightarrow> ColMeta list \<Rightarrow> Condition list \<Rightarrow> byte list option \<Rightarrow> byte list option \<Rightarrow> db_error + bool" where
  "semi_conds lcols rcols [] l r = Inr True"
| "semi_conds lcols rcols (c # cs) l r =
     bindR (semi_cond lcols rcols l r c) (\<lambda>b. if b then semi_conds lcols rcols cs l r else Inr False)"

end
