(* ===== verification/Exec.thy ===== *)
theory Exec
  imports ExecValues
begin

text \<open>
  The interface of the executors, \<^verbatim>\<open>execution/executor_abstract.h\<close>, and the loop of
  \<^verbatim>\<open>execution/execution_manager.cpp\<close> that drives a tree of them. An executor works on an object of its own,
  which contains those of its children, and on the database: its virtual functions are operations on pairs
  \<open>(object, database)\<close>. A \<open>unique_ptr\<close> to a record is an option.

  The locale \<open>tuple_source\<close> is the contract between a node and the node above it: who calls
  \<open>beginTuple\<close>, and then \<open>Next\<close> and \<open>nextTuple\<close> in turn until \<open>is_end\<close>, gets the rows of the node in order.
  \<open>at\<close> and \<open>taken\<close> say which rows are still to come, before and after \<open>Next\<close>; a row \<open>None\<close> is a call of
  \<open>Next\<close> that returns \<open>nullptr\<close>. \<open>fresh\<close> are the objects on which \<open>beginTuple\<close> may be called.
\<close>

record ('o, 'w) executor =
  ex_begin :: "('o \<times> 'w, unit) op"
  ex_step :: "('o \<times> 'w, unit) op"
  ex_end :: "('o \<times> 'w, bool) op"
  ex_fetch :: "('o \<times> 'w, byte list option) op"
  ex_rid :: "'o \<Rightarrow> rid"
  ex_cols :: "ColMeta list"
  ex_len :: int

section \<open>Operations on objects\<close>

text \<open>A call of a child, which is a part of the object, and reads and writes of the object itself.\<close>

definition on_part :: "('o \<Rightarrow> 'c) \<Rightarrow> ('c \<Rightarrow> 'o \<Rightarrow> 'o) \<Rightarrow> ('c \<times> 'w, 'a) op \<Rightarrow> ('o \<times> 'w, 'a) op" where
  "on_part get put m = (\<lambda>(j, w). case m (get j, w) of (x, (c, w')) \<Rightarrow> (x, (put c j, w')))"

definition upd_obj :: "('o \<Rightarrow> 'o) \<Rightarrow> ('o \<times> 'w, unit) op" where
  "upd_obj g = (\<lambda>(j, w). (Inr (), (g j, w)))"

definition get_obj :: "('o \<times> 'w, 'o) op" where
  "get_obj = (\<lambda>(j, w). (Inr j, (j, w)))"

definition lift_result :: "db_error + 'a \<Rightarrow> ('s, 'a) op" where
  "lift_result r = (\<lambda>s. (r, s))"

text \<open>A loop that runs rounds until one returns.\<close>

partial_function (option) repeat_rounds :: "('s, bool) op \<Rightarrow> 's \<Rightarrow> ((db_error + unit) \<times> 's) option" where
  "repeat_rounds m s =
     (case m s of
        (Inl e, t) \<Rightarrow> Some (Inl e, t)
      | (Inr b, t) \<Rightarrow> if b then Some (Inr (), t) else repeat_rounds m t)"

definition rounds :: "('s, bool) op \<Rightarrow> ('s, unit) op" where
  "rounds m = (\<lambda>s. returned (repeat_rounds m s) s)"

lemma lift_apply [simp]: "lift_result r s = (r, s)"
  by (simp add: lift_result_def)

lemma obj_apply [simp]: "upd_obj g (j, w) = (Inr (), (g j, w))" "get_obj (j, w) = (Inr j, (j, w))"
  by (simp_all add: upd_obj_def get_obj_def)

lemma rounds_True: "m s = (Inr True, t) \<Longrightarrow> rounds m s = (Inr (), t)"
  by (simp add: rounds_def repeat_rounds.simps)

lemma rounds_False: "m s = (Inr False, t) \<Longrightarrow> rounds m t = (Inr (), u) \<Longrightarrow> rounds m s = (Inr (), u)"
  by (subst (asm) rounds_def, subst rounds_def) (auto simp: repeat_rounds.simps [of m s] returned_def split: option.splits)

text \<open>A loop that runs until its body has a result.\<close>

partial_function (option) repeat_until :: "('s, 'a option) op \<Rightarrow> 's \<Rightarrow> ((db_error + 'a) \<times> 's) option" where
  "repeat_until m s =
     (case m s of
        (Inl e, t) \<Rightarrow> Some (Inl e, t)
      | (Inr x, t) \<Rightarrow> (case x of None \<Rightarrow> repeat_until m t | Some y \<Rightarrow> Some (Inr y, t)))"

definition until :: "('s, 'a option) op \<Rightarrow> ('s, 'a) op" where
  "until m = (\<lambda>s. returned (repeat_until m s) s)"

lemma until_Some: "m s = (Inr (Some y), t) \<Longrightarrow> until m s = (Inr y, t)"
  by (simp add: until_def repeat_until.simps)

lemma until_None: "m s = (Inr None, t) \<Longrightarrow> until m t = (Inr y, u) \<Longrightarrow> until m s = (Inr y, u)"
  by (subst (asm) until_def, subst until_def) (auto simp: repeat_until.simps [of m s] returned_def split: option.splits)

section \<open>The loop of \<open>select_from\<close>\<close>

partial_function (option) drain ::
  "('o, 'w) executor \<Rightarrow> byte list list \<Rightarrow> 'o \<times> 'w \<Rightarrow> ((db_error + byte list list) \<times> ('o \<times> 'w)) option" where
  "drain ex acc s =
     (case ex_end ex s of
        (Inl e, t) \<Rightarrow> Some (Inl e, t)
      | (Inr e, t) \<Rightarrow>
          if e then Some (Inr (rev acc), t)
          else (case ex_fetch ex t of
             (Inl e, u) \<Rightarrow> Some (Inl e, u)
           | (Inr x, u) \<Rightarrow>
               (case ex_step ex u of
                  (Inl e, v) \<Rightarrow> Some (Inl e, v)
                | (Inr _, v) \<Rightarrow> drain ex (case x of None \<Rightarrow> acc | Some y \<Rightarrow> y # acc) v)))"

definition select_rows :: "('o, 'w) executor \<Rightarrow> ('o \<times> 'w, byte list list) op" where
  "select_rows ex = bindE (ex_begin ex) (\<lambda>_ s. returned (drain ex [] s) s)"

section \<open>The contract\<close>

definition the_rows :: "'a option list \<Rightarrow> 'a list" where
  "the_rows xs = map the (filter (\<lambda>x. x \<noteq> None) xs)"

lemma the_rows_simps [simp]:
  "the_rows [] = []" "the_rows (None # xs) = the_rows xs" "the_rows (Some x # xs) = x # the_rows xs"
  by (simp_all add: the_rows_def)

lemma the_rows_Some [simp]: "the_rows (map Some xs) = xs"
  by (induction xs) simp_all

lemma the_rows_map: "the_rows (map (map_option f) xs) = map f (the_rows xs)"
proof (induction xs)
  case (Cons x xs)
  then show ?case by (cases x) simp_all
qed simp

locale tuple_source =
  fixes ex :: "('o, 'w) executor" and world :: "'w \<Rightarrow> bool" and fresh :: "'o \<Rightarrow> bool"
    and rows :: "byte list option list" and at taken :: "'o \<Rightarrow> byte list option list \<Rightarrow> bool"
  assumes begin_at: "world w \<Longrightarrow> fresh o1 \<Longrightarrow> \<exists>o' w'. ex_begin ex (o1, w) = (Inr (), (o', w')) \<and> world w' \<and> at o' rows"
    and end_at: "world w \<Longrightarrow> at o1 xs \<Longrightarrow> ex_end ex (o1, w) = (Inr (xs = []), (o1, w))"
    and fetch_at: "world w \<Longrightarrow> at o1 (x # xs) \<Longrightarrow>
      \<exists>o' w'. ex_fetch ex (o1, w) = (Inr x, (o', w')) \<and> world w' \<and> taken o' (x # xs)"
    and step_taken: "world w \<Longrightarrow> taken o1 (x # xs) \<Longrightarrow> \<exists>o' w'. ex_step ex (o1, w) = (Inr (), (o', w')) \<and> world w' \<and> at o' xs"
begin

lemma drain_at:
  assumes "world w" and "at o1 xs"
  shows "\<exists>o' w'. drain ex acc (o1, w) = Some (Inr (rev acc @ the_rows xs), (o', w')) \<and> world w' \<and> at o' []"
  using assms
proof (induction xs arbitrary: acc o1 w)
  case Nil
  then show ?case using end_at [OF Nil] by (subst drain.simps) simp
next
  case (Cons x xs)
  obtain o1' w1 where f: "ex_fetch ex (o1, w) = (Inr x, (o1', w1))" "world w1" "taken o1' (x # xs)"
    using fetch_at [OF Cons.prems] by blast
  obtain o2 w2 where s: "ex_step ex (o1', w1) = (Inr (), (o2, w2))" "world w2" "at o2 xs"
    using step_taken [OF f(2,3)] by blast
  let ?acc = "case x of None \<Rightarrow> acc | Some y \<Rightarrow> y # acc"
  obtain o3 w3 where d: "drain ex ?acc (o2, w2) = Some (Inr (rev ?acc @ the_rows xs), (o3, w3))" "world w3" "at o3 []"
    using Cons.IH [OF s(2,3)] by blast
  have "drain ex acc (o1, w) = Some (Inr (rev ?acc @ the_rows xs), (o3, w3))"
    using end_at [OF Cons.prems] f(1) s(1) d(1) by (subst drain.simps) simp
  moreover have "rev ?acc @ the_rows xs = rev acc @ the_rows (x # xs)" by (simp split: option.split)
  ultimately show ?case using d(2,3) by simp
qed

lemma select_all:
  assumes "world w" and "fresh o1"
  shows "\<exists>o' w'. select_rows ex (o1, w) = (Inr (the_rows rows), (o', w')) \<and> world w' \<and> at o' []"
proof -
  obtain o2 w2 where b: "ex_begin ex (o1, w) = (Inr (), (o2, w2))" "world w2" "at o2 rows"
    using begin_at [OF assms] by blast
  show ?thesis using drain_at [OF b(2,3), of "[]"] by (auto simp: select_rows_def bindE_apply b(1))
qed

end

text \<open>
  A source that can be begun again at any time, one that can be begun again right after \<open>beginTuple\<close> (as
  \<open>SortExecutor\<close> does), and one whose \<open>Next\<close> leaves the row in place.
\<close>

locale restartable_source = tuple_source +
  assumes fresh_any: "fresh o1 \<Longrightarrow> fresh o2"

locale repeatable_source = tuple_source +
  assumes begin_again: "at o1 rows \<Longrightarrow> fresh o1"

locale peekable_source = tuple_source +
  assumes taken_at: "taken o1 xs \<Longrightarrow> at o1 xs"
    and step_end: "world w \<Longrightarrow> at o1 [] \<Longrightarrow> \<exists>o' w'. ex_step ex (o1, w) = (Inr (), (o', w')) \<and> world w' \<and> at o' []"

end
