(* ===== verification/Output.thy ===== *)
theory Output
  imports Exec SmText
begin

text \<open>
  What a query prints: \<^verbatim>\<open>record_printer.h\<close>, the buffer that is sent to the client, and \<open>QlManager::select_from\<close> of
  \<^verbatim>\<open>execution/execution_manager.cpp\<close>, which also appends to the file \<^verbatim>\<open>output.txt\<close>.
\<close>

section \<open>RecordPrinter\<close>

definition BUFFER_LENGTH :: nat where "BUFFER_LENGTH = 8192"
definition RECORD_COUNT_LENGTH :: nat where "RECORD_COUNT_LENGTH = 40"
definition COL_WIDTH :: nat where "COL_WIDTH = 16"

text \<open>The bytes of \<open>data_send_\<close> in front of \<open>*offset_\<close>, the flag \<open>ellipsis_\<close>, and what went to the file.\<close>

record out =
  out_sent :: string
  out_ellipsis :: bool
  out_file :: string

definition fits :: "string \<Rightarrow> out \<Rightarrow> bool" where
  "fits str c \<longleftrightarrow> \<not> out_ellipsis c \<and> length (out_sent c) + RECORD_COUNT_LENGTH + length str < BUFFER_LENGTH"

definition send :: "string \<Rightarrow> out \<Rightarrow> out" where
  "send str c = c\<lparr>out_sent := out_sent c @ str\<rparr>"

definition print_part :: "string \<Rightarrow> out \<Rightarrow> out" where
  "print_part str c = (if fits str c then send str c else c\<lparr>out_ellipsis := True\<rparr>)"

definition print_separator :: "nat \<Rightarrow> out \<Rightarrow> out" where
  "print_separator num_cols c =
     print_part (''+'' @ newline) (fold (\<lambda>_. print_part (''+'' @ replicate (COL_WIDTH + 2) CHR ''-'')) [0..<num_cols] c)"

definition cell_text :: "string \<Rightarrow> string" where
  "cell_text col =
     (let s = (if length col > COL_WIDTH then take (COL_WIDTH - 3) col @ ''...'' else col)
      in ''| '' @ replicate (COL_WIDTH - length s) CHR '' '' @ s @ '' '')"

text \<open>The end of the line is dropped without a mark when it does not fit.\<close>

definition print_cells :: "string list \<Rightarrow> out \<Rightarrow> out" where
  "print_cells rec_str c =
     (let c1 = fold (\<lambda>col. print_part (cell_text col)) rec_str c; str = ''|'' @ newline
      in if fits str c1 then send str c1 else c1)"

definition print_rec :: "nat \<Rightarrow> string list \<Rightarrow> out \<Rightarrow> db_error + out" where
  "print_rec num_cols rec_str c = (if length rec_str \<noteq> num_cols then Inl AssertionFailed else Inr (print_cells rec_str c))"

definition count_text :: "nat \<Rightarrow> bool \<Rightarrow> string" where
  "count_text num_rec ellipsis =
     (if ellipsis then ''... ...'' @ newline else []) @ ''Total record(s): '' @ nat_str num_rec @ newline"

definition print_record_count :: "nat \<Rightarrow> out \<Rightarrow> out" where
  "print_record_count num_rec c = send (count_text num_rec (out_ellipsis c)) c"

section \<open>Values\<close>

text \<open>\<open>std::fixed << std::setprecision(6)\<close>: the exact value of the \<open>float\<close>, rounded to six decimals, ties to even.\<close>

definition micro_units :: "nat \<Rightarrow> nat" where
  "micro_units u = (let n = u * 10 ^ 6; q = n div 2 ^ 149; r = n mod 2 ^ 149
     in if r > 2 ^ 148 \<or> r = 2 ^ 148 \<and> odd q then q + 1 else q)"

definition six_digits :: "nat \<Rightarrow> string" where
  "six_digits n = map (\<lambda>k. digit_char (n div 10 ^ k mod 10)) [5, 4, 3, 2, 1, 0]"

definition f32_text :: "int \<Rightarrow> string" where
  "f32_text b = (if b \<ge> 2 ^ 31 then ''-'' else []) @
     (if f32_nan b then ''nan'' else if f32_inf b then ''inf''
      else let n = micro_units (nat \<bar>f32_units b\<bar>) in nat_str (n div 10 ^ 6) @ ''.'' @ six_digits (n mod 10 ^ 6))"

definition value_text :: "ColMeta \<Rightarrow> byte list \<Rightarrow> db_error + string" where
  "value_text c v =
     (if cm_type c = TYPE_INT_c then bindR (bytes_at v (cm_offset c) 4) (\<lambda>x. Inr (int_str (i32_of x)))
      else if cm_type c = TYPE_FLOAT_c then bindR (bytes_at v (cm_offset c) 4) (\<lambda>x. Inr (f32_text (f32_of x)))
      else if cm_type c = TYPE_STRING_c
      then bindR (bytes_at v (cm_offset c) (cm_len c)) (\<lambda>x. Inr (string_of_bytes (trim_char x)))
      else Inr [])"

fun row_texts :: "ColMeta list \<Rightarrow> byte list \<Rightarrow> db_error + string list" where
  "row_texts [] v = Inr []"
| "row_texts (c # cs) v = bindR (value_text c v) (\<lambda>x. bindR (row_texts cs v) (\<lambda>xs. Inr (x # xs)))"

section \<open>\<open>select_from\<close>\<close>

definition caption :: "TabCol \<Rightarrow> string" where
  "caption c = (if tc_tab c = [] \<and> tc_col c \<noteq> [] then tc_col c
     else if tc_alias c \<noteq> [] then tc_alias c else tc_col c)"

definition file_line :: "string list \<Rightarrow> string" where
  "file_line xs = ''|'' @ concat (map (\<lambda>x. '' '' @ x @ '' |'') xs) @ newline"

definition to_file :: "string list \<Rightarrow> out \<Rightarrow> out" where
  "to_file xs c = c\<lparr>out_file := out_file c @ file_line xs\<rparr>"

definition print_header :: "TabCol list \<Rightarrow> out \<Rightarrow> db_error + out" where
  "print_header sel_cols c =
     (if sel_cols = [] then Inl AssertionFailed
      else let n = length sel_cols; caps = map caption sel_cols
           in bindR (print_rec n caps (print_separator n c)) (\<lambda>c. Inr (to_file caps (print_separator n c))))"

definition print_row :: "nat \<Rightarrow> ColMeta list \<Rightarrow> byte list \<Rightarrow> out \<Rightarrow> db_error + out" where
  "print_row num_cols cols v c =
     bindR (row_texts cols v) (\<lambda>xs. bindR (print_rec num_cols xs c) (\<lambda>c. Inr (to_file xs c)))"

text \<open>The loop; the state is the executor, the database and the output.\<close>

partial_function (option) print_loop ::
  "('o, 'w) executor \<Rightarrow> nat \<Rightarrow> nat \<Rightarrow> ('o \<times> 'w) \<times> out \<Rightarrow> ((db_error + nat) \<times> (('o \<times> 'w) \<times> out)) option" where
  "print_loop ex n num_rec s =
     (case ex_end ex (fst s) of
        (Inl e, t) \<Rightarrow> Some (Inl e, (t, snd s))
      | (Inr e, t) \<Rightarrow>
          if e then Some (Inr num_rec, (t, snd s))
          else (case ex_fetch ex t of
             (Inl e, u) \<Rightarrow> Some (Inl e, (u, snd s))
           | (Inr x, u) \<Rightarrow>
               (case (case x of None \<Rightarrow> Inr (snd s) | Some v \<Rightarrow> print_row n (ex_cols ex) v (snd s)) of
                  Inl e \<Rightarrow> Some (Inl e, (u, snd s))
                | Inr c \<Rightarrow>
                    (case ex_step ex u of
                       (Inl e, v) \<Rightarrow> Some (Inl e, (v, c))
                     | (Inr _, v) \<Rightarrow> print_loop ex n (if x = None then num_rec else num_rec + 1) (v, c)))))"

definition on_exec :: "('o \<times> 'w, 'a) op \<Rightarrow> (('o \<times> 'w) \<times> out, 'a) op" where
  "on_exec m = (\<lambda>(s, c). case m s of (x, t) \<Rightarrow> (x, (t, c)))"

definition on_out :: "(out \<Rightarrow> db_error + out) \<Rightarrow> (('o \<times> 'w) \<times> out, unit) op" where
  "on_out g = (\<lambda>(s, c). case g c of Inl e \<Rightarrow> (Inl e, (s, c)) | Inr c' \<Rightarrow> (Inr (), (s, c')))"

definition select_from :: "('o, 'w) executor \<Rightarrow> TabCol list \<Rightarrow> (('o \<times> 'w) \<times> out, unit) op" where
  "select_from ex sel_cols =
     bindE (on_out (print_header sel_cols)) (\<lambda>_.
     bindE (on_exec (ex_begin ex)) (\<lambda>_.
     bindE (\<lambda>s. returned (print_loop ex (length sel_cols) 0 s) s) (\<lambda>num_rec.
     on_out (\<lambda>c. Inr (print_record_count num_rec (print_separator (length sel_cols) c))))))"

section \<open>The output of a source\<close>

fun print_rows :: "nat \<Rightarrow> ColMeta list \<Rightarrow> byte list list \<Rightarrow> out \<Rightarrow> db_error + out" where
  "print_rows n cols [] c = Inr c"
| "print_rows n cols (v # vs) c = bindR (print_row n cols v c) (print_rows n cols vs)"

context tuple_source
begin

lemma print_loop_at:
  assumes "world w" and "at o1 xs" and "print_rows n (ex_cols ex) (the_rows xs) c = Inr d"
  shows "\<exists>o' w'. print_loop ex n k ((o1, w), c) = Some (Inr (k + length (the_rows xs)), ((o', w'), d)) \<and> world w'"
  using assms
proof (induction xs arbitrary: o1 w c k)
  case Nil
  then show ?case using end_at [OF Nil(1,2)] by (subst print_loop.simps) simp
next
  case (Cons x xs)
  obtain o1' w1 where f: "ex_fetch ex (o1, w) = (Inr x, (o1', w1))" "world w1" "taken o1' (x # xs)"
    using fetch_at [OF Cons.prems(1,2)] by blast
  obtain o2 w2 where s: "ex_step ex (o1', w1) = (Inr (), (o2, w2))" "world w2" "at o2 xs"
    using step_taken [OF f(2,3)] by blast
  obtain c' where c: "(case x of None \<Rightarrow> Inr c | Some v \<Rightarrow> print_row n (ex_cols ex) v c) = Inr c'"
    "print_rows n (ex_cols ex) (the_rows xs) c' = Inr d"
    using Cons.prems(3) by (cases x) (auto simp: bindR_Inr)
  let ?k = "if x = None then k else k + 1"
  obtain o3 w3 where d: "print_loop ex n ?k ((o2, w2), c') = Some (Inr (?k + length (the_rows xs)), ((o3, w3), d))" "world w3"
    using Cons.IH [OF s(2,3) c(2)] by blast
  have "print_loop ex n k ((o1, w), c) = Some (Inr (?k + length (the_rows xs)), ((o3, w3), d))"
    using end_at [OF Cons.prems(1,2)] f(1) s(1) c(1) d(1) by (subst print_loop.simps) (cases x; simp)
  moreover have "?k + length (the_rows xs) = k + length (the_rows (x # xs))" by (cases x) simp_all
  ultimately show ?case using d(2) by metis
qed

lemma select_from_rows:
  assumes "world w" and "fresh o1" and "print_header sel_cols c = Inr c1"
    and "print_rows (length sel_cols) (ex_cols ex) (the_rows rows) c1 = Inr c2"
  shows "\<exists>o' w'. select_from ex sel_cols ((o1, w), c) =
    (Inr (), ((o', w'), print_record_count (length (the_rows rows)) (print_separator (length sel_cols) c2))) \<and> world w'"
proof -
  obtain o2 w2 where b: "ex_begin ex (o1, w) = (Inr (), (o2, w2))" "world w2" "at o2 rows"
    using begin_at [OF assms(1,2)] by blast
  obtain o3 w3 where p: "print_loop ex (length sel_cols) 0 ((o2, w2), c1) = Some (Inr (length (the_rows rows)), ((o3, w3), c2))" "world w3"
    using print_loop_at [OF b(2,3) assms(4), of 0] by auto
  then show ?thesis by (simp add: select_from_def bindE_apply on_out_def on_exec_def assms(3) b(1))
qed

end

section \<open>The buffer is never overrun\<close>

definition in_bounds :: "out \<Rightarrow> bool" where
  "in_bounds c \<longleftrightarrow> length (out_sent c) + RECORD_COUNT_LENGTH < BUFFER_LENGTH"

lemma bounds_part: "in_bounds c \<Longrightarrow> in_bounds (print_part str c)"
  by (auto simp: in_bounds_def print_part_def fits_def send_def)

lemma bounds_fold: "in_bounds c \<Longrightarrow> in_bounds (fold (\<lambda>x. print_part (f x)) xs c)"
  by (induction xs arbitrary: c) (simp_all add: bounds_part)

lemma bounds_separator: "in_bounds c \<Longrightarrow> in_bounds (print_separator n c)"
  by (simp add: print_separator_def bounds_part bounds_fold)

lemma bounds_cells: "in_bounds c \<Longrightarrow> in_bounds (print_cells xs c)"
  using bounds_fold [of c cell_text xs] by (auto simp: print_cells_def Let_def in_bounds_def fits_def send_def)

lemma bounds_record: "in_bounds c \<Longrightarrow> print_rec n xs c = Inr d \<Longrightarrow> in_bounds d"
  by (auto simp: print_rec_def bounds_cells split: if_splits)

lemma bounds_file [simp]: "in_bounds (to_file xs c) = in_bounds c"
  by (simp add: to_file_def in_bounds_def)

lemma bounds_row: "in_bounds c \<Longrightarrow> print_row n cols v c = Inr d \<Longrightarrow> in_bounds d"
  by (auto simp: print_row_def bindR_Inr dest: bounds_record)

lemma bounds_rows: "in_bounds c \<Longrightarrow> print_rows n cols vs c = Inr d \<Longrightarrow> in_bounds d"
  by (induction vs arbitrary: c) (auto simp: bindR_Inr dest: bounds_row)

lemma bounds_header: "in_bounds c \<Longrightarrow> print_header sel_cols c = Inr d \<Longrightarrow> in_bounds d"
  using bounds_record [OF bounds_separator] bounds_separator
  by (fastforce simp: print_header_def Let_def bindR_Inr split: if_splits)

lemma nat_str_short: "n < 10 ^ k \<Longrightarrow> 0 < k \<Longrightarrow> length (nat_str n) \<le> k"
proof (induction k arbitrary: n)
  case (Suc k)
  show ?case
  proof (cases "n < 10")
    case True
    then show ?thesis by (simp add: nat_str.simps [of n])
  next
    case False
    then have "k \<noteq> 0" using Suc.prems(1) by (cases k) simp_all
    moreover have "n div 10 < 10 ^ k" using Suc.prems(1) by (simp add: less_mult_imp_div_less mult.commute)
    ultimately show ?thesis using Suc.IH [of "n div 10"] False by (subst nat_str.simps) simp
  qed
qed simp

lemma count_text_short: "n < 10 ^ 14 \<Longrightarrow> length (count_text n e) \<le> RECORD_COUNT_LENGTH"
  using nat_str_short [of n 14] by (simp add: count_text_def RECORD_COUNT_LENGTH_def newline_def)

lemma file_part [simp]: "out_file (print_part str c) = out_file c" "out_file (fold (\<lambda>x. print_part (f x)) xs c) = out_file c"
proof -
  show part: "out_file (print_part str c) = out_file c" for str c by (simp add: print_part_def send_def)
  show "out_file (fold (\<lambda>x. print_part (f x)) xs c) = out_file c" by (induction xs arbitrary: c) (simp_all add: part)
qed

lemma print_row_file: "print_row n cols v c = Inr d \<Longrightarrow> length (out_file c) < length (out_file d)"
  by (auto simp: print_row_def bindR_Inr to_file_def file_line_def print_rec_def print_cells_def Let_def send_def split: if_splits)

lemma print_loop_bounds:
  assumes "print_loop ex n k s = Some y" and "in_bounds (snd s)" and "k \<le> length (out_file (snd s))"
  shows "in_bounds (snd (snd y)) \<and> (\<forall>m. fst y = Inr m \<longrightarrow> m \<le> length (out_file (snd (snd y))))"
proof -
  let ?Q = "\<lambda>ex n k s y. in_bounds (snd s) \<longrightarrow> k \<le> length (out_file (snd s)) \<longrightarrow>
    in_bounds (snd (snd y)) \<and> (\<forall>m. fst y = Inr m \<longrightarrow> m \<le> length (out_file (snd (snd y))))"
  have "?Q ex n k s y"
  proof (rule print_loop.raw_induct [of ?Q, OF _ assms(1)], goal_cases)
    case (1 loop ex n k s y)
    obtain o1 c where s: "s = (o1, c)" by (cases s)
    have row: "Suc k \<le> length (out_file c')" if "print_row n (ex_cols ex) v c = Inr c'" "k \<le> length (out_file c)" for v c'
      using that print_row_file [of n "ex_cols ex" v c c'] by simp
    show ?case
      using 1(2) s
      by (auto split: prod.splits sum.splits if_split_asm option.splits dest!: 1(1) dest: row bounds_row)
  qed
  then show ?thesis using assms(2,3) by blast
qed

lemma file_separator [simp]: "out_file (print_separator n c) = out_file c"
  by (simp add: print_separator_def)

end
