(* ===== verification/IxPrint.thy ===== *)
theory IxPrint
  imports IxFile SmText Output
begin

text \<open>
  Text files, and the dump of an index, \<open>IxIndexHandle::print_tree\<close> of \<^verbatim>\<open>index/ix_index_handle.cpp\<close>, which
  \<open>SmManager::create_index\<close> writes next to the data.
\<close>

section \<open>Text files\<close>

text \<open>An \<open>ofstream\<close> that cannot be opened is not noticed: what is written to it is lost.\<close>

definition file_of_text :: "string \<Rightarrow> os_file" where
  "file_of_text t = \<lparr>fsize = length t, fbytes = mem_put zero_mem 0 (bytes_of_string t)\<rparr>"

definition text_of_file :: "os_file \<Rightarrow> string" where
  "text_of_file f = string_of_bytes (mem_read (fbytes f) 0 (fsize f))"

definition can_open :: "'a disk_scheme \<Rightarrow> bool" where
  "can_open d \<longleftrightarrow> 0 \<le> os_pick d (dom (os_fds d))"

definition ofstream_text :: "string \<Rightarrow> string \<Rightarrow> 'a disk_scheme \<Rightarrow> 'a disk_scheme" where
  "ofstream_text path t d = (if can_open d then d\<lparr>os_files := (os_files d)(path \<mapsto> file_of_text t)\<rparr> else d)"

definition ifstream_text :: "string \<Rightarrow> 'a disk_scheme \<Rightarrow> string option" where
  "ifstream_text path d = (if can_open d then map_option text_of_file (os_files d path) else None)"

lemma text_of_file_of_text [simp]: "text_of_file (file_of_text t) = t"
  by (simp add: text_of_file_def file_of_text_def bytes_of_string_def string_of_bytes_def comp_def unat_of_nat take_bit_eq_mod)

section \<open>Floats in a stream\<close>

text \<open>
  The default format of an \<open>ostream\<close>, \<open>%g\<close> with six significant digits. A positive number is \<open>u\<close> times
  \<open>2 ^ (- 149)\<close>; \<open>decimal_exponent\<close> is the place of its first digit.
\<close>

definition round_div :: "nat \<Rightarrow> nat \<Rightarrow> nat" where
  "round_div a b = (let q = a div b; r = a mod b in if 2 * r > b \<or> 2 * r = b \<and> odd q then q + 1 else q)"

definition scaled :: "nat \<Rightarrow> int \<Rightarrow> nat" where
  "scaled u k = (if 0 \<le> k then round_div (u * 10 ^ nat k) (2 ^ 149) else round_div u (2 ^ 149 * 10 ^ nat (- k)))"

definition decimal_exponent :: "nat \<Rightarrow> int" where
  "decimal_exponent u = last (filter (\<lambda>x. if 0 \<le> x then 10 ^ nat x * 2 ^ 149 \<le> u else 2 ^ 149 \<le> u * 10 ^ nat (- x)) [- 46..38])"

definition six_significant :: "nat \<Rightarrow> nat \<times> int" where
  "six_significant u = (let x = decimal_exponent u; n = scaled u (5 - x) in if n = 10 ^ 6 then (10 ^ 5, x + 1) else (n, x))"

definition fraction_text :: "nat \<Rightarrow> nat \<Rightarrow> string" where
  "fraction_text k n = (let ds = rev (dropWhile (\<lambda>c. c = CHR ''0'') (rev (map (\<lambda>i. digit_char (n div 10 ^ i mod 10)) (rev [0..<k]))))
     in if ds = [] then [] else CHR ''.'' # ds)"

definition two_digits :: "nat \<Rightarrow> string" where
  "two_digits n = (if n < 10 then CHR ''0'' # nat_str n else nat_str n)"

definition general_text :: "nat \<Rightarrow> string" where
  "general_text u =
     (if u = 0 then ''0''
      else let (n, x) = six_significant u
           in if - 4 \<le> x \<and> x < 6 then nat_str (n div 10 ^ nat (5 - x)) @ fraction_text (nat (5 - x)) (n mod 10 ^ nat (5 - x))
              else nat_str (n div 10 ^ 5) @ fraction_text 5 (n mod 10 ^ 5) @ ''e'' @ (if x < 0 then ''-'' else ''+'') @
                   two_digits (nat \<bar>x\<bar>))"

definition stream_f32 :: "int \<Rightarrow> string" where
  "stream_f32 b = (if b \<ge> 2 ^ 31 then ''-'' else []) @
     (if f32_nan b then ''nan'' else if f32_inf b then ''inf'' else general_text (nat \<bar>f32_units b\<bar>))"

section \<open>\<open>print_tree\<close>\<close>

text \<open>The columns of a key, separated by commas.\<close>

definition key_col_text :: "byte list \<Rightarrow> int \<Rightarrow> int \<Rightarrow> int \<Rightarrow> db_error + string" where
  "key_col_text key off ty len =
     (if ty = TYPE_INT_c then bindR (bytes_at key off 4) (\<lambda>x. Inr (int_str (i32_of x)))
      else if ty = TYPE_FLOAT_c then bindR (bytes_at key off 4) (\<lambda>x. Inr (stream_f32 (f32_of x)))
      else if ty = TYPE_STRING_c
      then bindR (bytes_at key off len) (\<lambda>x. Inr ([CHR 0x27] @ string_of_bytes (c_str x) @ [CHR 0x27]))
      else Inr ''?'')"

fun key_texts :: "byte list \<Rightarrow> int \<Rightarrow> (int \<times> int) list \<Rightarrow> db_error + string list" where
  "key_texts key off [] = Inr []"
| "key_texts key off ((ty, len) # cs) =
     bindR (key_col_text key off ty len) (\<lambda>t. bindR (key_texts key (off + len) cs) (\<lambda>ts. Inr (t # ts)))"

fun commas :: "string list \<Rightarrow> string" where
  "commas [] = []"
| "commas [t] = t"
| "commas (t # ts) = t @ '','' @ commas ts"

definition key_text :: "ix_file_hdr \<Rightarrow> byte list \<Rightarrow> db_error + string" where
  "key_text h key = bindR (key_texts key 0 (zip (col_types h) (col_lens h))) (\<lambda>ts. Inr (commas ts))"

text \<open>The text so far and the database. A page is read while it is pinned.\<close>

definition emit :: "string \<Rightarrow> (string \<times> 's, unit) op" where
  "emit t = (\<lambda>(u, s). (Inr (), (u @ t, s)))"

definition look_at :: "nat \<Rightarrow> (mem \<Rightarrow> db_error + 'b) \<Rightarrow> (string \<times> 'a bpm_scheme, 'b) op" where
  "look_at f g = on_snd (on_page f (lookE g))"

definition print_key :: "ix_file_hdr \<Rightarrow> nat \<Rightarrow> int \<Rightarrow> (string \<times> 'a bpm_scheme, unit) op" where
  "print_key h f i = bindE (look_at f (\<lambda>m. bindR (get_key h i m) (key_text h))) emit"

definition print_leaf :: "ix_file_hdr \<Rightarrow> nat \<Rightarrow> int \<Rightarrow> (string \<times> 'a bpm_scheme, unit) op" where
  "print_leaf h f n = bindE (emit ''  Keys&Rids: '') (\<lambda>_.
     bindE (forE [0..n - 1] (\<lambda>i. bindE (look_at f (get_rid h i)) (\<lambda>r. bindE (emit ''['') (\<lambda>_. bindE (print_key h f i) (\<lambda>_.
        emit (''|rid=('' @ int_str (rid_page_no r) @ '','' @ int_str (rid_slot_no r) @ '')] '')))))) (\<lambda>_.
     bindE (emit newline) (\<lambda>_.
     if n > 0
     then bindE (emit ''  KeyRange: min=['') (\<lambda>_. bindE (print_key h f 0) (\<lambda>_. bindE (emit ''], max=['') (\<lambda>_.
          bindE (print_key h f (n - 1)) (\<lambda>_. emit ('']'' @ newline)))))
     else ret ())))"

definition print_child :: "int \<Rightarrow> ix_file_hdr \<Rightarrow> nat \<Rightarrow> int \<Rightarrow> (string \<times> 'a bpm_scheme, int) op" where
  "print_child fd h f i = bindE (look_at f (value_at h i)) (\<lambda>child_page_no.
     bindE (on_snd (fetch_node fd child_page_no)) (\<lambda>c.
     bindE (look_at c (\<lambda>m. Inr (node_parent m))) (\<lambda>p.
     bindE (emit (int_str child_page_no @ ''(parent='' @ int_str p @ '') '')) (\<lambda>_.
     bindE (on_snd (unpin_frame c False)) (\<lambda>_. ret child_page_no)))))"

fun print_children :: "int \<Rightarrow> ix_file_hdr \<Rightarrow> nat \<Rightarrow> int list \<Rightarrow> (string \<times> 'a bpm_scheme, int list) op" where
  "print_children fd h f [] = ret []"
| "print_children fd h f (i # is) = bindE (print_child fd h f i) (\<lambda>c. bindE (print_children fd h f is) (\<lambda>cs. ret (c # cs)))"

definition print_inner :: "int \<Rightarrow> ix_file_hdr \<Rightarrow> nat \<Rightarrow> int \<Rightarrow> (string \<times> 'a bpm_scheme, int list) op" where
  "print_inner fd h f n = bindE (emit ''  Keys: '') (\<lambda>_.
     bindE (forE [0..n - 1] (\<lambda>i. bindE (emit ''['') (\<lambda>_. bindE (print_key h f i) (\<lambda>_. emit ''] '')))) (\<lambda>_.
     bindE (emit (newline @ ''  Children: '')) (\<lambda>_.
     bindE (print_children fd h f [0..n]) (\<lambda>cs. bindE (emit newline) (\<lambda>_. ret cs)))))"

definition node_line :: "nat \<Rightarrow> 'a bpm_scheme \<Rightarrow> string" where
  "node_line f s = (let m = page_mem f s in
     ''Node['' @ int_str (node_page f s) @ ''] '' @ (if is_leaf_page m then ''(Leaf) '' else ''(Internal) '') @
     ''parent_page_no='' @ int_str (node_parent m) @ '', num_key='' @ int_str (num_key m) @
     (if is_leaf_page m then '', prev_leaf='' @ int_str (prev_leaf m) @ '', next_leaf='' @ int_str (next_leaf m) else []) @ newline)"

definition print_node :: "int \<Rightarrow> ix_file_hdr \<Rightarrow> int \<Rightarrow> (string \<times> 'a bpm_scheme, int list) op" where
  "print_node fd h page_no = bindE (on_snd (fetch_node fd page_no)) (\<lambda>f. bindE getS (\<lambda>(_, s).
     let n = num_key (page_mem f s)
     in bindE (emit (node_line f s)) (\<lambda>_.
        bindE (if is_leaf_page (page_mem f s) then bindE (print_leaf h f n) (\<lambda>_. ret []) else print_inner fd h f n) (\<lambda>cs.
        bindE (emit newline) (\<lambda>_. bindE (on_snd (unpin_frame f False)) (\<lambda>_. ret cs))))))"

text \<open>Breadth first; page numbers in a damaged file may send the walk around in circles.\<close>

partial_function (option) print_levels ::
  "int \<Rightarrow> ix_file_hdr \<Rightarrow> (int \<times> int) list \<Rightarrow> int \<Rightarrow> string \<times> 'a bpm_scheme \<Rightarrow>
    ((db_error + unit) \<times> (string \<times> 'a bpm_scheme)) option" where
  "print_levels fd h q current_level s =
     (if q = [] then Some (Inr (), s)
      else let (page_no, level) = hd q;
               t = (if level > current_level
                    then snd (emit (newline @ ''--- Level '' @ int_str level @ '' ---'' @ newline) s) else s)
           in case print_node fd h page_no t of
                (Inl e, u) \<Rightarrow> Some (Inl e, u)
              | (Inr cs, u) \<Rightarrow> print_levels fd h (tl q @ map (\<lambda>c. (c, level + 1)) cs) (max level current_level) u)"

definition dump_tree :: "int \<Rightarrow> ix_file_hdr \<Rightarrow> string \<Rightarrow> string \<Rightarrow> ('a ixs_scheme, unit) op" where
  "dump_tree fd h outfile_path head = (\<lambda>s.
     case returned (print_levels fd h [(root_page h, 0)] (- 1) (head, s)) (head, s) of
       (r, (t, s')) \<Rightarrow> (r, s'\<lparr>os_files := (os_files s')(outfile_path \<mapsto> file_of_text t)\<rparr>))"

definition print_tree :: "int \<Rightarrow> string \<Rightarrow> ('a ixs_scheme, unit) op" where
  "print_tree fd outfile_path = bindE getS (\<lambda>s.
     if \<not> can_open s then ret ()
     else bindE (ix_hdr fd) (\<lambda>h.
          let head = ''[file_hdr_] first_leaf_ = '' @ int_str (first_leaf h) @ '', last_leaf_ = '' @ int_str (last_leaf h) @ newline
          in if root_page h = IX_NO_PAGE then updS (ofstream_text outfile_path (head @ ''Empty tree'' @ newline))
             else dump_tree fd h outfile_path (head @ ''=== B+ Tree Structure ==='' @ newline)))"

end
