(* ===== verification/SmManager.thy ===== *)
theory SmManager
  imports IxPrint IxDelete TxnManager
begin

text \<open>
  The system manager, \<^verbatim>\<open>system/sm_manager.{h,cpp}\<close>: databases, tables and indexes, and the catalogue that is
  written to the meta file after each change.

  A database is a directory. \<open>os_files\<close> are the files of the directory \<open>os_here\<close>, which the process has
  entered last, \<open>os_dirs\<close> the directories next to it; \<open>os_inside\<close> says whether the process is in it now. Names of
  databases are plain file names. \<open>os_shell\<close> is whether \<open>system\<close> can start a shell, \<open>name_order\<close> the order in
  which an unordered map from names is walked.
\<close>

section \<open>State\<close>

record sms = ixs +
  db_name :: string
  db_tabs :: "string \<rightharpoonup> TabMeta"
  db_next_ts :: int
  ihs :: "string \<rightharpoonup> int"
  name_order :: "string set \<Rightarrow> string list"
  os_dirs :: "string \<rightharpoonup> (string \<rightharpoonup> os_file)"
  os_here :: "string option"
  os_inside :: bool
  os_shell :: bool

definition DB_META_NAME :: string where "DB_META_NAME = ''db.meta''"

definition is_table :: "string \<Rightarrow> 'a sms_scheme \<Rightarrow> bool" where
  "is_table tab_name s \<longleftrightarrow> db_tabs s tab_name \<noteq> None"

definition get_table :: "string \<Rightarrow> ('a sms_scheme, TabMeta) op" where
  "get_table tab_name = bindE getS (\<lambda>s. case db_tabs s tab_name of
     None \<Rightarrow> raise (TableNotFoundError tab_name) | Some t \<Rightarrow> ret t)"

definition put_table :: "string \<Rightarrow> TabMeta \<Rightarrow> ('a sms_scheme, unit) op" where
  "put_table tab_name t = updS (\<lambda>s. s\<lparr>db_tabs := (db_tabs s)(tab_name \<mapsto> t)\<rparr>)"

definition upd_table :: "string \<Rightarrow> (TabMeta \<Rightarrow> TabMeta) \<Rightarrow> ('a sms_scheme, unit) op" where
  "upd_table tab_name f = bindE (get_table tab_name) (\<lambda>t. put_table tab_name (f t))"

definition get_start_timestamp :: "'a sms_scheme \<Rightarrow> int" where
  "get_start_timestamp s = db_next_ts s"

definition set_next_timestamp :: "int \<Rightarrow> 'a sms_scheme \<Rightarrow> 'a sms_scheme" where
  "set_next_timestamp ts s = s\<lparr>db_next_ts := ts\<rparr>"

section \<open>The meta file\<close>

definition catalogue :: "'a sms_scheme \<Rightarrow> DbMeta" where
  "catalogue s = \<lparr>dbm_name = db_name s, dbm_tabs = db_tabs s, dbm_next_ts = db_next_ts s\<rparr>"

definition set_catalogue :: "DbMeta \<Rightarrow> 'a sms_scheme \<Rightarrow> 'a sms_scheme" where
  "set_catalogue d s = s\<lparr>db_name := dbm_name d, db_tabs := dbm_tabs d, db_next_ts := dbm_next_ts d\<rparr>"

definition flush_meta :: "('a sms_scheme, unit) op" where
  "flush_meta = updS (\<lambda>s. ofstream_text DB_META_NAME (db_text (catalogue s)) s)"

definition update_table_row_count :: "string \<Rightarrow> int \<Rightarrow> ('a sms_scheme, unit) op" where
  "update_table_row_count tab_name row_count = bindE getS (\<lambda>s.
     if \<not> is_table tab_name s then ret ()
     else bindE (upd_table tab_name (\<lambda>t. t\<lparr>tm_rows := row_count\<rparr>)) (\<lambda>_. flush_meta))"

section \<open>Databases\<close>

definition is_dir :: "string \<Rightarrow> 'a sms_scheme \<Rightarrow> bool" where
  "is_dir d s \<longleftrightarrow> \<not> os_inside s \<and> d \<in> dom (os_dirs s)"

definition enter_dir :: "string \<Rightarrow> ('a sms_scheme, unit) op" where
  "enter_dir d = bindE getS (\<lambda>s.
     if \<not> is_dir d s then raise UnixError
     else let dirs = (case os_here s of None \<Rightarrow> os_dirs s | Some h \<Rightarrow> (os_dirs s)(h \<mapsto> os_files s))
          in updS (\<lambda>s. s\<lparr>os_dirs := dirs, os_files := the (dirs d), os_here := Some d, os_inside := True\<rparr>))"

definition leave_dir :: "('a sms_scheme, unit) op" where
  "leave_dir = updS (\<lambda>s. s\<lparr>os_inside := False\<rparr>)"

text \<open>\<open>system\<close> is negative only when no shell is started; a \<open>mkdir\<close> that fails is not noticed.\<close>

definition mkdir :: "string \<Rightarrow> ('a sms_scheme, unit) op" where
  "mkdir d = bindE getS (\<lambda>s.
     if \<not> os_shell s then raise UnixError
     else updS (\<lambda>s. if os_dirs s d = None then s\<lparr>os_dirs := (os_dirs s)(d \<mapsto> Map.empty)\<rparr> else s))"

definition rm_dir :: "string \<Rightarrow> ('a sms_scheme, unit) op" where
  "rm_dir d = bindE getS (\<lambda>s.
     if \<not> os_shell s then raise UnixError
     else updS (\<lambda>s. if os_here s = Some d then s\<lparr>os_dirs := (os_dirs s)(d := None), os_files := Map.empty, os_here := None\<rparr>
                    else s\<lparr>os_dirs := (os_dirs s)(d := None)\<rparr>))"

definition create_db :: "string \<Rightarrow> ('a sms_scheme, unit) op" where
  "create_db db = bindE getS (\<lambda>s.
     if is_dir db s then raise (DatabaseExistsError db)
     else bindE (mkdir db) (\<lambda>_. bindE (enter_dir db) (\<lambda>_.
          bindE (updS (ofstream_text DB_META_NAME (db_text \<lparr>dbm_name = db, dbm_tabs = Map.empty, dbm_next_ts = 0\<rparr>))) (\<lambda>_.
          bindE (create_file LOG_FILE_NAME) (\<lambda>_. leave_dir)))))"

definition drop_db :: "string \<Rightarrow> ('a sms_scheme, unit) op" where
  "drop_db db = bindE getS (\<lambda>s. if \<not> is_dir db s then raise (DatabaseNotFoundError db) else rm_dir db)"

text \<open>\<open>open_index\<close> is called without the metadata of the index.\<close>

definition open_table_index :: "string \<Rightarrow> IndexMeta \<Rightarrow> ('a sms_scheme, unit) op" where
  "open_table_index tab_name ix = (let names = map cm_name (im_cols ix)
     in bindE (open_index tab_name names None) (\<lambda>ih.
        updS (\<lambda>s. s\<lparr>ihs := (ihs s)(get_index_name tab_name names \<mapsto> ih)\<rparr>)))"

definition open_table :: "mem \<Rightarrow> TabMeta \<Rightarrow> ('a sms_scheme, unit) op" where
  "open_table junk tab = bindE (rm_open_file junk (tm_name tab)) (\<lambda>fd.
     bindE (updS (\<lambda>s. s\<lparr>fhs := (fhs s)(tm_name tab \<mapsto> fd)\<rparr>)) (\<lambda>_.
     forE (tm_indexes tab) (open_table_index (tm_name tab))))"

text \<open>\<open>junk_db\<close> is what a read that fails leaves in \<open>db_\<close>, \<open>junk\<close> the memory of a new file handle.\<close>

definition open_db :: "DbMeta \<Rightarrow> mem \<Rightarrow> string \<Rightarrow> ('a sms_scheme, unit) op" where
  "open_db junk_db junk db = bindE getS (\<lambda>s.
     if \<not> is_dir db s then raise (DatabaseNotFoundError db)
     else bindE (enter_dir db) (\<lambda>_. bindE getS (\<lambda>s.
          case Option.bind (ifstream_text DB_META_NAME s) (rd_db (db_tabs s)) of
            None \<Rightarrow> bindE (updS (set_catalogue junk_db)) (\<lambda>_. raise (DatabaseNotFoundError db))
          | Some (d, _) \<Rightarrow> bindE (updS (set_catalogue d)) (\<lambda>_. forE (tabs_in_order (dbm_tabs d)) (open_table junk)))))"

text \<open>
  The handles are closed after \<open>chdir\<close>; none of these calls looks a name up, so the directory is left
  where the source leaves it without an effect on them.
\<close>

definition close_db :: "('a sms_scheme, unit) op" where
  "close_db = bindE getS (\<lambda>s.
     let files = map (\<lambda>n. the (fhs s n)) (name_order s (dom (fhs s))); indexes = map (\<lambda>n. the (ihs s n)) (name_order s (dom (ihs s)))
     in bindE (forE files flush_all_pages) (\<lambda>_. bindE leave_dir (\<lambda>_.
        bindE (forE files rm_close_file) (\<lambda>_. bindE (updS (\<lambda>s. s\<lparr>fhs := Map.empty\<rparr>)) (\<lambda>_.
        bindE (forE indexes close_index) (\<lambda>_. bindE (updS (\<lambda>s. s\<lparr>ihs := Map.empty\<rparr>)) (\<lambda>_.
        updS (\<lambda>s. s\<lparr>db_tabs := Map.empty, db_name := []\<rparr>))))))))"

section \<open>Tables\<close>

record ColDef =
  cd_name :: string
  cd_type :: int
  cd_len :: int

fun repeated_name :: "string list \<Rightarrow> ColDef list \<Rightarrow> string option" where
  "repeated_name seen [] = None"
| "repeated_name seen (c # cs) = (if cd_name c \<in> set seen then Some (cd_name c) else repeated_name (cd_name c # seen) cs)"

fun new_cols :: "string \<Rightarrow> int \<Rightarrow> ColDef list \<Rightarrow> ColMeta list" where
  "new_cols tab_name off [] = []"
| "new_cols tab_name off (c # cs) =
     \<lparr>cm_tab = tab_name, cm_name = cd_name c, cm_type = cd_type c, cm_len = cd_len c, cm_offset = off, cm_index = False\<rparr> #
     new_cols tab_name (c_int (off + cd_len c)) cs"

definition row_len :: "ColDef list \<Rightarrow> int" where
  "row_len cs = foldl (\<lambda>off c. c_int (off + cd_len c)) 0 cs"

definition new_table :: "string \<Rightarrow> ColDef list \<Rightarrow> TabMeta" where
  "new_table tab_name cs = \<lparr>tm_name = tab_name, tm_cols = new_cols tab_name 0 cs, tm_indexes = [], tm_rows = 0\<rparr>"

text \<open>A \<open>catch\<close> that cleans up and throws the exception again.\<close>

definition on_exception :: "('s, 'a) op \<Rightarrow> ('s, unit) op \<Rightarrow> ('s, 'a) op" where
  "on_exception m h = (\<lambda>s. case m s of
     (Inl e, t) \<Rightarrow> if cxx_exception e then bindE h (\<lambda>_. raise e) t else (Inl e, t)
   | (Inr x, t) \<Rightarrow> (Inr x, t))"

definition make_table :: "mem \<Rightarrow> string \<Rightarrow> TabMeta \<Rightarrow> int \<Rightarrow> ('a sms_scheme, unit) op" where
  "make_table junk tab_name tab rs =
     bindE (rm_create_file tab_name rs) (\<lambda>_. bindE (put_table tab_name tab) (\<lambda>_.
     bindE (rm_open_file junk tab_name) (\<lambda>fd.
     bindE (updS (\<lambda>s. if fhs s tab_name = None then s\<lparr>fhs := (fhs s)(tab_name \<mapsto> fd)\<rparr> else s)) (\<lambda>_. flush_meta))))"

definition create_table :: "mem \<Rightarrow> string \<Rightarrow> ColDef list \<Rightarrow> Context option \<Rightarrow> ('a sms_scheme, unit) op" where
  "create_table junk tab_name col_defs ctx = bindE getS (\<lambda>s.
     if tab_name = [] then raise (TableNotFoundError ''Table name cannot be empty'')
     else if is_table tab_name s then raise (TableExistsError tab_name)
     else if col_defs = [] then raise InvalidValueCountError
     else case repeated_name [] col_defs of
            Some n \<Rightarrow> raise (ColumnNotFoundError n)
          | None \<Rightarrow>
              on_exception
                (make_table junk tab_name (new_table tab_name col_defs)
                  (if ctx_mvcc ctx s then c_int (row_len col_defs + sizeof_TupleMeta) else row_len col_defs))
                (updS (\<lambda>s. s\<lparr>db_tabs := (db_tabs s)(tab_name := None), fhs := (fhs s)(tab_name := None)\<rparr>)))"

text \<open>A walk over the records of a file; \<open>h\<close> is what the caller gathers.\<close>

definition scan_round :: "int \<Rightarrow> (rid \<Rightarrow> ('h \<times> 'a dbs_scheme, unit) op) \<Rightarrow> (rid \<times> ('h \<times> 'a dbs_scheme), bool) op" where
  "scan_round fd body = (\<lambda>(r, hs).
     case on_snd (rm_scan_is_end fd r) hs of
       (Inl e, hs1) \<Rightarrow> (Inl e, (r, hs1))
     | (Inr b, hs1) \<Rightarrow>
         if b then (Inr True, (r, hs1))
         else (case body r hs1 of
                 (Inl e, hs2) \<Rightarrow> (Inl e, (r, hs2))
               | (Inr _, hs2) \<Rightarrow>
                   (case on_snd (rm_scan_next fd r) hs2 of
                      (Inl e, hs3) \<Rightarrow> (Inl e, (r, hs3))
                    | (Inr r', hs3) \<Rightarrow> (Inr False, (r', hs3)))))"

definition for_records :: "int \<Rightarrow> (rid \<Rightarrow> ('h \<times> 'a dbs_scheme, unit) op) \<Rightarrow> ('h \<times> 'a dbs_scheme, unit) op" where
  "for_records fd body = bindE (on_snd (rm_scan_begin fd)) (\<lambda>r hs.
     case rounds (scan_round fd body) (r, hs) of (x, (_, hs')) \<Rightarrow> (x, hs'))"

definition each_record :: "int \<Rightarrow> (rid \<Rightarrow> ('a dbs_scheme, unit) op) \<Rightarrow> ('a dbs_scheme, unit) op" where
  "each_record fd body = (\<lambda>s. case for_records fd (\<lambda>r. on_snd (body r)) ((), s) of (x, (_, t)) \<Rightarrow> (x, t))"

definition pages_of_records :: "int \<Rightarrow> ('a dbs_scheme, int set) op" where
  "pages_of_records fd = (\<lambda>s.
     case for_records fd (\<lambda>r. (\<lambda>(ps, s). (Inr (), (insert (rid_page_no r) ps, s)))) ({}, s) of
       (Inl e, (_, t)) \<Rightarrow> (Inl e, t) | (Inr _, (ps, t)) \<Rightarrow> (Inr ps, t))"

definition close_handle :: "string \<Rightarrow> ('a sms_scheme, unit) op" where
  "close_handle index_name = bindE getS (\<lambda>s. case ihs s index_name of
     None \<Rightarrow> ret ()
   | Some ih \<Rightarrow> bindE (close_index ih) (\<lambda>_. updS (\<lambda>s. s\<lparr>ihs := (ihs s)(index_name := None)\<rparr>)))"

definition drop_table_index :: "string \<Rightarrow> IndexMeta \<Rightarrow> ('a sms_scheme, unit) op" where
  "drop_table_index tab_name ix =
     bindE (close_handle (get_index_name tab_name (map cm_name (im_cols ix)))) (\<lambda>_. destroy_index tab_name (im_cols ix))"

definition drop_table_file :: "string \<Rightarrow> ('a sms_scheme, unit) op" where
  "drop_table_file tab_name = bindE getS (\<lambda>s. case fhs s tab_name of
     None \<Rightarrow> ret ()
   | Some fd \<Rightarrow>
       bindE (flush_all_pages fd) (\<lambda>_. bindE (pages_of_records fd) (\<lambda>ps.
       bindE (forE (sorted_list_of_set ps) (\<lambda>p. bindE (delete_page \<lparr>pid_fd = fd, pid_no = p\<rparr>) (\<lambda>_. ret ()))) (\<lambda>_.
       bindE (rm_close_file fd) (\<lambda>_. updS (\<lambda>s. s\<lparr>fhs := (fhs s)(tab_name := None)\<rparr>))))))"

definition drop_table :: "string \<Rightarrow> ('a sms_scheme, unit) op" where
  "drop_table tab_name = bindE getS (\<lambda>s. case db_tabs s tab_name of
     None \<Rightarrow> raise (TableNotFoundError tab_name)
   | Some tab \<Rightarrow>
       bindE (forE (tm_indexes tab) (drop_table_index tab_name)) (\<lambda>_.
       bindE (drop_table_file tab_name) (\<lambda>_. bindE (rm_destroy_file tab_name) (\<lambda>_.
       bindE (updS (\<lambda>s. s\<lparr>db_tabs := (db_tabs s)(tab_name := None)\<rparr>)) (\<lambda>_. flush_meta)))))"

section \<open>Indexes\<close>

definition names_ok :: "string list \<Rightarrow> TabMeta \<Rightarrow> db_error + unit" where
  "names_ok col_names tab = (case List.find (\<lambda>n. \<not> is_col n tab) col_names of
     Some n \<Rightarrow> Inl (ColumnNotFoundError n) | None \<Rightarrow> Inr ())"

fun index_cols_of :: "TabMeta \<Rightarrow> string list \<Rightarrow> db_error + ColMeta list" where
  "index_cols_of tab [] = Inr []"
| "index_cols_of tab (n # ns) = bindR (get_col n tab) (\<lambda>i. bindR (index_cols_of tab ns) (\<lambda>cs. Inr (tm_cols tab ! i # cs)))"

definition new_index_meta :: "string \<Rightarrow> ColMeta list \<Rightarrow> bool \<Rightarrow> IndexMeta" where
  "new_index_meta tab_name cols is_unique =
     \<lparr>im_tab = tab_name, im_tot_len = foldl (\<lambda>n c. c_int (n + cm_len c)) 0 cols, im_col_num = c_int (int (length cols)), im_cols = cols,
      im_unique = is_unique\<rparr>"

definition liftR :: "db_error + 'b \<Rightarrow> ('s, 'b) op" where
  "liftR r = (\<lambda>s. (r, s))"

lemma liftR_apply [simp]: "liftR r s = (r, s)"
  by (simp add: liftR_def)

definition flag_col :: "bool \<Rightarrow> string \<Rightarrow> string \<Rightarrow> ('a sms_scheme, unit) op" where
  "flag_col b tab_name n = bindE (get_table tab_name) (\<lambda>t. bindE (liftR (get_col n t)) (\<lambda>i.
     put_table tab_name (t\<lparr>tm_cols := (tm_cols t)[i := (tm_cols t ! i)\<lparr>cm_index := b\<rparr>]\<rparr>)))"

text \<open>The DDL record of a running explicit transaction.\<close>

definition log_ddl :: "Context option \<Rightarrow> ddl_record \<Rightarrow> ('a sms_scheme, unit) op" where
  "log_ddl ctx d = (case ctx of
     None \<Rightarrow> raise NullDereference
   | Some c \<Rightarrow> (case ctx_txn c of
       None \<Rightarrow> ret ()
     | Some i \<Rightarrow> bindE (txn_at i) (\<lambda>t. if txn_mode t \<and> txn_state t \<noteq> ABORTED then add_ddl_record i d else ret ())))"

text \<open>A key: the columns of the index, copied out of the record next to each other.\<close>

fun key_of :: "int \<Rightarrow> ColMeta list \<Rightarrow> byte list \<Rightarrow> db_error + byte list" where
  "key_of base [] v = Inr []"
| "key_of base (c # cs) v = bindR (bytes_at v (base + cm_offset c) (cm_len c)) (\<lambda>x. bindR (key_of base cs v) (\<lambda>y. Inr (x @ y)))"

definition enter_record :: "int \<Rightarrow> string \<Rightarrow> ColMeta list \<Rightarrow> Context option \<Rightarrow> rid \<Rightarrow> ('a sms_scheme, unit) op" where
  "enter_record fd index_name cols ctx r = bindE (get_record fd r ctx) (\<lambda>rec. case rec of
     None \<Rightarrow> ret ()
   | Some v \<Rightarrow> bindE getS (\<lambda>s.
       bindE (liftR (key_of (if ctx_mvcc ctx s then sizeof_TupleMeta else 0) cols v)) (\<lambda>key.
       case ihs s index_name of
         None \<Rightarrow> raise NullDereference
       | Some ih \<Rightarrow> bindE (insert_entry ih key r) (\<lambda>_. ret ()))))"

definition fill_index :: "string \<Rightarrow> string \<Rightarrow> ColMeta list \<Rightarrow> Context option \<Rightarrow> ('a sms_scheme, unit) op" where
  "fill_index tab_name index_name cols ctx = bindE getS (\<lambda>s. case fhs s tab_name of
     None \<Rightarrow> raise NullDereference
   | Some fd \<Rightarrow> each_record fd (enter_record fd index_name cols ctx))"

text \<open>
  The handler removes the handle from \<open>ihs_\<close> but does not close its file, so \<open>destroy_index\<close> throws out of it.
\<close>

definition on_duplicate :: "string \<Rightarrow> ColMeta list \<Rightarrow> string \<Rightarrow> ('a sms_scheme, unit) op \<Rightarrow> ('a sms_scheme, unit) op" where
  "on_duplicate tab_name cols index_name m = (\<lambda>s. case m s of
     (Inl e, t) \<Rightarrow>
       (case e of
          UniqueIndexViolationError _ _ \<Rightarrow>
            bindE (updS (\<lambda>s. s\<lparr>ihs := (ihs s)(index_name := None)\<rparr>)) (\<lambda>_. bindE (destroy_index tab_name cols) (\<lambda>_.
            bindE (upd_table tab_name (\<lambda>t. t\<lparr>tm_indexes := butlast (tm_indexes t)\<rparr>)) (\<lambda>_. bindE flush_meta (\<lambda>_. raise e)))) t
        | _ \<Rightarrow> (Inl e, t))
   | (Inr x, t) \<Rightarrow> (Inr x, t))"

definition make_index :: "string \<Rightarrow> string list \<Rightarrow> ColMeta list \<Rightarrow> bool \<Rightarrow> Context option \<Rightarrow> ('a sms_scheme, unit) op" where
  "make_index tab_name col_names cols is_unique ctx =
     (let index_name = get_index_name tab_name col_names; im = new_index_meta tab_name cols is_unique
      in bindE (ix_create_index tab_name cols) (\<lambda>_.
         bindE (open_index tab_name (map cm_name cols) (Some im)) (\<lambda>ih.
         bindE (updS (\<lambda>s. s\<lparr>ihs := (ihs s)(index_name \<mapsto> ih)\<rparr>)) (\<lambda>_.
         bindE (forE col_names (flag_col True tab_name)) (\<lambda>_.
         bindE (upd_table tab_name (\<lambda>t. t\<lparr>tm_indexes := tm_indexes t @ [im]\<rparr>)) (\<lambda>_.
         bindE (log_ddl ctx \<lparr>ddl_type = CREATE_INDEX, ddl_table = tab_name, ddl_cols = col_names, ddl_unique = is_unique\<rparr>) (\<lambda>_.
         bindE (on_duplicate tab_name cols index_name (fill_index tab_name index_name cols ctx)) (\<lambda>_. bindE getS (\<lambda>s.
         case ihs s index_name of
           None \<Rightarrow> raise NullDereference
         | Some ih \<Rightarrow>
             bindE (flush_all_pages ih) (\<lambda>_. bindE (print_tree ih (''bptree_'' @ index_name @ ''.txt'')) (\<lambda>_. flush_meta)))))))))))"

definition create_index :: "string \<Rightarrow> string list \<Rightarrow> Context option \<Rightarrow> bool \<Rightarrow> ('a sms_scheme, unit) op" where
  "create_index tab_name col_names ctx is_unique = bindE (get_table tab_name) (\<lambda>tab.
     bindE (liftR (is_index col_names tab)) (\<lambda>there.
     if there then raise (IndexExistsError tab_name col_names)
     else bindE (liftR (names_ok col_names tab)) (\<lambda>_. bindE (liftR (index_cols_of tab col_names)) (\<lambda>cols. bindE getS (\<lambda>s.
          if ihs s (get_index_name tab_name col_names) \<noteq> None then raise (IndexExistsError tab_name col_names)
          else make_index tab_name col_names cols is_unique ctx)))))"

text \<open>A column that no other index has is no longer marked.\<close>

definition unflag_col :: "string \<Rightarrow> string \<Rightarrow> ('a sms_scheme, unit) op" where
  "unflag_col tab_name n = bindE (get_table tab_name) (\<lambda>t.
     if \<exists>ix \<in> set (tm_indexes t). n \<in> set (map cm_name (im_cols ix)) then ret () else flag_col False tab_name n)"

definition remove_nth :: "nat \<Rightarrow> 'b list \<Rightarrow> 'b list" where
  "remove_nth i xs = take i xs @ drop (Suc i) xs"

definition drop_index :: "string \<Rightarrow> string list \<Rightarrow> Context option \<Rightarrow> ('a sms_scheme, unit) op" where
  "drop_index tab_name col_names ctx = bindE (get_table tab_name) (\<lambda>tab.
     bindE (liftR (is_index col_names tab)) (\<lambda>there.
     if \<not> there then raise (IndexNotFoundError tab_name col_names)
     else bindE (liftR (get_index_meta col_names tab)) (\<lambda>i.
          let ix = tm_indexes tab ! i
          in bindE (log_ddl ctx \<lparr>ddl_type = DROP_INDEX, ddl_table = tab_name, ddl_cols = col_names, ddl_unique = im_unique ix\<rparr>) (\<lambda>_.
             bindE (close_handle (get_index_name tab_name col_names)) (\<lambda>_. bindE (destroy_index tab_name (im_cols ix)) (\<lambda>_.
             bindE (upd_table tab_name (\<lambda>t. t\<lparr>tm_indexes := remove_nth i (tm_indexes t)\<rparr>)) (\<lambda>_.
             bindE (forE col_names (unflag_col tab_name)) (\<lambda>_. flush_meta))))))))"

text \<open>The overload for columns holds \<open>meta_mutex_\<close> when it calls the one for names, which locks it again.\<close>

definition drop_index_cols :: "string \<Rightarrow> ColMeta list \<Rightarrow> Context option \<Rightarrow> ('a sms_scheme, unit) op" where
  "drop_index_cols tab_name cols ctx = raise SelfDeadlock"

text \<open>How an abort outside MVCC mode undoes a DDL record; failures are swallowed by \<open>undo_ddl\<close>.\<close>

definition compensate_ddl :: "int \<Rightarrow> ddl_record \<Rightarrow> ('a sms_scheme, unit) op" where
  "compensate_ddl i d = (case ddl_type d of
     CREATE_INDEX \<Rightarrow> drop_index (ddl_table d) (ddl_cols d) (Some (abort_ctx i))
   | DROP_INDEX \<Rightarrow> create_index (ddl_table d) (ddl_cols d) (Some (abort_ctx i)) (ddl_unique d))"

definition abort_transaction :: "int \<Rightarrow> ('a sms_scheme, unit) op" where
  "abort_transaction i = txnm_abort (compensate_ddl i) i"

section \<open>What the client sees\<close>

definition print_all :: "nat \<Rightarrow> string list list \<Rightarrow> out \<Rightarrow> db_error + out" where
  "print_all n rows c = foldl (\<lambda>r xs. bindR r (print_rec n xs)) (Inr c) rows"

definition framed :: "string list \<Rightarrow> string list list \<Rightarrow> out \<Rightarrow> db_error + out" where
  "framed captions rows c = (let n = length captions in
     bindR (print_rec n captions (print_separator n c)) (\<lambda>c. bindR (print_all n rows (print_separator n c)) (\<lambda>c. Inr (print_separator n c))))"

definition file_text :: "string \<Rightarrow> out \<Rightarrow> out" where
  "file_text t c = c\<lparr>out_file := out_file c @ t\<rparr>"

definition show_tables :: "(string \<rightharpoonup> TabMeta) \<Rightarrow> out \<Rightarrow> db_error + out" where
  "show_tables tabs c = (let names = map tm_name (tabs_in_order tabs) in
     bindR (framed [''Tables''] (map (\<lambda>n. [n]) names) (file_text (''| Tables |'' @ newline) c)) (\<lambda>c.
     Inr (file_text (concat (map (\<lambda>n. ''| '' @ n @ '' |'' @ newline) names)) c)))"

definition coltype2str :: "int \<Rightarrow> db_error + string" where
  "coltype2str ty = (if ty = TYPE_INT_c then Inr ''INT'' else if ty = TYPE_FLOAT_c then Inr ''FLOAT''
     else if ty = TYPE_STRING_c then Inr ''STRING'' else Inl (RuntimeError ''map::at''))"

fun field_rows :: "ColMeta list \<Rightarrow> db_error + string list list" where
  "field_rows [] = Inr []"
| "field_rows (c # cs) = bindR (coltype2str (cm_type c)) (\<lambda>t. bindR (field_rows cs) (\<lambda>rs.
     Inr ([cm_name c, t, if cm_index c then ''YES'' else ''NO''] # rs)))"

definition desc_table :: "(string \<rightharpoonup> TabMeta) \<Rightarrow> string \<Rightarrow> out \<Rightarrow> db_error + out" where
  "desc_table tabs tab_name c = (case tabs tab_name of
     None \<Rightarrow> Inl (TableNotFoundError tab_name)
   | Some tab \<Rightarrow> bindR (field_rows (tm_cols tab)) (\<lambda>rows. framed [''Field'', ''Type'', ''Index''] rows c))"

definition index_columns :: "IndexMeta \<Rightarrow> string" where
  "index_columns ix = ''('' @ commas (map cm_name (im_cols ix)) @ '')''"

definition show_index :: "(string \<rightharpoonup> TabMeta) \<Rightarrow> string \<Rightarrow> out \<Rightarrow> db_error + out" where
  "show_index tabs tab_name c = (case tabs tab_name of
     None \<Rightarrow> Inr (file_text (''No such table: '' @ tab_name @ newline) c)
   | Some tab \<Rightarrow>
       bindR (framed [''Table'', ''Type'', ''Columns''] (map (\<lambda>ix. [tm_name tab, ''unique'', index_columns ix]) (tm_indexes tab)) c) (\<lambda>c.
       Inr (file_text (concat (map (\<lambda>ix. ''| '' @ tm_name tab @ '' | unique | '' @ index_columns ix @ '' |'' @ newline) (tm_indexes tab))) c)))"

end
