(* ===== verification/SmFrame.thy ===== *)
theory SmFrame
  imports SmManager TxnRuns
begin

text \<open>
  What the files and the indexes leave alone: none of their operations touches the catalogue, whatever they
  return. The rules are in the collection \<open>preserving\<close>; \<open>cat_part\<close> is what the system manager adds to the state.
\<close>

definition cat_part :: "'a ixs_scheme \<Rightarrow> 'a" where
  "cat_part = ixs.more"

section \<open>From the layers below\<close>

lemma dbs_more_cat:
  fixes s t :: "'a ixs_scheme"
  shows "dbs.more s = dbs.more t \<Longrightarrow> cat_part s = cat_part t"
  by (cases s, cases t) (simp add: cat_part_def)

lemma bpm_more_cat:
  fixes s t :: "'a ixs_scheme"
  shows "bpm.more s = bpm.more t \<Longrightarrow> cat_part s = cat_part t"
  by (cases s, cases t) (simp add: cat_part_def)

lemma disk_more_cat:
  fixes s t :: "'a ixs_scheme"
  shows "disk.more s = disk.more t \<Longrightarrow> cat_part s = cat_part t"
  by (cases s, cases t) (simp add: cat_part_def)

lemma bpm_to_cat: "preserves bpm.more m \<Longrightarrow> preserves cat_part (m :: ('a ixs_scheme, _) op)"
  by (erule preserves_comp) (rule bpm_more_cat)

lemma disk_to_cat: "preserves disk.more m \<Longrightarrow> preserves cat_part (m :: ('a ixs_scheme, _) op)"
  by (erule preserves_comp) (rule disk_more_cat)

lemma part_to_cat: "preserves txn_part m \<Longrightarrow> preserves cat_part (m :: ('a ixs_scheme, _) op)"
  by (erule preserves_comp, rule dbs_more_cat) (simp add: txn_part_def)

lemma os_file_more [simp]:
  "disk.more (snd (os_open path d)) = disk.more d" "disk.more (snd (os_creat path d)) = disk.more d"
  "disk.more (os_close fd d) = disk.more d" "disk.more (os_unlink path d) = disk.more d"
  by (simp_all add: os_open_def os_creat_def os_close_def os_unlink_def Let_def)

lemma create_file_more: "preserves disk.more (create_file path)"
  by (rule preservesI) (simp add: create_file_def Let_def case_prod_unfold)

lemma destroy_file_more: "preserves disk.more (destroy_file path)"
  by (rule preservesI) (simp add: destroy_file_def)

lemma open_file_more: "preserves disk.more (open_file path)"
  by (rule preservesI) (simp add: open_file_def Let_def case_prod_unfold)

lemma close_file_more: "preserves disk.more (close_file fd)"
  by (rule preservesI) (simp add: close_file_def split: option.split)

lemmas file_ops_more = create_file_more destroy_file_more open_file_more close_file_more

lemmas file_ops_cat [preserving] = file_ops_more [THEN disk_to_cat]

lemma delete_page_more: "preserves bpm.more (delete_page pid)"
  unfolding delete_page_def deallocate_page_def by (intro preserving) simp_all

lemma pool_ops_cat [preserving]:
  shows "preserves cat_part (fetch_page pid :: ('a ixs_scheme, _) op)" and "preserves cat_part (unpin_page pid d :: ('a ixs_scheme, _) op)"
    and "preserves cat_part (new_page pid :: ('a ixs_scheme, _) op)" and "preserves cat_part (write_page fd p buf n :: ('a ixs_scheme, _) op)"
    and "preserves cat_part (read_page fd p buf n :: ('a ixs_scheme, _) op)"
    and "preserves cat_part (flush_all_pages fd :: ('a ixs_scheme, _) op)" and "preserves cat_part (delete_page pid :: ('a ixs_scheme, _) op)"
  by (rule bpm_to_cat, rule fetch_page_more unpin_page_more new_page_more write_page_bpm read_page_bpm flush_all_pages_more delete_page_more)+

lemma cat_upd [simp]:
  "cat_part (s\<lparr>pages := g\<rparr>) = cat_part s" "cat_part (s\<lparr>file_hdrs := h\<rparr>) = cat_part s" "cat_part (s\<lparr>fhs := k\<rparr>) = cat_part s"
  "cat_part (s\<lparr>txn_heap := i\<rparr>) = cat_part s" "cat_part (s\<lparr>ix_hdrs := j\<rparr>) = cat_part s" "cat_part (s\<lparr>ix_metas := l\<rparr>) = cat_part s"
  "cat_part (s\<lparr>os_files := a\<rparr>) = cat_part s" "cat_part (set_fd2pageno fd n s) = cat_part s"
  by (cases s; simp add: cat_part_def set_fd2pageno_def)+

lemma record_ops_cat [preserving]:
  shows "preserves cat_part (poke_page f g :: ('a ixs_scheme, _) op)" and "preserves cat_part (unpin_frame f d :: ('a ixs_scheme, _) op)"
    and "preserves cat_part (fh_hdr fd :: ('a ixs_scheme, _) op)" and "preserves cat_part (set_hdr fd h :: ('a ixs_scheme, _) op)"
    and "preserves cat_part (write_hdr fd :: ('a ixs_scheme, _) op)" and "preserves cat_part (fetch_page_handle fd p :: ('a ixs_scheme, _) op)"
    and "preserves cat_part (get_record fd r ctx :: ('a ixs_scheme, _) op)"
  by (rule part_to_cat, intro preserving)+

lemma scan_next_cat: "preserves cat_part (scan_next fd h r :: ('a ixs_scheme, _) op)"
proof (induction "nat (num_pages h - rid_page_no r)" arbitrary: r rule: less_induct)
  case less
  have "preserves cat_part (scan_next fd h \<lparr>rid_page_no = rid_page_no r + 1, rid_slot_no = n\<rparr> :: ('a ixs_scheme, _) op)"
    if "\<not> num_pages h \<le> rid_page_no r" for n
    by (rule less) (use that in simp)
  then show ?case by (subst scan_next.simps) (intro preserving; assumption)
qed

lemma scan_ops_cat [preserving]:
  shows "preserves cat_part (rm_scan_next fd r :: ('a ixs_scheme, _) op)" and "preserves cat_part (rm_scan_begin fd :: ('a ixs_scheme, _) op)"
    and "preserves cat_part (rm_scan_is_end fd r :: ('a ixs_scheme, _) op)"
  unfolding rm_scan_begin_def rm_scan_next_def rm_scan_is_end_def by (intro preserving scan_next_cat)+

lemma rm_file_ops_cat [preserving]:
  shows "preserves cat_part (rm_create_file path n :: ('a ixs_scheme, _) op)" and "preserves cat_part (rm_destroy_file path :: ('a ixs_scheme, _) op)"
    and "preserves cat_part (rm_open_file junk path :: ('a ixs_scheme, _) op)" and "preserves cat_part (rm_close_file fd :: ('a ixs_scheme, _) op)"
  unfolding rm_create_file_def rm_destroy_file_def rm_open_file_def rm_close_file_def by (intro preserving; simp)+

lemma txn_ops_cat [preserving]:
  shows "preserves cat_part (upd_txn i f :: ('a ixs_scheme, _) op)" and "preserves cat_part (add_ddl_record i d :: ('a ixs_scheme, _) op)"
  unfolding add_ddl_record_def upd_txn_def put_txn_def by (intro preserving; simp)+

section \<open>The index\<close>

lemma ix_basic_cat [preserving]:
  shows "preserves cat_part (ix_hdr fd)" and "preserves cat_part (ix_meta fd)" and "preserves cat_part (upd_ix_hdr fd g)"
    and "preserves cat_part (release_node_handle fd)"
  unfolding ix_hdr_def ix_meta_def upd_ix_hdr_def release_node_handle_def by (intro preserving; simp)+

lemma on_page_cat [preserving]: "preserves cat_part (on_page f m :: ('a ixs_scheme, _) op)"
  by (rule preservesI) (simp add: on_page_def case_prod_unfold write_frame_def set_page_def)

lemma fetch_node_cat [preserving]: "preserves cat_part (fetch_node fd p :: ('a ixs_scheme, _) op)"
  unfolding fetch_node_def by (intro preserving)

lemma node_ops_cat [preserving]:
  shows "preserves cat_part (create_node fd)" and "preserves cat_part (maintain_child fd f i)" and "preserves cat_part (erase_leaf fd f)"
  unfolding create_node_def maintain_child_def erase_leaf_def by (intro preserving)+

lemma preserved: "preserves p m \<Longrightarrow> p (snd (m s)) = p s"
  by (simp add: preserves_def)

lemma returned_cat:
  assumes "\<And>y. w s = Some y \<Longrightarrow> cat_part (snd y) = cat_part s"
  shows "cat_part (snd (returned (w s) s)) = cat_part s"
  using assms by (cases "w s") (simp_all add: returned_def)

lemma child_step_cat [preserving]: "preserves cat_part (child_step fd key f)"
  unfolding child_step_def by (intro preserving)

lemma descend_cat:
  assumes "descend fd key f s = Some y"
  shows "cat_part (snd y) = cat_part s"
proof (rule descend.raw_induct [of "\<lambda>fd key f s y. cat_part (snd y) = cat_part s", OF _ assms], goal_cases)
  case (1 loop fd key f s y)
  obtain r t where c: "child_step fd key f s = (r, t)" by fastforce
  then have "cat_part t = cat_part s" by (rule preservesD [OF child_step_cat])
  then show ?case using 1(2) by (auto simp: c dest: 1(1) split: if_splits sum.splits)
qed

lemma find_leaf_page_cat [preserving]: "preserves cat_part (find_leaf_page fd key)"
proof -
  have "preserves cat_part (\<lambda>s. returned (descend fd key f s) s)" for f
    by (rule preservesI, rule returned_cat) (rule descend_cat)
  then show ?thesis unfolding find_leaf_page_def by (intro preserving) assumption
qed

lemma search_ops_cat [preserving]:
  shows "preserves cat_part (get_value fd key)" and "preserves cat_part (unique_check fd key)"
proof -
  show "preserves cat_part (get_value fd key)" unfolding get_value_def by (intro preserving)
  then show "preserves cat_part (unique_check fd key)" unfolding unique_check_def by (intro preserving) assumption
qed

lemma split_ops_cat [preserving]:
  shows "preserves cat_part (split_leaf fd f g n)" and "preserves cat_part (split_inner fd f g n)"
  unfolding split_leaf_def split_inner_def by (intro preserving)+

lemma split_cat [preserving]: "preserves cat_part (split fd f)"
  unfolding split_def by (intro preserving)

lemma parent_ops_cat [preserving]:
  shows "preserves cat_part (grow_root fd f key g)" and "preserves cat_part (enter_parent fd f key g)"
  unfolding grow_root_def enter_parent_def by (intro preserving)+

lemma climb_cat:
  assumes "climb fd f key g s = Some y"
  shows "cat_part (snd y) = cat_part s"
proof (rule climb.raw_induct [of "\<lambda>fd f key g s y. cat_part (snd y) = cat_part s", OF _ assms], goal_cases)
  case (1 loop fd f key g s y)
  have up: "cat_part (snd (bindE (\<lambda>_. (r, u)) (\<lambda>_. bindE (unpin_frame np True) (\<lambda>_. unpin_frame p True)) u)) = cat_part u"
    for r and u :: "'a ixs_scheme" and np p
  proof (cases r)
    case (Inr x)
    have "preserves cat_part (bindE (unpin_frame np True) (\<lambda>_. unpin_frame p True) :: ('a ixs_scheme, _) op)" by (intro preserving)
    then show ?thesis using Inr by (simp add: bindE_apply preserves_def)
  qed (simp add: bindE_apply)
  have root: "cat_part (snd (grow_root fd f key g s)) = cat_part s"
    by (rule preserved [OF parent_ops_cat(1)])
  have unpin: "cat_part (snd (unpin_frame p True t)) = cat_part t" for p and t :: "'a ixs_scheme"
    by (rule preserved [OF record_ops_cat(2)])
  obtain r t where c: "enter_parent fd f key g s = (r, t)" by fastforce
  then have "cat_part t = cat_part s" by (rule preservesD [OF parent_ops_cat(2)])
  then show ?case
    using 1(2) root by (auto simp: c up unpin dest: 1(1) split: if_splits sum.splits option.splits prod.splits bind_splits)
qed

lemma insert_into_parent_cat [preserving]: "preserves cat_part (insert_into_parent fd f key g)"
  unfolding insert_into_parent_def by (rule preservesI, rule returned_cat) (rule climb_cat)

lemma insert_entry_cat [preserving]: "preserves cat_part (insert_entry fd key r)"
  unfolding insert_entry_def by (intro preserving)

lemma shrink_ops_cat [preserving]:
  shows "preserves cat_part (adjust_root fd f)" and "preserves cat_part (redistribute fd n f p i)"
    and "preserves cat_part (append_child h l r i :: ('a ixs_scheme, _) op)" and "preserves cat_part (merge_leaf fd l r)"
  unfolding adjust_root_def redistribute_def append_child_def merge_leaf_def by (intro preserving)+

lemma merge_inner_cat [preserving]: "preserves cat_part (merge_inner fd l r p i n)"
  unfolding merge_inner_def by (intro preserving)

lemma coalesce_cat [preserving]: "preserves cat_part (coalesce fd n f p i)"
  unfolding coalesce_def by (intro preserving)

lemma sibling_step_cat [preserving]: "preserves cat_part (sibling_step fd f)"
  unfolding sibling_step_def by (intro preserving)

lemma leave_parent_cat [preserving]: "preserves cat_part (leave_parent p n own z)"
  unfolding leave_parent_def by (intro preserving)

lemma fix_up_cat:
  assumes "fix_up fd f s = Some y"
  shows "cat_part (snd y) = cat_part s"
proof (rule fix_up.raw_induct [of "\<lambda>fd f s y. cat_part (snd y) = cat_part s", OF _ assms], goal_cases)
  case (1 loop fd f s y)
  have leave: "cat_part (snd (leave_parent p n own z u)) = cat_part u" for p n own z and u :: "'a ixs_scheme"
    by (rule preserved [OF leave_parent_cat])
  have up: "cat_part (snd (bindE (\<lambda>_. (r, u)) (leave_parent p n own) u)) = cat_part u" for r p n own and u :: "'a ixs_scheme"
    by (cases r) (simp_all add: bindE_apply leave)
  obtain r t where c: "sibling_step fd f s = (r, t)" by fastforce
  then have "cat_part t = cat_part s" by (rule preservesD [OF sibling_step_cat])
  then show ?case
    using 1(2) by (auto simp: c up leave dest: 1(1) split: if_splits sum.splits prod.splits fix_step.splits bind_splits)
qed

lemma coalesce_or_redistribute_cat [preserving]: "preserves cat_part (coalesce_or_redistribute fd f)"
  unfolding coalesce_or_redistribute_def by (rule preservesI, rule returned_cat) (rule fix_up_cat)

lemma delete_entry_cat [preserving]: "preserves cat_part (delete_entry fd key txn)"
  unfolding delete_entry_def by (intro preserving)

section \<open>Index files\<close>

lemma preserves_sum [preserving]:
  "(\<And>e. preserves p (m e)) \<Longrightarrow> (\<And>x. preserves p (k x)) \<Longrightarrow> preserves p (case z of Inl e \<Rightarrow> m e | Inr x \<Rightarrow> k x)"
  by (cases z) simp_all

lemma ix_create_index_cat [preserving]: "preserves cat_part (ix_create_index tab cols :: ('a ixs_scheme, _) op)"
  unfolding ix_create_index_def by (intro preserving) simp

lemma destroy_index_cat [preserving]: "preserves cat_part (destroy_index tab cols :: ('a ixs_scheme, _) op)"
  unfolding destroy_index_def by (intro preserving)

lemma load_index_hdr_cat [preserving]: "preserves cat_part (load_index_hdr fd)"
  unfolding load_index_hdr_def by (intro preserving) simp

lemma open_index_cat [preserving]: "preserves cat_part (open_index tab names im)"
  unfolding open_index_def by (intro preserving) simp_all

lemma close_index_cat [preserving]: "preserves cat_part (close_index fd)"
  unfolding close_index_def by (intro preserving)

section \<open>Walks and dumps\<close>

text \<open>Operations on a pair of something gathered and the database.\<close>

definition db_part :: "'h \<times> 'a ixs_scheme \<Rightarrow> 'a" where
  "db_part hs = cat_part (snd hs)"

lemma keeps_on_snd [preserving]: "preserves cat_part m \<Longrightarrow> preserves db_part (on_snd m)"
  by (simp add: preserves_def on_snd_def db_part_def case_prod_unfold)

lemma keeps_emit [preserving]: "preserves db_part (emit t)"
  by (simp add: preserves_def emit_def db_part_def case_prod_unfold)

lemma print_ops_cat [preserving]:
  shows "preserves db_part (look_at f g :: (string \<times> 'a ixs_scheme, _) op)"
    and "preserves db_part (print_key h f i :: (string \<times> 'a ixs_scheme, _) op)"
proof -
  show "preserves db_part (look_at f g :: (string \<times> 'a ixs_scheme, _) op)" for f and g :: "mem \<Rightarrow> db_error + 'c"
    unfolding look_at_def by (intro preserving)
  then show "preserves db_part (print_key h f i :: (string \<times> 'a ixs_scheme, _) op)"
    unfolding print_key_def by (intro preserving)
qed

lemma print_leaf_cat [preserving]: "preserves db_part (print_leaf h f n :: (string \<times> 'a ixs_scheme, _) op)"
  unfolding print_leaf_def by (intro preserving)

lemma print_child_cat [preserving]: "preserves db_part (print_child fd h f i :: (string \<times> 'a ixs_scheme, _) op)"
  unfolding print_child_def by (intro preserving)

lemma print_children_cat [preserving]: "preserves db_part (print_children fd h f is :: (string \<times> 'a ixs_scheme, _) op)"
proof (induction "is")
  case (Cons i "is")
  show ?case unfolding print_children.simps by (intro preserving Cons)
qed (unfold print_children.simps, intro preserving)

lemma print_inner_cat [preserving]: "preserves db_part (print_inner fd h f n :: (string \<times> 'a ixs_scheme, _) op)"
  unfolding print_inner_def by (intro preserving)

lemma print_node_cat [preserving]: "preserves db_part (print_node fd h p :: (string \<times> 'a ixs_scheme, _) op)"
  unfolding print_node_def by (intro preserving)

lemma print_levels_cat:
  fixes s :: "string \<times> 'a ixs_scheme"
  assumes "print_levels fd h q lv s = Some y"
  shows "db_part (snd y) = db_part s"
proof (rule print_levels.raw_induct [of "\<lambda>fd h q lv s y. db_part (snd y) = db_part s", OF _ assms], goal_cases)
  case (1 loop fd h q lv s y)
  have e: "db_part (snd (emit t u)) = db_part u" for t and u :: "string \<times> 'a ixs_scheme"
    by (rule preserved [OF keeps_emit])
  have n: "db_part u = db_part t" if "print_node fd h p t = (r, u)" for p t u r
    by (rule preservesD [OF print_node_cat that])
  show ?case
    using 1(2) by (fastforce simp: e Let_def dest: 1(1) n split: if_splits sum.splits prod.splits)
qed

lemma dump_tree_cat [preserving]: "preserves cat_part (dump_tree fd h path head)"
proof (rule preservesI)
  fix s :: "'a ixs_scheme"
  show "cat_part (snd (dump_tree fd h path head s)) = cat_part s"
    using print_levels_cat [of fd h "[(root_page h, 0)]" "- 1" "(head, s)"]
    by (cases "print_levels fd h [(root_page h, 0)] (- 1) (head, s)")
       (auto simp: dump_tree_def returned_def db_part_def split: prod.split)
qed

lemma print_tree_cat [preserving]: "preserves cat_part (print_tree fd path)"
  unfolding print_tree_def by (intro preserving) (simp add: ofstream_text_def)

lemma scan_round_cat:
  assumes "\<And>r. preserves db_part (body r :: ('h \<times> 'a ixs_scheme, _) op)"
  shows "preserves (\<lambda>(r, hs). db_part hs) (scan_round fd body)"
proof (rule preservesI)
  have at: "preserves db_part (on_snd (rm_scan_is_end fd r) :: ('h \<times> 'a ixs_scheme, _) op)"
    and nxt: "preserves db_part (on_snd (rm_scan_next fd r) :: ('h \<times> 'a ixs_scheme, _) op)" for r
    by (intro preserving)+
  fix z :: "rid \<times> ('h \<times> 'a ixs_scheme)"
  obtain r hs where z: "z = (r, hs)" by (cases z)
  show "(\<lambda>(r, hs). db_part hs) (snd (scan_round fd body z)) = (\<lambda>(r, hs). db_part hs) z"
    unfolding z scan_round_def
    by (auto dest!: preservesD [OF at] preservesD [OF nxt] preservesD [OF assms] split: prod.splits sum.splits if_splits)
qed

lemma repeat_rounds_keeps:
  assumes "preserves p m" and "repeat_rounds m s = Some y"
  shows "p (snd y) = p s"
proof (rule repeat_rounds.raw_induct [of "\<lambda>n s y. preserves p n \<longrightarrow> p (snd y) = p s", OF _ assms(2), THEN mp, OF _ assms(1)], goal_cases)
  case (1 loop n s y)
  show ?case
  proof
    assume "preserves p n"
    then show "p (snd y) = p s"
      using 1(2) preservesD [of p n s] by (fastforce dest: 1(1) split: if_splits sum.splits prod.splits)
  qed
qed

lemma for_records_cat [preserving]:
  assumes "\<And>r. preserves db_part (body r :: ('h \<times> 'a ixs_scheme, _) op)"
  shows "preserves db_part (for_records fd body)"
proof -
  have "db_part (snd (case rounds (scan_round fd body) (r, hs) of (x, (_, hs')) \<Rightarrow> (x, hs'))) = db_part hs"
    for r and hs :: "'h \<times> 'a ixs_scheme"
    using repeat_rounds_keeps [OF scan_round_cat [of body fd], OF assms, of "(r, hs)"]
    by (cases "repeat_rounds (scan_round fd body) (r, hs)") (auto simp: rounds_def returned_def split: prod.split)
  then have "preserves db_part (\<lambda>hs. case rounds (scan_round fd body) (r, hs) of (x, (_, hs')) \<Rightarrow> (x, hs'))" for r
    by (simp add: preserves_def)
  then show ?thesis unfolding for_records_def by (intro preserving) assumption
qed

end
