(* ===== verification/SmCatalog.thy ===== *)
theory SmCatalog
  imports SmFrame
begin

text \<open>
  The catalogue: what every table of it looks like (\<open>table_ok\<close>), that DDL keeps it so whether it succeeds or
  fails, and that the meta file gives it back.
\<close>

section \<open>Well-formed tables\<close>

fun laid_out :: "string \<Rightarrow> int \<Rightarrow> ColMeta list \<Rightarrow> bool" where
  "laid_out n off [] = True"
| "laid_out n off (c # cs) \<longleftrightarrow> cm_tab c = n \<and> cm_offset c = off \<and> 0 \<le> cm_len c \<and> off + cm_len c < 2 ^ 31 \<and> laid_out n (off + cm_len c) cs"

definition unflagged :: "ColMeta \<Rightarrow> ColMeta" where
  "unflagged c = c\<lparr>cm_index := False\<rparr>"

definition index_names :: "TabMeta \<Rightarrow> string list list" where
  "index_names t = map (\<lambda>ix. map cm_name (im_cols ix)) (tm_indexes t)"

definition index_ok :: "TabMeta \<Rightarrow> IndexMeta \<Rightarrow> bool" where
  "index_ok t ix \<longleftrightarrow> im_tab ix = tm_name t \<and> im_col_num ix = int (length (im_cols ix)) \<and>
     unflagged ` set (im_cols ix) \<subseteq> unflagged ` set (tm_cols t)"

definition table_ok :: "string \<Rightarrow> TabMeta \<Rightarrow> bool" where
  "table_ok n t \<longleftrightarrow> n \<noteq> [] \<and> tm_name t = n \<and> tm_cols t \<noteq> [] \<and> distinct (map cm_name (tm_cols t)) \<and> laid_out n 0 (tm_cols t) \<and>
     (\<forall>ix \<in> set (tm_indexes t). index_ok t ix) \<and> distinct (index_names t)"

text \<open>The part of it that does not depend on the lengths of the columns.\<close>

definition table_named :: "string \<Rightarrow> TabMeta \<Rightarrow> bool" where
  "table_named n t \<longleftrightarrow> n \<noteq> [] \<and> tm_name t = n \<and> tm_cols t \<noteq> [] \<and> distinct (map cm_name (tm_cols t)) \<and>
     (\<forall>ix \<in> set (tm_indexes t). index_ok t ix) \<and> distinct (index_names t)"

definition table_fits :: "bool \<Rightarrow> string \<Rightarrow> TabMeta \<Rightarrow> bool" where
  "table_fits q n t \<longleftrightarrow> table_named n t \<and> (q \<longrightarrow> laid_out n 0 (tm_cols t))"

lemma table_fits_eq: "table_fits True n t = table_ok n t" "table_fits False n t = table_named n t"
  by (auto simp: table_fits_def table_named_def table_ok_def)

definition catalogue_named :: "'a sms_scheme \<Rightarrow> bool" where
  "catalogue_named s \<longleftrightarrow> (\<forall>n t. db_tabs s n = Some t \<longrightarrow> table_named n t)"

definition catalogue_ok :: "'a sms_scheme \<Rightarrow> bool" where
  "catalogue_ok s \<longleftrightarrow> (\<forall>n t. db_tabs s n = Some t \<longrightarrow> table_ok n t)"

lemma laid_out_flag: "laid_out n off (cs[i := (cs ! i)\<lparr>cm_index := b\<rparr>]) = laid_out n off cs"
proof (induction cs arbitrary: off i)
  case (Cons c cs)
  then show ?case by (cases i) simp_all
qed simp

lemma flag_names: "map cm_name (cs[i := (cs ! i)\<lparr>cm_index := b\<rparr>]) = map cm_name cs"
proof (induction cs arbitrary: i)
  case (Cons c cs)
  then show ?case by (cases i) simp_all
qed simp

lemma flag_unflagged: "map unflagged (cs[i := (cs ! i)\<lparr>cm_index := b\<rparr>]) = map unflagged cs"
proof (induction cs arbitrary: i)
  case (Cons c cs)
  then show ?case by (cases i) (simp_all add: unflagged_def)
qed simp

lemma flag_places: "unflagged ` set (cs[i := (cs ! i)\<lparr>cm_index := b\<rparr>]) = unflagged ` set cs"
  by (metis flag_unflagged list.set_map)

abbreviation with_flag :: "bool \<Rightarrow> nat \<Rightarrow> TabMeta \<Rightarrow> TabMeta" where
  "with_flag b i t \<equiv> t\<lparr>tm_cols := (tm_cols t)[i := (tm_cols t ! i)\<lparr>cm_index := b\<rparr>]\<rparr>"

lemma index_ok_flag: "index_ok (with_flag b i t) ix = index_ok t ix"
  by (simp add: index_ok_def flag_places)

lemma table_fits_flag: "table_fits q n t \<Longrightarrow> table_fits q n (with_flag b i t)"
  by (simp add: table_fits_def table_named_def laid_out_flag flag_names index_ok_flag index_names_def)

section \<open>New tables\<close>

definition sizes_ok :: "ColDef list \<Rightarrow> bool" where
  "sizes_ok cs \<longleftrightarrow> (\<forall>c \<in> set cs. 0 \<le> cd_len c) \<and> (\<Sum>c \<leftarrow> cs. cd_len c) < 2 ^ 31"

lemma repeated_none: "repeated_name seen cs = None \<longleftrightarrow> distinct (map cd_name cs) \<and> set (map cd_name cs) \<inter> set seen = {}"
  by (induction cs arbitrary: seen) auto

lemma new_cols_names: "map cm_name (new_cols n off cs) = map cd_name cs"
  by (induction cs arbitrary: off) simp_all

lemma sum_nonneg_cols: "(\<forall>c \<in> set cs. 0 \<le> cd_len c) \<Longrightarrow> 0 \<le> (\<Sum>c \<leftarrow> cs. cd_len c)"
  by (induction cs) auto

lemma new_cols_laid_out:
  "(\<forall>c \<in> set cs. 0 \<le> cd_len c) \<Longrightarrow> 0 \<le> off \<Longrightarrow> off + (\<Sum>c \<leftarrow> cs. cd_len c) < 2 ^ 31 \<Longrightarrow> laid_out n off (new_cols n off cs)"
proof (induction cs arbitrary: off)
  case (Cons c cs)
  have "0 \<le> (\<Sum>c \<leftarrow> cs. cd_len c)" using Cons.prems(1) by (intro sum_nonneg_cols) simp
  then have e: "off + cd_len c < 2 ^ 31" "0 \<le> off + cd_len c" using Cons.prems by auto
  then have "c_int (off + cd_len c) = off + cd_len c" by (intro c_int_id) (simp add: int32_range_def)
  then show ?case using Cons.IH [of "off + cd_len c"] Cons.prems e by simp
qed simp

lemma new_table_fits:
  assumes "tab_name \<noteq> []" and "cs \<noteq> []" and "repeated_name [] cs = None" and "q \<Longrightarrow> sizes_ok cs"
  shows "table_fits q tab_name (new_table tab_name cs)"
proof -
  have "new_cols tab_name 0 cs \<noteq> []" using assms(2) by (cases cs) simp_all
  then show ?thesis
    using assms new_cols_laid_out [of cs 0 tab_name]
    by (simp add: table_fits_def table_named_def new_table_def new_cols_names repeated_none sizes_ok_def index_names_def)
qed

section \<open>New indexes\<close>

lemma cols_match_names: "length cs = length ns \<Longrightarrow> cols_match cs ns = Inr (map cm_name cs = ns)"
  by (induction cs ns rule: cols_match.induct) auto

lemma find_index_names:
  assumes "\<forall>ix \<in> set ixs. im_col_num ix = int (length (im_cols ix))"
  shows "\<exists>r. find_index ixs ns i = Inr r \<and> (r = None \<longleftrightarrow> ns \<notin> set (map (\<lambda>ix. map cm_name (im_cols ix)) ixs)) \<and>
    (\<forall>j. r = Some j \<longrightarrow> i \<le> j \<and> j - i < length ixs \<and> map cm_name (im_cols (ixs ! (j - i))) = ns)"
  using assms
proof (induction ixs arbitrary: i)
  case (Cons ix ixs)
  obtain r where r: "find_index ixs ns (Suc i) = Inr r" "r = None \<longleftrightarrow> ns \<notin> set (map (\<lambda>ix. map cm_name (im_cols ix)) ixs)"
    "\<forall>j. r = Some j \<longrightarrow> Suc i \<le> j \<and> j - Suc i < length ixs \<and> map cm_name (im_cols (ixs ! (j - Suc i))) = ns"
    using Cons.IH [of "Suc i"] Cons.prems by auto
  have later: "i \<le> j \<and> j - i < length (ix # ixs) \<and> map cm_name (im_cols ((ix # ixs) ! (j - i))) = ns" if "r = Some j" for j
  proof -
    have "j - i = Suc (j - Suc i)" "Suc i \<le> j" using r(3) that by auto
    then show ?thesis using r(3) that by auto
  qed
  show ?case
  proof (cases "length (im_cols ix) = length ns")
    case True
    show ?thesis
    proof (cases "map cm_name (im_cols ix) = ns")
      case True
      then show ?thesis using \<open>length _ = _\<close> Cons.prems by (simp add: cols_match_names)
    next
      case False
      then show ?thesis using \<open>length _ = _\<close> Cons.prems r(1,2) later by (fastforce simp: cols_match_names)
    qed
  next
    case False
    then have "map cm_name (im_cols ix) \<noteq> ns" by auto
    then show ?thesis using False Cons.prems r(1,2) later by fastforce
  qed
qed simp

lemma is_index_names:
  "table_fits q n t \<Longrightarrow> is_index ns t = Inr (ns \<in> set (index_names t))"
  using find_index_names [of "tm_indexes t" ns 0] by (auto simp: table_fits_def table_named_def index_ok_def is_index_def index_names_def)

lemma index_cols_of_ok:
  assumes "index_cols_of t ns = Inr cs"
  shows "map cm_name cs = ns \<and> set cs \<subseteq> set (tm_cols t)"
  using assms
proof (induction ns arbitrary: cs)
  case (Cons n ns)
  then obtain i cs' where i: "get_col n t = Inr i" "index_cols_of t ns = Inr cs'" "cs = tm_cols t ! i # cs'"
    by (auto simp: bindR_Inr)
  then have "find_col (tm_cols t) n 0 = Some i" by (simp add: get_col_def split: option.splits)
  then show ?case using find_col_nth [of "tm_cols t" n 0 i] Cons.IH [OF i(2)] i(3) by auto
qed simp

section \<open>Operations that keep the catalogue\<close>

definition stable :: "('s \<Rightarrow> bool) \<Rightarrow> ('s, 'b) op \<Rightarrow> bool" where
  "stable P m \<longleftrightarrow> (\<forall>s. P s \<longrightarrow> P (snd (m s)))"

named_theorems keeping

lemma stableI: "(\<And>s. P s \<Longrightarrow> P (snd (m s))) \<Longrightarrow> stable P m"
  by (simp add: stable_def)

lemma stableD: "stable P m \<Longrightarrow> P s \<Longrightarrow> P (snd (m s))"
  by (simp add: stable_def)

lemma stable_basic [keeping]: "stable P (ret x)" "stable P (raise e)" "stable P getS" "stable P (liftR r)"
  by (simp_all add: stable_def liftR_def)

lemma stable_bindE [keeping]:
  assumes "stable P m" and "\<And>x. stable P (k x)"
  shows "stable P (bindE m k)"
proof (rule stableI)
  fix s assume "P s"
  then have "P (snd (m s))" by (rule stableD [OF assms(1)])
  then show "P (snd (bindE m k s))" using assms(2) by (cases "m s") (auto simp: bindE_def stable_def split: sum.split)
qed

lemma stable_forE [keeping]: "(\<And>x. stable P (body x)) \<Longrightarrow> stable P (forE xs body)"
proof (induction xs)
  case (Cons x xs)
  show ?case unfolding forE.simps by (rule stable_bindE [OF Cons(2) Cons(1) [OF Cons(2)]])
qed (simp add: stable_def)

lemma stable_cases [keeping]:
  "(b \<Longrightarrow> stable P m) \<Longrightarrow> (\<not> b \<Longrightarrow> stable P n) \<Longrightarrow> stable P (if b then m else n)"
  "stable P m \<Longrightarrow> (\<And>y. stable P (k y)) \<Longrightarrow> stable P (case x of None \<Rightarrow> m | Some y \<Rightarrow> k y)"
  "(\<And>x. stable P (h x)) \<Longrightarrow> stable P (Let v h)"
  by (auto split: option.split)

lemma tabs_of_part:
  fixes s t :: "'a sms_scheme"
  shows "cat_part s = cat_part t \<Longrightarrow> db_tabs s = db_tabs t"
  by (cases s, cases t) (simp add: cat_part_def)

lemma stable_preserves: "preserves cat_part m \<Longrightarrow> stable (\<lambda>s. Q (db_tabs s)) (m :: ('a sms_scheme, _) op)"
  using tabs_of_part unfolding preserves_def stable_def by metis

lemma stable_updS: "(\<And>s. P s \<Longrightarrow> P (f s)) \<Longrightarrow> stable P (updS f)"
  by (simp add: stable_def)

lemma stable_same_tabs [keeping]: "(\<And>s. db_tabs (f s) = db_tabs s) \<Longrightarrow> stable (\<lambda>s. Q (db_tabs s)) (updS f)"
  by (simp add: stable_def)

lemma stable_flush_meta [keeping]: "stable (\<lambda>s. Q (db_tabs s)) flush_meta"
  unfolding flush_meta_def by (intro keeping) (simp add: ofstream_text_def)

lemma stable_close_handle [keeping]: "stable (\<lambda>s. Q (db_tabs s)) (close_handle n)"
  unfolding close_handle_def by (intro keeping stable_preserves preserving) simp

lemma stable_log_ddl [keeping]: "stable (\<lambda>s. Q (db_tabs s)) (log_ddl ctx d)"
  unfolding log_ddl_def by (intro keeping stable_preserves preserving txn_at_part)

lemma get_table_stable [keeping]: "stable P (get_table n)"
  unfolding get_table_def by (intro keeping)

lemma stable_upd_table:
  assumes "\<And>s t. P s \<Longrightarrow> db_tabs s n = Some t \<Longrightarrow> P (s\<lparr>db_tabs := (db_tabs s)(n \<mapsto> f t)\<rparr>)"
  shows "stable P (upd_table n f)"
  using assms by (auto simp: stable_def upd_table_def get_table_def put_table_def bindE_apply split: option.split)

definition tabs_fit :: "bool \<Rightarrow> (string \<rightharpoonup> TabMeta) \<Rightarrow> bool" where
  "tabs_fit q m \<longleftrightarrow> (\<forall>n t. m n = Some t \<longrightarrow> table_fits q n t)"

lemma catalogue_tabs: "catalogue_ok s \<longleftrightarrow> tabs_fit True (db_tabs s)" "catalogue_named s \<longleftrightarrow> tabs_fit False (db_tabs s)"
  by (simp_all add: catalogue_ok_def catalogue_named_def tabs_fit_def table_fits_eq)

lemma tabs_fit_put: "tabs_fit q m \<Longrightarrow> table_fits q n t \<Longrightarrow> tabs_fit q (m(n \<mapsto> t))"
  by (auto simp: tabs_fit_def)

lemma tabs_fit_del: "tabs_fit q m \<Longrightarrow> tabs_fit q (m(n := None))"
  by (auto simp: tabs_fit_def)

lemma upd_table_keeps: "(\<And>t. table_fits q n t \<Longrightarrow> table_fits q n (f t)) \<Longrightarrow> stable (\<lambda>s. tabs_fit q (db_tabs s)) (upd_table n f)"
  by (rule stable_upd_table) (auto intro!: tabs_fit_put simp: tabs_fit_def)

lemma stable_flag_col:
  assumes "\<And>s t b i. P s \<Longrightarrow> db_tabs s n = Some t \<Longrightarrow> P (s\<lparr>db_tabs := (db_tabs s)(n \<mapsto> with_flag b i t)\<rparr>)"
  shows "stable P (flag_col b n c)"
  using assms by (auto simp: stable_def flag_col_def get_table_def put_table_def bindE_apply split: option.split sum.split)

lemma flag_col_keeps [keeping]: "stable (\<lambda>s. tabs_fit q (db_tabs s)) (flag_col b n c)"
  by (rule stable_flag_col) (auto intro!: tabs_fit_put table_fits_flag simp: tabs_fit_def)

lemma stable_on_exception: "stable P m \<Longrightarrow> stable P h \<Longrightarrow> stable P (on_exception m h)"
  unfolding stable_def on_exception_def
  by (auto simp: bindE_def split: prod.splits sum.splits)

section \<open>The operations of the system manager\<close>

lemma update_table_row_count_keeps: "stable (\<lambda>s. tabs_fit q (db_tabs s)) (update_table_row_count n k)"
  unfolding update_table_row_count_def
  by (intro keeping upd_table_keeps) (simp add: table_fits_def table_named_def index_ok_def index_names_def)

lemma create_table_keeps:
  assumes "q \<Longrightarrow> sizes_ok cs"
  shows "stable (\<lambda>s. tabs_fit q (db_tabs s)) (create_table junk n cs ctx)"
proof -
  have "stable (\<lambda>s. tabs_fit q (db_tabs s)) (make_table junk n (new_table n cs) k)"
    if "n \<noteq> []" "cs \<noteq> []" "repeated_name [] cs = None" for k
    unfolding make_table_def put_table_def
    by (intro keeping stable_preserves [OF rm_file_ops_cat(1)] stable_preserves [OF rm_file_ops_cat(3)] stable_updS tabs_fit_put)
       (simp_all add: tabs_fit_put new_table_fits that assms)
  then have "stable (\<lambda>s. tabs_fit q (db_tabs s)) (on_exception (make_table junk n (new_table n cs) k)
      (updS (\<lambda>s. s\<lparr>db_tabs := (db_tabs s)(n := None), fhs := (fhs s)(n := None)\<rparr>)))"
    if "n \<noteq> []" "cs \<noteq> []" "repeated_name [] cs = None" for k
    using that by (intro stable_on_exception stable_updS) (simp_all add: tabs_fit_del)
  then show ?thesis
    unfolding create_table_def stable_def by (auto split: option.split)
qed

lemma pages_of_records_cat: "preserves cat_part (pages_of_records fd :: ('a ixs_scheme, _) op)"
proof (rule preservesI)
  fix s :: "'a ixs_scheme"
  have "preserves db_part (for_records fd (\<lambda>r. (\<lambda>(ps, s). (Inr (), (insert (rid_page_no r) ps, s)))) :: (int set \<times> 'a ixs_scheme, _) op)"
    by (intro preserving preservesI) (simp add: db_part_def case_prod_unfold)
  then have "db_part (snd (for_records fd (\<lambda>r. (\<lambda>(ps, s). (Inr (), (insert (rid_page_no r) ps, s)))) ({}, s))) = cat_part s"
    by (simp add: preserves_def db_part_def)
  then show "cat_part (snd (pages_of_records fd s)) = cat_part s"
    by (simp add: pages_of_records_def db_part_def case_prod_unfold split: sum.split)
qed

lemma drop_table_keeps: "stable (\<lambda>s. tabs_fit q (db_tabs s)) (drop_table n)"
proof -
  have "stable (\<lambda>s. tabs_fit q (db_tabs s)) (drop_table_index n ix)" for ix
    unfolding drop_table_index_def by (intro keeping stable_preserves [OF destroy_index_cat])
  moreover have "stable (\<lambda>s. tabs_fit q (db_tabs s)) (drop_table_file n)"
    unfolding drop_table_file_def
    by (intro keeping stable_preserves [OF pool_ops_cat(6)] stable_preserves [OF pages_of_records_cat] stable_preserves [OF pool_ops_cat(7)]
        stable_preserves [OF rm_file_ops_cat(4)]) simp
  ultimately show ?thesis
    unfolding drop_table_def
    by (intro keeping stable_preserves [OF rm_file_ops_cat(2)] stable_updS) (simp_all add: tabs_fit_del)
qed

lemma liftR_cat [preserving]: "preserves p (liftR r)"
  by (simp add: preserves_def liftR_def)

lemma enter_record_cat [preserving]: "preserves cat_part (enter_record fd n cols ctx r)"
  unfolding enter_record_def by (intro preserving)

lemma each_record_cat [preserving]:
  assumes "\<And>r. preserves cat_part (body r :: ('a ixs_scheme, _) op)"
  shows "preserves cat_part (each_record fd body)"
proof (rule preservesI)
  fix s :: "'a ixs_scheme"
  have "preserves db_part (for_records fd (\<lambda>r. on_snd (body r)) :: (unit \<times> 'a ixs_scheme, _) op)" by (intro preserving assms)
  from preserved [OF this, of "((), s)"] show "cat_part (snd (each_record fd body s)) = cat_part s"
    by (simp add: each_record_def db_part_def case_prod_unfold)
qed

lemma fill_index_cat: "preserves cat_part (fill_index tab n cols ctx)"
  unfolding fill_index_def by (intro preserving)

lemma index_ok_indexes: "index_ok (t\<lparr>tm_indexes := ixs\<rparr>) ix = index_ok t ix"
  by (simp add: index_ok_def)

lemma table_fits_fewer:
  "table_fits q n t \<Longrightarrow> set ixs \<subseteq> set (tm_indexes t) \<Longrightarrow> distinct (map (\<lambda>ix. map cm_name (im_cols ix)) ixs) \<Longrightarrow> table_fits q n (t\<lparr>tm_indexes := ixs\<rparr>)"
  unfolding table_fits_def table_named_def index_names_def by (auto simp: index_ok_indexes)

lemma table_fits_butlast: "table_fits q n t \<Longrightarrow> table_fits q n (t\<lparr>tm_indexes := butlast (tm_indexes t)\<rparr>)"
  by (rule table_fits_fewer) (auto simp: table_fits_def table_named_def index_names_def map_butlast distinct_butlast dest: in_set_butlastD)

lemma table_fits_remove: "table_fits q n t \<Longrightarrow> table_fits q n (t\<lparr>tm_indexes := remove_nth i (tm_indexes t)\<rparr>)"
proof (rule table_fits_fewer)
  assume "table_fits q n t"
  then have d: "distinct (index_names t)" by (simp add: table_fits_def table_named_def)
  show "set (remove_nth i (tm_indexes t)) \<subseteq> set (tm_indexes t)"
    unfolding remove_nth_def using set_take_subset set_drop_subset by fastforce
  have "map (\<lambda>ix. map cm_name (im_cols ix)) (remove_nth i (tm_indexes t)) = take i (index_names t) @ drop (Suc i) (index_names t)"
    by (simp add: remove_nth_def index_names_def take_map drop_map)
  moreover have "set (take i (index_names t)) \<inter> set (drop (Suc i) (index_names t)) = {}"
    using set_take_disj_set_drop_if_distinct [OF d, of i "Suc i"] by simp
  ultimately show "distinct (map (\<lambda>ix. map cm_name (im_cols ix)) (remove_nth i (tm_indexes t)))"
    using d by simp
qed

lemma on_duplicate_keeps:
  assumes "stable (\<lambda>s. tabs_fit q (db_tabs s)) m"
  shows "stable (\<lambda>s. tabs_fit q (db_tabs s)) (on_duplicate n cols ix m)"
proof (rule stableI)
  fix s :: "'a sms_scheme" assume "tabs_fit q (db_tabs s)"
  then have t: "tabs_fit q (db_tabs (snd (m s)))" by (rule stableD [OF assms])
  have "stable (\<lambda>s. tabs_fit q (db_tabs s)) (bindE (updS (\<lambda>s. s\<lparr>ihs := (ihs s)(ix := None)\<rparr>)) (\<lambda>_. bindE (destroy_index n cols) (\<lambda>_.
      bindE (upd_table n (\<lambda>t. t\<lparr>tm_indexes := butlast (tm_indexes t)\<rparr>)) (\<lambda>_. bindE flush_meta (\<lambda>_. raise e)))) :: ('a sms_scheme, unit) op)" for e
    by (intro keeping stable_preserves [OF destroy_index_cat] upd_table_keeps table_fits_butlast) simp
  from stableD [OF this t] t show "tabs_fit q (db_tabs (snd (on_duplicate n cols ix m s)))"
    by (auto simp: on_duplicate_def split: prod.splits sum.splits db_error.splits)
qed

text \<open>The table before the new index is entered.\<close>

definition index_fits :: "bool \<Rightarrow> string \<Rightarrow> string list \<Rightarrow> ColMeta list \<Rightarrow> (string \<rightharpoonup> TabMeta) \<Rightarrow> bool" where
  "index_fits q n ns cols m \<longleftrightarrow> tabs_fit q m \<and>
     (\<forall>t. m n = Some t \<longrightarrow> ns \<notin> set (index_names t) \<and> unflagged ` set cols \<subseteq> unflagged ` set (tm_cols t))"

lemma index_fits_flag: "index_fits q n ns cols m \<Longrightarrow> m n = Some t \<Longrightarrow> index_fits q n ns cols (m(n \<mapsto> with_flag b i t))"
  by (auto simp: index_fits_def index_names_def flag_places intro!: tabs_fit_put table_fits_flag simp: tabs_fit_def)

lemma table_fits_new_index:
  assumes "index_fits q n ns cols m" and "m n = Some t" and "map cm_name cols = ns" and "length cols < 2 ^ 31"
  shows "table_fits q n (t\<lparr>tm_indexes := tm_indexes t @ [new_index_meta n cols u]\<rparr>)"
proof -
  have "c_int (int (length cols)) = int (length cols)" by (rule c_int_id) (use assms(4) in \<open>simp add: int32_range_def\<close>)
  moreover have "table_fits q n t" "ns \<notin> set (index_names t)" "unflagged ` set cols \<subseteq> unflagged ` set (tm_cols t)"
    using assms(1,2) by (auto simp: index_fits_def tabs_fit_def)
  ultimately show ?thesis
    using assms(3) by (auto simp: table_fits_def table_named_def index_ok_def index_names_def new_index_meta_def)
qed

lemma stable_into_bindE:
  assumes "stable P m" and "\<And>s. P s \<Longrightarrow> Q s" and "\<And>x s. P s \<Longrightarrow> Q (snd (k x s))" and "P s"
  shows "Q (snd (bindE m k s))"
  using stableD [OF assms(1,4)] assms(2,3) by (cases "m s") (auto simp: bindE_def split: sum.split)

lemma push_index_keeps:
  assumes "index_fits q n ns cols (db_tabs s)" and "map cm_name cols = ns" and "length cols < 2 ^ 31"
  shows "tabs_fit q (db_tabs (snd (upd_table n (\<lambda>t. t\<lparr>tm_indexes := tm_indexes t @ [new_index_meta n cols u]\<rparr>) s)))"
proof (cases "db_tabs s n")
  case None
  then show ?thesis using assms(1) by (simp add: upd_table_def get_table_def bindE_apply index_fits_def)
next
  case (Some t)
  then show ?thesis
    using table_fits_new_index [OF assms(1) Some assms(2,3)] assms(1)
    by (simp add: upd_table_def get_table_def put_table_def bindE_apply index_fits_def tabs_fit_put)
qed

lemma make_index_keeps:
  assumes "index_fits q n ns cols (db_tabs s)" and "map cm_name cols = ns" and "length cols < 2 ^ 31"
  shows "tabs_fit q (db_tabs (snd (make_index n ns cols u ctx s)))"
proof -
  let ?P = "\<lambda>s :: 'a sms_scheme. index_fits q n ns cols (db_tabs s)" and ?Q = "\<lambda>s :: 'a sms_scheme. tabs_fit q (db_tabs s)"
  have weak: "?P s \<Longrightarrow> ?Q s" for s by (simp add: index_fits_def)
  have flag: "stable ?P (forE ns (flag_col True n))"
    by (intro keeping stable_flag_col) (simp add: index_fits_flag)
  have dup: "stable ?Q (on_duplicate n cols (get_index_name n ns) (fill_index n (get_index_name n ns) cols ctx))"
    by (intro on_duplicate_keeps stable_preserves fill_index_cat)
  let ?d = "\<lparr>ddl_type = CREATE_INDEX, ddl_table = n, ddl_cols = ns, ddl_unique = u\<rparr>" and ?i = "get_index_name n ns"
  define rest where "rest = bindE (log_ddl ctx ?d) (\<lambda>_.
     bindE (on_duplicate n cols ?i (fill_index n ?i cols ctx)) (\<lambda>_. bindE getS (\<lambda>s :: 'a sms_scheme.
     case ihs s ?i of
       None \<Rightarrow> raise NullDereference
     | Some ih \<Rightarrow> bindE (flush_all_pages ih) (\<lambda>_. bindE (print_tree ih (''bptree_'' @ ?i @ ''.txt'')) (\<lambda>_. flush_meta)))))"
  have rest: "stable ?Q rest"
    unfolding rest_def by (intro keeping dup stable_preserves [OF pool_ops_cat(6)] stable_preserves [OF print_tree_cat])
  have push: "?Q (snd (bindE (upd_table n (\<lambda>t. t\<lparr>tm_indexes := tm_indexes t @ [new_index_meta n cols u]\<rparr>)) (\<lambda>_. rest) s))"
    if "?P s" for s
    using push_index_keeps [OF that assms(2,3), of u] rest
    by (cases "upd_table n (\<lambda>t. t\<lparr>tm_indexes := tm_indexes t @ [new_index_meta n cols u]\<rparr>) s")
       (auto simp: bindE_def stable_def split: sum.split)
  have "?Q (snd (bindE (ix_create_index n cols) (\<lambda>_. bindE (open_index n (map cm_name cols) (Some (new_index_meta n cols u))) (\<lambda>ih.
     bindE (updS (\<lambda>s. s\<lparr>ihs := (ihs s)(?i \<mapsto> ih)\<rparr>)) (\<lambda>_. bindE (forE ns (flag_col True n)) (\<lambda>_.
     bindE (upd_table n (\<lambda>t. t\<lparr>tm_indexes := tm_indexes t @ [new_index_meta n cols u]\<rparr>)) (\<lambda>_. rest))))) s))"
    by (rule stable_into_bindE [where P = ?P, OF stable_preserves [OF ix_create_index_cat] weak _ assms(1)], assumption,
        rule stable_into_bindE [where P = ?P, OF stable_preserves [OF open_index_cat] weak], assumption,
        rule stable_into_bindE [where P = ?P, OF stable_same_tabs weak], simp, assumption,
        rule stable_into_bindE [where P = ?P, OF flag weak], assumption, rule push) assumption+
  then show ?thesis unfolding make_index_def Let_def rest_def by simp
qed

lemma create_index_keeps:
  assumes "length ns < 2 ^ 31"
  shows "stable (\<lambda>s. tabs_fit q (db_tabs s)) (create_index n ns ctx u)"
proof (rule stableI)
  fix s :: "'a sms_scheme" assume ok: "tabs_fit q (db_tabs s)"
  show "tabs_fit q (db_tabs (snd (create_index n ns ctx u s)))"
  proof (cases "db_tabs s n")
    case None
    then show ?thesis using ok by (simp add: create_index_def get_table_def bindE_apply)
  next
    case (Some t)
    have t: "table_fits q n t" using ok Some by (simp add: tabs_fit_def)
    have "tabs_fit q (db_tabs (snd (make_index n ns cols u ctx s)))" if "ns \<notin> set (index_names t)" "index_cols_of t ns = Inr cols" for cols
    proof (rule make_index_keeps)
      show "index_fits q n ns cols (db_tabs s)"
        using that ok Some index_cols_of_ok [OF that(2)] by (auto simp: index_fits_def)
      show "map cm_name cols = ns" using index_cols_of_ok [OF that(2)] by simp
      then show "length cols < 2 ^ 31" using assms by auto
    qed
    then show ?thesis
      using ok Some is_index_names [OF t, of ns]
      by (cases "index_cols_of t ns"; cases "names_ok ns t") (auto simp: create_index_def get_table_def bindE_apply)
  qed
qed

lemma unflag_col_keeps [keeping]: "stable (\<lambda>s. tabs_fit q (db_tabs s)) (unflag_col n c)"
  unfolding unflag_col_def by (intro keeping)

lemma drop_index_keeps: "stable (\<lambda>s. tabs_fit q (db_tabs s)) (drop_index n ns ctx)"
  unfolding drop_index_def
  by (intro keeping stable_preserves [OF destroy_index_cat] upd_table_keeps table_fits_remove)

section \<open>DDL\<close>

datatype ddl =
    Create_Table string "ColDef list"
  | Drop_Table string
  | Create_Index string "string list" bool
  | Drop_Index string "string list"
  | Row_Count string int

fun run_ddl :: "mem \<Rightarrow> Context option \<Rightarrow> ddl \<Rightarrow> ('a sms_scheme, unit) op" where
  "run_ddl junk ctx (Create_Table n cs) = create_table junk n cs ctx"
| "run_ddl junk ctx (Drop_Table n) = drop_table n"
| "run_ddl junk ctx (Create_Index n ns u) = create_index n ns ctx u"
| "run_ddl junk ctx (Drop_Index n ns) = drop_index n ns ctx"
| "run_ddl junk ctx (Row_Count n k) = update_table_row_count n k"

fun ddl_sizes :: "bool \<Rightarrow> ddl \<Rightarrow> bool" where
  "ddl_sizes q (Create_Table n cs) \<longleftrightarrow> (q \<longrightarrow> sizes_ok cs)"
| "ddl_sizes q (Create_Index n ns u) \<longleftrightarrow> length ns < 2 ^ 31"
| "ddl_sizes q d = True"

text \<open>A session: the statements one after the other, whether the ones before failed or not.\<close>

definition run_session :: "mem \<Rightarrow> Context option \<Rightarrow> ddl list \<Rightarrow> 'a sms_scheme \<Rightarrow> 'a sms_scheme" where
  "run_session junk ctx ds s = foldl (\<lambda>s d. snd (run_ddl junk ctx d s)) s ds"

lemma run_ddl_keeps: "ddl_sizes q d \<Longrightarrow> stable (\<lambda>s. tabs_fit q (db_tabs s)) (run_ddl junk ctx d)"
  by (cases d) (simp_all add: create_table_keeps drop_table_keeps create_index_keeps drop_index_keeps update_table_row_count_keeps)

lemma run_session_keeps:
  assumes "tabs_fit q (db_tabs s)" and "\<forall>d \<in> set ds. ddl_sizes q d"
  shows "tabs_fit q (db_tabs (run_session junk ctx ds s))"
  using assms
proof (induction ds arbitrary: s)
  case (Cons d ds)
  then show ?case using stableD [OF run_ddl_keeps [of q d junk ctx], of s] by (simp add: run_session_def)
qed (simp add: run_session_def)

text \<open>
  C25: DDL keeps the catalogue well formed. Whatever statements a session issues, with whatever results - duplicate
  names, missing columns, files that cannot be created, index entries that violate uniqueness - every table of the
  catalogue goes by its own name, has at least one column and no two of the same name, its indexes are over columns of
  the table and no two indexes are over the same columns. If moreover each \<open>CREATE TABLE\<close> of the session has columns of
  non-negative lengths with a sum below \<open>2 ^ 31\<close>, the columns of each table lie next to each other in the record without
  overlap or wrap-around. (No \<open>CREATE INDEX\<close> names \<open>2 ^ 31\<close> columns.) The parser lets negative lengths through, and
  with them columns do overlap: \<open>negative_length_overlaps\<close>.
\<close>

theorem ddl_keeps_catalogue:
  assumes "\<forall>n ns u. Create_Index n ns u \<in> set ds \<longrightarrow> length ns < 2 ^ 31"
  shows "(catalogue_named s \<longrightarrow> catalogue_named (run_session junk ctx ds s)) \<and>
    (catalogue_ok s \<and> (\<forall>n cs. Create_Table n cs \<in> set ds \<longrightarrow> sizes_ok cs) \<longrightarrow> catalogue_ok (run_session junk ctx ds s))"
proof -
  have "ddl_sizes q d" if "d \<in> set ds" "\<forall>n cs. Create_Table n cs \<in> set ds \<longrightarrow> q \<longrightarrow> sizes_ok cs" for q d
    by (insert that assms, cases d) (simp_all, blast)
  then have "tabs_fit q (db_tabs s) \<Longrightarrow> \<forall>n cs. Create_Table n cs \<in> set ds \<longrightarrow> q \<longrightarrow> sizes_ok cs \<Longrightarrow>
      tabs_fit q (db_tabs (run_session junk ctx ds s))" for q
    using run_session_keeps [of q s ds junk ctx] by blast
  from this [of True] this [of False] show ?thesis unfolding catalogue_tabs by simp
qed

text \<open>\<^verbatim>\<open>CREATE TABLE t (x INT, n CHAR(-4), y INT)\<close>: \<open>y\<close> gets the place of \<open>x\<close>.\<close>

lemma negative_length_overlaps:
  "map cm_offset (tm_cols (new_table ''t'' [\<lparr>cd_name = ''x'', cd_type = TYPE_INT_c, cd_len = 4\<rparr>,
     \<lparr>cd_name = ''n'', cd_type = TYPE_STRING_c, cd_len = - 4\<rparr>, \<lparr>cd_name = ''y'', cd_type = TYPE_INT_c, cd_len = 4\<rparr>])) = [0, 4, 0]"
  by (simp add: new_table_def c_int_def)

text \<open>A process that has just started: no file is open, no database is entered, the catalogue is empty.\<close>

definition demo_process :: sms where
  "demo_process = ixs.extend (txnm.extend (txnm_init sorted_list_of_set MVCC 1 0 demo_db) (ixs.fields Map.empty Map.empty))
     (sms.fields [] Map.empty 0 Map.empty sorted_list_of_set Map.empty None False True)
     \<lparr>os_files := Map.empty, os_fds := Map.empty, os_pick := (\<lambda>S. max 3 (Max (insert 2 S) + 1)), path2fd := Map.empty, fd2path := Map.empty, file_hdrs := Map.empty, fhs := Map.empty\<rparr>"

lemma demo_process_sel [simp]:
  "db_tabs demo_process = Map.empty" "db_name demo_process = []" "os_dirs demo_process = Map.empty" "os_here demo_process = None"
  "\<not> os_inside demo_process" "path2fd demo_process = Map.empty" "fhs demo_process = Map.empty" "ihs demo_process = Map.empty"
  "os_pick demo_process = (\<lambda>S. max 3 (Max (insert 2 S) + 1))" "os_files demo_process = Map.empty" "db_next_ts demo_process = 0" "os_fds demo_process = Map.empty"
  by (simp_all add: demo_process_def ixs.defs txnm.defs sms.defs txnm_init_def dbs.defs demo_disk_def)

theorem ddl_keeps_catalogue_witness:
  "catalogue_ok (run_session zero_mem None
     [Create_Table ''t'' [\<lparr>cd_name = ''x'', cd_type = 0, cd_len = 4\<rparr>, \<lparr>cd_name = ''y'', cd_type = 2, cd_len = 8\<rparr>],
      Create_Index ''t'' [''x'', ''y''] True, Drop_Table ''u'', Drop_Index ''t'' [''x'']] demo_process) \<and>
   catalogue_named (run_session zero_mem None [Create_Table ''t'' [\<lparr>cd_name = ''x'', cd_type = 2, cd_len = - 4\<rparr>]] demo_process)"
  using ddl_keeps_catalogue [of "[Create_Table ''t'' [\<lparr>cd_name = ''x'', cd_type = 0, cd_len = 4\<rparr>, \<lparr>cd_name = ''y'', cd_type = 2, cd_len = 8\<rparr>],
      Create_Index ''t'' [''x'', ''y''] True, Drop_Table ''u'', Drop_Index ''t'' [''x'']]" demo_process zero_mem None]
    ddl_keeps_catalogue [of "[Create_Table ''t'' [\<lparr>cd_name = ''x'', cd_type = 2, cd_len = - 4\<rparr>]]" demo_process zero_mem None]
  by (simp add: catalogue_ok_def catalogue_named_def sizes_ok_def)

end
