(* ===== verification/SmReopen.thy ===== *)
theory SmReopen
  imports SmCatalog IxEntries
begin

text \<open>
  Opening a database again: from the files that \<open>flush_meta\<close>, the tables and the indexes left in its directory,
  \<open>open_db\<close> rebuilds the catalogue and the handles.
\<close>

section \<open>Files that can be opened\<close>

definition first_page :: "os_file \<Rightarrow> mem" where
  "first_page f = mem_copy zero_mem 0 (fbytes f) 0 (min PAGE_SIZE (fsize f))"

definition openable :: "string list \<Rightarrow> 'a disk_scheme \<Rightarrow> bool" where
  "openable ps s \<longleftrightarrow> (\<forall>p \<in> set ps. os_files s p \<noteq> None \<and> path2fd s p = None) \<and> (\<forall>S. 0 \<le> os_pick s S)"

definition opened_file :: "string \<Rightarrow> 'a disk_scheme \<Rightarrow> 'a disk_scheme \<Rightarrow> bool" where
  "opened_file p s t \<longleftrightarrow> os_files t = os_files s \<and> os_pick t = os_pick s \<and> path2fd t = (path2fd s)(p \<mapsto> os_pick s (dom (os_fds s)))"

lemma openable_more: "openable (p # ps) s \<Longrightarrow> p \<notin> set ps \<Longrightarrow> opened_file p s t \<Longrightarrow> openable ps t"
  by (auto simp: openable_def opened_file_def)

lemma open_file_ok:
  assumes "openable (p # ps) s"
  obtains t where "open_file p s = (Inr (os_pick s (dom (os_fds s))), t)" and "opened_file p s t"
    and "os_fds t (os_pick s (dom (os_fds s))) = Some (p, 0)" and "disk.more t = disk.more s"
proof -
  have "is_file p s" "path2fd s p = None" "p \<in> dom (os_files s)" "0 \<le> os_pick s (dom (os_fds s))"
    using assms by (auto simp: openable_def is_file_def)
  then show thesis
    by (intro that [of "snd (open_file p s)"]) (auto simp: open_file_def os_open_def Let_def opened_file_def)
qed

lemma read_start:
  assumes "os_fds s fd = Some (p, pos)" and "os_files s p = Some f"
  obtains t where "read_page fd 0 m n s = (Inr (mem_copy m 0 (fbytes f) 0 (min n (fsize f))), t)"
    and "os_files t = os_files s" and "os_pick t = os_pick s" and "path2fd t = path2fd s" and "disk.more t = disk.more s"
proof -
  have "page_in_range 0" by (simp add: page_in_range_def)
  from read_page_eq [OF assms this, of m n] show thesis
    by (intro that [of "snd (read_page fd 0 m n s)"]) (simp_all add: page_pos_def Let_def)
qed

lemma rm_open_file_ok:
  fixes s :: "'a dbs_scheme"
  assumes "openable (p # ps) s"
  obtains t fd where "rm_open_file junk p s = (Inr fd, t)" and "opened_file p s t" and "fhs t = fhs s" and "dbs.more t = dbs.more s"
proof -
  let ?fd = "os_pick s (dom (os_fds s))"
  obtain t where t: "open_file p s = (Inr ?fd, t)" "opened_file p s t" "os_fds t ?fd = Some (p, 0)" "disk.more t = disk.more s"
    by (rule open_file_ok [OF assms])
  obtain f where "os_files t p = Some f" using assms t(2) by (auto simp: openable_def opened_file_def)
  from read_start [OF t(3) this] obtain m u where u: "read_page ?fd 0 junk sizeof_RmFileHdr t = (Inr m, u)"
    "os_files u = os_files t" "os_pick u = os_pick t" "path2fd u = path2fd t" "disk.more u = disk.more t" by metis
  let ?v = "set_fd2pageno ?fd (num_pages (hdr_of_mem m)) (u\<lparr>file_hdrs := (file_hdrs u)(?fd \<mapsto> hdr_of_mem m)\<rparr>)"
  have "rm_open_file junk p s = (Inr ?fd, ?v)"
    by (simp add: rm_open_file_def bindE_apply t(1) RM_FILE_HDR_PAGE_def u(1) set_hdr_def)
  moreover have "opened_file p s ?v" using t(2) u(2-4) by (simp add: opened_file_def set_fd2pageno_def)
  moreover have "bpm.more u = bpm.more s" using t(4) u(5) bpm_more_cong by metis
  then have "fhs u = fhs s" "dbs.more u = dbs.more s" using bpm_more_dbs by metis+
  then have "fhs ?v = fhs s" "dbs.more ?v = dbs.more s" by (simp_all add: set_fd2pageno_def)
  ultimately show thesis using that by blast
qed

definition index_file :: "string \<Rightarrow> IndexMeta \<Rightarrow> string" where
  "index_file n ix = get_index_name n (map cm_name (im_cols ix))"

definition table_files :: "TabMeta \<Rightarrow> string list" where
  "table_files t = tm_name t # map (index_file (tm_name t)) (tm_indexes t)"

text \<open>The header page of an index file parses.\<close>

definition index_files_ok :: "(string \<rightharpoonup> os_file) \<Rightarrow> TabMeta \<Rightarrow> bool" where
  "index_files_ok files t \<longleftrightarrow> (\<forall>ix \<in> set (tm_indexes t). \<forall>f. files (index_file (tm_name t) ix) = Some f \<longrightarrow>
     (\<exists>h. ix_deserialize (first_page f) 0 = Inr h))"

definition grew :: "string list \<Rightarrow> 'a sms_scheme \<Rightarrow> 'a sms_scheme \<Rightarrow> bool" where
  "grew ps s t \<longleftrightarrow> os_files t = os_files s \<and> os_pick t = os_pick s \<and> (\<forall>p. p \<notin> set ps \<longrightarrow> path2fd t p = path2fd s p) \<and>
     catalogue t = catalogue s"

lemma grew_trans: "grew ps s t \<Longrightarrow> grew qs t u \<Longrightarrow> grew (ps @ qs) s u"
  by (simp add: grew_def)

lemma openable_grew: "openable (ps @ qs) s \<Longrightarrow> set ps \<inter> set qs = {} \<Longrightarrow> grew ps s t \<Longrightarrow> openable qs t"
  by (auto simp: openable_def grew_def)

lemma cat_part_catalogue:
  fixes s t :: "'a sms_scheme"
  assumes "cat_part t = cat_part s"
  shows "catalogue t = catalogue s" and "ihs t = ihs s"
  using assms by (cases s, cases t, simp add: cat_part_def catalogue_def)+

lemma open_index_ok:
  fixes s :: "'a sms_scheme"
  assumes "openable (get_index_name n ns # ps) s"
    and "\<And>f. os_files s (get_index_name n ns) = Some f \<Longrightarrow> \<exists>h. ix_deserialize (first_page f) 0 = Inr h"
  obtains t fd where "open_index n ns None s = (Inr fd, t)" and "opened_file (get_index_name n ns) s t" and "fhs t = fhs s"
    and "cat_part t = cat_part s"
proof -
  let ?p = "get_index_name n ns" and ?fd = "os_pick s (dom (os_fds s))"
  obtain t where t: "open_file ?p s = (Inr ?fd, t)" "opened_file ?p s t" "os_fds t ?fd = Some (?p, 0)" "disk.more t = disk.more s"
    by (rule open_file_ok [OF assms(1)])
  obtain f where f: "os_files t ?p = Some f" using assms(1) t(2) by (auto simp: openable_def opened_file_def)
  then obtain h where h: "ix_deserialize (first_page f) 0 = Inr h" using assms(2) t(2) by (auto simp: opened_file_def)
  obtain u where u: "read_page ?fd 0 zero_mem PAGE_SIZE t = (Inr (first_page f), u)"
    "os_files u = os_files t" "os_pick u = os_pick t" "path2fd u = path2fd t" "disk.more u = disk.more t"
    using read_start [OF t(3) f] unfolding first_page_def by metis
  let ?v = "u\<lparr>ix_hdrs := (ix_hdrs u)(?fd \<mapsto> h), ix_metas := (ix_metas u)(?fd \<mapsto> default_IndexMeta 0 0)\<rparr>"
  have o: "open_index n ns None s = (Inr ?fd, ?v)"
    by (simp add: open_index_def load_index_hdr_def bindE_apply t(1) IX_FILE_HDR_PAGE_def u(1) h)
  have "bpm.more u = bpm.more s" using t(4) u(5) bpm_more_cong by metis
  then have "fhs ?v = fhs s" using bpm_more_dbs(3) [of u s] by simp
  moreover have "opened_file ?p s ?v" using t(2) u(2-4) by (simp add: opened_file_def)
  moreover have "cat_part ?v = cat_part s" by (rule preservesD [OF open_index_cat o])
  ultimately show thesis using that o by blast
qed

lemma open_indexes_ok:
  fixes s :: "'a sms_scheme"
  assumes "openable (map (index_file n) ixs) s" and "distinct (map (index_file n) ixs)"
    and "\<forall>ix \<in> set ixs. \<forall>f. os_files s (index_file n ix) = Some f \<longrightarrow> (\<exists>h. ix_deserialize (first_page f) 0 = Inr h)"
  shows "\<exists>t. forE ixs (open_table_index n) s = (Inr (), t) \<and> grew (map (index_file n) ixs) s t \<and> fhs t = fhs s \<and>
    dom (ihs t) = dom (ihs s) \<union> index_file n ` set ixs"
  using assms
proof (induction ixs arbitrary: s)
  case Nil
  then show ?case by (simp add: grew_def)
next
  case (Cons ix ixs)
  let ?ns = "map cm_name (im_cols ix)"
  have o: "openable (get_index_name n ?ns # map (index_file n) ixs) s" using Cons.prems(1) by (simp add: index_file_def [of n ix])
  obtain u fd where u: "open_index n ?ns None s = (Inr fd, u)" "opened_file (get_index_name n ?ns) s u" "fhs u = fhs s" "cat_part u = cat_part s"
    by (rule open_index_ok [OF o]) (use Cons.prems(3) in \<open>auto simp: index_file_def\<close>)
  let ?v = "u\<lparr>ihs := (ihs u)(index_file n ix \<mapsto> fd)\<rparr>"
  have v: "open_table_index n ix s = (Inr (), ?v)"
    by (simp add: open_table_index_def bindE_apply u(1) index_file_def Let_def)
  have g: "grew [index_file n ix] s ?v"
    using u(2) cat_part_catalogue(1) [OF u(4)] by (simp add: grew_def opened_file_def index_file_def catalogue_def)
  have o': "openable (map (index_file n) ixs) ?v"
    using openable_grew [of "[index_file n ix]" "map (index_file n) ixs", OF _ _ g] Cons.prems(1,2) by simp
  have f': "\<forall>ix \<in> set ixs. \<forall>f. os_files ?v (index_file n ix) = Some f \<longrightarrow> (\<exists>h. ix_deserialize (first_page f) 0 = Inr h)"
    using Cons.prems(3) g by (simp add: grew_def)
  have "distinct (map (index_file n) ixs)" using Cons.prems(2) by simp
  from Cons.IH [OF o' this f'] obtain t where t: "forE ixs (open_table_index n) ?v = (Inr (), t)"
    "grew (map (index_file n) ixs) ?v t" "fhs t = fhs ?v" "dom (ihs t) = dom (ihs ?v) \<union> index_file n ` set ixs"
    by blast
  have "grew (map (index_file n) (ix # ixs)) s t" using grew_trans [OF g t(2)] by simp
  then show ?case using v t u(3) cat_part_catalogue(2) [OF u(4)] by (auto simp: bindE_apply)
qed

lemma open_table_ok:
  fixes s :: "'a sms_scheme"
  assumes "openable (table_files tab) s" and "distinct (table_files tab)" and "index_files_ok (os_files s) tab"
  shows "\<exists>t. open_table junk tab s = (Inr (), t) \<and> grew (table_files tab) s t \<and> dom (fhs t) = insert (tm_name tab) (dom (fhs s)) \<and>
    dom (ihs t) = dom (ihs s) \<union> index_file (tm_name tab) ` set (tm_indexes tab)"
proof -
  let ?n = "tm_name tab"
  obtain u fd where u: "rm_open_file junk ?n s = (Inr fd, u)" "opened_file ?n s u" "fhs u = fhs s"
    using rm_open_file_ok [of ?n _ s junk] assms(1) unfolding table_files_def by metis
  have c: "cat_part u = cat_part s" by (rule preservesD [OF rm_file_ops_cat(3) u(1)])
  let ?v = "u\<lparr>fhs := (fhs u)(?n \<mapsto> fd)\<rparr>"
  have g: "grew [?n] s ?v" using u(2) cat_part_catalogue(1) [OF c] by (simp add: grew_def opened_file_def catalogue_def)
  have o: "openable (map (index_file ?n) (tm_indexes tab)) ?v"
    using openable_grew [of "[?n]" "map (index_file ?n) (tm_indexes tab)", OF _ _ g] assms(1,2) by (simp add: table_files_def)
  have f: "\<forall>ix \<in> set (tm_indexes tab). \<forall>f. os_files ?v (index_file ?n ix) = Some f \<longrightarrow> (\<exists>h. ix_deserialize (first_page f) 0 = Inr h)"
    using assms(3) u(2) by (simp add: index_files_ok_def opened_file_def)
  obtain t where t: "forE (tm_indexes tab) (open_table_index ?n) ?v = (Inr (), t)" "grew (map (index_file ?n) (tm_indexes tab)) ?v t"
    "fhs t = fhs ?v" "dom (ihs t) = dom (ihs ?v) \<union> index_file ?n ` set (tm_indexes tab)"
    using open_indexes_ok [OF o _ f] assms(2) by (auto simp: table_files_def)
  have "grew (table_files tab) s t" using grew_trans [OF g t(2)] by (simp add: table_files_def)
  then show ?thesis
    using t u(1,3) cat_part_catalogue(2) [OF c] by (simp add: open_table_def bindE_apply)
qed

lemma open_tables_ok:
  fixes s :: "'a sms_scheme"
  assumes "openable (concat (map table_files ts)) s" and "distinct (concat (map table_files ts))" and "\<forall>t \<in> set ts. index_files_ok (os_files s) t"
  shows "\<exists>t. forE ts (open_table junk) s = (Inr (), t) \<and> catalogue t = catalogue s \<and> os_files t = os_files s \<and>
    dom (fhs t) = dom (fhs s) \<union> tm_name ` set ts \<and> dom (ihs t) = dom (ihs s) \<union> (\<Union>x \<in> set ts. index_file (tm_name x) ` set (tm_indexes x))"
  using assms
proof (induction ts arbitrary: s)
  case (Cons x ts)
  have o: "openable (table_files x) s" using Cons.prems(1) by (simp add: openable_def)
  have d: "distinct (table_files x)" "set (table_files x) \<inter> set (concat (map table_files ts)) = {}" "distinct (concat (map table_files ts))"
    using Cons.prems(2) by simp_all
  have "index_files_ok (os_files s) x" using Cons.prems(3) by simp
  from open_table_ok [OF o d(1) this, of junk] obtain u where u: "open_table junk x s = (Inr (), u)" "grew (table_files x) s u"
    "dom (fhs u) = insert (tm_name x) (dom (fhs s))" "dom (ihs u) = dom (ihs s) \<union> index_file (tm_name x) ` set (tm_indexes x)"
    by (elim exE conjE) (rule that)
  have o': "openable (concat (map table_files ts)) u"
    by (rule openable_grew [OF _ d(2) u(2)]) (use Cons.prems(1) in simp)
  have same: "os_files u = os_files s" "catalogue u = catalogue s" using u(2) by (simp_all add: grew_def)
  have "\<forall>x \<in> set ts. index_files_ok (os_files u) x" using Cons.prems(3) same(1) by simp
  from Cons.IH [OF o' d(3) this] obtain t where t: "forE ts (open_table junk) u = (Inr (), t)" "catalogue t = catalogue s"
    "os_files t = os_files s" "dom (fhs t) = dom (fhs u) \<union> tm_name ` set ts"
    "dom (ihs t) = dom (ihs u) \<union> (\<Union>x \<in> set ts. index_file (tm_name x) ` set (tm_indexes x))"
    unfolding same by (elim exE conjE) (rule that)
  have "forE (x # ts) (open_table junk) s = (Inr (), t)" by (simp add: bindE_apply u(1) t(1))
  moreover have "dom (fhs t) = dom (fhs s) \<union> tm_name ` set (x # ts)" using t(4) u(3) by auto
  moreover have "dom (ihs t) = dom (ihs s) \<union> (\<Union>x \<in> set (x # ts). index_file (tm_name x) ` set (tm_indexes x))" using t(5) u(4) by auto
  ultimately show ?case using t(2,3) by blast
qed simp

text \<open>
  C26: the catalogue survives a restart. When \<open>flush_meta\<close> has written the meta file into the directory of a
  database, and later \<open>open_db\<close> enters that directory with no file open - the tables and the indexes of the
  catalogue there, under different names, the headers of the indexes in order - it succeeds: name, timestamp, tables,
  columns and indexes are those of the catalogue that was written, and exactly these tables and indexes get a handle.
\<close>

theorem reopen_restores_catalogue:
  fixes s u :: "'a sms_scheme"
  assumes "flush_meta s = (Inr (), t)" and "can_open s" and "db_wf (catalogue s)"
    and "\<not> os_inside u" and "os_here u = None" and "os_dirs u d = Some (os_files t)" and "db_tabs u = Map.empty"
    and "path2fd u = Map.empty" and "\<forall>S. 0 \<le> os_pick u S" and "fhs u = Map.empty" and "ihs u = Map.empty"
    and "distinct (concat (map table_files (tabs_in_order (db_tabs s))))"
    and "\<forall>x \<in> ran (db_tabs s). index_files_ok (os_files t) x \<and> set (table_files x) \<subseteq> dom (os_files t)"
  shows "\<exists>v. open_db junk_db junk d u = (Inr (), v) \<and> catalogue v = catalogue s \<and> dom (fhs v) = dom (db_tabs s) \<and>
    dom (ihs v) = (\<Union>x \<in> ran (db_tabs s). index_file (tm_name x) ` set (tm_indexes x))"
proof -
  let ?ts = "tabs_in_order (db_tabs s)"
  have wf: "finite (dom (db_tabs s))" "\<forall>k x. db_tabs s k = Some x \<longrightarrow> tm_name x = k"
    using assms(3) by (simp_all add: db_wf_def catalogue_def)
  have ts: "set ?ts = ran (db_tabs s)" by (rule tabs_in_order_facts(2) [OF wf(1)])
  have names: "tm_name ` ran (db_tabs s) = dom (db_tabs s)" using wf(2) by (force simp: ran_def dom_def image_def)
  have meta: "os_files t = (os_files s)(DB_META_NAME \<mapsto> file_of_text (db_text (catalogue s)))"
    using assms(1,2) by (auto simp: flush_meta_def ofstream_text_def)
  define e where "e = u\<lparr>os_files := os_files t, os_here := Some d, os_inside := True\<rparr>"
  have enter: "is_dir d u" "enter_dir d u = (Inr (), e)"
    using assms(4-6) by (auto simp: is_dir_def enter_dir_def e_def)
  define w where "w = set_catalogue (catalogue s) e"
  have w: "os_files w = os_files t" "path2fd w = Map.empty" "os_pick w = os_pick u" "fhs w = Map.empty" "ihs w = Map.empty"
    "catalogue w = catalogue s"
    using assms(8,10,11) by (simp_all add: w_def e_def set_catalogue_def catalogue_def)
  have "can_open e" using assms(9) by (simp add: can_open_def e_def)
  then have "Option.bind (ifstream_text DB_META_NAME e) (rd_db (db_tabs e)) = Some (catalogue s, newline)"
    using catalogue_roundtrip [OF assms(3)] assms(7) by (simp add: ifstream_text_def e_def meta)
  then have o: "open_db junk_db junk d u = forE ?ts (open_table junk) w"
    by (simp add: open_db_def enter bindE_apply w_def) (simp add: catalogue_def)
  have "openable (concat (map table_files ?ts)) w"
    using assms(9,13) w(1-3) ts by (fastforce simp: openable_def)
  from open_tables_ok [OF this assms(12), of junk] obtain v where "forE ?ts (open_table junk) w = (Inr (), v)" "catalogue v = catalogue w"
    "dom (fhs v) = dom (fhs w) \<union> tm_name ` set ?ts" "dom (ihs v) = dom (ihs w) \<union> (\<Union>x \<in> set ?ts. index_file (tm_name x) ` set (tm_indexes x))"
    using assms(13) ts w(1) by auto
  then show ?thesis using o w(4-6) ts names by auto
qed

section \<open>A database with one table and one index\<close>

definition demo_index_file :: os_file where
  "demo_index_file = \<lparr>fsize = 4096, fbytes = projr (ix_serialize demo_ix zero_mem 0)\<rparr>"

definition demo_files :: "string \<rightharpoonup> os_file" where
  "demo_files = [''t'' \<mapsto> empty_file, ''t_x.idx'' \<mapsto> demo_index_file]"

definition demo_before :: sms where
  "demo_before = set_catalogue demo_catalogue demo_process\<lparr>os_files := demo_files, os_here := Some ''db'', os_inside := True\<rparr>"

definition demo_after :: sms where
  "demo_after = demo_process\<lparr>os_dirs := [''db'' \<mapsto> os_files (snd (flush_meta demo_before))]\<rparr>"

lemma demo_index_header: "ix_deserialize (first_page demo_index_file) 0 = Inr demo_ix"
  by code_simp


theorem reopen_restores_catalogue_witness:
  "\<exists>v. open_db demo_catalogue zero_mem ''db'' demo_after = (Inr (), v) \<and> catalogue v = demo_catalogue \<and> dom (fhs v) = {''t''} \<and>
    dom (ihs v) = {''t_x.idx''}"
proof -
  have c: "catalogue demo_before = demo_catalogue" "db_tabs demo_before = dbm_tabs demo_catalogue"
    by (simp_all add: demo_before_def catalogue_def set_catalogue_def)
  have ts: "tabs_in_order (dbm_tabs demo_catalogue) = [the (dbm_tabs demo_catalogue ''t'')]"
    by (simp add: tabs_in_order_def demo_catalogue_def Let_def)
  have o: "can_open demo_before" by (simp add: can_open_def demo_before_def set_catalogue_def Max_insert_fresh)
  obtain t where t: "flush_meta demo_before = (Inr (), t)" "t = snd (flush_meta demo_before)" by (simp add: flush_meta_def)
  have files: "os_files t = demo_files(DB_META_NAME \<mapsto> file_of_text (db_text demo_catalogue))"
    using o by (simp add: t(2) flush_meta_def ofstream_text_def c) (simp add: demo_before_def)
  have wf: "db_wf (catalogue demo_before)"
    unfolding c by (rule demo_catalogue_wf)
  have a: "os_files demo_after = Map.empty" "os_dirs demo_after = [''db'' \<mapsto> os_files t]" "\<not> os_inside demo_after" "os_here demo_after = None"
    "db_tabs demo_after = Map.empty" "path2fd demo_after = Map.empty" "fhs demo_after = Map.empty" "ihs demo_after = Map.empty"
    "\<forall>S. 0 \<le> os_pick demo_after S"
    by (simp_all add: demo_after_def t(2) le_max_iff_disj)
  let ?x = "the (dbm_tabs demo_catalogue ''t'')"
  have x: "ran (dbm_tabs demo_catalogue) = {?x}" "dom (dbm_tabs demo_catalogue) = {''t''}" "tm_name ?x = ''t''"
    "index_file ''t'' ` set (tm_indexes ?x) = {''t_x.idx''}" "table_files ?x = [''t'', ''t_x.idx'']"
    by (simp_all add: demo_catalogue_def Let_def index_file_def get_index_name_def table_files_def)
  have ix: "\<forall>ix \<in> set (tm_indexes ?x). index_file ''t'' ix = ''t_x.idx''" using x(4) by blast
  have "index_files_ok (os_files t) ?x \<and> set (table_files ?x) \<subseteq> dom (os_files t)"
    using demo_index_header ix by (auto simp: index_files_ok_def x files demo_files_def DB_META_NAME_def)
  then show ?thesis
    using reopen_restores_catalogue [OF t(1) o wf, of demo_after "''db''" demo_catalogue zero_mem] a
    by (simp add: c ts x)
qed

end
