(* ===== verification/ReadFrame.thy ===== *)
theory ReadFrame
  imports VersionHistory Exec
begin

text \<open>
  What a read returns does not depend on which pages the pool happens to hold: \<open>get_record\<close> and \<open>get_record_mvcc\<close>
  look at the record, the header of its file and the transactions, and leave all of them as they are. So the rows of a
  query can be named by the state in which it begins (\<open>row_read\<close>).
\<close>

section \<open>Operations that look at transactions only\<close>

definition looks :: "('a dbs_scheme, 'b) op \<Rightarrow> bool" where
  "looks m \<longleftrightarrow> (\<forall>s t. txn_part t = txn_part s \<longrightarrow> fst (m t) = fst (m s)) \<and> (\<forall>s. snd (m s) = s)"

named_theorems looking "operations that look at the transactions only"

lemma looks_apply: "looks m \<Longrightarrow> txn_part t = txn_part s \<Longrightarrow> m t = (fst (m s), t)"
  unfolding looks_def by (metis prod.collapse)

lemma looks_basic [looking]: "looks (ret x)" "looks (raise e)"
  by (simp_all add: looks_def)

lemma looks_bindE [looking]:
  assumes "looks m" and "\<And>x. looks (k x)"
  shows "looks (bindE m k)"
  unfolding looks_def
proof (intro conjI allI impI)
  fix s t :: "'a dbs_scheme" assume p: "txn_part t = txn_part s"
  have "fst (k x t) = fst (k x s)" for x using assms(2) p unfolding looks_def by blast
  then show "fst (bindE m k t) = fst (bindE m k s)"
    using looks_apply [OF assms(1) p] looks_apply [OF assms(1), of s s] by (cases "fst (m s)") (simp_all add: bindE_apply split: prod.splits)
next
  fix s :: "'a dbs_scheme"
  have "snd (k x s) = s" for x using assms(2) unfolding looks_def by blast
  then show "snd (bindE m k s) = s"
    using looks_apply [OF assms(1), of s s] by (cases "fst (m s)") (simp_all add: bindE_apply split: prod.splits)
qed

lemma looks_getS [looking]:
  assumes "\<And>s t. txn_part t = txn_part s \<Longrightarrow> k t = k s" and "\<And>s. looks (k s)"
  shows "looks (bindE getS k)"
  unfolding looks_def
proof (intro conjI allI impI)
  fix s t :: "'a dbs_scheme" assume p: "txn_part t = txn_part s"
  have "fst (k s t) = fst (k s s)" using assms(2) p unfolding looks_def by blast
  then show "fst (bindE getS k t) = fst (bindE getS k s)" using assms(1) [OF p] by (simp add: bindE_apply)
next
  fix s :: "'a dbs_scheme"
  show "snd (bindE getS k s) = s" using assms(2) [of s] by (simp add: bindE_apply looks_def)
qed

lemma looks_cases [looking]:
  "looks m \<Longrightarrow> looks n \<Longrightarrow> looks (if b then m else n)"
  "looks m \<Longrightarrow> (\<And>x. looks (k x)) \<Longrightarrow> looks (case z of None \<Rightarrow> m | Some x \<Rightarrow> k x)"
  by (simp_all split: option.split)

lemma looks_txn_at [looking]: "looks (txn_at i)"
  unfolding looks_def
proof (intro conjI allI impI)
  fix s t :: "'a txnm_scheme" assume "txn_part t = txn_part s"
  then have "txn_heap t = txn_heap s" by (rule part_sel(1))
  then show "fst (txn_at i t) = fst (txn_at i s)" by (simp add: txn_at_def split: option.split)
next
  fix s :: "'a txnm_scheme"
  show "snd (txn_at i s) = s" by (simp add: txn_at_def split: option.split)
qed

lemma looks_by_timestamp [looking]: "looks (get_transaction_by_timestamp ts)"
proof -
  have f: "looks (find_timestamp ts xs :: ('a txnm_scheme, _) op)" for xs
    unfolding looks_def by (metis find_timestamp_part fst_conv)
  have "find_timestamp ts (iter_order t (txn_map t)) = (find_timestamp ts (iter_order s (txn_map s)) :: ('a txnm_scheme, _) op)"
    if "txn_part t = txn_part s" for s t :: "'a txnm_scheme"
    using part_sel [OF that] by simp
  then show ?thesis unfolding get_transaction_by_timestamp_def by (intro looks_getS f)
qed

lemma looks_IsCommitted [looking]: "looks (IsCommitted ts)"
  unfolding IsCommitted_def
proof (rule looks_getS)
  fix s t :: "'a txnm_scheme" assume p: "txn_part t = txn_part s"
  note e = part_sel [OF p]
  show "(if ts = 0 then ret True else if ts \<in> aborted_txns t then ret False
      else bindE (get_transaction_by_timestamp ts) (\<lambda>txn. case txn of Some i \<Rightarrow> bindE (txn_at i) (\<lambda>t. ret (txn_state t = COMMITTED))
        | None \<Rightarrow> if ts < txnm_GetWatermark t then ret (ts \<notin> aborted_txns t) else ret False)) =
    ((if ts = 0 then ret True else if ts \<in> aborted_txns s then ret False
      else bindE (get_transaction_by_timestamp ts) (\<lambda>txn. case txn of Some i \<Rightarrow> bindE (txn_at i) (\<lambda>t. ret (txn_state t = COMMITTED))
        | None \<Rightarrow> if ts < txnm_GetWatermark s then ret (ts \<notin> aborted_txns s) else ret False)) :: ('a txnm_scheme, bool) op)"
    by (simp only: e txnm_GetWatermark_def)
qed (intro looking)

lemma looks_IsCommittedBefore [looking]: "looks (IsCommittedBeforeReadTs ts a)"
  unfolding looks_def
proof (intro conjI allI impI)
  fix s t :: "'a txnm_scheme" assume "txn_part t = txn_part s"
  then show "fst (IsCommittedBeforeReadTs ts a t) = fst (IsCommittedBeforeReadTs ts a s)" by (rule visible_part)
next
  fix s :: "'a txnm_scheme"
  show "snd (IsCommittedBeforeReadTs ts a s) = s"
    using looks_apply [OF looks_by_timestamp [of ts], of s s]
    by (auto simp: IsCommittedBeforeReadTs_def bindE_apply txn_at_def split: option.split prod.splits sum.split)
qed

section \<open>The chain\<close>

lemma looks_visit [looking]: "looks (visit_version h start l)"
  unfolding visit_version_def ReconstructTupleFromUndoLog_def new_record_def Let_def by (intro looking)

lemma walk_chain_part_half:
  assumes "walk_chain h start s link = Some y" and p: "txn_part t = txn_part s"
  shows "walk_chain h start t link = Some y"
proof -
  have "txn_part t = txn_part s \<longrightarrow> walk_chain h start t link = Some y"
  proof (rule walk_chain.raw_induct [of "\<lambda>h start s link y. txn_part t = txn_part s \<longrightarrow> walk_chain h start t link = Some y", OF _ assms(1)], goal_cases)
    case (1 loop h start s link y)
    show ?case
    proof
      assume p: "txn_part t = txn_part s"
      have g: "fst (GetUndoLogOptional link t) = fst (GetUndoLogOptional link s)" by (rule undo_log_part [OF p])
      have v: "fst (visit_version h start l t) = fst (visit_version h start l s)" for l
        using looks_visit p unfolding looks_def by blast
      show "walk_chain h start t link = Some y"
      proof (cases "fst (GetUndoLogOptional link s)")
        case (Inl e)
        then show ?thesis using 1(2) by (subst walk_chain.simps) (simp add: g)
      next
        case (Inr z)
        show ?thesis
        proof (cases z)
          case None
          then show ?thesis using 1(2) Inr by (subst walk_chain.simps) (simp add: g)
        next
          case (Some l)
          show ?thesis
          proof (cases "fst (visit_version h start l s) = Inr None")
            case True
            then have "loop h start s (prev_version l) = Some y" using 1(2) Inr Some by simp
            from mp [OF 1(1) [OF this] p] show ?thesis using Inr Some True by (subst walk_chain.simps) (simp add: g v)
          next
            case False
            then show ?thesis using 1(2) Inr Some by (subst walk_chain.simps) (auto simp: g v split: sum.splits option.splits)
          qed
        qed
      qed
    qed
  qed
  then show ?thesis using p by blast
qed

lemma walk_chain_part:
  assumes p: "txn_part t = txn_part s"
  shows "walk_chain h start t link = walk_chain h start s link"
  using walk_chain_part_half [OF _ p] walk_chain_part_half [OF _ p [symmetric]] by (metis not_None_eq)

lemma looks_chain [looking]: "looks (chain_version h start link)"
  unfolding looks_def
proof (intro conjI allI impI)
  fix s t :: "'a txnm_scheme" assume "txn_part t = txn_part s"
  then have "walk_chain h start t link = walk_chain h start s link" by (rule walk_chain_part)
  then show "fst (chain_version h start link t) = fst (chain_version h start link s)"
    by (simp add: chain_version_def split: option.split)
next
  fix s :: "'a txnm_scheme"
  show "snd (chain_version h start link s) = s" by (simp add: chain_version_def split: option.split)
qed

section \<open>Reads of a file\<close>

text \<open>\<open>like fd s w\<close>: what a read of the file looks at is the same.\<close>

definition like :: "int \<Rightarrow> 'a dbs_scheme \<Rightarrow> 'a dbs_scheme \<Rightarrow> bool" where
  "like fd s w \<longleftrightarrow> rm_ok fd w \<and> file_hdrs w fd = file_hdrs s fd \<and> table fd w = table fd s \<and> txn_part w = txn_part s"

lemma likeD:
  assumes "like fd s w"
  shows "rm_ok fd w" and "file_hdrs w fd = file_hdrs s fd" and "table fd w = table fd s" and "txn_part w = txn_part s"
  using assms by (simp_all add: like_def)

lemma like_unchanged: "like fd s w \<Longrightarrow> unchanged fd w u \<Longrightarrow> like fd s u"
  using unchangedD [of fd w u] only_file_part [of fd w u] by (simp add: like_def)

text \<open>\<open>steady fd s m\<close>: in every such state \<open>m\<close> has the same result and changes nothing.\<close>

definition steady :: "int \<Rightarrow> 'a dbs_scheme \<Rightarrow> ('a dbs_scheme, 'b) op \<Rightarrow> bool" where
  "steady fd s m \<longleftrightarrow> (\<exists>x. \<forall>w. like fd s w \<longrightarrow> (\<exists>u. m w = (x, u) \<and> unchanged fd w u))"

lemma steadyI: "(\<And>w. like fd s w \<Longrightarrow> \<exists>u. m w = (x, u) \<and> unchanged fd w u) \<Longrightarrow> steady fd s m"
  unfolding steady_def by blast

lemma steady_looks:
  assumes "looks m"
  shows "steady fd s m"
proof (rule steadyI)
  fix w assume w: "like fd s w"
  show "\<exists>u. m w = (fst (m s), u) \<and> unchanged fd w u"
    using looks_apply [OF assms likeD(4) [OF w]] unchanged_refl [OF likeD(1) [OF w]] by blast
qed

lemma steady_bindE:
  assumes "steady fd s m" and "\<And>x. steady fd s (k x)"
  shows "steady fd s (bindE m k)"
proof -
  obtain x where x: "\<And>w. like fd s w \<Longrightarrow> \<exists>u. m w = (x, u) \<and> unchanged fd w u" using assms(1) unfolding steady_def by blast
  show ?thesis
  proof (cases x)
    case (Inl e)
    show ?thesis by (rule steadyI [of fd s _ "Inl e"]) (use x Inl in \<open>fastforce simp: bindE_apply\<close>)
  next
    case (Inr a)
    obtain y where y: "\<And>w. like fd s w \<Longrightarrow> \<exists>u. k a w = (y, u) \<and> unchanged fd w u" using assms(2) [of a] unfolding steady_def by blast
    show ?thesis
    proof (rule steadyI)
      fix w assume w: "like fd s w"
      obtain u where u: "m w = (Inr a, u)" "unchanged fd w u" using x [OF w] Inr by blast
      obtain v where v: "k a u = (y, v)" "unchanged fd u v" using y [OF like_unchanged [OF w u(2)]] by blast
      show "\<exists>u. bindE m k w = (y, u) \<and> unchanged fd w u"
        using u v unchanged_trans [OF u(2) v(2)] by (simp add: bindE_apply)
    qed
  qed
qed

lemma steady_if: "steady fd s m \<Longrightarrow> steady fd s n \<Longrightarrow> steady fd s (if b then m else n)"
  by simp

lemma steady_option: "steady fd s m \<Longrightarrow> (\<And>x. steady fd s (k x)) \<Longrightarrow> steady fd s (case z of None \<Rightarrow> m | Some x \<Rightarrow> k x)"
  by (simp split: option.split)

lemma steady_getS:
  assumes "\<And>w. like fd s w \<Longrightarrow> k w = m" and "steady fd s m"
  shows "steady fd s (bindE getS k)"
  using assms unfolding steady_def by (simp add: bindE_apply)

lemma steady_tryE:
  assumes "steady fd s m" and "steady fd s h"
  shows "steady fd s (tryE m h)"
proof -
  obtain x where x: "\<And>w. like fd s w \<Longrightarrow> \<exists>u. m w = (x, u) \<and> unchanged fd w u" using assms(1) unfolding steady_def by blast
  show ?thesis
  proof (cases "\<exists>e. x = Inl e \<and> cxx_exception e")
    case True
    obtain y where y: "\<And>w. like fd s w \<Longrightarrow> \<exists>u. h w = (y, u) \<and> unchanged fd w u" using assms(2) unfolding steady_def by blast
    show ?thesis
    proof (rule steadyI)
      fix w assume w: "like fd s w"
      obtain u where u: "m w = (x, u)" "unchanged fd w u" using x [OF w] by blast
      obtain v where v: "h u = (y, v)" "unchanged fd u v" using y [OF like_unchanged [OF w u(2)]] by blast
      show "\<exists>u. tryE m h w = (y, u) \<and> unchanged fd w u"
        using True u v unchanged_trans [OF u(2) v(2)] by (auto simp: tryE_def)
    qed
  next
    case False
    show ?thesis
    proof (rule steadyI)
      fix w assume w: "like fd s w"
      obtain u where "m w = (x, u)" "unchanged fd w u" using x [OF w] by blast
      then show "\<exists>u. tryE m h w = (x, u) \<and> unchanged fd w u" using False by (cases x) (auto simp: tryE_def)
    qed
  qed
qed

text \<open>Records of at least sixteen bytes; in MVCC mode all are.\<close>

definition readable :: "int \<Rightarrow> rid \<Rightarrow> 'a dbs_scheme \<Rightarrow> bool" where
  "readable fd r s \<longleftrightarrow> r \<in> dom (table fd s) \<and> (\<forall>h. file_hdrs s fd = Some h \<longrightarrow> 16 \<le> record_size h)"

lemma ctx_mvcc_part: "txn_part t = txn_part s \<Longrightarrow> ctx_mvcc ctx t = ctx_mvcc ctx s"
  by (auto simp: ctx_mvcc_def txn_part_def split: option.splits)

lemma readable_at:
  assumes "readable fd r s" and w: "like fd s w"
  obtains h v where "file_hdrs w fd = Some h" and "file_hdrs s fd = Some h" and "16 \<le> record_size h"
    and "table fd w r = Some v" and "table fd s r = Some v"
proof -
  obtain h where "file_hdrs w fd = Some h" using likeD(1) [OF w] by (auto simp: rm_ok_def)
  moreover obtain v where "table fd s r = Some v" using assms(1) by (auto simp: readable_def)
  ultimately show ?thesis using that likeD(2,3) [OF w] assms(1) by (simp add: readable_def)
qed

lemma steady_get_record:
  assumes r: "readable fd r s"
  shows "steady fd s (get_record fd r ctx)"
proof (rule steadyI)
  fix w assume w: "like fd s w"
  obtain h v where h: "file_hdrs w fd = Some h" "16 \<le> record_size h" and v: "table fd w r = Some v" "table fd s r = Some v"
    by (rule readable_at [OF r w])
  note raw = table_raw [OF v(1)]
  obtain u where "get_record fd r ctx w = (Inr (Some (shown (ctx_mvcc ctx w) (raw_slot fd r w))), u)" "unchanged fd w u"
    using get_record_spec [OF likeD(1) [OF w] h(1), of r ctx] raw h(2) by blast
  then show "\<exists>u. get_record fd r ctx w = (Inr (Some (shown (ctx_mvcc ctx s) (the (table fd s r)))), u) \<and> unchanged fd w u"
    using raw v ctx_mvcc_part [OF likeD(4) [OF w], of ctx] by simp
qed

lemma steady_fh_hdr:
  assumes "readable fd r s"
  shows "steady fd s (bindE (fh_hdr fd) k) \<longleftrightarrow> (\<forall>h. file_hdrs s fd = Some h \<longrightarrow> steady fd s (k h))"
proof -
  have "bindE (fh_hdr fd) k w = k h w" if w: "like fd s w" and h: "file_hdrs s fd = Some h" for w h
    using fh_hdr_eq [of w fd h] likeD(2) [OF w] h by (simp add: bindE_apply)
  then have "steady fd s (bindE (fh_hdr fd) k) = steady fd s (k h)" if "file_hdrs s fd = Some h" for h
    using that unfolding steady_def by (metis (no_types, lifting))
  moreover have "steady fd s m" if "file_hdrs s fd = None" for m :: "('a dbs_scheme, 'b) op"
    using that likeD(1,2) by (intro steadyI) (fastforce simp: rm_ok_def)
  ultimately show ?thesis by (cases "file_hdrs s fd") auto
qed

lemma steady_initial:
  assumes r: "readable fd r s"
  shows "steady fd s (initial_version fd r start)"
proof -
  have k: "looks (let b = int (length v) \<noteq> record_size h - sizeof_TupleMeta
          in bindE (if b then read_meta v else ret initial_meta) (\<lambda>meta.
             bindE (if meta_ts meta = 0 then ret True
                    else if meta_ts meta \<le> start
                    then bindE (IsCommittedBeforeReadTs (meta_ts meta) start) (\<lambda>c. ret (c \<and> \<not> meta_deleted meta))
                    else ret False) (\<lambda>vis. ret (if vis then Some (data_part b v) else None))))" for v h
    unfolding Let_def read_meta_def memcpy_from_def by (intro looking)
  show ?thesis
    unfolding initial_version_def
  proof (intro steady_tryE steady_bindE steady_get_record [OF r] steady_looks [OF looks_basic(1)])
    show "steady fd s (case raw of None \<Rightarrow> ret None | Some v \<Rightarrow>
          bindE (fh_hdr fd) (\<lambda>h.
          let has_tuple_meta = (int (length v) \<noteq> record_size h - sizeof_TupleMeta)
          in bindE (if has_tuple_meta then read_meta v else ret initial_meta) (\<lambda>meta.
             bindE (if meta_ts meta = 0 then ret True
                    else if meta_ts meta \<le> start
                    then bindE (IsCommittedBeforeReadTs (meta_ts meta) start) (\<lambda>c. ret (c \<and> \<not> meta_deleted meta))
                    else ret False) (\<lambda>vis.
             ret (if vis then Some (data_part has_tuple_meta v) else None)))))" for raw
    proof (cases raw)
      case (Some v)
      show ?thesis unfolding Some option.case steady_fh_hdr [OF r] using steady_looks [OF k [of v]] by blast
    qed (simp add: steady_looks looks_basic)
  qed
qed

lemma version_link_part: "txn_part t = txn_part s \<Longrightarrow> GetVersionLink r t = GetVersionLink r s"
  using part_sel(4) [of t s] by (simp add: GetVersionLink_def)

lemma steady_history:
  assumes r: "readable fd r s"
  shows "steady fd s (GetVisibleVersionFromHistory fd r i)"
  unfolding GetVisibleVersionFromHistory_def
proof (rule steady_bindE [OF steady_looks [OF looks_txn_at]])
  fix t
  let ?k = "\<lambda>z. case z of None \<Rightarrow> initial_version fd r (start_ts t)
     | Some link \<Rightarrow>
         bindE (tryE (bindE (fh_hdr fd) (\<lambda>h. chain_version h (start_ts t) (first_undo link))) (ret None)) (\<lambda>found.
         case found of Some v \<Rightarrow> ret v | None \<Rightarrow> initial_version fd r (start_ts t))"
  have "steady fd s (?k z)" for z
  proof (cases z)
    case (Some link)
    have "steady fd s (case found of Some v \<Rightarrow> ret v | None \<Rightarrow> initial_version fd r (start_ts t))" for found
      using steady_initial [OF r] by (cases found) (simp_all add: steady_looks looks_basic)
    moreover have "steady fd s (tryE (bindE (fh_hdr fd) (\<lambda>h. chain_version h (start_ts t) (first_undo link))) (ret None))"
      by (intro steady_tryE steady_looks [OF looks_basic(1)]) (simp add: steady_fh_hdr [OF r] steady_looks looks_chain)
    ultimately show ?thesis using Some by (simp add: steady_bindE)
  qed (simp add: steady_initial [OF r])
  then show "steady fd s (bindE getS (\<lambda>w. ?k (GetVersionLink r w)))"
    by (intro steady_getS [of fd s _ "?k (GetVersionLink r s)"]) (simp_all add: version_link_part [OF likeD(4)])
qed

text \<open>\<open>get_record_mvcc\<close> is a choice among what the record, the transactions and the chain say.\<close>

lemma steady_choose:
  assumes "steady fd s hist"
  shows "steady fd s (choose_version i meta data hist)"
proof -
  note leaves = looks_basic looks_txn_at looks_by_timestamp looks_IsCommitted looks_IsCommittedBefore
  note cases = steady_if steady_option steady_bindE leaves [THEN steady_looks]
  have ab: "steady fd s (bindE getS (\<lambda>w. if is_transaction_aborted ts w then m else n))" if "steady fd s m" "steady fd s n" for m n and ts
  proof (rule steady_getS [of fd s _ "if is_transaction_aborted ts s then m else n"])
    show "(if is_transaction_aborted ts w then m else n) = (if is_transaction_aborted ts s then m else n)" if "like fd s w" for w
      using part_sel(7) [OF likeD(4) [OF that]] by (simp add: is_transaction_aborted_def)
  qed (use that in simp)
  show ?thesis
    unfolding choose_version_def by (intro cases ab assms)
qed

lemma steady_get_record_mvcc:
  assumes r: "readable fd r s"
  shows "steady fd s (get_record_mvcc fd r ctx)"
proof -
  let ?txn = "case ctx of None \<Rightarrow> None | Some c \<Rightarrow> if ctx_mvcc ctx s then ctx_txn c else None"
  have t: "(case ctx of None \<Rightarrow> None | Some c \<Rightarrow> if ctx_mvcc ctx w then ctx_txn c else None) = ?txn" if "like fd s w" for w
    using ctx_mvcc_part [OF likeD(4) [OF that], of ctx] by (cases ctx) simp_all
  show ?thesis
  proof (cases ?txn)
    case None
    show ?thesis unfolding get_record_mvcc_def
      by (rule steady_getS [OF _ steady_get_record [OF r, of ctx]]) (simp add: t None)
  next
    case (Some i)
    let ?raw = "the (table fd s r)"
    let ?meta = "if reasonable_ts (meta_of_bytes (take 16 ?raw)) (next_timestamp s) then meta_of_bytes (take 16 ?raw) else initial_meta"
    let ?data = "data_part (reasonable_ts (meta_of_bytes (take 16 ?raw)) (next_timestamp s)) ?raw"
    obtain x where x: "\<And>w. like fd s w \<Longrightarrow> \<exists>u. choose_version i ?meta ?data (GetVisibleVersionFromHistory fd r i) w = (x, u) \<and> unchanged fd w u"
      using steady_choose [OF steady_history [OF r, of i]] unfolding steady_def by blast
    show ?thesis
    proof (rule steadyI)
      fix w assume w: "like fd s w"
      obtain h v where h: "file_hdrs w fd = Some h" "16 \<le> record_size h" and v: "table fd w r = Some v" "table fd s r = Some v"
        by (rule readable_at [OF r w])
      note l = table_length [OF likeD(1) [OF w] h(1) v(1)]
      obtain f t' u where t': "fetch_page_handle fd (rid_page_no r) w = (Inr (Some f), t')" "file_hdrs t' fd = Some h"
        "page_trunc (page_mem f t') = rm_page fd (rid_page_no r) w" "only_file fd w t'"
        and u: "unpin_frame f False t' = (Inr (), u)" "unchanged fd w u"
        by (rule peek_spec [OF likeD(1) [OF w] h(1) l(2)])
      have raw: "mem_read (page_mem f t') (get_slot h (rid_slot_no r)) (nat (record_size h)) = v"
        using slot_bytes_view [OF l(4,3) t'(3)] table_raw [OF v(1)] by (simp add: raw_slot_def h)
      have nt: "next_timestamp t' = next_timestamp s"
        using part_sel(5) [OF only_file_part [OF t'(4)]] part_sel(5) [OF likeD(4) [OF w]] by simp
      have len: "16 \<le> length v" "16 \<le> nat (record_size h)" "\<not> record_size h < 0" using l(1) h(2) by simp_all
      have eq: "get_record_mvcc fd r ctx w = choose_version i ?meta ?data (GetVisibleVersionFromHistory fd r i) u"
        using len v(2) t [OF w] Some
        by (simp add: get_record_mvcc_def bindE_apply t'(1) fh_hdr_eq [OF t'(2)] new_record_def raw u(1) read_meta_def memcpy_from_def nt Let_def)
      obtain z where z: "get_record_mvcc fd r ctx w = (x, z)" "unchanged fd u z"
        using x [OF like_unchanged [OF w u(2)]] unfolding eq by blast
      show "\<exists>u. get_record_mvcc fd r ctx w = (x, u) \<and> unchanged fd w u"
        using z unchanged_trans [OF u(2) z(2)] by blast
    qed
  qed
qed

end
