(* ===== verification/ExecScan.thy ===== *)
theory ExecScan
  imports Exec ReadFrame RecordScan
begin

text \<open>
  The sequential scan, \<^verbatim>\<open>execution/executor_seq_scan.h\<close>: an \<open>RmScan\<close> over the table that stops at the records
  which the reader may see and which satisfy the conditions. In either mode it is a source (\<open>tuple_source\<close>) for those
  records of the table, in the version the reader gets, in the order of their identifiers.
\<close>

section \<open>The executor\<close>

record seq_scan_obj =
  ss_rid :: rid
  ss_scan :: "rid option"

definition scan_record :: "int \<Rightarrow> Context option \<Rightarrow> rid \<Rightarrow> ('a txnm_scheme, byte list option) op" where
  "scan_record fd ctx r = bindE getS (\<lambda>s. if ctx_mvcc ctx s then get_record_mvcc fd r ctx else get_record fd r ctx)"

text \<open>One round of the loops of \<open>beginTuple\<close> and \<open>nextTuple\<close>; strings are compared by \<open>memcmp\<close>.\<close>

datatype probe = AtEnd | Hit | Go rid

definition scan_probe :: "int \<Rightarrow> ColMeta list \<Rightarrow> Condition list \<Rightarrow> Context option \<Rightarrow> rid \<Rightarrow> ('a txnm_scheme, probe) op" where
  "scan_probe fd cols conds ctx pos = bindE (rm_scan_is_end fd pos) (\<lambda>e.
     if e then ret AtEnd
     else bindE (scan_record fd ctx pos) (\<lambda>rec.
       let advance = bindE (rm_scan_next fd pos) (\<lambda>p. ret (Go p))
       in case rec of
            None \<Rightarrow> advance
          | Some v \<Rightarrow> (case eval_conds (\<lambda>x. x) conds v cols of
                         Inl e \<Rightarrow> raise e
                       | Inr b \<Rightarrow> if b then ret Hit else advance)))"

partial_function (option) seek ::
  "int \<Rightarrow> ColMeta list \<Rightarrow> Condition list \<Rightarrow> Context option \<Rightarrow> rid \<Rightarrow> rid \<Rightarrow> 'a txnm_scheme \<Rightarrow>
    ((db_error + seq_scan_obj) \<times> 'a txnm_scheme) option" where
  "seek fd cols conds ctx cur pos s =
     (case scan_probe fd cols conds ctx pos s of
        (Inl e, t) \<Rightarrow> Some (Inl e, t)
      | (Inr AtEnd, t) \<Rightarrow> Some (Inr \<lparr>ss_rid = cur, ss_scan = Some pos\<rparr>, t)
      | (Inr Hit, t) \<Rightarrow> Some (Inr \<lparr>ss_rid = pos, ss_scan = Some pos\<rparr>, t)
      | (Inr (Go p), t) \<Rightarrow> seek fd cols conds ctx cur p t)"

definition seek_op :: "int \<Rightarrow> ColMeta list \<Rightarrow> Condition list \<Rightarrow> Context option \<Rightarrow> rid \<Rightarrow> rid \<Rightarrow> ('a txnm_scheme, seq_scan_obj) op" where
  "seek_op fd cols conds ctx cur pos = (\<lambda>s. returned (seek fd cols conds ctx cur pos s) s)"

definition make_obj :: "('w, 'o) op \<Rightarrow> ('o \<times> 'w, unit) op" where
  "make_obj m = (\<lambda>(o1, w). case m w of (Inl e, w') \<Rightarrow> (Inl e, (o1, w')) | (Inr o', w') \<Rightarrow> (Inr (), (o', w')))"

definition with_scan :: "(rid \<Rightarrow> ('w, 'a) op) \<Rightarrow> (seq_scan_obj \<times> 'w, 'a) op" where
  "with_scan k = (\<lambda>(o1, w). case ss_scan o1 of
     None \<Rightarrow> (Inl NullDereference, (o1, w))
   | Some pos \<Rightarrow> (case k pos w of (r, w') \<Rightarrow> (r, (o1, w'))))"

definition seq_scan :: "int \<Rightarrow> ColMeta list \<Rightarrow> Condition list \<Rightarrow> Context option \<Rightarrow> int \<Rightarrow> (seq_scan_obj, 'a txnm_scheme) executor" where
  "seq_scan fd cols conds ctx len =
     \<lparr>ex_begin = (\<lambda>(o1, w). make_obj (bindE (rm_scan_begin fd) (seek_op fd cols conds ctx (ss_rid o1))) (o1, w)),
      ex_step = (\<lambda>(o1, w). case ss_scan o1 of
          None \<Rightarrow> (Inl NullDereference, (o1, w))
        | Some pos \<Rightarrow> make_obj (bindE (rm_scan_next fd pos) (seek_op fd cols conds ctx (ss_rid o1))) (o1, w)),
      ex_end = with_scan (rm_scan_is_end fd),
      ex_fetch = (\<lambda>(o1, w). case scan_record fd ctx (ss_rid o1) w of (r, w') \<Rightarrow> (r, (o1, w'))),
      ex_rid = ss_rid, ex_cols = cols, ex_len = len\<rparr>"

section \<open>The rows of a scan\<close>

text \<open>
  The identifiers of a table in order. \<open>row_read\<close> is what \<open>get_record\<close>, in MVCC mode \<open>get_record_mvcc\<close>, returns for one of
  them when the query begins: a row, nothing when no version may be seen, or an exception.
\<close>

definition rids_of :: "(rid \<rightharpoonup> byte list) \<Rightarrow> rid list" where
  "rids_of m = sorted_list_of_set (dom m)"

definition row_read :: "int \<Rightarrow> Context option \<Rightarrow> 'a txnm_scheme \<Rightarrow> rid \<Rightarrow> db_error + byte list option" where
  "row_read fd ctx s r = fst (scan_record fd ctx r s)"

definition row_at :: "int \<Rightarrow> Context option \<Rightarrow> 'a txnm_scheme \<Rightarrow> rid \<Rightarrow> byte list" where
  "row_at fd ctx s r = (case row_read fd ctx s r of Inr (Some v) \<Rightarrow> v | _ \<Rightarrow> [])"

definition row_ok :: "ColMeta list \<Rightarrow> Condition list \<Rightarrow> byte list \<Rightarrow> bool" where
  "row_ok cols conds v \<longleftrightarrow> eval_conds (\<lambda>x. x) conds v cols = Inr True"

definition hit :: "int \<Rightarrow> ColMeta list \<Rightarrow> Condition list \<Rightarrow> Context option \<Rightarrow> 'a txnm_scheme \<Rightarrow> rid \<Rightarrow> bool" where
  "hit fd cols conds ctx s r = (case row_read fd ctx s r of Inr (Some v) \<Rightarrow> row_ok cols conds v | _ \<Rightarrow> False)"

definition scan_rows :: "int \<Rightarrow> ColMeta list \<Rightarrow> Condition list \<Rightarrow> Context option \<Rightarrow> 'a txnm_scheme \<Rightarrow> byte list list" where
  "scan_rows fd cols conds ctx s = map (row_at fd ctx s) (filter (hit fd cols conds ctx s) (rids_of (table fd s)))"

text \<open>
  The file is sound, its records have at least sixteen bytes (in MVCC mode all have), no read of them throws, and the
  conditions can be evaluated on every row that is read.
\<close>

definition scan_ok :: "int \<Rightarrow> ColMeta list \<Rightarrow> Condition list \<Rightarrow> Context option \<Rightarrow> 'a txnm_scheme \<Rightarrow> bool" where
  "scan_ok fd cols conds ctx s \<longleftrightarrow> rm_ok fd s \<and> (\<forall>h. file_hdrs s fd = Some h \<longrightarrow> 16 \<le> record_size h) \<and>
     (\<forall>r \<in> dom (table fd s). \<exists>x. row_read fd ctx s r = Inr x \<and> (\<forall>v. x = Some v \<longrightarrow> (\<exists>b. eval_conds (\<lambda>x. x) conds v cols = Inr b)))"

text \<open>The database as the readers leave it: the transactions as they were, and sound files keep their header and table.\<close>

definition same_db :: "'a dbs_scheme \<Rightarrow> 'a dbs_scheme \<Rightarrow> bool" where
  "same_db s0 s \<longleftrightarrow> txn_part s = txn_part s0 \<and>
     (\<forall>fd. rm_ok fd s0 \<longrightarrow> rm_ok fd s \<and> file_hdrs s fd = file_hdrs s0 fd \<and> table fd s = table fd s0)"

lemma same_db_refl [simp]: "same_db s s"
  by (simp add: same_db_def)

lemma same_db_unchanged:
  assumes s: "same_db s0 s" and u: "unchanged fd s u"
  shows "same_db s0 u"
  unfolding same_db_def
proof (intro conjI allI impI)
  note x = unchangedD [OF u]
  show "txn_part u = txn_part s0" using s only_file_part [OF x(2)] by (simp add: same_db_def)
  fix fd' assume ok: "rm_ok fd' s0"
  have ok': "rm_ok fd' s" "file_hdrs s fd' = file_hdrs s0 fd'" "table fd' s = table fd' s0" using s ok by (simp_all add: same_db_def)
  have q: "quiet u" using x(1) by (simp add: rm_ok_def)
  show "rm_ok fd' u" using x(1) only_file_table(1) [OF x(2) _ ok'(1) q] by (cases "fd' = fd") auto
  show "table fd' u = table fd' s0" using x(5) only_file_table(2) [OF x(2) _ ok'(1) q] ok'(3) by (cases "fd' = fd") auto
  show "file_hdrs u fd' = file_hdrs s0 fd'" using x(2,4) ok'(2) by (cases "fd' = fd") (auto simp: only_file_def)
qed

lemma after_less: "after r x \<longleftrightarrow> r < x"
  by (auto simp: after_def rid_less)

text \<open>The identifiers behind a position.\<close>

definition behind :: "int \<Rightarrow> 'a dbs_scheme \<Rightarrow> rid \<Rightarrow> rid list" where
  "behind fd s r = filter (\<lambda>x. r < x) (rids_of (table fd s))"

lemma rids_of_facts: "set (rids_of (table fd s)) = dom (table fd s)" "sorted_wrt (<) (rids_of (table fd s))"
  using table_finite [of fd s] by (simp_all add: rids_of_def)

lemma behind_step:
  assumes "scan_result (table fd s) r r'"
  shows "behind fd s r = (if r' = end_rid then [] else r' # behind fd s r')"
proof (cases "r' = end_rid")
  case True
  then show ?thesis using assms rids_of_facts(1) [of fd s] by (simp add: behind_def scan_result_def after_less)
next
  case False
  then have a: "r' \<in> dom (table fd s)" "r < r'" "\<forall>x \<in> dom (table fd s). r < x \<longrightarrow> x = r' \<or> r' < x"
    using assms by (simp_all add: scan_result_def after_less)
  have sorted: "sorted_wrt (<) (behind fd s x)" for x
    unfolding behind_def by (rule sorted_wrt_filter [OF rids_of_facts(2)])
  have "sorted_wrt (<) (behind fd s r)" by (rule sorted)
  moreover have "sorted_wrt (<) (r' # behind fd s r')" using sorted [of r'] by (simp add: behind_def)
  moreover have "set (r' # behind fd s r') = set (behind fd s r)"
    using a rids_of_facts(1) [of fd s] by (auto simp: behind_def)
  ultimately have "r' # behind fd s r' = behind fd s r" by (intro strict_sorted_equal) simp_all
  then show ?thesis using False by simp
qed


section \<open>The contract\<close>

lemma scan_okD:
  assumes "scan_ok fd cols conds ctx s0" and "same_db s0 w"
  shows "rm_ok fd w" and "table fd w = table fd s0" and "file_hdrs w fd = file_hdrs s0 fd" and "like fd s0 w"
  using assms by (simp_all add: scan_ok_def same_db_def like_def)

lemma scan_record_spec:
  assumes ok: "scan_ok fd cols conds ctx s0" and w: "same_db s0 w" and r: "r \<in> dom (table fd s0)"
  shows "\<exists>u. scan_record fd ctx r w = (row_read fd ctx s0 r, u) \<and> same_db s0 u"
proof -
  have rd: "readable fd r s0" using ok r by (simp add: scan_ok_def readable_def)
  have m: "ctx_mvcc ctx v = ctx_mvcc ctx s0" if "like fd s0 v" for v by (rule ctx_mvcc_part [OF likeD(4) [OF that]])
  have "steady fd s0 (scan_record fd ctx r)"
    unfolding scan_record_def
    by (rule steady_getS [of fd s0 _ "if ctx_mvcc ctx s0 then get_record_mvcc fd r ctx else get_record fd r ctx"])
      (simp_all add: m steady_get_record_mvcc [OF rd] steady_get_record [OF rd])
  then obtain x where x: "\<And>v. like fd s0 v \<Longrightarrow> \<exists>u. scan_record fd ctx r v = (x, u) \<and> unchanged fd v u"
    unfolding steady_def by blast
  have "row_read fd ctx s0 r = x" using x [OF scan_okD(4) [OF ok same_db_refl]] by (auto simp: row_read_def)
  moreover obtain u where "scan_record fd ctx r w = (x, u)" "unchanged fd w u" using x [OF scan_okD(4) [OF ok w]] by blast
  ultimately show ?thesis using same_db_unchanged [OF w] by blast
qed

lemma hitD: "hit fd cols conds ctx s r \<Longrightarrow> row_read fd ctx s r = Inr (Some (row_at fd ctx s r))"
  by (auto simp: hit_def row_at_def split: sum.splits option.splits)

lemma scan_next_ok:
  assumes ok: "scan_ok fd cols conds ctx s0" and w: "same_db s0 w" and r: "r \<in> dom (table fd s0)"
  shows "\<exists>r' u. rm_scan_next fd r w = (Inr r', u) \<and> same_db s0 u \<and> scan_result (table fd s0) r r'"
proof -
  note d = scan_okD [OF ok w]
  obtain h where h: "file_hdrs w fd = Some h" using d(1) by (auto simp: rm_ok_def)
  have pos: "scan_pos h r" using dom_scan_pos [OF h] r d(2) by simp
  obtain r' u where "scan_next fd h r w = (Inr r', u)" "unchanged fd w u" "scan_result (table fd w) r r'"
    using scan_next_spec [OF d(1) h pos] by blast
  then show ?thesis using same_db_unchanged [OF w] d(2) by (auto simp: rm_scan_next_def bindE_apply fh_hdr_eq [OF h])
qed

lemma scan_end_ok:
  assumes ok: "scan_ok fd cols conds ctx s0" and w: "same_db s0 w"
  shows "rm_scan_is_end fd end_rid w = (Inr True, w)" and "r \<in> dom (table fd s0) \<Longrightarrow> rm_scan_is_end fd r w = (Inr False, w)"
    and "rm_scan_next fd end_rid w = (Inr end_rid, w)"
proof -
  note d = scan_okD [OF ok w]
  obtain h where h: "file_hdrs w fd = Some h" using d(1) by (auto simp: rm_ok_def)
  show "rm_scan_is_end fd end_rid w = (Inr True, w)" by (rule scan_is_end_eq [OF h])
  show "rm_scan_is_end fd r w = (Inr False, w)" if "r \<in> dom (table fd s0)" using scan_is_end_eq(2) [OF h] that d(2) by simp
  show "rm_scan_next fd end_rid w = (Inr end_rid, w)"
    by (simp add: rm_scan_next_def bindE_apply fh_hdr_eq [OF h]) (subst scan_next.simps, simp add: end_rid_def)
qed

text \<open>Where a scan stands when the given rows are still to come.\<close>

definition at_scan :: "int \<Rightarrow> ColMeta list \<Rightarrow> Condition list \<Rightarrow> Context option \<Rightarrow> 'a txnm_scheme \<Rightarrow> seq_scan_obj \<Rightarrow> byte list option list \<Rightarrow> bool" where
  "at_scan fd cols conds ctx s0 o1 xs \<longleftrightarrow> scan_ok fd cols conds ctx s0 \<and>
     (if xs = [] then ss_scan o1 = Some end_rid
      else ss_scan o1 = Some (ss_rid o1) \<and> ss_rid o1 \<in> dom (table fd s0) \<and> hit fd cols conds ctx s0 (ss_rid o1) \<and>
        xs = map Some (map (row_at fd ctx s0) (ss_rid o1 # filter (hit fd cols conds ctx s0) (behind fd s0 (ss_rid o1)))))"

lemma seek_spec:
  assumes ok: "scan_ok fd cols conds ctx s0" and "same_db s0 w" and "scan_result (table fd s0) r0 pos"
  shows "\<exists>o1 u. seek fd cols conds ctx cur pos w = Some (Inr o1, u) \<and> same_db s0 u \<and>
    at_scan fd cols conds ctx s0 o1 (map Some (map (row_at fd ctx s0) (filter (hit fd cols conds ctx s0) (behind fd s0 r0))))"
  using assms(2,3)
proof (induction "length (behind fd s0 r0)" arbitrary: r0 pos w rule: less_induct)
  case less
  note w = less.prems(1) and b = behind_step [OF less.prems(2)]
  show ?case
  proof (cases "pos = end_rid")
    case True
    then show ?thesis using w ok b
      by (subst seek.simps) (simp add: scan_probe_def bindE_apply scan_end_ok(1) [OF ok w] at_scan_def)
  next
    case False
    then have dom: "pos \<in> dom (table fd s0)" using less.prems(2) by (simp add: scan_result_def)
    obtain w1 where r: "scan_record fd ctx pos w = (row_read fd ctx s0 pos, w1)" "same_db s0 w1"
      using scan_record_spec [OF ok w dom] by blast
    obtain x where x: "row_read fd ctx s0 pos = Inr x" "\<forall>v. x = Some v \<longrightarrow> (\<exists>b. eval_conds (\<lambda>x. x) conds v cols = Inr b)"
      using ok dom unfolding scan_ok_def by blast
    note e = scan_end_ok(2) [OF ok w dom]
    show ?thesis
    proof (cases "hit fd cols conds ctx s0 pos")
      case True
      have "seek fd cols conds ctx cur pos w = Some (Inr \<lparr>ss_rid = pos, ss_scan = Some pos\<rparr>, w1)"
        using True x by (subst seek.simps) (simp add: scan_probe_def bindE_apply e r(1) hit_def row_ok_def split: option.splits)
      then show ?thesis using r(2) ok dom b False True by (simp add: at_scan_def)
    next
      case miss: False
      obtain p u where n: "rm_scan_next fd pos w1 = (Inr p, u)" "same_db s0 u" "scan_result (table fd s0) pos p"
        using scan_next_ok [OF ok r(2) dom] by blast
      have "seek fd cols conds ctx cur pos w = seek fd cols conds ctx cur p u"
      proof (cases x)
        case None
        then show ?thesis using x by (subst seek.simps) (simp add: scan_probe_def bindE_apply e r(1) n(1))
      next
        case (Some v)
        then have "eval_conds (\<lambda>x. x) conds v cols = Inr False" using miss x by (auto simp: hit_def row_ok_def)
        then show ?thesis using x Some by (subst seek.simps) (simp add: scan_probe_def bindE_apply e r(1) n(1))
      qed
      then show ?thesis using less.hyps [OF _ n(2,3)] b False miss by simp
    qed
  qed
qed

lemma seek_op_spec:
  assumes "scan_ok fd cols conds ctx s0" and "same_db s0 w" and "scan_result (table fd s0) r0 pos"
  shows "\<exists>o1 u. seek_op fd cols conds ctx cur pos w = (Inr o1, u) \<and> same_db s0 u \<and>
    at_scan fd cols conds ctx s0 o1 (map Some (map (row_at fd ctx s0) (filter (hit fd cols conds ctx s0) (behind fd s0 r0))))"
  using seek_spec [OF assms, of cur] by (auto simp: seek_op_def)

lemma rm_scan_begin_ok:
  assumes ok: "scan_ok fd cols conds ctx s0" and w: "same_db s0 w"
  shows "\<exists>r0 r u. rm_scan_begin fd w = (Inr r, u) \<and> same_db s0 u \<and> scan_result (table fd s0) r0 r \<and> behind fd s0 r0 = rids_of (table fd s0)"
proof -
  note d = scan_okD [OF ok w]
  obtain h where h: "file_hdrs w fd = Some h" using d(1) by (auto simp: rm_ok_def)
  have hd: "hdr_ok h" using d(1) h rm_file_okD(1) by (auto simp: rm_ok_def)
  let ?r = "\<lparr>rid_page_no = RM_FIRST_RECORD_PAGE, rid_slot_no = - 1\<rparr>"
  have pos: "scan_pos h ?r" using hdr_okD(3) [OF hd] by (simp add: scan_pos_def RM_FIRST_RECORD_PAGE_def)
  have "?r < x" if "x \<in> dom (table fd w)" for x
    using that table_Some [OF h, of x]
    by (simp add: domIff after_less [symmetric] after_def data_page_def slot_ok_def RM_FIRST_RECORD_PAGE_def) linarith
  then have all: "behind fd s0 ?r = rids_of (table fd s0)"
    using rids_of_facts(1) [of fd s0] d(2) by (simp add: behind_def filter_id_conv)
  obtain r u where "scan_next fd h ?r w = (Inr r, u)" "unchanged fd w u" "scan_result (table fd w) ?r r"
    using scan_next_spec [OF d(1) h pos] by blast
  then show ?thesis using same_db_unchanged [OF w] d(2) all
    by (auto simp: rm_scan_begin_def rm_scan_next_def bindE_apply fh_hdr_eq [OF h])
qed

interpretation scan: peekable_source "seq_scan fd cols conds ctx len" "same_db s0" "\<lambda>_. scan_ok fd cols conds ctx s0"
    "map Some (scan_rows fd cols conds ctx s0)" "at_scan fd cols conds ctx s0" "at_scan fd cols conds ctx s0"
proof
  fix w o1 assume w: "same_db s0 w" and ok: "scan_ok fd cols conds ctx s0"
  obtain r0 r u where b: "rm_scan_begin fd w = (Inr r, u)" "same_db s0 u" "scan_result (table fd s0) r0 r"
    "behind fd s0 r0 = rids_of (table fd s0)"
    using rm_scan_begin_ok [OF ok w] by blast
  show "\<exists>o' w'. ex_begin (seq_scan fd cols conds ctx len) (o1, w) = (Inr (), (o', w')) \<and> same_db s0 w' \<and>
      at_scan fd cols conds ctx s0 o' (map Some (scan_rows fd cols conds ctx s0))"
    using seek_op_spec [OF ok b(2,3), of "ss_rid o1"] b(1,4) by (auto simp: seq_scan_def make_obj_def bindE_apply scan_rows_def)
next
  fix w o1 xs assume w: "same_db s0 w" and a: "at_scan fd cols conds ctx s0 o1 xs"
  then have ok: "scan_ok fd cols conds ctx s0" by (simp add: at_scan_def)
  show "ex_end (seq_scan fd cols conds ctx len) (o1, w) = (Inr (xs = []), (o1, w))"
    using a scan_end_ok(1,2) [OF ok w] by (auto simp: seq_scan_def with_scan_def at_scan_def split: if_splits)
next
  fix w o1 x xs assume w: "same_db s0 w" and a: "at_scan fd cols conds ctx s0 o1 (x # xs)"
  then have ok: "scan_ok fd cols conds ctx s0" and dom: "ss_rid o1 \<in> dom (table fd s0)" and x: "x = Some (row_at fd ctx s0 (ss_rid o1))"
    and h: "hit fd cols conds ctx s0 (ss_rid o1)" by (simp_all add: at_scan_def)
  show "\<exists>o' w'. ex_fetch (seq_scan fd cols conds ctx len) (o1, w) = (Inr x, (o', w')) \<and> same_db s0 w' \<and>
      at_scan fd cols conds ctx s0 o' (x # xs)"
    using scan_record_spec [OF ok w dom] x a hitD [OF h] by (auto simp: seq_scan_def)
next
  fix w o1 x xs assume w: "same_db s0 w" and a: "at_scan fd cols conds ctx s0 o1 (x # xs)"
  then have ok: "scan_ok fd cols conds ctx s0" and dom: "ss_rid o1 \<in> dom (table fd s0)" and s: "ss_scan o1 = Some (ss_rid o1)"
    and xs: "xs = map Some (map (row_at fd ctx s0) (filter (hit fd cols conds ctx s0) (behind fd s0 (ss_rid o1))))"
    by (simp_all add: at_scan_def)
  obtain r' u where n: "rm_scan_next fd (ss_rid o1) w = (Inr r', u)" "same_db s0 u" "scan_result (table fd s0) (ss_rid o1) r'"
    using scan_next_ok [OF ok w dom] by blast
  show "\<exists>o' w'. ex_step (seq_scan fd cols conds ctx len) (o1, w) = (Inr (), (o', w')) \<and> same_db s0 w' \<and>
      at_scan fd cols conds ctx s0 o' xs"
    using seek_op_spec [OF ok n(2,3), of "ss_rid o1"] n(1) s xs by (auto simp: seq_scan_def make_obj_def bindE_apply)
next
  fix w o1 assume w: "same_db s0 w" and a: "at_scan fd cols conds ctx s0 o1 []"
  then have ok: "scan_ok fd cols conds ctx s0" and s: "ss_scan o1 = Some end_rid" by (simp_all add: at_scan_def)
  note e = scan_end_ok [OF ok w]
  have "seek fd cols conds ctx (ss_rid o1) end_rid w = Some (Inr \<lparr>ss_rid = ss_rid o1, ss_scan = Some end_rid\<rparr>, w)"
    by (subst seek.simps) (simp add: scan_probe_def bindE_apply e(1))
  then show "\<exists>o' w'. ex_step (seq_scan fd cols conds ctx len) (o1, w) = (Inr (), (o', w')) \<and> same_db s0 w' \<and>
      at_scan fd cols conds ctx s0 o' []"
    using ok s w by (simp add: seq_scan_def make_obj_def bindE_apply e(3) seek_op_def at_scan_def)
qed

interpretation rescan: restartable_source "seq_scan fd cols conds ctx len" "same_db s0" "\<lambda>_. scan_ok fd cols conds ctx s0"
    "map Some (scan_rows fd cols conds ctx s0)" "at_scan fd cols conds ctx s0" "at_scan fd cols conds ctx s0"
  by unfold_locales simp

interpretation rebegun_scan: repeatable_source "seq_scan fd cols conds ctx len" "same_db s0" "\<lambda>_. scan_ok fd cols conds ctx s0"
    "map Some (scan_rows fd cols conds ctx s0)" "at_scan fd cols conds ctx s0" "at_scan fd cols conds ctx s0"
  by unfold_locales (simp add: at_scan_def)

end
