(* ===== verification/ExecJoin.thy ===== *)
theory ExecJoin
  imports Exec
begin

text \<open>
  The nested loop join, \<^verbatim>\<open>execution/executor_nestedloop_join.h\<close>, and the semi join,
  \<^verbatim>\<open>execution/executor_semi_join.h\<close>. The locale \<open>join_sides\<close> has a left source and a right source that can be
  begun again; in it the join is a source for the pairs of rows that satisfy the conditions, in the order of
  the nested loop.
\<close>

section \<open>The executor\<close>

record ('l, 'r) join_obj =
  left_obj :: 'l
  right_obj :: 'r
  j_end :: bool
  left_tuple :: "byte list option"
  right_tuple :: "byte list option"
  next_tuple :: "byte list option"

definition new_join :: "'l \<Rightarrow> 'r \<Rightarrow> ('l, 'r) join_obj" where
  "new_join l r = \<lparr>left_obj = l, right_obj = r, j_end = False, left_tuple = None, right_tuple = None, next_tuple = None\<rparr>"

definition on_left :: "('l \<times> 'w, 'a) op \<Rightarrow> (('l, 'r) join_obj \<times> 'w, 'a) op" where
  "on_left = on_part left_obj (\<lambda>l j. j\<lparr>left_obj := l\<rparr>)"

definition on_right :: "('r \<times> 'w, 'a) op \<Rightarrow> (('l, 'r) join_obj \<times> 'w, 'a) op" where
  "on_right = on_part right_obj (\<lambda>r j. j\<lparr>right_obj := r\<rparr>)"

definition deref_copy :: "byte list option \<Rightarrow> int \<Rightarrow> ('s, byte list) op" where
  "deref_copy p n = bindE (lift_result (deref p)) (\<lambda>v. memcpy_from v n)"

text \<open>One round of the two loops of \<open>nextTuple\<close>; the result is whether the function returns.\<close>

definition join_round :: "('l, 'w) executor \<Rightarrow> ('r, 'w) executor \<Rightarrow> Condition list \<Rightarrow> (('l, 'r) join_obj \<times> 'w, bool) op" where
  "join_round L R conds = bindE (on_right (ex_end R)) (\<lambda>right_end.
     if \<not> right_end
     then bindE (on_right (ex_fetch R)) (\<lambda>rt.
          bindE (upd_obj (\<lambda>j. j\<lparr>right_tuple := rt\<rparr>)) (\<lambda>_.
          bindE (on_right (ex_step R)) (\<lambda>_. bindE get_obj (\<lambda>j.
          bindE (lift_result (join_conds (ex_cols L) (ex_cols R) conds (left_tuple j) (right_tuple j))) (\<lambda>b.
          if b
          then bindE (new_record (ex_len L + ex_len R)) (\<lambda>_.
               bindE (deref_copy (left_tuple j) (ex_len L)) (\<lambda>x.
               bindE (deref_copy (right_tuple j) (ex_len R)) (\<lambda>y.
               bindE (upd_obj (\<lambda>j. j\<lparr>next_tuple := Some (x @ y)\<rparr>)) (\<lambda>_. ret True))))
          else ret False)))))
     else bindE (on_left (ex_step L)) (\<lambda>_.
          bindE (on_left (ex_end L)) (\<lambda>left_end.
          if left_end then bindE (upd_obj (\<lambda>j. j\<lparr>j_end := True\<rparr>)) (\<lambda>_. ret True)
          else bindE (on_left (ex_fetch L)) (\<lambda>lt.
               bindE (upd_obj (\<lambda>j. j\<lparr>left_tuple := lt\<rparr>)) (\<lambda>_.
               bindE (on_right (ex_begin R)) (\<lambda>_. ret False))))))"

definition join_next :: "('l, 'w) executor \<Rightarrow> ('r, 'w) executor \<Rightarrow> Condition list \<Rightarrow> (('l, 'r) join_obj \<times> 'w, unit) op" where
  "join_next L R conds = rounds (join_round L R conds)"

definition join_begin :: "('l, 'w) executor \<Rightarrow> ('r, 'w) executor \<Rightarrow> Condition list \<Rightarrow> (('l, 'r) join_obj \<times> 'w, unit) op" where
  "join_begin L R conds = bindE (on_left (ex_begin L)) (\<lambda>_.
     bindE (on_left (ex_end L)) (\<lambda>left_end.
     if left_end then upd_obj (\<lambda>j. j\<lparr>j_end := True\<rparr>)
     else bindE (on_left (ex_fetch L)) (\<lambda>lt.
          bindE (upd_obj (\<lambda>j. j\<lparr>left_tuple := lt\<rparr>)) (\<lambda>_.
          bindE (on_right (ex_begin R)) (\<lambda>_. join_next L R conds)))))"

definition join_cols :: "('l, 'w) executor \<Rightarrow> ('r, 'w) executor \<Rightarrow> ColMeta list" where
  "join_cols L R = ex_cols L @ map (\<lambda>c. c\<lparr>cm_offset := cm_offset c + ex_len L\<rparr>) (ex_cols R)"

definition nl_join :: "('l, 'w) executor \<Rightarrow> ('r, 'w) executor \<Rightarrow> Condition list \<Rightarrow> (('l, 'r) join_obj, 'w) executor" where
  "nl_join L R conds =
     \<lparr>ex_begin = join_begin L R conds, ex_step = join_next L R conds,
      ex_end = bindE get_obj (\<lambda>j. ret (j_end j)),
      ex_fetch = bindE get_obj (\<lambda>j. bindE (upd_obj (\<lambda>j. j\<lparr>next_tuple := None\<rparr>)) (\<lambda>_. ret (next_tuple j))),
      ex_rid = (\<lambda>_. invalid_rid), ex_cols = join_cols L R, ex_len = ex_len L + ex_len R\<rparr>"

section \<open>The pairs of a join\<close>

text \<open>The reference: the nested loop over two lists of records.\<close>

definition pairs_of :: "(byte list \<Rightarrow> byte list \<Rightarrow> bool) \<Rightarrow> (byte list \<Rightarrow> byte list \<Rightarrow> byte list) \<Rightarrow> byte list list \<Rightarrow> byte list list \<Rightarrow> byte list list" where
  "pairs_of P glue ls rs = concat (map (\<lambda>l. map (glue l) (filter (P l) rs)) ls)"

definition joined :: "int \<Rightarrow> int \<Rightarrow> byte list \<Rightarrow> byte list \<Rightarrow> byte list" where
  "joined n m l r = take (nat n) l @ take (nat m) r"

lemma pairs_of_simps [simp]:
  "pairs_of P glue [] rs = []" "pairs_of P glue (l # ls) rs = map (glue l) (filter (P l) rs) @ pairs_of P glue ls rs"
  by (simp_all add: pairs_of_def)

lemmas on_side = on_left_def on_right_def on_part_def

lemma deref_copy_Some: "n \<le> int (length v) \<Longrightarrow> deref_copy (Some v) n s = (Inr (take (nat n) v), s)"
  by (simp add: deref_copy_def bindE_apply deref_def memcpy_from_def)

section \<open>The contract\<close>

locale join_sides =
  L: tuple_source L world freshL "map Some ls" atL takenL + R: restartable_source R world freshR "map Some rs" atR takenR
  for L :: "('l, 'w) executor" and R :: "('r, 'w) executor" and world :: "'w \<Rightarrow> bool"
    and freshL :: "'l \<Rightarrow> bool" and freshR :: "'r \<Rightarrow> bool" and ls rs :: "byte list list"
    and atL takenL :: "'l \<Rightarrow> byte list option list \<Rightarrow> bool" and atR takenR :: "'r \<Rightarrow> byte list option list \<Rightarrow> bool" +
  fixes conds :: "Condition list" and P :: "byte list \<Rightarrow> byte list \<Rightarrow> bool"
begin

abbreviation glue :: "byte list \<Rightarrow> byte list \<Rightarrow> byte list" where
  "glue \<equiv> joined (ex_len L) (ex_len R)"

text \<open>The rows are all there, long enough, and the conditions can be evaluated on each pair.\<close>

definition sides_ok :: bool where
  "sides_ok \<longleftrightarrow> 0 \<le> ex_len L \<and> 0 \<le> ex_len R \<and>
     (\<forall>l \<in> set ls. ex_len L \<le> int (length l)) \<and> (\<forall>r \<in> set rs. ex_len R \<le> int (length r)) \<and>
     (\<forall>l \<in> set ls. \<forall>r \<in> set rs. join_conds (ex_cols L) (ex_cols R) conds (Some l) (Some r) = Inr (P l r))"

definition todo :: "byte list \<Rightarrow> byte list list \<Rightarrow> byte list list \<Rightarrow> byte list list" where
  "todo l ls' rs' = map (glue l) (filter (P l) rs') @ pairs_of P glue ls' rs"

text \<open>Between two rounds of the loops; the flag \<open>isend\<close> may be left over when nothing is to come.\<close>

definition startable :: "('l, 'r) join_obj \<Rightarrow> bool" where
  "startable j \<longleftrightarrow> sides_ok \<and> (\<exists>o1. freshL o1) \<and> freshR (right_obj j)"

definition looping :: "('l, 'r) join_obj \<Rightarrow> byte list \<Rightarrow> byte list list \<Rightarrow> byte list list \<Rightarrow> bool" where
  "looping j l ls' rs' \<longleftrightarrow> startable j \<and> l \<in> set ls \<and> set ls' \<subseteq> set ls \<and> set rs' \<subseteq> set rs \<and>
     (j_end j \<longrightarrow> todo l ls' rs' = []) \<and> left_tuple j = Some l \<and>
     takenL (left_obj j) (map Some (l # ls')) \<and> atR (right_obj j) (map Some rs')"

definition at_join :: "('l, 'r) join_obj \<Rightarrow> byte list option list \<Rightarrow> bool" where
  "at_join j xs \<longleftrightarrow> (if j_end j then xs = [] \<and> startable j
     else \<exists>t l ls' rs'. looping j l ls' rs' \<and> next_tuple j = Some t \<and> xs = Some t # map Some (todo l ls' rs'))"

definition taken_join :: "('l, 'r) join_obj \<Rightarrow> byte list option list \<Rightarrow> bool" where
  "taken_join j xs \<longleftrightarrow> (\<exists>t l ls' rs'. looping j l ls' rs' \<and> \<not> j_end j \<and> xs = Some t # map Some (todo l ls' rs'))"

definition fresh_join :: "('l, 'r) join_obj \<Rightarrow> bool" where
  "fresh_join j \<longleftrightarrow> sides_ok \<and> (j_end j \<longrightarrow> pairs_of P glue ls rs = []) \<and> freshL (left_obj j) \<and> freshR (right_obj j)"

lemma sides_okD:
  assumes sides_ok
  shows "0 \<le> ex_len L" and "0 \<le> ex_len R"
    and "l \<in> set ls \<Longrightarrow> ex_len L \<le> int (length l)" and "r \<in> set rs \<Longrightarrow> ex_len R \<le> int (length r)"
    and "l \<in> set ls \<Longrightarrow> r \<in> set rs \<Longrightarrow> join_conds (ex_cols L) (ex_cols R) conds (Some l) (Some r) = Inr (P l r)"
  using assms by (simp_all add: sides_ok_def)

text \<open>A round over a right row.\<close>

lemma round_right:
  assumes w: "world w" and lp: "looping j l ls' (r # rs')"
  shows "\<exists>j' w'. join_round L R conds (j, w) = (Inr (P l r), (j', w')) \<and> world w' \<and> looping j' l ls' rs' \<and>
    (P l r \<longrightarrow> next_tuple j' = Some (glue l r) \<and> \<not> j_end j')"
proof -
  note d = lp [unfolded looping_def startable_def]
  have ok: sides_ok and mem: "l \<in> set ls" "r \<in> set rs" using d by auto
  note o = sides_okD [OF ok]
  have at: "atR (right_obj j) (Some r # map Some rs')" using d by simp
  obtain r1 w1 where f: "ex_fetch R (right_obj j, w) = (Inr (Some r), (r1, w1))" "world w1" "takenR r1 (Some r # map Some rs')"
    using R.fetch_at [OF w at] by blast
  obtain r2 w2 where s: "ex_step R (r1, w1) = (Inr (), (r2, w2))" "world w2" "atR r2 (map Some rs')"
    using R.step_taken [OF f(2,3)] by blast
  have fr: "freshR r2" using d R.fresh_any by blast
  let ?j = "j\<lparr>right_obj := r2, right_tuple := Some r\<rparr>"
  let ?j' = "if P l r then ?j\<lparr>next_tuple := Some (glue l r)\<rparr> else ?j"
  have "join_round L R conds (j, w) = (Inr (P l r), (?j', w2))"
    using d o mem
    by (simp add: join_round_def bindE_apply on_side R.end_at [OF w at] f(1) s(1) deref_copy_Some new_record_def joined_def)
  moreover have "looping ?j' l ls' rs'" using d s(3) fr by (simp add: looping_def startable_def todo_def split: if_splits)
  moreover have "P l r \<longrightarrow> \<not> j_end ?j'" using d by (auto simp: todo_def)
  ultimately show ?thesis using s(2) by (intro exI [of _ ?j'] exI [of _ w2]) simp
qed

text \<open>A round when the right side is at its end.\<close>

lemma round_left:
  assumes w: "world w" and lp: "looping j l ls' []"
  shows "\<exists>b j' w'. join_round L R conds (j, w) = (Inr b, (j', w')) \<and> world w' \<and>
    (case ls' of [] \<Rightarrow> b \<and> j_end j' \<and> startable j' | l' # ls'' \<Rightarrow> \<not> b \<and> looping j' l' ls'' rs)"
proof -
  note d = lp [unfolded looping_def startable_def]
  have ok: sides_ok using d by auto
  note o = sides_okD [OF ok]
  have atr: "atR (right_obj j) []" using d by simp
  note er = R.end_at [OF w atr]
  have tk: "takenL (left_obj j) (Some l # map Some ls')" using d by simp
  obtain l1 w1 where s: "ex_step L (left_obj j, w) = (Inr (), (l1, w1))" "world w1" "atL l1 (map Some ls')"
    using L.step_taken [OF w tk] by blast
  note el = L.end_at [OF s(2,3)]
  let ?j = "j\<lparr>left_obj := l1\<rparr>"
  show ?thesis
  proof (cases ls')
    case Nil
    then have "join_round L R conds (j, w) = (Inr True, (?j\<lparr>j_end := True\<rparr>, w1))"
      by (simp add: join_round_def bindE_apply er on_side s(1) el)
    then show ?thesis using Nil s(2) d by (auto simp: startable_def)
  next
    case (Cons l' ls'')
    obtain l2 w2 where f: "ex_fetch L (l1, w1) = (Inr (Some l'), (l2, w2))" "world w2" "takenL l2 (map Some (l' # ls''))"
      using L.fetch_at [OF s(2), of l1 "Some l'" "map Some ls''"] s(3) Cons by auto
    have fr: "freshR (right_obj j)" using d by simp
    obtain r1 w3 where b: "ex_begin R (right_obj j, w2) = (Inr (), (r1, w3))" "world w3" "atR r1 (map Some rs)"
      using R.begin_at [OF f(2) fr] by blast
    let ?j' = "j\<lparr>left_obj := l2, left_tuple := Some l', right_obj := r1\<rparr>"
    have "join_round L R conds (j, w) = (Inr False, (?j', w3))"
      using el Cons by (simp add: join_round_def bindE_apply er on_side s(1) f(1) b(1))
    moreover have "looping ?j' l' ls'' rs" using d f(3) b(3) R.fresh_any [OF fr] Cons by (simp add: looping_def startable_def todo_def split: if_splits)
    ultimately show ?thesis using b(2) Cons by (intro exI [of _ False] exI [of _ ?j'] exI [of _ w3]) simp
  qed
qed

lemma join_next_right:
  assumes more: "\<And>j w. world w \<Longrightarrow> looping j l ls' [] \<Longrightarrow>
      \<exists>j' w'. join_next L R conds (j, w) = (Inr (), (j', w')) \<and> world w' \<and> at_join j' (map Some (todo l ls' []))"
    and "world w" and "looping j l ls' rs'"
  shows "\<exists>j' w'. join_next L R conds (j, w) = (Inr (), (j', w')) \<and> world w' \<and> at_join j' (map Some (todo l ls' rs'))"
  using assms(2,3)
proof (induction rs' arbitrary: j w)
  case Nil
  then show ?case by (rule more)
next
  case (Cons r rs')
  obtain j1 w1 where r: "join_round L R conds (j, w) = (Inr (P l r), (j1, w1))" "world w1" "looping j1 l ls' rs'"
    "P l r \<longrightarrow> next_tuple j1 = Some (glue l r) \<and> \<not> j_end j1"
    using round_right [OF Cons.prems] by blast
  show ?case
  proof (cases "P l r")
    case True
    have "at_join j1 (map Some (todo l ls' (r # rs')))" using r(3,4) True by (auto simp: at_join_def todo_def)
    then show ?thesis using rounds_True [of "join_round L R conds"] r(1,2) True by (auto simp: join_next_def)
  next
    case False
    obtain j2 w2 where i: "join_next L R conds (j1, w1) = (Inr (), (j2, w2))" "world w2" "at_join j2 (map Some (todo l ls' rs'))"
      using Cons.IH [OF r(2,3)] by blast
    have "join_next L R conds (j, w) = (Inr (), (j2, w2))"
      using rounds_False [of "join_round L R conds"] r(1) False i(1) by (simp add: join_next_def)
    then show ?thesis using i(2,3) False by (simp add: todo_def)
  qed
qed

lemma join_next_spec:
  assumes "world w" and "looping j l ls' rs'"
  shows "\<exists>j' w'. join_next L R conds (j, w) = (Inr (), (j', w')) \<and> world w' \<and> at_join j' (map Some (todo l ls' rs'))"
  using assms
proof (induction ls' arbitrary: j l rs' w)
  case Nil
  show ?case
  proof (rule join_next_right [OF _ Nil])
    fix j w assume a: "world w" "looping j l [] []"
    obtain j' w' where "join_round L R conds (j, w) = (Inr True, (j', w'))" "world w'" "j_end j'" "startable j'"
      using round_left [OF a] by auto
    then show "\<exists>j' w'. join_next L R conds (j, w) = (Inr (), (j', w')) \<and> world w' \<and> at_join j' (map Some (todo l [] []))"
      using rounds_True [of "join_round L R conds"] by (auto simp: join_next_def at_join_def todo_def)
  qed
next
  case (Cons l' ls')
  show ?case
  proof (rule join_next_right [OF _ Cons.prems])
    fix j w assume a: "world w" "looping j l (l' # ls') []"
    obtain j1 w1 where r: "join_round L R conds (j, w) = (Inr False, (j1, w1))" "world w1" "looping j1 l' ls' rs"
      using round_left [OF a] by auto
    obtain j2 w2 where i: "join_next L R conds (j1, w1) = (Inr (), (j2, w2))" "world w2" "at_join j2 (map Some (todo l' ls' rs))"
      using Cons.IH [OF r(2,3)] by blast
    have "join_next L R conds (j, w) = (Inr (), (j2, w2))"
      using rounds_False [of "join_round L R conds"] r(1) i(1) by (simp add: join_next_def)
    then show "\<exists>j' w'. join_next L R conds (j, w) = (Inr (), (j', w')) \<and> world w' \<and> at_join j' (map Some (todo l (l' # ls') []))"
      using i(2,3) by (simp add: todo_def)
  qed
qed

lemma join_begin_spec:
  assumes w: "world w" and fr: "fresh_join j"
  shows "\<exists>j' w'. join_begin L R conds (j, w) = (Inr (), (j', w')) \<and> world w' \<and> at_join j' (map Some (pairs_of P glue ls rs))"
proof -
  note d = fr [unfolded fresh_join_def]
  have ok: sides_ok using d by simp
  note o = sides_okD [OF ok]
  obtain l1 w1 where b: "ex_begin L (left_obj j, w) = (Inr (), (l1, w1))" "world w1" "atL l1 (map Some ls)"
    using L.begin_at [OF w, of "left_obj j"] d by auto
  let ?j = "j\<lparr>left_obj := l1\<rparr>"
  note el = L.end_at [OF b(2,3)]
  show ?thesis
  proof (cases ls)
    case Nil
    have "join_begin L R conds (j, w) = (Inr (), (?j\<lparr>j_end := True\<rparr>, w1))"
      using el Nil by (simp add: join_begin_def bindE_apply on_side b(1))
    moreover have "pairs_of P glue ls rs = []" by (simp add: Nil)
    then have "at_join (?j\<lparr>j_end := True\<rparr>) (map Some (pairs_of P glue ls rs))"
      using d by (auto simp: at_join_def startable_def)
    ultimately show ?thesis using b(2) by blast
  next
    case (Cons l ls')
    obtain l2 w2 where f: "ex_fetch L (l1, w1) = (Inr (Some l), (l2, w2))" "world w2" "takenL l2 (map Some (l # ls'))"
      using L.fetch_at [OF b(2), of l1 "Some l" "map Some ls'"] b(3) Cons by auto
    have fr': "freshR (right_obj j)" using d by simp
    obtain r1 w3 where c: "ex_begin R (right_obj j, w2) = (Inr (), (r1, w3))" "world w3" "atR r1 (map Some rs)"
      using R.begin_at [OF f(2) fr'] by blast
    let ?j' = "j\<lparr>left_obj := l2, left_tuple := Some l, right_obj := r1\<rparr>"
    have mem: "l \<in> set ls" "set ls' \<subseteq> set ls" and todo: "pairs_of P glue ls rs = todo l ls' rs"
      by (auto simp: Cons todo_def)
    have lp: "looping ?j' l ls' rs"
      using d f(3) c(3) R.fresh_any [OF fr'] mem todo by (auto simp: looping_def startable_def)
    have "join_begin L R conds (j, w) = join_next L R conds (?j', w3)"
      using el Cons by (simp add: join_begin_def bindE_apply on_side b(1) f(1) c(1))
    then show ?thesis using join_next_spec [OF c(2) lp] by (simp add: todo)
  qed
qed

sublocale join: tuple_source "nl_join L R conds" world fresh_join "map Some (pairs_of P glue ls rs)" at_join taken_join
proof
  fix w j assume "world w" "fresh_join j"
  then show "\<exists>j' w'. ex_begin (nl_join L R conds) (j, w) = (Inr (), (j', w')) \<and> world w' \<and> at_join j' (map Some (pairs_of P glue ls rs))"
    using join_begin_spec by (simp add: nl_join_def)
next
  fix w j xs assume "world w" "at_join j xs"
  then show "ex_end (nl_join L R conds) (j, w) = (Inr (xs = []), (j, w))"
    by (auto simp: nl_join_def bindE_apply at_join_def split: if_splits)
next
  fix w j x xs assume w: "world w" and "at_join j (x # xs)"
  then obtain t l ls' rs' where t: "looping j l ls' rs'" "\<not> j_end j" "next_tuple j = Some t" "x = Some t" "xs = map Some (todo l ls' rs')"
    by (auto simp: at_join_def split: if_splits)
  then have "looping (j\<lparr>next_tuple := None\<rparr>) l ls' rs'" by (simp add: looping_def startable_def)
  then have "taken_join (j\<lparr>next_tuple := None\<rparr>) (x # xs)" using t by (auto simp: taken_join_def)
  then show "\<exists>j' w'. ex_fetch (nl_join L R conds) (j, w) = (Inr x, (j', w')) \<and> world w' \<and> taken_join j' (x # xs)"
    using w t(3,4) by (simp add: nl_join_def bindE_apply)
next
  fix w j x xs assume "world w" "taken_join j (x # xs)"
  then show "\<exists>j' w'. ex_step (nl_join L R conds) (j, w) = (Inr (), (j', w')) \<and> world w' \<and> at_join j' xs"
    using join_next_spec by (auto simp: taken_join_def nl_join_def)
qed

end

text \<open>When the left side can be begun again at any time as well, so can the join right after \<open>beginTuple\<close>.\<close>

locale restartable_sides = join_sides +
  assumes freshL_any: "freshL o1 \<Longrightarrow> freshL o2"
begin

sublocale join: repeatable_source "nl_join L R conds" world fresh_join "map Some (pairs_of P glue ls rs)" at_join taken_join
proof
  fix j assume a: "at_join j (map Some (pairs_of P glue ls rs))"
  show "fresh_join j"
  proof (cases "j_end j")
    case True
    then show ?thesis using a freshL_any by (auto simp: at_join_def fresh_join_def startable_def)
  next
    case False
    then show ?thesis using a freshL_any by (auto simp: at_join_def fresh_join_def looping_def startable_def)
  qed
qed

end

end
