(* ===== verification/ExecSemi.thy ===== *)
theory ExecSemi
  imports ExecJoin
begin

text \<open>
  The semi join, \<^verbatim>\<open>execution/executor_semi_join.h\<close>: the rows of the left side that have a partner on the right.
  Its \<open>Next\<close> moves the left side on by itself; the locale \<open>semi_sides\<close> shows that it is a source nevertheless,
  when \<open>Next\<close> and \<open>nextTuple\<close> are called in turn.
\<close>

section \<open>The executor\<close>

record ('l, 'r) semi_obj =
  sl_obj :: 'l
  sr_obj :: 'r
  s_end :: bool
  s_left :: "byte list option"
  s_next :: "byte list option"

definition new_semi :: "'l \<Rightarrow> 'r \<Rightarrow> ('l, 'r) semi_obj" where
  "new_semi l r = \<lparr>sl_obj = l, sr_obj = r, s_end = False, s_left = None, s_next = None\<rparr>"

definition on_sl :: "('l \<times> 'w, 'a) op \<Rightarrow> (('l, 'r) semi_obj \<times> 'w, 'a) op" where
  "on_sl = on_part sl_obj (\<lambda>l j. j\<lparr>sl_obj := l\<rparr>)"

definition on_sr :: "('r \<times> 'w, 'a) op \<Rightarrow> (('l, 'r) semi_obj \<times> 'w, 'a) op" where
  "on_sr = on_part sr_obj (\<lambda>r j. j\<lparr>sr_obj := r\<rparr>)"

text \<open>The inner loop: is there a partner among the rows of the right side?\<close>

definition semi_try :: "('l, 'w) executor \<Rightarrow> ('r, 'w) executor \<Rightarrow> Condition list \<Rightarrow> (('l, 'r) semi_obj \<times> 'w, bool option) op" where
  "semi_try L R conds = bindE (on_sr (ex_end R)) (\<lambda>e.
     if e then ret (Some False)
     else bindE (on_sr (ex_fetch R)) (\<lambda>rt. bindE (on_sr (ex_step R)) (\<lambda>_. bindE get_obj (\<lambda>j.
          bindE (lift_result (semi_conds (ex_cols L) (ex_cols R) conds (s_left j) rt)) (\<lambda>b.
          ret (if b then Some True else None))))))"

definition semi_search :: "('l, 'w) executor \<Rightarrow> ('r, 'w) executor \<Rightarrow> Condition list \<Rightarrow> (('l, 'r) semi_obj \<times> 'w, bool) op" where
  "semi_search L R conds = until (semi_try L R conds)"

text \<open>The next row of the left side, or the end.\<close>

definition semi_advance :: "('l, 'w) executor \<Rightarrow> (('l, 'r) semi_obj \<times> 'w, bool) op" where
  "semi_advance L = bindE (on_sl (ex_step L)) (\<lambda>_. bindE (on_sl (ex_end L)) (\<lambda>e.
     if e then bindE (upd_obj (\<lambda>j. j\<lparr>s_end := True\<rparr>)) (\<lambda>_. ret True)
     else bindE (on_sl (ex_fetch L)) (\<lambda>lt. bindE (upd_obj (\<lambda>j. j\<lparr>s_left := lt\<rparr>)) (\<lambda>_. ret False))))"

definition semi_round :: "('l, 'w) executor \<Rightarrow> ('r, 'w) executor \<Rightarrow> Condition list \<Rightarrow> (('l, 'r) semi_obj \<times> 'w, bool) op" where
  "semi_round L R conds = bindE (on_sr (ex_begin R)) (\<lambda>_. bindE (semi_search L R conds) (\<lambda>found.
     if found
     then bindE (new_record (ex_len L)) (\<lambda>_. bindE get_obj (\<lambda>j. bindE (deref_copy (s_left j) (ex_len L)) (\<lambda>x.
          bindE (upd_obj (\<lambda>j. j\<lparr>s_next := Some x\<rparr>)) (\<lambda>_. ret True))))
     else semi_advance L))"

definition semi_next :: "('l, 'w) executor \<Rightarrow> ('r, 'w) executor \<Rightarrow> Condition list \<Rightarrow> (('l, 'r) semi_obj \<times> 'w, unit) op" where
  "semi_next L R conds = bindE get_obj (\<lambda>j. if s_end j then ret () else rounds (semi_round L R conds))"

definition semi_begin :: "('l, 'w) executor \<Rightarrow> ('r, 'w) executor \<Rightarrow> Condition list \<Rightarrow> (('l, 'r) semi_obj \<times> 'w, unit) op" where
  "semi_begin L R conds = bindE (on_sl (ex_begin L)) (\<lambda>_. bindE (on_sl (ex_end L)) (\<lambda>e.
     if e then upd_obj (\<lambda>j. j\<lparr>s_end := True\<rparr>)
     else bindE (on_sl (ex_fetch L)) (\<lambda>lt. bindE (upd_obj (\<lambda>j. j\<lparr>s_left := lt\<rparr>)) (\<lambda>_. semi_next L R conds))))"

definition semi_fetch :: "('l, 'w) executor \<Rightarrow> ('r, 'w) executor \<Rightarrow> Condition list \<Rightarrow> (('l, 'r) semi_obj \<times> 'w, byte list option) op" where
  "semi_fetch L R conds = bindE get_obj (\<lambda>j.
     bindE (if s_next j = None \<and> \<not> s_end j then semi_next L R conds else ret ()) (\<lambda>_. bindE get_obj (\<lambda>j.
     bindE (upd_obj (\<lambda>j. j\<lparr>s_next := None\<rparr>)) (\<lambda>_.
     bindE (if s_next j = None then ret True else semi_advance L) (\<lambda>_. ret (s_next j))))))"

definition semi_join :: "('l, 'w) executor \<Rightarrow> ('r, 'w) executor \<Rightarrow> Condition list \<Rightarrow> (('l, 'r) semi_obj, 'w) executor" where
  "semi_join L R conds =
     \<lparr>ex_begin = semi_begin L R conds, ex_step = semi_next L R conds, ex_end = bindE get_obj (\<lambda>j. ret (s_end j)),
      ex_fetch = semi_fetch L R conds, ex_rid = (\<lambda>_. invalid_rid), ex_cols = ex_cols L, ex_len = ex_len L\<rparr>"

section \<open>The contract\<close>

definition partnered :: "(byte list \<Rightarrow> byte list \<Rightarrow> bool) \<Rightarrow> int \<Rightarrow> byte list list \<Rightarrow> byte list list \<Rightarrow> byte list list" where
  "partnered P n ls rs = map (take (nat n)) (filter (\<lambda>l. \<exists>r \<in> set rs. P l r) ls)"

lemma partnered_simps [simp]:
  "partnered P n [] rs = []"
  "partnered P n (l # ls) rs = (if \<exists>r \<in> set rs. P l r then take (nat n) l # partnered P n ls rs else partnered P n ls rs)"
  by (simp_all add: partnered_def)

lemmas on_semi = on_sl_def on_sr_def on_part_def

locale semi_sides =
  L: tuple_source L world freshL "map Some ls" atL takenL + R: restartable_source R world freshR "map Some rs" atR takenR
  for L :: "('l, 'w) executor" and R :: "('r, 'w) executor" and world :: "'w \<Rightarrow> bool"
    and freshL :: "'l \<Rightarrow> bool" and freshR :: "'r \<Rightarrow> bool" and ls rs :: "byte list list"
    and atL takenL :: "'l \<Rightarrow> byte list option list \<Rightarrow> bool" and atR takenR :: "'r \<Rightarrow> byte list option list \<Rightarrow> bool" +
  fixes conds :: "Condition list" and P :: "byte list \<Rightarrow> byte list \<Rightarrow> bool"
begin

definition semi_ok :: bool where
  "semi_ok \<longleftrightarrow> 0 \<le> ex_len L \<and> (\<forall>l \<in> set ls. ex_len L \<le> int (length l)) \<and>
     (\<forall>l \<in> set ls. \<forall>r \<in> set rs. semi_conds (ex_cols L) (ex_cols R) conds (Some l) (Some r) = Inr (P l r))"

text \<open>The left rows that have still to be looked at, the first of them being the current one.\<close>

definition left_at :: "('l, 'r) semi_obj \<Rightarrow> byte list list \<Rightarrow> bool" where
  "left_at j zs \<longleftrightarrow> semi_ok \<and> set zs \<subseteq> set ls \<and> freshR (sr_obj j) \<and>
     (case zs of [] \<Rightarrow> s_end j | l # zs' \<Rightarrow> \<not> s_end j \<and> s_left j = Some l \<and> takenL (sl_obj j) (map Some (l # zs')))"

definition at_semi :: "('l, 'r) semi_obj \<Rightarrow> byte list option list \<Rightarrow> bool" where
  "at_semi j xs \<longleftrightarrow> (case xs of [] \<Rightarrow> s_end j
     | x # xs' \<Rightarrow> (\<exists>l zs. left_at j (l # zs) \<and> s_next j = x \<and> x \<noteq> None \<and> xs' = map Some (partnered P (ex_len L) zs rs)))"

definition taken_semi :: "('l, 'r) semi_obj \<Rightarrow> byte list option list \<Rightarrow> bool" where
  "taken_semi j xs \<longleftrightarrow> (\<exists>x zs. left_at j zs \<and> xs = x # map Some (partnered P (ex_len L) zs rs))"

lemma semi_search_spec:
  assumes ok: semi_ok and l: "l \<in> set ls" and "s_left j = Some l" and "world w" and "atR (sr_obj j) (map Some rs')" and "set rs' \<subseteq> set rs"
  shows "\<exists>r' w'. semi_search L R conds (j, w) = (Inr (\<exists>r \<in> set rs'. P l r), (j\<lparr>sr_obj := r'\<rparr>, w')) \<and> world w'"
  using assms(3-)
proof (induction rs' arbitrary: j w)
  case Nil
  then have at: "atR (sr_obj j) []" by simp
  have "semi_try L R conds (j, w) = (Inr (Some False), (j\<lparr>sr_obj := sr_obj j\<rparr>, w))"
    using R.end_at [OF Nil.prems(2) at] by (simp add: semi_try_def bindE_apply on_semi)
  then have "semi_search L R conds (j, w) = (Inr False, (j\<lparr>sr_obj := sr_obj j\<rparr>, w))" unfolding semi_search_def by (rule until_Some)
  then show ?case using Nil.prems(2) by (intro exI [of _ "sr_obj j"] exI [of _ w]) simp
next
  case (Cons r rs')
  have at: "atR (sr_obj j) (Some r # map Some rs')" using Cons.prems(3) by simp
  obtain r1 w1 where f: "ex_fetch R (sr_obj j, w) = (Inr (Some r), (r1, w1))" "world w1" "takenR r1 (Some r # map Some rs')"
    using R.fetch_at [OF Cons.prems(2) at] by blast
  obtain r2 w2 where s: "ex_step R (r1, w1) = (Inr (), (r2, w2))" "world w2" "atR r2 (map Some rs')"
    using R.step_taken [OF f(2,3)] by blast
  have c: "semi_conds (ex_cols L) (ex_cols R) conds (Some l) (Some r) = Inr (P l r)"
    using ok l Cons.prems(4) by (simp add: semi_ok_def)
  have t: "semi_try L R conds (j, w) = (Inr (if P l r then Some True else None), (j\<lparr>sr_obj := r2\<rparr>, w2))"
    using R.end_at [OF Cons.prems(2) at] c Cons.prems(1) by (simp add: semi_try_def bindE_apply on_semi f(1) s(1))
  show ?case
  proof (cases "P l r")
    case True
    then show ?thesis using until_Some [of "semi_try L R conds"] t s(2) unfolding semi_search_def by auto
  next
    case False
    obtain r' w' where i: "semi_search L R conds (j\<lparr>sr_obj := r2\<rparr>, w2) = (Inr (\<exists>r \<in> set rs'. P l r), (j\<lparr>sr_obj := r'\<rparr>, w'))" "world w'"
      using Cons.IH [of "j\<lparr>sr_obj := r2\<rparr>" w2] Cons.prems(1,4) s(2,3) by auto
    then have "semi_search L R conds (j, w) = (Inr (\<exists>r \<in> set rs'. P l r), (j\<lparr>sr_obj := r'\<rparr>, w'))"
      using until_None [of "semi_try L R conds"] t False unfolding semi_search_def by auto
    then show ?thesis using i(2) False by auto
  qed
qed

lemma semi_advance_spec:
  assumes w: "world w" and a: "left_at j (l # zs)"
  shows "\<exists>j' w'. semi_advance L (j, w) = (Inr (zs = []), (j', w')) \<and> world w' \<and> left_at j' zs \<and> s_next j' = s_next j"
proof -
  have tk: "takenL (sl_obj j) (Some l # map Some zs)" using a by (simp add: left_at_def)
  obtain l1 w1 where s: "ex_step L (sl_obj j, w) = (Inr (), (l1, w1))" "world w1" "atL l1 (map Some zs)"
    using L.step_taken [OF w tk] by blast
  note el = L.end_at [OF s(2,3)]
  show ?thesis
  proof (cases zs)
    case Nil
    have "semi_advance L (j, w) = (Inr True, (j\<lparr>sl_obj := l1, s_end := True\<rparr>, w1))"
      using el Nil by (simp add: semi_advance_def bindE_apply on_semi s(1))
    then show ?thesis using Nil s(2) a by (simp add: left_at_def)
  next
    case (Cons l' zs')
    obtain l2 w2 where f: "ex_fetch L (l1, w1) = (Inr (Some l'), (l2, w2))" "world w2" "takenL l2 (map Some (l' # zs'))"
      using L.fetch_at [OF s(2), of l1 "Some l'" "map Some zs'"] s(3) Cons by auto
    have "semi_advance L (j, w) = (Inr False, (j\<lparr>sl_obj := l2, s_left := Some l'\<rparr>, w2))"
      using el Cons by (simp add: semi_advance_def bindE_apply on_semi s(1) f(1))
    then show ?thesis using Cons f(2,3) a by (simp add: left_at_def)
  qed
qed

lemma semi_rounds_spec:
  assumes "world w" and "left_at j zs" and "zs \<noteq> []"
  shows "\<exists>j' w'. rounds (semi_round L R conds) (j, w) = (Inr (), (j', w')) \<and> world w' \<and> at_semi j' (map Some (partnered P (ex_len L) zs rs))"
  using assms
proof (induction zs arbitrary: j w)
  case Nil
  then show ?case by simp
next
  case (Cons l zs)
  note w = Cons.prems(1) and a = Cons.prems(2) [unfolded left_at_def]
  have ok: semi_ok and l: "l \<in> set ls" and left: "s_left j = Some l" and fr: "freshR (sr_obj j)" using a by simp_all
  obtain r1 w1 where b: "ex_begin R (sr_obj j, w) = (Inr (), (r1, w1))" "world w1" "atR r1 (map Some rs)"
    using R.begin_at [OF w fr] by blast
  obtain r2 w2 where s: "semi_search L R conds (j\<lparr>sr_obj := r1\<rparr>, w1) = (Inr (\<exists>r \<in> set rs. P l r), (j\<lparr>sr_obj := r2\<rparr>, w2))" "world w2"
    using semi_search_spec [OF ok l _ b(2), of "j\<lparr>sr_obj := r1\<rparr>" rs] left b(3) by auto
  have at2: "left_at (j\<lparr>sr_obj := r2\<rparr>) (l # zs)" using a R.fresh_any [OF fr] by (simp add: left_at_def)
  show ?case
  proof (cases "\<exists>r \<in> set rs. P l r")
    case True
    let ?j = "j\<lparr>sr_obj := r2, s_next := Some (take (nat (ex_len L)) l)\<rparr>"
    have len: "0 \<le> ex_len L" "ex_len L \<le> int (length l)" using ok l by (simp_all add: semi_ok_def)
    have "semi_round L R conds (j, w) = (Inr True, (?j, w2))"
      using True len left by (simp add: semi_round_def bindE_apply on_semi b(1) s(1) [unfolded on_semi] new_record_def deref_copy_Some)
    then have "rounds (semi_round L R conds) (j, w) = (Inr (), (?j, w2))" by (rule rounds_True)
    moreover have "left_at ?j (l # zs)" using at2 by (simp add: left_at_def)
    then have "at_semi ?j (map Some (partnered P (ex_len L) (l # zs) rs))" using True by (auto simp: at_semi_def)
    ultimately show ?thesis using s(2) by blast
  next
    case False
    obtain j3 w3 where v: "semi_advance L (j\<lparr>sr_obj := r2\<rparr>, w2) = (Inr (zs = []), (j3, w3))" "world w3" "left_at j3 zs"
      using semi_advance_spec [OF s(2) at2] by blast
    have r: "semi_round L R conds (j, w) = (Inr (zs = []), (j3, w3))"
      using False by (simp add: semi_round_def bindE_apply on_semi b(1) s(1) v(1))
    have rows: "partnered P (ex_len L) (l # zs) rs = partnered P (ex_len L) zs rs" using False by auto
    show ?thesis
    proof (cases "zs = []")
      case True
      then show ?thesis using rounds_True [of "semi_round L R conds"] r v(2,3) rows by (auto simp: at_semi_def left_at_def)
    next
      case more: False
      obtain j4 w4 where i: "rounds (semi_round L R conds) (j3, w3) = (Inr (), (j4, w4))" "world w4"
        "at_semi j4 (map Some (partnered P (ex_len L) zs rs))"
        using Cons.IH [OF v(2,3) more] by blast
      have "rounds (semi_round L R conds) (j, w) = (Inr (), (j4, w4))"
        using rounds_False [of "semi_round L R conds"] r more i(1) by simp
      then show ?thesis using i(2,3) rows by auto
    qed
  qed
qed

lemma semi_next_spec:
  assumes "world w" and "left_at j zs"
  shows "\<exists>j' w'. semi_next L R conds (j, w) = (Inr (), (j', w')) \<and> world w' \<and> at_semi j' (map Some (partnered P (ex_len L) zs rs))"
proof (cases "zs = []")
  case True
  then show ?thesis using assms by (simp add: semi_next_def bindE_apply left_at_def at_semi_def)
next
  case False
  then have "\<not> s_end j" using assms(2) by (auto simp: left_at_def split: list.splits)
  then show ?thesis using semi_rounds_spec [OF assms False] by (simp add: semi_next_def bindE_apply)
qed

lemma semi_begin_spec:
  assumes w: "world w" and f: "semi_ok \<and> \<not> s_end j \<and> freshL (sl_obj j) \<and> freshR (sr_obj j)"
  shows "\<exists>j' w'. semi_begin L R conds (j, w) = (Inr (), (j', w')) \<and> world w' \<and> at_semi j' (map Some (partnered P (ex_len L) ls rs))"
proof -
  obtain l1 w1 where b: "ex_begin L (sl_obj j, w) = (Inr (), (l1, w1))" "world w1" "atL l1 (map Some ls)"
    using L.begin_at [OF w, of "sl_obj j"] f by auto
  note el = L.end_at [OF b(2,3)]
  show ?thesis
  proof (cases ls)
    case Nil
    have "at_semi (j\<lparr>sl_obj := l1, s_end := True\<rparr>) []" by (simp add: at_semi_def)
    moreover have "map Some (partnered P (ex_len L) ls rs) = []" by (simp add: Nil)
    moreover have "semi_begin L R conds (j, w) = (Inr (), (j\<lparr>sl_obj := l1, s_end := True\<rparr>, w1))"
      using el Nil by (simp add: semi_begin_def bindE_apply on_semi b(1))
    ultimately show ?thesis using b(2) by metis
  next
    case (Cons l zs)
    obtain l2 w2 where g: "ex_fetch L (l1, w1) = (Inr (Some l), (l2, w2))" "world w2" "takenL l2 (map Some (l # zs))"
      using L.fetch_at [OF b(2), of l1 "Some l" "map Some zs"] b(3) Cons by auto
    let ?j = "j\<lparr>sl_obj := l2, s_left := Some l\<rparr>"
    have "semi_begin L R conds (j, w) = semi_next L R conds (?j, w2)"
      using el Cons by (simp add: semi_begin_def bindE_apply on_semi b(1) g(1))
    moreover have "set (l # zs) \<subseteq> set ls" and rows: "partnered P (ex_len L) ls rs = partnered P (ex_len L) (l # zs) rs"
      by (simp_all only: Cons order_refl)
    then have "left_at ?j (l # zs)" using f g(3) by (simp add: left_at_def)
    ultimately show ?thesis using semi_next_spec [OF g(2)] unfolding rows by metis
  qed
qed

sublocale semi: tuple_source "semi_join L R conds" world "\<lambda>j. semi_ok \<and> \<not> s_end j \<and> freshL (sl_obj j) \<and> freshR (sr_obj j)"
    "map Some (partnered P (ex_len L) ls rs)" at_semi taken_semi
proof
  fix w and j :: "('l, 'r) semi_obj" assume "world w" "semi_ok \<and> \<not> s_end j \<and> freshL (sl_obj j) \<and> freshR (sr_obj j)"
  then show "\<exists>j' w'. ex_begin (semi_join L R conds) (j, w) = (Inr (), (j', w')) \<and> world w' \<and>
      at_semi j' (map Some (partnered P (ex_len L) ls rs))"
    using semi_begin_spec by (simp add: semi_join_def)
next
  fix w and j :: "('l, 'r) semi_obj" and xs assume "world w" "at_semi j xs"
  then show "ex_end (semi_join L R conds) (j, w) = (Inr (xs = []), (j, w))"
    by (auto simp: semi_join_def bindE_apply at_semi_def left_at_def split: list.splits)
next
  fix w and j :: "('l, 'r) semi_obj" and x xs assume w: "world w" and "at_semi j (x # xs)"
  then obtain l zs where a: "left_at j (l # zs)" "s_next j = x" "x \<noteq> None" "xs = map Some (partnered P (ex_len L) zs rs)"
    by (auto simp: at_semi_def)
  let ?j = "j\<lparr>s_next := None\<rparr>"
  have "left_at ?j (l # zs)" using a(1) by (simp add: left_at_def)
  then obtain j' w' where v: "semi_advance L (?j, w) = (Inr (zs = []), (j', w'))" "world w'" "left_at j' zs"
    using semi_advance_spec [OF w] by blast
  have "semi_fetch L R conds (j, w) = (Inr x, (j', w'))"
    using a(2,3) by (auto simp: semi_fetch_def bindE_apply v(1))
  then show "\<exists>j' w'. ex_fetch (semi_join L R conds) (j, w) = (Inr x, (j', w')) \<and> world w' \<and> taken_semi j' (x # xs)"
    using v(2,3) a(4) by (auto simp: semi_join_def taken_semi_def)
next
  fix w and j :: "('l, 'r) semi_obj" and x xs assume "world w" "taken_semi j (x # xs)"
  then show "\<exists>j' w'. ex_step (semi_join L R conds) (j, w) = (Inr (), (j', w')) \<and> world w' \<and> at_semi j' xs"
    using semi_next_spec by (auto simp: taken_semi_def semi_join_def)
qed

end

end
