(* ===== verification/ExecUnary.thy ===== *)
theory ExecUnary
  imports Exec
begin

text \<open>
  The executors with one child: \<^verbatim>\<open>execution/executor_filter.h\<close>, \<^verbatim>\<open>execution/executor_projection.h\<close> and
  \<^verbatim>\<open>execution/execution_sort.h\<close>. Each has a locale over its child (\<open>filtered\<close>, \<open>projected\<close>, \<open>ordered\<close>) in which
  it is again a \<open>tuple_source\<close>, with its rows as a function of those of the child.
\<close>

section \<open>The filter\<close>

text \<open>\<open>eval_conds()\<close> without an argument fetches the row of the child.\<close>

definition filter_eval :: "('o, 'w) executor \<Rightarrow> Condition list \<Rightarrow> ('o \<times> 'w, bool) op" where
  "filter_eval ch conds = bindE (ex_end ch) (\<lambda>e.
     if e then ret False
     else bindE (ex_fetch ch) (\<lambda>r. case r of
            None \<Rightarrow> ret False
          | Some v \<Rightarrow> lift_result (eval_conds trim_char conds v (ex_cols ch))))"

definition filter_round :: "('o, 'w) executor \<Rightarrow> Condition list \<Rightarrow> ('o \<times> 'w, bool) op" where
  "filter_round ch conds = bindE (ex_step ch) (\<lambda>_. bindE (ex_end ch) (\<lambda>e.
     if e then ret True else filter_eval ch conds))"

definition filter_next :: "('o, 'w) executor \<Rightarrow> Condition list \<Rightarrow> ('o \<times> 'w, unit) op" where
  "filter_next ch conds = rounds (filter_round ch conds)"

definition filter_fetch :: "('o, 'w) executor \<Rightarrow> Condition list \<Rightarrow> ('o \<times> 'w, byte list option) op" where
  "filter_fetch ch conds = bindE (ex_fetch ch) (\<lambda>r. case r of
       None \<Rightarrow> ret None
     | Some v \<Rightarrow> bindE (lift_result (eval_conds trim_char conds v (ex_cols ch))) (\<lambda>b.
         if b then ret (Some v)
         else bindE (filter_next ch conds) (\<lambda>_. bindE (ex_end ch) (\<lambda>e.
              if e then ret None else ex_fetch ch))))"

definition filter_exec :: "('o, 'w) executor \<Rightarrow> Condition list \<Rightarrow> ('o, 'w) executor" where
  "filter_exec ch conds = ch\<lparr>ex_step := filter_next ch conds, ex_fetch := filter_fetch ch conds\<rparr>"

text \<open>
  \<open>beginTuple\<close> does not move to the first match. When the child has rows and none of them satisfies the
  conditions, the filter is not at its end and its \<open>Next\<close> returns \<open>nullptr\<close> once.
\<close>

definition filter_rows :: "('a \<Rightarrow> bool) \<Rightarrow> 'a list \<Rightarrow> 'a option list" where
  "filter_rows P xs = (if xs \<noteq> [] \<and> filter P xs = [] then [None] else map Some (filter P xs))"

lemma the_rows_filter: "the_rows (filter_rows P xs) = filter P xs"
  by (simp add: filter_rows_def)

lemma filter_rows_dropWhile: "filter P xs = filter P (dropWhile (\<lambda>v. \<not> P v) xs)"
  by (induction xs) auto

locale filtered = peekable_source ch world fresh "map Some ls" at taken
  for ch :: "('o, 'w) executor" and world :: "'w \<Rightarrow> bool" and fresh :: "'o \<Rightarrow> bool" and ls :: "byte list list"
    and at taken :: "'o \<Rightarrow> byte list option list \<Rightarrow> bool" +
  fixes conds :: "Condition list" and P :: "byte list \<Rightarrow> bool"
begin

definition conds_ok :: bool where
  "conds_ok \<longleftrightarrow> (\<forall>v \<in> set ls. eval_conds trim_char conds v (ex_cols ch) = Inr (P v))"

definition at_filter :: "'o \<Rightarrow> byte list option list \<Rightarrow> bool" where
  "at_filter o1 ys \<longleftrightarrow> conds_ok \<and> (\<exists>xs. set xs \<subseteq> set ls \<and> at o1 (map Some xs) \<and> ys = filter_rows P xs)"

definition taken_filter :: "'o \<Rightarrow> byte list option list \<Rightarrow> bool" where
  "taken_filter o1 ys \<longleftrightarrow> conds_ok \<and>
     ((\<exists>x xs. set xs \<subseteq> set ls \<and> taken o1 (map Some (x # xs)) \<and> ys = map Some (x # filter P xs)) \<or> at o1 [] \<and> ys = [None])"

lemma filter_next_spec:
  assumes ok: conds_ok and "world w" and "set xs \<subseteq> set ls" and "taken o1 (Some x # map Some xs)"
  shows "\<exists>o' w'. filter_next ch conds (o1, w) = (Inr (), (o', w')) \<and> world w' \<and> at o' (map Some (dropWhile (\<lambda>v. \<not> P v) xs))"
  using assms(2-)
proof (induction xs arbitrary: x o1 w)
  case Nil
  obtain o2 w2 where s: "ex_step ch (o1, w) = (Inr (), (o2, w2))" "world w2" "at o2 []"
    using step_taken [OF Nil(1,3)] by auto
  have "filter_round ch conds (o1, w) = (Inr True, (o2, w2))"
    using end_at [OF s(2,3)] by (simp add: filter_round_def bindE_apply s(1))
  then show ?case using rounds_True [of "filter_round ch conds"] s(2,3) by (simp add: filter_next_def)
next
  case (Cons y ys)
  obtain o2 w2 where s: "ex_step ch (o1, w) = (Inr (), (o2, w2))" "world w2" "at o2 (Some y # map Some ys)"
    using step_taken [OF Cons.prems(1,3)] by auto
  obtain o3 w3 where f: "ex_fetch ch (o2, w2) = (Inr (Some y), (o3, w3))" "world w3" "taken o3 (Some y # map Some ys)"
    using fetch_at [OF s(2,3)] by blast
  have y: "eval_conds trim_char conds y (ex_cols ch) = Inr (P y)" and ys: "set ys \<subseteq> set ls"
    using ok Cons.prems(2) by (simp_all add: conds_ok_def)
  have r: "filter_round ch conds (o1, w) = (Inr (P y), (o3, w3))"
    using end_at [OF s(2,3)] by (simp add: filter_round_def filter_eval_def bindE_apply s(1) f(1) y)
  show ?case
  proof (cases "P y")
    case True
    then show ?thesis
      using rounds_True [of "filter_round ch conds"] r f(2) taken_at [OF f(3)] by (auto simp: filter_next_def)
  next
    case False
    obtain o4 w4 where i: "filter_next ch conds (o3, w3) = (Inr (), (o4, w4))" "world w4"
      "at o4 (map Some (dropWhile (\<lambda>v. \<not> P v) ys))"
      using Cons.IH [OF f(2) ys f(3)] by blast
    have "filter_next ch conds (o1, w) = (Inr (), (o4, w4))"
      using rounds_False [of "filter_round ch conds"] r False i(1) by (simp add: filter_next_def)
    then show ?thesis using i(2,3) False by auto
  qed
qed

lemma filter_next_rows:
  assumes ok: conds_ok and "world w" and xs: "set xs \<subseteq> set ls" and "taken o1 (Some x # map Some xs)"
  shows "\<exists>o' w'. filter_next ch conds (o1, w) = (Inr (), (o', w')) \<and> world w' \<and> at_filter o' (map Some (filter P xs))"
proof -
  let ?ys = "dropWhile (\<lambda>v. \<not> P v) xs"
  obtain o' w' where i: "filter_next ch conds (o1, w) = (Inr (), (o', w'))" "world w'" "at o' (map Some ?ys)"
    using filter_next_spec [OF assms] by blast
  have "?ys = [] \<or> filter P ?ys \<noteq> []" using hd_dropWhile [of "\<lambda>v. \<not> P v" xs] by (cases ?ys) auto
  then have "map Some (filter P xs) = filter_rows P ?ys"
    using filter_rows_dropWhile [of P xs] by (auto simp: filter_rows_def)
  moreover have "set ?ys \<subseteq> set ls" using xs set_dropWhileD by fastforce
  ultimately show ?thesis using i ok by (auto simp: at_filter_def)
qed

lemma filter_fetch_spec:
  assumes w: "world w" and "at_filter o1 (y # ys)"
  shows "\<exists>o' w'. filter_fetch ch conds (o1, w) = (Inr y, (o', w')) \<and> world w' \<and> taken_filter o' (y # ys)"
proof -
  obtain xs where xs: "set xs \<subseteq> set ls" "at o1 (map Some xs)" "y # ys = filter_rows P xs" and ok: conds_ok
    using assms(2) by (auto simp: at_filter_def)
  then obtain x xs' where x: "xs = x # xs'" by (cases xs) (auto simp: filter_rows_def)
  have at: "at o1 (Some x # map Some xs')" using xs(2) x by simp
  obtain o2 w2 where f: "ex_fetch ch (o1, w) = (Inr (Some x), (o2, w2))" "world w2" "taken o2 (Some x # map Some xs')"
    using fetch_at [OF w at] by blast
  have e: "eval_conds trim_char conds x (ex_cols ch) = Inr (P x)" and sub: "set xs' \<subseteq> set ls"
    using ok xs(1) x by (simp_all add: conds_ok_def)
  show ?thesis
  proof (cases "P x")
    case True
    then have "filter_fetch ch conds (o1, w) = (Inr (Some x), (o2, w2))" by (simp add: filter_fetch_def bindE_apply f(1) e)
    moreover have "y = Some x" "ys = map Some (filter P xs')" using xs(3) x True by (simp_all add: filter_rows_def)
    moreover have "taken_filter o2 (map Some (x # filter P xs'))" using ok sub f(3) by (auto simp: taken_filter_def)
    ultimately show ?thesis using f(2) by simp
  next
    case False
    let ?zs = "dropWhile (\<lambda>v. \<not> P v) xs'"
    obtain o3 w3 where i: "filter_next ch conds (o2, w2) = (Inr (), (o3, w3))" "world w3" "at o3 (map Some ?zs)"
      using filter_next_spec [OF ok f(2) sub f(3)] by blast
    note en = end_at [OF i(2,3)]
    have flt: "filter P xs' = filter P ?zs" by (rule filter_rows_dropWhile)
    show ?thesis
    proof (cases ?zs)
      case Nil
      have "filter_fetch ch conds (o1, w) = (Inr None, (o3, w3))"
        using False en Nil by (simp add: filter_fetch_def bindE_apply f(1) e i(1))
      moreover have "y = None" "ys = []" using xs(3) x False flt Nil by (simp_all add: filter_rows_def)
      ultimately show ?thesis using i(2,3) ok Nil by (simp add: taken_filter_def)
    next
      case (Cons z zs)
      have z: "P z" using hd_dropWhile [of "\<lambda>v. \<not> P v" xs'] Cons by simp
      have at3: "at o3 (Some z # map Some zs)" using i(3) Cons by simp
      obtain o4 w4 where g: "ex_fetch ch (o3, w3) = (Inr (Some z), (o4, w4))" "world w4" "taken o4 (Some z # map Some zs)"
        using fetch_at [OF i(2) at3] by blast
      have "filter_fetch ch conds (o1, w) = (Inr (Some z), (o4, w4))"
        using False en Cons by (simp add: filter_fetch_def bindE_apply f(1) e i(1) g(1))
      moreover have "y = Some z" "ys = map Some (filter P zs)" using xs(3) x False flt Cons z by (simp_all add: filter_rows_def)
      moreover have "set zs \<subseteq> set ls" using sub set_dropWhileD [of _ "\<lambda>v. \<not> P v" xs'] Cons by auto
      then have "taken_filter o4 (map Some (z # filter P zs))" using ok g(3) by (auto simp: taken_filter_def)
      ultimately show ?thesis using g(2) by simp
    qed
  qed
qed

sublocale filter: tuple_source "filter_exec ch conds" world "\<lambda>o1. conds_ok \<and> fresh o1" "filter_rows P ls" at_filter taken_filter
proof
  fix w o1 assume "world w" "conds_ok \<and> fresh o1"
  then show "\<exists>o' w'. ex_begin (filter_exec ch conds) (o1, w) = (Inr (), (o', w')) \<and> world w' \<and> at_filter o' (filter_rows P ls)"
    using begin_at [of w o1] by (fastforce simp: filter_exec_def at_filter_def)
next
  fix w o1 ys assume "world w" "at_filter o1 ys"
  then show "ex_end (filter_exec ch conds) (o1, w) = (Inr (ys = []), (o1, w))"
    using end_at [of w o1] by (auto simp: filter_exec_def at_filter_def filter_rows_def)
next
  fix w o1 y ys assume "world w" "at_filter o1 (y # ys)"
  then show "\<exists>o' w'. ex_fetch (filter_exec ch conds) (o1, w) = (Inr y, (o', w')) \<and> world w' \<and> taken_filter o' (y # ys)"
    using filter_fetch_spec by (simp add: filter_exec_def)
next
  fix w o1 y ys assume w: "world w" and "taken_filter o1 (y # ys)"
  then consider x xs where "conds_ok" "set xs \<subseteq> set ls" "taken o1 (Some x # map Some xs)" "ys = map Some (filter P xs)"
    | "conds_ok" "at o1 []" "ys = []"
    by (auto simp: taken_filter_def)
  then show "\<exists>o' w'. ex_step (filter_exec ch conds) (o1, w) = (Inr (), (o', w')) \<and> world w' \<and> at_filter o' ys"
  proof cases
    case 1
    then show ?thesis using filter_next_rows [OF _ w] by (simp add: filter_exec_def)
  next
    case 2
    obtain o2 w2 where s: "ex_step ch (o1, w) = (Inr (), (o2, w2))" "world w2" "at o2 []"
      using step_end [OF w 2(2)] by blast
    have "filter_round ch conds (o1, w) = (Inr True, (o2, w2))"
      using end_at [OF s(2,3)] by (simp add: filter_round_def bindE_apply s(1))
    then have "filter_next ch conds (o1, w) = (Inr (), (o2, w2))"
      using rounds_True [of "filter_round ch conds"] by (simp add: filter_next_def)
    then show ?thesis using 2 s(2,3) by (auto simp: filter_exec_def at_filter_def filter_rows_def intro!: exI [of _ "[]"])
  qed
qed

end

section \<open>The projection\<close>

record 'c proj_obj =
  pr_child :: 'c
  pr_count :: int

text \<open>
  The constructor: each selected column of the child with the column it becomes. \<open>sel_idxs_\<close> and \<open>prev_cols\<close>
  together are the first components.
\<close>

fun proj_cols :: "ColMeta list \<Rightarrow> TabCol list \<Rightarrow> int \<Rightarrow> db_error + (ColMeta \<times> ColMeta) list" where
  "proj_cols prev_cols [] offset = Inr []"
| "proj_cols prev_cols (sel # sels) offset =
     bindR (exec_get_col prev_cols sel) (\<lambda>c.
     bindR (proj_cols prev_cols sels (offset + cm_len c)) (\<lambda>pcs.
     Inr ((c, c\<lparr>cm_offset := offset, cm_name := tc_col sel\<rparr>) # pcs)))"

definition new_projection :: "ColMeta list \<Rightarrow> TabCol list \<Rightarrow> db_error + (ColMeta \<times> ColMeta) list" where
  "new_projection prev_cols sel_cols =
     (if prev_cols = [] then Inl (InternalError ''ProjectionExecutor: prev has no columns'') else proj_cols prev_cols sel_cols 0)"

definition proj_len :: "(ColMeta \<times> ColMeta) list \<Rightarrow> int" where
  "proj_len pcs = (\<Sum>(c, c') \<leftarrow> pcs. cm_len c)"

text \<open>The columns are copied next to each other, which is where the offsets of the new columns are.\<close>

fun proj_bytes :: "(ColMeta \<times> ColMeta) list \<Rightarrow> byte list \<Rightarrow> db_error + byte list" where
  "proj_bytes [] v = Inr []"
| "proj_bytes ((c, c') # pcs) v =
     bindR (bytes_at v (cm_offset c) (cm_len c)) (\<lambda>x. bindR (proj_bytes pcs v) (\<lambda>y. Inr (x @ y)))"

definition new_proj :: "'c \<Rightarrow> 'c proj_obj" where
  "new_proj c = \<lparr>pr_child = c, pr_count = 0\<rparr>"

definition on_proj :: "('c \<times> 'w, 'a) op \<Rightarrow> ('c proj_obj \<times> 'w, 'a) op" where
  "on_proj = on_part pr_child (\<lambda>c p. p\<lparr>pr_child := c\<rparr>)"

definition limit_hit :: "int \<Rightarrow> int \<Rightarrow> bool" where
  "limit_hit limit count \<longleftrightarrow> limit > 0 \<and> count \<ge> limit"

definition proj_end :: "('c, 'w) executor \<Rightarrow> int \<Rightarrow> ('c proj_obj \<times> 'w, bool) op" where
  "proj_end ch limit = bindE (on_proj (ex_end ch)) (\<lambda>e.
     if e then ret True else bindE get_obj (\<lambda>p. ret (limit_hit limit (pr_count p))))"

definition proj_fetch :: "('c, 'w) executor \<Rightarrow> (ColMeta \<times> ColMeta) list \<Rightarrow> int \<Rightarrow> ('c proj_obj \<times> 'w, byte list option) op" where
  "proj_fetch ch pcs limit = bindE (on_proj (ex_end ch)) (\<lambda>e.
     if e then ret None
     else bindE get_obj (\<lambda>p.
          if limit_hit limit (pr_count p) then ret None
          else bindE (on_proj (ex_fetch ch)) (\<lambda>r. case r of
                 None \<Rightarrow> ret None
               | Some v \<Rightarrow>
                   bindE (new_record (proj_len pcs)) (\<lambda>_.
                   bindE (lift_result (proj_bytes pcs v)) (\<lambda>x.
                   bindE (upd_obj (\<lambda>p. p\<lparr>pr_count := c_int (pr_count p + 1)\<rparr>)) (\<lambda>_. ret (Some x)))))))"

definition proj_exec :: "('c, 'w) executor \<Rightarrow> (ColMeta \<times> ColMeta) list \<Rightarrow> int \<Rightarrow> ('c proj_obj, 'w) executor" where
  "proj_exec ch pcs limit =
     \<lparr>ex_begin = bindE (on_proj (ex_begin ch)) (\<lambda>_. upd_obj (\<lambda>p. p\<lparr>pr_count := 0\<rparr>)),
      ex_step = on_proj (ex_step ch), ex_end = proj_end ch limit, ex_fetch = proj_fetch ch pcs limit,
      ex_rid = (\<lambda>_. invalid_rid), ex_cols = map snd pcs, ex_len = proj_len pcs\<rparr>"

text \<open>The rows of a projection: up to the limit when there is one.\<close>

fun proj_rows :: "int \<Rightarrow> ('a \<Rightarrow> 'b) \<Rightarrow> int \<Rightarrow> 'a option list \<Rightarrow> 'b option list" where
  "proj_rows limit f count [] = []"
| "proj_rows limit f count (x # xs) =
     (if limit_hit limit count then []
      else case x of
             None \<Rightarrow> None # proj_rows limit f count xs
           | Some v \<Rightarrow> Some (f v) # proj_rows limit f (c_int (count + 1)) xs)"

lemma proj_rows_unlimited: "limit \<le> 0 \<Longrightarrow> proj_rows limit f count xs = map (map_option f) xs"
  by (induction xs arbitrary: count) (auto simp: limit_hit_def split: option.split)

lemma proj_rows_nil: "proj_rows limit f count xs = [] \<longleftrightarrow> xs = [] \<or> limit_hit limit count"
  by (cases xs) (auto split: option.split)

locale projected = tuple_source ch world fresh xs at taken
  for ch :: "('c, 'w) executor" and world :: "'w \<Rightarrow> bool" and fresh :: "'c \<Rightarrow> bool" and xs :: "byte list option list"
    and at taken :: "'c \<Rightarrow> byte list option list \<Rightarrow> bool" +
  fixes pcs :: "(ColMeta \<times> ColMeta) list" and limit :: int and f :: "byte list \<Rightarrow> byte list"
begin

definition proj_ok :: bool where
  "proj_ok \<longleftrightarrow> 0 \<le> proj_len pcs \<and> (\<forall>v. Some v \<in> set xs \<longrightarrow> proj_bytes pcs v = Inr (f v))"

definition at_proj :: "'c proj_obj \<Rightarrow> byte list option list \<Rightarrow> bool" where
  "at_proj p ys \<longleftrightarrow> proj_ok \<and> (\<exists>zs. set zs \<subseteq> set xs \<and> at (pr_child p) zs \<and> ys = proj_rows limit f (pr_count p) zs)"

definition taken_proj :: "'c proj_obj \<Rightarrow> byte list option list \<Rightarrow> bool" where
  "taken_proj p ys \<longleftrightarrow> proj_ok \<and>
     (\<exists>z zs. set zs \<subseteq> set xs \<and> taken (pr_child p) (z # zs) \<and> ys = map_option f z # proj_rows limit f (pr_count p) zs)"

lemma proj_fetch_spec:
  assumes w: "world w" and "at_proj p (y # ys)"
  shows "\<exists>p' w'. proj_fetch ch pcs limit (p, w) = (Inr y, (p', w')) \<and> world w' \<and> taken_proj p' (y # ys)"
proof -
  obtain zs where zs: "set zs \<subseteq> set xs" "at (pr_child p) zs" "y # ys = proj_rows limit f (pr_count p) zs" and ok: proj_ok
    using assms(2) by (auto simp: at_proj_def)
  then obtain z zs' where z: "zs = z # zs'" by (cases zs) auto
  then have more: "\<not> limit_hit limit (pr_count p)" using zs(3) by auto
  have at: "at (pr_child p) (z # zs')" and sub: "set zs' \<subseteq> set xs" using zs(1,2) z by simp_all
  note e = end_at [OF w at]
  obtain c2 w2 where f: "ex_fetch ch (pr_child p, w) = (Inr z, (c2, w2))" "world w2" "taken c2 (z # zs')"
    using fetch_at [OF w at] by blast
  show ?thesis
  proof (cases z)
    case None
    have "proj_fetch ch pcs limit (p, w) = (Inr None, (p\<lparr>pr_child := c2\<rparr>, w2))"
      using None more by (simp add: proj_fetch_def bindE_apply on_proj_def on_part_def e f(1))
    moreover have "y = None" "ys = proj_rows limit f (pr_count p) zs'" using zs(3) z None more by simp_all
    moreover have "taken_proj (p\<lparr>pr_child := c2\<rparr>) (None # proj_rows limit f (pr_count p) zs')"
      unfolding taken_proj_def using ok sub f(3) None by (intro conjI exI [of _ z] exI [of _ zs']) simp_all
    ultimately show ?thesis using f(2) by blast
  next
    case (Some v)
    let ?p = "p\<lparr>pr_child := c2, pr_count := c_int (pr_count p + 1)\<rparr>"
    have "Some v \<in> set xs" using zs(1) z Some by auto
    then have v: "proj_bytes pcs v = Inr (f v)" "0 \<le> proj_len pcs" using ok by (auto simp: proj_ok_def)
    have "proj_fetch ch pcs limit (p, w) = (Inr (Some (f v)), (?p, w2))"
      using Some more v by (simp add: proj_fetch_def bindE_apply on_proj_def on_part_def e f(1) new_record_def)
    moreover have "y = Some (f v)" "ys = proj_rows limit f (pr_count ?p) zs'" using zs(3) z Some more by simp_all
    moreover have "taken_proj ?p (Some (f v) # proj_rows limit f (pr_count ?p) zs')"
      unfolding taken_proj_def using ok sub f(3) Some by (intro conjI exI [of _ z] exI [of _ zs']) simp_all
    ultimately show ?thesis using f(2) by blast
  qed
qed

sublocale proj: tuple_source "proj_exec ch pcs limit" world "\<lambda>p. proj_ok \<and> fresh (pr_child p)" "proj_rows limit f 0 xs" at_proj taken_proj
proof
  fix w and p :: "'c proj_obj" assume a: "world w" "proj_ok \<and> fresh (pr_child p)"
  then obtain c w' where "ex_begin ch (pr_child p, w) = (Inr (), (c, w'))" "world w'" "at c xs"
    using begin_at [of w "pr_child p"] by blast
  then show "\<exists>p' w'. ex_begin (proj_exec ch pcs limit) (p, w) = (Inr (), (p', w')) \<and> world w' \<and> at_proj p' (proj_rows limit f 0 xs)"
    using a by (auto simp: proj_exec_def bindE_apply on_proj_def on_part_def at_proj_def)
next
  fix w and p :: "'c proj_obj" and ys assume w: "world w" and "at_proj p ys"
  then obtain zs where zs: "at (pr_child p) zs" "ys = proj_rows limit f (pr_count p) zs" by (auto simp: at_proj_def)
  show "ex_end (proj_exec ch pcs limit) (p, w) = (Inr (ys = []), (p, w))"
    using end_at [OF w zs(1)] zs(2)
    by (simp add: proj_exec_def proj_end_def bindE_apply on_proj_def on_part_def proj_rows_nil)
next
  fix w and p :: "'c proj_obj" and y ys assume "world w" "at_proj p (y # ys)"
  then show "\<exists>p' w'. ex_fetch (proj_exec ch pcs limit) (p, w) = (Inr y, (p', w')) \<and> world w' \<and> taken_proj p' (y # ys)"
    using proj_fetch_spec by (simp add: proj_exec_def)
next
  fix w and p :: "'c proj_obj" and y ys assume w: "world w" and "taken_proj p (y # ys)"
  then obtain z zs where z: "set zs \<subseteq> set xs" "taken (pr_child p) (z # zs)" "ys = proj_rows limit f (pr_count p) zs" and ok: proj_ok
    by (auto simp: taken_proj_def)
  obtain c w' where "ex_step ch (pr_child p, w) = (Inr (), (c, w'))" "world w'" "at c zs"
    using step_taken [OF w z(2)] by blast
  then show "\<exists>p' w'. ex_step (proj_exec ch pcs limit) (p, w) = (Inr (), (p', w')) \<and> world w' \<and> at_proj p' ys"
    using z(1,3) ok by (auto simp: proj_exec_def on_proj_def on_part_def at_proj_def)
qed

end

section \<open>Sorting\<close>

text \<open>A three-way comparison, of which only the sign is used.\<close>

definition cmp3 :: "'a::linorder \<Rightarrow> 'a \<Rightarrow> int" where
  "cmp3 a b = (if a < b then - 1 else if a > b then 1 else 0)"

definition compare_key :: "ColMeta \<Rightarrow> byte list \<Rightarrow> byte list \<Rightarrow> db_error + int" where
  "compare_key c a b =
     (if cm_type c \<notin> {TYPE_INT_c, TYPE_FLOAT_c, TYPE_STRING_c} then Inr 0
      else bindR (bytes_at a (cm_offset c) (width_of (cm_type c) (cm_len c))) (\<lambda>x.
           bindR (bytes_at b (cm_offset c) (width_of (cm_type c) (cm_len c))) (\<lambda>y.
           Inr (if cm_type c = TYPE_INT_c then cmp3 (i32_of x) (i32_of y)
                else if cm_type c = TYPE_FLOAT_c
                then if f32_nan (f32_of x) \<or> f32_nan (f32_of y) then 0 else cmp3 (f32_units (f32_of x)) (f32_units (f32_of y))
                else cmp3 x y))))"

fun compare_records :: "(ColMeta \<times> bool) list \<Rightarrow> byte list \<Rightarrow> byte list \<Rightarrow> db_error + bool" where
  "compare_records [] a b = Inr False"
| "compare_records ((c, desc) # ks) a b =
     bindR (compare_key c a b) (\<lambda>m. if m \<noteq> 0 then Inr (if desc then m > 0 else m < 0) else compare_records ks a b)"

text \<open>\<open>std::sort\<close> is the parameter \<open>srt\<close>; its comparison may throw.\<close>

type_synonym sorter = "(byte list \<Rightarrow> byte list \<Rightarrow> db_error + bool) \<Rightarrow> byte list list \<Rightarrow> db_error + byte list list"

text \<open>The constructor looks the columns up.\<close>

fun sort_keys :: "ColMeta list \<Rightarrow> (TabCol \<times> bool) list \<Rightarrow> db_error + (ColMeta \<times> bool) list" where
  "sort_keys prev_cols [] = Inr []"
| "sort_keys prev_cols ((col, desc) # ks) =
     bindR (exec_get_col prev_cols col) (\<lambda>c. bindR (sort_keys prev_cols ks) (\<lambda>cs. Inr ((c, desc) # cs)))"

definition new_sort_keys :: "ColMeta list \<Rightarrow> TabCol list \<Rightarrow> bool list \<Rightarrow> db_error + (ColMeta \<times> bool) list" where
  "new_sort_keys prev_cols order_by is_desc =
     (if length order_by \<noteq> length is_desc then Inl (InternalError ''SortExecutor: order_by and is_desc size mismatch'')
      else sort_keys prev_cols (zip order_by is_desc))"

text \<open>A record that \<open>Next\<close> has moved out of the vector is \<open>None\<close>.\<close>

record 'c sort_obj =
  so_child :: 'c
  so_rows :: "byte list option list"
  so_idx :: nat
  so_init :: bool

definition new_sort :: "'c \<Rightarrow> 'c sort_obj" where
  "new_sort c = \<lparr>so_child = c, so_rows = [], so_idx = 0, so_init = False\<rparr>"

definition on_sort :: "('c \<times> 'w, 'a) op \<Rightarrow> ('c sort_obj \<times> 'w, 'a) op" where
  "on_sort = on_part so_child (\<lambda>c p. p\<lparr>so_child := c\<rparr>)"

definition limited :: "int \<Rightarrow> 'a list \<Rightarrow> 'a list" where
  "limited limit xs = (if limit > 0 \<and> int (length xs) > limit then take (nat limit) xs else xs)"

definition perform_sort :: "sorter \<Rightarrow> ('c, 'w) executor \<Rightarrow> (ColMeta \<times> bool) list \<Rightarrow> int \<Rightarrow> ('c sort_obj \<times> 'w, unit) op" where
  "perform_sort srt ch keys limit = bindE (on_sort (select_rows ch)) (\<lambda>rs.
     bindE (lift_result (srt (compare_records keys) rs)) (\<lambda>ys.
     upd_obj (\<lambda>p. p\<lparr>so_rows := map Some (limited limit ys)\<rparr>)))"

text \<open>\<open>nextTuple\<close>, and the first lines of \<open>Next\<close>.\<close>

definition sort_ready :: "sorter \<Rightarrow> ('c, 'w) executor \<Rightarrow> (ColMeta \<times> bool) list \<Rightarrow> int \<Rightarrow> ('c sort_obj \<times> 'w, unit) op" where
  "sort_ready srt ch keys limit = bindE get_obj (\<lambda>p.
     if so_init p then ret ()
     else bindE (perform_sort srt ch keys limit) (\<lambda>_. upd_obj (\<lambda>p. p\<lparr>so_init := True\<rparr>)))"

definition sort_fetch :: "sorter \<Rightarrow> ('c, 'w) executor \<Rightarrow> (ColMeta \<times> bool) list \<Rightarrow> int \<Rightarrow> ('c sort_obj \<times> 'w, byte list option) op" where
  "sort_fetch srt ch keys limit = bindE (sort_ready srt ch keys limit) (\<lambda>_. bindE get_obj (\<lambda>p.
     if so_idx p \<ge> length (so_rows p) then ret None
     else bindE (upd_obj (\<lambda>p. p\<lparr>so_rows := (so_rows p)[so_idx p := None], so_idx := so_idx p + 1\<rparr>)) (\<lambda>_.
          ret (so_rows p ! so_idx p))))"

definition sort_exec :: "sorter \<Rightarrow> ('c, 'w) executor \<Rightarrow> (ColMeta \<times> bool) list \<Rightarrow> int \<Rightarrow> ('c sort_obj, 'w) executor" where
  "sort_exec srt ch keys limit =
     \<lparr>ex_begin = bindE (on_sort (ex_begin ch)) (\<lambda>_. upd_obj (\<lambda>p. p\<lparr>so_idx := 0, so_init := False\<rparr>)),
      ex_step = sort_ready srt ch keys limit,
      ex_end = bindE get_obj (\<lambda>p. ret (so_init p \<and> so_idx p \<ge> length (so_rows p))),
      ex_fetch = sort_fetch srt ch keys limit,
      ex_rid = (\<lambda>_. invalid_rid), ex_cols = ex_cols ch, ex_len = ex_len ch\<rparr>"

text \<open>Not at its end before the first \<open>Next\<close>, a sort without rows gives \<open>nullptr\<close> once.\<close>

definition sorted_rows :: "'a list \<Rightarrow> 'a option list" where
  "sorted_rows ys = (if ys = [] then [None] else map Some ys)"

lemma the_rows_sorted [simp]: "the_rows (sorted_rows ys) = ys"
  by (simp add: sorted_rows_def)

locale ordered = repeatable_source ch world fresh xs at taken
  for ch :: "('c, 'w) executor" and world :: "'w \<Rightarrow> bool" and fresh :: "'c \<Rightarrow> bool" and xs :: "byte list option list"
    and at taken :: "'c \<Rightarrow> byte list option list \<Rightarrow> bool" +
  fixes srt :: sorter and keys :: "(ColMeta \<times> bool) list" and limit :: int and ys :: "byte list list"
begin

definition sort_ok :: bool where
  "sort_ok \<longleftrightarrow> srt (compare_records keys) (the_rows xs) = Inr ys"

definition at_rows :: "'c sort_obj \<Rightarrow> byte list option list \<Rightarrow> bool" where
  "at_rows p zs \<longleftrightarrow> so_init p \<and> drop (so_idx p) (so_rows p) = zs \<and> None \<notin> set zs"

definition at_sort :: "'c sort_obj \<Rightarrow> byte list option list \<Rightarrow> bool" where
  "at_sort p zs \<longleftrightarrow> sort_ok \<and>
     (if so_init p then at_rows p zs else so_idx p = 0 \<and> at (so_child p) xs \<and> zs = sorted_rows (limited limit ys))"

definition taken_sort :: "'c sort_obj \<Rightarrow> byte list option list \<Rightarrow> bool" where
  "taken_sort p zs \<longleftrightarrow> sort_ok \<and> zs \<noteq> [] \<and> at_rows p (tl zs)"

lemma sort_ready_spec:
  assumes w: "world w" and a: "at_sort p zs"
  shows "\<exists>p' w'. sort_ready srt ch keys limit (p, w) = (Inr (), (p', w')) \<and> world w' \<and>
    (if so_init p then p' = p else at_rows p' (map Some (limited limit ys)) \<and> so_idx p' = 0)"
proof (cases "so_init p")
  case True
  then show ?thesis using w by (simp add: sort_ready_def bindE_apply)
next
  case False
  then have ok: sort_ok and at: "at (so_child p) xs" and idx: "so_idx p = 0" using a by (simp_all add: at_sort_def)
  obtain c w' where s: "select_rows ch (so_child p, w) = (Inr (the_rows xs), (c, w'))" "world w'"
    using select_all [OF w begin_again [OF at]] by blast
  let ?p = "p\<lparr>so_child := c, so_rows := map Some (limited limit ys), so_init := True\<rparr>"
  have "sort_ready srt ch keys limit (p, w) = (Inr (), (?p, w'))"
    using False ok by (simp add: sort_ready_def perform_sort_def bindE_apply on_sort_def on_part_def s(1) sort_ok_def)
  then show ?thesis using False s(2) idx by (auto simp: at_rows_def)
qed

lemma sort_fetch_spec:
  assumes w: "world w" and a: "at_sort p (z # zs)"
  shows "\<exists>p' w'. sort_fetch srt ch keys limit (p, w) = (Inr z, (p', w')) \<and> world w' \<and> taken_sort p' (z # zs)"
proof -
  have ok: sort_ok using a by (simp add: at_sort_def)
  obtain p1 w1 where r: "sort_ready srt ch keys limit (p, w) = (Inr (), (p1, w1))" "world w1"
    "if so_init p then p1 = p else at_rows p1 (map Some (limited limit ys)) \<and> so_idx p1 = 0"
    using sort_ready_spec [OF assms] by blast
  show ?thesis
  proof (cases "so_idx p1 \<ge> length (so_rows p1)")
    case True
    then have "drop (so_idx p1) (so_rows p1) = []" by simp
    then have "\<not> so_init p" "limited limit ys = []" using a r(3) by (auto simp: at_sort_def at_rows_def split: if_splits)
    then have "z = None" "zs = []" "at_rows p1 []" using a r(3) by (simp_all add: at_sort_def sorted_rows_def)
    moreover have "sort_fetch srt ch keys limit (p, w) = (Inr None, (p1, w1))"
      using True by (simp add: sort_fetch_def bindE_apply r(1))
    ultimately show ?thesis using ok r(2) by (simp add: taken_sort_def)
  next
    case False
    have rows: "at_rows p1 (z # zs)"
    proof (cases "so_init p")
      case True
      then show ?thesis using a r(3) by (simp add: at_sort_def)
    next
      case no: False
      then have p1: "at_rows p1 (map Some (limited limit ys))" "so_idx p1 = 0" using r(3) by simp_all
      then have "limited limit ys \<noteq> []" using False by (auto simp: at_rows_def)
      then have "z # zs = map Some (limited limit ys)" using a no by (simp add: at_sort_def sorted_rows_def)
      then show ?thesis using p1(1) by simp
    qed
    then have d: "drop (so_idx p1) (so_rows p1) = z # zs" and init: "so_init p1" and z: "None \<notin> set zs" by (simp_all add: at_rows_def)
    have nth: "so_rows p1 ! so_idx p1 = z" and dr: "drop (Suc (so_idx p1)) (so_rows p1) = zs"
      using Cons_nth_drop_Suc [of "so_idx p1" "so_rows p1"] False d by simp_all
    let ?p = "p1\<lparr>so_rows := (so_rows p1)[so_idx p1 := None], so_idx := so_idx p1 + 1\<rparr>"
    have "sort_fetch srt ch keys limit (p, w) = (Inr z, (?p, w1))"
      using False nth by (simp add: sort_fetch_def bindE_apply r(1))
    moreover have "at_rows ?p zs" using init z dr by (simp add: at_rows_def)
    ultimately show ?thesis using ok r(2) by (simp add: taken_sort_def)
  qed
qed

sublocale sort: tuple_source "sort_exec srt ch keys limit" world "\<lambda>p. sort_ok \<and> fresh (so_child p)"
    "sorted_rows (limited limit ys)" at_sort taken_sort
proof
  fix w and p :: "'c sort_obj" assume a: "world w" "sort_ok \<and> fresh (so_child p)"
  then obtain c w' where "ex_begin ch (so_child p, w) = (Inr (), (c, w'))" "world w'" "at c xs"
    using begin_at [of w "so_child p"] by blast
  then show "\<exists>p' w'. ex_begin (sort_exec srt ch keys limit) (p, w) = (Inr (), (p', w')) \<and> world w' \<and>
      at_sort p' (sorted_rows (limited limit ys))"
    using a by (auto simp: sort_exec_def bindE_apply on_sort_def on_part_def at_sort_def)
next
  fix w and p :: "'c sort_obj" and zs assume w: "world w" and a: "at_sort p zs"
  then show "ex_end (sort_exec srt ch keys limit) (p, w) = (Inr (zs = []), (p, w))"
    by (auto simp: sort_exec_def bindE_apply at_sort_def at_rows_def sorted_rows_def split: if_splits)
next
  fix w and p :: "'c sort_obj" and z zs assume "world w" "at_sort p (z # zs)"
  then show "\<exists>p' w'. ex_fetch (sort_exec srt ch keys limit) (p, w) = (Inr z, (p', w')) \<and> world w' \<and> taken_sort p' (z # zs)"
    using sort_fetch_spec by (simp add: sort_exec_def)
next
  fix w and p :: "'c sort_obj" and z zs assume w: "world w" and a: "taken_sort p (z # zs)"
  then have at: "at_sort p zs" by (simp add: taken_sort_def at_sort_def at_rows_def)
  have "so_init p" using a by (simp add: taken_sort_def at_rows_def)
  then show "\<exists>p' w'. ex_step (sort_exec srt ch keys limit) (p, w) = (Inr (), (p', w')) \<and> world w' \<and> at_sort p' zs"
    using sort_ready_spec [OF w at] at by (auto simp: sort_exec_def)
qed

end

end
