(* ===== verification/ExecPlans.thy ===== *)
theory ExecPlans
  imports ExecScan ExecSemi ExecUnary
begin

text \<open>
  Plans: the executors on top of each other. The locales of the executors are interpreted on the ones of the
  model, and the rows that \<open>select_from\<close> gets from a whole tree are those of a query over the tables: the
  matching pairs, filtered, in the order of \<open>ORDER BY\<close>, up to the limit, projected.
\<close>

section \<open>The order of \<open>SortExecutor\<close>\<close>

text \<open>What \<open>std::sort\<close> asks of a comparison, and what it promises then.\<close>

definition strict_weak :: "('a \<Rightarrow> 'a \<Rightarrow> bool) \<Rightarrow> 'a set \<Rightarrow> bool" where
  "strict_weak R A \<longleftrightarrow> (\<forall>a\<in>A. \<not> R a a) \<and> (\<forall>a\<in>A. \<forall>b\<in>A. \<forall>c\<in>A. R a b \<and> R b c \<longrightarrow> R a c) \<and>
     (\<forall>a\<in>A. \<forall>b\<in>A. \<forall>c\<in>A. \<not> R a b \<and> \<not> R b a \<and> \<not> R b c \<and> \<not> R c b \<longrightarrow> \<not> R a c \<and> \<not> R c a)"

definition std_sort :: "sorter \<Rightarrow> bool" where
  "std_sort srt \<longleftrightarrow> (\<forall>lt R xs. (\<forall>a \<in> set xs. \<forall>b \<in> set xs. lt a b = Inr (R a b)) \<and> strict_weak R (set xs) \<longrightarrow>
     (\<exists>ys. srt lt xs = Inr ys \<and> mset ys = mset xs \<and> sorted_wrt (\<lambda>a b. \<not> R b a) ys))"

text \<open>The value of a column as it is compared. A \<open>float\<close> that is NaN has none, nor has a column outside the record.\<close>

definition key_ready :: "ColMeta \<Rightarrow> byte list \<Rightarrow> bool" where
  "key_ready c v \<longleftrightarrow> cm_type c \<in> {TYPE_INT_c, TYPE_FLOAT_c, TYPE_STRING_c} \<longrightarrow>
     (\<exists>x. bytes_at v (cm_offset c) (width_of (cm_type c) (cm_len c)) = Inr x \<and> (cm_type c = TYPE_FLOAT_c \<longrightarrow> \<not> f32_nan (f32_of x)))"

definition sort_key :: "ColMeta \<Rightarrow> byte list \<Rightarrow> int list" where
  "sort_key c v =
     (if cm_type c \<notin> {TYPE_INT_c, TYPE_FLOAT_c, TYPE_STRING_c} then []
      else case bytes_at v (cm_offset c) (width_of (cm_type c) (cm_len c)) of
             Inl _ \<Rightarrow> []
           | Inr x \<Rightarrow> if cm_type c = TYPE_INT_c then [i32_of x]
                      else if cm_type c = TYPE_FLOAT_c then [f32_units (f32_of x)] else map uint x)"

fun row_before :: "(ColMeta \<times> bool) list \<Rightarrow> byte list \<Rightarrow> byte list \<Rightarrow> bool" where
  "row_before [] a b = False"
| "row_before ((c, desc) # ks) a b =
     (if sort_key c a = sort_key c b then row_before ks a b
      else if desc then sort_key c a > sort_key c b else sort_key c a < sort_key c b)"

lemma bytes_less: "map uint (x :: byte list) < map uint y \<longleftrightarrow> x < y"
proof (induction x arbitrary: y)
  case Nil
  then show ?case by (cases y) simp_all
next
  case (Cons a x)
  then show ?case by (cases y) (auto simp: word_less_def word_uint_eq_iff)
qed

lemma compare_key_ready:
  assumes "key_ready c a" and "key_ready c b"
  shows "compare_key c a b = Inr (cmp3 (sort_key c a) (sort_key c b))"
proof (cases "cm_type c \<in> {TYPE_INT_c, TYPE_FLOAT_c, TYPE_STRING_c}")
  case True
  then obtain x y where "bytes_at a (cm_offset c) (width_of (cm_type c) (cm_len c)) = Inr x" "cm_type c = TYPE_FLOAT_c \<longrightarrow> \<not> f32_nan (f32_of x)"
    "bytes_at b (cm_offset c) (width_of (cm_type c) (cm_len c)) = Inr y" "cm_type c = TYPE_FLOAT_c \<longrightarrow> \<not> f32_nan (f32_of y)"
    using assms by (auto simp: key_ready_def)
  then show ?thesis using True by (simp add: compare_key_def sort_key_def cmp3_def bytes_less)
next
  case False
  then show ?thesis by (simp add: compare_key_def sort_key_def cmp3_def)
qed

lemma compare_records_before:
  "\<forall>(c, d) \<in> set ks. key_ready c a \<and> key_ready c b \<Longrightarrow> compare_records ks a b = Inr (row_before ks a b)"
proof (induction ks a b rule: compare_records.induct)
  case (2 c desc ks a b)
  then show ?case by (auto simp: compare_key_ready cmp3_def)
qed simp

lemma row_before_irrefl: "\<not> row_before ks a a"
  by (induction ks) auto

lemma row_before_trans: "row_before ks a b \<Longrightarrow> row_before ks b c \<Longrightarrow> row_before ks a c"
  by (induction ks) (auto split: if_splits)

lemma row_before_neither: "\<not> row_before ks a b \<and> \<not> row_before ks b a \<longleftrightarrow> (\<forall>(c, d) \<in> set ks. sort_key c a = sort_key c b)"
  by (induction ks) (auto split: if_splits)

lemma row_before_weak: "strict_weak (row_before ks) A"
proof -
  have "\<not> row_before ks a c \<and> \<not> row_before ks c a"
    if "\<not> row_before ks a b \<and> \<not> row_before ks b a" "\<not> row_before ks b c \<and> \<not> row_before ks c b" for a b c
    using that unfolding row_before_neither by fastforce
  then show ?thesis using row_before_irrefl row_before_trans unfolding strict_weak_def by blast
qed

lemma sorted_by_keys:
  assumes "std_sort srt" and "\<forall>v \<in> set xs. \<forall>(c, d) \<in> set ks. key_ready c v"
  obtains ys where "srt (compare_records ks) xs = Inr ys" and "mset ys = mset xs" and "sorted_wrt (\<lambda>a b. \<not> row_before ks b a) ys"
proof -
  have "\<forall>a \<in> set xs. \<forall>b \<in> set xs. compare_records ks a b = Inr (row_before ks a b)"
    using assms(2) compare_records_before by fastforce
  then show ?thesis using assms(1) row_before_weak that unfolding std_sort_def by metis
qed

section \<open>The executors on each other\<close>

interpretation scan_filter: filtered "seq_scan fd cols conds ctx len" "same_db s0" "\<lambda>_. scan_ok fd cols conds ctx s0"
    "scan_rows fd cols conds ctx s0" "at_scan fd cols conds ctx s0" "at_scan fd cols conds ctx s0" fconds P
    for fd cols conds ctx len fconds P and s0 :: "'a txnm_scheme"
  by unfold_locales

interpretation scan_join: restartable_sides "seq_scan fd1 cols1 conds1 ctx len1" "seq_scan fd2 cols2 conds2 ctx len2" "same_db s0"
    "\<lambda>_. scan_ok fd1 cols1 conds1 ctx s0" "\<lambda>_. scan_ok fd2 cols2 conds2 ctx s0"
    "scan_rows fd1 cols1 conds1 ctx s0" "scan_rows fd2 cols2 conds2 ctx s0"
    "at_scan fd1 cols1 conds1 ctx s0" "at_scan fd1 cols1 conds1 ctx s0"
    "at_scan fd2 cols2 conds2 ctx s0" "at_scan fd2 cols2 conds2 ctx s0" jconds P
    for fd1 cols1 conds1 fd2 cols2 conds2 ctx len1 len2 jconds P and s0 :: "'a txnm_scheme"
  by unfold_locales simp

interpretation scan_semi: semi_sides "seq_scan fd1 cols1 conds1 ctx len1" "seq_scan fd2 cols2 conds2 ctx len2" "same_db s0"
    "\<lambda>_. scan_ok fd1 cols1 conds1 ctx s0" "\<lambda>_. scan_ok fd2 cols2 conds2 ctx s0"
    "scan_rows fd1 cols1 conds1 ctx s0" "scan_rows fd2 cols2 conds2 ctx s0"
    "at_scan fd1 cols1 conds1 ctx s0" "at_scan fd1 cols1 conds1 ctx s0"
    "at_scan fd2 cols2 conds2 ctx s0" "at_scan fd2 cols2 conds2 ctx s0" jconds P
    for fd1 cols1 conds1 fd2 cols2 conds2 ctx len1 len2 jconds P and s0 :: "'a txnm_scheme"
  by unfold_locales

text \<open>
  \<open>SELECT ... FROM a, b WHERE ... ORDER BY ... LIMIT n\<close>: a projection over a sort over a join. \<open>ys\<close> are the pairs
  as \<open>std::sort\<close> leaves them, \<open>f\<close> is the projection of a row.
\<close>

locale select_plan = restartable_sides L R world freshL freshR ls rs atL takenL atR takenR conds P
  for L :: "('l, 'w) executor" and R :: "('r, 'w) executor" and world :: "'w \<Rightarrow> bool"
    and freshL :: "'l \<Rightarrow> bool" and freshR :: "'r \<Rightarrow> bool" and ls rs :: "byte list list"
    and atL takenL :: "'l \<Rightarrow> byte list option list \<Rightarrow> bool" and atR takenR :: "'r \<Rightarrow> byte list option list \<Rightarrow> bool"
    and conds :: "Condition list" and P :: "byte list \<Rightarrow> byte list \<Rightarrow> bool" +
  fixes srt :: sorter and keys :: "(ColMeta \<times> bool) list" and limit :: int and ys :: "byte list list"
    and pcs :: "(ColMeta \<times> ColMeta) list" and f :: "byte list \<Rightarrow> byte list"
begin

sublocale sorting: ordered "nl_join L R conds" world fresh_join "map Some (pairs_of P glue ls rs)" at_join taken_join srt keys limit ys
  by unfold_locales

sublocale result: projected "sort_exec srt (nl_join L R conds) keys limit" world "\<lambda>p. sorting.sort_ok \<and> fresh_join (so_child p)"
    "sorted_rows (limited limit ys)" sorting.at_sort sorting.taken_sort pcs "- 1" f
  by unfold_locales

lemma plan_rows:
  assumes "world w" and sides_ok and "freshL l" and "freshR r"
    and "srt (compare_records keys) (pairs_of P glue ls rs) = Inr ys"
    and "0 \<le> proj_len pcs" and "\<forall>v \<in> set ys. proj_bytes pcs v = Inr (f v)"
  shows "\<exists>p' w'. select_rows (proj_exec (sort_exec srt (nl_join L R conds) keys limit) pcs (- 1))
      (new_proj (new_sort (new_join l r)), w) = (Inr (map f (limited limit ys)), (p', w')) \<and> world w'"
proof -
  have "set (limited limit ys) \<subseteq> set ys" using set_take_subset [of "nat limit" ys] by (auto simp: limited_def)
  then have "result.proj_ok" unfolding result.proj_ok_def using assms(6,7) by (auto simp: sorted_rows_def)
  moreover have "sorting.sort_ok" using assms(5) by (simp add: sorting.sort_ok_def)
  moreover have "fresh_join (new_join l r)" using assms(2-4) by (simp add: fresh_join_def new_join_def)
  ultimately have "result.proj_ok \<and> sorting.sort_ok \<and> fresh_join (so_child (pr_child (new_proj (new_sort (new_join l r)))))"
    by (simp add: new_proj_def new_sort_def)
  note all = result.proj.select_all [OF assms(1) this]
  have rows: "the_rows (proj_rows (- 1) f 0 (sorted_rows (limited limit ys))) = map f (limited limit ys)"
    by (simp add: proj_rows_unlimited the_rows_map)
  show ?thesis using all unfolding rows by blast
qed

end

interpretation scan_select: select_plan "seq_scan fd1 cols1 conds1 ctx len1" "seq_scan fd2 cols2 conds2 ctx len2" "same_db s0"
    "\<lambda>_. scan_ok fd1 cols1 conds1 ctx s0" "\<lambda>_. scan_ok fd2 cols2 conds2 ctx s0"
    "scan_rows fd1 cols1 conds1 ctx s0" "scan_rows fd2 cols2 conds2 ctx s0"
    "at_scan fd1 cols1 conds1 ctx s0" "at_scan fd1 cols1 conds1 ctx s0"
    "at_scan fd2 cols2 conds2 ctx s0" "at_scan fd2 cols2 conds2 ctx s0" jconds P srt keys limit ys pcs f
    for fd1 cols1 conds1 fd2 cols2 conds2 ctx len1 len2 jconds P srt keys limit ys pcs f and s0 :: "'a txnm_scheme"
  by unfold_locales

section \<open>Queries\<close>

text \<open>The length of the rows of a scan: where the last column ends.\<close>

definition scan_len :: "ColMeta list \<Rightarrow> int" where
  "scan_len cols = cm_offset (last cols) + cm_len (last cols)"

text \<open>The reference: pairs of rows in the order of the nested loop, when the conditions can be evaluated on them.\<close>

definition join_rows :: "ColMeta list \<Rightarrow> ColMeta list \<Rightarrow> Condition list \<Rightarrow> byte list list \<Rightarrow> byte list list \<Rightarrow> byte list list" where
  "join_rows cols1 cols2 jconds ls rs =
     [joined (scan_len cols1) (scan_len cols2) l r. l \<leftarrow> ls, r \<leftarrow> rs, join_conds cols1 cols2 jconds (Some l) (Some r) = Inr True]"

definition joinable :: "ColMeta list \<Rightarrow> ColMeta list \<Rightarrow> Condition list \<Rightarrow> byte list list \<Rightarrow> byte list list \<Rightarrow> bool" where
  "joinable cols1 cols2 jconds ls rs \<longleftrightarrow> 0 \<le> scan_len cols1 \<and> 0 \<le> scan_len cols2 \<and>
     (\<forall>l \<in> set ls. scan_len cols1 \<le> int (length l)) \<and> (\<forall>r \<in> set rs. scan_len cols2 \<le> int (length r)) \<and>
     (\<forall>l \<in> set ls. \<forall>r \<in> set rs. \<exists>b. join_conds cols1 cols2 jconds (Some l) (Some r) = Inr b)"

definition join_true :: "ColMeta list \<Rightarrow> ColMeta list \<Rightarrow> Condition list \<Rightarrow> byte list \<Rightarrow> byte list \<Rightarrow> bool" where
  "join_true cols1 cols2 jconds l r \<longleftrightarrow> join_conds cols1 cols2 jconds (Some l) (Some r) = Inr True"

lemma map_filter_if: "map g (filter Q xs) = concat (map (\<lambda>x. if Q x then [g x] else []) xs)"
  by (induction xs) simp_all

lemma pairs_of_join_rows:
  "pairs_of (join_true cols1 cols2 jconds) (joined (scan_len cols1) (scan_len cols2)) ls rs = join_rows cols1 cols2 jconds ls rs"
  unfolding pairs_of_def join_rows_def join_true_def
  by (intro arg_cong [where f = concat] map_cong refl) (simp add: map_filter_if)

lemma joinable_sides:
  fixes s0 :: "'a txnm_scheme"
  assumes "joinable cols1 cols2 jconds (scan_rows fd1 cols1 conds1 ctx s0) (scan_rows fd2 cols2 conds2 ctx s0)"
  shows "join_sides.sides_ok (seq_scan fd1 cols1 conds1 ctx (scan_len cols1) :: (seq_scan_obj, 'a txnm_scheme) executor)
    (seq_scan fd2 cols2 conds2 ctx (scan_len cols2) :: (seq_scan_obj, 'a txnm_scheme) executor)
    (scan_rows fd1 cols1 conds1 ctx s0) (scan_rows fd2 cols2 conds2 ctx s0) jconds (join_true cols1 cols2 jconds)"
proof -
  have "join_conds cols1 cols2 jconds (Some l) (Some r) = Inr (join_true cols1 cols2 jconds l r)"
    if "l \<in> set (scan_rows fd1 cols1 conds1 ctx s0)" "r \<in> set (scan_rows fd2 cols2 conds2 ctx s0)" for l r
    using assms that unfolding joinable_def join_true_def by fastforce
  then show ?thesis using assms
    unfolding scan_join.sides_ok_def by (simp add: joinable_def seq_scan_def)
qed

section \<open>A small table\<close>

definition demo_cols :: "string \<Rightarrow> ColMeta list" where
  "demo_cols tab = [\<lparr>cm_tab = tab, cm_name = ''x'', cm_type = TYPE_INT_c, cm_len = 4, cm_offset = 0, cm_index = False\<rparr>]"

definition demo_x :: "string \<Rightarrow> TabCol" where
  "demo_x tab = new_TabCol tab ''x'' []"

definition demo_equal :: Condition where
  "demo_equal = plain_cond (demo_x ''a'') OP_EQ (Inl (demo_x ''b''))"

text \<open>Transaction 0 reads, in MVCC mode, the one row of the table, which it wrote itself.\<close>

definition demo_ctx :: "Context option" where
  "demo_ctx = Some (demo_reader 0)"

lemma demo_scan:
  obtains s :: txnm where "\<forall>cols. scan_ok 3 cols [] demo_ctx s" and "\<forall>cols. scan_rows 3 cols [] demo_ctx s = [replicate 16 0]"
proof -
  let ?raw = "1 # replicate 31 (0 :: byte)"
  have meta: "meta_of_bytes ?raw = \<lparr>meta_ts = 1, meta_deleted = False\<rparr>" by (simp add: meta_of_bytes_def to_signed_def eval_nat_numeral)
  have data: "drop 16 ?raw = replicate 16 0" by (simp add: eval_nat_numeral)
  obtain r h and s :: txnm where s: "mvcc_reader [EvBegin 0, EvBegin 1] 3 r ?raw (demo_reader 0) 0 h s" "txn_part s = txn_part demo2"
    "table 3 s = [r \<mapsto> ?raw]"
    by (rule demo_row [OF demo2_begins demo_states_like(1), of ?raw 0]) simp
  have heap: "txn_heap s 0 = Some (demo_txn 0)" using part_sel(1) [OF s(2)] demo2_heap(1) by simp
  obtain u where u: "get_record_mvcc 3 r (Some (demo_reader 0)) s = (Inr (Some (replicate 16 0)), u)"
    using mvcc_read_visible [OF s(1) heap heap] by (auto simp: meta data demo_txn_def new_Transaction_def)
  have ok: "rm_ok 3 s" "\<And>h. file_hdrs s 3 = Some h \<Longrightarrow> 16 \<le> record_size h" "concurrency_mode s = MVCC"
    using s(1) reader_manager [OF s(1)] by (auto simp: mvcc_reader_def manager_ok_def)
  have row: "row_read 3 demo_ctx s r = Inr (Some (replicate 16 0))"
    using u ok(3) by (simp add: row_read_def scan_record_def bindE_apply demo_ctx_def ctx_mvcc_def demo_reader_def)
  have rids: "rids_of (table 3 s) = [r]" by (simp add: rids_of_def s(3))
  have "scan_ok 3 cols [] demo_ctx s" for cols using ok row s(3) by (auto simp: scan_ok_def)
  moreover have "scan_rows 3 cols [] demo_ctx s = [replicate 16 0]" for cols
    by (simp add: scan_rows_def rids hit_def row_ok_def row row_at_def)
  ultimately show ?thesis using that by blast
qed

text \<open>An insertion sort, as an instance of \<open>std::sort\<close>.\<close>

fun ins_row :: "('a \<Rightarrow> 'a \<Rightarrow> bool) \<Rightarrow> 'a \<Rightarrow> 'a list \<Rightarrow> 'a list" where
  "ins_row R x [] = [x]"
| "ins_row R x (y # ys) = (if R y x then y # ins_row R x ys else x # y # ys)"

definition demo_sort :: sorter where
  "demo_sort lt xs = Inr (foldr (ins_row (\<lambda>a b. lt a b = Inr True)) xs [])"

lemma ins_row_mset: "mset (ins_row R x ys) = add_mset x (mset ys)"
  by (induction ys) auto

lemma ins_row_set: "set (ins_row R x ys) = insert x (set ys)"
  by (induction ys) auto

lemma foldr_ins_mset: "mset (foldr (ins_row R) xs []) = mset xs"
  by (induction xs) (simp_all add: ins_row_mset)

lemma strict_weak_asym: "strict_weak R A \<Longrightarrow> a \<in> A \<Longrightarrow> b \<in> A \<Longrightarrow> R a b \<Longrightarrow> \<not> R b a"
  unfolding strict_weak_def by blast

lemma strict_weak_cong:
  assumes "\<And>a b. a \<in> A \<Longrightarrow> b \<in> A \<Longrightarrow> R a b = R' a b"
  shows "strict_weak R A = strict_weak R' A"
  unfolding strict_weak_def using assms by (intro arg_cong2 [where f = conj] ball_cong refl) simp_all

lemma strict_weak_negative:
  assumes sw: "strict_weak R A" and m: "a \<in> A" "b \<in> A" "c \<in> A" and n: "\<not> R b a" "\<not> R c b"
  shows "\<not> R c a"
proof
  assume ca: "R c a"
  have "\<not> R a b" using sw m n(2) ca unfolding strict_weak_def by blast
  moreover have "\<not> R b c" using sw m n(1) ca unfolding strict_weak_def by blast
  ultimately show False using sw m n ca unfolding strict_weak_def by blast
qed

lemma ins_row_sorted:
  assumes sw: "strict_weak R A" and "insert x (set ys) \<subseteq> A" and "sorted_wrt (\<lambda>a b. \<not> R b a) ys"
  shows "sorted_wrt (\<lambda>a b. \<not> R b a) (ins_row R x ys)"
  using assms(2,3)
proof (induction ys)
  case (Cons y ys)
  show ?case
  proof (cases "R y x")
    case True
    then have "\<not> R x y" using strict_weak_asym [OF sw, of y x] Cons.prems(1) by simp
    moreover have "sorted_wrt (\<lambda>a b. \<not> R b a) (ins_row R x ys)" using Cons by simp
    ultimately show ?thesis using True Cons.prems(2) by (simp add: ins_row_set)
  next
    case False
    then have "\<not> R z x" if "z \<in> set ys" for z
      using strict_weak_negative [OF sw, of x y z] Cons.prems that by auto
    then show ?thesis using False Cons.prems by simp
  qed
qed simp

lemma demo_sort_sorts: "std_sort demo_sort"
  unfolding std_sort_def
proof (intro allI impI)
  fix lt :: "byte list \<Rightarrow> byte list \<Rightarrow> db_error + bool" and R xs
  assume a: "(\<forall>a \<in> set xs. \<forall>b \<in> set xs. lt a b = Inr (R a b)) \<and> strict_weak R (set xs)"
  let ?R = "\<lambda>a b. lt a b = Inr True"
  have eq: "?R a b = R a b" if "a \<in> set xs" "b \<in> set xs" for a b using a that by simp
  have sw: "strict_weak ?R (set xs)" using a strict_weak_cong [of "set xs" ?R R] eq by blast
  have "sorted_wrt (\<lambda>a b. \<not> ?R b a) (foldr (ins_row ?R) zs [])" if "set zs \<subseteq> set xs" for zs
    using that
  proof (induction zs)
    case (Cons z zs)
    have "set (foldr (ins_row ?R) zs []) = set zs" using foldr_ins_mset by (metis set_mset_mset)
    then show ?case using Cons ins_row_sorted [OF sw, of z "foldr (ins_row ?R) zs []"] by simp
  qed simp
  then have s: "sorted_wrt (\<lambda>a b. \<not> ?R b a) (foldr (ins_row ?R) xs [])" by simp
  have "set (foldr (ins_row ?R) xs []) = set xs" using foldr_ins_mset by (metis set_mset_mset)
  then have "sorted_wrt (\<lambda>a b. \<not> R b a) (foldr (ins_row ?R) xs [])"
    by (intro sorted_wrt_mono_rel [OF _ s]) (simp add: eq)
  then show "\<exists>ys. demo_sort lt xs = Inr ys \<and> mset ys = mset xs \<and> sorted_wrt (\<lambda>a b. \<not> R b a) ys"
    using foldr_ins_mset by (auto simp: demo_sort_def)
qed

lemma demo_join:
  "join_cond (demo_cols ''a'') (demo_cols ''b'') (Some (replicate 16 0)) (Some (replicate 16 0)) demo_equal = Inr True"
  by (simp add: demo_equal_def plain_cond_def demo_cols_def demo_x_def new_TabCol_def join_cond_def join_col_def col_is_def deref_def join_compare_def
    bytes_at_def width_of_def TYPE_INT_c_def TYPE_STRING_c_def)

lemma demo_len: "scan_len (demo_cols tab) = 4"
  by (simp add: scan_len_def demo_cols_def)

lemma demo_pairs: "join_rows (demo_cols ''a'') (demo_cols ''b'') [demo_equal] [replicate 16 0] [replicate 16 0] = [replicate 8 0]"
proof -
  have "replicate 8 (0 :: byte) = replicate 4 0 @ replicate 4 0" by (simp flip: replicate_add)
  then show ?thesis by (simp add: join_rows_def demo_len demo_join joined_def)
qed

lemma demo_joinable: "joinable (demo_cols ''a'') (demo_cols ''b'') [demo_equal] [replicate 16 0] [replicate 16 0]"
  by (auto simp: joinable_def demo_len demo_join)

section \<open>Joins and sorted joins\<close>

text \<open>
  C27: a nested loop join over the sequential scans of two tables, driven by the loop of \<open>select_from\<close>, returns
  exactly the list of the matching pairs of the rows of the two scans, left rows in the order of their record
  identifiers and for each of them the right rows in theirs, without a pair lost or repeated; it ends, fails
  nowhere, and leaves the transactions and every sound table as they were. This is in MVCC mode and outside of it; the
  rows of a scan are those that \<open>get_record_mvcc\<close> or \<open>get_record\<close> returns for its reader when the query begins. It is
  asked for that the records have at least sixteen bytes, as in MVCC mode all have, that none of these reads throws (in
  MVCC mode it does when an active transaction has deleted the record), that the conditions can be evaluated on
  the rows, and that the rows hold all columns.
\<close>

theorem join_of_scans_is_the_nested_loop:
  fixes s0 :: "'a txnm_scheme"
  assumes "scan_ok fd1 cols1 conds1 ctx s0" and "scan_ok fd2 cols2 conds2 ctx s0"
    and "joinable cols1 cols2 jconds (scan_rows fd1 cols1 conds1 ctx s0) (scan_rows fd2 cols2 conds2 ctx s0)"
  shows "\<exists>j u. select_rows (nl_join (seq_scan fd1 cols1 conds1 ctx (scan_len cols1)) (seq_scan fd2 cols2 conds2 ctx (scan_len cols2)) jconds)
      (new_join l r, s0) = (Inr (join_rows cols1 cols2 jconds (scan_rows fd1 cols1 conds1 ctx s0) (scan_rows fd2 cols2 conds2 ctx s0)), (j, u)) \<and>
    same_db s0 u"
proof -
  let ?L = "seq_scan fd1 cols1 conds1 ctx (scan_len cols1) :: (seq_scan_obj, 'a txnm_scheme) executor"
    and ?R = "seq_scan fd2 cols2 conds2 ctx (scan_len cols2) :: (seq_scan_obj, 'a txnm_scheme) executor"
  have len: "ex_len ?L = scan_len cols1" "ex_len ?R = scan_len cols2" by (simp_all add: seq_scan_def)
  have "join_sides.fresh_join ?L ?R (\<lambda>_. scan_ok fd1 cols1 conds1 ctx s0) (\<lambda>_. scan_ok fd2 cols2 conds2 ctx s0)
      (scan_rows fd1 cols1 conds1 ctx s0) (scan_rows fd2 cols2 conds2 ctx s0) jconds (join_true cols1 cols2 jconds) (new_join l r)"
    unfolding scan_join.fresh_join_def using assms joinable_sides [OF assms(3)] by (simp add: new_join_def)
  from scan_join.join.select_all [OF same_db_refl this] show ?thesis
    unfolding len pairs_of_join_rows by auto
qed

theorem join_of_scans_is_the_nested_loop_witness:
  "\<exists>(s :: txnm) l r. fst (select_rows (nl_join (seq_scan 3 (demo_cols ''a'') [] demo_ctx 4) (seq_scan 3 (demo_cols ''b'') [] demo_ctx 4) [demo_equal])
      (new_join l r, s)) = Inr [replicate 8 0]"
proof -
  obtain s :: txnm where s: "\<forall>cols. scan_ok 3 cols [] demo_ctx s" "\<forall>cols. scan_rows 3 cols [] demo_ctx s = [replicate 16 0]"
    by (rule demo_scan) blast
  have "joinable (demo_cols ''a'') (demo_cols ''b'') [demo_equal] (scan_rows 3 (demo_cols ''a'') [] demo_ctx s) (scan_rows 3 (demo_cols ''b'') [] demo_ctx s)"
    by (simp add: s(2) demo_joinable)
  from join_of_scans_is_the_nested_loop [OF spec [OF s(1)] spec [OF s(1)] this] show ?thesis
    unfolding demo_len s(2) [rule_format] demo_pairs by (metis fst_conv)
qed

text \<open>
  C28: \<open>SELECT columns FROM a, b WHERE conditions ORDER BY keys LIMIT n\<close> as the portal builds it, a projection over a
  sort over a join of two scans, in either mode, under the conditions under which the join returns its pairs and when
  the keys and the selected columns can be read in each of them (no key is NaN). For any \<open>std::sort\<close> that sorts when its
  comparison is a strict weak order,
  the query returns the selected columns of the first \<open>n\<close> (all, without a limit) of the matching pairs in an
  order in which no row comes after one that it has to precede, ascending or descending in each key; the pairs
  are the ones of the nested loop, with their multiplicities.
\<close>

theorem select_join_order_by_limit:
  fixes s0 :: "'a txnm_scheme"
  assumes "scan_ok fd1 cols1 conds1 ctx s0" and "scan_ok fd2 cols2 conds2 ctx s0"
    and "joinable cols1 cols2 jconds (scan_rows fd1 cols1 conds1 ctx s0) (scan_rows fd2 cols2 conds2 ctx s0)"
    and "pairs = join_rows cols1 cols2 jconds (scan_rows fd1 cols1 conds1 ctx s0) (scan_rows fd2 cols2 conds2 ctx s0)"
    and "std_sort srt" and "\<forall>v \<in> set pairs. \<forall>(c, d) \<in> set keys. key_ready c v"
    and "0 \<le> proj_len pcs" and "\<forall>v \<in> set pairs. proj_bytes pcs v = Inr (f v)"
  shows "\<exists>ys p u. mset ys = mset pairs \<and> sorted_wrt (\<lambda>a b. \<not> row_before keys b a) ys \<and>
    select_rows (proj_exec (sort_exec srt (nl_join (seq_scan fd1 cols1 conds1 ctx (scan_len cols1))
        (seq_scan fd2 cols2 conds2 ctx (scan_len cols2)) jconds) keys limit) pcs (- 1)) (new_proj (new_sort (new_join l r)), s0) =
      (Inr (map f (limited limit ys)), (p, u)) \<and> same_db s0 u"
proof -
  let ?L = "seq_scan fd1 cols1 conds1 ctx (scan_len cols1) :: (seq_scan_obj, 'a txnm_scheme) executor"
    and ?R = "seq_scan fd2 cols2 conds2 ctx (scan_len cols2) :: (seq_scan_obj, 'a txnm_scheme) executor"
  have len: "ex_len ?L = scan_len cols1" "ex_len ?R = scan_len cols2" by (simp_all add: seq_scan_def)
  obtain ys where ys: "srt (compare_records keys) pairs = Inr ys" "mset ys = mset pairs" "sorted_wrt (\<lambda>a b. \<not> row_before keys b a) ys"
    using sorted_by_keys [OF assms(5,6)] by blast
  have "srt (compare_records keys) (pairs_of (join_true cols1 cols2 jconds) (joined (ex_len ?L) (ex_len ?R))
      (scan_rows fd1 cols1 conds1 ctx s0) (scan_rows fd2 cols2 conds2 ctx s0)) = Inr ys"
    unfolding len pairs_of_join_rows using ys(1) assms(4) by simp
  moreover have "\<forall>v \<in> set ys. proj_bytes pcs v = Inr (f v)" using assms(8) mset_eq_setD [OF ys(2)] by simp
  ultimately show ?thesis
    using scan_select.plan_rows [OF same_db_refl joinable_sides [OF assms(3)] assms(1,2) _ assms(7)] ys(2,3) by blast
qed

theorem select_join_order_by_limit_witness:
  "\<exists>(s :: txnm) l r. fst (select_rows (proj_exec (sort_exec demo_sort (nl_join (seq_scan 3 (demo_cols ''a'') [] demo_ctx 4)
      (seq_scan 3 (demo_cols ''b'') [] demo_ctx 4) [demo_equal]) [(hd (demo_cols ''a''), True)] 1) [(hd (demo_cols ''a''), hd (demo_cols ''a''))] (- 1))
      (new_proj (new_sort (new_join l r)), s)) = Inr [replicate 4 0]"
proof -
  obtain s :: txnm where s: "\<forall>cols. scan_ok 3 cols [] demo_ctx s" "\<forall>cols. scan_rows 3 cols [] demo_ctx s = [replicate 16 0]"
    by (rule demo_scan) blast
  let ?c = "hd (demo_cols ''a'')"
  have j: "joinable (demo_cols ''a'') (demo_cols ''b'') [demo_equal] (scan_rows 3 (demo_cols ''a'') [] demo_ctx s) (scan_rows 3 (demo_cols ''b'') [] demo_ctx s)"
    by (simp add: s(2) demo_joinable)
  have pairs: "[replicate 8 0] = join_rows (demo_cols ''a'') (demo_cols ''b'') [demo_equal] (scan_rows 3 (demo_cols ''a'') [] demo_ctx s) (scan_rows 3 (demo_cols ''b'') [] demo_ctx s)"
    by (simp add: s(2) demo_pairs)
  have keys: "\<forall>v \<in> set [replicate 8 0]. \<forall>(c, d) \<in> set [(?c, True)]. key_ready c v"
    by (simp add: key_ready_def demo_cols_def bytes_at_def width_of_def TYPE_INT_c_def TYPE_FLOAT_c_def TYPE_STRING_c_def)
  have proj: "0 \<le> proj_len [(?c, ?c)]" "\<forall>v \<in> set [replicate 8 0]. proj_bytes [(?c, ?c)] v = Inr (take 4 v)"
    by (simp_all add: proj_len_def demo_cols_def bytes_at_def)
  obtain ys p u l r where "mset ys = mset [replicate 8 (0 :: byte)]"
    and q: "select_rows (proj_exec (sort_exec demo_sort (nl_join (seq_scan 3 (demo_cols ''a'') [] demo_ctx 4)
      (seq_scan 3 (demo_cols ''b'') [] demo_ctx 4) [demo_equal]) [(?c, True)] 1) [(?c, ?c)] (- 1)) (new_proj (new_sort (new_join l r)), s) =
      (Inr (map (take 4) (limited 1 ys)), (p, u))"
    using select_join_order_by_limit [OF spec [OF s(1)] spec [OF s(1)] j pairs demo_sort_sorts keys proj, of 1] unfolding demo_len by blast
  then have "ys = [replicate 8 0]" by simp
  then have "map (take 4) (limited 1 ys) = [replicate 4 0]" by (simp add: limited_def)
  then show ?thesis using q by (metis fst_conv)
qed

section \<open>A filter without a match under a join\<close>

lemma deref_copy_None: "deref_copy None n s = (Inl NullDereference, s)"
  by (simp add: deref_copy_def bindE_apply deref_def)

text \<open>The first condition mentions a column of the left side, or there is none.\<close>

definition reads_left :: "ColMeta list \<Rightarrow> Condition list \<Rightarrow> bool" where
  "reads_left cols1 jconds \<longleftrightarrow> (case jconds of [] \<Rightarrow> True | c # _ \<Rightarrow>
     List.find (col_is (lhs_col c)) cols1 \<noteq> None \<or> List.find (col_is (rhs_col c)) cols1 \<noteq> None)"

lemma reads_left_null:
  "reads_left cols1 (c # cs) \<Longrightarrow> join_conds cols1 cols2 (c # cs) None (Some r) = Inl NullDereference"
  by (auto simp: reads_left_def join_cond_def join_col_def deref_def split: option.splits)

lemma round_null:
  assumes "reads_left (ex_cols L) jconds" and "left_tuple j = None" and "0 \<le> ex_len L + ex_len R"
    and "ex_end R (right_obj j, w) = (Inr False, (r1, w1))" and "ex_fetch R (r1, w1) = (Inr (Some v), (r2, w2))"
    and "ex_step R (r2, w2) = (Inr (), (r3, w3))"
  shows "\<exists>t. join_round L R jconds (j, w) = (Inl NullDereference, t)"
proof (cases jconds)
  case Nil
  then show ?thesis using assms(2-) by (simp add: join_round_def bindE_apply on_side new_record_def deref_copy_None)
next
  case (Cons c cs)
  then have "join_conds (ex_cols L) (ex_cols R) jconds None (Some v) = Inl NullDereference" using assms(1) reads_left_null by simp
  then show ?thesis using assms(2-) by (simp add: join_round_def bindE_apply on_side)
qed

lemma rounds_error: "m s = (Inl e, t) \<Longrightarrow> rounds m s = (Inl e, t)"
  by (simp add: rounds_def repeat_rounds.simps)

text \<open>
  C29: \<open>a JOIN b ON ... WHERE\<close> with a condition on \<open>a\<close> alone that no row of \<open>a\<close> satisfies, when \<open>a\<close> has a row, the scan of
  \<open>b\<close> has one, and the first condition of \<open>ON\<close> reads a column of \<open>a\<close> (or there is none). The planner puts a
  \<open>FilterExecutor\<close> over a scan without conditions, whose first \<open>Next\<close> returns \<open>nullptr\<close> although it was not at
  its end, and the join follows this pointer: in either mode the query, which has no rows, dereferences a null pointer.
\<close>

theorem filter_without_match_crashes_join:
  fixes s0 :: "'a txnm_scheme"
  assumes "scan_ok fd1 cols1 [] ctx s0" and "scan_ok fd2 cols2 conds2 ctx s0"
    and "scan_rows fd1 cols1 [] ctx s0 \<noteq> []" and "\<forall>v \<in> set (scan_rows fd1 cols1 [] ctx s0). eval_conds trim_char fconds v cols1 = Inr False"
    and "scan_rows fd2 cols2 conds2 ctx s0 \<noteq> []" and "reads_left cols1 jconds" and "0 \<le> scan_len cols1" and "0 \<le> scan_len cols2"
  shows "fst (select_rows (nl_join (filter_exec (seq_scan fd1 cols1 [] ctx (scan_len cols1)) fconds)
      (seq_scan fd2 cols2 conds2 ctx (scan_len cols2)) jconds) (new_join l r, s0)) = Inl NullDereference"
proof -
  let ?S = "seq_scan fd1 cols1 [] ctx (scan_len cols1) :: (seq_scan_obj, 'a txnm_scheme) executor"
    and ?R = "seq_scan fd2 cols2 conds2 ctx (scan_len cols2) :: (seq_scan_obj, 'a txnm_scheme) executor"
  let ?L = "filter_exec ?S fconds" and ?ls = "scan_rows fd1 cols1 [] ctx s0"
  have cols: "ex_cols ?L = cols1" "ex_cols ?R = cols2" "ex_len ?L = scan_len cols1" "ex_len ?R = scan_len cols2" "ex_cols ?S = cols1"
    by (simp_all add: filter_exec_def seq_scan_def)
  have ne: "?ls \<noteq> []" by (rule assms(3))
  have rows: "filter_rows (\<lambda>_. False) ?ls = [None]" using ne by (simp add: filter_rows_def)
  have fok: "filtered.conds_ok ?S ?ls fconds (\<lambda>_. False) \<and> scan_ok fd1 cols1 [] ctx s0"
    unfolding scan_filter.conds_ok_def using assms(1,4) cols(5) by simp
  let ?at = "filtered.at_filter ?S ?ls (at_scan fd1 cols1 [] ctx s0) fconds (\<lambda>_. False)"
  obtain l1 w1 where b: "ex_begin ?L (l, s0) = (Inr (), (l1, w1))" "same_db s0 w1" "?at l1 [None]"
    using scan_filter.filter.begin_at [OF same_db_refl fok, of l] unfolding rows by blast
  have e: "ex_end ?L (l1, w1) = (Inr False, (l1, w1))" using scan_filter.filter.end_at [OF b(2,3)] by simp
  obtain l2 w2 where f: "ex_fetch ?L (l1, w1) = (Inr None, (l2, w2))" "same_db s0 w2"
    using scan_filter.filter.fetch_at [OF b(2,3)] by blast
  obtain v vs where vs: "scan_rows fd2 cols2 conds2 ctx s0 = v # vs" using assms(5) by (cases "scan_rows fd2 cols2 conds2 ctx s0") auto
  obtain r1 w3 where c: "ex_begin ?R (r, w2) = (Inr (), (r1, w3))" "same_db s0 w3" "at_scan fd2 cols2 conds2 ctx s0 r1 (Some v # map Some vs)"
    using scan.begin_at [OF f(2) assms(2), of "scan_len cols2" r] vs by auto
  have re: "ex_end ?R (r1, w3) = (Inr False, (r1, w3))" using scan.end_at [OF c(2,3)] by simp
  obtain r2 w4 where rf: "ex_fetch ?R (r1, w3) = (Inr (Some v), (r2, w4))" "same_db s0 w4" "at_scan fd2 cols2 conds2 ctx s0 r2 (Some v # map Some vs)"
    using scan.fetch_at [OF c(2,3)] by blast
  obtain r3 w5 where rs: "ex_step ?R (r2, w4) = (Inr (), (r3, w5))" using scan.step_taken [OF rf(2,3)] by blast
  let ?j = "(new_join l r)\<lparr>left_obj := l2, left_tuple := None, right_obj := r1\<rparr>"
  obtain t where "join_round ?L ?R jconds (?j, w3) = (Inl NullDereference, t)"
    using round_null [of ?L jconds ?j ?R w3 r1 w3 v r2 w4 r3 w5] assms(6-8) re rf(1) rs unfolding cols by auto
  then have "join_next ?L ?R jconds (?j, w3) = (Inl NullDereference, t)"
    unfolding join_next_def by (rule rounds_error)
  then have "join_begin ?L ?R jconds (new_join l r, s0) = (Inl NullDereference, t)"
    by (simp add: join_begin_def bindE_apply on_side new_join_def b(1) e f(1) c(1))
  then show ?thesis by (simp add: select_rows_def nl_join_def bindE_apply)
qed

theorem filter_without_match_crashes_join_witness:
  "\<exists>(s :: txnm) l r. fst (select_rows (nl_join (filter_exec (seq_scan 3 (demo_cols ''a'') [] demo_ctx 4)
      [demo_equal\<lparr>cond_op := OP_NE, rhs_col := demo_x ''a''\<rparr>]) (seq_scan 3 (demo_cols ''b'') [] demo_ctx 4) [demo_equal]) (new_join l r, s)) = Inl NullDereference"
proof -
  obtain s :: txnm where s: "\<forall>cols. scan_ok 3 cols [] demo_ctx s" "\<forall>cols. scan_rows 3 cols [] demo_ctx s = [replicate 16 0]"
    by (rule demo_scan) blast
  let ?ne = "demo_equal\<lparr>cond_op := OP_NE, rhs_col := demo_x ''a''\<rparr>"
  have "eval_conds trim_char [?ne] (replicate 16 0) (demo_cols ''a'') = Inr False"
    by (simp add: demo_equal_def plain_cond_def demo_cols_def demo_x_def new_TabCol_def eval_cond_def exec_get_col_def col_is_def bytes_at_def width_of_def
      compare_values_def TYPE_INT_c_def TYPE_STRING_c_def)
  then have f: "\<forall>v \<in> set (scan_rows 3 (demo_cols ''a'') [] demo_ctx s). eval_conds trim_char [?ne] v (demo_cols ''a'') = Inr False"
    by (simp add: s(2) del: eval_conds.simps)
  have r: "reads_left (demo_cols ''a'') [demo_equal]"
    by (simp add: reads_left_def demo_equal_def plain_cond_def demo_cols_def demo_x_def new_TabCol_def col_is_def)
  have ne: "scan_rows 3 cols [] demo_ctx s \<noteq> []" for cols by (simp add: s(2))
  have len: "0 \<le> scan_len (demo_cols tab)" for tab by (simp add: demo_len)
  show ?thesis
    using filter_without_match_crashes_join [OF spec [OF s(1)] spec [OF s(1)] ne f ne r len len] unfolding demo_len by blast
qed

end
