(* ===== verification/Queries.thy ===== *)
theory Queries
  imports ExecPlans Output
begin

text \<open>
  A whole query: \<open>select_from\<close> over the executors, with what it leaves in \<^verbatim>\<open>output.texts\<close> and in the buffer
  for the client.
\<close>

section \<open>What is printed\<close>

lemma to_file_sent [simp]: "out_sent (to_file xs c) = out_sent c"
  by (simp add: to_file_def)

lemma row_texts_length: "row_texts cols v = Inr xs \<Longrightarrow> length xs = length cols"
  by (induction cols arbitrary: xs) (auto simp: bindR_Inr)

lemma print_cells_file: "out_file (print_cells xs c) = out_file c"
  by (simp add: print_cells_def Let_def send_def)

lemma print_header_ok:
  "sel_cols \<noteq> [] \<Longrightarrow> \<exists>d. print_header sel_cols c = Inr d \<and> out_file d = out_file c @ file_line (map caption sel_cols)"
  by (simp add: print_header_def Let_def print_rec_def print_cells_file to_file_def)

lemma print_rows_ok:
  assumes "\<forall>v \<in> set vs. row_texts cols (f v) = Inr (texts v)" and "length cols = n"
  shows "\<exists>d. print_rows n cols (map f vs) c = Inr d \<and> out_file d = out_file c @ concat (map (\<lambda>v. file_line (texts v)) vs)"
  using assms
proof (induction vs arbitrary: c)
  case (Cons v vs)
  have "length (texts v) = n" using row_texts_length [of cols "f v" "texts v"] Cons.prems by simp
  then have "print_row n cols (f v) c = Inr (to_file (texts v) (print_cells (texts v) c))"
    using Cons.prems by (simp add: print_row_def print_rec_def)
  then show ?case
    using Cons.IH [of "to_file (texts v) (print_cells (texts v) c)"] Cons.prems by (auto simp: to_file_def print_cells_file)
qed simp

section \<open>A projection\<close>

lemma the_rows_mem: "v \<in> set (the_rows xs) \<longleftrightarrow> Some v \<in> set xs"
  by (force simp: the_rows_def image_iff)

context projected
begin

lemma select_prints:
  assumes "world w" and "fresh (pr_child p)" and "limit \<le> 0" and "sel_cols \<noteq> []" and "length sel_cols = length pcs" and "0 \<le> proj_len pcs"
    and rows: "\<forall>v \<in> set (the_rows xs). proj_bytes pcs v = Inr (f v) \<and> row_texts (map snd pcs) (f v) = Inr (texts v)"
  shows "\<exists>p' w' c' front. select_from (proj_exec ch pcs limit) sel_cols ((p, w), c) = (Inr (), ((p', w'), c')) \<and> world w' \<and>
    out_file c' = out_file c @ file_line (map caption sel_cols) @ concat (map (\<lambda>v. file_line (texts v)) (the_rows xs)) \<and>
    out_sent c' = front @ ''Total record(s): '' @ nat_str (length (the_rows xs)) @ newline"
proof -
  let ?ex = "proj_exec ch pcs limit" and ?rows = "proj_rows limit f 0 xs"
  have the_rows: "the_rows ?rows = map f (the_rows xs)" by (simp add: proj_rows_unlimited [OF assms(3)] the_rows_map)
  have cols: "ex_cols ?ex = map snd pcs" by (simp add: proj_exec_def)
  have fresh: "proj_ok \<and> fresh (pr_child p)" using assms(2,6) rows by (auto simp: proj_ok_def the_rows_mem)
  obtain c1 where c1: "print_header sel_cols c = Inr c1" "out_file c1 = out_file c @ file_line (map caption sel_cols)"
    using print_header_ok [OF assms(4)] by blast
  have "\<forall>v \<in> set (the_rows xs). row_texts (map snd pcs) (f v) = Inr (texts v)" using rows by blast
  then obtain c2 where c2: "print_rows (length sel_cols) (ex_cols ?ex) (the_rows ?rows) c1 = Inr c2"
    "out_file c2 = out_file c1 @ concat (map (\<lambda>v. file_line (texts v)) (the_rows xs))"
    using print_rows_ok [of "the_rows xs" "map snd pcs" f texts "length sel_cols" c1] assms(5) by (auto simp: the_rows cols)
  have "length (the_rows ?rows) = length (the_rows xs)" by (simp add: the_rows)
  then obtain p' w' where q: "select_from ?ex sel_cols ((p, w), c) =
      (Inr (), ((p', w'), print_record_count (length (the_rows xs)) (print_separator (length sel_cols) c2)))" "world w'"
    using proj.select_from_rows [OF assms(1) fresh c1(1) c2(1)] by auto
  let ?c = "print_record_count (length (the_rows xs)) (print_separator (length sel_cols) c2)"
  have "out_file ?c = out_file c2" by (simp add: print_record_count_def send_def)
  moreover have "\<exists>front. out_sent ?c = front @ ''Total record(s): '' @ nat_str (length (the_rows xs)) @ newline"
    by (auto simp: print_record_count_def send_def count_text_def intro: exI [of _ "xs @ ys" for xs ys])
  ultimately show ?thesis using q c1(2) c2(2) by auto
qed

end

interpretation scan_proj: projected "seq_scan fd cols conds ctx len" "same_db s0" "\<lambda>_. scan_ok fd cols conds ctx s0"
    "map Some (scan_rows fd cols conds ctx s0)" "at_scan fd cols conds ctx s0" "at_scan fd cols conds ctx s0" pcs limit f
    for fd cols conds ctx len pcs limit f and s0 :: "'a txnm_scheme"
  by unfold_locales

section \<open>A query\<close>

definition empty_out :: out where
  "empty_out = \<lparr>out_sent = [], out_ellipsis = False, out_file = []\<rparr>"

definition demo_pcs :: "(ColMeta \<times> ColMeta) list" where
  "demo_pcs = [(hd (demo_cols ''a''), hd (demo_cols ''a''))]"

abbreviation fresh_query :: "seq_scan_obj proj_obj" where
  "fresh_query \<equiv> new_proj \<lparr>ss_rid = invalid_rid, ss_scan = None\<rparr>"

abbreviation demo_query :: "(seq_scan_obj proj_obj, 'a txnm_scheme) executor" where
  "demo_query \<equiv> proj_exec (seq_scan 3 (demo_cols ''a'') [] demo_ctx 4) demo_pcs (- 1)"

lemma demo_digits: "nat_str 0 = ''0''" "nat_str 1 = ''1''"
  by code_simp+

lemma demo_text: "row_texts (demo_cols ''a'') (replicate 4 0) = Inr [''0'']"
proof -
  have "to_signed 4 (dec_le (replicate 4 0)) = 0" by (simp add: to_signed_def eval_nat_numeral)
  then have "value_text (hd (demo_cols ''a'')) (replicate 4 0) = Inr ''0''"
    by (simp add: demo_cols_def bytes_at_def value_text_def i32_of_def int_str_def demo_digits)
  then show ?thesis by (simp add: demo_cols_def bytes_at_def)
qed

lemma demo_query_prints:
  obtains s :: txnm and t c' where "select_from demo_query [demo_x ''a''] ((fresh_query, s), empty_out) = (Inr (), (t, c'))"
    and "out_file c' = file_line [''x''] @ file_line [''0'']"
proof -
  obtain s :: txnm where s: "\<forall>cols. scan_ok 3 cols [] demo_ctx s" "\<forall>cols. scan_rows 3 cols [] demo_ctx s = [replicate 16 0]"
    by (rule demo_scan) blast
  have len: "length [demo_x ''a''] = length demo_pcs" "0 \<le> proj_len demo_pcs" by (simp_all add: proj_len_def demo_cols_def demo_pcs_def)
  have "\<forall>v \<in> set (the_rows (map Some (scan_rows 3 (demo_cols ''a'') [] demo_ctx s))).
      proj_bytes demo_pcs v = Inr (take 4 v) \<and> row_texts (map snd demo_pcs) (take 4 v) = Inr [''0'']"
    using demo_text by (simp add: s(2) demo_pcs_def) (simp add: demo_cols_def bytes_at_def)
  then show thesis
    using scan_proj.select_prints [where fd = 3 and cols = "demo_cols ''a''" and conds = "[]" and ctx = demo_ctx and len = 4 and ?s0.0 = s and w = s
        and p = fresh_query and limit = "- 1" and sel_cols = "[demo_x ''a'']" and pcs = demo_pcs and f = "take 4" and texts = "\<lambda>_. [''0'']" and c = empty_out]
      len s that by (fastforce simp: new_proj_def empty_out_def caption_def demo_x_def new_TabCol_def)
qed

section \<open>The buffer\<close>

text \<open>
  C31: The send buffer holds \<open>BUFFER_LENGTH\<close> bytes and nothing checks the line \<open>Total record(s)\<close> against it. Still
  a query never writes past the end: whatever the executor returns, also when it fails half-way, when it yields
  values of any width or returns no record at all, the bytes in front of the offset stay below the length of the
  buffer, if there was room for the count before and the file \<open>output.txt\<close> has fewer than \<open>10 ^ 14\<close> bytes after.
\<close>

theorem select_from_keeps_the_buffer:
  assumes "select_from ex sel_cols ((o1, w), c) = (r, (s, c'))"
    and "length (out_sent c) + RECORD_COUNT_LENGTH < BUFFER_LENGTH" and "length (out_file c') < 10 ^ 14"
  shows "length (out_sent c') < BUFFER_LENGTH"
proof -
  have b: "in_bounds c" using assms(2) by (simp add: in_bounds_def)
  have weak: "in_bounds d \<Longrightarrow> length (out_sent d) < BUFFER_LENGTH" for d by (simp add: in_bounds_def)
  have finish: "length (out_sent (print_record_count m (print_separator n d))) < BUFFER_LENGTH"
    if "in_bounds d" "m \<le> length (out_file d)" "length (out_file d) < 10 ^ 14" for m n d
    using bounds_separator [OF that(1), of n] count_text_short [of m "out_ellipsis (print_separator n d)"] that
    by (simp add: print_record_count_def send_def in_bounds_def)
  show ?thesis
  proof (cases "print_header sel_cols c")
    case (Inl e)
    then show ?thesis using assms(1) weak [OF b] by (simp add: select_from_def bindE_apply on_out_def)
  next
    case (Inr c1)
    note b1 = bounds_header [OF b Inr]
    obtain x t where begun: "ex_begin ex (o1, w) = (x, t)" by (cases "ex_begin ex (o1, w)")
    show ?thesis
    proof (cases x)
      case (Inl e)
      then show ?thesis using assms(1) weak [OF b1] \<open>print_header _ _ = _\<close> begun
        by (simp add: select_from_def bindE_apply on_out_def on_exec_def)
    next
      case (Inr u)
      show ?thesis
      proof (cases "print_loop ex (length sel_cols) 0 (t, c1)")
        case None
        then show ?thesis using assms(1) weak [OF b1] Inr \<open>print_header _ _ = _\<close> begun
          by (simp add: select_from_def bindE_apply on_out_def on_exec_def returned_def)
      next
        case (Some y)
        obtain z v d where y: "y = (z, (v, d))" by (cases y)
        have l: "in_bounds d" "\<forall>m. z = Inr m \<longrightarrow> m \<le> length (out_file d)"
          using print_loop_bounds [OF Some] b1 y by simp_all
        show ?thesis
        proof (cases z)
          case (Inl e)
          then show ?thesis using assms(1) weak [OF l(1)] Some y Inr \<open>print_header _ _ = _\<close> begun
            by (simp add: select_from_def bindE_apply on_out_def on_exec_def)
        next
          case (Inr m)
          then show ?thesis using assms(1,3) finish [OF l(1)] l(2) Some y \<open>x = _\<close> \<open>print_header _ _ = _\<close> begun
            by (auto simp: select_from_def bindE_apply on_out_def on_exec_def print_record_count_def send_def)
        qed
      qed
    qed
  qed
qed

theorem select_from_keeps_the_buffer_witness:
  "\<exists>(s :: txnm) t c'. select_from demo_query [demo_x ''a''] ((fresh_query, s), empty_out) = (Inr (), (t, c')) \<and>
    length (out_sent c') < BUFFER_LENGTH"
proof -
  obtain s :: txnm and t c' where q: "select_from demo_query [demo_x ''a''] ((fresh_query, s), empty_out) = (Inr (), (t, c'))"
    "out_file c' = file_line [''x''] @ file_line [''0'']"
    by (rule demo_query_prints)
  have "length (out_file c') < 10 ^ 14" by (simp add: q(2) file_line_def newline_def)
  moreover have "length (out_sent empty_out) + RECORD_COUNT_LENGTH < BUFFER_LENGTH"
    by (simp add: empty_out_def RECORD_COUNT_LENGTH_def BUFFER_LENGTH_def)
  ultimately show ?thesis using select_from_keeps_the_buffer [of demo_query "[demo_x ''a'']" fresh_query s empty_out "Inr ()" t c'] q(1) by blast
qed

end
