(* ===== verification/F32.thy ===== *)
theory F32
  imports IxPrint ExecValues
begin

text \<open>
  Arithmetic on \<open>float\<close>: conversion from and to \<open>int\<close>, and the four operations that \<^verbatim>\<open>analyze/analyze.cpp\<close> and the
  executors use. A \<open>float\<close> is its 32 bits; finite values are integers in units of \<open>2 ^ - 149\<close> (\<open>f32_units\<close>), and each
  result is rounded once, to nearest with ties to even. Results that are not a number are the quiet NaN.
\<close>

definition f32_NaN :: int where "f32_NaN = 0x7FC00000"

text \<open>The magnitude \<open>a / b\<close> rounded to a \<open>float\<close>; from \<open>2 ^ 277\<close> on it is infinite.\<close>

definition f32_quot :: "nat \<Rightarrow> nat \<Rightarrow> nat" where
  "f32_quot a b = (let sh = bit_len (a div b) - 24 in min (2 ^ 277) (round_div a (b * 2 ^ sh) * 2 ^ sh))"

text \<open>The bits of a magnitude that is a \<open>float\<close>.\<close>

definition f32_mag_bits :: "nat \<Rightarrow> int" where
  "f32_mag_bits m =
     (if m < 2 ^ 24 then int m
      else let sh = bit_len m - 24 in (int sh + 1) * 2 ^ 23 + (int (m div 2 ^ sh) - 2 ^ 23))"

definition f32_make :: "bool \<Rightarrow> nat \<Rightarrow> int" where
  "f32_make neg m = (if neg then 2 ^ 31 else 0) + f32_mag_bits m"

definition f32_neg :: "int \<Rightarrow> bool" where "f32_neg b \<longleftrightarrow> b \<ge> 2 ^ 31"

definition f32_mag :: "int \<Rightarrow> nat" where "f32_mag b = nat \<bar>f32_units b\<bar>"

definition f32_of_int :: "int \<Rightarrow> int" where
  "f32_of_int n = f32_make (n < 0) (f32_quot (nat \<bar>n\<bar> * 2 ^ 149) 1)"

text \<open>Out of the range of \<open>int\<close> the conversion is undefined.\<close>

definition f32_to_int :: "int \<Rightarrow> db_error + int" where
  "f32_to_int b =
     (if f32_nan b \<or> f32_inf b then Inl (OutOfRange ''static_cast<int>'')
      else let q = int (f32_mag b div 2 ^ 149); n = (if f32_neg b then - q else q)
           in if int32_range n then Inr n else Inl (OutOfRange ''static_cast<int>''))"

definition f32_add :: "int \<Rightarrow> int \<Rightarrow> int" where
  "f32_add a b =
     (if f32_nan a \<or> f32_nan b then f32_NaN
      else if f32_inf a then if f32_inf b \<and> f32_neg a \<noteq> f32_neg b then f32_NaN else a
      else if f32_inf b then b
      else let x = f32_units a + f32_units b
           in if x = 0 then f32_make (f32_neg a \<and> f32_neg b) 0 else f32_make (x < 0) (f32_quot (nat \<bar>x\<bar>) 1))"

definition f32_negate :: "int \<Rightarrow> int" where
  "f32_negate b = (if f32_neg b then b - 2 ^ 31 else b + 2 ^ 31)"

definition f32_minus :: "int \<Rightarrow> int \<Rightarrow> int" where
  "f32_minus a b = (if f32_nan b then f32_NaN else f32_add a (f32_negate b))"

definition f32_mul :: "int \<Rightarrow> int \<Rightarrow> int" where
  "f32_mul a b =
     (let neg = (f32_neg a \<noteq> f32_neg b)
      in if f32_nan a \<or> f32_nan b then f32_NaN
         else if f32_inf a \<or> f32_inf b
         then if f32_mag a = 0 \<or> f32_mag b = 0 then f32_NaN else f32_make neg (2 ^ 277)
         else f32_make neg (f32_quot (f32_mag a * f32_mag b) (2 ^ 149)))"

definition f32_div :: "int \<Rightarrow> int \<Rightarrow> int" where
  "f32_div a b =
     (let neg = (f32_neg a \<noteq> f32_neg b)
      in if f32_nan a \<or> f32_nan b then f32_NaN
         else if f32_inf a then if f32_inf b then f32_NaN else f32_make neg (2 ^ 277)
         else if f32_inf b then f32_make neg 0
         else if f32_mag b = 0 then if f32_mag a = 0 then f32_NaN else f32_make neg (2 ^ 277)
         else f32_make neg (f32_quot (f32_mag a * 2 ^ 149) (f32_mag b)))"

definition f32_is_zero :: "int \<Rightarrow> bool" where
  "f32_is_zero b \<longleftrightarrow> \<not> f32_nan b \<and> f32_mag b = 0"

text \<open>Equality of C: no NaN is equal to anything, the two zeros are equal.\<close>

definition f32_eq :: "int \<Rightarrow> int \<Rightarrow> bool" where
  "f32_eq a b \<longleftrightarrow> \<not> f32_nan a \<and> \<not> f32_nan b \<and> f32_units a = f32_units b"

end
