(* ===== verification/Ast.thy ===== *)
theory Ast
  imports SmManager F32
begin

text \<open>
  Syntax trees, \<^verbatim>\<open>parser/ast.h\<close>, as the parser hands them to the analyzer, and the \<open>Query\<close> that
  \<^verbatim>\<open>analyze/analyze.h\<close> makes of them. A pointer that may be null is an \<open>option\<close>; the flags \<open>has_sort\<close>, \<open>has_limit\<close>
  and so on are those of the pointers. Both constructors of \<open>SelectStmt\<close> keep \<open>tabs\<close> and \<open>table_refs\<close> in step, so the
  references alone are stored. A literal \<open>float\<close> is its bits.
\<close>

section \<open>Expressions\<close>

datatype SvType = SV_TYPE_INT | SV_TYPE_FLOAT | SV_TYPE_STRING | SV_TYPE_BOOL

datatype SvCompOp = SV_OP_EQ | SV_OP_NE | SV_OP_LT | SV_OP_GT | SV_OP_LE | SV_OP_GE | SV_OP_ADD | SV_OP_SUB | SV_OP_MUL | SV_OP_DIV

datatype OrderByDir = OrderBy_DEFAULT | OrderBy_ASC | OrderBy_DESC

datatype SetKnobType = EnableNestLoop | EnableSortMerge

datatype JoinType = INNER_JOIN | LEFT_JOIN | RIGHT_JOIN | FULL_JOIN | SEMI_JOIN

datatype literal = IntLit int | FloatLit int | StringLit string | BoolLit bool

record ast_col =
  ac_tab :: string
  ac_col :: string
  ac_alias :: string

record ast_agg =
  aa_func :: AggFuncType
  aa_col :: "ast_col option"
  aa_alias :: string

text \<open>A subquery is parsed, but no code looks into it.\<close>

datatype expr =
    Lit literal
  | ColExpr ast_col
  | AggExpr ast_agg
  | BinaryExpr expr SvCompOp expr
  | SubQuery

text \<open>A condition of a clause is a \<open>BinaryExpr\<close>.\<close>

type_synonym ast_cond = "expr \<times> SvCompOp \<times> expr"

section \<open>Statements\<close>

record TableRef =
  tr_tab :: string
  tr_alias :: string

record JoinExpr =
  je_left :: string
  je_right :: string
  je_left_alias :: string
  je_right_alias :: string
  je_conds :: "ast_cond list"
  je_type :: JoinType

text \<open>\<open>cols\<close> and \<open>orderby_dirs\<close> of \<open>OrderBy\<close> have the same length.\<close>

record SelectStmt =
  ss_cols :: "ast_col list"
  ss_aggs :: "ast_agg list"
  ss_refs :: "TableRef list"
  ss_conds :: "ast_cond list"
  ss_joins :: "JoinExpr list"
  ss_order :: "(ast_col \<times> OrderByDir) list option"
  ss_group :: "ast_col list option"
  ss_having :: "ast_cond list option"
  ss_limit :: "int option"

record ast_col_def =
  acd_name :: string
  acd_type :: SvType
  acd_len :: int

datatype stmt =
    Help
  | ShowTables
  | ShowIndex string
  | DescTable string
  | TxnBegin
  | TxnCommit
  | TxnAbort
  | TxnRollback
  | CreateTable string "ast_col_def list"
  | DropTable string
  | CreateIndex string "string list"
  | DropIndex string "string list"
  | InsertStmt string "literal list"
  | DeleteStmt string "ast_cond list"
  | UpdateStmt string "(string \<times> expr) list" "ast_cond list"
  | Select SelectStmt
  | SetStmt SetKnobType bool

section \<open>Queries\<close>

record OrderByCol =
  ob_col :: TabCol
  ob_is_agg :: bool
  ob_agg :: AggFunc

record Query =
  q_conds :: "Condition list"
  q_cols :: "TabCol list"
  q_tables :: "string list"
  q_sets :: "(TabCol \<times> expr) list"
  q_values :: "Value list"
  q_aggs :: "AggFunc list"
  q_group :: "TabCol list"
  q_having :: "Condition list"
  q_limit :: int
  q_has_agg :: bool
  q_has_group :: bool
  q_has_having :: bool
  q_has_limit :: bool
  q_order :: "OrderByCol list"
  q_dirs :: "bool list"
  q_has_order :: bool
  q_joins :: "JoinExpr list"
  q_has_join :: bool
  q_select_all :: bool
  q_aliases :: "string \<rightharpoonup> string"
  q_projs :: "string \<rightharpoonup> TabCol list"

definition new_Query :: Query where
  "new_Query = \<lparr>q_conds = [], q_cols = [], q_tables = [], q_sets = [], q_values = [], q_aggs = [], q_group = [], q_having = [],
     q_limit = - 1, q_has_agg = False, q_has_group = False, q_has_having = False, q_has_limit = False, q_order = [], q_dirs = [],
     q_has_order = False, q_joins = [], q_has_join = False, q_select_all = False, q_aliases = Map.empty, q_projs = Map.empty\<rparr>"

end
