(* ===== verification/Analyze.thy ===== *)
theory Analyze
  imports Ast
begin

text \<open>
  The analyzer, \<^verbatim>\<open>analyze/analyze.{h,cpp}\<close>: resolving names and types of a statement, and evaluating the expressions
  of SET. \<open>tabs\<close> are the tables of the catalogue. A \<open>Value\<close> or \<open>Condition\<close> of the source starts with
  uninitialised members; \<open>junk\<close> is what they hold.
\<close>

section \<open>Values\<close>

definition set_int :: "int \<Rightarrow> Value \<Rightarrow> Value" where
  "set_int n v = v\<lparr>val_type := TYPE_INT_c, val_bits := n mod 2 ^ 32\<rparr>"

definition set_float :: "int \<Rightarrow> Value \<Rightarrow> Value" where
  "set_float b v = v\<lparr>val_type := TYPE_FLOAT_c, val_bits := b\<rparr>"

definition set_str :: "string \<Rightarrow> Value \<Rightarrow> Value" where
  "set_str t v = v\<lparr>val_type := TYPE_STRING_c, val_str := t\<rparr>"

definition int_val :: "Value \<Rightarrow> int" where
  "int_val v = to_signed 4 (val_bits v)"

definition fresh_value :: "Value \<Rightarrow> Value" where
  "fresh_value junk = junk\<lparr>val_str := [], val_raw := None\<rparr>"

fun convert_sv_value :: "Value \<Rightarrow> literal \<Rightarrow> db_error + Value" where
  "convert_sv_value junk (IntLit n) = Inr (set_int n (fresh_value junk))"
| "convert_sv_value junk (FloatLit b) = Inr (set_float b (fresh_value junk))"
| "convert_sv_value junk (StringLit t) = Inr (set_str t (fresh_value junk))"
| "convert_sv_value junk (BoolLit _) = Inl (InternalError ''Unexpected sv value type'')"

fun convert_sv_comp_op :: "SvCompOp \<Rightarrow> db_error + CompOp" where
  "convert_sv_comp_op SV_OP_EQ = Inr OP_EQ"
| "convert_sv_comp_op SV_OP_NE = Inr OP_NE"
| "convert_sv_comp_op SV_OP_LT = Inr OP_LT"
| "convert_sv_comp_op SV_OP_GT = Inr OP_GT"
| "convert_sv_comp_op SV_OP_LE = Inr OP_LE"
| "convert_sv_comp_op SV_OP_GE = Inr OP_GE"
| "convert_sv_comp_op _ = Inl (RuntimeError ''map::at'')"

section \<open>Columns\<close>

text \<open>The table of an unqualified column: first by its name, then by a name of the form \<open>table_column\<close>.\<close>

fun exact_match :: "string \<Rightarrow> string \<Rightarrow> ColMeta list \<Rightarrow> db_error + string" where
  "exact_match n tab_name [] = Inr tab_name"
| "exact_match n tab_name (c # cs) =
     (if cm_name c = n
      then if tab_name \<noteq> [] then Inl (AmbiguousColumnError n) else exact_match n (cm_tab c) cs
      else exact_match n tab_name cs)"

definition has_prefix :: "string \<Rightarrow> ColMeta \<Rightarrow> bool" where
  "has_prefix n c \<longleftrightarrow> (let p = cm_tab c @ ''_'' in length n > length p \<and> take (length p) n = p \<and> drop (length p) n = cm_name c)"

fun prefix_match :: "string \<Rightarrow> string \<Rightarrow> ColMeta list \<Rightarrow> db_error + string \<times> string" where
  "prefix_match n tab_name [] = Inr (n, tab_name)"
| "prefix_match n tab_name (c # cs) =
     (if has_prefix n c
      then if tab_name \<noteq> [] then Inl (AmbiguousColumnError n) else prefix_match (cm_name c) (cm_tab c) cs
      else prefix_match n tab_name cs)"

definition check_column :: "ColMeta list \<Rightarrow> TabCol \<Rightarrow> db_error + TabCol" where
  "check_column all_cols target =
     (if tc_tab target \<noteq> [] then Inr target
      else bindR (exact_match (tc_col target) [] all_cols) (\<lambda>t.
           bindR (if t \<noteq> [] then Inr (tc_col target, t) else prefix_match (tc_col target) [] all_cols) (\<lambda>(n, t).
           if t = [] then Inl (ColumnNotFoundError n) else Inr (target\<lparr>tc_tab := t, tc_col := n\<rparr>))))"

fun mapR :: "('x \<Rightarrow> db_error + 'y) \<Rightarrow> 'x list \<Rightarrow> db_error + 'y list" where
  "mapR f [] = Inr []"
| "mapR f (x # xs) = bindR (f x) (\<lambda>y. bindR (mapR f xs) (\<lambda>ys. Inr (y # ys)))"

definition table_of :: "(string \<rightharpoonup> TabMeta) \<Rightarrow> string \<Rightarrow> db_error + TabMeta" where
  "table_of tabs n = (case tabs n of None \<Rightarrow> Inl (TableNotFoundError n) | Some t \<Rightarrow> Inr t)"

definition get_all_cols :: "(string \<rightharpoonup> TabMeta) \<Rightarrow> string list \<Rightarrow> db_error + ColMeta list" where
  "get_all_cols tabs ns = bindR (mapR (table_of tabs) ns) (\<lambda>ts. Inr (concat (map tm_cols ts)))"

definition analyze_get_col :: "ColMeta list \<Rightarrow> TabCol \<Rightarrow> db_error + ColMeta" where
  "analyze_get_col cols target =
     (case List.find (\<lambda>c. (tc_tab target = [] \<or> cm_tab c = tc_tab target) \<and> cm_name c = tc_col target) cols of
        None \<Rightarrow> Inl (ColumnNotFoundError (tc_col target)) | Some c \<Rightarrow> Inr c)"

section \<open>Conditions\<close>

definition real_name :: "(string \<rightharpoonup> string) \<Rightarrow> string \<Rightarrow> string" where
  "real_name aliases t = (if t \<noteq> [] then (case aliases t of None \<Rightarrow> t | Some u \<Rightarrow> u) else t)"

definition resolved_col :: "(string \<rightharpoonup> string) \<Rightarrow> ast_col \<Rightarrow> TabCol" where
  "resolved_col aliases c = \<lparr>tc_tab = real_name aliases (ac_tab c), tc_col = ac_col c, tc_alias = [], tc_original_tab = ac_tab c\<rparr>"

definition convert_agg :: "ast_agg \<Rightarrow> AggFunc" where
  "convert_agg a = empty_agg\<lparr>func_type := aa_func a,
     agg_col := (case aa_col a of Some c \<Rightarrow> new_TabCol (ac_tab c) (ac_col c) [] | None \<Rightarrow> new_TabCol [] [] [])\<rparr>"

definition fresh_cond :: "Condition \<Rightarrow> Condition" where
  "fresh_cond junk = junk\<lparr>lhs_col := empty_col, rhs_col := empty_col, rhs_val := fresh_value (rhs_val junk), lhs_agg := empty_agg,
     rhs_agg := empty_agg, lhs_value := fresh_value (lhs_value junk), rhs_value := fresh_value (rhs_value junk)\<rparr>"

fun clause_lhs :: "(string \<rightharpoonup> string) \<Rightarrow> expr \<Rightarrow> Condition \<Rightarrow> db_error + Condition" where
  "clause_lhs aliases (ColExpr c) cond = Inr (cond\<lparr>lhs_col := resolved_col aliases c, is_lhs_agg := False\<rparr>)"
| "clause_lhs aliases (AggExpr a) cond = Inr (cond\<lparr>is_lhs_agg := True, lhs_agg := convert_agg a, lhs_col := new_TabCol [] [] []\<rparr>)"
| "clause_lhs aliases _ cond = Inl (InternalError ''Unexpected lhs type in BinaryExpr'')"

text \<open>A right side that is neither a literal, nor a column, nor an aggregate leaves the flags as they are.\<close>

fun clause_rhs :: "(string \<rightharpoonup> string) \<Rightarrow> expr \<Rightarrow> Condition \<Rightarrow> db_error + Condition" where
  "clause_rhs aliases (Lit l) cond = bindR (convert_sv_value (rhs_val cond) l) (\<lambda>v.
     Inr (cond\<lparr>is_rhs_val := True, is_rhs_agg := False, rhs_val := v\<rparr>))"
| "clause_rhs aliases (ColExpr c) cond = Inr (cond\<lparr>is_rhs_val := False, is_rhs_agg := False, rhs_col := resolved_col aliases c\<rparr>)"
| "clause_rhs aliases (AggExpr a) cond =
     Inr (cond\<lparr>is_rhs_val := False, is_rhs_agg := True, rhs_agg := convert_agg a, rhs_col := new_TabCol [] [] []\<rparr>)"
| "clause_rhs aliases _ cond = Inr cond"

definition get_cond :: "Condition \<Rightarrow> (string \<rightharpoonup> string) \<Rightarrow> ast_cond \<Rightarrow> db_error + Condition" where
  "get_cond junk aliases = (\<lambda>(l, opr, r).
     bindR (clause_lhs aliases l (fresh_cond junk)) (\<lambda>cond. bindR (convert_sv_comp_op opr) (\<lambda>opr.
     clause_rhs aliases r (cond\<lparr>cond_op := opr\<rparr>))))"

definition get_clause :: "Condition \<Rightarrow> (string \<rightharpoonup> string) \<Rightarrow> ast_cond list \<Rightarrow> db_error + Condition list" where
  "get_clause junk aliases = mapR (get_cond junk aliases)"

definition table_col :: "(string \<rightharpoonup> TabMeta) \<Rightarrow> TabCol \<Rightarrow> db_error + ColMeta" where
  "table_col tabs c = bindR (table_of tabs (tc_tab c)) (\<lambda>t. bindR (get_col (tc_col c) t) (\<lambda>i. Inr (tm_cols t ! i)))"

text \<open>The raw buffer is filled before the literal is converted, and not again afterwards.\<close>

definition match_types :: "int \<Rightarrow> int \<Rightarrow> Condition \<Rightarrow> db_error + Condition" where
  "match_types lhs_type rhs_type cond =
     (if lhs_type = rhs_type then Inr cond
      else if lhs_type = TYPE_FLOAT_c \<and> rhs_type = TYPE_INT_c
      then Inr (cond\<lparr>rhs_val := set_float (f32_of_int (int_val (rhs_val cond))) (rhs_val cond)\<rparr>)
      else if lhs_type = TYPE_INT_c \<and> rhs_type = TYPE_FLOAT_c
      then bindR (f32_to_int (val_bits (rhs_val cond))) (\<lambda>n. Inr (cond\<lparr>rhs_val := set_int n (rhs_val cond)\<rparr>))
      else bindR (coltype2str lhs_type) (\<lambda>l. bindR (coltype2str rhs_type) (\<lambda>r. Inl (IncompatibleTypeError l r))))"

definition check_cond :: "(string \<rightharpoonup> TabMeta) \<Rightarrow> ColMeta list \<Rightarrow> Condition \<Rightarrow> db_error + Condition" where
  "check_cond tabs all_cols cond =
     (if is_lhs_agg cond \<or> is_rhs_agg cond then Inr cond
      else bindR (check_column all_cols (lhs_col cond)) (\<lambda>l.
           bindR (if is_rhs_val cond then Inr (rhs_col cond) else check_column all_cols (rhs_col cond)) (\<lambda>r.
           let cond = cond\<lparr>lhs_col := l, rhs_col := r\<rparr>
           in bindR (table_col tabs l) (\<lambda>lc.
              if is_rhs_val cond
              then bindR (init_raw (cm_len lc) (rhs_val cond)) (\<lambda>v. match_types (cm_type lc) (val_type v) (cond\<lparr>rhs_val := v\<rparr>))
              else bindR (table_col tabs r) (\<lambda>rc. match_types (cm_type lc) (cm_type rc) cond)))))"

definition check_clause :: "(string \<rightharpoonup> TabMeta) \<Rightarrow> string list \<Rightarrow> Condition list \<Rightarrow> db_error + Condition list" where
  "check_clause tabs tab_names conds = bindR (get_all_cols tabs tab_names) (\<lambda>all_cols. mapR (check_cond tabs all_cols) conds)"

definition where_clause :: "Condition \<Rightarrow> (string \<rightharpoonup> TabMeta) \<Rightarrow> (string \<rightharpoonup> string) \<Rightarrow> string list \<Rightarrow> ast_cond list \<Rightarrow>
    db_error + Condition list" where
  "where_clause junk tabs aliases tab_names conds = bindR (get_clause junk aliases conds) (check_clause tabs tab_names)"

section \<open>SELECT\<close>

text \<open>The right tables of the joins are added to the tables of FROM.\<close>

fun join_tables :: "(string \<rightharpoonup> TabMeta) \<Rightarrow> string list \<Rightarrow> JoinExpr list \<Rightarrow> db_error + string list" where
  "join_tables tabs tables [] = Inr tables"
| "join_tables tabs tables (j # js) =
     (if tabs (je_right j) = None then Inl (TableNotFoundError (je_right j))
      else join_tables tabs (if je_right j \<in> set tables then tables else tables @ [je_right j]) js)"

definition select_aggs :: "SelectStmt \<Rightarrow> AggFunc list" where
  "select_aggs x = map (\<lambda>a. \<lparr>func_type = aa_func a,
     agg_col = (case aa_col a of None \<Rightarrow> new_TabCol [] [] (aa_alias a) | Some c \<Rightarrow> new_TabCol (ac_tab c) (ac_col c) (aa_alias a)),
     agg_alias = aa_alias a\<rparr>) (ss_aggs x)"

text \<open>Alias and table of every reference, in the order in which they are entered into the two maps.\<close>

definition alias_pairs :: "SelectStmt \<Rightarrow> (string \<times> string) list" where
  "alias_pairs x = filter (\<lambda>(a, t). a \<noteq> [])
     (map (\<lambda>r. (tr_alias r, tr_tab r)) (ss_refs x) @
      concat (map (\<lambda>j. [(je_right_alias j, je_right j), (je_left_alias j, je_left j)]) (ss_joins x)))"

definition alias_to_table :: "SelectStmt \<Rightarrow> string \<rightharpoonup> string" where
  "alias_to_table x = foldl (\<lambda>m (a, t). m(a \<mapsto> t)) Map.empty (alias_pairs x)"

definition table_to_alias :: "SelectStmt \<Rightarrow> string \<rightharpoonup> string" where
  "table_to_alias x = foldl (\<lambda>m (a, t). m(t \<mapsto> a)) Map.empty (alias_pairs x)"

definition target_list :: "SelectStmt \<Rightarrow> TabCol list" where
  "target_list x = map (\<lambda>c. \<lparr>tc_tab = real_name (alias_to_table x) (ac_tab c), tc_col = ac_col c, tc_alias = ac_alias c,
     tc_original_tab = ac_tab c\<rparr>) (ss_cols x)"

definition check_agg :: "ColMeta list \<Rightarrow> AggFunc \<Rightarrow> db_error + AggFunc" where
  "check_agg all_cols a =
     (if tc_tab (agg_col a) \<noteq> [] \<or> tc_col (agg_col a) \<noteq> []
      then bindR (check_column all_cols (agg_col a)) (\<lambda>c. Inr (a\<lparr>agg_col := c\<rparr>)) else Inr a)"

text \<open>The columns and the aggregates of the result; no column and no aggregate is \<open>*\<close>.\<close>

definition result_list :: "ColMeta list \<Rightarrow> TabCol list \<Rightarrow> AggFunc list \<Rightarrow> db_error + bool \<times> TabCol list \<times> AggFunc list" where
  "result_list all_cols cols aggs =
     (if cols = [] \<and> aggs = [] then Inr (True, map (\<lambda>c. new_TabCol (cm_tab c) (cm_name c) []) all_cols, [])
      else bindR (mapR (check_column all_cols) cols) (\<lambda>cols. bindR (mapR (check_agg all_cols) aggs) (\<lambda>aggs. Inr (False, cols, aggs))))"

definition order_item :: "ColMeta list \<Rightarrow> AggFunc list \<Rightarrow> ast_col \<times> OrderByDir \<Rightarrow> db_error + OrderByCol \<times> bool" where
  "order_item all_cols aggs = (\<lambda>(c, dir).
     let col = new_TabCol (ac_tab c) (ac_col c) []
     in bindR (case List.find (\<lambda>a. agg_alias a = tc_col col) aggs of
                 Some a \<Rightarrow> Inr \<lparr>ob_col = col, ob_is_agg = True, ob_agg = a\<rparr>
               | None \<Rightarrow> bindR (check_column all_cols col) (\<lambda>col. Inr \<lparr>ob_col = col, ob_is_agg = False, ob_agg = empty_agg\<rparr>))
          (\<lambda>item. Inr (item, dir = OrderBy_DESC)))"

definition in_group :: "TabCol list \<Rightarrow> TabCol \<Rightarrow> bool" where
  "in_group grp c \<longleftrightarrow> (\<exists>g \<in> set grp. tc_tab c = tc_tab g \<and> tc_col c = tc_col g)"

definition is_qualified :: "TabCol \<Rightarrow> bool" where
  "is_qualified c \<longleftrightarrow> tc_tab c \<noteq> [] \<and> tc_col c \<noteq> []"

text \<open>The messages of the three semantic checks; \<open>None\<close> when a check passes.\<close>

definition ungrouped_column :: "TabCol list \<Rightarrow> TabCol list \<Rightarrow> string option" where
  "ungrouped_column grp cols = map_option
     (\<lambda>c. ''Column '' @ [CHR 0x27] @ tc_col c @ [CHR 0x27] @ '' must appear in GROUP BY clause or be used in an aggregate function'')
     (List.find (\<lambda>c. \<not> in_group grp c) cols)"

definition having_col :: "TabCol list \<Rightarrow> Condition \<Rightarrow> TabCol option" where
  "having_col grp cond =
     (if \<not> is_lhs_agg cond \<and> is_qualified (lhs_col cond) \<and> \<not> in_group grp (lhs_col cond) then Some (lhs_col cond)
      else if \<not> is_rhs_agg cond \<and> is_qualified (rhs_col cond) \<and> \<not> in_group grp (rhs_col cond) then Some (rhs_col cond)
      else None)"

definition ungrouped_having :: "TabCol list \<Rightarrow> Condition list \<Rightarrow> string option" where
  "ungrouped_having grp conds =
     (case List.find (\<lambda>c. having_col grp c \<noteq> None) conds of
        None \<Rightarrow> None
      | Some cond \<Rightarrow> Some (''Column '' @ [CHR 0x27] @ tc_col (the (having_col grp cond)) @ [CHR 0x27] @
          '' in HAVING clause must appear in GROUP BY clause or be used in an aggregate function''))"

definition agg_in_where :: "Condition list \<Rightarrow> string option" where
  "agg_in_where conds = (if \<exists>c \<in> set conds. is_lhs_agg c \<or> is_rhs_agg c
     then Some ''Aggregate functions are not allowed in WHERE clause'' else None)"

text \<open>A failed check is also reported in \<^verbatim>\<open>output.txt\<close>.\<close>

definition report :: "string option \<Rightarrow> (out, unit) op" where
  "report msg = (case msg of
     None \<Rightarrow> ret ()
   | Some m \<Rightarrow> bindE (updS (file_text (''failure'' @ newline))) (\<lambda>_. raise (InternalError m)))"

definition select_query :: "Condition \<Rightarrow> (string \<rightharpoonup> TabMeta) \<Rightarrow> SelectStmt \<Rightarrow> db_error + Query" where
  "select_query junk tabs x =
     bindR (join_tables tabs (map tr_tab (ss_refs x)) (ss_joins x)) (\<lambda>tables.
     bindR (get_all_cols tabs tables) (\<lambda>all_cols.
     bindR (result_list all_cols (target_list x) (select_aggs x)) (\<lambda>(select_all, cols, aggs).
     bindR (case ss_group x of None \<Rightarrow> Inr []
            | Some cs \<Rightarrow> mapR (\<lambda>c. check_column all_cols (new_TabCol (ac_tab c) (ac_col c) [])) cs) (\<lambda>grp.
     bindR (case ss_having x of None \<Rightarrow> Inr [] | Some cs \<Rightarrow> where_clause junk tabs Map.empty tables cs) (\<lambda>having.
     bindR (case ss_order x of None \<Rightarrow> Inr [] | Some os \<Rightarrow> mapR (order_item all_cols aggs) os) (\<lambda>order.
     bindR (where_clause junk tabs (alias_to_table x) tables (ss_conds x)) (\<lambda>conds.
     Inr (new_Query\<lparr>q_conds := conds, q_cols := cols, q_tables := tables, q_aggs := aggs, q_group := grp, q_having := having,
       q_limit := (case ss_limit x of None \<Rightarrow> - 1 | Some n \<Rightarrow> n), q_has_agg := ss_aggs x \<noteq> [], q_has_group := ss_group x \<noteq> None,
       q_has_having := ss_having x \<noteq> None, q_has_limit := ss_limit x \<noteq> None, q_order := map fst order, q_dirs := map snd order,
       q_has_order := ss_order x \<noteq> None, q_joins := ss_joins x, q_has_join := ss_joins x \<noteq> [], q_select_all := select_all,
       q_aliases := table_to_alias x\<rparr>))))))))"

definition semantic_checks :: "Query \<Rightarrow> (out, unit) op" where
  "semantic_checks q =
     bindE (if q_has_group q
            then bindE (report (ungrouped_column (q_group q) (q_cols q))) (\<lambda>_. report (ungrouped_having (q_group q) (q_having q)))
            else ret ()) (\<lambda>_. report (agg_in_where (q_conds q)))"

fun do_analyze :: "Condition \<Rightarrow> (string \<rightharpoonup> TabMeta) \<Rightarrow> stmt \<Rightarrow> (out, Query) op" where
  "do_analyze junk tabs (Select x) = bindE (liftR (select_query junk tabs x)) (\<lambda>q. bindE (semantic_checks q) (\<lambda>_. ret q))"
| "do_analyze junk tabs (UpdateStmt tab_name sets conds) =
     (if tabs tab_name = None then raise (TableNotFoundError tab_name)
      else bindE (liftR (where_clause junk tabs Map.empty [tab_name] conds)) (\<lambda>cs.
           ret (new_Query\<lparr>q_tables := [tab_name], q_sets := map (\<lambda>(n, e). (new_TabCol tab_name n [], e)) sets, q_conds := cs\<rparr>)))"
| "do_analyze junk tabs (DeleteStmt tab_name conds) =
     bindE (liftR (where_clause junk tabs Map.empty [tab_name] conds)) (\<lambda>cs. ret (new_Query\<lparr>q_conds := cs\<rparr>))"
| "do_analyze junk tabs (InsertStmt tab_name vals) =
     bindE (liftR (mapR (convert_sv_value (rhs_val junk)) vals)) (\<lambda>vs. ret (new_Query\<lparr>q_values := vs\<rparr>))"
| "do_analyze junk tabs _ = ret new_Query"

section \<open>Expressions\<close>

definition column_value :: "Value \<Rightarrow> byte list \<Rightarrow> ColMeta \<Rightarrow> db_error \<Rightarrow> db_error + Value" where
  "column_value junk rec c other =
     (if cm_type c = TYPE_INT_c then bindR (bytes_at rec (cm_offset c) 4) (\<lambda>b. Inr (set_int (i32_of b) (fresh_value junk)))
      else if cm_type c = TYPE_FLOAT_c then bindR (bytes_at rec (cm_offset c) 4) (\<lambda>b. Inr (set_float (f32_of b) (fresh_value junk)))
      else if cm_type c = TYPE_STRING_c
      then bindR (bytes_at rec (cm_offset c) (cm_len c)) (\<lambda>b. Inr (set_str (string_of_bytes (trim_char b)) (fresh_value junk)))
      else Inl other)"

text \<open>A number as a \<open>float\<close>, and as the divisor of a division.\<close>

definition as_float :: "Value \<Rightarrow> int" where
  "as_float v = (if val_type v = TYPE_INT_c then f32_of_int (int_val v) else val_bits v)"

definition is_zero_value :: "Value \<Rightarrow> bool" where
  "is_zero_value v = (if val_type v = TYPE_INT_c then int_val v = 0 else f32_is_zero (val_bits v))"

definition is_number :: "Value \<Rightarrow> bool" where
  "is_number v \<longleftrightarrow> val_type v = TYPE_INT_c \<or> val_type v = TYPE_FLOAT_c"

definition arith :: "Value \<Rightarrow> (int \<Rightarrow> int \<Rightarrow> int) \<Rightarrow> (int \<Rightarrow> int \<Rightarrow> int) \<Rightarrow> Value \<Rightarrow> Value \<Rightarrow> db_error + Value" where
  "arith junk f g l r =
     (if val_type l = TYPE_INT_c \<and> val_type r = TYPE_INT_c then Inr (set_int (c_int (f (int_val l) (int_val r))) (fresh_value junk))
      else if is_number l \<and> is_number r then Inr (set_float (g (as_float l) (as_float r)) (fresh_value junk))
      else bindR (coltype2str (val_type l)) (\<lambda>a. bindR (coltype2str (val_type r)) (\<lambda>b. Inl (IncompatibleTypeError a b))))"

text \<open>Division of two integers is the division of two \<open>float\<close>s.\<close>

definition divide :: "Value \<Rightarrow> Value \<Rightarrow> Value \<Rightarrow> db_error + Value" where
  "divide junk l r =
     (if is_number l \<and> is_number r
      then if is_zero_value r then Inl (InternalError ''Division by zero'')
           else Inr (set_float (f32_div (as_float l) (as_float r)) (fresh_value junk))
      else bindR (coltype2str (val_type l)) (\<lambda>a. bindR (coltype2str (val_type r)) (\<lambda>b. Inl (IncompatibleTypeError a b))))"

definition evaluate_binary_expr :: "Value \<Rightarrow> SvCompOp \<Rightarrow> Value \<Rightarrow> Value \<Rightarrow> db_error + Value" where
  "evaluate_binary_expr junk opr l r = (case opr of
     SV_OP_ADD \<Rightarrow> arith junk (+) f32_add l r
   | SV_OP_SUB \<Rightarrow> arith junk (-) f32_minus l r
   | SV_OP_MUL \<Rightarrow> arith junk (*) f32_mul l r
   | SV_OP_DIV \<Rightarrow> divide junk l r
   | _ \<Rightarrow> Inl (InternalError ''Unsupported binary operator in expression''))"

fun evaluate_expr :: "Value \<Rightarrow> byte list \<Rightarrow> ColMeta list \<Rightarrow> expr \<Rightarrow> db_error + Value" where
  "evaluate_expr junk rec cols (Lit l) = convert_sv_value junk l"
| "evaluate_expr junk rec cols (ColExpr c) = bindR (analyze_get_col cols (new_TabCol (ac_tab c) (ac_col c) [])) (\<lambda>cm.
     column_value junk rec cm (InternalError ''Unsupported column type in expression''))"
| "evaluate_expr junk rec cols (BinaryExpr l opr r) = bindR (evaluate_expr junk rec cols l) (\<lambda>x.
     bindR (evaluate_expr junk rec cols r) (\<lambda>y. evaluate_binary_expr junk opr x y))"
| "evaluate_expr junk rec cols _ = Inl (InternalError ''Unsupported expression type'')"

end
