(* ===== verification/Planner.thy ===== *)
theory Planner
  imports Analyze
begin

text \<open>
  Plans and the planner, \<^verbatim>\<open>optimizer/plan.h\<close>, \<^verbatim>\<open>optimizer/planner.{h,cpp}\<close> and \<^verbatim>\<open>optimizer/optimizer.h\<close>. The planner
  only reads the catalogue. \<open>NoPlan\<close> is the null pointer.
\<close>

section \<open>Plans\<close>

record scan_plan =
  sp_index :: bool
  sp_tab :: string
  sp_original :: string
  sp_conds :: "Condition list"
  sp_cols :: "ColMeta list"
  sp_len :: int
  sp_index_cols :: "string list"

datatype dml_tag = T_Insert | T_Update | T_Delete | T_select

datatype ddl_tag = T_CreateTable | T_DropTable | T_CreateIndex | T_DropIndex

datatype other_tag = T_Help | T_ShowTable | T_DescTable | T_ShowIndex | T_Transaction_begin | T_Transaction_commit
  | T_Transaction_abort | T_Transaction_rollback

datatype plan =
    NoPlan
  | ScanPlan scan_plan
  | FilterPlan plan "Condition list"
  | JoinPlan plan plan "Condition list"
  | ProjectionPlan plan "TabCol list" int bool
  | SortPlan plan "TabCol list" "bool list" int
  | AggPlan plan "AggFunc list" "TabCol list" "Condition list" "OrderByCol list" "bool list" int
  | DMLPlan dml_tag plan string "Value list" "Condition list" "(TabCol \<times> expr) list"
  | DDLPlan ddl_tag string "string list" "ColDef list"
  | OtherPlan other_tag string
  | SetKnobPlan SetKnobType bool

text \<open>The constructor of \<open>ScanPlan\<close>; \<open>cols_.back()\<close> of a table without columns is undefined.\<close>

definition new_ScanPlan :: "(string \<rightharpoonup> TabMeta) \<Rightarrow> bool \<Rightarrow> string \<Rightarrow> Condition list \<Rightarrow> string list \<Rightarrow> string \<Rightarrow> db_error + plan" where
  "new_ScanPlan tabs ix tab_name conds index_cols original =
     bindR (table_of tabs tab_name) (\<lambda>tab.
     if tm_cols tab = [] then Inl (OutOfRange ''back'')
     else Inr (ScanPlan \<lparr>sp_index = ix, sp_tab = tab_name, sp_original = (if original = [] then tab_name else original),
       sp_conds = conds, sp_cols = tm_cols tab, sp_len = c_int (cm_offset (last (tm_cols tab)) + cm_len (last (tm_cols tab))),
       sp_index_cols = index_cols\<rparr>))"

section \<open>Choosing an index\<close>

fun swap_op :: "CompOp \<Rightarrow> CompOp" where
  "swap_op OP_EQ = OP_EQ"
| "swap_op OP_NE = OP_NE"
| "swap_op OP_LT = OP_GT"
| "swap_op OP_GT = OP_LT"
| "swap_op OP_LE = OP_GE"
| "swap_op OP_GE = OP_LE"

text \<open>The columns of the table that occur in conditions, with the operators as seen from the column.\<close>

fun col_conditions :: "string \<Rightarrow> Condition list \<Rightarrow> (string \<times> CompOp) list" where
  "col_conditions tab_name [] = []"
| "col_conditions tab_name (c # cs) =
     (if tc_tab (lhs_col c) = tab_name then [(tc_col (lhs_col c), cond_op c)]
      else if \<not> is_rhs_val c \<and> tc_tab (rhs_col c) = tab_name then [(tc_col (rhs_col c), swap_op (cond_op c))]
      else []) @ col_conditions tab_name cs"

definition col_usable :: "(string \<times> CompOp) list \<Rightarrow> nat \<Rightarrow> nat \<Rightarrow> string \<Rightarrow> bool" where
  "col_usable cc i matched n \<longleftrightarrow> (\<exists>p \<in> set cc. fst p = n \<and> (i = 0 \<or> matched = i \<and> snd p = OP_EQ) \<and> snd p \<noteq> OP_NE)"

fun matched_cols :: "(string \<times> CompOp) list \<Rightarrow> nat \<Rightarrow> nat \<Rightarrow> ColMeta list \<Rightarrow> string list" where
  "matched_cols cc i matched [] = []"
| "matched_cols cc i matched (c # cs) =
     (if col_usable cc i matched (cm_name c) then cm_name c # matched_cols cc (Suc i) (Suc matched) cs else [])"

definition better_match :: "(string \<times> CompOp) list \<Rightarrow> string list \<Rightarrow> IndexMeta \<Rightarrow> string list" where
  "better_match cc best ix = (let m = matched_cols cc 0 0 (im_cols ix) in if length m > length best then m else best)"

text \<open>The empty list is the result \<open>false\<close>.\<close>

definition get_index_cols :: "(string \<rightharpoonup> TabMeta) \<Rightarrow> string \<Rightarrow> Condition list \<Rightarrow> db_error + string list" where
  "get_index_cols tabs tab_name conds = bindR (table_of tabs tab_name) (\<lambda>tab.
     Inr (foldl (better_match (col_conditions tab_name conds)) [] (tm_indexes tab)))"

section \<open>Conditions of one table\<close>

definition popped :: "string \<Rightarrow> Condition \<Rightarrow> bool" where
  "popped tab_name c \<longleftrightarrow> tab_name = tc_tab (lhs_col c) \<and> is_rhs_val c \<or> tc_tab (lhs_col c) = tc_tab (rhs_col c)"

definition pop_conds :: "Condition list \<Rightarrow> string \<Rightarrow> Condition list \<times> Condition list" where
  "pop_conds conds tab_name = (filter (popped tab_name) conds, filter (\<lambda>c. \<not> popped tab_name c) conds)"

section \<open>Which columns a join needs\<close>

definition unalias :: "(string \<rightharpoonup> string) \<Rightarrow> string \<Rightarrow> string" where
  "unalias aliases a =
     (case List.find (\<lambda>t. aliases t = Some a) (sorted_list_of_set (dom aliases)) of None \<Rightarrow> a | Some t \<Rightarrow> t)"

definition shown_as :: "(string \<rightharpoonup> string) \<Rightarrow> string \<Rightarrow> string" where
  "shown_as aliases t = (case aliases t of None \<Rightarrow> t | Some a \<Rightarrow> a)"

fun expr_col :: "expr \<Rightarrow> ast_col list" where
  "expr_col (ColExpr c) = [c]"
| "expr_col _ = []"

definition select_cols :: "Query \<Rightarrow> string \<Rightarrow> string set" where
  "select_cols q t = set (map tc_col (filter (\<lambda>c. tc_tab c \<noteq> [] \<and> tc_tab c = t) (q_cols q)))"

definition join_cols_of :: "Query \<Rightarrow> string \<Rightarrow> string set" where
  "join_cols_of q t =
     set (map ac_col (filter (\<lambda>c. unalias (q_aliases q) (ac_tab c) = t)
       (concat (map (\<lambda>(l, opr, r). expr_col l @ expr_col r) (concat (map je_conds (q_joins q)))))))"

definition table_projection :: "Query \<Rightarrow> string \<Rightarrow> TabCol list" where
  "table_projection q t =
     map (\<lambda>n. \<lparr>tc_tab = t, tc_col = n, tc_alias = [], tc_original_tab = shown_as (q_aliases q) t\<rparr>)
       (sorted_list_of_set (select_cols q t) @ sorted_list_of_set (join_cols_of q t - select_cols q t))"

definition logical_optimization :: "Query \<Rightarrow> Query" where
  "logical_optimization q =
     (if q_has_join q \<and> q_joins q \<noteq> [] \<and> \<not> q_select_all q
      then q\<lparr>q_projs := foldl (\<lambda>m t. m(t \<mapsto> table_projection q t)) (q_projs q) (q_tables q)\<rparr> else q)"

section \<open>Scans\<close>

definition with_filter :: "Condition list \<Rightarrow> plan \<Rightarrow> plan" where
  "with_filter conds p = (if conds = [] then p else FilterPlan p conds)"

definition with_projection :: "Query \<Rightarrow> string \<Rightarrow> plan \<Rightarrow> plan" where
  "with_projection q t p = (case q_projs q t of
     None \<Rightarrow> p | Some cs \<Rightarrow> if \<not> q_select_all q \<and> cs \<noteq> [] then ProjectionPlan p cs (- 1) False else p)"

text \<open>
  A table of a join. \<open>given\<close> tells whether the scan itself gets the conditions, \<open>filtered\<close> when a filter stands over
  it: always below \<open>JOIN\<close>, only over a sequential scan otherwise.
\<close>

definition table_scan :: "(string \<rightharpoonup> TabMeta) \<Rightarrow> Query \<Rightarrow> bool \<Rightarrow> string \<Rightarrow> Condition list \<Rightarrow> db_error + plan" where
  "table_scan tabs q joined t conds =
     bindR (get_index_cols tabs t conds) (\<lambda>ic.
     bindR (new_ScanPlan tabs (ic \<noteq> []) t (if joined then [] else conds) ic (shown_as (q_aliases q) t)) (\<lambda>p.
     Inr (with_projection q t (if joined \<or> ic = [] then with_filter conds p else p))))"

definition row_count :: "(string \<rightharpoonup> TabMeta) \<Rightarrow> string \<Rightarrow> db_error + int" where
  "row_count tabs t = bindR (table_of tabs t) (\<lambda>tab. Inr (tm_rows tab))"

text \<open>The scans of all tables with their row counts, and the conditions that are left.\<close>

fun table_scans :: "(string \<rightharpoonup> TabMeta) \<Rightarrow> Query \<Rightarrow> bool \<Rightarrow> string list \<Rightarrow> Condition list \<Rightarrow>
    db_error + (plan \<times> int) list \<times> Condition list" where
  "table_scans tabs q joined [] conds = Inr ([], conds)"
| "table_scans tabs q joined (t # ts) conds =
     (let (mine, rest) = pop_conds conds t
      in bindR (table_scan tabs q joined t mine) (\<lambda>p. bindR (row_count tabs t) (\<lambda>n.
         bindR (table_scans tabs q joined ts rest) (\<lambda>(ps, left). Inr ((p, n) # ps, left)))))"

fun scanned :: "plan \<Rightarrow> string set" where
  "scanned (ScanPlan x) = {sp_tab x}"
| "scanned (FilterPlan p _) = scanned p"
| "scanned (ProjectionPlan p _ _ _) = scanned p"
| "scanned (JoinPlan l r _) = scanned l \<union> scanned r"
| "scanned _ = {}"

text \<open>Whether a condition connects the new table with one of the left tree.\<close>

definition connects :: "string set \<Rightarrow> string \<Rightarrow> Condition \<Rightarrow> bool" where
  "connects left t c \<longleftrightarrow> \<not> is_rhs_val c \<and>
     (tc_tab (lhs_col c) = t \<and> tc_tab (rhs_col c) \<in> left \<or> tc_tab (rhs_col c) = t \<and> tc_tab (lhs_col c) \<in> left)"

section \<open>\<open>JOIN ... ON\<close>\<close>

definition planner_comp_op :: "SvCompOp \<Rightarrow> db_error + CompOp" where
  "planner_comp_op opr = (case opr of
     SV_OP_EQ \<Rightarrow> Inr OP_EQ | SV_OP_NE \<Rightarrow> Inr OP_NE | SV_OP_LT \<Rightarrow> Inr OP_LT | SV_OP_GT \<Rightarrow> Inr OP_GT | SV_OP_LE \<Rightarrow> Inr OP_LE
   | SV_OP_GE \<Rightarrow> Inr OP_GE | _ \<Rightarrow> Inl (InternalError ''Unknown comparison operator''))"

definition join_side :: "(string \<rightharpoonup> string) \<Rightarrow> ast_col \<Rightarrow> TabCol" where
  "join_side aliases c = \<lparr>tc_tab = unalias aliases (ac_tab c), tc_col = ac_col c, tc_alias = [], tc_original_tab = ac_tab c\<rparr>"

fun on_lhs :: "(string \<rightharpoonup> string) \<Rightarrow> expr \<Rightarrow> Condition \<Rightarrow> db_error + Condition" where
  "on_lhs aliases (ColExpr c) cond = Inr (cond\<lparr>lhs_col := join_side aliases c, is_lhs_agg := False\<rparr>)"
| "on_lhs aliases _ cond = Inl (InternalError ''Join condition lhs must be a column'')"

fun on_rhs :: "(string \<rightharpoonup> string) \<Rightarrow> expr \<Rightarrow> Condition \<Rightarrow> db_error + Condition" where
  "on_rhs aliases (Lit l) cond = bindR (convert_sv_value (rhs_val cond) l) (\<lambda>v.
     Inr (cond\<lparr>is_rhs_val := True, is_rhs_agg := False, rhs_val := v\<rparr>))"
| "on_rhs aliases (ColExpr c) cond = Inr (cond\<lparr>is_rhs_val := False, is_rhs_agg := False, rhs_col := join_side aliases c\<rparr>)"
| "on_rhs aliases _ cond = Inl (InternalError ''Join condition rhs must be a column or value'')"

definition on_cond :: "Condition \<Rightarrow> (string \<rightharpoonup> string) \<Rightarrow> ast_cond \<Rightarrow> db_error + Condition" where
  "on_cond junk aliases = (\<lambda>(l, opr, r).
     bindR (on_lhs aliases l (fresh_cond junk)) (\<lambda>cond. bindR (on_rhs aliases r cond) (\<lambda>cond.
     bindR (planner_comp_op opr) (\<lambda>opr. Inr (cond\<lparr>cond_op := opr\<rparr>)))))"

text \<open>The first unused table with the smallest row count, again and again.\<close>

definition least_unused :: "int list \<Rightarrow> nat set \<Rightarrow> nat option" where
  "least_unused counts used = foldl (\<lambda>m i. if i \<in> used then m
     else case m of None \<Rightarrow> Some i | Some j \<Rightarrow> if counts ! i < counts ! j then Some i else m) None [0..<length counts]"

fun greedy_from :: "int list \<Rightarrow> nat set \<Rightarrow> nat \<Rightarrow> nat list" where
  "greedy_from counts used 0 = []"
| "greedy_from counts used (Suc k) = (case least_unused counts used of
     None \<Rightarrow> [] | Some i \<Rightarrow> i # greedy_from counts (insert i used) k)"

definition greedy_order :: "int list \<Rightarrow> nat list" where
  "greedy_order counts = greedy_from counts {} (length counts)"

definition use_greedy :: "Condition list \<Rightarrow> int list \<Rightarrow> bool" where
  "use_greedy conds counts =
     (if length counts > 2 then True
      else if conds \<noteq> [] then \<exists>c \<in> set conds. \<not> is_rhs_val c
      else Max (set counts) > c_int (Min (set counts) * 10))"

definition join_order :: "Condition list \<Rightarrow> int list \<Rightarrow> nat list" where
  "join_order conds counts = (if use_greedy conds counts then greedy_order counts else [0..<length counts])"

text \<open>A left-deep tree; the conditions of ON stay available for later joins.\<close>

definition join_on :: "Condition list \<Rightarrow> plan \<Rightarrow> string \<times> plan \<Rightarrow> plan" where
  "join_on conds p = (\<lambda>(t, r). JoinPlan p r (filter (connects (scanned p) t) conds))"

definition join_tree :: "Condition \<Rightarrow> Query \<Rightarrow> (plan \<times> int) list \<Rightarrow> db_error + plan" where
  "join_tree junk q scans =
     bindR (mapR (on_cond junk (q_aliases q)) (concat (map je_conds (q_joins q)))) (\<lambda>conds.
     if length scans = 1 then Inr (fst (hd scans))
     else let inputs = map (\<lambda>i. (q_tables q ! i, fst (scans ! i))) (join_order conds (map snd scans))
          in Inr (foldl (join_on conds) (snd (hd inputs)) (tl inputs)))"

definition build_join_plan :: "Condition \<Rightarrow> (string \<rightharpoonup> TabMeta) \<Rightarrow> Query \<Rightarrow> db_error + plan" where
  "build_join_plan junk tabs q =
     bindR (table_scans tabs q True (q_tables q) (q_conds q)) (\<lambda>(scans, _). join_tree junk q scans)"

section \<open>Lists of tables\<close>

text \<open>Here a condition is used up by the join that it connects.\<close>

definition join_where :: "plan \<times> Condition list \<Rightarrow> string \<times> plan \<Rightarrow> plan \<times> Condition list" where
  "join_where = (\<lambda>(p, conds) (t, r).
     (JoinPlan p r (filter (connects (scanned p) t) conds), filter (\<lambda>c. \<not> connects (scanned p) t c) conds))"

text \<open>What is left goes to the outermost join, if it does not compare with a literal.\<close>

fun add_rest :: "Condition list \<Rightarrow> plan \<Rightarrow> plan" where
  "add_rest conds (JoinPlan l r cs) = JoinPlan l r (cs @ filter (\<lambda>c. \<not> is_rhs_val c) conds)"
| "add_rest conds p = p"

definition comma_join :: "(string \<times> plan) list \<Rightarrow> Condition list \<Rightarrow> plan" where
  "comma_join inputs conds = (let (p, rest) = foldl join_where (snd (hd inputs), conds) (tl inputs) in add_rest rest p)"

definition make_one_rel :: "Condition \<Rightarrow> (string \<rightharpoonup> TabMeta) \<Rightarrow> Query \<Rightarrow> db_error + plan" where
  "make_one_rel junk tabs q =
     (if q_has_join q \<and> q_joins q \<noteq> [] then build_join_plan junk tabs q
      else bindR (table_scans tabs q False (q_tables q) (q_conds q)) (\<lambda>(scans, rest).
           if length scans = 1 then Inr (fst (hd scans))
           else Inr (comma_join (zip (q_tables q) (map fst scans)) rest)))"

section \<open>SELECT\<close>

definition physical_optimization :: "Condition \<Rightarrow> (string \<rightharpoonup> TabMeta) \<Rightarrow> Query \<Rightarrow> db_error + plan" where
  "physical_optimization junk tabs q = (case q_tables q of
     [] \<Rightarrow> Inr NoPlan
   | [t] \<Rightarrow>
       bindR (get_index_cols tabs t (q_conds q)) (\<lambda>ic.
       bindR (new_ScanPlan tabs (ic \<noteq> []) t (q_conds q) ic (shown_as (q_aliases q) t)) (\<lambda>p.
       Inr (if ic = [] then with_filter (q_conds q) p else p)))
   | _ \<Rightarrow> make_one_rel junk tabs q)"

definition generate_sort_plan :: "Query \<Rightarrow> plan \<Rightarrow> plan" where
  "generate_sort_plan q p = (if q_order q = [] then p
     else SortPlan p (map ob_col (filter (\<lambda>o'. \<not> ob_is_agg o') (q_order q))) (q_dirs q) (q_limit q))"

fun agg_name :: "AggFuncType \<Rightarrow> string" where
  "agg_name AGG_COUNT = ''count''"
| "agg_name AGG_MAX = ''max''"
| "agg_name AGG_MIN = ''min''"
| "agg_name AGG_SUM = ''sum''"
| "agg_name AGG_AVG = ''avg''"

text \<open>The caption of an aggregate that has \<open>n\<close> columns before it.\<close>

definition agg_caption :: "nat \<Rightarrow> AggFunc \<Rightarrow> string" where
  "agg_caption n a =
     (if agg_alias a \<noteq> [] then agg_alias a
      else if func_type a = AGG_COUNT \<and> tc_tab (agg_col a) = [] \<and> tc_col (agg_col a) = [] then ''count''
      else if tc_col (agg_col a) \<noteq> [] then agg_name (func_type a) @ ''('' @ tc_col (agg_col a) @ '')''
      else ''agg_'' @ nat_str n)"

definition agg_sel_cols :: "Query \<Rightarrow> TabCol list" where
  "agg_sel_cols q = q_group q @ map (\<lambda>(i, a). empty_col\<lparr>tc_col := agg_caption (length (q_group q) + i) a\<rparr>) (enumerate 0 (q_aggs q))"

definition generate_select_plan :: "Condition \<Rightarrow> (string \<rightharpoonup> TabMeta) \<Rightarrow> Query \<Rightarrow> db_error + plan" where
  "generate_select_plan junk tabs q0 = (let q = logical_optimization q0 in
     bindR (physical_optimization junk tabs q) (\<lambda>p.
     Inr (if q_has_agg q \<or> q_has_group q
          then ProjectionPlan (AggPlan p (q_aggs q) (q_group q) (q_having q) (q_order q) (q_dirs q) (q_limit q))
                 (agg_sel_cols q) (q_limit q) (q_select_all q)
          else ProjectionPlan (if q_has_order q then generate_sort_plan q p else p) (q_cols q) (q_limit q) (q_select_all q))))"

section \<open>All statements\<close>

fun interp_sv_type :: "SvType \<Rightarrow> db_error + int" where
  "interp_sv_type SV_TYPE_INT = Inr TYPE_INT_c"
| "interp_sv_type SV_TYPE_FLOAT = Inr TYPE_FLOAT_c"
| "interp_sv_type SV_TYPE_STRING = Inr TYPE_STRING_c"
| "interp_sv_type SV_TYPE_BOOL = Inl (RuntimeError ''map::at'')"

definition plan_col_def :: "ast_col_def \<Rightarrow> db_error + ColDef" where
  "plan_col_def c = bindR (interp_sv_type (acd_type c)) (\<lambda>ty. Inr \<lparr>cd_name = acd_name c, cd_type = ty, cd_len = acd_len c\<rparr>)"

definition dml_scan :: "(string \<rightharpoonup> TabMeta) \<Rightarrow> string \<Rightarrow> Condition list \<Rightarrow> db_error + plan" where
  "dml_scan tabs t conds = bindR (get_index_cols tabs t conds) (\<lambda>ic. new_ScanPlan tabs (ic \<noteq> []) t conds ic [])"

fun do_planner :: "Condition \<Rightarrow> (string \<rightharpoonup> TabMeta) \<Rightarrow> stmt \<Rightarrow> Query \<Rightarrow> db_error + plan" where
  "do_planner junk tabs (CreateTable t fs) q = bindR (mapR plan_col_def fs) (\<lambda>cs. Inr (DDLPlan T_CreateTable t [] cs))"
| "do_planner junk tabs (DropTable t) q = Inr (DDLPlan T_DropTable t [] [])"
| "do_planner junk tabs (CreateIndex t ns) q = Inr (DDLPlan T_CreateIndex t ns [])"
| "do_planner junk tabs (DropIndex t ns) q = Inr (DDLPlan T_DropIndex t ns [])"
| "do_planner junk tabs (InsertStmt t _) q = Inr (DMLPlan T_Insert NoPlan t (q_values q) [] [])"
| "do_planner junk tabs (DeleteStmt t _) q = bindR (dml_scan tabs t (q_conds q)) (\<lambda>p. Inr (DMLPlan T_Delete p t [] (q_conds q) []))"
| "do_planner junk tabs (UpdateStmt t _ _) q =
     bindR (dml_scan tabs t (q_conds q)) (\<lambda>p. Inr (DMLPlan T_Update p t [] (q_conds q) (q_sets q)))"
| "do_planner junk tabs (Select _) q = bindR (generate_select_plan junk tabs q) (\<lambda>p. Inr (DMLPlan T_select p [] [] [] []))"
| "do_planner junk tabs (ShowIndex t) q = Inr (OtherPlan T_ShowIndex t)"
| "do_planner junk tabs _ q = Inl (InternalError ''Unexpected AST root'')"

fun plan_query :: "Condition \<Rightarrow> (string \<rightharpoonup> TabMeta) \<Rightarrow> stmt \<Rightarrow> Query \<Rightarrow> db_error + plan" where
  "plan_query junk tabs Help q = Inr (OtherPlan T_Help [])"
| "plan_query junk tabs ShowTables q = Inr (OtherPlan T_ShowTable [])"
| "plan_query junk tabs (DescTable t) q = Inr (OtherPlan T_DescTable t)"
| "plan_query junk tabs TxnBegin q = Inr (OtherPlan T_Transaction_begin [])"
| "plan_query junk tabs TxnAbort q = Inr (OtherPlan T_Transaction_abort [])"
| "plan_query junk tabs TxnCommit q = Inr (OtherPlan T_Transaction_commit [])"
| "plan_query junk tabs TxnRollback q = Inr (OtherPlan T_Transaction_rollback [])"
| "plan_query junk tabs (SetStmt k b) q = Inr (SetKnobPlan k b)"
| "plan_query junk tabs st q = do_planner junk tabs st q"

end
