(* ===== verification/PlanChoice.thy ===== *)
theory PlanChoice
  imports Planner
begin

text \<open>
  What the planner does with the conditions of a query and with the order of its tables: without \<open>JOIN\<close> each condition
  of WHERE is used once, where its columns are; with \<open>JOIN\<close> the conditions between two tables are forgotten. The greedy
  order of the tables is the stable sort by row count.
\<close>

section \<open>The conditions of a plan\<close>

text \<open>
  Where a plan uses conditions: in its scans and joins. The planner also puts a filter over a sequential scan, which tests
  the conditions of that scan a second time (\<open>repeats\<close> says that a plan has no other filters); these copies are not
  counted.
\<close>

fun plan_conds :: "plan \<Rightarrow> Condition list" where
  "plan_conds (ScanPlan x) = sp_conds x"
| "plan_conds (FilterPlan p _) = plan_conds p"
| "plan_conds (ProjectionPlan p _ _ _) = plan_conds p"
| "plan_conds (JoinPlan l r cs) = plan_conds l @ plan_conds r @ cs"
| "plan_conds (SortPlan p _ _ _) = plan_conds p"
| "plan_conds (AggPlan p _ _ _ _ _ _) = plan_conds p"
| "plan_conds _ = []"

fun repeats :: "plan \<Rightarrow> bool" where
  "repeats (FilterPlan p cs) \<longleftrightarrow> (\<exists>x. p = ScanPlan x \<and> \<not> sp_index x \<and> sp_conds x = cs)"
| "repeats (ProjectionPlan p _ _ _) \<longleftrightarrow> repeats p"
| "repeats (JoinPlan l r _) \<longleftrightarrow> repeats l \<and> repeats r"
| "repeats (SortPlan p _ _ _) \<longleftrightarrow> repeats p"
| "repeats (AggPlan p _ _ _ _ _ _) \<longleftrightarrow> repeats p"
| "repeats _ = True"

lemma repeats_sort [simp]: "repeats (generate_sort_plan q p) = repeats p"
  by (simp add: generate_sort_plan_def)

lemma plan_conds_sort [simp]: "plan_conds (generate_sort_plan q p) = plan_conds p"
  by (simp add: generate_sort_plan_def)

definition over_tables :: "string set \<Rightarrow> Condition \<Rightarrow> bool" where
  "over_tables ts c \<longleftrightarrow> tc_tab (lhs_col c) \<in> ts \<and> (\<not> is_rhs_val c \<longrightarrow> tc_tab (rhs_col c) \<in> ts)"

fun well_placed :: "plan \<Rightarrow> bool" where
  "well_placed (ScanPlan x) \<longleftrightarrow> (\<forall>c \<in> set (sp_conds x). over_tables {sp_tab x} c)"
| "well_placed (FilterPlan p _) = well_placed p"
| "well_placed (ProjectionPlan p _ _ _) = well_placed p"
| "well_placed (JoinPlan l r cs) \<longleftrightarrow> well_placed l \<and> well_placed r \<and> (\<forall>c \<in> set cs. over_tables (scanned l \<union> scanned r) c)"
| "well_placed (SortPlan p _ _ _) \<longleftrightarrow> well_placed p"
| "well_placed (AggPlan p _ _ _ _ _ _) \<longleftrightarrow> well_placed p"
| "well_placed _ = True"

lemma well_placed_sort [simp]: "well_placed (generate_sort_plan q p) = well_placed p"
  by (simp add: generate_sort_plan_def)

lemma with_filter_simps [simp]:
  "plan_conds (with_filter conds p) = plan_conds p" "scanned (with_filter conds p) = scanned p" "well_placed (with_filter conds p) = well_placed p"
  by (simp_all add: with_filter_def)

lemma with_projection_simps [simp]:
  "plan_conds (with_projection q t p) = plan_conds p" "scanned (with_projection q t p) = scanned p"
  "well_placed (with_projection q t p) = well_placed p" "repeats (with_projection q t p) = repeats p"
  by (simp_all add: with_projection_def split: option.splits)

lemma new_ScanPlan_eq:
  assumes "new_ScanPlan tabs ix t conds ic orig = Inr p"
  obtains x where "p = ScanPlan x" and "sp_tab x = t" and "sp_conds x = conds" and "sp_index x = ix"
  using assms by (auto simp: new_ScanPlan_def bindR_Inr split: if_splits)

lemma table_scan_facts:
  assumes "table_scan tabs q joined t conds = Inr p"
  shows "scanned p = {t}" and "plan_conds p = (if joined then [] else conds)"
    and "(\<forall>c \<in> set conds. over_tables {t} c) \<Longrightarrow> well_placed p" and "\<not> joined \<Longrightarrow> repeats p"
proof -
  obtain ic p0 where s: "new_ScanPlan tabs (ic \<noteq> []) t (if joined then [] else conds) ic (shown_as (q_aliases q) t) = Inr p0"
    and p: "p = with_projection q t (if joined \<or> ic = [] then with_filter conds p0 else p0)"
    using assms by (auto simp: table_scan_def bindR_Inr)
  from s obtain x where "p0 = ScanPlan x" "sp_tab x = t" "sp_conds x = (if joined then [] else conds)" "sp_index x = (ic \<noteq> [])"
    by (rule new_ScanPlan_eq)
  then show "scanned p = {t}" "plan_conds p = (if joined then [] else conds)" "(\<forall>c \<in> set conds. over_tables {t} c) \<Longrightarrow> well_placed p"
    "\<not> joined \<Longrightarrow> repeats p"
    by (simp_all add: p) (simp add: with_filter_def)
qed

lemma mset_split: "mset (filter P xs) + mset (filter (\<lambda>x. \<not> P x) xs) = mset xs"
  by (induction xs) simp_all

text \<open>The scans take the conditions on one table.\<close>

lemma table_scans_all:
  "table_scans tabs q False ts conds = Inr (ps, rest) \<Longrightarrow>
     length ps = length ts \<and> map (\<lambda>x. scanned (fst x)) ps = map (\<lambda>t. {t}) ts \<and>
     mset (concat (map (\<lambda>x. plan_conds (fst x)) ps)) + mset rest = mset conds \<and>
     set rest = {c \<in> set conds. \<forall>t \<in> set ts. \<not> popped t c} \<and> (\<forall>p \<in> set ps. repeats (fst p)) \<and>
     ((\<forall>c \<in> set conds. tc_tab (lhs_col c) \<noteq> tc_tab (rhs_col c)) \<longrightarrow> (\<forall>p \<in> set ps. well_placed (fst p)))"
proof (induction ts arbitrary: conds ps rest)
  case (Cons t ts)
  obtain p n ps' where p: "table_scan tabs q False t (filter (popped t) conds) = Inr p"
    and ps': "table_scans tabs q False ts (filter (\<lambda>c. \<not> popped t c) conds) = Inr (ps', rest)" and ps: "ps = (p, n) # ps'"
    using Cons.prems by (auto simp: bindR_Inr pop_conds_def split: prod.splits)
  note IH = Cons.IH [OF ps'] and f = table_scan_facts [OF p]
  have w: "(\<forall>c \<in> set conds. tc_tab (lhs_col c) \<noteq> tc_tab (rhs_col c)) \<longrightarrow> well_placed p"
    using f(3) by (auto simp: popped_def over_tables_def)
  have "mset (concat (map (\<lambda>x. plan_conds (fst x)) ps)) + mset rest = mset conds"
    using IH f(2) mset_split [of "popped t" conds] by (simp add: ps add.assoc del: mset_filter)
  then show ?case using IH f(1,4) w by (auto simp: ps)
qed simp

lemmas table_scans_facts = table_scans_all [THEN conjunct1] table_scans_all [THEN conjunct2, THEN conjunct1]
  table_scans_all [THEN conjunct2, THEN conjunct2, THEN conjunct1] table_scans_all [THEN conjunct2, THEN conjunct2, THEN conjunct2, THEN conjunct1]
  table_scans_all [THEN conjunct2, THEN conjunct2, THEN conjunct2, THEN conjunct2, THEN conjunct1]
  table_scans_all [THEN conjunct2, THEN conjunct2, THEN conjunct2, THEN conjunct2, THEN conjunct2]

section \<open>Lists of tables\<close>

text \<open>The joins take the conditions that connect two tables.\<close>

lemma join_where_fold:
  assumes "foldl join_where (p, conds) ins = (p', rest)"
    and "\<forall>(t, r) \<in> set ins. scanned r = {t} \<and> repeats r \<and> (Q \<longrightarrow> well_placed r)" and "repeats p \<and> (Q \<longrightarrow> well_placed p)"
  shows "scanned p' = scanned p \<union> fst ` set ins \<and> repeats p' \<and> (Q \<longrightarrow> well_placed p') \<and>
    mset (plan_conds p') + mset rest = mset (plan_conds p) + mset (concat (map (\<lambda>x. plan_conds (snd x)) ins)) + mset conds \<and> set rest \<subseteq> set conds"
  using assms
proof (induction ins arbitrary: p conds)
  case (Cons x ins)
  obtain t r where x: "x = (t, r)" by (cases x)
  let ?j = "JoinPlan p r (filter (connects (scanned p) t) conds)" and ?left = "filter (\<lambda>c. \<not> connects (scanned p) t c) conds"
  have r: "scanned r = {t}" "repeats r" "Q \<longrightarrow> well_placed r" using Cons.prems(2) x by auto
  have "repeats ?j \<and> (Q \<longrightarrow> well_placed ?j)" using r Cons.prems(3) by (auto simp: connects_def over_tables_def)
  then have IH: "scanned p' = scanned ?j \<union> fst ` set ins \<and> repeats p' \<and> (Q \<longrightarrow> well_placed p') \<and>
      mset (plan_conds p') + mset rest = mset (plan_conds ?j) + mset (concat (map (\<lambda>x. plan_conds (snd x)) ins)) + mset ?left \<and> set rest \<subseteq> set ?left"
    using Cons.IH [of ?j ?left] Cons.prems by (simp add: x join_where_def del: mset_filter)
  moreover have "mset (filter (connects (scanned p) t) conds) + mset ?left = mset conds" by (rule mset_split)
  ultimately show ?case using r(1) by (auto simp: x ac_simps simp del: mset_filter)
qed simp

lemma add_rest_join:
  assumes "foldl join_where (p, conds) ins = (p', rest)" and "ins \<noteq> []"
  shows "\<exists>l r cs. p' = JoinPlan l r cs"
  using assms
proof (induction ins arbitrary: p conds)
  case (Cons x ins)
  then show ?case by (cases "ins = []") (auto simp: join_where_def split: prod.splits)
qed simp

text \<open>
  C34: a condition of WHERE is used exactly once. For a query over two or more tables without \<open>JOIN\<close>, whose conditions
  name tables of the query, the scans and the joins of the plan hold each condition of WHERE exactly once, and the
  filters of the plan only repeat the conditions of the sequential scans right below them. If moreover no condition
  compares two columns of one table, each condition is where it belongs: in a scan of the table that it is about, or in a join
  below which all its columns are. A condition between two columns of one table is given to the first table of the
  query, whichever table it is about.
\<close>

theorem where_conditions_used_once:
  assumes "generate_select_plan junk tabs q = Inr p" and "q_joins q = []" and "q_tables q = t # u # ts"
    and "\<forall>c \<in> set (q_conds q). over_tables (set (q_tables q)) c"
  shows "mset (plan_conds p) = mset (q_conds q) \<and> repeats p \<and>
    ((\<forall>c \<in> set (q_conds q). tc_tab (lhs_col c) \<noteq> tc_tab (rhs_col c)) \<longrightarrow> well_placed p)"
proof -
  have q: "logical_optimization q = q" using assms(2) by (simp add: logical_optimization_def)
  let ?Q = "\<forall>c \<in> set (q_conds q). tc_tab (lhs_col c) \<noteq> tc_tab (rhs_col c)"
  obtain p0 where p: "plan_conds p = plan_conds p0 \<and> repeats p = repeats p0 \<and> well_placed p = well_placed p0" and "physical_optimization junk tabs q = Inr p0"
    using assms(1) by (auto simp: generate_select_plan_def q bindR_Inr intro: that split: if_splits)
  then obtain ps rest where ps: "table_scans tabs q False (q_tables q) (q_conds q) = Inr (ps, rest)"
    and p0: "p0 = (if length ps = 1 then fst (hd ps) else comma_join (zip (q_tables q) (map fst ps)) rest)"
    using assms(2,3) by (auto simp: physical_optimization_def make_one_rel_def bindR_Inr split: if_splits)
  note f = table_scans_facts [OF ps]
  have n: "length ps = length ts + 2" using f(1) assms(3) by simp
  then obtain x ps' where x: "ps = x # ps'" "ps' \<noteq> []" by (cases ps; fastforce)
  define ins where "ins = zip (u # ts) (map fst ps')"
  have sc: "scanned (fst x) = {t}" "map (\<lambda>x. scanned (fst x)) ps' = map (\<lambda>t. {t}) (u # ts)" using f(2) assms(3) x by simp_all
  have len: "length ps' = length (u # ts)" using n x by simp
  have at: "scanned (fst (ps' ! i)) = {(u # ts) ! i}" if "i < length ps'" for i
    using arg_cong [OF sc(2), of "\<lambda>l. l ! i"] that len by (cases i) simp_all
  have wp: "\<forall>y \<in> set ps. repeats (fst y) \<and> (?Q \<longrightarrow> well_placed (fst y))" using f(5,6) by blast
  have wi: "\<forall>(t, r) \<in> set ins. scanned r = {t} \<and> repeats r \<and> (?Q \<longrightarrow> well_placed r)"
    using at wp x len by (fastforce simp: ins_def set_zip)
  obtain p' rest' where j: "foldl join_where (fst x, rest) ins = (p', rest')" by (cases "foldl join_where (fst x, rest) ins")
  have ne: "ins \<noteq> []" using x len by (auto simp: ins_def)
  have fi: "fst ` set ins = set (u # ts)" using len by (simp add: ins_def flip: set_map)
  have sn: "map snd ins = map fst ps'" using len by (simp add: ins_def)
  have "map (\<lambda>x. plan_conds (snd x)) ins = map plan_conds (map snd ins)" by (simp add: comp_def)
  then have si: "map (\<lambda>x. plan_conds (snd x)) ins = map (\<lambda>x. plan_conds (fst x)) ps'" by (simp add: sn comp_def)
  have rv: "\<forall>c \<in> set rest. \<not> is_rhs_val c \<and> over_tables (set (q_tables q)) c"
    using f(4) assms(4) by (auto simp: popped_def over_tables_def)
  have x': "repeats (fst x) \<and> (?Q \<longrightarrow> well_placed (fst x))" using wp x by simp
  note g = join_where_fold [OF j wi x']
  obtain l r cs where p': "p' = JoinPlan l r cs" using add_rest_join [OF j ne] by blast
  have all: "\<forall>c \<in> set rest'. \<not> is_rhs_val c \<and> over_tables (set (q_tables q)) c" using g rv by blast
  then have keep: "filter (\<lambda>c. \<not> is_rhs_val c) rest' = rest'" by (simp add: filter_id_conv)
  have "p0 = add_rest rest' p'" using p0 n x j assms(3) by (simp add: comma_join_def ins_def)
  then have e: "p0 = JoinPlan l r (cs @ rest')" by (simp add: p' keep)
  have "mset (plan_conds p0) = mset (plan_conds p') + mset rest'" by (simp add: e p')
  then have "mset (plan_conds p0) = mset (q_conds q)" using g f(3) x by (simp add: si)
  moreover have "scanned p' = set (q_tables q)" using g sc(1) fi assms(3) by auto
  then have "repeats p0 \<and> (?Q \<longrightarrow> well_placed p0)" using g all by (auto simp: e p')
  ultimately show ?thesis by (simp add: p)
qed

section \<open>\<open>JOIN ... ON\<close>\<close>

text \<open>The scans below \<open>JOIN\<close> depend on the conditions they take only.\<close>

lemma with_projection_conds [simp]: "with_projection (q\<lparr>q_conds := cs\<rparr>) t p = with_projection q t p"
  by (simp add: with_projection_def split: option.split)

lemma table_scan_conds [simp]: "table_scan tabs (q\<lparr>q_conds := cs\<rparr>) j t mine = table_scan tabs q j t mine"
  by (simp add: table_scan_def)

lemma table_scans_conds [simp]: "table_scans tabs (q\<lparr>q_conds := cs\<rparr>) j ts mine = table_scans tabs q j ts mine"
  by (induction ts arbitrary: mine) simp_all

lemma bindR_assoc: "bindR (bindR m f) k = bindR m (\<lambda>x. bindR (f x) k)"
  by (cases m) simp_all

lemma bindR_cong: "(\<And>x. m = Inr x \<Longrightarrow> f x = g x) \<Longrightarrow> bindR m f = bindR m g"
  by (cases m) simp_all

lemma table_scans_joined:
  assumes "\<And>t c. popped t c \<Longrightarrow> P c"
  shows "bindR (table_scans tabs q True ts (filter P conds)) (\<lambda>(ps, _). k ps) =
    bindR (table_scans tabs q True ts conds) (\<lambda>(ps, _). k ps)"
proof (induction ts arbitrary: conds k)
  case (Cons t ts)
  have swap: "filter (\<lambda>c. \<not> popped t c) (filter P conds) = filter P (filter (\<lambda>c. \<not> popped t c) conds)"
    by (simp add: conj_commute)
  have "(\<lambda>c. P c \<and> popped t c) = popped t" using assms by blast
  then have pop: "filter (popped t) (filter P conds) = filter (popped t) conds" by simp
  have cut: "bindR (case x of (ps, left) \<Rightarrow> Inr (y # ps, left)) (\<lambda>(ps, _). k ps) = (case x of (ps, _) \<Rightarrow> k (y # ps))"
    for x :: "(plan \<times> int) list \<times> Condition list" and y
    by (cases x) simp
  show ?case
    by (simp add: pop_conds_def bindR_assoc cut swap pop Cons.IH del: filter_filter)
qed simp

lemma q_conds_upd:
  "q_aliases (q\<lparr>q_conds := cs\<rparr>) = q_aliases q" "q_joins (q\<lparr>q_conds := cs\<rparr>) = q_joins q" "q_tables (q\<lparr>q_conds := cs\<rparr>) = q_tables q"
  "q_has_join (q\<lparr>q_conds := cs\<rparr>) = q_has_join q" "q_has_agg (q\<lparr>q_conds := cs\<rparr>) = q_has_agg q" "q_cols (q\<lparr>q_conds := cs\<rparr>) = q_cols q"
  "q_has_group (q\<lparr>q_conds := cs\<rparr>) = q_has_group q" "q_aggs (q\<lparr>q_conds := cs\<rparr>) = q_aggs q" "q_group (q\<lparr>q_conds := cs\<rparr>) = q_group q"
  "q_having (q\<lparr>q_conds := cs\<rparr>) = q_having q" "q_order (q\<lparr>q_conds := cs\<rparr>) = q_order q" "q_dirs (q\<lparr>q_conds := cs\<rparr>) = q_dirs q"
  "q_limit (q\<lparr>q_conds := cs\<rparr>) = q_limit q" "q_select_all (q\<lparr>q_conds := cs\<rparr>) = q_select_all q"
  "q_has_order (q\<lparr>q_conds := cs\<rparr>) = q_has_order q" "q_conds (q\<lparr>q_conds := cs\<rparr>) = cs"
  by simp_all

lemma join_tree_conds: "join_tree junk (q\<lparr>q_conds := cs\<rparr>) scans = join_tree junk q scans"
  by (simp only: join_tree_def q_conds_upd)

lemma logical_optimization_conds: "logical_optimization (q\<lparr>q_conds := cs\<rparr>) = (logical_optimization q)\<lparr>q_conds := cs\<rparr>"
proof -
  have "table_projection (q\<lparr>q_conds := cs\<rparr>) = table_projection q"
    by (rule ext) (simp only: table_projection_def select_cols_def join_cols_of_def q_conds_upd)
  then show ?thesis by (simp add: logical_optimization_def)
qed

text \<open>
  C35: a query with \<open>JOIN\<close> forgets the conditions of WHERE between two tables. The plan is the same whatever these
  conditions are: only the conditions with a literal, and those between two columns of one table, have an effect on it.
\<close>

theorem join_forgets_where_between_tables:
  assumes "q_joins q \<noteq> []" and "q_has_join q" and "length (q_tables q) \<ge> 2"
  shows "generate_select_plan junk tabs q =
    generate_select_plan junk tabs (q\<lparr>q_conds := filter (\<lambda>c. is_rhs_val c \<or> tc_tab (lhs_col c) = tc_tab (rhs_col c)) (q_conds q)\<rparr>)"
proof -
  let ?P = "\<lambda>c. is_rhs_val c \<or> tc_tab (lhs_col c) = tc_tab (rhs_col c)"
  have pP: "popped t c \<Longrightarrow> ?P c" for t c by (auto simp: popped_def)
  note keep = table_scans_joined [of ?P, OF pP]
  have "build_join_plan junk tabs r = build_join_plan junk tabs (r\<lparr>q_conds := filter ?P (q_conds r)\<rparr>)" for r
    unfolding build_join_plan_def by (simp add: keep join_tree_conds)
  then have one: "make_one_rel junk tabs r = make_one_rel junk tabs (r\<lparr>q_conds := filter ?P (q_conds r)\<rparr>)" if "q_joins r \<noteq> []" "q_has_join r" for r
    using that unfolding make_one_rel_def q_conds_upd by (simp only: simp_thms if_True not_False_eq_True)
  have many: "physical_optimization junk tabs r = make_one_rel junk tabs r" if "length (q_tables r) \<ge> 2" for r
    using that by (auto simp: physical_optimization_def split: list.splits)
  have phys: "physical_optimization junk tabs r = physical_optimization junk tabs (r\<lparr>q_conds := filter ?P (q_conds r)\<rparr>)"
    if "q_joins r \<noteq> []" "q_has_join r" "length (q_tables r) \<ge> 2" for r
    using one [OF that(1,2)] many [of r] many [of "r\<lparr>q_conds := filter ?P (q_conds r)\<rparr>"] that(3) by (simp only: q_conds_upd)
  define r where "r = logical_optimization q"
  have r: "q_joins r = q_joins q" "q_has_join r = q_has_join q" "q_tables r = q_tables q" "q_conds r = q_conds q"
    by (simp_all add: r_def logical_optimization_def)
  have l: "logical_optimization (q\<lparr>q_conds := cs\<rparr>) = r\<lparr>q_conds := cs\<rparr>" for cs
    by (simp add: r_def logical_optimization_conds)
  have "q_joins r \<noteq> []" "q_has_join r" "length (q_tables r) \<ge> 2" using assms by (simp_all add: r)
  note same = phys [OF this, unfolded r(4)]
  have k: "agg_sel_cols (r\<lparr>q_conds := cs\<rparr>) = agg_sel_cols r" "generate_sort_plan (r\<lparr>q_conds := cs\<rparr>) p = generate_sort_plan r p" for cs p
    by (simp_all add: agg_sel_cols_def generate_sort_plan_def)
  show ?thesis
    unfolding generate_select_plan_def Let_def l r_def [symmetric] same by (simp only: q_conds_upd k)
qed

section \<open>The greedy order\<close>

definition before :: "int list \<Rightarrow> nat \<Rightarrow> nat \<Rightarrow> bool" where
  "before counts i j \<longleftrightarrow> counts ! i < counts ! j \<or> counts ! i = counts ! j \<and> i < j"

lemma least_unused_prefix:
  fixes counts :: "int list"
  defines "step \<equiv> \<lambda>used m i. if i \<in> used then m else case m of None \<Rightarrow> Some i | Some j \<Rightarrow> if counts ! i < counts ! j then Some i else m"
  shows "(case foldl (step used) None [0..<n] of None \<Rightarrow> \<forall>i < n. i \<in> used
     | Some i \<Rightarrow> i < n \<and> i \<notin> used \<and> (\<forall>j < n. j \<notin> used \<longrightarrow> j = i \<or> before counts i j))"
proof (induction n)
  case (Suc n)
  have "foldl (step used) None [0..<Suc n] = step used (foldl (step used) None [0..<n]) n" by simp
  then show ?case
    using Suc by (cases "foldl (step used) None [0..<n]") (auto simp: step_def before_def less_Suc_eq split: option.splits)
qed simp

lemma least_unused_spec:
  "(case least_unused counts used of None \<Rightarrow> \<forall>i < length counts. i \<in> used
     | Some i \<Rightarrow> i < length counts \<and> i \<notin> used \<and> (\<forall>j < length counts. j \<notin> used \<longrightarrow> j = i \<or> before counts i j))"
  unfolding least_unused_def by (rule least_unused_prefix)

lemma greedy_from_spec:
  assumes "card ({..<length counts} - used) = k"
  shows "set (greedy_from counts used k) = {..<length counts} - used \<and> distinct (greedy_from counts used k) \<and>
    sorted_wrt (before counts) (greedy_from counts used k)"
  using assms
proof (induction k arbitrary: used)
  case (Suc k)
  have "\<exists>j < length counts. j \<notin> used" using Suc.prems by (metis DiffE card_eq_0_iff equals0I lessThan_iff nat.distinct(1))
  then obtain i where i: "least_unused counts used = Some i" "i < length counts" "i \<notin> used"
    "\<forall>j < length counts. j \<notin> used \<longrightarrow> j = i \<or> before counts i j"
    using least_unused_spec [of counts used] by (auto split: option.splits)
  have "{..<length counts} - insert i used = ({..<length counts} - used) - {i}" by auto
  then have "card ({..<length counts} - insert i used) = k" using Suc.prems i(2,3) by simp
  from Suc.IH [OF this] show ?case using i by auto
qed auto

text \<open>
  C36: the greedy choice of the join order is a stable sort. Picking, again and again, the first table left with the
  smallest row count puts the tables in the order of \<open>sort_key\<close> by row count: each table once, smaller ones first, and
  tables of the same size in the order of the query.
\<close>

theorem greedy_order_is_stable_sort:
  "greedy_order counts = sort_key (\<lambda>i. counts ! i) [0..<length counts]"
proof -
  let ?n = "length counts" and ?ys = "greedy_order counts" and ?f = "\<lambda>i. counts ! i"
  have y: "set ?ys = {..<?n}" "distinct ?ys" "sorted_wrt (before counts) ?ys"
    using greedy_from_spec [of counts "{}" ?n] by (simp_all add: greedy_order_def)
  have ms: "mset [0..<?n] = mset ?ys" using y(1,2) by (metis atLeast_upt distinct_upt set_eq_iff_mset_eq_distinct)
  have srt: "sorted (map ?f ?ys)"
    unfolding sorted_map by (rule sorted_wrt_mono_rel [OF _ y(3)]) (auto simp: before_def)
  have "filter (\<lambda>x. ?f k = ?f x) ?ys = filter (\<lambda>x. ?f k = ?f x) [0..<?n]" for k
  proof (rule sorted_distinct_set_unique)
    have "sorted_wrt (before counts) (filter (\<lambda>x. ?f k = ?f x) ?ys)" using y(3) by (rule sorted_wrt_filter)
    then have "sorted_wrt (\<le>) (filter (\<lambda>x. ?f k = ?f x) ?ys)"
      by (rule sorted_wrt_mono_rel [rotated]) (auto simp: before_def)
    then show "sorted (filter (\<lambda>x. ?f k = ?f x) ?ys)" .
  qed (use y in \<open>auto intro: sorted_filter sorted_upt simp: sorted_wrt_filter\<close>)
  then show ?thesis using properties_for_sort_key [OF ms [symmetric] _ srt] by metis
qed

section \<open>Two tables\<close>

definition demo_col :: "string \<Rightarrow> ColMeta" where
  "demo_col t = \<lparr>cm_tab = t, cm_name = ''x'', cm_type = TYPE_INT_c, cm_len = 4, cm_offset = 0, cm_index = False\<rparr>"

definition demo_tabs :: "string \<rightharpoonup> TabMeta" where
  "demo_tabs = [''a'' \<mapsto> \<lparr>tm_name = ''a'', tm_cols = [demo_col ''a''], tm_indexes = [], tm_rows = 7\<rparr>,
     ''b'' \<mapsto> \<lparr>tm_name = ''b'', tm_cols = [demo_col ''b''], tm_indexes = [], tm_rows = 3\<rparr>]"

definition demo_conds :: "Condition list" where
  "demo_conds = [plain_cond (new_TabCol ''a'' ''x'' []) OP_LT (Inl (new_TabCol ''b'' ''x'' [])),
     plain_cond (new_TabCol ''a'' ''x'' []) OP_EQ (Inr (int_value 1))]"

text \<open>\<^verbatim>\<open>SELECT * FROM a, b WHERE a.x < b.x AND a.x = 1\<close>.\<close>

definition demo_query :: Query where
  "demo_query = new_Query\<lparr>q_conds := demo_conds, q_tables := [''a'', ''b''], q_select_all := True\<rparr>"

theorem where_conditions_used_once_witness:
  "\<exists>p. generate_select_plan (plain_cond empty_col OP_EQ (Inl empty_col)) demo_tabs demo_query = Inr p \<and>
    mset (plan_conds p) = mset demo_conds \<and> repeats p \<and> well_placed p"
proof -
  have "\<exists>p. generate_select_plan (plain_cond empty_col OP_EQ (Inl empty_col)) demo_tabs demo_query = Inr p"
    by (simp add: generate_select_plan_def logical_optimization_def physical_optimization_def make_one_rel_def demo_query_def new_Query_def
        pop_conds_def table_scan_def get_index_cols_def table_of_def demo_tabs_def new_ScanPlan_def row_count_def shown_as_def Let_def)
  moreover have "\<forall>c \<in> set (q_conds demo_query). tc_tab (lhs_col c) \<noteq> tc_tab (rhs_col c)"
    by (simp add: demo_query_def new_Query_def demo_conds_def plain_cond_def new_TabCol_def empty_col_def)
  ultimately show ?thesis
    using where_conditions_used_once [of "plain_cond empty_col OP_EQ (Inl empty_col)" demo_tabs demo_query _ "''a''" "''b''" "[]"]
    by (auto simp: demo_query_def new_Query_def demo_conds_def over_tables_def plain_cond_def new_TabCol_def empty_col_def)
qed

text \<open>\<^verbatim>\<open>SELECT * FROM a JOIN b ON a.x = b.x WHERE a.x < b.x AND a.x = 1\<close>.\<close>

definition demo_join_query :: Query where
  "demo_join_query = demo_query\<lparr>q_has_join := True,
     q_joins := [\<lparr>je_left = ''a'', je_right = ''b'', je_left_alias = [], je_right_alias = [],
       je_conds = [(ColExpr \<lparr>ac_tab = ''a'', ac_col = ''x'', ac_alias = []\<rparr>, SV_OP_EQ, ColExpr \<lparr>ac_tab = ''b'', ac_col = ''x'', ac_alias = []\<rparr>)],
       je_type = INNER_JOIN\<rparr>]\<rparr>"

theorem join_forgets_where_between_tables_witness:
  "generate_select_plan (plain_cond empty_col OP_EQ (Inl empty_col)) demo_tabs demo_join_query =
     generate_select_plan (plain_cond empty_col OP_EQ (Inl empty_col)) demo_tabs (demo_join_query\<lparr>q_conds := [demo_conds ! 1]\<rparr>)"
proof -
  have "filter (\<lambda>c. is_rhs_val c \<or> tc_tab (lhs_col c) = tc_tab (rhs_col c)) (q_conds demo_join_query) = [demo_conds ! 1]"
    by (simp add: demo_join_query_def demo_query_def new_Query_def demo_conds_def plain_cond_def new_TabCol_def)
  then show ?thesis
    using join_forgets_where_between_tables [of demo_join_query "plain_cond empty_col OP_EQ (Inl empty_col)" demo_tabs]
    by (simp add: demo_join_query_def demo_query_def)
qed

end
