(* ===== verification/WhereClause.thy ===== *)
theory WhereClause
  imports Analyze SmCatalog
begin

text \<open>
  What the analyzer makes of WHERE, and what the scans make of it: conditions between a column and a literal evaluate
  on every record of the table; a literal of the other number type is compared by its bits.
\<close>

lemma mapR_Inr: "mapR f xs = Inr ys \<longleftrightarrow> list_all2 (\<lambda>x y. f x = Inr y) xs ys"
proof (induction xs arbitrary: ys)
  case (Cons x xs)
  then show ?case by (cases ys) (auto simp: bindR_Inr)
qed auto

section \<open>Columns of one table\<close>

lemma exact_match_table:
  assumes "exact_match n u cs = Inr v" and "\<forall>c \<in> set cs. cm_tab c = t" and "u = [] \<or> u = t"
  shows "v = [] \<or> v = t"
  using assms by (induction n u cs rule: exact_match.induct) (auto split: if_splits)

lemma prefix_match_table:
  assumes "prefix_match n u cs = Inr (m, v)" and "\<forall>c \<in> set cs. cm_tab c = t" and "u = [] \<or> u = t"
  shows "v = [] \<or> v = t"
  using assms by (induction n u cs rule: prefix_match.induct) (auto split: if_splits)

lemma check_column_table:
  assumes "check_column cs c = Inr d" and "\<forall>x \<in> set cs. cm_tab x = t" and "tc_tab c = [] \<or> tc_tab c = t"
  shows "tc_tab d = t"
  using assms by (auto simp: check_column_def bindR_Inr split: if_splits dest: exact_match_table prefix_match_table)

lemma laid_out_tab: "laid_out n off cs \<Longrightarrow> c \<in> set cs \<Longrightarrow> cm_tab c = n \<and> off \<le> cm_offset c \<and> 0 \<le> cm_len c"
  by (induction cs arbitrary: off) fastforce+

lemma find_distinct:
  assumes "distinct (map f cs)" and "c \<in> set cs" and "P c" and "\<And>d. d \<in> set cs \<Longrightarrow> P d \<Longrightarrow> f d = f c"
  shows "List.find P cs = Some c"
  using assms
proof (induction cs)
  case (Cons x cs)
  show ?case
  proof (cases "c = x")
    case False
    then have "c \<in> set cs" using Cons.prems(2) by simp
    then have "f x \<noteq> f c" using Cons.prems(1) by auto
    then have "\<not> P x" using Cons.prems(4) [of x] by auto
    then show ?thesis using Cons.IH [OF _ \<open>c \<in> set cs\<close> Cons.prems(3)] Cons.prems(1,4) by simp
  qed (use Cons.prems(3) in simp)
qed simp

text \<open>A qualified column of the catalogue is found again by the executors.\<close>

lemma table_col_found:
  assumes "table_ok t tab" and "tabs t = Some tab" and "table_col tabs l = Inr lc" and "tc_tab l = t"
  shows "exec_get_col (tm_cols tab) l = Inr lc" and "lc \<in> set (tm_cols tab)" and "cm_tab lc = t" and "0 \<le> cm_offset lc"
proof -
  obtain i where i: "find_col (tm_cols tab) (tc_col l) 0 = Some i" "lc = tm_cols tab ! i"
    using assms(2-4) by (auto simp: table_col_def table_of_def get_col_def bindR_Inr split: option.splits)
  then have lc: "lc \<in> set (tm_cols tab)" "cm_name lc = tc_col l" using find_col_nth [OF i(1)] by auto
  show "lc \<in> set (tm_cols tab)" by (rule lc(1))
  show x: "cm_tab lc = t" "0 \<le> cm_offset lc" using assms(1) lc(1) laid_out_tab by (auto simp: table_ok_def)
  have "distinct (map cm_name (tm_cols tab))" using assms(1) by (simp add: table_ok_def)
  from find_distinct [OF this lc(1), of "col_is l"] have "List.find (col_is l) (tm_cols tab) = Some lc"
    using lc(2) x(1) assms(4) by (simp add: col_is_def)
  then show "exec_get_col (tm_cols tab) l = Inr lc" by (simp add: exec_get_col_def)
qed

section \<open>A column and a literal\<close>

text \<open>What is known of a condition that the analyzer accepts.\<close>

definition literal_cond :: "ColMeta list \<Rightarrow> ColMeta \<Rightarrow> CompOp \<Rightarrow> Value \<Rightarrow> Condition \<Rightarrow> bool" where
  "literal_cond cols lc opr v cond \<longleftrightarrow> exec_get_col cols (lhs_col cond) = Inr lc \<and> is_rhs_val cond \<and> cond_op cond = opr \<and>
     val_type v \<in> {TYPE_INT_c, TYPE_FLOAT_c, TYPE_STRING_c} \<and>
     (\<exists>w. init_raw (cm_len lc) v = Inr w \<and> val_raw (rhs_val cond) = val_raw w \<and> val_type (rhs_val cond) = cm_type lc \<and>
        (val_type v = cm_type lc \<longrightarrow> rhs_val cond = w) \<and> (val_type v = TYPE_STRING_c \<longleftrightarrow> cm_type lc = TYPE_STRING_c))"

lemma init_raw_type: "init_raw n v = Inr w \<Longrightarrow> val_type w = val_type v \<and> val_raw w \<noteq> None \<and> val_bits w = val_bits v"
  by (auto simp: init_raw_def split: if_splits)

lemma check_literal:
  assumes ok: "table_ok t tab" "tabs t = Some tab"
    and g: "get_cond junk Map.empty (ColExpr c, opr, Lit l) = Inr cond0" and k: "check_cond tabs (tm_cols tab) cond0 = Inr cond"
    and t: "ac_tab c = [] \<or> ac_tab c = t"
  obtains lc opr' v where "convert_sv_comp_op opr = Inr opr'" and "convert_sv_value (rhs_val (fresh_cond junk)) l = Inr v"
    and "lc \<in> set (tm_cols tab)" and "0 \<le> cm_offset lc" and "literal_cond (tm_cols tab) lc opr' v cond"
    and "tc_tab (lhs_col cond) = t" and "cm_name lc = tc_col (lhs_col cond)"
proof -
  obtain opr' v where o: "convert_sv_comp_op opr = Inr opr'" and v: "convert_sv_value (rhs_val (fresh_cond junk)) l = Inr v"
    and c0: "cond0 = (fresh_cond junk)\<lparr>lhs_col := resolved_col Map.empty c, is_lhs_agg := False, cond_op := opr', is_rhs_val := True,
      is_rhs_agg := False, rhs_val := v\<rparr>"
    using g by (auto simp: get_cond_def bindR_Inr)
  obtain d lc w where d: "check_column (tm_cols tab) (resolved_col Map.empty c) = Inr d" "table_col tabs d = Inr lc"
    "init_raw (cm_len lc) v = Inr w" "match_types (cm_type lc) (val_type w) (cond0\<lparr>lhs_col := d, rhs_val := w\<rparr>) = Inr cond"
    using k by (auto simp: check_cond_def c0 bindR_Inr Let_def)
  have "\<forall>x \<in> set (tm_cols tab). cm_tab x = t" using ok(1) laid_out_tab by (auto simp: table_ok_def)
  from check_column_table [OF d(1) this] have dt: "tc_tab d = t"
    using t by (auto simp: resolved_col_def real_name_def)
  note f = table_col_found [OF ok d(2) dt]
  have vt: "val_type v \<in> {TYPE_INT_c, TYPE_FLOAT_c, TYPE_STRING_c}"
    using v by (cases l) (auto simp: set_int_def set_float_def set_str_def)
  have w: "val_type w = val_type v" using init_raw_type [OF d(3)] by simp
  have "lhs_col cond = d \<and> literal_cond (tm_cols tab) lc opr' v cond"
    using d(3,4) f(1) vt w
    by (auto simp: literal_cond_def match_types_def c0 set_int_def set_float_def bindR_Inr col_types_c split: if_splits)
  moreover have "cm_name lc = tc_col d"
    using d(2) find_col_nth [of "tm_cols tab" "tc_col d" 0] ok(2) dt
    by (auto simp: table_col_def table_of_def get_col_def bindR_Inr split: option.splits)
  ultimately show thesis using that o v f dt by metis
qed

text \<open>Such a condition evaluates on every record that is long enough.\<close>

definition whole_row :: "TabMeta \<Rightarrow> byte list \<Rightarrow> bool" where
  "whole_row tab rec \<longleftrightarrow> (\<forall>c \<in> set (tm_cols tab). cm_offset c + cm_len c \<le> int (length rec))"

lemma literal_cond_evaluates:
  assumes "literal_cond cols lc opr v cond" and "0 \<le> cm_offset lc" and "cm_offset lc + cm_len lc \<le> int (length rec)"
  shows "\<exists>b. eval_cond norm rec cols cond = Inr b"
proof -
  obtain w where w: "init_raw (cm_len lc) v = Inr w" "val_raw (rhs_val cond) = val_raw w" "exec_get_col cols (lhs_col cond) = Inr lc"
    "is_rhs_val cond" "val_type (rhs_val cond) = cm_type lc" "val_type v = TYPE_STRING_c \<longleftrightarrow> cm_type lc = TYPE_STRING_c"
    "val_type v \<in> {TYPE_INT_c, TYPE_FLOAT_c, TYPE_STRING_c}"
    using assms(1) by (auto simp: literal_cond_def)
  obtain raw where raw: "val_raw w = Some raw" "length raw = nat (cm_len lc)" "0 \<le> cm_len lc"
    "cm_type lc \<noteq> TYPE_STRING_c \<Longrightarrow> cm_len lc = 4"
    using w(1,6,7) by (auto simp: init_raw_def col_types_c split: if_splits)
  have rd: "bytes_at rec (cm_offset lc) (width_of (cm_type lc) (cm_len lc)) = Inr (take (nat (width_of (cm_type lc) (cm_len lc))) (drop (nat (cm_offset lc)) rec))"
    "bytes_at raw 0 (width_of (cm_type lc) (cm_len lc)) = Inr (take (nat (width_of (cm_type lc) (cm_len lc))) raw)"
    using assms(2,3) raw(2-4) by (auto simp: bytes_at_def width_of_def)
  show ?thesis
  proof (cases "cm_type lc = TYPE_FLOAT_c")
    case True
    then have "width_of (cm_type lc) (cm_len lc) = 4" by (simp add: width_of_def col_types_c)
    then show ?thesis using rd(1) w(3,4) True by (simp add: eval_cond_def)
  qed (use w(2-4) raw(1) rd in \<open>auto simp: eval_cond_def\<close>)
qed

text \<open>
  C32: what the analyzer accepts, the scans can evaluate. When WHERE compares columns of one table with literals and the
  analyzer accepts it, then the conditions it builds have a result on every record that holds all columns of the
  table: no column is missing, no byte outside of the record or of the literal is read, no pointer is null.
\<close>

theorem analyzed_where_evaluates:
  assumes "table_ok t tab" and "tabs t = Some tab"
    and "\<forall>(l, opr, r) \<in> set conds. (\<exists>c v. l = ColExpr c \<and> (ac_tab c = [] \<or> ac_tab c = t) \<and> r = Lit v)"
    and "where_clause junk tabs Map.empty [t] conds = Inr cs" and "whole_row tab rec"
  shows "\<exists>b. eval_conds norm cs rec (tm_cols tab) = Inr b"
proof -
  obtain cs0 where cs0: "list_all2 (\<lambda>x y. get_cond junk Map.empty x = Inr y) conds cs0"
    and cs: "list_all2 (\<lambda>x y. check_cond tabs (tm_cols tab) x = Inr y) cs0 cs"
    using assms(2,4) by (auto simp: where_clause_def get_clause_def check_clause_def get_all_cols_def table_of_def bindR_Inr mapR_Inr)
  have "\<forall>c \<in> set cs. \<exists>b. eval_cond norm rec (tm_cols tab) c = Inr b"
  proof
    fix cond assume "cond \<in> set cs"
    then obtain i where i: "i < length cs" "cond = cs ! i" by (auto simp: in_set_conv_nth)
    then have n: "i < length cs0" "i < length conds" using cs0 cs by (simp_all add: list_all2_lengthD)
    obtain c opr v where x: "conds ! i = (ColExpr c, opr, Lit v)" "ac_tab c = [] \<or> ac_tab c = t"
      using assms(3) n(2) by (cases "conds ! i") (fastforce dest: nth_mem)
    have g: "get_cond junk Map.empty (ColExpr c, opr, Lit v) = Inr (cs0 ! i)" "check_cond tabs (tm_cols tab) (cs0 ! i) = Inr cond"
      using list_all2_nthD [OF cs0 n(2)] list_all2_nthD [OF cs n(1)] x(1) i(2) by simp_all
    obtain lc opr' w where "lc \<in> set (tm_cols tab)" "0 \<le> cm_offset lc" "literal_cond (tm_cols tab) lc opr' w cond"
      by (rule check_literal [OF assms(1,2) g x(2)])
    then show "\<exists>b. eval_cond norm rec (tm_cols tab) cond = Inr b"
      using literal_cond_evaluates assms(5) by (simp add: whole_row_def)
  qed
  then show ?thesis
  proof (induction cs)
    case (Cons c cs)
    then obtain b b' where "eval_cond norm rec (tm_cols tab) c = Inr b" "eval_conds norm cs rec (tm_cols tab) = Inr b'" by auto
    then show ?case by (cases b) auto
  qed auto
qed

text \<open>A table with a number and a name.\<close>

definition demo_items :: TabMeta where
  "demo_items = new_table ''t'' [\<lparr>cd_name = ''x'', cd_type = TYPE_INT_c, cd_len = 4\<rparr>, \<lparr>cd_name = ''n'', cd_type = TYPE_STRING_c, cd_len = 4\<rparr>]"

definition demo_junk :: Condition where
  "demo_junk = plain_cond empty_col OP_EQ (Inl empty_col)"

definition unqualified :: "string \<Rightarrow> expr" where
  "unqualified n = ColExpr \<lparr>ac_tab = [], ac_col = n, ac_alias = []\<rparr>"

lemma demo_items_ok: "table_ok ''t'' demo_items"
  by (simp add: demo_items_def table_ok_def new_table_def index_names_def c_int_def)

theorem analyzed_where_evaluates_witness:
  "\<exists>cs b. where_clause demo_junk [''t'' \<mapsto> demo_items] Map.empty [''t'']
       [(unqualified ''x'', SV_OP_LT, Lit (IntLit 7)), (unqualified ''n'', SV_OP_EQ, Lit (StringLit ''ab''))] = Inr cs \<and>
     eval_conds (\<lambda>x. x) cs [5, 0, 0, 0, 97, 98, 0, 0] (tm_cols demo_items) = Inr b"
proof -
  obtain cs where cs: "where_clause demo_junk [''t'' \<mapsto> demo_items] Map.empty [''t'']
       [(unqualified ''x'', SV_OP_LT, Lit (IntLit 7)), (unqualified ''n'', SV_OP_EQ, Lit (StringLit ''ab''))] = Inr cs"
    by (simp add: where_clause_def get_clause_def check_clause_def get_all_cols_def table_of_def get_cond_def unqualified_def demo_items_def
        new_table_def check_cond_def fresh_cond_def demo_junk_def plain_cond_def resolved_col_def real_name_def check_column_def empty_col_def
        table_col_def get_col_def set_int_def set_str_def fresh_value_def init_raw_def col_types_c match_types_def int_value_def c_int_def)
  then show ?thesis
    using analyzed_where_evaluates [OF demo_items_ok _ _ cs, of "[5, 0, 0, 0, 97, 98, 0, 0]" "\<lambda>x. x"]
    by (auto simp: unqualified_def whole_row_def demo_items_def new_table_def c_int_def)
qed

text \<open>
  C33: a \<open>float\<close> literal is compared with an integer column by its bits. The analyzer fills the raw buffer of the literal
  before it converts it, and does not fill it again: the comparison that the scans make is with the integer whose 32
  bits are those of the \<open>float\<close>, so \<^verbatim>\<open>x = 2.0\<close> holds for x = 1073741824 and not for x = 2.
\<close>

theorem float_literal_compared_by_its_bits:
  assumes "table_ok t tab" and "tabs t = Some tab" and "ac_tab c = [] \<or> ac_tab c = t" and "0 \<le> b" and "b < 2 ^ 32"
    and "where_clause junk tabs Map.empty [t] [(ColExpr c, opr, Lit (FloatLit b))] = Inr cs"
    and "exec_get_col (tm_cols tab) (lhs_col (hd cs)) = Inr lc" and "cm_type lc = TYPE_INT_c"
    and "bytes_at rec (cm_offset lc) 4 = Inr field"
  shows "\<exists>opr'. convert_sv_comp_op opr = Inr opr' \<and>
    eval_conds norm cs rec (tm_cols tab) = Inr (cmp_holds opr' (i32_of field) (to_signed 4 b))"
proof -
  obtain cond0 cond where g: "get_cond junk Map.empty (ColExpr c, opr, Lit (FloatLit b)) = Inr cond0"
    "check_cond tabs (tm_cols tab) cond0 = Inr cond" and cs: "cs = [cond]"
    using assms(2,6) by (auto simp: where_clause_def get_clause_def check_clause_def get_all_cols_def table_of_def bindR_Inr)
  obtain lc' opr' v where f: "convert_sv_comp_op opr = Inr opr'" "convert_sv_value (rhs_val (fresh_cond junk)) (FloatLit b) = Inr v"
    "literal_cond (tm_cols tab) lc' opr' v cond"
    by (rule check_literal [OF assms(1,2) g assms(3)])
  have "lc' = lc" using f(3) assms(7) by (simp add: literal_cond_def cs)
  then obtain w where w: "init_raw (cm_len lc) v = Inr w" "val_raw (rhs_val cond) = val_raw w" "is_rhs_val cond" "cond_op cond = opr'"
    "exec_get_col (tm_cols tab) (lhs_col cond) = Inr lc" using f(3) by (auto simp: literal_cond_def)
  have v: "val_type v = TYPE_FLOAT_c" "val_bits v = b" using f(2) by (auto simp: set_float_def)
  have raw: "val_raw (rhs_val cond) = Some (enc_le 4 b)" "cm_len lc = 4"
    using w(1,2) v by (auto simp: init_raw_def col_types_c split: if_splits)
  have "i32_of (enc_le 4 b) = to_signed 4 b" using assms(4,5) by (simp add: i32_of_def dec_enc_le)
  moreover have "bytes_at (enc_le 4 b) 0 4 = Inr (enc_le 4 b)" by (simp add: bytes_at_def)
  moreover have "TYPE_INT_c \<noteq> TYPE_FLOAT_c" "width_of TYPE_INT_c n = 4" for n by (simp_all add: width_of_def col_types_c)
  moreover have "val_raw (rhs_val cond) = Some (enc_le 4 b)" by (rule raw(1))
  ultimately have "eval_cond norm rec (tm_cols tab) cond = Inr (cmp_holds opr' (i32_of field) (to_signed 4 b))"
    using w(3-5) assms(8,9) by (simp add: eval_cond_def compare_values_def)
  then show ?thesis using f(1) by (simp add: cs)
qed

lemma demo_two: "f32_to_int 0x40000000 = Inr 2"
  by (simp add: f32_to_int_def f32_mag_def f32_units_def f32_nan_def f32_inf_def f32_neg_def int32_range_def Let_def)

theorem float_literal_compared_by_its_bits_witness:
  "\<exists>cs. where_clause demo_junk [''t'' \<mapsto> demo_items] Map.empty [''t''] [(unqualified ''x'', SV_OP_EQ, Lit (FloatLit 0x40000000))] = Inr cs \<and>
     eval_conds (\<lambda>x. x) cs [2, 0, 0, 0, 97, 98, 0, 0] (tm_cols demo_items) = Inr False"
proof -
  let ?c = "\<lparr>ac_tab = [], ac_col = ''x'', ac_alias = []\<rparr>" and ?row = "[2, 0, 0, 0, 97, 98, 0, 0] :: byte list"
  have "\<exists>cs. where_clause demo_junk [''t'' \<mapsto> demo_items] Map.empty [''t''] [(ColExpr ?c, SV_OP_EQ, Lit (FloatLit 0x40000000))] = Inr cs \<and>
      (\<exists>lc. exec_get_col (tm_cols demo_items) (lhs_col (hd cs)) = Inr lc \<and> cm_type lc = TYPE_INT_c \<and>
        bytes_at ?row (cm_offset lc) 4 = Inr [2, 0, 0, 0])"
    using demo_two by (simp add: where_clause_def get_clause_def check_clause_def get_all_cols_def table_of_def get_cond_def demo_items_def
        new_table_def check_cond_def fresh_cond_def demo_junk_def plain_cond_def resolved_col_def real_name_def check_column_def empty_col_def
        table_col_def get_col_def set_int_def set_float_def fresh_value_def init_raw_def col_types_c match_types_def int_value_def c_int_def
        exec_get_col_def col_is_def bytes_at_def)
  then obtain cs lc where cs: "where_clause demo_junk [''t'' \<mapsto> demo_items] Map.empty [''t''] [(ColExpr ?c, SV_OP_EQ, Lit (FloatLit 0x40000000))] = Inr cs"
    and lc: "exec_get_col (tm_cols demo_items) (lhs_col (hd cs)) = Inr lc" "cm_type lc = TYPE_INT_c" "bytes_at ?row (cm_offset lc) 4 = Inr [2, 0, 0, 0]"
    by blast
  have "i32_of [2, 0, 0, 0] = 2" "to_signed 4 0x40000000 = 0x40000000" by code_simp+
  then have "eval_conds (\<lambda>x. x) cs ?row (tm_cols demo_items) = Inr False"
    using float_literal_compared_by_its_bits [OF demo_items_ok _ _ _ _ cs lc, of "\<lambda>x. x"] by auto
  then show ?thesis using cs by (auto simp: unqualified_def)
qed

end
