(* ===== verification/ExecWrite.thy ===== *)
theory ExecWrite
  imports Analyze ExecScan
begin

text \<open>
  The executors that write: \<^verbatim>\<open>execution/executor_insert.h\<close>, \<^verbatim>\<open>execution/executor_delete.h\<close> and
  \<^verbatim>\<open>execution/executor_update.h\<close>. Each does all its work in one call of \<open>Next\<close>, after which its object is destroyed;
  an object is kept only as far as \<open>Next\<close> needs it. \<open>junk\<close> is the contents of memory that \<open>new\<close> and the padding of
  \<open>TupleMeta\<close> leave unset. What goes to \<open>std::cout\<close> is left out.
\<close>

section \<open>Records\<close>

text \<open>\<open>memcpy\<close> into a record.\<close>

definition put_bytes :: "byte list \<Rightarrow> int \<Rightarrow> byte list \<Rightarrow> db_error + byte list" where
  "put_bytes rec off v =
     (if 0 \<le> off \<and> off + int (length v) \<le> int (length rec)
      then Inr (take (nat off) rec @ v @ drop (nat off + length v) rec) else Inl (OutOfRange ''record''))"

definition meta_bytes :: "mem \<Rightarrow> TupleMeta \<Rightarrow> byte list" where
  "meta_bytes junk m = enc_le 8 (meta_ts m) @ [if meta_deleted m then 1 else 0] @ mem_read junk 9 7"

text \<open>A value for a column: numbers are converted, and the raw buffer is filled after that.\<close>

definition conv_value :: "int \<Rightarrow> Value \<Rightarrow> db_error + Value" where
  "conv_value ty v =
     (if ty = val_type v then Inr v
      else if ty = TYPE_FLOAT_c \<and> val_type v = TYPE_INT_c then Inr (set_float (f32_of_int (int_val v)) v)
      else if ty = TYPE_INT_c \<and> val_type v = TYPE_FLOAT_c then bindR (f32_to_int (val_bits v)) (\<lambda>n. Inr (set_int n v))
      else bindR (coltype2str ty) (\<lambda>a. bindR (coltype2str (val_type v)) (\<lambda>b. Inl (IncompatibleTypeError a b))))"

definition raw_value :: "ColMeta \<Rightarrow> Value \<Rightarrow> db_error + byte list" where
  "raw_value c v = bindR (conv_value (cm_type c) v) (\<lambda>v. bindR (init_raw (cm_len c) v) (\<lambda>v. deref (val_raw v)))"

fun put_values :: "int \<Rightarrow> ColMeta list \<Rightarrow> Value list \<Rightarrow> byte list \<Rightarrow> db_error + byte list" where
  "put_values base (c # cs) (v # vs) rec =
     bindR (raw_value c v) (\<lambda>raw. bindR (put_bytes rec (base + cm_offset c) raw) (put_values base cs vs))"
| "put_values base _ _ rec = Inr rec"

text \<open>The key of an index, and the handle of its file.\<close>

definition index_key :: "int \<Rightarrow> IndexMeta \<Rightarrow> byte list \<Rightarrow> db_error + byte list" where
  "index_key base ix v =
     (if im_col_num ix > int (length (im_cols ix)) then Inl (OutOfRange ''cols'')
      else key_of base (take (nat (im_col_num ix)) (im_cols ix)) v)"

definition index_handle :: "string \<Rightarrow> IndexMeta \<Rightarrow> ('a sms_scheme, int) op" where
  "index_handle tab_name ix = bindE getS (\<lambda>s. case ihs s (get_index_name tab_name (map cm_name (im_cols ix))) of
     None \<Rightarrow> raise (RuntimeError ''map::at'') | Some ih \<Rightarrow> ret ih)"

definition file_handle :: "string \<Rightarrow> ('a sms_scheme, int) op" where
  "file_handle tab_name = bindE getS (\<lambda>s. case fhs s tab_name of None \<Rightarrow> raise (RuntimeError ''map::at'') | Some fd \<Rightarrow> ret fd)"

definition the_ctx :: "Context option \<Rightarrow> ('s, Context) op" where
  "the_ctx ctx = (case ctx of None \<Rightarrow> raise NullDereference | Some c \<Rightarrow> ret c)"

definition the_txn :: "Context option \<Rightarrow> ('s, int) op" where
  "the_txn ctx = bindE (the_ctx ctx) (\<lambda>c. case ctx_txn c of None \<Rightarrow> raise NullDereference | Some i \<Rightarrow> ret i)"

definition throw_abort :: "Context option \<Rightarrow> ('a txnm_scheme, 'b) op" where
  "throw_abort ctx = bindE (the_txn ctx) (\<lambda>i. bindE (txn_at i) (\<lambda>t. raise (TransactionAbortException (txn_id t) DEADLOCK_PREVENTION)))"

definition count_rows :: "string \<Rightarrow> int \<Rightarrow> TabMeta \<Rightarrow> ('a sms_scheme, TabMeta) op" where
  "count_rows tab_name n tab = (let rows = c_int (tm_rows tab + n)
     in bindE (update_table_row_count tab_name rows) (\<lambda>_. ret (tab\<lparr>tm_rows := rows\<rparr>)))"

text \<open>A column of an undo log; \<open>trim\<close> is what is done with the bytes of a string.\<close>

definition undo_value :: "(byte list \<Rightarrow> byte list) \<Rightarrow> db_error \<Rightarrow> byte list \<Rightarrow> ColMeta \<Rightarrow> db_error + db_value" where
  "undo_value trim other rec c =
     (if cm_type c = TYPE_INT_c then bindR (bytes_at rec (cm_offset c) 4) (\<lambda>b. Inr (TYPE_INT (i32_of b)))
      else if cm_type c = TYPE_FLOAT_c then bindR (bytes_at rec (cm_offset c) 4) (\<lambda>b. Inr (TYPE_FLOAT (word_of_int (f32_of b))))
      else if cm_type c = TYPE_STRING_c
      then bindR (bytes_at rec (cm_offset c) (cm_len c)) (\<lambda>b. Inr (TYPE_STRING (string_of_bytes (trim b))))
      else Inl other)"

text \<open>The new head of a version chain.\<close>

definition push_version :: "rid \<Rightarrow> undo_link \<Rightarrow> ('a txnm_scheme, unit) op" where
  "push_version r link = bindE (UpdateVersionLink r (Some \<lparr>first_undo = link, in_progress = True\<rparr>) None) (\<lambda>_. ret ())"

section \<open>INSERT\<close>

record insert_obj =
  io_tab :: TabMeta
  io_values :: "Value list"
  io_fd :: int
  io_name :: string

definition new_insert :: "string \<Rightarrow> Value list \<Rightarrow> ('a sms_scheme, insert_obj) op" where
  "new_insert tab_name vals = bindE (get_table tab_name) (\<lambda>tab.
     if length vals \<noteq> length (tm_cols tab) then raise InvalidValueCountError
     else bindE (file_handle tab_name) (\<lambda>fd. ret \<lparr>io_tab = tab, io_values = vals, io_fd = fd, io_name = tab_name\<rparr>))"

text \<open>In MVCC mode a record begins with the start stamp of its writer.\<close>

definition insert_meta :: "mem \<Rightarrow> Context option \<Rightarrow> byte list \<Rightarrow> ('a txnm_scheme, byte list \<times> int) op" where
  "insert_meta junk ctx rec = bindE getS (\<lambda>s.
     if \<not> ctx_mvcc ctx s then ret (rec, 0)
     else bindE (case ctx of
            Some c \<Rightarrow> (case ctx_txn c of None \<Rightarrow> ret 0 | Some i \<Rightarrow> bindE (txn_at i) (\<lambda>t. ret (start_ts t)))
          | None \<Rightarrow> ret 0) (\<lambda>ts.
          bindE (liftR (put_bytes rec 0 (meta_bytes junk \<lparr>meta_ts = ts, meta_deleted = False\<rparr>))) (\<lambda>rec.
          ret (rec, sizeof_TupleMeta))))"

text \<open>The first unique index over one column names the primary key.\<close>

definition pk_col :: "TabMeta \<Rightarrow> ColMeta option" where
  "pk_col tab = (case List.find (\<lambda>ix. im_unique ix \<and> length (im_cols ix) = 1) (tm_indexes tab) of
     None \<Rightarrow> None | Some ix \<Rightarrow> List.find (\<lambda>c. cm_name c = cm_name (hd (im_cols ix))) (tm_cols tab))"

definition field_at :: "ColMeta \<Rightarrow> int \<Rightarrow> byte list \<Rightarrow> db_error + byte list" where
  "field_at c base rec =
     (if cm_type c \<in> {TYPE_INT_c, TYPE_FLOAT_c, TYPE_STRING_c} then bytes_at rec (base + cm_offset c) (width_of (cm_type c) (cm_len c))
      else Inr [])"

definition same_key :: "int \<Rightarrow> byte list \<Rightarrow> byte list \<Rightarrow> bool" where
  "same_key ty a b = (if ty = TYPE_INT_c then i32_of a = i32_of b else if ty = TYPE_FLOAT_c then f32_eq (f32_of a) (f32_of b)
     else if ty = TYPE_STRING_c then a = b else False)"

definition check_key :: "int \<Rightarrow> ColMeta \<Rightarrow> byte list \<Rightarrow> Context option \<Rightarrow> rid \<Rightarrow> ('a txnm_scheme, unit) op" where
  "check_key fd c key ctx r = bindE (get_record fd r ctx) (\<lambda>raw. case raw of
     None \<Rightarrow> ret ()
   | Some v \<Rightarrow> bindE (liftR (field_at c sizeof_TupleMeta v)) (\<lambda>b.
       if \<not> same_key (cm_type c) b key then ret ()
       else bindE (CheckWriteWriteConflict fd r ctx) (\<lambda>conflict.
            if conflict then throw_abort ctx
            else bindE (get_record_mvcc fd r ctx) (\<lambda>visible.
                 if visible \<noteq> None then raise (InternalError ''Primary key constraint violation'') else ret ()))))"

definition check_primary_key :: "insert_obj \<Rightarrow> Context option \<Rightarrow> byte list \<Rightarrow> int \<Rightarrow> ('a txnm_scheme, unit) op" where
  "check_primary_key ob ctx rec base = bindE getS (\<lambda>s.
     if \<not> ctx_mvcc ctx s then ret ()
     else case pk_col (io_tab ob) of
            None \<Rightarrow> ret ()
          | Some c \<Rightarrow> bindE (liftR (field_at c base rec)) (\<lambda>key. each_record (io_fd ob) (check_key (io_fd ob) c key ctx)))"

text \<open>In MVCC mode an undo log is made and no write record.\<close>

definition note_insert :: "insert_obj \<Rightarrow> Context option \<Rightarrow> rid \<Rightarrow> ('a txnm_scheme, unit) op" where
  "note_insert ob ctx r = (case ctx of
     None \<Rightarrow> ret ()
   | Some c \<Rightarrow> (case ctx_txn c of
       None \<Rightarrow> ret ()
     | Some i \<Rightarrow> bindE getS (\<lambda>s.
         if ctx_mvcc ctx s
         then bindE (AppendUndoLog i \<lparr>undo_deleted = True, modified_fields = map (\<lambda>_. True) (tm_cols (io_tab ob)), undo_tuple = [],
                undo_ts = 0, prev_version = no_undo_link\<rparr>) (push_version r)
         else append_write_record i \<lparr>write_type = INSERT_TUPLE, write_table = io_name ob, write_rid = r, write_value = []\<rparr>)))"

definition insert_key :: "string \<Rightarrow> Context option \<Rightarrow> byte list \<Rightarrow> int \<Rightarrow> rid \<Rightarrow> IndexMeta \<Rightarrow> ('a sms_scheme, unit) op" where
  "insert_key tab_name ctx rec base r ix = bindE (index_handle tab_name ix) (\<lambda>ih. bindE (liftR (index_key base ix rec)) (\<lambda>key.
     bindE (the_ctx ctx) (\<lambda>_. bindE (insert_entry ih key r) (\<lambda>_. ret ()))))"

definition insert_next :: "mem \<Rightarrow> Context option \<Rightarrow> insert_obj \<Rightarrow> ('a sms_scheme, rid) op" where
  "insert_next junk ctx ob = bindE (fh_hdr (io_fd ob)) (\<lambda>h. bindE (new_record (record_size h)) (\<lambda>_.
     bindE (insert_meta junk ctx (mem_read junk 0 (nat (record_size h)))) (\<lambda>(rec, base).
     bindE (liftR (put_values base (tm_cols (io_tab ob)) (io_values ob) rec)) (\<lambda>rec.
     bindE (check_primary_key ob ctx rec base) (\<lambda>_.
     bindE (insert_record (io_fd ob) rec ctx) (\<lambda>r.
     bindE (count_rows (io_name ob) 1 (io_tab ob)) (\<lambda>_.
     bindE (note_insert ob ctx r) (\<lambda>_.
     bindE (on_exception (forE (tm_indexes (io_tab ob)) (insert_key (io_name ob) ctx rec base r)) (delete_record (io_fd ob) r ctx)) (\<lambda>_.
     ret r)))))))))"

section \<open>DELETE\<close>

record delete_obj =
  do_tab :: TabMeta
  do_rids :: "rid list"
  do_fd :: int
  do_name :: string

definition new_delete :: "string \<Rightarrow> rid list \<Rightarrow> ('a sms_scheme, delete_obj) op" where
  "new_delete tab_name rids = bindE (get_table tab_name) (\<lambda>tab. bindE (file_handle tab_name) (\<lambda>fd.
     ret \<lparr>do_tab = tab, do_rids = rids, do_fd = fd, do_name = tab_name\<rparr>))"

text \<open>In MVCC mode the record is marked, not removed. A column of no known type would leave its value unset.\<close>

definition mark_deleted :: "mem \<Rightarrow> Context option \<Rightarrow> delete_obj \<Rightarrow> rid \<Rightarrow> byte list \<Rightarrow> byte list \<Rightarrow> TupleMeta \<Rightarrow> ('a sms_scheme, unit) op" where
  "mark_deleted junk ctx ob r rec raw meta =
     bindE (liftR (mapR (undo_value (\<lambda>b. b) (OutOfRange ''Value'') rec) (tm_cols (do_tab ob)))) (\<lambda>tuple. bindE getS (\<lambda>s.
     let log = \<lparr>undo_deleted = False, modified_fields = map (\<lambda>_. True) (tm_cols (do_tab ob)), undo_tuple = tuple, undo_ts = meta_ts meta,
           prev_version = (case GetVersionLink r s of None \<Rightarrow> no_undo_link | Some l \<Rightarrow> first_undo l)\<rparr>
     in bindE (the_txn ctx) (\<lambda>i. bindE (AppendUndoLog i log) (\<lambda>link. bindE (txn_at i) (\<lambda>t.
        bindE (update_record (do_fd ob) r (meta_bytes junk \<lparr>meta_ts = start_ts t, meta_deleted = True\<rparr> @ drop (nat sizeof_TupleMeta) raw) ctx) (\<lambda>_.
        bindE (push_version r link) (\<lambda>_. bindE (append_mvcc_deleted_rid i r) (\<lambda>_.
        append_write_record i \<lparr>write_type = DELETE_TUPLE, write_table = do_name ob, write_rid = r, write_value = raw\<rparr>))))))))"

definition delete_mvcc :: "mem \<Rightarrow> Context option \<Rightarrow> delete_obj \<Rightarrow> TabMeta \<Rightarrow> rid \<Rightarrow> byte list \<Rightarrow> ('a sms_scheme, TabMeta) op" where
  "delete_mvcc junk ctx ob tab r rec = bindE (CheckWriteWriteConflict (do_fd ob) r ctx) (\<lambda>conflict.
     if conflict then throw_abort ctx
     else bindE (get_record (do_fd ob) r ctx) (\<lambda>raw. case raw of
       None \<Rightarrow> ret tab
     | Some raw \<Rightarrow> bindE (read_meta raw) (\<lambda>meta. bindE (mark_deleted junk ctx ob r rec raw meta) (\<lambda>_.
         count_rows (do_name ob) (- 1) tab))))"

definition note_delete :: "string \<Rightarrow> Context option \<Rightarrow> rid \<Rightarrow> byte list \<Rightarrow> ('a txnm_scheme, unit) op" where
  "note_delete tab_name ctx r rec = (case ctx of
     None \<Rightarrow> ret ()
   | Some c \<Rightarrow> (case ctx_txn c of
       None \<Rightarrow> ret ()
     | Some i \<Rightarrow> append_write_record i \<lparr>write_type = DELETE_TUPLE, write_table = tab_name, write_rid = r, write_value = rec\<rparr>))"

definition delete_key :: "string \<Rightarrow> Context option \<Rightarrow> byte list \<Rightarrow> IndexMeta \<Rightarrow> ('a sms_scheme, unit) op" where
  "delete_key tab_name ctx rec ix = bindE (index_handle tab_name ix) (\<lambda>ih. bindE (liftR (index_key 0 ix rec)) (\<lambda>key.
     bindE (the_ctx ctx) (\<lambda>c. bindE (delete_entry ih key (ctx_txn c)) (\<lambda>_. ret ()))))"

definition delete_plain :: "Context option \<Rightarrow> delete_obj \<Rightarrow> TabMeta \<Rightarrow> rid \<Rightarrow> byte list \<Rightarrow> ('a sms_scheme, TabMeta) op" where
  "delete_plain ctx ob tab r rec = bindE (note_delete (do_name ob) ctx r rec) (\<lambda>_.
     bindE (forE (tm_indexes tab) (delete_key (do_name ob) ctx rec)) (\<lambda>_.
     bindE (delete_record (do_fd ob) r ctx) (\<lambda>_. count_rows (do_name ob) (- 1) tab)))"

definition delete_one :: "mem \<Rightarrow> Context option \<Rightarrow> delete_obj \<Rightarrow> TabMeta \<Rightarrow> rid \<Rightarrow> ('a sms_scheme, TabMeta) op" where
  "delete_one junk ctx ob tab r = bindE getS (\<lambda>s. bindE (scan_record (do_fd ob) ctx r) (\<lambda>rec. case rec of
     None \<Rightarrow> ret tab
   | Some v \<Rightarrow> if ctx_mvcc ctx s then delete_mvcc junk ctx ob tab r v else delete_plain ctx ob tab r v))"

primrec delete_rids :: "mem \<Rightarrow> Context option \<Rightarrow> delete_obj \<Rightarrow> TabMeta \<Rightarrow> rid list \<Rightarrow> ('a sms_scheme, TabMeta) op" where
  "delete_rids junk ctx ob tab [] = ret tab"
| "delete_rids junk ctx ob tab (r # rs) = bindE (delete_one junk ctx ob tab r) (\<lambda>tab. delete_rids junk ctx ob tab rs)"

definition delete_next :: "mem \<Rightarrow> Context option \<Rightarrow> delete_obj \<Rightarrow> ('a sms_scheme, unit) op" where
  "delete_next junk ctx ob = bindE (delete_rids junk ctx ob (do_tab ob) (do_rids ob)) (\<lambda>_. ret ())"

section \<open>UPDATE\<close>

record update_obj =
  uo_tab :: TabMeta
  uo_sets :: "(TabCol \<times> expr) list"
  uo_conds :: "Condition list"
  uo_fd :: int
  uo_name :: string

definition new_update :: "string \<Rightarrow> (TabCol \<times> expr) list \<Rightarrow> Condition list \<Rightarrow> ('a sms_scheme, update_obj) op" where
  "new_update tab_name sets conds = bindE (get_table tab_name) (\<lambda>tab. bindE (file_handle tab_name) (\<lambda>fd.
     ret \<lparr>uo_tab = tab, uo_sets = sets, uo_conds = conds, uo_fd = fd, uo_name = tab_name\<rparr>))"

text \<open>Its own evaluation of conditions: a comparison of two columns never holds.\<close>

definition cmp_result :: "CompOp \<Rightarrow> int \<Rightarrow> bool" where
  "cmp_result opr res = cmp_holds opr res 0"

definition upd_eval_cond :: "byte list \<Rightarrow> ColMeta list \<Rightarrow> Condition \<Rightarrow> db_error + bool" where
  "upd_eval_cond rec cols cond = (case List.find (col_is (lhs_col cond)) cols of
     None \<Rightarrow> Inr False
   | Some c \<Rightarrow>
       if \<not> is_rhs_val cond then Inr False
       else bindR (deref (val_raw (rhs_val cond))) (\<lambda>raw.
            bindR (bytes_at rec (cm_offset c) (width_of (cm_type c) (cm_len c))) (\<lambda>l.
            bindR (bytes_at raw 0 (width_of (cm_type c) (cm_len c))) (\<lambda>r.
            bindR (ix_compare_col l r (cm_type c) (cm_len c)) (\<lambda>res. Inr (cmp_result (cond_op cond) res))))))"

fun upd_eval_conds :: "Condition list \<Rightarrow> byte list \<Rightarrow> ColMeta list \<Rightarrow> db_error + bool" where
  "upd_eval_conds [] rec cols = Inr True"
| "upd_eval_conds (c # cs) rec cols = bindR (upd_eval_cond rec cols c) (\<lambda>b. if b then upd_eval_conds cs rec cols else Inr False)"

text \<open>The first pass gathers the records whatever their version, the second changes them.\<close>

definition upd_match :: "update_obj \<Rightarrow> Context option \<Rightarrow> rid \<Rightarrow> ('a txnm_scheme, bool) op" where
  "upd_match ob ctx r = bindE (get_record (uo_fd ob) r ctx) (\<lambda>raw. case raw of
     None \<Rightarrow> ret False
   | Some v \<Rightarrow> bindE getS (\<lambda>s.
       let skip = (if ctx_mvcc ctx s then sizeof_TupleMeta else 0)
       in bindE (new_record (int (length v) - skip)) (\<lambda>_. liftR (upd_eval_conds (uo_conds ob) (drop (nat skip) v) (tm_cols (uo_tab ob))))))"

definition gather_match :: "update_obj \<Rightarrow> Context option \<Rightarrow> rid \<Rightarrow> (rid list \<times> 'a txnm_scheme, unit) op" where
  "gather_match ob ctx r = (\<lambda>(rs, s). case upd_match ob ctx r s of
     (Inl e, t) \<Rightarrow> (Inl e, (rs, t)) | (Inr b, t) \<Rightarrow> (Inr (), (if b then rs @ [r] else rs, t)))"

definition upd_rids :: "update_obj \<Rightarrow> Context option \<Rightarrow> ('a txnm_scheme, rid list) op" where
  "upd_rids ob ctx = (\<lambda>s. case for_records (uo_fd ob) (gather_match ob ctx) ([], s) of
     (Inl e, (_, t)) \<Rightarrow> (Inl e, t) | (Inr _, (rs, t)) \<Rightarrow> (Inr rs, t))"

fun apply_sets :: "Value \<Rightarrow> ColMeta list \<Rightarrow> byte list \<Rightarrow> (TabCol \<times> expr) list \<Rightarrow> byte list \<Rightarrow> db_error + byte list" where
  "apply_sets junk cols old [] rec = Inr rec"
| "apply_sets junk cols old ((lhs, e) # sets) rec = bindR (exec_get_col cols lhs) (\<lambda>c.
     bindR (evaluate_expr junk old cols e) (\<lambda>v. bindR (raw_value c v) (\<lambda>raw.
     bindR (put_bytes rec (sizeof_TupleMeta + cm_offset c) raw) (apply_sets junk cols old sets))))"

definition check_unique :: "string \<Rightarrow> byte list \<Rightarrow> byte list \<Rightarrow> IndexMeta \<Rightarrow> ('a sms_scheme, unit) op" where
  "check_unique tab_name new old ix =
     (if \<not> im_unique ix then ret ()
      else bindE (index_handle tab_name ix) (\<lambda>ih. bindE (liftR (index_key sizeof_TupleMeta ix new)) (\<lambda>new_key.
           bindE (liftR (index_key 0 ix old)) (\<lambda>old_key.
           if new_key = old_key then ret ()
           else bindE (get_value ih new_key) (\<lambda>found.
                if found \<noteq> None then raise (UniqueIndexViolationError tab_name []) else ret ())))))"

definition move_key :: "string \<Rightarrow> Context option \<Rightarrow> byte list \<Rightarrow> byte list \<Rightarrow> rid \<Rightarrow> IndexMeta \<Rightarrow> ('a sms_scheme, unit) op" where
  "move_key tab_name ctx new old r ix = bindE (index_handle tab_name ix) (\<lambda>ih.
     bindE (liftR (index_key sizeof_TupleMeta ix new)) (\<lambda>new_key. bindE (liftR (index_key 0 ix old)) (\<lambda>old_key.
     if new_key = old_key then ret ()
     else bindE (the_ctx ctx) (\<lambda>c. bindE (delete_entry ih old_key (ctx_txn c)) (\<lambda>_.
          bindE (insert_entry ih new_key r) (\<lambda>_. ret ()))))))"

text \<open>The header is written over the first sixteen bytes, in either mode.\<close>

definition write_version :: "mem \<Rightarrow> Value \<Rightarrow> Context option \<Rightarrow> int \<Rightarrow> update_obj \<Rightarrow> rid \<Rightarrow> byte list \<Rightarrow> byte list \<Rightarrow> undo_link \<Rightarrow>
    ('a sms_scheme, unit) op" where
  "write_version junk vjunk ctx i ob r old raw link = bindE (txn_at i) (\<lambda>t. bindE getS (\<lambda>s.
     let meta = \<lparr>meta_ts = (if concurrency_mode s = MVCC then start_ts t else 0), meta_deleted = False\<rparr>
     in bindE (liftR (apply_sets vjunk (tm_cols (uo_tab ob)) old (uo_sets ob) (meta_bytes junk meta @ drop (nat sizeof_TupleMeta) raw))) (\<lambda>new.
        bindE (forE (tm_indexes (uo_tab ob)) (check_unique (uo_name ob) new old)) (\<lambda>_.
        bindE (forE (tm_indexes (uo_tab ob)) (move_key (uo_name ob) ctx new old r)) (\<lambda>_.
        bindE (update_record (uo_fd ob) r new ctx) (\<lambda>_. bindE (push_version r link) (\<lambda>_.
        append_write_record i \<lparr>write_type = UPDATE_TUPLE, write_table = uo_name ob, write_rid = r, write_value = raw\<rparr>)))))))"

definition new_version :: "mem \<Rightarrow> Value \<Rightarrow> Context option \<Rightarrow> int \<Rightarrow> update_obj \<Rightarrow> rid \<Rightarrow> byte list \<Rightarrow> ('a sms_scheme, unit) op" where
  "new_version junk vjunk ctx i ob r old = bindE (get_record (uo_fd ob) r ctx) (\<lambda>raw. bindE (liftR (deref raw)) (\<lambda>raw.
     bindE (read_meta raw) (\<lambda>old_meta.
     bindE (liftR (mapR (undo_value trim_char (RuntimeError ''Unsupported column type for undo log creation.'') old) (tm_cols (uo_tab ob)))) (\<lambda>tuple.
     bindE getS (\<lambda>s.
     let log = \<lparr>undo_deleted = meta_deleted old_meta, modified_fields = map (\<lambda>_. True) (tm_cols (uo_tab ob)), undo_tuple = tuple,
           undo_ts = meta_ts old_meta, prev_version = (case GetUndoLink r s of None \<Rightarrow> no_undo_link | Some l \<Rightarrow> l)\<rparr>
     in bindE (AppendUndoLog i log) (write_version junk vjunk ctx i ob r old raw))))))"

definition update_one :: "mem \<Rightarrow> Value \<Rightarrow> Context option \<Rightarrow> int \<Rightarrow> update_obj \<Rightarrow> rid \<Rightarrow> ('a sms_scheme, unit) op" where
  "update_one junk vjunk ctx i ob r = bindE (CheckWriteWriteConflict (uo_fd ob) r ctx) (\<lambda>conflict.
     if conflict then throw_abort ctx
     else bindE (get_record_mvcc (uo_fd ob) r ctx) (\<lambda>old. case old of
       None \<Rightarrow> bindE (get_record (uo_fd ob) r ctx) (\<lambda>raw. if raw \<noteq> None then throw_abort ctx else ret ())
     | Some v \<Rightarrow> new_version junk vjunk ctx i ob r v))"

definition update_next :: "mem \<Rightarrow> Value \<Rightarrow> Context option \<Rightarrow> update_obj \<Rightarrow> ('a sms_scheme, unit) op" where
  "update_next junk vjunk ctx ob =
     (case (case ctx of None \<Rightarrow> None | Some c \<Rightarrow> if ctx_txn_mgr c then ctx_txn c else None) of
        None \<Rightarrow> raise (RuntimeError ''MVCC updates must be performed within a transaction.'')
      | Some i \<Rightarrow> bindE (upd_rids ob ctx) (\<lambda>rs. forE rs (update_one junk vjunk ctx i ob)))"

end
