(* ===== verification/RowWrites.thy ===== *)
theory RowWrites
  imports ExecWrite RecordFile WhereClause
begin

text \<open>
  What INSERT stores, and what an abort makes of it: outside MVCC mode the abort takes the row away again, in MVCC
  mode it stays in the file.
\<close>

section \<open>The bytes of a row\<close>

definition get_bytes :: "byte list \<Rightarrow> int \<Rightarrow> int \<Rightarrow> byte list" where
  "get_bytes v off n = take (nat n) (drop (nat off) v)"

lemma take_drop_front: "p + n \<le> k \<Longrightarrow> k \<le> length xs \<Longrightarrow> take n (drop p (take k xs @ ys)) = take n (drop p xs)"
  by (rule nth_equalityI) (auto simp: nth_append)

lemma put_bytes_facts:
  assumes "put_bytes rec off v = Inr rec'"
  shows "length rec' = length rec" and "0 \<le> off" and "off + int (length v) \<le> int (length rec)"
    and "bytes_at rec' off (int (length v)) = Inr v"
    and "\<And>p n. 0 \<le> p \<Longrightarrow> 0 \<le> n \<Longrightarrow> p + n \<le> off \<or> off + int (length v) \<le> p \<Longrightarrow> bytes_at rec' p n = bytes_at rec p n"
proof -
  have b: "0 \<le> off" "off + int (length v) \<le> int (length rec)" and r: "rec' = take (nat off) rec @ v @ drop (nat off + length v) rec"
    using assms by (auto simp: put_bytes_def split: if_splits)
  then show l: "length rec' = length rec" "0 \<le> off" "off + int (length v) \<le> int (length rec)" by auto
  have lt: "length (take (nat off) rec) = nat off" using b by simp
  then show "bytes_at rec' off (int (length v)) = Inr v" using l(1) b by (simp add: bytes_at_def r)
  fix p n :: int assume p: "0 \<le> p" "0 \<le> n" "p + n \<le> off \<or> off + int (length v) \<le> p"
  have "take (nat n) (drop (nat p) rec') = take (nat n) (drop (nat p) rec)"
  proof (cases "p + n \<le> off")
    case True
    then have "nat p + nat n \<le> nat off" "nat off \<le> length rec" using p b by linarith+
    then show ?thesis unfolding r by (rule take_drop_front)
  next
    case False
    then have "nat off + length v \<le> nat p" using p b by linarith
    then have "drop (nat p) rec' = drop (nat p) rec" using lt by (simp add: r)
    then show ?thesis by simp
  qed
  then show "bytes_at rec' p n = bytes_at rec p n" using l(1) by (simp add: bytes_at_def)
qed

lemma raw_value_length:
  assumes "raw_value c v = Inr raw"
  shows "int (length raw) = cm_len c" and "0 \<le> cm_len c"
  using assms by (auto simp: raw_value_def bindR_Inr init_raw_def deref_def split: if_splits option.splits)

lemma put_values_facts:
  assumes "put_values base cols vals rec = Inr row" and "laid_out n off cols" and "0 \<le> base" and "0 \<le> off" and "length vals = length cols"
  shows "length row = length rec \<and> (\<forall>i < length cols. bytes_at row (base + cm_offset (cols ! i)) (cm_len (cols ! i)) = raw_value (cols ! i) (vals ! i)) \<and>
    (\<forall>p k. 0 \<le> p \<longrightarrow> 0 \<le> k \<longrightarrow> p + k \<le> base + off \<longrightarrow> bytes_at row p k = bytes_at rec p k)"
  using assms
proof (induction cols arbitrary: vals rec off)
  case (Cons c cols)
  obtain v vs where v: "vals = v # vs" using Cons.prems(5) by (cases vals) auto
  obtain raw rec1 where raw: "raw_value c v = Inr raw" and r1: "put_bytes rec (base + cm_offset c) raw = Inr rec1"
    and rest: "put_values base cols vs rec1 = Inr row" using Cons.prems(1) by (auto simp: v bindR_Inr)
  note l = raw_value_length [OF raw] and b = put_bytes_facts [OF r1]
  have lay: "cm_offset c = off" "laid_out n (off + cm_len c) cols" using Cons.prems(2) by auto
  have IH: "length row = length rec1"
    "\<forall>i < length cols. bytes_at row (base + cm_offset (cols ! i)) (cm_len (cols ! i)) = raw_value (cols ! i) (vs ! i)"
    "\<forall>p k. 0 \<le> p \<longrightarrow> 0 \<le> k \<longrightarrow> p + k \<le> base + (off + cm_len c) \<longrightarrow> bytes_at row p k = bytes_at rec1 p k"
    using Cons.IH [OF rest lay(2) Cons.prems(3)] l(2) Cons.prems(4,5) by (simp_all add: v)
  have "bytes_at row (base + cm_offset c) (cm_len c) = raw_value c v"
    using IH(3) b(4) l lay(1) Cons.prems(3,4) raw by simp
  moreover have "bytes_at row p k = bytes_at rec p k" if "0 \<le> p" "0 \<le> k" "p + k \<le> base + off" for p k
    using IH(3) that b(5) [of p k] l lay(1) by simp
  ultimately show ?case using IH(1,2) b(1) by (auto simp: v nth_Cons split: nat.splits)
qed simp

section \<open>What the rest of a statement leaves alone\<close>

text \<open>The parts of the state above the record layer, and a file that is not open.\<close>

definition kept :: "int \<Rightarrow> 'a dbs_scheme \<Rightarrow> 'a dbs_scheme \<Rightarrow> bool" where
  "kept fd s t \<longleftrightarrow> rm_ok fd t \<and> table fd t = table fd s \<and> file_hdrs t fd = file_hdrs s fd \<and> path2fd t = path2fd s \<and> fhs t = fhs s \<and>
     concurrency_mode t = concurrency_mode s \<and> global_lsn t = global_lsn s \<and> log_offset t = log_offset s \<and>
     (\<forall>base l0 ds. log_idle base l0 ds s \<longrightarrow> log_idle base l0 ds t)"

lemma kept_refl: "rm_ok fd s \<Longrightarrow> kept fd s s"
  by (simp add: kept_def)

lemma kept_trans: "kept fd s t \<Longrightarrow> kept fd t u \<Longrightarrow> kept fd s u"
  by (simp add: kept_def)

lemma more_fields:
  fixes s :: "'a dbs_scheme"
  shows "page_table (s\<lparr>dbs.more := m\<rparr>) = page_table s" "pages (s\<lparr>dbs.more := m\<rparr>) = pages s" "pool_size (s\<lparr>dbs.more := m\<rparr>) = pool_size s"
    "free_list (s\<lparr>dbs.more := m\<rparr>) = free_list s" "frame_replacer (s\<lparr>dbs.more := m\<rparr>) = frame_replacer s" "fd2path (s\<lparr>dbs.more := m\<rparr>) = fd2path s"
    "fd2pageno (s\<lparr>dbs.more := m\<rparr>) = fd2pageno s" "file_hdrs (s\<lparr>dbs.more := m\<rparr>) = file_hdrs s" "path2fd (s\<lparr>dbs.more := m\<rparr>) = path2fd s"
    "fhs (s\<lparr>dbs.more := m\<rparr>) = fhs s" "concurrency_mode (s\<lparr>dbs.more := m\<rparr>) = concurrency_mode s" "os_files (s\<lparr>dbs.more := m\<rparr>) = os_files s"
    "os_fds (s\<lparr>dbs.more := m\<rparr>) = os_fds s" "os_pick (s\<lparr>dbs.more := m\<rparr>) = os_pick s" "log_fd (s\<lparr>dbs.more := m\<rparr>) = log_fd s"
    "log_buffer (s\<lparr>dbs.more := m\<rparr>) = log_buffer s" "log_offset (s\<lparr>dbs.more := m\<rparr>) = log_offset s" "global_lsn (s\<lparr>dbs.more := m\<rparr>) = global_lsn s"
    "persist_lsn (s\<lparr>dbs.more := m\<rparr>) = persist_lsn s"
  by (cases s; simp)+

lemma disk_page_more: "disk_page f p (s\<lparr>dbs.more := m\<rparr>) = disk_page f p s" for s :: "'a dbs_scheme"
  unfolding disk_page_def more_fields by (rule refl)

lemma page_more:
  fixes s :: "'a dbs_scheme"
  shows "disk_wf (s\<lparr>dbs.more := m\<rparr>) = disk_wf s" and "io_ok f p (s\<lparr>dbs.more := m\<rparr>) = io_ok f p s" and "bpm_inv (s\<lparr>dbs.more := m\<rparr>) = bpm_inv s"
    and "page_view q (s\<lparr>dbs.more := m\<rparr>) = page_view q s" and "fd_paths (s\<lparr>dbs.more := m\<rparr>) = fd_paths s"
    and "pin_count q (s\<lparr>dbs.more := m\<rparr>) = pin_count q s"
  unfolding io_ok_def disk_wf_def fd_open_def bpm_inv_def page_view_def fd_paths_def pin_count_def disk_page_more more_fields
  by (rule refl)+

lemma rm_page_more: "rm_page fd p (s\<lparr>dbs.more := m\<rparr>) = rm_page fd p s" for s :: "'a dbs_scheme"
  by (simp add: rm_page_def page_more)

lemma table_more: "table fd (s\<lparr>dbs.more := m\<rparr>) = table fd s" for s :: "'a dbs_scheme"
  by (rule ext) (simp add: table_def rm_page_more more_fields split: option.split)

lemma kept_more: "rm_ok fd s \<Longrightarrow> kept fd s (s\<lparr>dbs.more := m\<rparr>)"
  by (simp add: kept_def rm_ok_def quiet_def pool_ok_def bpm_ok_def bpm_coherent_def bpm_io_def log_safe_def rm_file_ok_def rm_page_more table_more
      tpage_def page_io_def log_idle_def log_rep_def log_ready_def page_more disk_page_more more_fields)

lemma kept_sameI:
  fixes s t :: "'a dbs_scheme"
  assumes "rm_ok fd s" and "t = s\<lparr>dbs.more := dbs.more t\<rparr>"
  shows "kept fd s t"
  using kept_more [OF assms(1), of "dbs.more t"] assms(2) by simp

lemma kept_heap: "rm_ok fd s \<Longrightarrow> kept fd s (s\<lparr>txn_heap := x\<rparr>)"
  by (erule kept_sameI) (cases s; simp)

lemma kept_tabs: "rm_ok fd s \<Longrightarrow> kept fd s (s\<lparr>db_tabs := x\<rparr>)"
  by (erule kept_sameI) (cases s; simp)

lemma kept_links: "rm_ok fd s \<Longrightarrow> kept fd s (s\<lparr>version_info := x\<rparr>)"
  by (erule kept_sameI) (cases s; simp)

text \<open>Writing a text file that is not open as a page file.\<close>

lemma file_of_text_wf: "file_wf (file_of_text x)"
  by (simp add: file_wf_def file_of_text_def mem_put_def zero_mem_def bytes_of_string_def)

lemma disk_page_unopened:
  assumes "disk_wf s" and "path2fd s p = None"
  shows "disk_page f q (s\<lparr>os_files := (os_files s)(p \<mapsto> x)\<rparr>) = disk_page f q s"
proof (cases "os_fds s f")
  case (Some a)
  obtain path pos where a: "a = (path, pos)" by (cases a)
  then have "path2fd s path = Some f" using assms(1) Some by (auto simp: disk_wf_def)
  then have "path \<noteq> p" using assms(2) by auto
  then show ?thesis by (simp add: disk_page_def Some a)
qed (simp add: disk_page_def)

lemma disk_wf_unopened: "disk_wf s \<Longrightarrow> file_wf x \<Longrightarrow> disk_wf (s\<lparr>os_files := (os_files s)(p \<mapsto> x)\<rparr>)"
  by (auto simp: disk_wf_def)

lemma kept_file:
  fixes s :: "'a dbs_scheme"
  assumes ok: "rm_ok fd s" and p: "path2fd s p = None" "p \<noteq> LOG_FILE_NAME" and x: "file_wf x"
  shows "kept fd s (s\<lparr>os_files := (os_files s)(p \<mapsto> x)\<rparr>)"
proof -
  let ?t = "s\<lparr>os_files := (os_files s)(p \<mapsto> x)\<rparr>" and ?hole = "\<lparr>pid_fd = 0, pid_no = INVALID_PAGE_ID\<rparr> :: page_id"
  obtain h where h: "file_hdrs s fd = Some h" "rm_file_ok fd h s" and q: "quiet s" using ok by (auto simp: rm_ok_def)
  have wf: "disk_wf s" by (rule quietD(6) [OF q])
  then have wft: "disk_wf ?t" using x by (rule disk_wf_unopened)
  note dp = disk_page_unopened [OF wf p(1)]
  have tp: "tpage r ?t = tpage r s" for r using wf wft by (simp add: tpage_def page_io_def io_ok_def fd_open_def)
  have pool: "same_pool s ?t" by (simp add: same_pool_def)
  have ho: "page_table s ?hole = None"
  proof (rule ccontr)
    assume "page_table s ?hole \<noteq> None"
    then obtain f where "page_table s ?hole = Some f" by blast
    moreover have "bpm_inv s" using q by (simp add: quiet_def pool_ok_def bpm_ok_def)
    ultimately have "pid_no ?hole \<noteq> INVALID_PAGE_ID" unfolding bpm_inv_def by blast
    then show False by simp
  qed
  have nt: "\<not> tpage ?hole s" by (simp add: tpage_def page_io_def io_ok_def page_in_range_def INVALID_PAGE_ID_def)
  then have ne: "r \<noteq> ?hole" if "tpage r s" for r using that by blast
  have Q: "tpage r ?t \<and> disk_page (pid_fd r) (pid_no r) ?t = disk_page (pid_fd r) (pid_no r) s" if "tpage r s" "r \<noteq> ?hole" for r
    using that tp dp by simp
  have hole: "tpage ?hole s \<Longrightarrow> tpage ?hole ?t" using nt by blast
  note c = disk_change [OF quietD(1) [OF q] pool wft Q hole ho quietD(4) [OF q]]
  have "pool_size s > 0" "\<forall>r. pin_count r s = 0" using q by (simp_all add: quiet_def)
  then have qt: "quiet ?t" using c(1-3) by (simp add: quiet_def)
  have v: "views Map.empty s ?t" using c(4) tp ne by (auto simp: views_def)
  have n: "fd2pageno ?t fd = fd2pageno s fd" "file_hdrs ?t fd = Some h" using h by simp_all
  note same = rm_file_ok_same [OF v h(2) n(1)]
  have "table fd ?t = table fd s" by (rule table_eqI [OF h(1) n(2) same(2)])
  moreover have "rm_ok fd ?t" using qt n(2) same(1) by (auto simp: rm_ok_def)
  moreover have "log_idle base l0 ds s \<longrightarrow> log_idle base l0 ds ?t" for base l0 ds
    using wft p(2) by (simp add: log_idle_def log_rep_def log_ready_def)
  ultimately show ?thesis by (simp add: kept_def)
qed

lemma kept_ofstream:
  assumes "rm_ok fd s" and "path2fd s p = None" and "p \<noteq> LOG_FILE_NAME"
  shows "kept fd s (ofstream_text p x s)"
  using kept_file [OF assms file_of_text_wf] kept_refl [OF assms(1)] by (simp add: ofstream_text_def)

lemma rm_ok_kept: "kept fd s t \<Longrightarrow> rm_ok fd t"
  by (simp add: kept_def)

text \<open>The row count, the catalogue and the links of versions.\<close>

lemma count_rows_kept:
  assumes "rm_ok fd s" and "path2fd s DB_META_NAME = None" and "db_tabs s n = Some tab"
  obtains t where "count_rows n k tab0 s = (Inr (tab0\<lparr>tm_rows := c_int (tm_rows tab0 + k)\<rparr>), t)" and "kept fd s t"
    and "txn_heap t = txn_heap s" and "db_tabs t = (db_tabs s)(n \<mapsto> tab\<lparr>tm_rows := c_int (tm_rows tab0 + k)\<rparr>)"
proof -
  let ?rows = "c_int (tm_rows tab0 + k)"
  let ?s = "s\<lparr>db_tabs := (db_tabs s)(n \<mapsto> tab\<lparr>tm_rows := ?rows\<rparr>)\<rparr>"
  let ?t = "ofstream_text DB_META_NAME (db_text (catalogue ?s)) ?s"
  have k1: "kept fd s ?s" by (rule kept_tabs [OF assms(1)])
  have p: "path2fd ?s DB_META_NAME = None" using assms(2) by simp
  have k2: "kept fd ?s ?t" by (rule kept_ofstream [OF rm_ok_kept [OF k1] p]) (simp add: DB_META_NAME_def LOG_FILE_NAME_def)
  have "count_rows n k tab0 s = (Inr (tab0\<lparr>tm_rows := ?rows\<rparr>), ?t)"
    using assms(3)
    by (simp add: count_rows_def Let_def update_table_row_count_def bindE_apply is_table_def upd_table_def get_table_def put_table_def flush_meta_def)
  moreover have "txn_heap ?t = txn_heap s" "db_tabs ?t = (db_tabs s)(n \<mapsto> tab\<lparr>tm_rows := ?rows\<rparr>)" by (simp_all add: ofstream_text_def)
  ultimately show thesis using that kept_trans [OF k1 k2] by blast
qed

section \<open>The meta file stays closed\<close>

definition meta_fd :: "'a disk_scheme \<Rightarrow> int option" where
  "meta_fd s = path2fd s DB_META_NAME"

lemma tables_meta: "preserves disk_tables m \<Longrightarrow> preserves meta_fd m"
  by (erule preserves_comp) (simp add: disk_tables_def meta_fd_def)

lemma pool_ops_meta [preserving]:
  shows "preserves meta_fd (fetch_page pid)" and "preserves meta_fd (unpin_page pid d)" and "preserves meta_fd (new_page pid)"
    and "preserves meta_fd (write_page fd p buf n)"
  by (rule tables_meta, rule fetch_page_tables unpin_page_tables new_page_tables write_page_tables)+

lemma meta_upd [simp]:
  "meta_fd (s\<lparr>pages := a\<rparr>) = meta_fd s" "meta_fd (s\<lparr>file_hdrs := b\<rparr>) = meta_fd s" "meta_fd (s\<lparr>log_buffer := c, log_offset := d, global_lsn := e\<rparr>) = meta_fd s"
  "meta_fd (s\<lparr>log_offset := d, persist_lsn := e\<rparr>) = meta_fd s"
  by (simp_all add: meta_fd_def)

lemma write_log_meta [preserving]: "preserves meta_fd (write_log buf n)"
proof (rule preservesI)
  fix s :: "'a disk_scheme"
  have e: "path2fd (snd (ensure_log_fd s)) DB_META_NAME = path2fd s DB_META_NAME"
    by (auto simp: ensure_log_fd_def open_file_def os_open_def bindE_def Let_def LOG_FILE_NAME_def DB_META_NAME_def)
  have w: "path2fd (snd (os_write a b k d)) = path2fd d" "path2fd (os_lseek_end a d) = path2fd d" for a b k and d :: "'a disk_scheme"
    by (auto simp: os_write_def os_lseek_end_def split: option.splits prod.splits)
  obtain r t where t: "ensure_log_fd s = (r, t)" by fastforce
  show "meta_fd (snd (write_log buf n s)) = meta_fd s"
    using e t by (cases r) (simp_all add: meta_fd_def write_log_def bindE_def Let_def case_prod_unfold w)
qed

lemma record_ops_meta [preserving]:
  shows "preserves meta_fd (poke_page f g :: ('a dbs_scheme, _) op)" and "preserves meta_fd (unpin_frame f d :: ('a dbs_scheme, _) op)"
    and "preserves meta_fd (fh_hdr fd)" and "preserves meta_fd (set_hdr fd h)" and "preserves meta_fd (log_ahead r :: ('a dbs_scheme, _) op)"
  unfolding poke_page_def write_frame_def set_page_def unpin_frame_def fh_hdr_def set_hdr_def log_ahead_def add_log_to_buffer_def
    force_flush_log_to_disk_def write_out_def
  by (intro preserving; simp)+

lemma file_ops_meta [preserving]:
  shows "preserves meta_fd (write_hdr fd)" and "preserves meta_fd (fetch_page_handle fd p)"
  unfolding write_hdr_def fetch_page_handle_def by (intro preserving)+

lemma create_page_meta [preserving]: "preserves meta_fd (create_page_handle fd)"
  unfolding create_page_handle_def create_new_page_handle_def by (intro preserving)

lemma insert_record_meta [preserving]: "preserves meta_fd (insert_record fd buf ctx)"
  unfolding insert_record_def insert_unlogged_def put_record_def by (intro preserving)

section \<open>INSERT into a table without indexes\<close>

lemma log_idle_lsn:
  assumes "log_idle base l0 ds s"
  shows "global_lsn s = l0 + int (length ds)" and "log_offset s = 0"
  using assms by (simp_all add: log_idle_def log_rep_def)

lemma AppendUndoLog_eq:
  "txn_heap s i = Some t \<Longrightarrow> AppendUndoLog i l s =
     (Inr \<lparr>prev_txn = txn_id t, prev_log_idx = int (length (undo_logs t))\<rparr>, s\<lparr>txn_heap := (txn_heap s)(i \<mapsto> t\<lparr>undo_logs := undo_logs t @ [l]\<rparr>)\<rparr>)"
  by (simp add: AppendUndoLog_def bindE_apply txn_at_eq put_txn_def)

lemma push_version_eq: "\<exists>v. push_version r link s = (Inr (), s\<lparr>version_info := v\<rparr>)"
  by (auto simp: push_version_def UpdateVersionLink_def put_link_def bindE_apply Let_def)

text \<open>The transaction as INSERT leaves it.\<close>

definition after_insert :: "insert_obj \<Rightarrow> bool \<Rightarrow> rid \<Rightarrow> transaction \<Rightarrow> transaction \<Rightarrow> bool" where
  "after_insert ob mvcc r tx tx' \<longleftrightarrow>
     (if mvcc then \<exists>l. tx' = tx\<lparr>undo_logs := undo_logs tx @ [l]\<rparr>
      else tx' = tx\<lparr>write_set := write_set tx @ [\<lparr>write_type = INSERT_TUPLE, write_table = io_name ob, write_rid = r, write_value = []\<rparr>]\<rparr>)"

lemma note_insert_spec:
  fixes s :: "'a sms_scheme"
  assumes ok: "rm_ok fd s" and txn: "ctx_txn c = Some i" "txn_heap s i = Some tx"
  obtains t tx' where "note_insert ob (Some c) r s = (Inr (), t)" and "kept fd s t" and "txn_heap t = (txn_heap s)(i \<mapsto> tx')"
    and "after_insert ob (ctx_mvcc (Some c) s) r tx tx'" and "db_tabs t = db_tabs s"
proof (cases "ctx_mvcc (Some c) s")
  case True
  let ?log = "\<lparr>undo_deleted = True, modified_fields = map (\<lambda>_. True) (tm_cols (io_tab ob)), undo_tuple = [], undo_ts = 0, prev_version = no_undo_link\<rparr>"
  let ?tx = "tx\<lparr>undo_logs := undo_logs tx @ [?log]\<rparr>" and ?link = "\<lparr>prev_txn = txn_id tx, prev_log_idx = int (length (undo_logs tx))\<rparr>"
  let ?s1 = "s\<lparr>txn_heap := (txn_heap s)(i \<mapsto> ?tx)\<rparr>"
  obtain v where v: "push_version r ?link ?s1 = (Inr (), ?s1\<lparr>version_info := v\<rparr>)" using push_version_eq by blast
  have n: "note_insert ob (Some c) r s = (Inr (), ?s1\<lparr>version_info := v\<rparr>)"
    using True txn v by (simp add: note_insert_def bindE_apply AppendUndoLog_eq)
  have k1: "kept fd s ?s1" by (rule kept_heap [OF ok])
  show thesis
    by (rule that [OF n kept_trans [OF k1 kept_links [OF rm_ok_kept [OF k1]]], of ?tx]) (use True in \<open>auto simp: after_insert_def\<close>)
next
  case False
  let ?w = "\<lparr>write_type = INSERT_TUPLE, write_table = io_name ob, write_rid = r, write_value = []\<rparr>"
  let ?tx = "tx\<lparr>write_set := write_set tx @ [?w]\<rparr>"
  have n: "note_insert ob (Some c) r s = (Inr (), s\<lparr>txn_heap := (txn_heap s)(i \<mapsto> ?tx)\<rparr>)"
    using False txn by (simp add: note_insert_def bindE_apply append_write_record_def upd_txn_eq)
  show thesis by (rule that [OF n kept_heap [OF ok], of ?tx]) (use False in \<open>auto simp: after_insert_def\<close>)
qed

lemma part_more:
  fixes s t :: "'a sms_scheme"
  shows "dbs.more t = dbs.more s \<Longrightarrow> txn_heap t = txn_heap s \<and> db_tabs t = db_tabs s"
  by (cases s, cases t) simp

lemma insert_next_spec:
  fixes s :: "'a sms_scheme"
  assumes ok: "rm_ok fd s" and h: "file_hdrs s fd = Some h" and room: "num_pages h + 1 < 2 ^ 19" and c: "log_context c"
    and idle: "log_idle base l0 ds s" and num: "global_lsn s + 1 < 2 ^ 31"
    and ob: "io_fd ob = fd" "tm_indexes (io_tab ob) = []" "db_tabs s (io_name ob) = Some tab" and meta: "meta_fd s = None"
    and txn: "ctx_txn c = Some i" "txn_heap s i = Some tx"
    and start: "insert_meta junk (Some c) (mem_read junk 0 (nat (record_size h))) s = (Inr (rec0, off), s)"
    and vals: "put_values off (tm_cols (io_tab ob)) (io_values ob) rec0 = Inr row" and len: "length row = nat (record_size h)"
  obtains r u h' rec tx' where "insert_next junk (Some c) ob s = (Inr r, u)" and "rm_ok fd u" and "table fd s r = None"
    and "table fd u = (table fd s)(r \<mapsto> row)" and "file_hdrs u fd = Some h'" and "record_size h' = record_size h"
    and "log_idle base l0 (ds @ [rec]) u" and "fhs u = fhs s" and "concurrency_mode u = concurrency_mode s"
    and "txn_heap u = (txn_heap s)(i \<mapsto> tx')" and "after_insert ob (ctx_mvcc (Some c) s) r tx tx'"
    and "db_tabs u = (db_tabs s)(io_name ob \<mapsto> tab\<lparr>tm_rows := c_int (tm_rows (io_tab ob) + 1)\<rparr>)"
proof -
  have hd: "hdr_ok h" using ok h rm_file_okD(1) by (auto simp: rm_ok_def)
  have le: "record_size h \<le> int (length row)" and tk: "take (nat (record_size h)) row = row" and pos: "\<not> record_size h < 0"
    using len hdr_okD(1) [OF hd] by auto
  obtain r s1 h1 where s1: "insert_record fd row (Some c) s = (Inr r, s1)" "rm_ok fd s1" "only_file fd s s1" "file_hdrs s1 fd = Some h1"
    "record_size h1 = record_size h" "table fd s r = None" "table fd s1 = (table fd s)(r \<mapsto> row)"
    "log_idle base l0 (ds @ [set_lsn (global_lsn s) (new_InsertLogRecord (log_txn_id c) row r (ctx_tab c))]) s1"
    by (rule insert_logged_spec [OF ok h room le c idle num, unfolded tk])
  have o: "dbs.more s1 = dbs.more s" "concurrency_mode s1 = concurrency_mode s" "fhs s1 = fhs s" using s1(3) by (simp_all add: only_file_def)
  note p = part_more [OF o(1)]
  have m1: "path2fd s1 DB_META_NAME = None" using preservesD [OF insert_record_meta s1(1)] meta by (simp add: meta_fd_def)
  obtain s2 where s2: "count_rows (io_name ob) 1 (io_tab ob) s1 = (Inr (io_tab ob\<lparr>tm_rows := c_int (tm_rows (io_tab ob) + 1)\<rparr>), s2)" "kept fd s1 s2"
    "txn_heap s2 = txn_heap s1" "db_tabs s2 = (db_tabs s1)(io_name ob \<mapsto> tab\<lparr>tm_rows := c_int (tm_rows (io_tab ob) + 1)\<rparr>)"
    by (rule count_rows_kept [OF s1(2) m1, of "io_name ob"]) (use p ob(3) in auto)
  have h2: "txn_heap s2 i = Some tx" using s2(3) p txn(2) by simp
  obtain u tx' where u: "note_insert ob (Some c) r s2 = (Inr (), u)" "kept fd s2 u" "txn_heap u = (txn_heap s2)(i \<mapsto> tx')"
    "after_insert ob (ctx_mvcc (Some c) s2) r tx tx'" "db_tabs u = db_tabs s2"
    by (rule note_insert_spec [OF rm_ok_kept [OF s2(2)] txn(1) h2])
  have k: "kept fd s1 u" by (rule kept_trans [OF s2(2) u(2)])
  have md: "ctx_mvcc (Some c) s2 = ctx_mvcc (Some c) s" using s2(2) o(2) by (simp add: ctx_mvcc_def kept_def)
  have pk: "check_primary_key ob (Some c) row off s = (Inr (), s)"
    using ob(2) by (simp add: check_primary_key_def pk_col_def bindE_apply)
  have "insert_next junk (Some c) ob s = (Inr r, u)"
    using start vals pos pk s1(1) s2(1) u(1) ob(1,2) h
    by (simp add: insert_next_def bindE_apply fh_hdr_eq new_record_def on_exception_def)
  moreover note k [unfolded kept_def]
  ultimately show thesis
    by (intro that [of r u h1 "set_lsn (global_lsn s) (new_InsertLogRecord (log_txn_id c) row r (ctx_tab c))" tx'])
      (use s1(4-8) o(2,3) p u(3-5) s2(3,4) md in simp_all)
qed

lemma put_values_ok:
  assumes "length vals = length cols"
    and "\<forall>i < length cols. \<exists>raw. raw_value (cols ! i) (vals ! i) = Inr raw"
    and "\<forall>c \<in> set cols. 0 \<le> base + cm_offset c \<and> base + cm_offset c + cm_len c \<le> int (length rec)"
  shows "\<exists>row. put_values base cols vals rec = Inr row"
  using assms
proof (induction cols arbitrary: vals rec)
  case (Cons c cols)
  obtain v vs where v: "vals = v # vs" using Cons.prems(1) by (cases vals) auto
  obtain raw where raw: "raw_value c v = Inr raw" using Cons.prems(2) by (auto simp: v)
  note l = raw_value_length [OF raw]
  obtain rec1 where r1: "put_bytes rec (base + cm_offset c) raw = Inr rec1" using Cons.prems(3) l by (auto simp: put_bytes_def)
  have "\<exists>row. put_values base cols vs rec1 = Inr row"
    by (rule Cons.IH) (use Cons.prems put_bytes_facts(1) [OF r1] in \<open>auto simp: v\<close>)
  then show ?case by (simp add: v raw r1)
qed simp

text \<open>
  A session on a table without indexes: the file is sound and has room, the log is flushed, the meta file is closed,
  the transaction exists and has written nothing.
\<close>

definition insert_ready :: "string \<Rightarrow> Context \<Rightarrow> int \<Rightarrow> transaction \<Rightarrow> TabMeta \<Rightarrow> int \<Rightarrow> rm_file_hdr \<Rightarrow> 'a sms_scheme \<Rightarrow> bool" where
  "insert_ready n c i tx tab fd h s \<longleftrightarrow> rm_ok fd s \<and> file_hdrs s fd = Some h \<and> num_pages h + 1 < 2 ^ 19 \<and> log_context c \<and>
     (\<exists>base l0 ds. log_idle base l0 ds s) \<and> global_lsn s + 2 < 2 ^ 31 \<and> meta_fd s = None \<and> ctx_txn c = Some i \<and> txn_heap s i = Some tx \<and>
     write_set tx = [] \<and> ddl_set tx = [] \<and> db_tabs s n = Some tab \<and> fhs s n = Some fd \<and> table_ok n tab \<and> tm_indexes tab = []"

text \<open>Every value can be stored in its column, and the columns lie in the record behind the first \<open>base\<close> bytes.\<close>

definition storable :: "int \<Rightarrow> rm_file_hdr \<Rightarrow> TabMeta \<Rightarrow> Value list \<Rightarrow> bool" where
  "storable base h tab vals \<longleftrightarrow> length vals = length (tm_cols tab) \<and> base \<le> record_size h \<and>
     (\<forall>j < length vals. \<exists>raw. raw_value (tm_cols tab ! j) (vals ! j) = Inr raw) \<and>
     (\<forall>c \<in> set (tm_cols tab). base + cm_offset c + cm_len c \<le> record_size h)"

definition holds_values :: "int \<Rightarrow> TabMeta \<Rightarrow> Value list \<Rightarrow> byte list \<Rightarrow> bool" where
  "holds_values base tab vals row \<longleftrightarrow>
     (\<forall>j < length vals. bytes_at row (base + cm_offset (tm_cols tab ! j)) (cm_len (tm_cols tab ! j)) = raw_value (tm_cols tab ! j) (vals ! j))"

lemma meta_bytes_length: "length (meta_bytes junk m) = 16"
  by (simp add: meta_bytes_def)

lemma insert_meta_spec:
  fixes s :: "'a txnm_scheme"
  assumes "ctx_txn c = Some i" and "txn_heap s i = Some tx" and "16 \<le> length rec"
  obtains rec0 where "insert_meta junk (Some c) rec s = (Inr (rec0, if ctx_mvcc (Some c) s then 16 else 0), s)" and "length rec0 = length rec"
    and "ctx_mvcc (Some c) s \<Longrightarrow> bytes_at rec0 0 8 = Inr (enc_le 8 (start_ts tx))"
proof (cases "ctx_mvcc (Some c) s")
  case True
  let ?m = "meta_bytes junk \<lparr>meta_ts = start_ts tx, meta_deleted = False\<rparr>"
  have p: "put_bytes rec 0 ?m = Inr (?m @ drop 16 rec)" using assms(3) by (simp add: put_bytes_def meta_bytes_length)
  have "insert_meta junk (Some c) rec s = (Inr (?m @ drop 16 rec, 16), s)"
    using assms(1) True p by (simp add: insert_meta_def bindE_apply txn_at_eq [OF assms(2)] sizeof_TupleMeta_def)
  moreover have "bytes_at (?m @ drop 16 rec) 0 8 = Inr (enc_le 8 (start_ts tx))" by (simp add: bytes_at_def meta_bytes_def)
  ultimately show thesis using that True assms(3) by (simp add: meta_bytes_length)
next
  case False
  then show thesis using that [of rec] by (simp add: insert_meta_def bindE_apply)
qed

lemma insert_stores:
  fixes s :: "'a sms_scheme"
  assumes rd: "insert_ready n c i tx tab fd h s" and st: "storable (if ctx_mvcc (Some c) s then 16 else 0) h tab vals" and big: "16 \<le> record_size h"
  obtains ob r row u h' rec tx' where "new_insert n vals s = (Inr ob, s)" and "insert_next junk (Some c) ob s = (Inr r, u)" and "rm_ok fd u"
    and "table fd s r = None" and "table fd u = (table fd s)(r \<mapsto> row)" and "holds_values (if ctx_mvcc (Some c) s then 16 else 0) tab vals row"
    and "ctx_mvcc (Some c) s \<Longrightarrow> bytes_at row 0 8 = Inr (enc_le 8 (start_ts tx))" and "file_hdrs u fd = Some h'" and "record_size h' = record_size h"
    and "\<exists>base l0 ds. log_idle base l0 ds u \<and> global_lsn u = global_lsn s + 1" and "fhs u = fhs s" and "concurrency_mode u = concurrency_mode s"
    and "txn_heap u = (txn_heap s)(i \<mapsto> tx')" and "after_insert ob (ctx_mvcc (Some c) s) r tx tx'" and "io_name ob = n"
    and "db_tabs u = (db_tabs s)(n \<mapsto> tab\<lparr>tm_rows := c_int (tm_rows tab + 1)\<rparr>)"
proof -
  let ?off = "if ctx_mvcc (Some c) s then 16 else 0 :: int"
  let ?ob = "\<lparr>io_tab = tab, io_values = vals, io_fd = fd, io_name = n\<rparr>"
  note R = rd [unfolded insert_ready_def]
  have new: "new_insert n vals s = (Inr ?ob, s)"
    using R st by (simp add: new_insert_def get_table_def file_handle_def bindE_apply storable_def)
  have rlen: "16 \<le> length (mem_read junk 0 (nat (record_size h)))" using big by simp
  obtain rec0 where rec0: "insert_meta junk (Some c) (mem_read junk 0 (nat (record_size h))) s = (Inr (rec0, ?off), s)"
    "length rec0 = nat (record_size h)" "ctx_mvcc (Some c) s \<Longrightarrow> bytes_at rec0 0 8 = Inr (enc_le 8 (start_ts tx))"
    by (rule insert_meta_spec [of c i s tx, OF _ _ rlen]) (use R in auto)
  have lay: "laid_out n 0 (tm_cols tab)" using R by (simp add: table_ok_def)
  have fits: "\<forall>c \<in> set (tm_cols tab). 0 \<le> ?off + cm_offset c \<and> ?off + cm_offset c + cm_len c \<le> int (length rec0)"
    using st laid_out_tab [OF lay] rec0(2) by (fastforce simp: storable_def)
  have sl: "length vals = length (tm_cols tab)" "\<forall>j < length (tm_cols tab). \<exists>raw. raw_value (tm_cols tab ! j) (vals ! j) = Inr raw"
    using st by (simp_all add: storable_def)
  obtain row where row: "put_values ?off (tm_cols tab) vals rec0 = Inr row" using put_values_ok [OF sl fits] by auto
  have z: "0 \<le> ?off" by simp
  have f: "length row = length rec0" "holds_values ?off tab vals row" "\<And>p k. 0 \<le> p \<Longrightarrow> 0 \<le> k \<Longrightarrow> p + k \<le> ?off \<Longrightarrow> bytes_at row p k = bytes_at rec0 p k"
    using put_values_facts [OF row lay z order_refl sl(1)] sl(1) by (simp_all add: holds_values_def)
  obtain base l0 ds where idle: "log_idle base l0 ds s" using R by blast
  have lsn: "global_lsn s + 1 < 2 ^ 31" using R by simp
  have len: "length row = nat (record_size h)" using f(1) rec0(2) by simp
  obtain r u h' rec tx' where u: "insert_next junk (Some c) ?ob s = (Inr r, u)" "rm_ok fd u" "table fd s r = None"
    "table fd u = (table fd s)(r \<mapsto> row)" "file_hdrs u fd = Some h'" "record_size h' = record_size h"
    "log_idle base l0 (ds @ [rec]) u" "fhs u = fhs s" "concurrency_mode u = concurrency_mode s"
    "txn_heap u = (txn_heap s)(i \<mapsto> tx')" "after_insert ?ob (ctx_mvcc (Some c) s) r tx tx'"
    "db_tabs u = (db_tabs s)(n \<mapsto> tab\<lparr>tm_rows := c_int (tm_rows tab + 1)\<rparr>)"
    by (rule insert_next_spec [of fd s h c base l0 ds ?ob tab i tx junk rec0 ?off row, OF _ _ _ _ idle lsn _ _ _ _ _ _ _ _ len])
      (use R rec0(1) row in auto)
  have g: "global_lsn u = global_lsn s + 1" using log_idle_lsn(1) [OF idle] log_idle_lsn(1) [OF u(7)] by simp
  have b: "bytes_at row 0 8 = Inr (enc_le 8 (start_ts tx))" if "ctx_mvcc (Some c) s"
    using f(3) [of 0 8] rec0(3) [OF that] that by simp
  show thesis
    by (rule that [OF new u(1,2,3,4) f(2) b u(5,6) _ u(8,9,10,11) _ u(12)]) (use u(7) g in auto)
qed

section \<open>Abort\<close>

lemma flush_idle: "log_offset s = 0 \<Longrightarrow> flush_log_to_disk s = (Inr (), s)"
  by (simp add: flush_log_to_disk_def write_out_def bindE_apply)

lemma kept_map: "rm_ok fd s \<Longrightarrow> kept fd s (s\<lparr>txn_map := x\<rparr>)"
  by (erule kept_sameI) (cases s; simp)

lemma kept_running: "rm_ok fd s \<Longrightarrow> kept fd s (s\<lparr>running_txns := x\<rparr>)"
  by (erule kept_sameI) (cases s; simp)

lemma kept_aborted: "rm_ok fd s \<Longrightarrow> kept fd s (s\<lparr>aborted_txns := x\<rparr>)"
  by (erule kept_sameI) (cases s; simp)

text \<open>The end of an abort: the log has nothing to write, and the sets of the transaction are cleared.\<close>

lemma abort_end:
  fixes s :: "'a txnm_scheme"
  assumes "rm_ok fd s" and "txn_heap s i = Some tx" and "log_offset s = 0"
  obtains t where "bindE flush_log_to_disk (\<lambda>_. clear_sets i) s = (Inr (), t)" and "kept fd s t"
  using that kept_heap [OF assms(1)] assms(2,3) by (simp add: bindE_apply flush_idle clear_sets_def upd_txn_eq)

lemma mvcc_abort_nothing_written:
  fixes s :: "'a txnm_scheme"
  assumes ok: "rm_ok fd s" and tx: "txn_heap s i = Some tx" and w: "write_set tx = []" and m: "concurrency_mode s = MVCC" and lo: "log_offset s = 0"
  obtains t where "txnm_abort undo i s = (Inr (), t)" and "kept fd s t"
proof -
  let ?tx = "tx\<lparr>txn_state := ABORTED\<rparr>"
  let ?s1 = "s\<lparr>txn_heap := (txn_heap s)(i \<mapsto> ?tx)\<rparr>"
  let ?s2 = "?s1\<lparr>running_txns := RemoveTxn (start_ts tx) (running_txns s)\<rparr>"
  let ?s3 = "?s2\<lparr>aborted_txns := insert (start_ts tx) (aborted_txns s)\<rparr>"
  have k: "kept fd s ?s3"
    using kept_trans [OF kept_trans [OF kept_heap [OF ok] kept_running [OF rm_ok_kept [OF kept_heap [OF ok]]]]]
      kept_aborted [OF rm_ok_kept [OF kept_running [OF rm_ok_kept [OF kept_heap [OF ok]]]]] by blast
  have h3: "txn_heap ?s3 i = Some ?tx" "log_offset ?s3 = 0" using lo by simp_all
  obtain t where t: "bindE flush_log_to_disk (\<lambda>_. clear_sets i) ?s3 = (Inr (), t)" "kept fd ?s3 t"
    by (rule abort_end [OF rm_ok_kept [OF k] h3])
  have "txnm_abort undo i s = (Inr (), t)"
    using t(1) m w by (simp add: txnm_abort_def bindE_apply upd_txn_eq [OF tx] txn_at_def undo_writes_def)
  then show thesis using that kept_trans [OF k t(2)] by blast
qed

lemma abort_one_insert:
  fixes s :: "'a txnm_scheme"
  assumes ok: "rm_ok fd s" and h: "file_hdrs s fd = Some h" and big: "16 \<le> record_size h" and tx: "txn_heap s i = Some tx"
    and w: "write_set tx = [\<lparr>write_type = INSERT_TUPLE, write_table = n, write_rid = r, write_value = []\<rparr>]" "ddl_set tx = []"
    and m: "concurrency_mode s \<noteq> MVCC" and fd: "fhs s n = Some fd" and r: "table fd s r = Some v"
    and idle: "log_idle base l0 ds s" and lsn: "global_lsn s + 1 < 2 ^ 31" and i: "txn_id_ok i"
  obtains t where "txnm_abort undo i s = (Inr (), t)" and "table fd t = (table fd s)(r := None)"
proof -
  let ?tx = "tx\<lparr>txn_state := ABORTED\<rparr>"
  let ?s1 = "s\<lparr>txn_heap := (txn_heap s)(i \<mapsto> ?tx)\<rparr>"
  let ?s2 = "?s1\<lparr>txn_heap := (txn_heap ?s1)(i \<mapsto> ?tx\<lparr>write_set := []\<rparr>)\<rparr>"
  have k1: "kept fd s ?s1" by (rule kept_heap [OF ok])
  have k2: "kept fd s ?s2" by (rule kept_trans [OF k1 kept_heap [OF rm_ok_kept [OF k1]]])
  have c: "log_context (abort_ctx i)" using i by (simp add: log_context_def abort_ctx_def log_txn_id_def LOG_BUFFER_SIZE_def PAGE_SIZE_def)
  have 2: "file_hdrs ?s2 fd = Some h" "table fd ?s2 r = Some v" "log_idle base l0 ds ?s2" "global_lsn ?s2 + 1 < 2 ^ 31"
    using k2 h r idle lsn by (simp_all add: kept_def)
  have mv: "ctx_mvcc (Some (abort_ctx i)) ?s2 \<or> 16 \<le> record_size h" using big by simp
  obtain s3 h' rec where s3: "delete_record fd r (Some (abort_ctx i)) ?s2 = (Inr (), s3)" "rm_ok fd s3" "only_file fd ?s2 s3"
    "table fd s3 = (table fd ?s2)(r := None)" "log_idle base l0 (ds @ [rec]) s3"
    by (rule delete_logged_spec [OF rm_ok_kept [OF k2] 2(1,2) c mv 2(3,4)])
  have more: "dbs.more s3 = dbs.more ?s2" "concurrency_mode s3 = concurrency_mode s" using s3(3) by (simp_all add: only_file_def)
  have h3: "txn_heap s3 i = Some (?tx\<lparr>write_set := []\<rparr>)" using more(1) by (cases s, cases s3) simp
  let ?s4 = "s3\<lparr>txn_map := txn_map s3 - {txn_id tx}\<rparr>"
  have k4: "kept fd s3 ?s4" by (rule kept_map [OF s3(2)])
  have h4: "txn_heap ?s4 i = Some (?tx\<lparr>write_set := []\<rparr>)" "log_offset ?s4 = 0" using h3 log_idle_lsn(2) [OF s3(5)] by simp_all
  obtain t where t: "bindE flush_log_to_disk (\<lambda>_. clear_sets i) ?s4 = (Inr (), t)" "kept fd ?s4 t"
    by (rule abort_end [OF rm_ok_kept [OF k4] h4])
  have h1: "txn_heap ?s1 i = Some ?tx" by simp
  have e: "upd_txn i (\<lambda>t. t\<lparr>txn_state := ABORTED\<rparr>) s = (Inr (), ?s1)" "unregister i s3 = (Inr (), ?s4)"
    "upd_txn i (\<lambda>t. t\<lparr>write_set := butlast (write_set t)\<rparr>) ?s1 = (Inr (), ?s2)"
    using w(1) by (simp_all add: upd_txn_eq [OF tx] upd_txn_eq [OF h1] unregister_def bindE_apply txn_at_eq [OF h3])
  have "undo_writes i ?s1 = (Inr (), s3)"
    using s3(1) e(3) unfolding undo_writes_def by (simp add: bindE_apply txn_at_eq [OF h1] w(1) undo_write_def fd)
  then have "txnm_abort undo i s = (Inr (), t)"
    using t(1) m w(2) by (simp add: txnm_abort_def bindE_apply e(1,2) txn_at_eq [OF h1])
  moreover have "table fd t = (table fd s)(r := None)" using t(2) k4 s3(4) k2 by (simp add: kept_def)
  ultimately show thesis by (rule that)
qed

section \<open>Properties\<close>

text \<open>
  C37: INSERT stores its values. On a table without indexes an INSERT whose values can be stored returns, takes a free
  identifier, and the record it stores there holds each value in its column, in either mode behind the version header;
  no other record changes, and the row count of the catalogue grows by one.
\<close>

theorem insert_stores_the_values:
  fixes s :: "'a sms_scheme"
  assumes "insert_ready n c i tx tab fd h s" and "storable (if ctx_mvcc (Some c) s then 16 else 0) h tab vals" and "16 \<le> record_size h"
  shows "\<exists>ob r row u. new_insert n vals s = (Inr ob, s) \<and> insert_next junk (Some c) ob s = (Inr r, u) \<and> rm_ok fd u \<and>
    table fd s r = None \<and> table fd u = (table fd s)(r \<mapsto> row) \<and> holds_values (if ctx_mvcc (Some c) s then 16 else 0) tab vals row \<and>
    db_tabs u = (db_tabs s)(n \<mapsto> tab\<lparr>tm_rows := c_int (tm_rows tab + 1)\<rparr>)"
  by (rule insert_stores [OF assms, of junk]) blast

text \<open>
  C38: outside MVCC mode an abort takes an INSERT back. When a transaction that has written nothing inserts a row into a
  table without indexes, with records of at least sixteen bytes, and then aborts, the abort returns and the records of the
  table are those that were there before. Shorter records are left out: when such a record begins with a positive number,
  \<open>get_record\<close> takes the first bytes for a version header and throws when it cuts off sixteen bytes, and so does the
  \<open>delete_record\<close> of the abort.
\<close>

theorem abort_takes_insert_back:
  fixes s :: "'a sms_scheme"
  assumes "insert_ready n c i tx tab fd h s" and "storable 0 h tab vals" and "16 \<le> record_size h" and "concurrency_mode s \<noteq> MVCC"
  shows "\<exists>ob r u t. new_insert n vals s = (Inr ob, s) \<and> insert_next junk (Some c) ob s = (Inr r, u) \<and> table fd u \<noteq> table fd s \<and>
    abort_transaction i u = (Inr (), t) \<and> table fd t = table fd s"
proof -
  have nm: "\<not> ctx_mvcc (Some c) s" using assms(4) by (simp add: ctx_mvcc_def)
  have st: "storable (if ctx_mvcc (Some c) s then 16 else 0) h tab vals" using nm assms(2) by simp
  note R = assms(1) [unfolded insert_ready_def]
  obtain ob r row u h' rec tx' where u: "new_insert n vals s = (Inr ob, s)" "insert_next junk (Some c) ob s = (Inr r, u)" "rm_ok fd u"
    "table fd s r = None" "table fd u = (table fd s)(r \<mapsto> row)" "file_hdrs u fd = Some h'" "record_size h' = record_size h"
    "\<exists>base l0 ds. log_idle base l0 ds u \<and> global_lsn u = global_lsn s + 1" "fhs u = fhs s" "concurrency_mode u = concurrency_mode s"
    "txn_heap u = (txn_heap s)(i \<mapsto> tx')" "after_insert ob (ctx_mvcc (Some c) s) r tx tx'" "io_name ob = n"
    by (rule insert_stores [OF assms(1) st assms(3), of junk]) blast
  have big: "16 \<le> record_size h'" using assms(3) u(7) by simp
  have hx: "txn_heap u i = Some tx'" using u(11) by simp
  have w: "write_set tx' = [\<lparr>write_type = INSERT_TUPLE, write_table = n, write_rid = r, write_value = []\<rparr>]" "ddl_set tx' = []"
    using u(12,13) nm R by (simp_all add: after_insert_def)
  have m: "concurrency_mode u \<noteq> MVCC" and f: "fhs u n = Some fd" using u(9,10) assms(4) R by simp_all
  have row: "table fd u r = Some row" using u(5) by simp
  obtain base l0 ds where idle: "log_idle base l0 ds u" "global_lsn u + 1 < 2 ^ 31" using u(8) R by auto
  have "log_context c" "ctx_txn c = Some i" using R by auto
  then have i: "txn_id_ok i" by (simp add: log_context_def log_txn_id_def)
  obtain t where t: "txnm_abort (compensate_ddl i) i u = (Inr (), t)" "table fd t = (table fd u)(r := None)"
    by (rule abort_one_insert [OF u(3,6) big hx w m f row idle i])
  have "table fd t = table fd s" using t(2) u(4,5) by (simp add: fun_upd_idem)
  moreover have "table fd u \<noteq> table fd s" using u(4) row by auto
  ultimately show ?thesis using u(1,2) t(1) unfolding abort_transaction_def by blast
qed

text \<open>
  C39: in MVCC mode an abort leaves an inserted row in the file. INSERT makes an undo log there but no write record, and
  abort walks over the write records only: after the abort the table still holds the row, with the start stamp of the
  transaction in front.
\<close>

theorem mvcc_abort_keeps_inserted_row:
  fixes s :: "'a sms_scheme"
  assumes "insert_ready n c i tx tab fd h s" and "storable 16 h tab vals" and "ctx_mvcc (Some c) s" and "16 \<le> record_size h"
  shows "\<exists>ob r row u t. new_insert n vals s = (Inr ob, s) \<and> insert_next junk (Some c) ob s = (Inr r, u) \<and> table fd s r = None \<and>
    abort_transaction i u = (Inr (), t) \<and> table fd t = (table fd s)(r \<mapsto> row) \<and> bytes_at row 0 8 = Inr (enc_le 8 (start_ts tx))"
proof -
  have st: "storable (if ctx_mvcc (Some c) s then 16 else 0) h tab vals" using assms(2,3) by simp
  note R = assms(1) [unfolded insert_ready_def]
  obtain ob r row u h' rec tx' where u: "new_insert n vals s = (Inr ob, s)" "insert_next junk (Some c) ob s = (Inr r, u)" "rm_ok fd u"
    "table fd s r = None" "table fd u = (table fd s)(r \<mapsto> row)" "ctx_mvcc (Some c) s \<Longrightarrow> bytes_at row 0 8 = Inr (enc_le 8 (start_ts tx))"
    "\<exists>base l0 ds. log_idle base l0 ds u \<and> global_lsn u = global_lsn s + 1" "concurrency_mode u = concurrency_mode s"
    "txn_heap u = (txn_heap s)(i \<mapsto> tx')" "after_insert ob (ctx_mvcc (Some c) s) r tx tx'"
    by (rule insert_stores [OF assms(1) st assms(4), of junk]) blast
  have hx: "txn_heap u i = Some tx'" using u(9) by simp
  have w: "write_set tx' = []" using u(10) assms(3) R by (auto simp: after_insert_def)
  have m: "concurrency_mode u = MVCC" using u(8) assms(3) by (simp add: ctx_mvcc_def)
  have lo: "log_offset u = 0" using u(7) log_idle_lsn(2) by blast
  obtain t where t: "txnm_abort (compensate_ddl i) i u = (Inr (), t)" "kept fd u t"
    by (rule mvcc_abort_nothing_written [OF u(3) hx w m lo])
  then show ?thesis using u(1,2,4,5) u(6) [OF assms(3)] unfolding abort_transaction_def kept_def by fastforce
qed

section \<open>A small session\<close>

definition demo_txn :: transaction where
  "demo_txn = (new_Transaction True 0 0 5)\<lparr>start_ts := 9\<rparr>"

definition demo_session :: "ConcurrencyMode \<Rightarrow> sms" where
  "demo_session mode = ixs.extend (txnm.extend (txnm_init sorted_list_of_set mode 1 0 demo_db) (ixs.fields Map.empty Map.empty))
     (sms.fields ''d'' [''t'' \<mapsto> demo_items] 0 Map.empty sorted_list_of_set Map.empty (Some ''d'') True True)\<lparr>txn_heap := [5 \<mapsto> demo_txn], txn_map := {5}\<rparr>"

definition demo_values :: "Value list" where
  "demo_values = [int_value 7, (int_value 0)\<lparr>val_type := TYPE_STRING_c, val_str := ''ab''\<rparr>]"

lemma demo_session_sel [simp]:
  "db_tabs (demo_session mode) = [''t'' \<mapsto> demo_items]" "txn_heap (demo_session mode) = [5 \<mapsto> demo_txn]" "concurrency_mode (demo_session mode) = mode"
  "fhs (demo_session mode) = [''t'' \<mapsto> 3]" "path2fd (demo_session mode) = path2fd demo_disk"
  by (simp_all add: demo_session_def ixs.defs txnm.defs sms.defs txnm_init_def dbs.defs demo_db_def logm.defs logm_init_def bpm_init_def bpm.defs disk.defs demo_disk_def)

lemma demo_session_like: "demo_like (demo_session mode)"
  by (simp add: demo_like_def demo_session_def ixs.defs txnm.defs sms.defs txnm_init_def dbs.defs demo_db_def logm.defs logm_init_def bpm_init_def bpm.defs disk.defs demo_disk_def)

lemma demo_insert_ready: "insert_ready ''t'' demo_ctx 5 demo_txn demo_items 3 (new_file_hdr 32) (demo_session mode)"
proof -
  have "file_hdrs (demo_session mode) 3 = Some (new_file_hdr 32)" "global_lsn (demo_session mode) = 0"
    using demo_session_like [of mode] by (simp_all add: demo_like_def)
  moreover have "tm_indexes demo_items = []" by (simp add: demo_items_def new_table_def)
  moreover have "meta_fd (demo_session mode) = None" by (simp add: meta_fd_def demo_disk_def DB_META_NAME_def)
  moreover have "ctx_txn demo_ctx = Some 5" by (simp add: demo_ctx_def)
  moreover have "write_set demo_txn = []" "ddl_set demo_txn = []" by (simp_all add: demo_txn_def new_Transaction_def)
  moreover have "num_pages (new_file_hdr 32) = 1" by (simp add: new_file_hdr_def Let_def)
  moreover have "\<exists>base l0 ds. log_idle base l0 ds (demo_session mode)" using demo_like_log_idle [OF demo_session_like] by blast
  ultimately show ?thesis
    using demo_like_rm_ok [OF demo_session_like] demo_log_context demo_items_ok by (simp add: insert_ready_def)
qed

lemma demo_storable: "base \<in> {0, 16} \<Longrightarrow> storable base (new_file_hdr 32) demo_items demo_values"
  by (auto simp: storable_def demo_items_def new_table_def demo_values_def new_file_hdr_def Let_def c_int_def raw_value_def conv_value_def init_raw_def
      col_types_c int_value_def deref_def less_Suc_eq numeral_2_eq_2)

lemma demo_record_size: "16 \<le> record_size (new_file_hdr 32)"
  by (simp add: new_file_hdr_def Let_def)

theorem insert_stores_the_values_witness:
  "\<exists>ob r row u. insert_next zero_mem (Some demo_ctx) ob (demo_session MVCC) = (Inr r, u) \<and> table 3 u r = Some row \<and>
     bytes_at row 16 4 = Inr [7, 0, 0, 0] \<and> bytes_at row 20 4 = Inr [97, 98, 0, 0]"
proof -
  have m: "ctx_mvcc (Some demo_ctx) (demo_session MVCC)" by (simp add: ctx_mvcc_def demo_ctx_def)
  obtain ob r row u where u: "insert_next zero_mem (Some demo_ctx) ob (demo_session MVCC) = (Inr r, u)"
    "table 3 u = (table 3 (demo_session MVCC))(r \<mapsto> row)" "holds_values 16 demo_items demo_values row"
    using insert_stores_the_values [OF demo_insert_ready [of MVCC] _ demo_record_size, of demo_values zero_mem] demo_storable [of 16] m by auto
  have "bytes_at row 16 4 = Inr [7, 0, 0, 0] \<and> bytes_at row 20 4 = Inr [97, 98, 0, 0]"
    using u(3) by (simp add: holds_values_def demo_values_def demo_items_def new_table_def c_int_def raw_value_def conv_value_def init_raw_def
        col_types_c int_value_def deref_def less_Suc_eq bytes_of_string_def eval_nat_numeral all_conj_distrib)
  moreover have "table 3 u r = Some row" using u(2) by simp
  ultimately show ?thesis using u(1) by blast
qed

theorem abort_takes_insert_back_witness:
  "\<exists>ob r u t. insert_next zero_mem (Some demo_ctx) ob (demo_session TWO_PHASE_LOCKING) = (Inr r, u) \<and> table 3 u \<noteq> Map.empty \<and>
     abort_transaction 5 u = (Inr (), t) \<and> table 3 t = Map.empty"
  using abort_takes_insert_back [OF demo_insert_ready [of TWO_PHASE_LOCKING] demo_storable [of 0] demo_record_size, of zero_mem]
  unfolding demo_like_table [OF demo_session_like] by (simp, blast)

theorem mvcc_abort_keeps_inserted_row_witness:
  "\<exists>ob r row u t. insert_next zero_mem (Some demo_ctx) ob (demo_session MVCC) = (Inr r, u) \<and>
     abort_transaction 5 u = (Inr (), t) \<and> table 3 t = [r \<mapsto> row] \<and> bytes_at row 0 8 = Inr [9, 0, 0, 0, 0, 0, 0, 0]"
proof -
  have m: "ctx_mvcc (Some demo_ctx) (demo_session MVCC)" by (simp add: ctx_mvcc_def demo_ctx_def)
  have e: "enc_le 8 (start_ts demo_txn) = [9, 0, 0, 0, 0, 0, 0, 0]" by (simp add: demo_txn_def eval_nat_numeral)
  show ?thesis
    using mvcc_abort_keeps_inserted_row [OF demo_insert_ready [of MVCC] demo_storable [of 16] m demo_record_size, of zero_mem]
    unfolding e demo_like_table [OF demo_session_like] by blast
qed

end
