(* ===== verification/WriteFrame.thy ===== *)
theory WriteFrame
  imports ExecWrite SmCatalog
begin

text \<open>
  Statements that write rows change no table's definition: whatever INSERT, DELETE and UPDATE do and however they end,
  only row counts of the catalogue may differ.
\<close>

definition schema :: "'a sms_scheme \<Rightarrow> string \<rightharpoonup> TabMeta" where
  "schema s = (\<lambda>n. map_option (\<lambda>t. t\<lparr>tm_rows := 0\<rparr>) (db_tabs s n))"

lemma cat_schema:
  fixes m :: "('a sms_scheme, 'b) op"
  assumes "preserves cat_part m"
  shows "preserves schema m"
proof (rule preservesI)
  fix s
  have "db_tabs (snd (m s)) = db_tabs s" by (rule tabs_of_part) (use assms in \<open>simp add: preserves_def\<close>)
  then show "schema (snd (m s)) = schema s" by (simp add: schema_def)
qed

section \<open>Reading versions\<close>

lemma preserves_tryE [preserving]:
  assumes "preserves p m" and "preserves p h"
  shows "preserves p (tryE m h)"
proof (rule preservesI)
  fix s
  obtain r t where r: "m s = (r, t)" by fastforce
  then have "p t = p s" by (rule preservesD [OF assms(1)])
  then show "p (snd (tryE m h s)) = p s" using assms(2) r by (cases r) (simp_all add: tryE_def preserves_def)
qed

lemma preserves_on_exception [preserving]:
  fixes m :: "('s, 'b) op"
  assumes "preserves p m" and "preserves p h"
  shows "preserves p (on_exception m h)"
proof (rule preservesI)
  fix s
  obtain r t where r: "m s = (r, t)" by fastforce
  then have t: "p t = p s" by (rule preservesD [OF assms(1)])
  have "preserves p (bindE h (\<lambda>_. raise e :: ('s, 'b) op))" for e by (intro preserving assms(2))
  then have "p (snd (bindE h (\<lambda>_. raise e :: ('s, 'b) op) t)) = p s" for e using t by (simp add: preserves_def)
  then show "p (snd (on_exception m h s)) = p s" using r t by (cases r) (simp_all add: on_exception_def)
qed

lemma find_timestamp_pure [preserving]: "preserves p (find_timestamp ts is)"
proof (induction "is")
  case Nil
  show ?case unfolding find_timestamp.simps by (rule preserves_basic)
next
  case (Cons i "is")
  then show ?case unfolding find_timestamp.simps by (intro preserving txn_at_part)
qed

lemma pure_tests [preserving]:
  shows "preserves p (get_transaction i)" and "preserves p (get_transaction_by_timestamp ts)" and "preserves p (read_meta v)"
  unfolding get_transaction_def get_transaction_by_timestamp_def read_meta_def memcpy_from_def by (intro preserving txn_at_part)+

lemma pure_commits [preserving]:
  shows "preserves p (IsCommitted ts)" and "preserves p (IsCommittedBeforeReadTs ts rts)"
  unfolding IsCommitted_def IsCommittedBeforeReadTs_def by (intro preserving txn_at_part)+

lemma conflict_with_pure [preserving]: "preserves p (conflict_with ts i)"
  unfolding conflict_with_def Let_def by (intro preserving txn_at_part)

lemma chain_version_pure [preserving]: "preserves p (chain_version h ts l)"
  by (rule preservesI) (simp add: chain_version_def split: option.split)

lemma history_part [preserving]: "preserves txn_part (GetVisibleVersionFromHistory fd r i)"
  unfolding GetVisibleVersionFromHistory_def initial_version_def by (intro preserving txn_at_part)

lemma choose_version_part: "preserves p hist \<Longrightarrow> preserves p (choose_version i m d hist)"
  unfolding choose_version_def by (intro preserving txn_at_part)

lemma mvcc_reads_part [preserving]:
  shows "preserves txn_part (get_record_mvcc fd r ctx)" and "preserves txn_part (CheckWriteWriteConflict fd r ctx)"
  unfolding get_record_mvcc_def CheckWriteWriteConflict_def by (intro preserving choose_version_part)+

lemma create_page_part [preserving]: "preserves txn_part (create_page_handle fd)"
  unfolding create_page_handle_def by (intro preserving)

lemma insert_record_part [preserving]: "preserves txn_part (insert_record fd buf ctx)"
  unfolding insert_record_def insert_unlogged_def put_record_def by (intro preserving)

lemmas write_ops_part = mvcc_reads_part insert_record_part delete_record_part update_record_part get_record_part

lemma write_ops_cat [preserving]:
  shows "preserves cat_part (get_record_mvcc fd r ctx :: ('a ixs_scheme, _) op)" and "preserves cat_part (CheckWriteWriteConflict fd r ctx :: ('a ixs_scheme, _) op)"
    and "preserves cat_part (insert_record fd buf ctx :: ('a ixs_scheme, _) op)" and "preserves cat_part (delete_record fd r ctx :: ('a ixs_scheme, _) op)"
    and "preserves cat_part (update_record fd r buf ctx :: ('a ixs_scheme, _) op)"
  by (rule part_to_cat, rule write_ops_part)+

lemma txn_writes_cat [preserving]:
  shows "preserves cat_part (AppendUndoLog i l :: ('a ixs_scheme, _) op)" and "preserves cat_part (append_write_record i w :: ('a ixs_scheme, _) op)"
    and "preserves cat_part (append_mvcc_deleted_rid i r :: ('a ixs_scheme, _) op)" and "preserves cat_part (push_version r link :: ('a ixs_scheme, _) op)"
  unfolding AppendUndoLog_def append_write_record_def append_mvcc_deleted_rid_def push_version_def UpdateVersionLink_def put_link_def put_txn_def upd_txn_def
  by (intro preserving txn_at_part; simp add: cat_part_def)+

section \<open>The executors\<close>

lemma handles_pure [preserving]:
  shows "preserves p (index_handle n ix)" and "preserves p (file_handle n)"
  unfolding index_handle_def file_handle_def by (intro preserving)+

lemma the_txn_pure [preserving]: "preserves p (the_ctx ctx)" "preserves p (the_txn ctx)"
  unfolding the_ctx_def the_txn_def by (intro preserving)+

lemma throw_abort_pure [preserving]: "preserves p (throw_abort ctx)"
  unfolding throw_abort_def by (intro preserving txn_at_part)

lemma count_rows_keeps: "db_tabs s n = Some t \<Longrightarrow> schema (snd (count_rows n k tab s)) = schema s"
  by (auto simp: count_rows_def Let_def update_table_row_count_def bindE_apply is_table_def upd_table_def get_table_def put_table_def flush_meta_def
      schema_def ofstream_text_def)

lemma count_rows_schema [preserving]: "preserves schema (count_rows n k tab)"
proof (rule preservesI)
  fix s :: "'a sms_scheme"
  show "schema (snd (count_rows n k tab s)) = schema s"
  proof (cases "db_tabs s n")
    case None
    then show ?thesis by (simp add: count_rows_def Let_def update_table_row_count_def bindE_apply is_table_def)
  qed (rule count_rows_keeps)
qed

lemma check_primary_key_cat [preserving]: "preserves cat_part (check_primary_key ob ctx rec base :: ('a ixs_scheme, _) op)"
proof -
  have "preserves cat_part (check_key fd c key ctx r :: ('a ixs_scheme, _) op)" for fd c key r
    unfolding check_key_def by (intro preserving)
  then show ?thesis unfolding check_primary_key_def by (intro preserving) assumption
qed

lemma insert_parts_cat [preserving]:
  shows "preserves cat_part (insert_meta junk ctx rec :: ('a ixs_scheme, _) op)" and "preserves cat_part (note_insert ob ctx r :: ('a ixs_scheme, _) op)"
    and "preserves cat_part (insert_key n ctx rec base r ix)"
  unfolding insert_meta_def note_insert_def insert_key_def by (intro preserving txn_at_part)+

lemmas schema_ops = insert_parts_cat [THEN cat_schema] check_primary_key_cat [THEN cat_schema] write_ops_cat [THEN cat_schema]
  record_ops_cat [THEN cat_schema] txn_writes_cat [THEN cat_schema]

lemma insert_next_schema: "preserves schema (insert_next junk ctx ob)"
  unfolding insert_next_def by (intro preserving schema_ops new_record_part)

lemma delete_parts_cat [preserving]:
  shows "preserves cat_part (scan_record fd ctx r :: ('a ixs_scheme, _) op)" and "preserves cat_part (mark_deleted junk ctx ob r rec raw meta)"
    and "preserves cat_part (note_delete n ctx r rec :: ('a ixs_scheme, _) op)" and "preserves cat_part (delete_key n ctx rec ix)"
  unfolding scan_record_def mark_deleted_def note_delete_def delete_key_def by (intro preserving txn_at_part)+

lemmas delete_ops = schema_ops delete_parts_cat [THEN cat_schema]

lemma delete_one_schema: "preserves schema (delete_one junk ctx ob tab r)"
  unfolding delete_one_def delete_mvcc_def delete_plain_def by (intro preserving delete_ops)

lemma delete_rids_schema: "preserves schema (delete_rids junk ctx ob tab rs)"
proof (induction rs arbitrary: tab)
  case Nil
  show ?case unfolding delete_rids.simps by (rule preserves_basic)
next
  case (Cons r rs)
  then show ?case unfolding delete_rids.simps by (intro preserving delete_one_schema)
qed

lemma delete_next_schema: "preserves schema (delete_next junk ctx ob)"
  unfolding delete_next_def by (intro preserving delete_rids_schema)

lemma update_parts_cat [preserving]:
  shows "preserves cat_part (check_unique n new old ix)" and "preserves cat_part (move_key n ctx new old r ix)"
  unfolding check_unique_def move_key_def by (intro preserving)+

lemma new_version_cat [preserving]: "preserves cat_part (new_version junk vjunk ctx i ob r old)"
  unfolding new_version_def write_version_def by (intro preserving txn_at_part)

lemma update_one_cat: "preserves cat_part (update_one junk vjunk ctx i ob r)"
  unfolding update_one_def by (intro preserving)

lemma upd_match_cat: "preserves cat_part (upd_match ob ctx r :: ('a ixs_scheme, _) op)"
  unfolding upd_match_def Let_def by (intro preserving)

lemma gather_match_part: "preserves db_part (gather_match ob ctx r :: (rid list \<times> 'a ixs_scheme, _) op)"
proof (rule preservesI)
  fix x :: "rid list \<times> 'a ixs_scheme"
  have "cat_part (snd (upd_match ob ctx r (snd x))) = cat_part (snd x)"
    by (rule preserved [OF upd_match_cat])
  then show "db_part (snd (gather_match ob ctx r x)) = db_part x"
    by (cases x; cases "upd_match ob ctx r (snd x)") (auto simp: gather_match_def db_part_def split: sum.split)
qed

lemma upd_rids_cat: "preserves cat_part (upd_rids ob ctx :: ('a ixs_scheme, _) op)"
proof (rule preservesI)
  fix s :: "'a ixs_scheme"
  have "preserves db_part (for_records (uo_fd ob) (gather_match ob ctx) :: (rid list \<times> 'a ixs_scheme, _) op)"
    by (intro preserving gather_match_part)
  then have "db_part (snd (for_records (uo_fd ob) (gather_match ob ctx) ([], s))) = cat_part s"
    by (simp add: preserves_def db_part_def)
  then show "cat_part (snd (upd_rids ob ctx s)) = cat_part s"
    by (simp add: upd_rids_def db_part_def case_prod_unfold split: sum.split)
qed

lemma update_next_cat: "preserves cat_part (update_next junk vjunk ctx ob)"
  unfolding update_next_def by (intro preserving upd_rids_cat update_one_cat)

section \<open>What holds of them\<close>

text \<open>C40: An INSERT, a DELETE or an UPDATE, however it ends, leaves every table with the columns, the indexes and the
  name it had, and neither adds nor removes a table: only row counts of the catalogue change.\<close>

theorem writes_keep_the_schema:
  "schema (snd (insert_next junk ctx io s)) = schema s \<and> schema (snd (delete_next junk ctx d s)) = schema s \<and>
   schema (snd (update_next junk vjunk ctx u s)) = schema s"
  by (intro conjI preserved [OF insert_next_schema] preserved [OF delete_next_schema] preserved [OF update_next_cat [THEN cat_schema]])

end
