(* ===== verification/Portal.thy ===== *)
theory Portal
  imports Queries Planner RowWrites
begin

text \<open>
  The portal, \<^verbatim>\<open>portal.h\<close>, for queries over one table: how the plan of a \<open>SELECT\<close> becomes executors. Only projections,
  filters and sequential scans are built here; for a plan with other nodes the result is \<open>None\<close>. \<open>EXPLAIN\<close> is left out.
\<close>

section \<open>From plans to executors\<close>

text \<open>The constructor of \<open>SeqScanExecutor\<close>; \<open>cols_.back()\<close> of a table without columns is undefined.\<close>

definition new_seq_scan :: "string \<Rightarrow> Condition list \<Rightarrow> Context option \<Rightarrow>
    ('a sms_scheme, (seq_scan_obj, 'a sms_scheme) executor) op" where
  "new_seq_scan tab_name conds ctx = bindE (get_table tab_name) (\<lambda>tab. bindE (file_handle tab_name) (\<lambda>fd.
     if tm_cols tab = [] then raise (OutOfRange ''back'')
     else ret (seq_scan fd (tm_cols tab) conds ctx (scan_len (tm_cols tab)))))"

fun convert_scan :: "Context option \<Rightarrow> plan \<Rightarrow> ('a sms_scheme, (seq_scan_obj, 'a sms_scheme) executor option) op" where
  "convert_scan ctx (FilterPlan p conds) = bindE (convert_scan ctx p) (\<lambda>ch. ret (map_option (\<lambda>ch. filter_exec ch conds) ch))"
| "convert_scan ctx (ScanPlan x) =
     (if sp_index x then ret None else bindE (new_seq_scan (sp_tab x) (sp_conds x) ctx) (\<lambda>ex. ret (Some ex)))"
| "convert_scan ctx _ = ret None"

text \<open>The limit of the plan is not handed to the \<open>ProjectionExecutor\<close>, whose own default is \<open>-1\<close>.\<close>

fun convert_projection :: "Context option \<Rightarrow> plan \<Rightarrow>
    ('a sms_scheme, (TabCol list \<times> (seq_scan_obj proj_obj, 'a sms_scheme) executor) option) op" where
  "convert_projection ctx (ProjectionPlan p sel_cols limit all) = bindE (convert_scan ctx p) (\<lambda>ch. case ch of
     None \<Rightarrow> ret None
   | Some ch \<Rightarrow> bindE (liftR (new_projection (ex_cols ch) sel_cols)) (\<lambda>pcs. ret (Some (sel_cols, proj_exec ch pcs (- 1)))))"
| "convert_projection ctx _ = ret None"

text \<open>\<open>start\<close> for \<open>T_select\<close>: the captions and the tree.\<close>

fun start_select :: "Context option \<Rightarrow> plan \<Rightarrow>
    ('a sms_scheme, (TabCol list \<times> (seq_scan_obj proj_obj, 'a sms_scheme) executor) option) op" where
  "start_select ctx (DMLPlan T_select p _ _ _ _) = convert_projection ctx p"
| "start_select ctx _ = ret None"

section \<open>The plan of a query over one table\<close>

lemma one_table_plan:
  assumes "q_tables q = [t]" and "\<not> q_has_agg q" and "\<not> q_has_group q" and "\<not> q_has_order q"
    and "tabs t = Some tab" and "tm_cols tab \<noteq> []" and "get_index_cols tabs t (q_conds q) = Inr []"
  obtains x where "do_planner junk tabs (Select st) q =
      Inr (DMLPlan T_select (ProjectionPlan (with_filter (q_conds q) (ScanPlan x)) (q_cols q) (q_limit q) (q_select_all q)) [] [] [] [])"
    and "sp_tab x = t" and "sp_conds x = q_conds q" and "\<not> sp_index x"
proof -
  define l where "l = logical_optimization q"
  have l: "q_tables l = [t]" "\<not> q_has_agg l" "\<not> q_has_group l" "\<not> q_has_order l" "q_conds l = q_conds q" "q_cols l = q_cols q"
    "q_limit l = q_limit q" "q_select_all l = q_select_all q"
    using assms(1-4) by (simp_all add: l_def logical_optimization_def)
  obtain x where x: "new_ScanPlan tabs False t (q_conds q) [] (shown_as (q_aliases l) t) = Inr (ScanPlan x)"
    "sp_tab x = t" "sp_conds x = q_conds q" "\<not> sp_index x"
    using assms(5,6) by (simp add: new_ScanPlan_def table_of_def)
  have "physical_optimization junk tabs l = Inr (with_filter (q_conds q) (ScanPlan x))"
    using x(1) by (simp add: physical_optimization_def l assms(7))
  then have "do_planner junk tabs (Select st) q =
      Inr (DMLPlan T_select (ProjectionPlan (with_filter (q_conds q) (ScanPlan x)) (q_cols q) (q_limit q) (q_select_all q)) [] [] [] [])"
    using l by (simp add: generate_select_plan_def Let_def l_def [symmetric])
  then show ?thesis using that x(2-4) by blast
qed

text \<open>Its tree, with the scan below.\<close>

definition filtered_scan :: "int \<Rightarrow> ColMeta list \<Rightarrow> Condition list \<Rightarrow> Context option \<Rightarrow> (seq_scan_obj, 'a txnm_scheme) executor" where
  "filtered_scan fd cols conds ctx =
     (let ex = seq_scan fd cols conds ctx (scan_len cols) in if conds = [] then ex else filter_exec ex conds)"

lemma convert_one_table:
  assumes "sp_tab x = t" and "sp_conds x = conds" and "\<not> sp_index x"
    and "db_tabs s t = Some tab" and "tm_cols tab \<noteq> []" and "fhs s t = Some fd"
  shows "convert_scan ctx (with_filter conds (ScanPlan x)) s = (Inr (Some (filtered_scan fd (tm_cols tab) conds ctx)), s)"
  using assms by (simp add: with_filter_def new_seq_scan_def get_table_def file_handle_def filtered_scan_def Let_def bindE_apply)

lemma filtered_scan_cols: "ex_cols (filtered_scan fd cols conds ctx) = cols"
  by (simp add: filtered_scan_def Let_def filter_exec_def seq_scan_def)

section \<open>Its rows\<close>

locale filtered_plan = filtered ch world fresh ls at taken conds P
  for ch :: "('o, 'w) executor" and world :: "'w \<Rightarrow> bool" and fresh :: "'o \<Rightarrow> bool" and ls :: "byte list list"
    and at taken :: "'o \<Rightarrow> byte list option list \<Rightarrow> bool" and conds :: "Condition list" and P :: "byte list \<Rightarrow> bool" +
  fixes pcs :: "(ColMeta \<times> ColMeta) list" and f :: "byte list \<Rightarrow> byte list"
begin

sublocale result: projected "filter_exec ch conds" world "\<lambda>o1. conds_ok \<and> fresh o1" "filter_rows P ls" at_filter taken_filter pcs "- 1" f
  by unfold_locales

lemma filter_prints:
  assumes "world w" and "fresh (pr_child p)" and "sel_cols \<noteq> []" and "length sel_cols = length pcs" and "0 \<le> proj_len pcs"
    and "\<forall>v \<in> set ls. eval_conds trim_char conds v (ex_cols ch) = Inr (P v)"
    and "\<forall>v \<in> set ls. P v \<longrightarrow> proj_bytes pcs v = Inr (f v) \<and> row_texts (map snd pcs) (f v) = Inr (texts v)"
  shows "\<exists>p' w' c' front. select_from (proj_exec (filter_exec ch conds) pcs (- 1)) sel_cols ((p, w), c) = (Inr (), ((p', w'), c')) \<and> world w' \<and>
    out_file c' = out_file c @ file_line (map caption sel_cols) @ concat (map (\<lambda>v. file_line (texts v)) (filter P ls)) \<and>
    out_sent c' = front @ ''Total record(s): '' @ nat_str (length (filter P ls)) @ newline"
  using result.select_prints [of w p sel_cols texts c] assms unfolding the_rows_filter by (simp add: conds_ok_def)

end

interpretation scan_filter_plan: filtered_plan "seq_scan fd cols conds ctx len" "same_db s0" "\<lambda>_. scan_ok fd cols conds ctx s0"
    "scan_rows fd cols conds ctx s0" "at_scan fd cols conds ctx s0" "at_scan fd cols conds ctx s0" fconds P pcs f
    for fd cols conds ctx len fconds P pcs f and s0 :: "'a txnm_scheme"
  by unfold_locales

text \<open>The rows that satisfy the conditions as the filter compares strings, without the padding at their ends.\<close>

definition selected :: "ColMeta list \<Rightarrow> Condition list \<Rightarrow> byte list \<Rightarrow> bool" where
  "selected cols conds v \<longleftrightarrow> eval_conds trim_char conds v cols = Inr True"

definition selected_rows :: "int \<Rightarrow> ColMeta list \<Rightarrow> Condition list \<Rightarrow> Context option \<Rightarrow> 'a txnm_scheme \<Rightarrow> byte list list" where
  "selected_rows fd cols conds ctx s = filter (selected cols conds) (scan_rows fd cols conds ctx s)"

definition row_line :: "(ColMeta \<times> ColMeta) list \<Rightarrow> byte list \<Rightarrow> db_error + string list" where
  "row_line pcs v = bindR (proj_bytes pcs v) (row_texts (map snd pcs))"

lemma filtered_scan_prints:
  fixes s :: "'a txnm_scheme"
  assumes ok: "scan_ok fd cols conds ctx s" and p: "sel_cols \<noteq> []" "length sel_cols = length pcs" "0 \<le> proj_len pcs"
    and e: "\<forall>v \<in> set (scan_rows fd cols conds ctx s). \<exists>b. eval_conds trim_char conds v cols = Inr b"
    and t: "\<forall>v \<in> set (filter (selected cols conds) (scan_rows fd cols conds ctx s)). proj_bytes pcs v = Inr (f v) \<and> row_texts (map snd pcs) (f v) = Inr (texts v)"
  shows "\<exists>p' w' c' front. select_from (proj_exec (filtered_scan fd cols conds ctx) pcs (- 1)) sel_cols ((new_proj o1, s), c) = (Inr (), ((p', w'), c')) \<and>
    same_db s w' \<and> out_file c' = out_file c @ file_line (map caption sel_cols) @
      concat (map (\<lambda>v. file_line (texts v)) (selected_rows fd cols conds ctx s)) \<and>
    out_sent c' = front @ ''Total record(s): '' @ nat_str (length (selected_rows fd cols conds ctx s)) @ newline"
proof (cases "conds = []")
  case True
  then have "filter (selected cols conds) xs = xs" for xs by (simp add: selected_def)
  then show ?thesis
    using scan_proj.select_prints [where fd = fd and cols = cols and conds = conds and ctx = ctx and len = "scan_len cols" and ?s0.0 = s and w = s
        and p = "new_proj o1" and limit = "- 1" and sel_cols = sel_cols and pcs = pcs and f = f and texts = texts and c = c] assms True
    by (simp add: filtered_scan_def selected_rows_def)
next
  case False
  have "ex_cols (seq_scan fd cols conds ctx (scan_len cols) :: (seq_scan_obj, 'a txnm_scheme) executor) = cols" by (simp add: seq_scan_def)
  moreover have "\<forall>v \<in> set (scan_rows fd cols conds ctx s). eval_conds trim_char conds v cols = Inr (selected cols conds v)"
    using e by (auto simp: selected_def)
  ultimately show ?thesis
    using scan_filter_plan.filter_prints [where fd = fd and cols = cols and conds = conds and ctx = ctx and len = "scan_len cols" and ?s0.0 = s and w = s
        and p = "new_proj o1" and sel_cols = sel_cols and pcs = pcs and f = f and texts = texts and c = c and fconds = conds and P = "selected cols conds"]
      assms False
    by (simp add: filtered_scan_def selected_rows_def)
qed


lemma proj_cols_length: "proj_cols prev_cols sels off = Inr pcs \<Longrightarrow> length pcs = length sels"
  by (induction prev_cols sels off arbitrary: pcs rule: proj_cols.induct) (auto simp: bindR_Inr)

section \<open>A query over one table\<close>

text \<open>
  C30: \<open>SELECT columns FROM t WHERE conditions LIMIT n\<close>, without aggregates, \<open>GROUP BY\<close> and \<open>ORDER BY\<close>, when no index of
  the table fits the conditions. The planner makes a projection over a filter over a sequential scan, the portal the
  executors, and \<open>select_from\<close> writes the line of captions and after it exactly one line for each row that the reader sees and
  that satisfies the conditions, in the order of the record identifiers, and tells the client their number. This is
  so whatever \<open>n\<close> is: the limit gets lost between the plan and the executor. It holds in MVCC mode and outside of it; it is asked for
  that the table is open and has columns, that its records have at least sixteen bytes, as in MVCC mode all have, that none of the
  reads throws (in MVCC mode it does when an active transaction has deleted the record), that the conditions can be
  evaluated on the rows, and that the selected columns exist and lie within the rows that are printed.
\<close>

theorem query_prints_the_selected_rows:
  fixes s :: "'a sms_scheme"
  assumes "q_tables q = [t]" and "\<not> q_has_agg q" and "\<not> q_has_group q" and "\<not> q_has_order q"
    and "db_tabs s t = Some tab" and "tm_cols tab \<noteq> []" and "fhs s t = Some fd" and "get_index_cols (db_tabs s) t (q_conds q) = Inr []"
    and "scan_ok fd (tm_cols tab) (q_conds q) ctx s"
    and "\<forall>v \<in> set (scan_rows fd (tm_cols tab) (q_conds q) ctx s). \<exists>b. eval_conds trim_char (q_conds q) v (tm_cols tab) = Inr b"
    and "new_projection (tm_cols tab) (q_cols q) = Inr pcs" and "q_cols q \<noteq> []" and "0 \<le> proj_len pcs"
    and "\<forall>v \<in> set (selected_rows fd (tm_cols tab) (q_conds q) ctx s). row_line pcs v = Inr (texts v)"
  shows "\<exists>p ex p' w' c' front. do_planner junk (db_tabs s) (Select st) q = Inr p \<and> start_select ctx p s = (Inr (Some (q_cols q, ex)), s) \<and>
    select_from ex (q_cols q) ((new_proj o1, s), c) = (Inr (), ((p', w'), c')) \<and> same_db s w' \<and>
    out_file c' = out_file c @ file_line (map caption (q_cols q)) @
      concat (map (\<lambda>v. file_line (texts v)) (selected_rows fd (tm_cols tab) (q_conds q) ctx s)) \<and>
    out_sent c' = front @ ''Total record(s): '' @ nat_str (length (selected_rows fd (tm_cols tab) (q_conds q) ctx s)) @ newline"
proof -
  let ?ch = "filtered_scan fd (tm_cols tab) (q_conds q) ctx :: (seq_scan_obj, 'a sms_scheme) executor"
  obtain x where x: "do_planner junk (db_tabs s) (Select st) q =
      Inr (DMLPlan T_select (ProjectionPlan (with_filter (q_conds q) (ScanPlan x)) (q_cols q) (q_limit q) (q_select_all q)) [] [] [] [])"
    "sp_tab x = t" "sp_conds x = q_conds q" "\<not> sp_index x"
    by (rule one_table_plan [OF assms(1-4,5,6,8)])
  have "start_select ctx (DMLPlan T_select (ProjectionPlan (with_filter (q_conds q) (ScanPlan x)) (q_cols q) (q_limit q) (q_select_all q)) [] [] [] []) s =
      (Inr (Some (q_cols q, proj_exec ?ch pcs (- 1))), s)"
    using assms(11) by (simp add: bindE_apply convert_one_table [OF x(2-4) assms(5-7)] filtered_scan_cols)
  moreover have "\<forall>v \<in> set (selected_rows fd (tm_cols tab) (q_conds q) ctx s).
      proj_bytes pcs v = Inr (projr (proj_bytes pcs v)) \<and> row_texts (map snd pcs) (projr (proj_bytes pcs v)) = Inr (texts v)"
    using assms(14) by (auto simp: row_line_def bindR_Inr)
  moreover have "length (q_cols q) = length pcs"
    using assms(11) proj_cols_length by (fastforce simp: new_projection_def split: if_splits)
  ultimately show ?thesis
    using x(1) filtered_scan_prints [OF assms(9,12) _ assms(13,10), of "\<lambda>v. projr (proj_bytes pcs v)" texts o1 c]
    unfolding selected_rows_def by blast
qed

section \<open>A small query\<close>

text \<open>\<^verbatim>\<open>SELECT x FROM t WHERE x = x LIMIT 1\<close> in MVCC mode, on a table with one row whose stamp is 0.\<close>

definition demo_sel :: TabCol where
  "demo_sel = new_TabCol ''t'' ''x'' []"

definition demo_select :: Query where
  "demo_select = new_Query\<lparr>q_tables := [''t''], q_cols := [demo_sel], q_conds := [plain_cond demo_sel OP_EQ (Inl demo_sel)],
     q_limit := 1, q_has_limit := True\<rparr>"

lemma demo_more:
  fixes s t :: sms
  shows "dbs.more t = dbs.more s \<Longrightarrow> db_tabs t = db_tabs s"
  by (cases s; cases t; simp)

lemma demo_eval:
  "eval_conds norm (q_conds demo_select) (replicate 16 0) (tm_cols demo_items) = Inr True"
  by (simp add: demo_select_def new_Query_def demo_sel_def plain_cond_def demo_items_def new_table_def new_TabCol_def eval_cond_def exec_get_col_def
      col_is_def bytes_at_def width_of_def compare_values_def TYPE_INT_c_def TYPE_STRING_c_def c_int_def)

lemma demo_table_rows:
  obtains s :: sms where "db_tabs s = [''t'' \<mapsto> demo_items]" and "fhs s = [''t'' \<mapsto> 3]"
    and "scan_ok 3 (tm_cols demo_items) (q_conds demo_select) (Some (demo_reader 5)) s"
    and "scan_rows 3 (tm_cols demo_items) (q_conds demo_select) (Some (demo_reader 5)) s = [replicate 16 0]"
proof -
  let ?s = "demo_session MVCC" and ?raw = "replicate 32 (0 :: byte)" and ?c = "demo_reader 5"
  obtain r s where u: "rm_ok 3 s" "table 3 s = [r \<mapsto> ?raw]" "only_file 3 ?s s" "\<exists>h. file_hdrs s 3 = Some h \<and> record_size h = 32"
    by (rule demo_like_stored [OF demo_session_like [of MVCC], of ?raw]) auto
  obtain h where h: "file_hdrs s 3 = Some h" "16 \<le> record_size h" using u(4) by auto
  have meta: "meta_of_bytes ?raw = \<lparr>meta_ts = 0, meta_deleted = False\<rparr>" by (simp add: meta_of_bytes_def to_signed_def eval_nat_numeral)
  note p = part_sel [OF only_file_part [OF u(3)]]
  have mv: "concurrency_mode s = MVCC" "0 \<le> next_timestamp s + 1000"
    by (simp_all add: p) (simp add: demo_session_def ixs.defs txnm.defs sms.defs txnm_init_def dbs.defs)
  have raw: "table 3 s r = Some ?raw" and pl: "plausible ?raw s" using mv(2) by (simp_all add: u(2) plausible_def meta)
  obtain v where "get_record_mvcc 3 r (Some ?c) s = choose_version 5 (meta_of_bytes ?raw) (drop 16 ?raw) (GetVisibleVersionFromHistory 3 r 5) v"
    by (rule mvcc_read_spec [OF u(1) h(1) raw h(2) _ _ mv(1) pl, of ?c 5]) (simp_all add: demo_reader_def)
  then have row: "row_read 3 (Some ?c) s r = Inr (Some (replicate 16 0))"
    using mv(1) by (simp add: choose_unstamped meta row_read_def scan_record_def bindE_apply ctx_mvcc_def demo_reader_def)
  have "scan_ok 3 (tm_cols demo_items) (q_conds demo_select) (Some ?c) s" using u(1) h row demo_eval by (auto simp: scan_ok_def u(2))
  moreover have "scan_rows 3 (tm_cols demo_items) (q_conds demo_select) (Some ?c) s = [replicate 16 0]"
    by (simp add: scan_rows_def rids_of_def u(2) hit_def row_ok_def row row_at_def demo_eval del: eval_conds.simps)
  moreover have "db_tabs s = [''t'' \<mapsto> demo_items]" "fhs s = [''t'' \<mapsto> 3]"
    using u(3) demo_more [of s ?s] by (simp_all add: only_file_def)
  ultimately show thesis using that by blast
qed

theorem query_prints_the_selected_rows_witness:
  "\<exists>(s :: sms) st p ex w c'. do_planner demo_junk (db_tabs s) (Select st) demo_select = Inr p \<and>
    start_select (Some (demo_reader 5)) p s = (Inr (Some ([demo_sel], ex)), s) \<and>
    select_from ex [demo_sel] ((fresh_query, s), empty_out) = (Inr (), (w, c')) \<and> out_file c' = file_line [''x''] @ file_line [''0'']"
proof -
  obtain s :: sms where s: "db_tabs s = [''t'' \<mapsto> demo_items]" "fhs s = [''t'' \<mapsto> 3]"
    "scan_ok 3 (tm_cols demo_items) (q_conds demo_select) (Some (demo_reader 5)) s"
    "scan_rows 3 (tm_cols demo_items) (q_conds demo_select) (Some (demo_reader 5)) s = [replicate 16 0]"
    by (rule demo_table_rows) blast
  let ?pcs = "[(hd (tm_cols demo_items), hd (tm_cols demo_items))]"
  have cols: "new_projection (tm_cols demo_items) (q_cols demo_select) = Inr ?pcs" "0 \<le> proj_len ?pcs" "tm_cols demo_items \<noteq> []"
    by (simp_all add: new_projection_def demo_select_def demo_sel_def demo_items_def new_table_def new_Query_def new_TabCol_def exec_get_col_def
      col_is_def proj_len_def c_int_def)
  have ix: "get_index_cols (db_tabs s) ''t'' (q_conds demo_select) = Inr []" by (simp add: get_index_cols_def table_of_def s(1) demo_items_def new_table_def)
  have rows: "selected_rows 3 (tm_cols demo_items) (q_conds demo_select) (Some (demo_reader 5)) s = [replicate 16 0]"
    by (simp add: selected_rows_def s(4) selected_def demo_eval del: eval_conds.simps)
  have "row_line ?pcs (replicate 16 0) = row_texts [hd (tm_cols demo_items)] (replicate 4 0)"
    by (simp add: row_line_def demo_items_def new_table_def bytes_at_def)
  also have "\<dots> = Inr [''0'']" using demo_text by (simp add: demo_items_def new_table_def demo_cols_def value_text_def)
  finally have line: "\<forall>v \<in> set (selected_rows 3 (tm_cols demo_items) (q_conds demo_select) (Some (demo_reader 5)) s). row_line ?pcs v = Inr [''0'']"
    unfolding rows by simp
  have q: "q_tables demo_select = [''t'']" "\<not> q_has_agg demo_select" "\<not> q_has_group demo_select" "\<not> q_has_order demo_select" "q_cols demo_select = [demo_sel]"
    by (simp_all add: demo_select_def new_Query_def)
  have e: "\<forall>v \<in> set (scan_rows 3 (tm_cols demo_items) (q_conds demo_select) (Some (demo_reader 5)) s).
      \<exists>b. eval_conds trim_char (q_conds demo_select) v (tm_cols demo_items) = Inr b"
    by (auto simp: s(4) demo_eval simp del: eval_conds.simps)
  have "db_tabs s ''t'' = Some demo_items" "fhs s ''t'' = Some 3" by (simp_all add: s(1,2))
  from query_prints_the_selected_rows [OF q(1-4) this(1) cols(3) this(2) ix s(3) e cols(1) _ cols(2) line, of demo_junk st
      "\<lparr>ss_rid = invalid_rid, ss_scan = None\<rparr>" empty_out]
  show ?thesis unfolding rows q(5) by (fastforce simp: empty_out_def demo_sel_def caption_def new_TabCol_def)
qed

end
